(* ===== verification/Prelude.thy ===== *)
theory Prelude
  imports
    Main
    "HOL-Library.Code_Target_Nat"
    "HOL-Library.AList"
    "HOL-Library.Char_ord"
    "HOL-Library.List_Lexorder"
    "HOL-Library.Product_Lexorder"
    "HOL-Library.Multiset"
begin

text \<open>
  Shared vocabulary of the development: the exceptions the TypeScript code throws, the
  shape of a stateful method (a state transformer that may throw, with the state it leaves
  behind in either case), the JavaScript \<open>Map\<close> as an association list in insertion order,
  and the interface locales that several components rely on:
  \<^item> \<open>comparator\<close>: a three-way comparison function that is a total order on a key;
  \<^item> \<open>codec\<close>: an encoder with a partial decoder that inverts it;
  \<^item> \<open>atomic_machine\<close>: a command interpreter that keeps an invariant and leaves the state
    alone when it throws;
  \<^item> \<open>order_free_fold\<close>: a reducer whose observable result is a function of the set of
    inputs it has consumed.
\<close>

section \<open>Exceptions and stateful methods\<close>

datatype exn = TypeError string | RangeError string

text \<open>A method call: the outcome (\<open>Inl\<close> for a thrown exception) and the state after it.\<close>

type_synonym ('s, 'a) call = "(exn + 'a) \<times> 's"

abbreviation throws :: "exn \<Rightarrow> 's \<Rightarrow> ('s, 'a) call" where
  "throws e s \<equiv> (Inl e, s)"

abbreviation returns :: "'a \<Rightarrow> 's \<Rightarrow> ('s, 'a) call" where
  "returns v s \<equiv> (Inr v, s)"

definition threw :: "('s, 'a) call \<Rightarrow> bool" where
  "threw r = (case fst r of Inl _ \<Rightarrow> True | Inr _ \<Rightarrow> False)"

lemma threw_simps [simp]:
  "threw (Inl e, s)" "\<not> threw (Inr v, s)"
  by (simp_all add: threw_def)

text \<open>Lemma collections: unfolding of the operations, and their invariants.\<close>

named_theorems op_defs \<open>definitions of the modelled operations\<close>
named_theorems guard_defs \<open>definitions of the runtime type guards\<close>
named_theorems inv_intros \<open>invariant preservation by one operation\<close>

section \<open>JavaScript maps as association lists\<close>

text \<open>
  A JavaScript \<open>Map\<close> iterates in insertion order, and \<open>set\<close> on a present key keeps its
  position. \<^const>\<open>AList.update\<close> and \<^const>\<open>AList.delete\<close> have exactly this behaviour.
\<close>

type_synonym ('k, 'v) jsmap = "('k \<times> 'v) list"

abbreviation map_get :: "('k, 'v) jsmap \<Rightarrow> 'k \<Rightarrow> 'v option" where
  "map_get m k \<equiv> map_of m k"

definition map_get_or :: "'v \<Rightarrow> ('k, 'v) jsmap \<Rightarrow> 'k \<Rightarrow> 'v" where
  "map_get_or d m k = (case map_of m k of None \<Rightarrow> d | Some v \<Rightarrow> v)"

definition keys :: "('k, 'v) jsmap \<Rightarrow> 'k list" where
  "keys m = map fst m"

lemma map_of_update [simp]: "map_of (AList.update k v m) = (map_of m)(k \<mapsto> v)"
  by (simp add: update_conv')

lemma map_of_delete [simp]: "map_of (AList.delete k m) = (map_of m)(k := None)"
  by (simp add: delete_conv')

lemma map_get_or_update [simp]:
  "map_get_or d (AList.update k v m) k' = (if k' = k then v else map_get_or d m k')"
  by (simp add: map_get_or_def)

lemma map_get_or_Nil [simp]: "map_get_or d [] k = d"
  by (simp add: map_get_or_def)

lemma map_of_map_filter_keys:
  "map_of (filter (\<lambda>(k, v). P k) m) k = (if P k then map_of m k else None)"
  by (induction m) auto

text \<open>Keys and members after an update or a deletion.\<close>

lemma keys_update:
  "keys (AList.update k v m) = (if k \<in> set (keys m) then keys m else keys m @ [k])"
  by (simp add: keys_def update_keys)

lemma update_mem: "(a, b) \<in> set (AList.update k v m) \<Longrightarrow> (a = k \<and> b = v) \<or> (a, b) \<in> set m"
  by (induction m) (auto split: if_splits)

lemma update_absent: "k \<notin> set (keys m) \<Longrightarrow> AList.update k v m = m @ [(k, v)]"
  by (induction m) (auto simp: keys_def)

lemma delete_mem: "(a, b) \<in> set (AList.delete k m) \<longleftrightarrow> (a, b) \<in> set m \<and> a \<noteq> k"
  by (auto simp: AList.delete_eq)

lemma keys_delete: "keys (AList.delete k m) = filter (\<lambda>a. a \<noteq> k) (keys m)"
  by (induction m) (auto simp: keys_def)

lemma keys_mem: "(a, b) \<in> set m \<Longrightarrow> a \<in> set (keys m)"
  by (force simp: keys_def)

lemma update_mem_absent: "k \<notin> set (keys m) \<Longrightarrow> (a, b) \<in> set (AList.update k v m) \<longleftrightarrow> (a, b) \<in> set m \<or> (a = k \<and> b = v)"
  by (induction m) (auto simp: keys_def)

section \<open>Lists\<close>

lemma distinct_map_filter: "distinct (map f xs) \<Longrightarrow> distinct (map f (filter P xs))"
  by (induction xs) auto

lemma find_Some_set: "find P xs = Some x \<Longrightarrow> x \<in> set xs \<and> P x"
  by (auto simp: find_Some_iff)

text \<open>\<open>Array.prototype.findIndex\<close>, with \<open>None\<close> for \<open>-1\<close>.\<close>

fun find_index :: "('a \<Rightarrow> bool) \<Rightarrow> 'a list \<Rightarrow> nat option" where
  "find_index P [] = None"
| "find_index P (x # xs) = (if P x then Some 0 else map_option Suc (find_index P xs))"

lemma find_index_None [simp]: "find_index P xs = None \<longleftrightarrow> (\<forall>x\<in>set xs. \<not> P x)"
  by (induction xs) auto

lemma find_index_Some:
  "find_index P xs = Some i \<Longrightarrow> i < length xs \<and> P (xs ! i) \<and> (\<forall>j<i. \<not> P (xs ! j))"
proof (induction xs arbitrary: i)
  case (Cons x xs)
  show ?case
  proof (cases "P x")
    case False
    then obtain k where k: "find_index P xs = Some k" "i = Suc k"
      using Cons.prems by auto
    with Cons.IH [OF k(1)] False show ?thesis
      by (auto simp: less_Suc_eq_0_disj)
  qed (use Cons.prems in auto)
qed simp

lemma find_index_length: "find_index P xs = Some i \<Longrightarrow> i < length xs"
  by (simp add: find_index_Some)

text \<open>\<open>Array.prototype.splice(at, 0, x)\<close> and \<open>splice(i, 1)\<close>.\<close>

definition splice_insert :: "nat \<Rightarrow> 'a \<Rightarrow> 'a list \<Rightarrow> 'a list" where
  "splice_insert i x xs = take i xs @ x # drop i xs"

definition splice_remove :: "nat \<Rightarrow> 'a list \<Rightarrow> 'a list" where
  "splice_remove i xs = take i xs @ drop (Suc i) xs"

lemma set_splice_insert [simp]: "set (splice_insert i x xs) = insert x (set xs)"
  by (metis Un_insert_right append_take_drop_id list.simps(15) set_append splice_insert_def)

lemma mset_splice_insert [simp]: "mset (splice_insert i x xs) = add_mset x (mset xs)"
  by (metis append_take_drop_id mset.simps(2) mset_append splice_insert_def union_mset_add_mset_right)

lemma mset_splice_remove:
  "i < length xs \<Longrightarrow> add_mset (xs ! i) (mset (splice_remove i xs)) = mset xs"
  by (metis id_take_nth_drop mset.simps(2) mset_append splice_remove_def union_mset_add_mset_right)

lemma set_splice_remove_subset: "set (splice_remove i xs) \<subseteq> set xs"
  by (auto simp: splice_remove_def dest: in_set_takeD in_set_dropD)

lemma length_splice_insert [simp]: "length (splice_insert i x xs) = Suc (length xs)"
  by (simp add: splice_insert_def)

lemma length_splice_remove: "i < length xs \<Longrightarrow> length (splice_remove i xs) = length xs - 1"
  by (simp add: splice_remove_def)

lemma map_splice_insert: "map f (splice_insert i x xs) = splice_insert i (f x) (map f xs)"
  by (simp add: splice_insert_def take_map drop_map)

lemma map_splice_remove: "map f (splice_remove i xs) = splice_remove i (map f xs)"
  by (simp add: splice_remove_def take_map drop_map)

lemma distinct_splice_insert:
  "distinct (splice_insert i x xs) \<longleftrightarrow> x \<notin> set xs \<and> distinct xs"
proof -
  have "distinct (splice_insert i x xs) = distinct (x # xs)"
    by (rule mset_eq_imp_distinct_iff) simp
  then show ?thesis by simp
qed

lemma distinct_splice_remove:
  assumes "distinct xs"
  shows "distinct (splice_remove i xs)"
proof (cases "i < length xs")
  case True
  then have "distinct (xs ! i # splice_remove i xs)"
    using assms mset_eq_imp_distinct_iff [of "xs ! i # splice_remove i xs" xs]
    by (simp add: mset_splice_remove)
  then show ?thesis by simp
next
  case False
  with assms show ?thesis by (simp add: splice_remove_def)
qed

lemma set_splice_remove:
  assumes "distinct xs" "i < length xs"
  shows "set (splice_remove i xs) = set xs - {xs ! i}"
proof -
  have "insert (xs ! i) (set (splice_remove i xs)) = set xs"
    by (metis mset_splice_remove [OF assms(2)] set_mset_add_mset_insert set_mset_mset)
  moreover have "xs ! i \<notin> set (splice_remove i xs)"
  proof -
    have "distinct (xs ! i # splice_remove i xs)"
      using assms mset_eq_imp_distinct_iff [of "xs ! i # splice_remove i xs" xs]
      by (simp add: mset_splice_remove)
    then show ?thesis by simp
  qed
  ultimately show ?thesis by blast
qed

section \<open>Interfaces\<close>

subsection \<open>Three-way comparators and sorting\<close>

text \<open>
  \<open>Array.prototype.sort(cmp)\<close> is a stable sort; the model is insertion sort, which is stable
  too, so the two agree on every comparator that is a total preorder.
\<close>

fun insert_by :: "('a \<Rightarrow> 'a \<Rightarrow> int) \<Rightarrow> 'a \<Rightarrow> 'a list \<Rightarrow> 'a list" where
  "insert_by cmp x [] = [x]"
| "insert_by cmp x (y # ys) = (if cmp x y \<le> 0 then x # y # ys else y # insert_by cmp x ys)"

fun sort_by :: "('a \<Rightarrow> 'a \<Rightarrow> int) \<Rightarrow> 'a list \<Rightarrow> 'a list" where
  "sort_by cmp [] = []"
| "sort_by cmp (x # xs) = insert_by cmp x (sort_by cmp xs)"

lemma mset_insert_by [simp]: "mset (insert_by cmp x xs) = add_mset x (mset xs)"
  by (induction xs) auto

lemma mset_sort_by [simp]: "mset (sort_by cmp xs) = mset xs"
  by (induction xs) auto

lemma set_sort_by [simp]: "set (sort_by cmp xs) = set xs"
  by (metis mset_sort_by set_mset_mset)

lemma length_sort_by [simp]: "length (sort_by cmp xs) = length xs"
  by (metis mset_sort_by size_mset)

locale comparator =
  fixes cmp :: "'a \<Rightarrow> 'a \<Rightarrow> int"
    and key :: "'a \<Rightarrow> 'k::linorder"
  assumes cmp_pos: "0 < cmp a b \<longleftrightarrow> key b < key a"
    and cmp_neg: "cmp a b < 0 \<longleftrightarrow> key a < key b"
begin

lemma cmp_zero: "cmp a b = 0 \<longleftrightarrow> key a = key b"
  using cmp_pos [of a b] cmp_neg [of a b] by (metis less_irrefl linorder_neqE)

lemma cmp_le: "cmp a b \<le> 0 \<longleftrightarrow> key a \<le> key b"
  using cmp_pos [of a b] by (simp add: not_less [symmetric])

lemma cmp_refl [simp]: "cmp a a = 0"
  by (simp add: cmp_zero)

lemma cmp_trans: "cmp a b \<le> 0 \<Longrightarrow> cmp b c \<le> 0 \<Longrightarrow> cmp a c \<le> 0"
  by (simp add: cmp_le)

lemma cmp_flip: "cmp a b < 0 \<longleftrightarrow> 0 < cmp b a"
  by (simp add: cmp_pos cmp_neg)

lemma insert_by_key: "insert_by cmp x xs = insort_key key x xs"
  by (induction xs) (auto simp: cmp_le)

lemma sort_by_key: "sort_by cmp xs = sort_key key xs"
  by (induction xs) (simp_all add: insert_by_key)

lemma sort_by_sorted: "sorted (map key (sort_by cmp xs))"
  by (simp add: sort_by_key)

lemma sort_by_stable: "filter (\<lambda>y. key y = k) (sort_by cmp xs) = filter (\<lambda>y. key y = k) xs"
  by (simp add: sort_by_key sort_key_stable)

lemma sort_by_unique:
  "inj_on key (set xs) \<Longrightarrow> mset xs = mset ys \<Longrightarrow> sort_by cmp xs = sort_by cmp ys"
  unfolding sort_by_key
  by (metis properties_for_sort_key sort_key_inj_key_eq sorted_sort_key mset_sort)

end

subsection \<open>Encoders and decoders\<close>

locale codec =
  fixes enc :: "'a \<Rightarrow> 'b"
    and dec :: "'b \<Rightarrow> 'a option"
    and valid :: "'a \<Rightarrow> bool"
  assumes dec_enc: "valid x \<Longrightarrow> dec (enc x) = Some x"
begin

lemma enc_inj: "valid x \<Longrightarrow> valid y \<Longrightarrow> enc x = enc y \<Longrightarrow> x = y"
  by (metis dec_enc option.inject)

lemma enc_inj_on: "inj_on enc {x. valid x}"
  by (auto intro: inj_onI enc_inj)

lemma enc_eq_iff: "valid x \<Longrightarrow> valid y \<Longrightarrow> enc x = enc y \<longleftrightarrow> x = y"
  by (auto dest: enc_inj)

end

subsection \<open>Machines whose calls are atomic\<close>

fun run_calls :: "('c \<Rightarrow> 's \<Rightarrow> ('s, 'a) call) \<Rightarrow> 'c list \<Rightarrow> 's \<Rightarrow> 's" where
  "run_calls exec [] s = s"
| "run_calls exec (c # cs) s = run_calls exec cs (snd (exec c s))"

text \<open>The values the successful calls of a run return, in order.\<close>

fun run_values :: "('c \<Rightarrow> 's \<Rightarrow> ('s, 'a) call) \<Rightarrow> 'c list \<Rightarrow> 's \<Rightarrow> 'a list" where
  "run_values exec [] s = []"
| "run_values exec (c # cs) s =
     (case fst (exec c s) of
        Inl e \<Rightarrow> run_values exec cs (snd (exec c s))
      | Inr v \<Rightarrow> v # run_values exec cs (snd (exec c s)))"

locale atomic_machine =
  fixes exec :: "'c \<Rightarrow> 's \<Rightarrow> ('s, 'a) call"
    and inv :: "'s \<Rightarrow> bool"
    and rank :: "'s \<Rightarrow> 'k::linorder"
  assumes atomic: "threw (exec c s) \<Longrightarrow> snd (exec c s) = s"
    and keeps: "inv s \<Longrightarrow> inv (snd (exec c s))"
    and advances: "inv s \<Longrightarrow> rank s \<le> rank (snd (exec c s))"
begin

lemma run_keeps: "inv s \<Longrightarrow> inv (run_calls exec cs s)"
  by (induction cs arbitrary: s) (auto intro: keeps)

lemma run_advances: "inv s \<Longrightarrow> rank s \<le> rank (run_calls exec cs s)"
proof (induction cs arbitrary: s)
  case (Cons c cs)
  have "rank (snd (exec c s)) \<le> rank (run_calls exec cs (snd (exec c s)))"
    by (rule Cons.IH) (rule keeps [OF Cons.prems])
  then show ?case
    using advances [OF Cons.prems, of c] by simp
qed simp

text \<open>A call that throws can be deleted from a run.\<close>

lemma run_skip_throw:
  "threw (exec c (run_calls exec cs s)) \<Longrightarrow>
     run_calls exec (cs @ c # ds) s = run_calls exec (cs @ ds) s"
  by (induction cs arbitrary: s) (auto simp: atomic)

end

text \<open>A clock: every successful call returns the new rank, which is above the old one.\<close>

locale clock_machine = atomic_machine exec inv rank
  for exec :: "'c \<Rightarrow> 's \<Rightarrow> ('s, 'k::linorder) call" and inv and rank +
  assumes ticks: "inv s \<Longrightarrow> fst (exec c s) = Inr v \<Longrightarrow> rank s < v \<and> v = rank (snd (exec c s))"
begin

lemma run_values_above: "inv s \<Longrightarrow> v \<in> set (run_values exec cs s) \<Longrightarrow> rank s < v"
proof (induction cs arbitrary: s)
  case (Cons c cs)
  have le: "rank s \<le> rank (snd (exec c s))" and inv': "inv (snd (exec c s))"
    using Cons.prems(1) by (auto intro: advances keeps)
  show ?case
    using Cons.prems(2) ticks [OF Cons.prems(1), of c] Cons.IH [OF inv'] le
    by (auto split: sum.splits intro: le_less_trans)
qed simp

lemma run_values_strict: "inv s \<Longrightarrow> sorted_wrt (<) (run_values exec cs s)"
proof (induction cs arbitrary: s)
  case (Cons c cs)
  have inv': "inv (snd (exec c s))"
    using Cons.prems by (rule keeps)
  show ?case
    using Cons.IH [OF inv'] ticks [OF Cons.prems, of c] run_values_above [OF inv']
    by (auto split: sum.splits)
qed simp

lemma run_values_distinct: "inv s \<Longrightarrow> distinct (run_values exec cs s)"
  using run_values_strict by (metis strict_sorted_iff)

end

subsection \<open>Reducers whose result does not depend on delivery order\<close>

locale order_free_fold =
  fixes step :: "'e \<Rightarrow> 's \<Rightarrow> 's"
    and start :: "'s"
    and view :: "'s \<Rightarrow> 'v"
    and spec :: "'e set \<Rightarrow> 'v"
    and admits :: "'e set \<Rightarrow> bool"
  assumes view_spec: "admits (set es) \<Longrightarrow> view (fold step es start) = spec (set es)"
begin

lemma converges:
  "admits (set es) \<Longrightarrow> set es = set ds \<Longrightarrow> view (fold step es start) = view (fold step ds start)"
  by (simp add: view_spec)

lemma redelivery:
  "admits (set es) \<Longrightarrow> e \<in> set es \<Longrightarrow> view (step e (fold step es start)) = view (fold step es start)"
  using view_spec [of "es @ [e]"] view_spec [of es] by (simp add: insert_absorb)

lemma same_spec:
  "admits (set es) \<Longrightarrow> admits (set ds) \<Longrightarrow> spec (set es) = spec (set ds) \<Longrightarrow>
     view (fold step es start) = view (fold step ds start)"
  by (simp add: view_spec)

end

end
