(* ===== verification/JsValue.thy ===== *)
theory JsValue
  imports Prelude Complex_Main
begin

text \<open>
  JavaScript values as the runtime guards of \<open>packages/application/src/domain.ts\<close> see them
  (an argument of type \<open>unknown\<close>), the generic guards of that file (\<open>isRecord\<close>,
  \<open>hasExactKeys\<close>, \<open>isString\<close>, \<open>isSafeNonNegative\<close>, \<dots>) and the deep equality of
  \<open>sync/entry-order.ts\<close>. Finite numbers are rationals (every double is one; \<open>-0\<close> is
  identified with \<open>0\<close>), strings are lists of code units, an object is the list of its own
  properties in order, with distinct names when it is well formed.
\<close>

section \<open>Numbers\<close>

datatype jsnum = Fin rat | PosInf | NegInf | NaN

abbreviation max_safe :: nat where
  "max_safe \<equiv> 9007199254740991"

abbreviation jint :: "int \<Rightarrow> jsnum" where
  "jint i \<equiv> Fin (of_int i)"

abbreviation jnat :: "nat \<Rightarrow> jsnum" where
  "jnat n \<equiv> Fin (of_nat n)"

text \<open>\<open>Number.isSafeInteger\<close>, with the integer it recognises.\<close>

definition safe_int :: "jsnum \<Rightarrow> int option" where
  "safe_int x = (case x of
     Fin q \<Rightarrow> (if of_int \<lfloor>q\<rfloor> = q \<and> \<bar>\<lfloor>q\<rfloor>\<bar> \<le> int max_safe then Some \<lfloor>q\<rfloor> else None)
   | _ \<Rightarrow> None)"

definition safe_nat :: "jsnum \<Rightarrow> nat option" where
  "safe_nat x = (case safe_int x of Some i \<Rightarrow> if 0 \<le> i then Some (nat i) else None | None \<Rightarrow> None)"

text \<open>The numeric comparison \<open>a < b\<close> of JavaScript: false whenever an operand is \<open>NaN\<close>.\<close>

fun num_less :: "jsnum \<Rightarrow> jsnum \<Rightarrow> bool" where
  "num_less (Fin a) (Fin b) = (a < b)"
| "num_less (Fin a) PosInf = True"
| "num_less NegInf (Fin b) = True"
| "num_less NegInf PosInf = True"
| "num_less _ _ = False"

text \<open>The strict equality \<open>a === b\<close> on numbers, where \<open>NaN\<close> equals nothing.\<close>

definition num_eq :: "jsnum \<Rightarrow> jsnum \<Rightarrow> bool" where
  "num_eq a b = (a = b \<and> a \<noteq> NaN)"

lemma safe_int_jint: "safe_int (jint i) = (if \<bar>i\<bar> \<le> int max_safe then Some i else None)"
  by (simp add: safe_int_def)

lemma safe_int_jnat: "safe_int (jnat n) = (if n \<le> max_safe then Some (int n) else None)"
  by (simp add: safe_int_def)

lemma safe_nat_jnat [simp]: "safe_nat (jnat n) = (if n \<le> max_safe then Some n else None)"
  by (simp add: safe_nat_def safe_int_jnat)

lemma safe_int_Some: "safe_int x = Some i \<Longrightarrow> x = jint i \<and> \<bar>i\<bar> \<le> int max_safe"
  by (auto simp: safe_int_def split: jsnum.splits if_splits)

lemma safe_nat_Some: "safe_nat x = Some n \<Longrightarrow> x = jnat n \<and> n \<le> max_safe"
  by (auto simp: safe_nat_def dest: safe_int_Some split: option.splits if_splits)

lemma safe_nat_bound: "safe_nat x = Some n \<Longrightarrow> n \<le> max_safe"
  by (simp add: safe_nat_Some)

section \<open>Values\<close>

datatype jsval =
    JUndef
  | JNull
  | JBool bool
  | JNum jsnum
  | JStr string
  | JArr "jsval list"
  | JObj "(string \<times> jsval) list"

fun isRecord :: "jsval \<Rightarrow> bool" where
  "isRecord (JObj _) = True"
| "isRecord _ = False"

text \<open>Property read: \<open>undefined\<close> when the key is absent.\<close>

fun propOf :: "jsval \<Rightarrow> string \<Rightarrow> jsval" where
  "propOf (JObj ps) k = (case map_of ps k of Some v \<Rightarrow> v | None \<Rightarrow> JUndef)"
| "propOf _ k = JUndef"

fun own_keys :: "jsval \<Rightarrow> string list" where
  "own_keys (JObj ps) = map fst ps"
| "own_keys _ = []"

definition hasOwn :: "jsval \<Rightarrow> string \<Rightarrow> bool" where
  "hasOwn v k = (k \<in> set (own_keys v))"

definition hasExactKeys :: "jsval \<Rightarrow> string list \<Rightarrow> bool" where
  "hasExactKeys v ks = (length (own_keys v) = length ks \<and> (\<forall>k\<in>set ks. hasOwn v k))"

definition hasKeys :: "jsval \<Rightarrow> string list \<Rightarrow> string list \<Rightarrow> bool" where
  "hasKeys v required optional =
     ((\<forall>k\<in>set (own_keys v). k \<in> set required \<or> k \<in> set optional) \<and>
      (\<forall>k\<in>set required. hasOwn v k))"

fun isString :: "jsval \<Rightarrow> nat \<Rightarrow> bool" where
  "isString (JStr s) mx = (0 < length s \<and> length s \<le> mx)"
| "isString _ mx = False"

definition isOptString :: "jsval \<Rightarrow> nat \<Rightarrow> bool" where
  "isOptString v mx = (v = JNull \<or> isString v mx)"

fun isSafeNonNegative :: "jsval \<Rightarrow> bool" where
  "isSafeNonNegative (JNum x) = (safe_nat x \<noteq> None)"
| "isSafeNonNegative _ = False"

definition isOptSafeNonNegative :: "jsval \<Rightarrow> bool" where
  "isOptSafeNonNegative v = (v = JNull \<or> isSafeNonNegative v)"

fun isFiniteNumber :: "jsval \<Rightarrow> bool" where
  "isFiniteNumber (JNum (Fin q)) = True"
| "isFiniteNumber _ = False"

text \<open>Membership guard for a string-valued enum set.\<close>

fun isIn :: "string list \<Rightarrow> jsval \<Rightarrow> bool" where
  "isIn xs (JStr s) = (s \<in> set xs)"
| "isIn xs _ = False"

fun isArr :: "(jsval list \<Rightarrow> bool) \<Rightarrow> jsval \<Rightarrow> bool" where
  "isArr P (JArr xs) = P xs"
| "isArr P _ = False"

lemma isString_iff: "isString v mx \<longleftrightarrow> (\<exists>s. v = JStr s \<and> s \<noteq> [] \<and> length s \<le> mx)"
  by (cases v) auto

lemma isSafeNonNegative_iff: "isSafeNonNegative v \<longleftrightarrow> (\<exists>n\<le>max_safe. v = JNum (jnat n))"
proof (cases v)
  case (JNum x)
  then show ?thesis
    by (auto dest!: safe_nat_Some)
qed auto

lemma isRecord_iff: "isRecord v \<longleftrightarrow> (\<exists>ps. v = JObj ps)"
  by (cases v) auto

lemma isIn_iff: "isIn xs v \<longleftrightarrow> (\<exists>s. v = JStr s \<and> s \<in> set xs)"
  by (cases v) auto

section \<open>Well-formed values and deep equality\<close>

text \<open>An object has each own property once.\<close>

fun wf_val :: "jsval \<Rightarrow> bool" where
  "wf_val (JArr xs) = list_all wf_val xs"
| "wf_val (JObj ps) = (distinct (map fst ps) \<and> list_all (\<lambda>(k, v). wf_val v) ps)"
| "wf_val _ = True"

text \<open>
  \<open>jsonEquals\<close>: identical scalars (\<open>Object.is\<close>, under which \<open>NaN\<close> equals itself), arrays
  elementwise, records by their own keys in any order.
\<close>

function jsonEquals :: "jsval \<Rightarrow> jsval \<Rightarrow> bool" where
  "jsonEquals a b = (case (a, b) of
     (JArr xs, JArr ys) \<Rightarrow>
       length xs = length ys \<and> list_all (\<lambda>(x, y). jsonEquals x y) (zip xs ys)
   | (JObj ps, JObj qs) \<Rightarrow>
       length ps = length qs \<and>
       list_all (\<lambda>(k, v). case map_of qs k of None \<Rightarrow> False | Some w \<Rightarrow> jsonEquals v w) ps
   | _ \<Rightarrow> a = b)"
  by pat_completeness auto
termination
  by (relation "measure (\<lambda>(a, b). size a)")
     (auto dest!: set_zip_leftD elim!: size_list_estimation'
       simp: less_Suc_eq_le intro!: size_list_estimation' [where f = "\<lambda>p. Suc (size (snd p))"])

declare jsonEquals.simps [simp del]

end
