(* ===== verification/Hlc.thy ===== *)
theory Hlc
  imports JsValue
begin

text \<open>
  The hybrid logical clock of \<open>packages/application/src/sync/hlc.ts\<close>. A stamp is the pair
  \<open>(l, c)\<close>, ordered lexicographically (\<open>compareStamp\<close>); \<open>HybridClock\<close> is a stamp that
  \<open>tick\<close> and \<open>receive\<close> move forward. Both throw on malformed arguments and when the stamp
  space is exhausted. The clock is a \<open>clock_machine\<close>: its stamps are strictly increasing,
  whatever the wall clock does.
\<close>

section \<open>Stamps\<close>

datatype hlcStamp = Stamp (stamp_l: nat) (stamp_c: nat)

instantiation hlcStamp :: linorder
begin

definition less_eq_hlcStamp :: "hlcStamp \<Rightarrow> hlcStamp \<Rightarrow> bool" where
  "less_eq_hlcStamp a b =
     (stamp_l a < stamp_l b \<or> stamp_l a = stamp_l b \<and> stamp_c a \<le> stamp_c b)"

definition less_hlcStamp :: "hlcStamp \<Rightarrow> hlcStamp \<Rightarrow> bool" where
  "less_hlcStamp a b =
     (stamp_l a < stamp_l b \<or> stamp_l a = stamp_l b \<and> stamp_c a < stamp_c b)"

instance
  by standard (auto simp: less_eq_hlcStamp_def less_hlcStamp_def intro: hlcStamp.expand)

end

lemmas stamp_order = less_eq_hlcStamp_def less_hlcStamp_def

definition isHlcStamp :: "jsval \<Rightarrow> bool" where
  [guard_defs]: "isHlcStamp v =
     (isRecord v \<and> hasExactKeys v [''l'', ''c''] \<and>
      isSafeNonNegative (propOf v ''l'') \<and> isSafeNonNegative (propOf v ''c''))"

text \<open>The JavaScript object of a stamp, and the stamp a guarded object holds.\<close>

definition stamp_val :: "hlcStamp \<Rightarrow> jsval" where
  "stamp_val s = JObj [(''l'', JNum (jnat (stamp_l s))), (''c'', JNum (jnat (stamp_c s)))]"

fun nat_of_val :: "jsval \<Rightarrow> nat" where
  "nat_of_val (JNum x) = (case safe_nat x of Some n \<Rightarrow> n | None \<Rightarrow> 0)"
| "nat_of_val _ = 0"

definition stamp_of_val :: "jsval \<Rightarrow> hlcStamp option" where
  "stamp_of_val v =
     (if isHlcStamp v then Some (Stamp (nat_of_val (propOf v ''l'')) (nat_of_val (propOf v ''c'')))
      else None)"

definition stamp_ok :: "hlcStamp \<Rightarrow> bool" where
  "stamp_ok s = (stamp_l s \<le> max_safe \<and> stamp_c s \<le> max_safe)"

text \<open>\<open>a.l - b.l || a.c - b.c\<close>: differences of safe integers are exact.\<close>

definition compareStamp :: "hlcStamp \<Rightarrow> hlcStamp \<Rightarrow> int" where
  "compareStamp a b =
     (let dl = int (stamp_l a) - int (stamp_l b)
      in if dl \<noteq> 0 then dl else int (stamp_c a) - int (stamp_c b))"

interpretation stamp_cmp: comparator compareStamp "\<lambda>s. s"
  by unfold_locales (auto simp: compareStamp_def Let_def stamp_order)

interpretation stamp_codec: codec stamp_val stamp_of_val stamp_ok
  by unfold_locales
     (simp add: stamp_of_val_def stamp_val_def isHlcStamp_def hasExactKeys_def hasOwn_def stamp_ok_def)

section \<open>The clock\<close>

text \<open>The constructor rehydrates from the largest known stamp and refuses a malformed one.\<close>

definition new_clock :: "jsval \<Rightarrow> exn + hlcStamp" where
  "new_clock saved =
     (if saved = JUndef then Inr (Stamp 0 0)
      else case stamp_of_val saved of
             Some s \<Rightarrow> Inr s
           | None \<Rightarrow> Inl (TypeError ''invalid initial stamp''))"

text \<open>The stamp a call leaves in the clock is the value it returns.\<close>

definition set_stamp :: "hlcStamp \<Rightarrow> (hlcStamp, hlcStamp) call" where
  "set_stamp s = returns s s"

definition hlc_tick :: "jsnum \<Rightarrow> hlcStamp \<Rightarrow> (hlcStamp, hlcStamp) call" where
  [op_defs]: "hlc_tick nowMs clk =
     (case safe_nat nowMs of
        None \<Rightarrow> throws (TypeError ''nowMs must be a safe nonnegative integer'') clk
      | Some now \<Rightarrow>
          if stamp_l clk < now then set_stamp (Stamp now 0)
          else if stamp_c clk = max_safe then
            (if stamp_l clk = max_safe then throws (RangeError ''hlc exhausted'') clk
             else set_stamp (Stamp (stamp_l clk + 1) 0))
          else set_stamp (Stamp (stamp_l clk) (stamp_c clk + 1)))"

text \<open>The \<open>l\<close> and \<open>c\<close> of the standard receive rule, before the overflow check.\<close>

definition receive_l :: "hlcStamp \<Rightarrow> hlcStamp \<Rightarrow> nat \<Rightarrow> nat" where
  "receive_l clk r now = max (max (stamp_l clk) (stamp_l r)) now"

definition receive_c :: "hlcStamp \<Rightarrow> hlcStamp \<Rightarrow> nat \<Rightarrow> nat" where
  "receive_c clk r l =
     (if l = stamp_l clk \<and> l = stamp_l r then max (stamp_c clk) (stamp_c r) + 1
      else if l = stamp_l clk then stamp_c clk + 1
      else if l = stamp_l r then stamp_c r + 1
      else 0)"

definition hlc_receive :: "jsval \<Rightarrow> jsnum \<Rightarrow> hlcStamp \<Rightarrow> (hlcStamp, hlcStamp) call" where
  [op_defs]: "hlc_receive remote nowMs clk =
     (case stamp_of_val remote of
        None \<Rightarrow> throws (TypeError ''remote must be a valid stamp'') clk
      | Some r \<Rightarrow>
          (case safe_nat nowMs of
             None \<Rightarrow> throws (TypeError ''nowMs must be a safe nonnegative integer'') clk
           | Some now \<Rightarrow>
               let l = receive_l clk r now; c = receive_c clk r l
               in if max_safe < c then
                    (if l = max_safe then throws (RangeError ''hlc exhausted'') clk
                     else set_stamp (Stamp (l + 1) 0))
                  else set_stamp (Stamp l c)))"

datatype clock_op = Tick jsnum | Receive jsval jsnum

fun clock_exec :: "clock_op \<Rightarrow> hlcStamp \<Rightarrow> (hlcStamp, hlcStamp) call" where
  "clock_exec (Tick now) clk = hlc_tick now clk"
| "clock_exec (Receive remote now) clk = hlc_receive remote now clk"

section \<open>Laws\<close>

lemma stamp_of_val_ok: "stamp_of_val v = Some s \<Longrightarrow> stamp_ok s"
  by (auto simp: stamp_of_val_def isHlcStamp_def isSafeNonNegative_iff stamp_ok_def split: if_splits)

lemma tick_returns: "fst (hlc_tick now clk) = Inr v \<Longrightarrow> snd (hlc_tick now clk) = v"
  by (auto simp: hlc_tick_def set_stamp_def split: option.splits if_splits)

lemma receive_returns: "fst (hlc_receive r now clk) = Inr v \<Longrightarrow> snd (hlc_receive r now clk) = v"
  by (auto simp: hlc_receive_def set_stamp_def Let_def split: option.splits if_splits)

lemma tick_above: "fst (hlc_tick now clk) = Inr v \<Longrightarrow> clk < v"
  by (auto simp: hlc_tick_def set_stamp_def stamp_order split: option.splits if_splits)

lemma tick_ok: "stamp_ok clk \<Longrightarrow> fst (hlc_tick now clk) = Inr v \<Longrightarrow> stamp_ok v"
  by (auto simp: hlc_tick_def set_stamp_def stamp_ok_def dest: safe_nat_bound
           split: option.splits if_splits)

lemma receive_l_ge: "stamp_l clk \<le> receive_l clk r now" "stamp_l r \<le> receive_l clk r now"
  by (simp_all add: receive_l_def)

lemma receive_stamp_above:
  assumes "l = receive_l clk r now"
  shows "clk < Stamp l (receive_c clk r l)" "r < Stamp l (receive_c clk r l)"
    and "clk < Stamp (l + 1) 0" "r < Stamp (l + 1) 0"
  using receive_l_ge(1) [of clk r now] receive_l_ge(2) [of r clk now] assms by (auto simp: stamp_order receive_c_def)

lemma receive_above:
  "fst (hlc_receive r now clk) = Inr v \<Longrightarrow> clk < v \<and> (\<forall>s. stamp_of_val r = Some s \<longrightarrow> s < v)"
  by (auto simp: hlc_receive_def set_stamp_def Let_def
           intro: receive_stamp_above receive_stamp_above(3,4) [simplified] split: option.splits if_splits)

lemma receive_ok: "stamp_ok clk \<Longrightarrow> fst (hlc_receive r now clk) = Inr v \<Longrightarrow> stamp_ok v"
  by (auto simp: hlc_receive_def set_stamp_def Let_def stamp_ok_def receive_l_def
           dest!: safe_nat_bound stamp_of_val_ok split: option.splits if_splits)

lemma clock_exec_atomic: "threw (clock_exec c clk) \<Longrightarrow> snd (clock_exec c clk) = clk"
  by (cases c)
     (auto simp: op_defs set_stamp_def Let_def split: option.splits if_splits)

lemma clock_exec_returns: "fst (clock_exec c clk) = Inr v \<Longrightarrow> snd (clock_exec c clk) = v"
  by (cases c) (auto simp: tick_returns receive_returns)

lemma clock_exec_above: "fst (clock_exec c clk) = Inr v \<Longrightarrow> clk < v"
  by (cases c) (auto simp: tick_above dest: receive_above)

lemma clock_exec_ok: "stamp_ok clk \<Longrightarrow> stamp_ok (snd (clock_exec c clk))"
proof (cases "fst (clock_exec c clk)")
  case (Inl e)
  then have "snd (clock_exec c clk) = clk"
    by (intro clock_exec_atomic) (simp add: threw_def)
  then show "stamp_ok clk \<Longrightarrow> ?thesis" by simp
next
  case (Inr v)
  then show "stamp_ok clk \<Longrightarrow> ?thesis"
    using clock_exec_returns [OF Inr] by (cases c) (auto intro: tick_ok receive_ok)
qed

lemma clock_exec_mono: "clk \<le> snd (clock_exec c clk)"
proof (cases "fst (clock_exec c clk)")
  case (Inl e)
  then show ?thesis
    using clock_exec_atomic [of c clk] by (simp add: threw_def)
next
  case (Inr v)
  then show ?thesis
    using clock_exec_above [OF Inr] clock_exec_returns [OF Inr] by simp
qed

interpretation hlc: clock_machine clock_exec stamp_ok "\<lambda>s. s"
  by unfold_locales
     (auto simp: clock_exec_atomic clock_exec_ok clock_exec_mono clock_exec_above clock_exec_returns)

text \<open>When a call can fail at all.\<close>

lemma tick_total:
  "(\<exists>v. fst (hlc_tick (jnat now) clk) = Inr v) \<longleftrightarrow>
     now \<le> max_safe \<and> (stamp_l clk < now \<or> clk \<noteq> Stamp max_safe max_safe)"
  by (cases clk) (auto simp: hlc_tick_def set_stamp_def)

end
