(* ===== verification/EntryOrder.thy ===== *)
theory EntryOrder
  imports Hlc Decimal
begin

text \<open>
  Change entries and their order: \<open>packages/application/src/sync/entry-order.ts\<close> with the
  entry type, the record kinds and the record-id encoding of
  \<open>packages/application/src/sync/sync-engine.ts\<close>. The total order on entries is the hybrid
  stamp, then the device id; the dedupe key and the record ids are shown injective.
\<close>

section \<open>Record kinds and entries\<close>

datatype syncKind =
    Recording | RecordingSourceRef | RecordingMapping | LikeKind | EntityRec | EntitySourceRef
  | Playlist | PlaylistEntry | PlayEvent | PlayCount | MatchReview | Settings

text \<open>The wire spelling of a kind.\<close>

fun kind_str :: "syncKind \<Rightarrow> string" where
  "kind_str Recording = ''recording''"
| "kind_str RecordingSourceRef = ''recordingSourceRef''"
| "kind_str RecordingMapping = ''recordingMapping''"
| "kind_str LikeKind = ''like''"
| "kind_str EntityRec = ''entity''"
| "kind_str EntitySourceRef = ''entitySourceRef''"
| "kind_str Playlist = ''playlist''"
| "kind_str PlaylistEntry = ''playlistEntry''"
| "kind_str PlayEvent = ''playEvent''"
| "kind_str PlayCount = ''playCount''"
| "kind_str MatchReview = ''matchReview''"
| "kind_str Settings = ''settings''"

definition sync_record_kinds :: "syncKind list" where
  "sync_record_kinds =
     [Recording, RecordingSourceRef, RecordingMapping, LikeKind, EntityRec, EntitySourceRef,
      Playlist, PlaylistEntry, PlayEvent, PlayCount, MatchReview, Settings]"

definition kind_of_str :: "string \<Rightarrow> syncKind option" where
  "kind_of_str s = find (\<lambda>k. kind_str k = s) sync_record_kinds"

lemma kind_listed: "k \<in> set sync_record_kinds"
  by (cases k) (simp_all add: sync_record_kinds_def)

interpretation kind_codec: codec kind_str kind_of_str "\<lambda>_. True"
proof
  show "kind_of_str (kind_str k) = Some k" for k
    by (cases k) (simp_all add: kind_of_str_def sync_record_kinds_def)
qed

record changeEntry =
  ce_kind :: syncKind
  ce_recordId :: string
  ce_field :: string
  ce_value :: jsval
  ce_tombstone :: bool
  ce_hlc :: hlcStamp
  ce_deviceId :: string
  ce_seq :: nat

section \<open>The total order and the dedupe key\<close>

definition KEY_SEP :: char where
  "KEY_SEP = CHR 0x1F"

text \<open>The key the order compares: \<open>(l, c)\<close>, then the device id as a string.\<close>

definition entry_ts :: "changeEntry \<Rightarrow> hlcStamp \<times> string" where
  "entry_ts e = (ce_hlc e, ce_deviceId e)"

definition compareEntryTs :: "changeEntry \<Rightarrow> changeEntry \<Rightarrow> int" where
  "compareEntryTs a b =
     (let byStamp = compareStamp (ce_hlc a) (ce_hlc b)
      in if byStamp \<noteq> 0 then byStamp
         else if ce_deviceId a < ce_deviceId b then -1
         else if ce_deviceId b < ce_deviceId a then 1
         else 0)"

interpretation entry_cmp: comparator compareEntryTs entry_ts
proof
  show "0 < compareEntryTs a b \<longleftrightarrow> entry_ts b < entry_ts a" for a b
    using stamp_cmp.cmp_pos [of "ce_hlc a" "ce_hlc b"] stamp_cmp.cmp_zero [of "ce_hlc a" "ce_hlc b"]
    by (auto simp: compareEntryTs_def entry_ts_def Let_def less_prod_def)
  show "compareEntryTs a b < 0 \<longleftrightarrow> entry_ts a < entry_ts b" for a b
    using stamp_cmp.cmp_neg [of "ce_hlc a" "ce_hlc b"] stamp_cmp.cmp_zero [of "ce_hlc a" "ce_hlc b"]
    by (auto simp: compareEntryTs_def entry_ts_def Let_def less_prod_def)
qed

definition entryKey :: "changeEntry \<Rightarrow> string" where
  "entryKey e = ce_deviceId e @ KEY_SEP # show_nat (stamp_l (ce_hlc e)) @ KEY_SEP #
                show_nat (stamp_c (ce_hlc e))"

lemma key_sep_not_digit: "\<not> is_digit KEY_SEP"
  by (simp add: is_digit_def KEY_SEP_def)

lemma entryKey_eq_iff: "entryKey a = entryKey b \<longleftrightarrow> entry_ts a = entry_ts b"
proof
  assume eq: "entryKey a = entryKey b"
  note sep = digit_not_in_show [OF key_sep_not_digit]
  from eq have tail:
    "ce_deviceId a @ KEY_SEP # show_nat (stamp_l (ce_hlc a)) =
       ce_deviceId b @ KEY_SEP # show_nat (stamp_l (ce_hlc b))
     \<and> show_nat (stamp_c (ce_hlc a)) = show_nat (stamp_c (ce_hlc b))"
    unfolding entryKey_def
    by (intro split_at_last_unique [where c = KEY_SEP]) (simp_all add: sep)
  then have "ce_deviceId a = ce_deviceId b
     \<and> show_nat (stamp_l (ce_hlc a)) = show_nat (stamp_l (ce_hlc b))"
    by (intro split_at_last_unique [where c = KEY_SEP]) (simp_all add: sep)
  with tail show "entry_ts a = entry_ts b"
    by (simp add: entry_ts_def hlcStamp.expand)
qed (simp add: entry_ts_def entryKey_def)

section \<open>Record ids\<close>

text \<open>\<open>parts.map((part) => `${part.length}:${part}`).join('')\<close>\<close>

definition encodePart :: "string \<Rightarrow> string" where
  "encodePart part = show_nat (length part) @ CHR '':'' # part"

definition encodeRecordId :: "string list \<Rightarrow> string" where
  "encodeRecordId parts = concat (map encodePart parts)"

text \<open>
  The loop of \<open>decodeRecordId\<close>; its \<open>pos\<close> is the number of code units already dropped from
  the front of the string, so the argument is \<open>recordId.slice(pos)\<close>. A \<open>parseInt\<close> result
  above the safe range is rounded by JavaScript, but never back into it.
\<close>

function decode_from :: "string \<Rightarrow> string list option" where
  "decode_from s =
     (if s = [] then Some []
      else case find_index (\<lambda>c. c = CHR '':'') s of
             None \<Rightarrow> None
           | Some colon \<Rightarrow>
               let rawLen = take colon s; rest = drop (colon + 1) s
               in (case parse_nat rawLen of
                     None \<Rightarrow> None
                   | Some len \<Rightarrow>
                       if max_safe < len then None
                       else if length rest < len then None
                       else map_option (\<lambda>parts. take len rest # parts)
                              (decode_from (drop len rest))))"
  by pat_completeness auto
termination
  by (relation "measure length") (auto dest: find_index_length)

declare decode_from.simps [simp del]

definition decodeRecordId :: "string \<Rightarrow> string list option" where
  "decodeRecordId recordId = decode_from recordId"

lemma find_index_here: "\<forall>x\<in>set xs. \<not> P x \<Longrightarrow> P y \<Longrightarrow> find_index P (xs @ y # ys) = Some (length xs)"
  by (induction xs) auto

lemma colon_not_digit: "\<not> is_digit (CHR '':'')"
  by (simp add: is_digit_def)

lemma decode_from_part:
  assumes "length p \<le> max_safe"
  shows "decode_from (encodePart p @ s) = map_option (\<lambda>parts. p # parts) (decode_from s)"
proof -
  let ?n = "show_nat (length p)"
  have "find_index (\<lambda>c. c = CHR '':'') (encodePart p @ s) = Some (length ?n)"
    unfolding encodePart_def append.assoc append_Cons
    by (rule find_index_here) (use digit_not_in_show [OF colon_not_digit] in auto)
  moreover have "parse_nat ?n = Some (length p)"
    by (rule decimal.dec_enc) simp
  ultimately show ?thesis
    using assms
    by (subst decode_from.simps) (simp add: encodePart_def)
qed

lemma decode_encode:
  "\<forall>p\<in>set parts. length p \<le> max_safe \<Longrightarrow> decodeRecordId (encodeRecordId parts) = Some parts"
  unfolding decodeRecordId_def encodeRecordId_def
  by (induction parts) (simp_all add: decode_from_part, simp add: decode_from.simps)

interpretation record_id: codec encodeRecordId decodeRecordId
  "\<lambda>parts. \<forall>p\<in>set parts. length p \<le> max_safe"
  by unfold_locales (rule decode_encode)

section \<open>The composite ids\<close>

definition likeRecordId :: "string \<Rightarrow> string \<Rightarrow> string" where
  "likeRecordId entityKind targetId = encodeRecordId [entityKind, targetId]"

text \<open>A source ref as three strings: provider, kind, id.\<close>

record sourceRef =
  ref_provider :: string
  ref_kind :: string
  ref_id :: string

definition sourceRefRecordId :: "string \<Rightarrow> sourceRef \<Rightarrow> string" where
  "sourceRefRecordId recordingId ref =
     encodeRecordId [recordingId, ref_provider ref, ref_kind ref, ref_id ref]"

definition mappingRecordId :: "string \<Rightarrow> sourceRef \<Rightarrow> string \<Rightarrow> nat \<Rightarrow> string" where
  "mappingRecordId recordingId ref status matchedAtMs =
     encodeRecordId [recordingId, ref_provider ref, ref_kind ref, ref_id ref, status,
                     show_nat matchedAtMs]"

definition entitySourceRefRecordId :: "string \<Rightarrow> string \<Rightarrow> string" where
  "entitySourceRefRecordId entityId provider = encodeRecordId [entityId, provider]"

definition syncedRecordKey :: "syncKind \<Rightarrow> string \<Rightarrow> string" where
  "syncedRecordKey kind recordId = kind_str kind @ KEY_SEP # recordId"

lemma kind_str_no_sep: "KEY_SEP \<notin> set (kind_str k)"
  by (cases k) (simp_all add: KEY_SEP_def)

lemma syncedRecordKey_eq_iff [simp]:
  "syncedRecordKey k r = syncedRecordKey k' r' \<longleftrightarrow> k = k' \<and> r = r'"
  unfolding syncedRecordKey_def
  using split_at_first_unique [OF _ kind_str_no_sep kind_str_no_sep, of k r k' r']
  by (auto simp: kind_codec.enc_eq_iff)

text \<open>\<open>materialize()\<close> groups a dependent record under the id of its parent.\<close>

definition grouped_kinds :: "syncKind list" where
  "grouped_kinds =
     [Recording, RecordingSourceRef, RecordingMapping, PlayCount, EntityRec, EntitySourceRef,
      Playlist]"

definition materializeGroup :: "syncKind \<Rightarrow> string \<Rightarrow> string" where
  "materializeGroup kind recordId =
     (if kind = RecordingSourceRef \<or> kind = RecordingMapping \<or> kind = EntitySourceRef
      then (case decodeRecordId recordId of Some (p # _) \<Rightarrow> p | _ \<Rightarrow> recordId)
      else recordId)"

end
