(* ===== verification/DomainGuards.thy ===== *)
theory DomainGuards
  imports JsValue Decimal
begin

text \<open>
  The runtime type guards of \<open>packages/application/src/domain.ts\<close> and of
  \<open>packages/application/src/library/library.ts\<close>: every document that crosses the storage,
  provider or sync boundary is checked by one of them. A guard takes any value (\<open>jsval\<close>) and
  answers; each is the conjunction the source writes, in its order. The last section collects
  what passing a guard buys its reader.
\<close>

section \<open>Enumerations\<close>

definition VERSION_LABELS :: "string list" where
  "VERSION_LABELS =
     [''live'', ''remix'', ''remaster'', ''clean'', ''explicit'', ''alternate'']"

definition MAPPING_STATUSES :: "string list" where
  "MAPPING_STATUSES = [''automatic'', ''user-confirmed'', ''rejected'']"

definition SOURCE_REF_KINDS :: "string list" where
  "SOURCE_REF_KINDS = [''track'', ''album'', ''artist'', ''playlist'']"

definition ENTITY_KINDS :: "string list" where
  "ENTITY_KINDS = [''album'', ''artist'', ''playlist'']"

definition QUEUE_ORIGIN_COLLECTIONS :: "string list" where
  "QUEUE_ORIGIN_COLLECTIONS = [''liked'', ''top50'', ''history'', ''downloads'']"

definition THEMES :: "string list" where
  "THEMES = [''dark'', ''light'', ''oled'', ''system'', ''adaptive'']"

definition DOWNLOAD_STATES :: "string list" where
  "DOWNLOAD_STATES =
     [''requested'', ''transferring'', ''available'', ''failed_with_retry'', ''removing'']"

definition MATCH_REVIEW_STATUSES :: "string list" where
  "MATCH_REVIEW_STATUSES = [''pending'', ''confirmed'', ''rejected'', ''dismissed'']"

lemmas enum_defs = VERSION_LABELS_def MAPPING_STATUSES_def SOURCE_REF_KINDS_def ENTITY_KINDS_def
  QUEUE_ORIGIN_COLLECTIONS_def THEMES_def DOWNLOAD_STATES_def MATCH_REVIEW_STATUSES_def

section \<open>Scalar guards\<close>

fun isBool :: "jsval \<Rightarrow> bool" where
  "isBool (JBool b) = True"
| "isBool _ = False"

fun isStr :: "jsval \<Rightarrow> bool" where
  "isStr (JStr s) = True"
| "isStr _ = False"

fun str_len :: "jsval \<Rightarrow> nat" where
  "str_len (JStr s) = length s"
| "str_len _ = 0"

fun isSimilarity :: "jsval \<Rightarrow> bool" where
  "isSimilarity (JNum (Fin q)) = (0 \<le> q \<and> q \<le> 1)"
| "isSimilarity _ = False"

text \<open>\<open>typeof v === 'number' && Number.isSafeInteger(v) && lo <= v && v <= hi\<close>\<close>

fun isIntIn :: "int \<Rightarrow> int \<Rightarrow> jsval \<Rightarrow> bool" where
  "isIntIn lo hi (JNum x) = (case safe_int x of Some i \<Rightarrow> lo \<le> i \<and> i \<le> hi | None \<Rightarrow> False)"
| "isIntIn lo hi _ = False"

definition isVersionLabelArray :: "jsval \<Rightarrow> bool" where
  [guard_defs]: "isVersionLabelArray v =
     isArr (\<lambda>xs. length xs \<le> 16 \<and> distinct xs \<and> list_all (isIn VERSION_LABELS) xs) v"

definition is_upper :: "char \<Rightarrow> bool" where
  "is_upper c = (65 \<le> (of_char c :: nat) \<and> (of_char c :: nat) \<le> 90)"

fun isStorefront :: "jsval \<Rightarrow> bool" where
  "isStorefront JNull = True"
| "isStorefront (JStr s) = (length s = 2 \<and> list_all is_upper s)"
| "isStorefront _ = False"

section \<open>URLs\<close>

text \<open>\<open>String.prototype.split(c)\<close> for a one-character separator.\<close>

fun split_on :: "char \<Rightarrow> string \<Rightarrow> string list" where
  "split_on c [] = [[]]"
| "split_on c (x # xs) =
     (if x = c then [] # split_on c xs
      else case split_on c xs of [] \<Rightarrow> [[x]] | w # ws \<Rightarrow> (x # w) # ws)"

definition startsWith :: "string \<Rightarrow> string \<Rightarrow> bool" where
  "startsWith s p = (take (length p) s = p)"

definition endsWith :: "string \<Rightarrow> string \<Rightarrow> bool" where
  "endsWith s p = (length p \<le> length s \<and> drop (length s - length p) s = p)"

definition to_lower :: "char \<Rightarrow> char" where
  "to_lower c = (if is_upper c then char_of (of_char c + 32 :: nat) else c)"

definition httpsHost :: "string \<Rightarrow> string option" where
  "httpsHost url =
     (if \<not> startsWith url ''https://'' then None
      else let authority = takeWhile (\<lambda>c. c \<notin> set ''/?#'') (drop (length ''https://'') url)
           in if authority = [] \<or> CHR ''@'' \<in> set authority \<or> CHR ''['' \<in> set authority then None
              else let host = takeWhile (\<lambda>c. c \<noteq> CHR '':'') authority
                   in if host = [] then None else Some host)"

definition host_char :: "char \<Rightarrow> bool" where
  "host_char c =
     ((97 \<le> (of_char c :: nat) \<and> (of_char c :: nat) \<le> 122) \<or> is_digit c \<or> c = CHR ''.'' \<or> c = CHR ''-'')"

definition is_ipv4_literal :: "string \<Rightarrow> bool" where
  "is_ipv4_literal name =
     (let parts = split_on (CHR ''.'') name
      in length parts = 4 \<and>
         list_all (\<lambda>p. 1 \<le> length p \<and> length p \<le> 3 \<and> list_all is_digit p) parts)"

definition isPublicHttpsUrl :: "string \<Rightarrow> bool" where
  "isPublicHttpsUrl url =
     (case httpsHost url of
        None \<Rightarrow> False
      | Some host \<Rightarrow>
          let name = map to_lower host;
              labels = split_on (CHR ''.'') name;
              tld = last labels
          in name \<noteq> [] \<and> list_all host_char name \<and>
             2 \<le> length labels \<and>
             list_all (\<lambda>label. label \<noteq> []) labels \<and>
             \<not> (tld \<noteq> [] \<and> list_all is_digit tld) \<and>
             \<not> endsWith name ''.localhost'' \<and>
             \<not> is_ipv4_literal name)"

definition isArtworkUrl :: "string \<Rightarrow> bool" where
  "isArtworkUrl url = (isPublicHttpsUrl url \<or> startsWith url ''file:///'')"

definition isDim :: "jsval \<Rightarrow> bool" where
  "isDim v = (v = JNull \<or> isIntIn 1 (int max_safe) v)"

fun str_sat :: "(string \<Rightarrow> bool) \<Rightarrow> jsval \<Rightarrow> bool" where
  "str_sat P (JStr s) = P s"
| "str_sat P _ = False"

definition isArtworkRefWith :: "(string \<Rightarrow> bool) \<Rightarrow> jsval \<Rightarrow> bool" where
  [guard_defs]: "isArtworkRefWith isUrl v =
     (isRecord v \<and> hasExactKeys v [''url'', ''width'', ''height''] \<and>
      isString (propOf v ''url'') 2048 \<and> str_sat isUrl (propOf v ''url'') \<and>
      isDim (propOf v ''width'') \<and> isDim (propOf v ''height''))"

definition isArtworkRef :: "jsval \<Rightarrow> bool" where
  [guard_defs]: "isArtworkRef = isArtworkRefWith isArtworkUrl"

definition isRemoteArtworkRef :: "jsval \<Rightarrow> bool" where
  [guard_defs]: "isRemoteArtworkRef = isArtworkRefWith isPublicHttpsUrl"

definition portableArtwork :: "jsval list \<Rightarrow> jsval list" where
  "portableArtwork artwork = filter isRemoteArtworkRef artwork"

definition isArtworkList :: "jsval \<Rightarrow> bool" where
  [guard_defs]: "isArtworkList = isArr (\<lambda>xs. length xs \<le> 8 \<and> list_all isArtworkRef xs)"

definition isRemoteArtworkList :: "jsval \<Rightarrow> bool" where
  [guard_defs]: "isRemoteArtworkList = isArr (\<lambda>xs. length xs \<le> 8 \<and> list_all isRemoteArtworkRef xs)"

section \<open>References, origins and mappings\<close>

definition isSourceRef :: "jsval \<Rightarrow> bool" where
  [guard_defs]: "isSourceRef v =
     (isRecord v \<and> hasExactKeys v [''provider'', ''kind'', ''id''] \<and>
      isString (propOf v ''provider'') 64 \<and> isIn SOURCE_REF_KINDS (propOf v ''kind'') \<and>
      isString (propOf v ''id'') 512)"

definition isTrackRef :: "jsval \<Rightarrow> bool" where
  [guard_defs]: "isTrackRef v = (isSourceRef v \<and> propOf v ''kind'' = JStr ''track'')"

definition isEntityRef :: "jsval \<Rightarrow> bool" where
  [guard_defs]: "isEntityRef v = (isSourceRef v \<and> isIn ENTITY_KINDS (propOf v ''kind''))"

definition isQueueOrigin :: "jsval \<Rightarrow> bool" where
  [guard_defs]: "isQueueOrigin v =
     (isRecord v \<and>
      (if propOf v ''kind'' = JStr ''collection'' then
         hasExactKeys v [''kind'', ''collection''] \<and>
         isIn QUEUE_ORIGIN_COLLECTIONS (propOf v ''collection'')
       else if propOf v ''kind'' = JStr ''playlist'' then
         hasExactKeys v [''kind'', ''playlistId'', ''name''] \<and>
         isString (propOf v ''playlistId'') 64 \<and> isString (propOf v ''name'') 512
       else if propOf v ''kind'' = JStr ''entity'' then
         hasExactKeys v [''kind'', ''ref'', ''name''] \<and>
         isEntityRef (propOf v ''ref'') \<and> isString (propOf v ''name'') 512
       else if propOf v ''kind'' = JStr ''search'' then
         hasExactKeys v [''kind'', ''query''] \<and> isString (propOf v ''query'') 256
       else if propOf v ''kind'' = JStr ''library'' then hasExactKeys v [''kind'']
       else False))"

definition isMatchEvidence :: "jsval \<Rightarrow> bool" where
  [guard_defs]: "isMatchEvidence v =
     (isRecord v \<and>
      hasExactKeys v [''titleSimilarity'', ''artistSimilarity'', ''durationDeltaMs'',
                      ''exactIsrc'', ''score'', ''versionLabels''] \<and>
      isSimilarity (propOf v ''titleSimilarity'') \<and>
      (propOf v ''artistSimilarity'' = JNull \<or> isSimilarity (propOf v ''artistSimilarity'')) \<and>
      isOptSafeNonNegative (propOf v ''durationDeltaMs'') \<and>
      isBool (propOf v ''exactIsrc'') \<and>
      isFiniteNumber (propOf v ''score'') \<and>
      isVersionLabelArray (propOf v ''versionLabels''))"

definition isSourceMapping :: "jsval \<Rightarrow> bool" where
  [guard_defs]: "isSourceMapping v =
     (isRecord v \<and> hasExactKeys v [''ref'', ''status'', ''matchedAtMs'', ''evidence''] \<and>
      isTrackRef (propOf v ''ref'') \<and> isIn MAPPING_STATUSES (propOf v ''status'') \<and>
      isSafeNonNegative (propOf v ''matchedAtMs'') \<and> isMatchEvidence (propOf v ''evidence''))"

section \<open>Tracks, recordings and settings\<close>

definition optional :: "(jsval \<Rightarrow> bool) \<Rightarrow> jsval \<Rightarrow> bool" where
  [guard_defs]: "optional P v = (v = JUndef \<or> P v)"

definition nullable :: "(jsval \<Rightarrow> bool) \<Rightarrow> jsval \<Rightarrow> bool" where
  [guard_defs]: "nullable P v = (v = JNull \<or> P v)"

definition hasAudioFields :: "jsval \<Rightarrow> (jsval \<Rightarrow> bool) \<Rightarrow> bool" where
  [guard_defs]: "hasAudioFields v artworkOk =
     (isString (propOf v ''title'') 512 \<and> isOptString (propOf v ''artist'') 512 \<and>
      isOptString (propOf v ''album'') 512 \<and> isOptSafeNonNegative (propOf v ''durationMs'') \<and>
      isOptSafeNonNegative (propOf v ''releaseYear'') \<and> artworkOk (propOf v ''artwork'') \<and>
      nullable isBool (propOf v ''explicit'') \<and> isOptString (propOf v ''genre'') 512)"

definition isTrackMetadata :: "jsval \<Rightarrow> bool" where
  [guard_defs]: "isTrackMetadata v =
     (isRecord v \<and>
      hasKeys v
        [''sourceRef'', ''title'', ''artist'', ''album'', ''durationMs'', ''releaseYear'',
         ''artwork'', ''explicit'', ''genre'', ''storefront'']
        [''artistRef'', ''albumRef'', ''isrc''] \<and>
      isTrackRef (propOf v ''sourceRef'') \<and> hasAudioFields v isRemoteArtworkList \<and>
      isStorefront (propOf v ''storefront'') \<and>
      optional (nullable isEntityRef) (propOf v ''artistRef'') \<and>
      optional (nullable isEntityRef) (propOf v ''albumRef'') \<and>
      optional (\<lambda>x. isOptString x 64) (propOf v ''isrc''))"

fun str_of :: "jsval \<Rightarrow> string" where
  "str_of (JStr s) = s"
| "str_of _ = []"

text \<open>The template \<open>`${r.provider} ${r.kind} ${r.id}`\<close>: components joined by spaces.\<close>

definition uniqueRefKey :: "jsval \<Rightarrow> string" where
  "uniqueRefKey r = str_of (propOf r ''provider'') @ '' '' @ str_of (propOf r ''kind'') @ '' '' @
                    str_of (propOf r ''id'')"

definition hasUniqueSourceRefs :: "jsval list \<Rightarrow> bool" where
  [guard_defs]: "hasUniqueSourceRefs refs = distinct (map uniqueRefKey refs)"

definition isRecording :: "jsval \<Rightarrow> bool" where
  [guard_defs]: "isRecording v =
     (isRecord v \<and>
      hasKeys v
        [''id'', ''title'', ''artist'', ''album'', ''durationMs'', ''releaseYear'', ''artwork'',
         ''explicit'', ''genre'', ''isrc'', ''versionLabels'', ''sourceRefs'', ''mappings'',
         ''provenance'']
        [''artistRef'', ''albumRef''] \<and>
      isString (propOf v ''id'') 64 \<and> hasAudioFields v isArtworkList \<and>
      isOptString (propOf v ''isrc'') 64 \<and>
      optional (nullable isEntityRef) (propOf v ''artistRef'') \<and>
      optional (nullable isEntityRef) (propOf v ''albumRef'') \<and>
      isVersionLabelArray (propOf v ''versionLabels'') \<and>
      isArr (\<lambda>refs. 1 \<le> length refs \<and> list_all isTrackRef refs \<and> hasUniqueSourceRefs refs)
        (propOf v ''sourceRefs'') \<and>
      isArr (list_all isSourceMapping) (propOf v ''mappings'') \<and>
      isIn [''provider'', ''local''] (propOf v ''provenance''))"

abbreviation artwork_budget_min :: int where
  "artwork_budget_min \<equiv> 16 * 1024 * 1024"

abbreviation artwork_budget_max :: int where
  "artwork_budget_max \<equiv> 1024 * 1024 * 1024"

definition isSettings :: "jsval \<Rightarrow> bool" where
  [guard_defs]: "isSettings v =
     (isRecord v \<and>
      hasKeys v
        [''catalogProvider'', ''playbackProvider'', ''storefront'', ''qualityKbps'', ''theme'',
         ''prefetch'']
        [''lyricsProvider'', ''radioProvider'', ''artworkCacheBytes'', ''downloadMetered'',
         ''language''] \<and>
      isString (propOf v ''catalogProvider'') 64 \<and> isString (propOf v ''playbackProvider'') 64 \<and>
      isStorefront (propOf v ''storefront'') \<and> isIntIn 1 512 (propOf v ''qualityKbps'') \<and>
      isIn THEMES (propOf v ''theme'') \<and> isBool (propOf v ''prefetch'') \<and>
      optional (\<lambda>x. isOptString x 64) (propOf v ''lyricsProvider'') \<and>
      optional (\<lambda>x. isOptString x 64) (propOf v ''radioProvider'') \<and>
      optional (isIntIn artwork_budget_min artwork_budget_max) (propOf v ''artworkCacheBytes'') \<and>
      optional isBool (propOf v ''downloadMetered'') \<and>
      optional (\<lambda>x. isOptString x 24) (propOf v ''language''))"

definition isLike :: "jsval \<Rightarrow> bool" where
  [guard_defs]: "isLike v =
     (isRecord v \<and> hasExactKeys v [''entityKind'', ''targetId'', ''likedAtMs''] \<and>
      isIn SOURCE_REF_KINDS (propOf v ''entityKind'') \<and> isString (propOf v ''targetId'') 64 \<and>
      isSafeNonNegative (propOf v ''likedAtMs''))"

section \<open>Queue snapshots\<close>

definition isQueueOccurrence :: "jsval \<Rightarrow> bool" where
  [guard_defs]: "isQueueOccurrence v =
     (isRecord v \<and> hasExactKeys v [''occurrenceId'', ''recordingId'', ''selectedRef''] \<and>
      isString (propOf v ''occurrenceId'') 64 \<and> isString (propOf v ''recordingId'') 64 \<and>
      nullable isTrackRef (propOf v ''selectedRef''))"

definition isAppErrorLike :: "jsval \<Rightarrow> bool" where
  [guard_defs]: "isAppErrorLike v =
     (isRecord v \<and> isStr (propOf v ''kind'') \<and> isStr (propOf v ''message'') \<and>
      isBool (propOf v ''retryable'') \<and> optional isSafeNonNegative (propOf v ''retryAfterMs''))"

fun arr_of :: "jsval \<Rightarrow> jsval list" where
  "arr_of (JArr xs) = xs"
| "arr_of _ = []"

definition isQueueSnapshot :: "jsval \<Rightarrow> bool" where
  [guard_defs]: "isQueueSnapshot v =
     (if \<not> isRecord v \<or>
         \<not> hasKeys v
             [''revision'', ''occurrences'', ''currentOccurrenceId'', ''positionMs'', ''mode'']
             [''blockedError'', ''origin'']
      then False
      else
        let revision = propOf v ''revision''; occurrences = propOf v ''occurrences'';
            currentOccurrenceId = propOf v ''currentOccurrenceId'';
            positionMs = propOf v ''positionMs''; mode = propOf v ''mode'';
            blockedError = propOf v ''blockedError''; origin = propOf v ''origin''
        in if \<not> isSafeNonNegative revision \<or> \<not> isSafeNonNegative positionMs \<or>
              \<not> isArr (list_all isQueueOccurrence) occurrences \<or>
              (mode \<noteq> JStr ''stopped'' \<and> mode \<noteq> JStr ''paused'' \<and> mode \<noteq> JStr ''playing'') \<or>
              (currentOccurrenceId \<noteq> JNull \<and> \<not> isStr currentOccurrenceId) \<or>
              (blockedError \<noteq> JUndef \<and> \<not> isAppErrorLike blockedError) \<or>
              (origin \<noteq> JUndef \<and> \<not> isQueueOrigin origin)
           then False
           else
             let ids = map (\<lambda>o'. propOf o' ''occurrenceId'') (arr_of occurrences)
             in if \<not> distinct ids then False
                else if currentOccurrenceId = JNull then
                  positionMs = JNum (jnat 0) \<and> mode = JStr ''stopped'' \<and> blockedError = JUndef
                else
                  currentOccurrenceId \<in> set ids \<and> mode \<noteq> JStr ''stopped'' \<and>
                  (blockedError = JUndef \<or> mode = JStr ''paused''))"

section \<open>Downloads and local files\<close>

definition is_hex_lower :: "char \<Rightarrow> bool" where
  "is_hex_lower c = (is_digit c \<or> (97 \<le> (of_char c :: nat) \<and> (of_char c :: nat) \<le> 102))"

definition isSha256Hex :: "jsval \<Rightarrow> bool" where
  [guard_defs]: "isSha256Hex = str_sat (\<lambda>s. length s = 64 \<and> list_all is_hex_lower s)"

fun num_le :: "jsval \<Rightarrow> jsval \<Rightarrow> bool" where
  "num_le (JNum a) (JNum b) = (num_less a b \<or> num_eq a b)"
| "num_le _ _ = False"

definition isDownloadRecord :: "jsval \<Rightarrow> bool" where
  [guard_defs]: "isDownloadRecord v =
     (isRecord v \<and>
      hasExactKeys v
        [''downloadId'', ''recordingId'', ''provider'', ''sourceRef'', ''filePath'', ''bytes'',
         ''state'', ''committedOffset'', ''checksum'', ''mime'', ''itag'', ''expiresAtMs'',
         ''error'', ''priority'', ''requestedMs'', ''downloadedMs''] \<and>
      isString (propOf v ''downloadId'') 64 \<and> isString (propOf v ''recordingId'') 64 \<and>
      isString (propOf v ''provider'') 64 \<and> isTrackRef (propOf v ''sourceRef'') \<and>
      isString (propOf v ''filePath'') 1024 \<and> isSafeNonNegative (propOf v ''bytes'') \<and>
      isIn DOWNLOAD_STATES (propOf v ''state'') \<and>
      isSafeNonNegative (propOf v ''committedOffset'') \<and>
      num_le (propOf v ''committedOffset'') (propOf v ''bytes'') \<and>
      nullable isSha256Hex (propOf v ''checksum'') \<and>
      isOptString (propOf v ''mime'') 128 \<and>
      nullable (isIntIn (- int max_safe) (int max_safe)) (propOf v ''itag'') \<and>
      isOptSafeNonNegative (propOf v ''expiresAtMs'') \<and>
      nullable (\<lambda>e. isRecord e \<and> hasExactKeys e [''kind'', ''message''] \<and>
                    isString (propOf e ''kind'') 64 \<and> isStr (propOf e ''message'') \<and>
                    str_len (propOf e ''message'') \<le> 2048) (propOf v ''error'') \<and>
      isSafeNonNegative (propOf v ''priority'') \<and>
      isSafeNonNegative (propOf v ''requestedMs'') \<and>
      isOptSafeNonNegative (propOf v ''downloadedMs'') \<and>
      (propOf v ''state'' \<noteq> JStr ''available'' \<or> propOf v ''downloadedMs'' \<noteq> JNull))"

definition isLocalSource :: "jsval \<Rightarrow> bool" where
  [guard_defs]: "isLocalSource v =
     (isRecord v \<and>
      hasExactKeys v [''sourceId'', ''treeUri'', ''label'', ''addedMs'', ''lastScanMs''] \<and>
      isString (propOf v ''sourceId'') 64 \<and> isString (propOf v ''treeUri'') 2048 \<and>
      isString (propOf v ''label'') 512 \<and> isSafeNonNegative (propOf v ''addedMs'') \<and>
      isOptSafeNonNegative (propOf v ''lastScanMs''))"

definition isLocalFile :: "jsval \<Rightarrow> bool" where
  [guard_defs]: "isLocalFile v =
     (isRecord v \<and>
      hasExactKeys v
        [''fileId'', ''sourceId'', ''docId'', ''size'', ''fingerprint'', ''modifiedMs'', ''title'',
         ''artist'', ''album'', ''durationMs'', ''genre'', ''recordingId''] \<and>
      isString (propOf v ''fileId'') 128 \<and> isString (propOf v ''sourceId'') 64 \<and>
      isString (propOf v ''docId'') 2048 \<and> isSafeNonNegative (propOf v ''size'') \<and>
      isString (propOf v ''fingerprint'') 128 \<and> isOptSafeNonNegative (propOf v ''modifiedMs'') \<and>
      isOptString (propOf v ''title'') 512 \<and> isOptString (propOf v ''artist'') 512 \<and>
      isOptString (propOf v ''album'') 512 \<and> isOptSafeNonNegative (propOf v ''durationMs'') \<and>
      isOptString (propOf v ''genre'') 512 \<and> isString (propOf v ''recordingId'') 64)"

section \<open>Library records\<close>

definition isBoundedText :: "jsval \<Rightarrow> nat \<Rightarrow> bool" where
  "isBoundedText v mx = (v = JNull \<or> isStr v \<and> str_len v \<le> mx)"

definition isEntity :: "jsval \<Rightarrow> bool" where
  [guard_defs]: "isEntity v =
     (isRecord v \<and>
      hasExactKeys v [''entityId'', ''kind'', ''title'', ''artistName'', ''artwork'', ''createdMs''] \<and>
      isString (propOf v ''entityId'') 64 \<and> isIn ENTITY_KINDS (propOf v ''kind'') \<and>
      isString (propOf v ''title'') 512 \<and> isOptString (propOf v ''artistName'') 512 \<and>
      isArtworkList (propOf v ''artwork'') \<and> isSafeNonNegative (propOf v ''createdMs''))"

definition isEntitySourceRef :: "jsval \<Rightarrow> bool" where
  [guard_defs]: "isEntitySourceRef v =
     (isRecord v \<and> hasExactKeys v [''entityId'', ''provider'', ''ref''] \<and>
      isString (propOf v ''entityId'') 64 \<and> isString (propOf v ''provider'') 64 \<and>
      isEntityRef (propOf v ''ref'') \<and>
      propOf (propOf v ''ref'') ''provider'' = propOf v ''provider'')"

definition isPlaylist :: "jsval \<Rightarrow> bool" where
  [guard_defs]: "isPlaylist v =
     (isRecord v \<and> hasExactKeys v [''playlistId'', ''name'', ''createdMs'', ''updatedMs''] \<and>
      isString (propOf v ''playlistId'') 64 \<and> isString (propOf v ''name'') 512 \<and>
      isSafeNonNegative (propOf v ''createdMs'') \<and> isSafeNonNegative (propOf v ''updatedMs'') \<and>
      num_le (propOf v ''createdMs'') (propOf v ''updatedMs''))"

definition isPlaylistEntry :: "jsval \<Rightarrow> bool" where
  [guard_defs]: "isPlaylistEntry v =
     (isRecord v \<and>
      hasExactKeys v
        [''entryId'', ''playlistId'', ''recordingId'', ''position'', ''selectedRef'', ''addedMs''] \<and>
      isString (propOf v ''entryId'') 64 \<and> isString (propOf v ''playlistId'') 64 \<and>
      isString (propOf v ''recordingId'') 64 \<and> isFiniteNumber (propOf v ''position'') \<and>
      nullable isTrackRef (propOf v ''selectedRef'') \<and> isSafeNonNegative (propOf v ''addedMs''))"

definition isPlayEvent :: "jsval \<Rightarrow> bool" where
  [guard_defs]: "isPlayEvent v =
     (isRecord v \<and>
      hasExactKeys v [''eventId'', ''recordingId'', ''occurrenceId'', ''playedMs'', ''listenedMs''] \<and>
      isString (propOf v ''eventId'') 64 \<and> isString (propOf v ''recordingId'') 64 \<and>
      nullable (\<lambda>x. isString x 64) (propOf v ''occurrenceId'') \<and>
      isSafeNonNegative (propOf v ''playedMs'') \<and> isSafeNonNegative (propOf v ''listenedMs''))"

definition isPlayCount :: "jsval \<Rightarrow> bool" where
  [guard_defs]: "isPlayCount v =
     (isRecord v \<and>
      hasKeys v [''recordingId'', ''count'', ''lastMs'']
        [''localCount'', ''loggedRemote'', ''loggedOurs''] \<and>
      isString (propOf v ''recordingId'') 64 \<and> isSafeNonNegative (propOf v ''count'') \<and>
      isSafeNonNegative (propOf v ''lastMs'') \<and>
      optional isSafeNonNegative (propOf v ''localCount'') \<and>
      optional isSafeNonNegative (propOf v ''loggedRemote'') \<and>
      optional isSafeNonNegative (propOf v ''loggedOurs''))"

definition isCandidateSnapshot :: "jsval \<Rightarrow> bool" where
  [guard_defs]: "isCandidateSnapshot v =
     (isRecord v \<and> hasExactKeys v [''metadata'', ''ref''] \<and>
      isTrackMetadata (propOf v ''metadata'') \<and> isTrackRef (propOf v ''ref'') \<and>
      (let ref = propOf v ''ref''; src = propOf (propOf v ''metadata'') ''sourceRef''
       in propOf ref ''provider'' = propOf src ''provider'' \<and>
          propOf ref ''kind'' = propOf src ''kind'' \<and> propOf ref ''id'' = propOf src ''id''))"

definition isMatchResolution :: "jsval \<Rightarrow> bool" where
  [guard_defs]: "isMatchResolution v =
     (isRecord v \<and> hasExactKeys v [''ref''] \<and> nullable isTrackRef (propOf v ''ref''))"

definition isMatchReview :: "jsval \<Rightarrow> bool" where
  [guard_defs]: "isMatchReview v =
     (isRecord v \<and>
      hasExactKeys v
        [''reviewId'', ''recordingId'', ''candidates'', ''status'', ''resolution'', ''createdMs'',
         ''resolvedMs''] \<and>
      isString (propOf v ''reviewId'') 64 \<and> isString (propOf v ''recordingId'') 64 \<and>
      isArr (\<lambda>xs. 1 \<le> length xs \<and> length xs \<le> 64 \<and> list_all isCandidateSnapshot xs)
        (propOf v ''candidates'') \<and>
      isIn MATCH_REVIEW_STATUSES (propOf v ''status'') \<and>
      nullable isMatchResolution (propOf v ''resolution'') \<and>
      isSafeNonNegative (propOf v ''createdMs'') \<and>
      nullable isSafeNonNegative (propOf v ''resolvedMs'') \<and>
      (if propOf v ''status'' = JStr ''pending''
       then propOf v ''resolvedMs'' = JNull \<and> propOf v ''resolution'' = JNull
       else propOf v ''resolvedMs'' \<noteq> JNull))"

definition isLyricsPayload :: "jsval \<Rightarrow> bool" where
  [guard_defs]: "isLyricsPayload v =
     (isRecord v \<and> hasExactKeys v [''plainLyrics'', ''syncedLyrics'', ''instrumental''] \<and>
      isBoundedText (propOf v ''plainLyrics'') 65536 \<and>
      isBoundedText (propOf v ''syncedLyrics'') 65536 \<and> isBool (propOf v ''instrumental''))"

definition isLyricsCacheEntry :: "jsval \<Rightarrow> bool" where
  [guard_defs]: "isLyricsCacheEntry v =
     (isRecord v \<and>
      hasKeys v [''recordingId'', ''provider'', ''kind'', ''payload'', ''fetchedMs'']
        [''providerVersion''] \<and>
      isString (propOf v ''recordingId'') 64 \<and> isString (propOf v ''provider'') 64 \<and>
      optional (nullable (\<lambda>x. isString x 64)) (propOf v ''providerVersion'') \<and>
      (propOf v ''kind'' = JStr ''plain'' \<or> propOf v ''kind'' = JStr ''synced'') \<and>
      isLyricsPayload (propOf v ''payload'') \<and>
      (propOf v ''kind'' \<noteq> JStr ''synced'' \<or>
       propOf (propOf v ''payload'') ''syncedLyrics'' \<noteq> JNull) \<and>
      isSafeNonNegative (propOf v ''fetchedMs''))"

definition isArtworkCacheEntry :: "jsval \<Rightarrow> bool" where
  [guard_defs]: "isArtworkCacheEntry v =
     (isRecord v \<and> hasExactKeys v [''url'', ''filePath'', ''bytes'', ''lastAccessedMs''] \<and>
      isString (propOf v ''url'') 2048 \<and>
      str_sat (\<lambda>u. startsWith u ''https://'') (propOf v ''url'') \<and>
      isString (propOf v ''filePath'') 1024 \<and> isSafeNonNegative (propOf v ''bytes'') \<and>
      isSafeNonNegative (propOf v ''lastAccessedMs''))"

end
