(* ===== verification/SyncRules.thy ===== *)
theory SyncRules
  imports EntryOrder DomainGuards
begin

text \<open>
  The wire contract of \<open>packages/application/src/sync/sync-engine.ts\<close>: the whitelist of
  (kind, field) pairs that may enter a delta, each with its value guard and its merge rule
  (\<open>SYNC_FIELD_RULES\<close>, \<open>syncFieldRule\<close>), the entry and envelope guards, and the check of a
  local write. An accepted entry is decoded to a \<^typ>\<open>changeEntry\<close> (\<open>entry_of_val\<close>).
\<close>

section \<open>Field rules\<close>

datatype mergeMode = Lww | MaxM | SumM

record fieldRule =
  rule_valid :: "jsval \<Rightarrow> bool"
  rule_merge :: mergeMode

definition rule :: "(jsval \<Rightarrow> bool) \<Rightarrow> fieldRule" where
  "rule P = \<lparr>rule_valid = P, rule_merge = Lww\<rparr>"

definition rule_with :: "(jsval \<Rightarrow> bool) \<Rightarrow> mergeMode \<Rightarrow> fieldRule" where
  "rule_with P m = \<lparr>rule_valid = P, rule_merge = m\<rparr>"

abbreviation str_rule :: "nat \<Rightarrow> jsval \<Rightarrow> bool" where
  "str_rule mx \<equiv> \<lambda>v. isString v mx"

abbreviation opt_str_rule :: "nat \<Rightarrow> jsval \<Rightarrow> bool" where
  "opt_str_rule mx \<equiv> \<lambda>v. isOptString v mx"

fun SYNC_FIELD_RULES :: "syncKind \<Rightarrow> (string \<times> fieldRule) list" where
  "SYNC_FIELD_RULES Recording =
     [(''title'', rule (str_rule 512)), (''artist'', rule (opt_str_rule 512)),
      (''album'', rule (opt_str_rule 512)), (''durationMs'', rule isOptSafeNonNegative),
      (''releaseYear'', rule (nullable (isIntIn 0 (int max_safe)))),
      (''artwork'', rule isRemoteArtworkList), (''explicit'', rule (nullable isBool)),
      (''genre'', rule (opt_str_rule 512)), (''isrc'', rule (opt_str_rule 64)),
      (''versionLabels'', rule isVersionLabelArray),
      (''provenance'', rule (isIn [''provider'', ''local'']))]"
| "SYNC_FIELD_RULES RecordingSourceRef = [(''ref'', rule isTrackRef)]"
| "SYNC_FIELD_RULES RecordingMapping = [(''mapping'', rule isSourceMapping)]"
| "SYNC_FIELD_RULES LikeKind = [(''like'', rule isLike)]"
| "SYNC_FIELD_RULES EntityRec =
     [(''kind'', rule (isIn ENTITY_KINDS)), (''title'', rule (str_rule 512)),
      (''artistName'', rule (opt_str_rule 512)), (''artwork'', rule isRemoteArtworkList),
      (''createdMs'', rule isSafeNonNegative)]"
| "SYNC_FIELD_RULES EntitySourceRef = [(''ref'', rule isEntityRef)]"
| "SYNC_FIELD_RULES Playlist =
     [(''name'', rule (str_rule 512)), (''createdMs'', rule isSafeNonNegative),
      (''updatedMs'', rule isSafeNonNegative)]"
| "SYNC_FIELD_RULES PlaylistEntry =
     [(''playlistId'', rule (str_rule 64)), (''recordingId'', rule (str_rule 64)),
      (''position'', rule isFiniteNumber), (''selectedRef'', rule (nullable isTrackRef)),
      (''addedMs'', rule isSafeNonNegative)]"
| "SYNC_FIELD_RULES PlayEvent = [(''event'', rule isPlayEvent)]"
| "SYNC_FIELD_RULES PlayCount =
     [(''count'', rule_with isSafeNonNegative SumM), (''lastMs'', rule_with isSafeNonNegative MaxM)]"
| "SYNC_FIELD_RULES MatchReview =
     [(''recordingId'', rule (str_rule 64)), (''createdMs'', rule isSafeNonNegative),
      (''status'', rule (isIn MATCH_REVIEW_STATUSES)),
      (''resolution'', rule (nullable isMatchResolution)),
      (''resolvedMs'', rule isOptSafeNonNegative),
      (''candidates'', rule (isArr (\<lambda>xs. 1 \<le> length xs \<and> length xs \<le> 64 \<and>
                                          list_all isCandidateSnapshot xs)))]"
| "SYNC_FIELD_RULES Settings =
     [(''theme'', rule (isIn THEMES)), (''storefront'', rule isStorefront),
      (''catalogProvider'', rule (str_rule 64)), (''playbackProvider'', rule (str_rule 64)),
      (''lyricsProvider'', rule (opt_str_rule 64)), (''radioProvider'', rule (opt_str_rule 64)),
      (''qualityKbps'', rule (isIntIn 1 512)), (''prefetch'', rule isBool),
      (''language'', rule (opt_str_rule 24))]"

definition syncFieldRule :: "syncKind \<Rightarrow> string \<Rightarrow> fieldRule option" where
  "syncFieldRule kind field = map_of (SYNC_FIELD_RULES kind) field"

text \<open>\<open>syncFieldRule(kind, field)?.merge\<close>\<close>

definition merge_of :: "syncKind \<Rightarrow> string \<Rightarrow> mergeMode option" where
  "merge_of kind field = map_option rule_merge (syncFieldRule kind field)"

lemma merge_of_Sum_iff: "merge_of k f = Some SumM \<longleftrightarrow> k = PlayCount \<and> f = ''count''"
  by (cases k) (auto simp: merge_of_def syncFieldRule_def rule_def rule_with_def split: if_splits)

lemma merge_of_Max_iff: "merge_of k f = Some MaxM \<longleftrightarrow> k = PlayCount \<and> f = ''lastMs''"
  by (cases k) (auto simp: merge_of_def syncFieldRule_def rule_def rule_with_def split: if_splits)

section \<open>Entry and envelope guards\<close>

abbreviation max_device_id :: nat where "max_device_id \<equiv> 128"
abbreviation max_record_id :: nat where "max_record_id \<equiv> 1024"
abbreviation max_field :: nat where "max_field \<equiv> 64"
definition max_delta_entries :: nat where "max_delta_entries = 10000"
definition max_cursor_devices :: nat where "max_cursor_devices = 512"

definition TOMBSTONE_FIELD :: string where
  "TOMBSTONE_FIELD = ''*''"

definition SETTINGS_RECORD_ID :: string where
  "SETTINGS_RECORD_ID = ''settings''"

fun kind_of_val :: "jsval \<Rightarrow> syncKind option" where
  "kind_of_val (JStr s) = kind_of_str s"
| "kind_of_val _ = None"

definition isSyncRecordKind :: "jsval \<Rightarrow> bool" where
  [guard_defs]: "isSyncRecordKind v = (kind_of_val v \<noteq> None)"

definition isEmissionSeq :: "jsval \<Rightarrow> bool" where
  [guard_defs]: "isEmissionSeq v = (isSafeNonNegative v \<and> 1 \<le> nat_of_val v)"

definition isChangeEntry :: "jsval \<Rightarrow> bool" where
  "isChangeEntry v =
     (if \<not> isRecord v \<or>
         \<not> hasExactKeys v [''kind'', ''recordId'', ''field'', ''value'', ''tombstone'', ''hlc'',
                            ''deviceId'', ''seq'']
      then False
      else if kind_of_val (propOf v ''kind'') = None \<or>
              \<not> isString (propOf v ''recordId'') max_record_id \<or>
              \<not> isString (propOf v ''field'') max_field \<or>
              \<not> isBool (propOf v ''tombstone'') \<or>
              \<not> isHlcStamp (propOf v ''hlc'') \<or>
              \<not> isString (propOf v ''deviceId'') max_device_id \<or>
              \<not> isEmissionSeq (propOf v ''seq'')
      then False
      else if kind_of_val (propOf v ''kind'') = Some Settings \<and>
              propOf v ''recordId'' \<noteq> JStr SETTINGS_RECORD_ID
      then False
      else if propOf v ''tombstone'' = JBool True
      then propOf v ''field'' = JStr TOMBSTONE_FIELD \<and> propOf v ''value'' = JNull
      else (case syncFieldRule (the (kind_of_val (propOf v ''kind''))) (str_of (propOf v ''field'')) of
              None \<Rightarrow> False
            | Some r \<Rightarrow> rule_valid r (propOf v ''value'')))"

text \<open>The entry a guarded value holds.\<close>

definition entry_of_val :: "jsval \<Rightarrow> changeEntry option" where
  "entry_of_val v =
     (if isChangeEntry v then
        Some \<lparr>ce_kind = the (kind_of_val (propOf v ''kind'')),
              ce_recordId = str_of (propOf v ''recordId''),
              ce_field = str_of (propOf v ''field''),
              ce_value = propOf v ''value'',
              ce_tombstone = (propOf v ''tombstone'' = JBool True),
              ce_hlc = the (stamp_of_val (propOf v ''hlc'')),
              ce_deviceId = str_of (propOf v ''deviceId''),
              ce_seq = nat_of_val (propOf v ''seq'')\<rparr>
      else None)"

definition val_of_entry :: "changeEntry \<Rightarrow> jsval" where
  "val_of_entry e = JObj
     [(''kind'', JStr (kind_str (ce_kind e))), (''recordId'', JStr (ce_recordId e)),
      (''field'', JStr (ce_field e)), (''value'', ce_value e),
      (''tombstone'', JBool (ce_tombstone e)), (''hlc'', stamp_val (ce_hlc e)),
      (''deviceId'', JStr (ce_deviceId e)), (''seq'', JNum (jnat (ce_seq e)))]"

text \<open>What a guarded entry satisfies, on the decoded entry.\<close>

definition valid_entry :: "changeEntry \<Rightarrow> bool" where
  "valid_entry e =
     (ce_recordId e \<noteq> [] \<and> length (ce_recordId e) \<le> max_record_id \<and>
      ce_field e \<noteq> [] \<and> length (ce_field e) \<le> max_field \<and>
      stamp_ok (ce_hlc e) \<and>
      ce_deviceId e \<noteq> [] \<and> length (ce_deviceId e) \<le> max_device_id \<and>
      1 \<le> ce_seq e \<and> ce_seq e \<le> max_safe \<and>
      (ce_kind e = Settings \<longrightarrow> ce_recordId e = SETTINGS_RECORD_ID) \<and>
      (if ce_tombstone e then ce_field e = TOMBSTONE_FIELD \<and> ce_value e = JNull
       else (case syncFieldRule (ce_kind e) (ce_field e) of
               None \<Rightarrow> False
             | Some r \<Rightarrow> rule_valid r (ce_value e))))"

fun obj_values :: "jsval \<Rightarrow> jsval list" where
  "obj_values (JObj ps) = map snd ps"
| "obj_values _ = []"

definition isSyncCursor :: "jsval \<Rightarrow> bool" where
  [guard_defs]: "isSyncCursor v =
     (isRecord v \<and> length (own_keys v) \<le> max_cursor_devices \<and>
      list_all isSafeNonNegative (obj_values v))"

definition isPeerMarks :: "jsval \<Rightarrow> bool" where
  [guard_defs]: "isPeerMarks v =
     (isRecord v \<and> list_all (\<lambda>s. isString (JStr s) max_device_id) (own_keys v) \<and>
      list_all isSyncCursor (obj_values v))"

definition isSkippedMap :: "jsval \<Rightarrow> bool" where
  [guard_defs]: "isSkippedMap v =
     (isRecord v \<and> length (own_keys v) \<le> max_cursor_devices \<and>
      list_all (isArr (\<lambda>seqs. length seqs \<le> max_delta_entries \<and> list_all isSafeNonNegative seqs))
        (obj_values v))"

definition isSyncDelta :: "jsval \<Rightarrow> bool" where
  [guard_defs]: "isSyncDelta v =
     (isRecord v \<and>
      hasExactKeys v [''formatVersion'', ''senderDeviceId'', ''cursor'', ''entries'', ''more'',
                      ''skipped''] \<and>
      propOf v ''formatVersion'' = JNum (jnat 1) \<and>
      isString (propOf v ''senderDeviceId'') max_device_id \<and>
      isSyncCursor (propOf v ''cursor'') \<and>
      isArr (\<lambda>es. length es \<le> max_delta_entries) (propOf v ''entries'') \<and>
      isBool (propOf v ''more'') \<and> isSkippedMap (propOf v ''skipped''))"

definition isDivergenceSide :: "jsval \<Rightarrow> bool" where
  [guard_defs]: "isDivergenceSide v =
     (isRecord v \<and> hasExactKeys v [''deviceId'', ''hlc'', ''tombstone'', ''value''] \<and>
      isString (propOf v ''deviceId'') max_device_id \<and> isHlcStamp (propOf v ''hlc'') \<and>
      isBool (propOf v ''tombstone''))"

definition isDivergenceEntry :: "jsval \<Rightarrow> bool" where
  [guard_defs]: "isDivergenceEntry v =
     (isRecord v \<and>
      hasExactKeys v [''historyId'', ''seq'', ''kind'', ''recordId'', ''field'', ''loser'',
                      ''winner'', ''observedMs'', ''origin''] \<and>
      isString (propOf v ''historyId'') 64 \<and> isSafeNonNegative (propOf v ''seq'') \<and>
      isSyncRecordKind (propOf v ''kind'') \<and> isString (propOf v ''recordId'') max_record_id \<and>
      isString (propOf v ''field'') max_field \<and> isDivergenceSide (propOf v ''loser'') \<and>
      isDivergenceSide (propOf v ''winner'') \<and> isSafeNonNegative (propOf v ''observedMs'') \<and>
      isIn [''local'', ''remote''] (propOf v ''origin''))"

fun obj_entries :: "jsval \<Rightarrow> (string \<times> jsval) list" where
  "obj_entries (JObj ps) = ps"
| "obj_entries _ = []"

definition isMaterializedRecord :: "jsval \<Rightarrow> bool" where
  "isMaterializedRecord v =
     (isRecord v \<and>
      hasKeys v [''kind'', ''recordId'', ''fields''] [''sumComponents'', ''winnerDeviceIds''] \<and>
      kind_of_val (propOf v ''kind'') \<noteq> None \<and>
      isString (propOf v ''recordId'') max_record_id \<and> isRecord (propOf v ''fields'') \<and>
      optional (\<lambda>sc. isRecord sc \<and>
          list_all (\<lambda>(field, perDevice). length field \<le> max_field \<and> isRecord perDevice \<and>
              list_all (\<lambda>(dev, c). isString (JStr dev) max_device_id \<and> isSafeNonNegative c)
                (obj_entries perDevice)) (obj_entries sc))
        (propOf v ''sumComponents'') \<and>
      optional (\<lambda>wd. isRecord wd \<and>
          list_all (\<lambda>(field, dev). length field \<le> max_field \<and> isString dev max_device_id)
            (obj_entries wd))
        (propOf v ''winnerDeviceIds'') \<and>
      list_all (\<lambda>(field, fv).
          case (if length field \<le> max_field
                then syncFieldRule (the (kind_of_val (propOf v ''kind''))) field else None) of
            None \<Rightarrow> False
          | Some r \<Rightarrow> rule_valid r fv)
        (obj_entries (propOf v ''fields'')))"

section \<open>Laws\<close>

lemma if_then_False: "(if P then False else Q) \<longleftrightarrow> \<not> P \<and> Q"
  by simp

lemmas isChangeEntry_iff =
  isChangeEntry_def [unfolded if_then_False de_Morgan_disj not_not de_Morgan_conj]

lemma entry_of_val_valid:
  assumes "entry_of_val v = Some e"
  shows "valid_entry e"
proof -
  have v: "isChangeEntry v" and e: "e = the (entry_of_val v)"
    using assms by (auto simp: entry_of_val_def split: if_splits)
  note g = v [unfolded isChangeEntry_iff]
  have fv: "ce_value e = propOf v ''value''"
    by (simp add: e entry_of_val_def v)
  have "stamp_ok (ce_hlc e)"
    using g stamp_of_val_ok [of "propOf v ''hlc''"]
    by (simp add: e entry_of_val_def v stamp_of_val_def)
  moreover have "1 \<le> ce_seq e \<and> ce_seq e \<le> max_safe"
    using g by (auto simp: e entry_of_val_def v isEmissionSeq_def isSafeNonNegative_iff)
  moreover have "ce_kind e = Settings \<longrightarrow> ce_recordId e = SETTINGS_RECORD_ID"
    using g by (auto simp: e entry_of_val_def v)
  moreover have "if ce_tombstone e then ce_field e = TOMBSTONE_FIELD \<and> ce_value e = JNull
      else (case syncFieldRule (ce_kind e) (ce_field e) of None \<Rightarrow> False
            | Some r \<Rightarrow> rule_valid r (ce_value e))"
    unfolding fv using g by (simp add: e [unfolded entry_of_val_def] v split: if_splits)
  moreover have "ce_recordId e \<noteq> [] \<and> length (ce_recordId e) \<le> max_record_id \<and> ce_field e \<noteq> [] \<and>
      length (ce_field e) \<le> max_field \<and> ce_deviceId e \<noteq> [] \<and> length (ce_deviceId e) \<le> max_device_id"
    using g by (auto simp: e entry_of_val_def v isString_iff)
  ultimately show ?thesis
    by (simp only: valid_entry_def simp_thms)
qed

lemma entry_roundtrip:
  assumes "valid_entry e"
  shows "entry_of_val (val_of_entry e) = Some e"
proof -
  have kind: "kind_of_val (JStr (kind_str k)) = Some k" for k
    by (simp add: kind_codec.dec_enc)
  have stamp: "stamp_of_val (stamp_val (ce_hlc e)) = Some (ce_hlc e)"
    using assms by (intro stamp_codec.dec_enc) (simp add: valid_entry_def)
  then have "isHlcStamp (stamp_val (ce_hlc e))"
    by (simp add: stamp_of_val_def split: if_splits)
  with assms kind stamp have "isChangeEntry (val_of_entry e)"
    by (auto simp: isChangeEntry_def val_of_entry_def valid_entry_def hasExactKeys_def hasOwn_def
        isEmissionSeq_def split: if_splits option.splits)
  with kind stamp show ?thesis
    by (simp add: entry_of_val_def val_of_entry_def)
       (use assms in \<open>auto simp: valid_entry_def\<close>)
qed

interpretation entry_codec: codec val_of_entry entry_of_val valid_entry
  by unfold_locales (rule entry_roundtrip)

text \<open>The numeric rules only ever see safe nonnegative integers.\<close>

lemma numeric_entry:
  assumes "valid_entry e" "\<not> ce_tombstone e" "merge_of (ce_kind e) (ce_field e) = Some m"
    "m \<noteq> Lww"
  shows "\<exists>n\<le>max_safe. ce_value e = JNum (jnat n)"
proof -
  have "(m = SumM \<and> ce_kind e = PlayCount \<and> ce_field e = ''count'') \<or>
        (m = MaxM \<and> ce_kind e = PlayCount \<and> ce_field e = ''lastMs'')"
    using assms(3,4) merge_of_Sum_iff merge_of_Max_iff by (cases m) auto
  then have "isSafeNonNegative (ce_value e)"
    using assms(1,2)
    by (auto simp: valid_entry_def syncFieldRule_def rule_with_def split: option.splits)
  then show ?thesis
    by (simp add: isSafeNonNegative_iff)
qed

end
