(* ===== verification/SyncMerge.thy ===== *)
theory SyncMerge
  imports SyncRules
begin

text \<open>
  The merge of \<open>packages/application/src/sync/sync-engine.ts\<close>: the closures \<open>beats\<close>,
  \<open>pickWinner\<close>, \<open>componentWinner\<close>, \<open>sumValue\<close>, \<open>liveInsert\<close>, \<open>recordDivergence\<close> and \<open>reduce\<close>
  of \<open>createSyncEngine\<close>, over the merge state they share (\<open>records\<close>, \<open>mergeLive\<close> and the
  divergence history).

  \<open>reduce\<close> is split into what it does to the record (\<open>reduceTombstone\<close>, \<open>reduceField\<close>: the
  outcome, the new record, the loser/winner pairs in the order \<open>recordDivergence\<close> is called
  on them, and the entries that leave and join \<open>mergeLive\<close>) and the threading of those
  through the shared state. Entries are compared by value where the code compares object
  identity; an object that is replaced by an equal one leaves \<open>mergeLive\<close> before its
  replacement joins, so the set's contents agree.
\<close>

section \<open>Cells, records and the divergence history\<close>

record fieldCell =
  fc_winner :: changeEntry
  fc_value :: jsval
  fc_live :: "changeEntry list"

record recordState =
  rs_kind :: syncKind
  rs_recordId :: string
  rs_fields :: "(string, fieldCell) jsmap"
  rs_tombstone :: "changeEntry option"

record divergenceSide =
  ds_deviceId :: string
  ds_hlc :: hlcStamp
  ds_tombstone :: bool
  ds_value :: jsval

record divergenceEntry =
  dv_historyId :: string
  dv_seq :: nat
  dv_kind :: syncKind
  dv_recordId :: string
  dv_field :: string
  dv_loser :: divergenceSide
  dv_winner :: divergenceSide
  dv_observedMs :: nat
  dv_local :: bool

datatype mergeOutcome =
    Applied changeEntry "changeEntry list"
  | Superseded changeEntry changeEntry
  | Duplicate changeEntry
  | Rejected nat string

definition toSide :: "changeEntry \<Rightarrow> divergenceSide" where
  "toSide e = \<lparr>ds_deviceId = ce_deviceId e, ds_hlc = ce_hlc e, ds_tombstone = ce_tombstone e,
               ds_value = ce_value e\<rparr>"

text \<open>
  \<open>JSON.stringify\<close> of a fixed-arity tuple of strings and numbers is injective, so the tuple
  itself is the key.
\<close>

type_synonym divKey = "syncKind \<times> string \<times> string \<times> string \<times> nat \<times> nat"

definition divergenceKey :: "syncKind \<Rightarrow> string \<Rightarrow> string \<Rightarrow> divergenceSide \<Rightarrow> divKey" where
  "divergenceKey kind recordId field loser =
     (kind, recordId, field, ds_deviceId loser, stamp_l (ds_hlc loser), stamp_c (ds_hlc loser))"

section \<open>The merge rule\<close>

fun is_num :: "jsval \<Rightarrow> bool" where
  "is_num (JNum x) = True"
| "is_num _ = False"

text \<open>\<open>a < b\<close> and \<open>a === b\<close> where \<open>typeof\<close> of both is \<open>'number'\<close>.\<close>

fun val_less :: "jsval \<Rightarrow> jsval \<Rightarrow> bool" where
  "val_less (JNum a) (JNum b) = num_less a b"
| "val_less _ _ = False"

fun val_num_eq :: "jsval \<Rightarrow> jsval \<Rightarrow> bool" where
  "val_num_eq (JNum a) (JNum b) = num_eq a b"
| "val_num_eq _ _ = False"

definition beats :: "changeEntry \<Rightarrow> changeEntry \<Rightarrow> mergeMode option \<Rightarrow> bool" where
  "beats candidate rival merge =
     (if (merge = Some MaxM \<or> merge = Some SumM) \<and>
         is_num (ce_value candidate) \<and> is_num (ce_value rival)
      then val_less (ce_value rival) (ce_value candidate) \<or>
           (val_num_eq (ce_value candidate) (ce_value rival) \<and> 0 < compareEntryTs candidate rival)
      else 0 < compareEntryTs candidate rival)"

text \<open>The scan of \<open>pickWinner\<close>: a later candidate replaces the current one when it beats it.\<close>

fun pick_from :: "mergeMode option \<Rightarrow> changeEntry \<Rightarrow> changeEntry list \<Rightarrow> changeEntry" where
  "pick_from merge w [] = w"
| "pick_from merge w (c # cs) = pick_from merge (if beats c w merge then c else w) cs"

text \<open>\<open>None\<close> is the \<open>RangeError('empty candidate set')\<close>.\<close>

fun pickWinner :: "mergeMode option \<Rightarrow> changeEntry list \<Rightarrow> changeEntry option" where
  "pickWinner merge [] = None"
| "pickWinner merge (c # cs) = Some (pick_from merge c cs)"

definition componentWinner :: "changeEntry list \<Rightarrow> string \<Rightarrow> changeEntry option" where
  "componentWinner live dev = pickWinner (Some SumM) (filter (\<lambda>c. ce_deviceId c = dev) live)"

fun num_add :: "jsnum \<Rightarrow> jsnum \<Rightarrow> jsnum" where
  "num_add (Fin a) (Fin b) = Fin (a + b)"
| "num_add NaN _ = NaN"
| "num_add _ NaN = NaN"
| "num_add PosInf NegInf = NaN"
| "num_add NegInf PosInf = NaN"
| "num_add PosInf _ = PosInf"
| "num_add _ PosInf = PosInf"
| "num_add NegInf _ = NegInf"
| "num_add _ NegInf = NegInf"

text \<open>The accumulation of \<open>sumValue\<close>, device by device, with its saturating early return.\<close>

fun sum_devs :: "changeEntry list \<Rightarrow> jsnum \<Rightarrow> string list \<Rightarrow> jsnum" where
  "sum_devs live tot [] = tot"
| "sum_devs live tot (dev # devs) =
     (case componentWinner live dev of
        Some c \<Rightarrow>
          (case ce_value c of
             JNum x \<Rightarrow>
               let t = num_add tot x
               in if num_less (jnat max_safe) t then jnat max_safe else sum_devs live t devs
           | _ \<Rightarrow> sum_devs live tot devs)
      | None \<Rightarrow> sum_devs live tot devs)"

text \<open>\<open>new Set(...)\<close> keeps first occurrences, in order.\<close>

definition dev_set :: "changeEntry list \<Rightarrow> string list" where
  "dev_set live = rev (remdups (rev (map ce_deviceId live)))"

definition sumValue :: "changeEntry list \<Rightarrow> jsnum" where
  "sumValue live = sum_devs live (jnat 0) (dev_set live)"

section \<open>The live frontier\<close>

text \<open>\<open>cand\<close> dominates \<open>entry\<close>: same partition, later stamp, value at least as large.\<close>

definition dominates :: "bool \<Rightarrow> changeEntry \<Rightarrow> changeEntry \<Rightarrow> bool" where
  "dominates byDevice cand entry =
     (\<not> (byDevice \<and> ce_deviceId cand \<noteq> ce_deviceId entry) \<and>
      0 < compareEntryTs cand entry \<and>
      is_num (ce_value cand) \<and> is_num (ce_value entry) \<and>
      \<not> val_less (ce_value cand) (ce_value entry))"

text \<open>The members an inserted entry removes.\<close>

definition prunes :: "bool \<Rightarrow> changeEntry \<Rightarrow> changeEntry \<Rightarrow> bool" where
  "prunes byDevice entry cand =
     (\<not> (byDevice \<and> ce_deviceId cand \<noteq> ce_deviceId entry) \<and>
      is_num (ce_value cand) \<and> is_num (ce_value entry) \<and>
      \<not> val_less (ce_value entry) (ce_value cand) \<and>
      \<not> 0 < compareEntryTs cand entry)"

type_synonym losses = "(changeEntry \<times> changeEntry) list"

record insertion =
  in_live :: "changeEntry list"
  in_losses :: losses
  in_dropped :: "changeEntry list"
  in_added :: "changeEntry list"

definition liveInsert :: "changeEntry list \<Rightarrow> changeEntry \<Rightarrow> bool \<Rightarrow> insertion" where
  "liveInsert live entry byDevice =
     (case find (\<lambda>cand. dominates byDevice cand entry) live of
        Some cand \<Rightarrow>
          \<lparr>in_live = live,
           in_losses = (if \<not> jsonEquals (ce_value cand) (ce_value entry) then [(entry, cand)] else []),
           in_dropped = [], in_added = []\<rparr>
      | None \<Rightarrow>
          \<lparr>in_live = filter (\<lambda>cand. \<not> prunes byDevice entry cand) live @ [entry],
           in_losses = map (\<lambda>cand. (cand, entry))
             (filter (\<lambda>cand. prunes byDevice entry cand \<and>
                             \<not> jsonEquals (ce_value cand) (ce_value entry)) (rev live)),
           in_dropped = filter (prunes byDevice entry) (rev live),
           in_added = [entry]\<rparr>)"

section \<open>Reducing one entry into its record\<close>

record reduction =
  rd_outcome :: mergeOutcome
  rd_record :: recordState
  rd_losses :: losses
  rd_dropped :: "changeEntry list"
  rd_added :: "changeEntry list"

abbreviation at_or_below :: "changeEntry \<Rightarrow> changeEntry \<Rightarrow> bool" where
  "at_or_below a b \<equiv> compareEntryTs a b \<le> 0"

definition cell_value :: "mergeMode option \<Rightarrow> changeEntry \<Rightarrow> changeEntry list \<Rightarrow> jsval" where
  "cell_value merge winner live = (if merge = Some SumM then JNum (sumValue live) else ce_value winner)"

text \<open>What a newer tombstone leaves of one field.\<close>

fun kill_cell :: "syncKind \<Rightarrow> changeEntry \<Rightarrow> string \<times> fieldCell \<Rightarrow> (string \<times> fieldCell) option" where
  "kill_cell kind entry (field, cell) =
     (let survivors = filter (\<lambda>c. \<not> at_or_below c entry) (fc_live cell);
          merge = merge_of kind field
      in case pickWinner merge survivors of
           None \<Rightarrow> None
         | Some winner \<Rightarrow>
             Some (field, \<lparr>fc_winner = winner, fc_value = cell_value merge winner survivors,
                           fc_live = survivors\<rparr>))"

definition killed_live :: "changeEntry \<Rightarrow> (string, fieldCell) jsmap \<Rightarrow> changeEntry list" where
  "killed_live entry fs =
     concat (map (\<lambda>(field, cell). filter (\<lambda>c. at_or_below c entry) (fc_live cell)) fs)"

definition reduceTombstone :: "changeEntry \<Rightarrow> recordState \<Rightarrow> reduction" where
  "reduceTombstone entry rec =
     (case rs_tombstone rec of
        Some current \<Rightarrow>
          if at_or_below entry current then
            \<lparr>rd_outcome = Superseded entry current, rd_record = rec,
             rd_losses = [(entry, current)], rd_dropped = [], rd_added = []\<rparr>
          else
            \<lparr>rd_outcome = Applied entry
               (filter (\<lambda>w. at_or_below w entry) (map (fc_winner \<circ> snd) (rs_fields rec))),
             rd_record = rec\<lparr>rs_fields := List.map_filter (kill_cell (rs_kind rec) entry) (rs_fields rec),
                             rs_tombstone := Some entry\<rparr>,
             rd_losses = (current, entry) # map (\<lambda>c. (c, entry)) (killed_live entry (rs_fields rec)),
             rd_dropped = current # killed_live entry (rs_fields rec), rd_added = [entry]\<rparr>
      | None \<Rightarrow>
          \<lparr>rd_outcome = Applied entry
             (filter (\<lambda>w. at_or_below w entry) (map (fc_winner \<circ> snd) (rs_fields rec))),
           rd_record = rec\<lparr>rs_fields := List.map_filter (kill_cell (rs_kind rec) entry) (rs_fields rec),
                           rs_tombstone := Some entry\<rparr>,
           rd_losses = map (\<lambda>c. (c, entry)) (killed_live entry (rs_fields rec)),
           rd_dropped = killed_live entry (rs_fields rec), rd_added = [entry]\<rparr>)"

definition live_of :: "fieldCell option \<Rightarrow> changeEntry list" where
  "live_of cell = (case cell of Some c \<Rightarrow> fc_live c | None \<Rightarrow> [])"

definition rival_of :: "mergeMode option \<Rightarrow> fieldCell option \<Rightarrow> string \<Rightarrow> changeEntry option" where
  "rival_of merge cell dev =
     (if merge = Some SumM then componentWinner (live_of cell) dev
      else map_option fc_winner cell)"

text \<open>The entry lost its contest: it may still join the frontier.\<close>

definition reduceLoser ::
  "changeEntry \<Rightarrow> mergeMode option \<Rightarrow> fieldCell option \<Rightarrow> changeEntry \<Rightarrow> recordState \<Rightarrow> reduction" where
  "reduceLoser entry merge cell rival rec =
     (let first = (if \<not> jsonEquals (ce_value entry) (ce_value rival) then [(entry, rival)] else [])
      in case cell of
           Some c \<Rightarrow>
             if merge = Some MaxM \<or> merge = Some SumM then
               let ins = liveInsert (fc_live c) entry (merge = Some SumM)
               in \<lparr>rd_outcome = Superseded entry rival,
                   rd_record = rec\<lparr>rs_fields :=
                     AList.update (ce_field entry) (c\<lparr>fc_live := in_live ins\<rparr>) (rs_fields rec)\<rparr>,
                   rd_losses = first @ in_losses ins,
                   rd_dropped = in_dropped ins, rd_added = in_added ins\<rparr>
             else \<lparr>rd_outcome = Superseded entry rival, rd_record = rec, rd_losses = first,
                   rd_dropped = [], rd_added = []\<rparr>
         | None \<Rightarrow> \<lparr>rd_outcome = Superseded entry rival, rd_record = rec, rd_losses = first,
                    rd_dropped = [], rd_added = []\<rparr>)"

text \<open>The entry won: its rival is displaced, and the cell is rebuilt around it.\<close>

definition reduceWinner ::
  "changeEntry \<Rightarrow> mergeMode option \<Rightarrow> fieldCell option \<Rightarrow> changeEntry option \<Rightarrow> recordState \<Rightarrow>
     reduction" where
  "reduceWinner entry merge cell rival rec =
     (let displaced = (case rival of Some r \<Rightarrow> [r] | None \<Rightarrow> []);
          first = (case rival of
                     Some r \<Rightarrow> if \<not> jsonEquals (ce_value r) (ce_value entry) then [(r, entry)] else []
                   | None \<Rightarrow> [])
      in if merge = None \<or> merge = Some Lww then
           \<lparr>rd_outcome = Applied entry displaced,
            rd_record = rec\<lparr>rs_fields :=
              AList.update (ce_field entry)
                \<lparr>fc_winner = entry, fc_value = ce_value entry, fc_live = [entry]\<rparr> (rs_fields rec)\<rparr>,
            rd_losses = first, rd_dropped = live_of cell, rd_added = [entry]\<rparr>
         else
           let ins = liveInsert (live_of cell) entry (merge = Some SumM);
               winner = (case pickWinner merge (in_live ins) of Some w \<Rightarrow> w | None \<Rightarrow> entry)
           in \<lparr>rd_outcome = Applied entry displaced,
               rd_record = rec\<lparr>rs_fields :=
                 AList.update (ce_field entry)
                   \<lparr>fc_winner = winner, fc_value = cell_value merge winner (in_live ins),
                    fc_live = in_live ins\<rparr> (rs_fields rec)\<rparr>,
               rd_losses = first @ in_losses ins,
               rd_dropped = in_dropped ins, rd_added = in_added ins\<rparr>)"

definition reduceField :: "changeEntry \<Rightarrow> recordState \<Rightarrow> reduction" where
  "reduceField entry rec =
     (let merge = merge_of (ce_kind entry) (ce_field entry);
          cell = map_of (rs_fields rec) (ce_field entry);
          rival = rival_of merge cell (ce_deviceId entry);
          contest = (case rival of
                       Some r \<Rightarrow> if beats entry r merge then reduceWinner entry merge cell rival rec
                                 else reduceLoser entry merge cell r rec
                     | None \<Rightarrow> reduceWinner entry merge cell None rec)
      in case rs_tombstone rec of
           Some tomb \<Rightarrow>
             if at_or_below entry tomb then
               \<lparr>rd_outcome = Superseded entry tomb, rd_record = rec, rd_losses = [(entry, tomb)],
                rd_dropped = [], rd_added = []\<rparr>
             else contest
         | None \<Rightarrow> contest)"

definition reduceEntry :: "changeEntry \<Rightarrow> recordState \<Rightarrow> reduction" where
  "reduceEntry entry rec = (if ce_tombstone entry then reduceTombstone entry rec
                            else reduceField entry rec)"

section \<open>The divergence history\<close>

text \<open>
  The history rows with their dedupe set and sequence, and the replay bookkeeping of a
  hydrate. The clock port and the id port are parameters: \<open>me_now\<close> is the value of
  \<open>now() ?? null\<close> during the operation, \<open>me_next n\<close> the \<open>n\<close>-th id \<open>ids.next('div')\<close> mints.
\<close>

record mergeEnv =
  me_deviceId :: string
  me_now :: "nat option"
  me_next :: "nat \<Rightarrow> string"

record divState =
  dh_rows :: "divergenceEntry list"
  dh_seen :: "divKey set"
  dh_seq :: nat
  dh_minted :: nat
  dh_replaySeen :: "divKey set"
  dh_emittedAt :: "(changeEntry, nat) jsmap"
  dh_dropped :: "nat list"
  dh_droppedCursor :: nat
  dh_nextOrdinal :: nat
  dh_floor :: nat

datatype emitMode = EmitNone | EmitLive | EmitRepair

text \<open>The loop of \<open>skipRetiredOrdinals\<close>: \<open>retired\<close> is the sorted list from the cursor on.\<close>

fun skip_retired :: "nat list \<Rightarrow> nat \<Rightarrow> nat \<Rightarrow> nat \<times> nat" where
  "skip_retired [] next cursor = (next, cursor)"
| "skip_retired (r # rs) next cursor =
     (if next < r then (next, cursor) else skip_retired rs (r + 1) (cursor + 1))"

definition skipRetiredOrdinals :: "divState \<Rightarrow> divState" where
  "skipRetiredOrdinals d =
     (let (next, cursor) = skip_retired (drop (dh_droppedCursor d) (dh_dropped d))
                             (dh_nextOrdinal d) (dh_droppedCursor d)
      in d\<lparr>dh_nextOrdinal := next, dh_droppedCursor := cursor\<rparr>)"

definition claimEmissionOrdinal :: "divState \<Rightarrow> nat \<times> divState" where
  "claimEmissionOrdinal d =
     (let ordinal = dh_nextOrdinal d
      in (ordinal, skipRetiredOrdinals (d\<lparr>dh_nextOrdinal := ordinal + 1\<rparr>)))"

definition push_row ::
  "mergeEnv \<Rightarrow> changeEntry \<Rightarrow> changeEntry \<Rightarrow> divergenceEntry list \<times> divState \<Rightarrow>
     divergenceEntry list \<times> divState" where
  "push_row env loser winner od =
     (let (out, d) = od;
          seq = dh_seq d + 1;
          row = \<lparr>dv_historyId = me_next env (dh_minted d), dv_seq = seq, dv_kind = ce_kind loser,
                 dv_recordId = ce_recordId loser, dv_field = ce_field loser,
                 dv_loser = toSide loser, dv_winner = toSide winner,
                 dv_observedMs = (case me_now env of Some t \<Rightarrow> t | None \<Rightarrow> stamp_l (ce_hlc loser)),
                 dv_local = (ce_deviceId loser = me_deviceId env)\<rparr>
      in (out @ [row], d\<lparr>dh_seq := seq, dh_minted := dh_minted d + 1, dh_rows := dh_rows d @ [row]\<rparr>))"

definition recordDivergence ::
  "mergeEnv \<Rightarrow> emitMode \<Rightarrow> changeEntry \<times> changeEntry \<Rightarrow> divergenceEntry list \<times> divState \<Rightarrow>
     divergenceEntry list \<times> divState" where
  "recordDivergence env emit lw od =
     (let (loser, winner) = lw; (out, d) = od;
          key = divergenceKey (ce_kind loser) (ce_recordId loser) (ce_field loser) (toSide loser)
      in case emit of
           EmitNone \<Rightarrow> (out, d)
         | EmitRepair \<Rightarrow>
             if key \<in> dh_replaySeen d then (out, d)
             else
               let (ordinal, d1) = claimEmissionOrdinal (d\<lparr>dh_replaySeen := insert key (dh_replaySeen d)\<rparr>);
                   d2 = d1\<lparr>dh_emittedAt := AList.update loser ordinal (dh_emittedAt d1)\<rparr>
               in if key \<in> dh_seen d2 then (out, d2)
                  else
                    let d3 = d2\<lparr>dh_seen := insert key (dh_seen d2)\<rparr>
                    in if ordinal < dh_floor d3 then (out, d3) else push_row env loser winner (out, d3)
         | EmitLive \<Rightarrow>
             if key \<in> dh_seen d then (out, d)
             else push_row env loser winner
                    (out, d\<lparr>dh_seen := insert key (dh_seen d),
                             dh_emittedAt := AList.update loser (dh_seq d + 1) (dh_emittedAt d)\<rparr>))"

definition divergence_history_limit :: nat where
  "divergence_history_limit = 500"

text \<open>\<open>pruneDivergence\<close>: the oldest retained row's seq when rows were dropped.\<close>

definition pruneDivergence :: "divState \<Rightarrow> nat option \<times> divState" where
  "pruneDivergence d =
     (if length (dh_rows d) \<le> divergence_history_limit then (None, d)
      else let excess = length (dh_rows d) - divergence_history_limit;
               kept = drop excess (dh_rows d)
           in (Some (dv_seq (hd kept)), d\<lparr>dh_rows := kept\<rparr>))"

section \<open>The merge state\<close>

record mergeState =
  ms_records :: "(string, recordState) jsmap"
  ms_live :: "changeEntry set"
  ms_div :: divState

definition fresh_record :: "changeEntry \<Rightarrow> recordState" where
  "fresh_record e = \<lparr>rs_kind = ce_kind e, rs_recordId = ce_recordId e, rs_fields = [],
                     rs_tombstone = None\<rparr>"

definition entry_record_key :: "changeEntry \<Rightarrow> string" where
  "entry_record_key e = syncedRecordKey (ce_kind e) (ce_recordId e)"

definition record_at :: "(string, recordState) jsmap \<Rightarrow> changeEntry \<Rightarrow> recordState" where
  "record_at recs e =
     (case map_of recs (entry_record_key e) of Some r \<Rightarrow> r | None \<Rightarrow> fresh_record e)"

definition reduce ::
  "mergeEnv \<Rightarrow> emitMode \<Rightarrow> changeEntry \<Rightarrow> mergeState \<Rightarrow>
     (mergeOutcome \<times> divergenceEntry list) \<times> mergeState" where
  "reduce env emit entry ms =
     (let rd = reduceEntry entry (record_at (ms_records ms) entry);
          (divs, dh) = fold (recordDivergence env emit) (rd_losses rd) ([], ms_div ms)
      in ((rd_outcome rd, divs),
          ms\<lparr>ms_records := AList.update (entry_record_key entry) (rd_record rd) (ms_records ms),
             ms_live := (ms_live ms - set (rd_dropped rd)) \<union> set (rd_added rd),
             ms_div := dh\<rparr>))"

text \<open>The state after merging a list of entries in order.\<close>

definition merge_step :: "mergeEnv \<Rightarrow> emitMode \<Rightarrow> changeEntry \<Rightarrow> mergeState \<Rightarrow> mergeState" where
  "merge_step env emit entry ms = snd (reduce env emit entry ms)"

definition empty_merge :: "divState \<Rightarrow> mergeState" where
  "empty_merge d = \<lparr>ms_records = [], ms_live = {}, ms_div = d\<rparr>"

section \<open>The materialized view\<close>

definition fieldsOf :: "recordState option \<Rightarrow> (string, jsval) jsmap" where
  "fieldsOf rec = (case rec of
     None \<Rightarrow> []
   | Some r \<Rightarrow> map (\<lambda>(field, cell). (field, fc_value cell)) (rs_fields r))"

text \<open>\<open>perDevice[dev] = cur === undefined ? v : Math.max(cur, v)\<close>, over the live entries.\<close>

fun num_max :: "jsnum \<Rightarrow> jsnum \<Rightarrow> jsnum" where
  "num_max a b = (if a = NaN \<or> b = NaN then NaN else if num_less a b then b else a)"

fun device_maxima :: "changeEntry list \<Rightarrow> (string, jsnum) jsmap \<Rightarrow> (string, jsnum) jsmap" where
  "device_maxima [] acc = acc"
| "device_maxima (e # es) acc =
     (case ce_value e of
        JNum x \<Rightarrow>
          device_maxima es
            (AList.update (ce_deviceId e)
               (case map_of acc (ce_deviceId e) of None \<Rightarrow> x | Some cur \<Rightarrow> num_max cur x) acc)
      | _ \<Rightarrow> device_maxima es acc)"

definition sumComponentsOf :: "recordState \<Rightarrow> (string, (string, jsnum) jsmap) jsmap" where
  "sumComponentsOf r =
     List.map_filter
       (\<lambda>(field, cell).
          if merge_of (rs_kind r) field \<noteq> Some SumM then None
          else let perDevice = device_maxima (fc_live cell) []
               in if perDevice = [] then None else Some (field, perDevice))
       (rs_fields r)"

definition winnerDeviceIdsOf :: "recordState \<Rightarrow> (string, string) jsmap" where
  "winnerDeviceIdsOf r =
     List.map_filter
       (\<lambda>(field, cell).
          if merge_of (rs_kind r) field = Some Lww then Some (field, ce_deviceId (fc_winner cell))
          else None)
       (rs_fields r)"

record materializedRecord =
  mr_kind :: syncKind
  mr_recordId :: string
  mr_fields :: "(string, jsval) jsmap"
  mr_sumComponents :: "(string, (string, jsnum) jsmap) jsmap"
  mr_winnerDeviceIds :: "(string, string) jsmap"

definition materializedOf :: "recordState \<Rightarrow> materializedRecord" where
  "materializedOf r =
     \<lparr>mr_kind = rs_kind r, mr_recordId = rs_recordId r, mr_fields = fieldsOf (Some r),
      mr_sumComponents = sumComponentsOf r, mr_winnerDeviceIds = winnerDeviceIdsOf r\<rparr>"

text \<open>The sort key of \<open>materialize()\<close>: tier, group, kind, record id.\<close>

definition mat_key :: "materializedRecord \<Rightarrow> nat \<times> string \<times> string \<times> string" where
  "mat_key m =
     ((if mr_kind m \<in> set grouped_kinds then 0 else 1),
      materializeGroup (mr_kind m) (mr_recordId m), kind_str (mr_kind m), mr_recordId m)"

definition compareMaterialized :: "materializedRecord \<Rightarrow> materializedRecord \<Rightarrow> int" where
  "compareMaterialized a b =
     (let ta = (if mr_kind a \<in> set grouped_kinds then 0 else 1 :: int);
          tb = (if mr_kind b \<in> set grouped_kinds then 0 else 1 :: int);
          ga = materializeGroup (mr_kind a) (mr_recordId a);
          gb = materializeGroup (mr_kind b) (mr_recordId b)
      in if ta \<noteq> tb then ta - tb
         else if ga \<noteq> gb then (if ga < gb then -1 else 1)
         else if mr_kind a \<noteq> mr_kind b then
           (if kind_str (mr_kind a) < kind_str (mr_kind b) then -1 else 1)
         else if mr_recordId a < mr_recordId b then -1
         else if mr_recordId b < mr_recordId a then 1
         else 0)"

definition materialize :: "mergeState \<Rightarrow> materializedRecord list" where
  "materialize ms = sort_by compareMaterialized (map (materializedOf \<circ> snd) (ms_records ms))"

interpretation mat_cmp: comparator compareMaterialized mat_key
  by unfold_locales
     (auto simp: compareMaterialized_def mat_key_def less_prod_def Let_def kind_codec.enc_eq_iff
           not_less le_less)

end
