(* ===== verification/SyncConverge.thy ===== *)
theory SyncConverge
  imports SyncMerge
begin

text \<open>
  What the merge of \<open>SyncMerge\<close> computes, stated without reference to arrival order: for the
  set of entries a replica has accepted for one record, the newest tombstone, the entries of
  each field that postdate it (\<open>alive\<close>), and over those the winner and the value the field's
  merge rule gives. The live frontier the code keeps (\<open>live\<close>) is a subset of the alive
  entries that covers all of them, which is why dropping everything else (compaction) is safe.
\<close>

section \<open>The specification\<close>

definition nv :: "changeEntry \<Rightarrow> nat" where
  "nv e = nat_of_val (ce_value e)"

abbreviation numeric_mode :: "mergeMode option \<Rightarrow> bool" where
  "numeric_mode m \<equiv> m = Some MaxM \<or> m = Some SumM"

text \<open>The linear key a field's contest compares: value first for numeric rules, then stamp.\<close>

definition bkey :: "mergeMode option \<Rightarrow> changeEntry \<Rightarrow> nat \<times> (hlcStamp \<times> string)" where
  "bkey m e = ((if numeric_mode m then nv e else 0), entry_ts e)"

definition tombs :: "changeEntry set \<Rightarrow> changeEntry set" where
  "tombs S = {e \<in> S. ce_tombstone e}"

definition alive :: "changeEntry set \<Rightarrow> string \<Rightarrow> changeEntry set" where
  "alive S f = {e \<in> S. \<not> ce_tombstone e \<and> ce_field e = f \<and> (\<forall>t\<in>tombs S. entry_ts t < entry_ts e)}"

definition greatest :: "(changeEntry \<Rightarrow> 'k::linorder) \<Rightarrow> changeEntry set \<Rightarrow> changeEntry \<Rightarrow> bool" where
  "greatest key A w = (w \<in> A \<and> (\<forall>x\<in>A. key x \<le> key w))"

definition device_max :: "changeEntry set \<Rightarrow> string \<Rightarrow> nat" where
  "device_max A d = Max (nv ` {e \<in> A. ce_deviceId e = d})"

text \<open>The per-device grow-only counter, saturated at the safe-integer bound.\<close>

definition sum_spec :: "changeEntry set \<Rightarrow> nat" where
  "sum_spec A = min max_safe (\<Sum>d\<in>ce_deviceId ` A. device_max A d)"

definition value_spec :: "mergeMode option \<Rightarrow> changeEntry set \<Rightarrow> changeEntry \<Rightarrow> jsval" where
  "value_spec m A w = (if m = Some SumM then JNum (jnat (sum_spec A)) else ce_value w)"

text \<open>Sets of entries a replica can hold: valid, and one entry per stamp and device.\<close>

definition admissible :: "changeEntry set \<Rightarrow> bool" where
  "admissible S = (finite S \<and> (\<forall>e\<in>S. valid_entry e) \<and> inj_on entry_ts S)"

text \<open>The entries of one record, all of one kind.\<close>

definition one_record :: "syncKind \<Rightarrow> changeEntry set \<Rightarrow> bool" where
  "one_record k S = (admissible S \<and> (\<forall>e\<in>S. ce_kind e = k))"

lemma admissible_subset: "admissible S \<Longrightarrow> T \<subseteq> S \<Longrightarrow> admissible T"
  by (auto simp: admissible_def intro: finite_subset inj_on_subset)

lemma one_record_subset: "one_record k S \<Longrightarrow> T \<subseteq> S \<Longrightarrow> one_record k T"
  by (auto simp: one_record_def intro: admissible_subset)

lemma ts_eq: "admissible S \<Longrightarrow> a \<in> S \<Longrightarrow> b \<in> S \<Longrightarrow> entry_ts a = entry_ts b \<Longrightarrow> a = b"
  by (auto simp: admissible_def dest: inj_onD)

lemma alive_subset: "alive S f \<subseteq> S"
  by (auto simp: alive_def)

lemma alive_field: "e \<in> alive S f \<Longrightarrow> ce_field e = f \<and> \<not> ce_tombstone e"
  by (simp add: alive_def)

lemma tombs_insert: "tombs (insert e S) = (if ce_tombstone e then insert e (tombs S) else tombs S)"
  by (auto simp: tombs_def)

section \<open>The contest is a linear order\<close>

definition numeric_ok :: "mergeMode option \<Rightarrow> changeEntry \<Rightarrow> bool" where
  "numeric_ok m e = (numeric_mode m \<longrightarrow> ce_value e = JNum (jnat (nv e)) \<and> nv e \<le> max_safe)"

lemma alive_numeric:
  assumes "one_record k S" "e \<in> alive S f"
  shows "numeric_ok (merge_of k f) e"
proof -
  have "valid_entry e" "ce_kind e = k" "\<not> ce_tombstone e" "ce_field e = f"
    using assms by (auto simp: one_record_def admissible_def alive_def)
  then show ?thesis
    using numeric_entry [of e "the (merge_of k f)"]
    by (auto simp: numeric_ok_def nv_def)
qed

lemma beats_iff:
  "numeric_ok m a \<Longrightarrow> numeric_ok m b \<Longrightarrow> beats a b m \<longleftrightarrow> bkey m b < bkey m a"
  by (auto simp: beats_def bkey_def numeric_ok_def entry_cmp.cmp_pos num_eq_def less_prod_def)

lemma pick_from_greatest:
  assumes "\<forall>x\<in>insert w (set xs). numeric_ok m x"
  shows "pick_from m w xs \<in> insert w (set xs) \<and>
         (\<forall>x\<in>insert w (set xs). bkey m x \<le> bkey m (pick_from m w xs))"
  using assms
proof (induction xs arbitrary: w)
  case (Cons x xs)
  let ?w = "if beats x w m then x else w"
  have "pick_from m ?w xs \<in> insert ?w (set xs) \<and>
        (\<forall>y\<in>insert ?w (set xs). bkey m y \<le> bkey m (pick_from m ?w xs))"
    by (rule Cons.IH) (use Cons.prems in auto)
  moreover have "bkey m x \<le> bkey m ?w" "bkey m w \<le> bkey m ?w"
    using beats_iff [of m x w] Cons.prems by auto
  ultimately show ?case
    by (auto intro: order_trans)
qed simp

lemma pickWinner_greatest:
  assumes "pickWinner m xs = Some w" "\<forall>x\<in>set xs. numeric_ok m x"
  shows "greatest (bkey m) (set xs) w"
  using assms pick_from_greatest [of "hd xs" "tl xs" m]
  by (cases xs) (auto simp: greatest_def)

lemma pickWinner_None [simp]: "pickWinner m xs = None \<longleftrightarrow> xs = []"
  by (cases xs) auto

lemma greatest_unique:
  "admissible S \<Longrightarrow> A \<subseteq> S \<Longrightarrow> greatest (bkey m) A v \<Longrightarrow> greatest (bkey m) A w \<Longrightarrow> v = w"
  unfolding greatest_def by (metis (no_types, opaque_lifting) bkey_def order_antisym prod.inject
      subset_iff ts_eq)

section \<open>Coverage\<close>

text \<open>A member that covers another bounds its fate under every later tombstone.\<close>

definition covers :: "mergeMode option \<Rightarrow> changeEntry \<Rightarrow> changeEntry \<Rightarrow> bool" where
  "covers m c e =
     (entry_ts e \<le> entry_ts c \<and>
      (numeric_mode m \<longrightarrow> nv e \<le> nv c) \<and>
      (m = Some SumM \<longrightarrow> ce_deviceId c = ce_deviceId e))"

lemma covers_refl [simp]: "covers m e e"
  by (simp add: covers_def)

lemma covers_trans: "covers m a b \<Longrightarrow> covers m b c \<Longrightarrow> covers m a c"
  by (auto simp: covers_def)

lemma covers_bkey: "covers m c e \<Longrightarrow> bkey m e \<le> bkey m c"
  by (auto simp: covers_def bkey_def less_eq_prod_def)

definition covering :: "mergeMode option \<Rightarrow> changeEntry set \<Rightarrow> changeEntry set \<Rightarrow> bool" where
  "covering m L A = (L \<subseteq> A \<and> (\<forall>e\<in>A. \<exists>c\<in>L. covers m c e))"

lemma covering_refl: "covering m A A"
  by (auto simp: covering_def intro: covers_refl)

lemma covering_greatest: "covering m L A \<Longrightarrow> greatest (bkey m) L w \<Longrightarrow> greatest (bkey m) A w"
  by (auto simp: covering_def greatest_def) (meson covers_bkey order_trans)

lemma covering_empty: "covering m L A \<Longrightarrow> L = {} \<longleftrightarrow> A = {}"
  by (auto simp: covering_def)

lemma covering_device_max:
  assumes "covering (Some SumM) L A" "finite A" "d \<in> ce_deviceId ` A"
  shows "device_max L d = device_max A d"
proof -
  let ?L = "nv ` {e \<in> L. ce_deviceId e = d}" and ?A = "nv ` {e \<in> A. ce_deviceId e = d}"
  have LA: "L \<subseteq> A" using assms(1) by (simp add: covering_def)
  have cov: "\<exists>c\<in>L. nv e \<le> nv c \<and> ce_deviceId c = d" if "e \<in> A" "ce_deviceId e = d" for e
    using assms(1) that by (auto simp: covering_def covers_def)
  have fin: "finite ?A" "finite ?L"
    using assms(2) finite_subset [OF LA assms(2)] by auto
  have ne: "?L \<noteq> {}" "?A \<noteq> {}"
    using assms(3) cov by auto
  have "Max ?L \<le> Max ?A"
    using LA ne(1) fin(1) by (intro Max_mono) auto
  moreover have "Max ?A \<le> Max ?L"
  proof (rule Max.boundedI [OF fin(1) ne(2)])
    fix v assume "v \<in> ?A"
    then obtain c where "c \<in> L" "v \<le> nv c" "ce_deviceId c = d"
      using cov by auto
    then show "v \<le> Max ?L"
      using fin(2) by (intro order_trans [OF _ Max_ge]) auto
  qed
  ultimately show ?thesis by (simp add: device_max_def)
qed

lemma covering_devices:
  "covering (Some SumM) L A \<Longrightarrow> ce_deviceId ` L = ce_deviceId ` A"
proof (intro equalityI subsetI)
  fix d assume c: "covering (Some SumM) L A"
  show "d \<in> ce_deviceId ` L \<Longrightarrow> d \<in> ce_deviceId ` A"
    using c by (auto simp: covering_def)
  assume "d \<in> ce_deviceId ` A"
  then obtain e where "e \<in> A" "d = ce_deviceId e" by auto
  moreover obtain x where "x \<in> L" "covers (Some SumM) x e"
    using c \<open>e \<in> A\<close> by (auto simp: covering_def)
  ultimately show "d \<in> ce_deviceId ` L"
    by (metis covers_def imageI)
qed

lemma covering_sum:
  assumes "covering (Some SumM) L A" "finite A"
  shows "sum_spec L = sum_spec A"
  using assms covering_devices [OF assms(1)] covering_device_max [OF assms]
  by (simp add: sum_spec_def)

lemma covering_filter:
  assumes "covering m L A"
  shows "covering m {c \<in> L. t < entry_ts c} {e \<in> A. t < entry_ts e}"
  using assms by (fastforce simp: covering_def covers_def)

section \<open>The code's sum is the specified sum\<close>

lemma componentWinner_Some:
  assumes "\<forall>x\<in>set live. numeric_ok (Some SumM) x" "d \<in> ce_deviceId ` set live"
  shows "\<exists>w. componentWinner live d = Some w \<and> ce_value w = JNum (jnat (device_max (set live) d))
           \<and> device_max (set live) d \<le> max_safe"
proof -
  let ?D = "filter (\<lambda>c. ce_deviceId c = d) live"
  have "?D \<noteq> []"
    using assms(2) by (auto simp: filter_empty_conv)
  then obtain w where w: "pickWinner (Some SumM) ?D = Some w"
    by (metis not_None_eq pickWinner_None)
  then have g: "greatest (bkey (Some SumM)) (set ?D) w"
    by (rule pickWinner_greatest) (use assms(1) in auto)
  then have "Max (nv ` set ?D) = nv w"
    by (intro Max_eqI) (auto simp: greatest_def bkey_def less_eq_prod_def le_less)
  then show ?thesis
    using w g assms(1)
    by (auto simp: componentWinner_def device_max_def numeric_ok_def greatest_def)
qed

lemma sum_devs_spec:
  assumes "\<forall>x\<in>set live. numeric_ok (Some SumM) x" "set devs \<subseteq> ce_deviceId ` set live"
    "distinct devs" "t \<le> max_safe"
  shows "sum_devs live (jnat t) devs =
         jnat (min max_safe (t + (\<Sum>d\<in>set devs. device_max (set live) d)))"
  using assms(2-)
proof (induction devs arbitrary: t)
  case Nil
  then show ?case by (simp add: min_absorb2)
next
  case (Cons d devs)
  obtain w where w: "componentWinner live d = Some w"
      "ce_value w = JNum (jnat (device_max (set live) d))"
    using componentWinner_Some [OF assms(1)] Cons.prems(1) by auto
  have add: "num_add (jnat t) (jnat (device_max (set live) d)) = jnat (t + device_max (set live) d)"
    by simp
  show ?case
  proof (cases "max_safe < t + device_max (set live) d")
    case True
    then have "of_nat max_safe < (of_nat (t + device_max (set live) d) :: rat)"
      by (simp only: of_nat_less_iff)
    with True w add Cons.prems show ?thesis
      by (simp add: Let_def del: num_add.simps)
  next
    case False
    then have "\<not> of_nat max_safe < (of_nat (t + device_max (set live) d) :: rat)"
      by (simp only: of_nat_less_iff not_False_eq_True)
    with False w add Cons show ?thesis
      by (simp add: Let_def add.assoc del: num_add.simps of_nat_add)
  qed
qed

lemma sumValue_spec:
  assumes "\<forall>x\<in>set live. numeric_ok (Some SumM) x"
  shows "sumValue live = jnat (sum_spec (set live))"
proof -
  have "set (dev_set live) = ce_deviceId ` set live" "distinct (dev_set live)"
    by (auto simp: dev_set_def)
  then show ?thesis
    using sum_devs_spec [OF assms, of "dev_set live" 0] by (simp add: sumValue_def sum_spec_def)
qed

lemma cell_value_spec:
  assumes "\<forall>x\<in>set live. numeric_ok m x" "covering m (set live) A" "finite A"
  shows "cell_value m w live = value_spec m A w"
  using assms covering_sum [of "set live" A] sumValue_spec [of live]
  by (auto simp: cell_value_def value_spec_def)

section \<open>The record invariant\<close>

definition cell_inv :: "mergeMode option \<Rightarrow> fieldCell \<Rightarrow> changeEntry set \<Rightarrow> bool" where
  "cell_inv m c A =
     (covering m (set (fc_live c)) A \<and> fc_winner c \<in> set (fc_live c) \<and>
      greatest (bkey m) A (fc_winner c) \<and> fc_value c = value_spec m A (fc_winner c) \<and>
      (\<not> numeric_mode m \<longrightarrow> fc_live c = [fc_winner c]))"

definition fields_inv :: "syncKind \<Rightarrow> (string, fieldCell) jsmap \<Rightarrow> changeEntry set \<Rightarrow> bool" where
  "fields_inv k fs S =
     (\<forall>f. case map_of fs f of None \<Rightarrow> alive S f = {}
                             | Some c \<Rightarrow> cell_inv (merge_of k f) c (alive S f))"

definition tomb_inv :: "changeEntry option \<Rightarrow> changeEntry set \<Rightarrow> bool" where
  "tomb_inv t S = (case t of None \<Rightarrow> tombs S = {} | Some x \<Rightarrow> greatest entry_ts (tombs S) x)"

definition rec_inv :: "recordState \<Rightarrow> changeEntry set \<Rightarrow> bool" where
  "rec_inv r S =
     (distinct (map fst (rs_fields r)) \<and> tomb_inv (rs_tombstone r) S \<and>
      fields_inv (rs_kind r) (rs_fields r) S)"

text \<open>The entries a record's state still refers to.\<close>

definition refs :: "recordState \<Rightarrow> changeEntry set" where
  "refs r = set_option (rs_tombstone r) \<union> (\<Union>c\<in>snd ` set (rs_fields r). set (fc_live c))"

lemma cell_inv_numeric:
  assumes "one_record k S" "A \<subseteq> alive S f"
  shows "\<forall>x\<in>A. numeric_ok (merge_of k f) x"
  using assms alive_numeric by blast

lemma finite_alive: "one_record k S \<Longrightarrow> finite (alive S f)"
  by (meson admissible_def alive_subset finite_subset one_record_def)

text \<open>A cell rebuilt with \<open>pickWinner\<close> over a covering live list satisfies the invariant.\<close>

lemma cell_inv_rebuild:
  assumes "one_record k S" "covering (merge_of k f) (set live) (alive S f)"
    "pickWinner (merge_of k f) live = Some w"
    "\<not> numeric_mode (merge_of k f) \<Longrightarrow> live = [w]"
  shows "cell_inv (merge_of k f)
           \<lparr>fc_winner = w, fc_value = cell_value (merge_of k f) w live, fc_live = live\<rparr> (alive S f)"
proof -
  have num: "\<forall>x\<in>set live. numeric_ok (merge_of k f) x"
    using assms(1,2) alive_numeric by (auto simp: covering_def)
  have g: "greatest (bkey (merge_of k f)) (set live) w"
    using assms(3) num by (rule pickWinner_greatest)
  show ?thesis
    using assms(2,4) covering_greatest [OF assms(2) g] g
      cell_value_spec [OF num assms(2) finite_alive [OF assms(1)]]
    by (simp add: cell_inv_def greatest_def)
qed

section \<open>Tombstones\<close>

lemma map_of_map_filter:
  assumes "distinct (map fst xs)" "\<And>k v p. g (k, v) = Some p \<Longrightarrow> fst p = k"
  shows "map_of (List.map_filter g xs) k =
           (case map_of xs k of None \<Rightarrow> None | Some v \<Rightarrow> map_option snd (g (k, v)))"
  using assms(1)
proof (induction xs)
  case (Cons x xs)
  obtain k' v where x: "x = (k', v)" by force
  have "k' \<notin> fst ` set xs"
    using Cons.prems x by auto
  then have none: "map_of xs k' = None"
    by (simp add: map_of_eq_None_iff)
  show ?case
    using Cons none assms(2) [of k' v] x
    by (cases "g (k', v)") (auto simp: map_filter_simps split: option.splits)
qed (simp add: map_filter_simps)

lemma distinct_map_filter_keys:
  assumes "distinct (map fst xs)" "\<And>k v p. g (k, v) = Some p \<Longrightarrow> fst p = k"
  shows "distinct (map fst (List.map_filter g xs))"
proof -
  have sub: "fst ` set (List.map_filter g ys) \<subseteq> fst ` set ys" for ys
    using assms(2) by (force simp: map_filter_def image_iff)
  show ?thesis
    using assms(1)
  proof (induction xs)
    case (Cons x xs)
    obtain k v where x: "x = (k, v)" by force
    have "k \<notin> fst ` set (List.map_filter g xs)"
      using Cons.prems sub [of xs] x by auto
    then show ?case
      using Cons assms(2) [of k v] x
      by (cases "g (k, v)") (auto simp: map_filter_simps)
  qed (simp add: map_filter_simps)
qed

lemma kill_cell_key: "kill_cell k e (f, c) = Some p \<Longrightarrow> fst p = f"
  by (auto simp: Let_def split: option.splits)

lemma alive_after_tombstone:
  assumes "ce_tombstone e" "\<forall>t\<in>tombs S. entry_ts t \<le> entry_ts e"
  shows "alive (insert e S) f = {x \<in> alive S f. entry_ts e < entry_ts x}"
  using assms by (auto simp: alive_def tombs_insert intro: le_less_trans)

lemma kill_cell_inv:
  assumes one: "one_record k (insert e S)" and new: "ce_tombstone e"
    "\<forall>t\<in>tombs S. entry_ts t \<le> entry_ts e"
    and inv: "cell_inv (merge_of k f) c (alive S f)"
  shows "case map_option snd (kill_cell k e (f, c)) of
           None \<Rightarrow> alive (insert e S) f = {}
         | Some c' \<Rightarrow> cell_inv (merge_of k f) c' (alive (insert e S) f)"
proof -
  let ?m = "merge_of k f" and ?A' = "alive (insert e S) f"
  let ?live = "filter (\<lambda>c. \<not> at_or_below c e) (fc_live c)"
  have live: "set ?live = {x \<in> set (fc_live c). entry_ts e < entry_ts x}"
    by (auto simp: entry_cmp.cmp_le not_le)
  have cov: "covering ?m (set ?live) ?A'"
    using covering_filter [of ?m "set (fc_live c)" "alive S f" "entry_ts e"] inv
    by (simp only: live alive_after_tombstone [OF new] cell_inv_def)
  show ?thesis
  proof (cases "pickWinner ?m ?live")
    case None
    then show ?thesis
      using covering_empty [OF cov] by (simp add: Let_def)
  next
    case (Some w)
    have "?live = [w]" if "\<not> numeric_mode ?m"
    proof -
      have "fc_live c = [fc_winner c]"
        using inv that by (simp add: cell_inv_def)
      with Some show ?thesis
        by (auto split: if_splits)
    qed
    with Some cov show ?thesis
      using cell_inv_rebuild [OF one cov Some] by (simp add: Let_def)
  qed
qed

lemma tomb_le_newest:
  "tomb_inv t S \<Longrightarrow> x \<in> tombs S \<Longrightarrow> \<exists>y. t = Some y \<and> entry_ts x \<le> entry_ts y"
  by (auto simp: tomb_inv_def greatest_def split: option.splits)

lemma apply_tombstone_inv:
  assumes one: "one_record (rs_kind r) (insert e S)" and inv: "rec_inv r S" and tomb: "ce_tombstone e"
    and newer: "\<And>t. rs_tombstone r = Some t \<Longrightarrow> entry_ts t < entry_ts e"
  shows "rec_inv (r\<lparr>rs_fields := List.map_filter (kill_cell (rs_kind r) e) (rs_fields r),
                   rs_tombstone := Some e\<rparr>) (insert e S)"
proof -
  have below: "\<forall>t\<in>tombs S. entry_ts t \<le> entry_ts e"
    using inv newer by (fastforce simp: rec_inv_def dest: tomb_le_newest)
  have dist: "distinct (map fst (rs_fields r))"
    using inv by (simp add: rec_inv_def)
  have "fields_inv (rs_kind r) (List.map_filter (kill_cell (rs_kind r) e) (rs_fields r)) (insert e S)"
    unfolding fields_inv_def
  proof
    fix f
    have look: "map_of (List.map_filter (kill_cell (rs_kind r) e) (rs_fields r)) f =
        (case map_of (rs_fields r) f of None \<Rightarrow> None
         | Some c \<Rightarrow> map_option snd (kill_cell (rs_kind r) e (f, c)))"
      by (rule map_of_map_filter [OF dist kill_cell_key])
    show "case map_of (List.map_filter (kill_cell (rs_kind r) e) (rs_fields r)) f of
            None \<Rightarrow> alive (insert e S) f = {}
          | Some c \<Rightarrow> cell_inv (merge_of (rs_kind r) f) c (alive (insert e S) f)"
    proof (cases "map_of (rs_fields r) f")
      case None
      then have "alive S f = {}"
        using inv by (auto simp: rec_inv_def fields_inv_def dest: spec [of _ f])
      with None look show ?thesis
        by (simp add: alive_after_tombstone [OF tomb below])
    next
      case (Some c)
      then have "cell_inv (merge_of (rs_kind r) f) c (alive S f)"
        using inv by (auto simp: rec_inv_def fields_inv_def dest: spec [of _ f])
      from kill_cell_inv [OF one tomb below this] Some look show ?thesis
        by simp
    qed
  qed
  moreover have "distinct (map fst (List.map_filter (kill_cell (rs_kind r) e) (rs_fields r)))"
    by (rule distinct_map_filter_keys [OF dist]) (rule kill_cell_key)
  ultimately show ?thesis
    using tomb below by (auto simp: rec_inv_def tomb_inv_def greatest_def tombs_insert)
qed

lemma stale_tombstone_inv:
  assumes inv: "rec_inv r S" and tomb: "ce_tombstone e"
    and t: "rs_tombstone r = Some t" "entry_ts e \<le> entry_ts t"
  shows "rec_inv r (insert e S)"
proof -
  have top: "t \<in> tombs S" "\<forall>x\<in>tombs S. entry_ts x \<le> entry_ts t"
    using inv t(1) by (auto simp: rec_inv_def tomb_inv_def greatest_def)
  have "alive (insert e S) f = alive S f" for f
    using tomb top(1) t(2) by (auto simp: alive_def tombs_insert intro: le_less_trans)
  moreover have "tomb_inv (rs_tombstone r) (insert e S)"
    using tomb top t by (auto simp: tomb_inv_def greatest_def tombs_insert)
  ultimately show ?thesis
    using inv by (simp add: rec_inv_def fields_inv_def cong: option.case_cong)
qed

lemma reduceTombstone_inv:
  assumes "one_record (rs_kind r) (insert e S)" "rec_inv r S" "ce_tombstone e"
  shows "rec_inv (rd_record (reduceTombstone e r)) (insert e S)"
  using assms apply_tombstone_inv [OF assms] stale_tombstone_inv [OF assms(2,3)]
  by (auto simp: reduceTombstone_def entry_cmp.cmp_le not_le split: option.splits)

section \<open>Field writes\<close>

lemma dominates_covers:
  assumes "numeric_ok m c" "numeric_ok m e" "numeric_mode m"
  shows "dominates (m = Some SumM) c e \<Longrightarrow> covers m c e"
    and "prunes (m = Some SumM) e c \<longleftrightarrow> covers m e c"
  using assms
  by (auto simp: dominates_def prunes_def covers_def numeric_ok_def entry_cmp.cmp_pos not_less)

lemma liveInsert_covering:
  assumes num: "\<forall>x\<in>insert e A. numeric_ok m x" and mode: "numeric_mode m"
    and cov: "covering m (set live) A"
  shows "covering m (set (in_live (liveInsert live e (m = Some SumM)))) (insert e A)"
proof (cases "find (\<lambda>cand. dominates (m = Some SumM) cand e) live")
  case None
  have live: "set live \<subseteq> A" using cov by (simp add: covering_def)
  have eq: "set (in_live (liveInsert live e (m = Some SumM))) =
            insert e {c \<in> set live. \<not> covers m e c}"
    using None num live dominates_covers(2) [OF _ _ mode, of _ e]
    by (auto simp: liveInsert_def)
  show ?thesis
    unfolding eq covering_def
  proof (intro conjI ballI)
    show "insert e {c \<in> set live. \<not> covers m e c} \<subseteq> insert e A"
      using live by auto
    fix x assume "x \<in> insert e A"
    then consider "x = e" | c where "c \<in> set live" "covers m c x"
      using cov by (auto simp: covering_def)
    then show "\<exists>c\<in>insert e {c \<in> set live. \<not> covers m e c}. covers m c x"
      by cases (auto intro: covers_trans)
  qed
next
  case (Some c)
  then have "c \<in> set live" "dominates (m = Some SumM) c e"
    by (auto dest: find_Some_set)
  moreover have "set live \<subseteq> A" using cov by (simp add: covering_def)
  ultimately have "covers m c e" "c \<in> set live"
    using dominates_covers(1) [OF _ _ mode] num by auto
  then show ?thesis
    using cov Some by (auto simp: liveInsert_def covering_def)
qed

lemma liveInsert_live: "set (in_live (liveInsert live e b)) \<subseteq> insert e (set live)"
  by (auto simp: liveInsert_def split: option.splits)

lemma liveInsert_nonempty: "live \<noteq> [] \<or> True \<Longrightarrow> in_live (liveInsert live e b) \<noteq> []"
  by (auto simp: liveInsert_def split: option.splits dest: find_Some_set)

lemma alive_after_write:
  assumes "\<not> ce_tombstone e" "\<forall>t\<in>tombs S. entry_ts t < entry_ts e"
  shows "alive (insert e S) f = (if f = ce_field e then insert e (alive S f) else alive S f)"
  using assms by (auto simp: alive_def tombs_insert)

lemma dead_on_arrival_inv:
  assumes inv: "rec_inv r S" and e: "\<not> ce_tombstone e"
    and t: "rs_tombstone r = Some t" "entry_ts e \<le> entry_ts t"
  shows "rec_inv r (insert e S)"
proof -
  have "t \<in> tombs S"
    using inv t(1) by (simp add: rec_inv_def tomb_inv_def greatest_def)
  then have "alive (insert e S) f = alive S f" for f
    using e t(2) by (auto simp: alive_def tombs_insert not_less [symmetric])
  moreover have "tombs (insert e S) = tombs S"
    using e by (simp add: tombs_insert)
  ultimately show ?thesis
    using inv by (simp add: rec_inv_def fields_inv_def tomb_inv_def cong: option.case_cong)
qed

text \<open>Writing one cell keeps the invariant when the new cell is right for its field.\<close>

lemma write_cell_inv:
  assumes inv: "rec_inv r S" and e: "\<not> ce_tombstone e" "\<forall>t\<in>tombs S. entry_ts t < entry_ts e"
    and cell: "cell_inv (merge_of (rs_kind r) (ce_field e)) c (insert e (alive S (ce_field e)))"
  shows "rec_inv (r\<lparr>rs_fields := AList.update (ce_field e) c (rs_fields r)\<rparr>) (insert e S)"
  using inv cell e(1)
  by (auto simp: rec_inv_def fields_inv_def tomb_inv_def tombs_insert alive_after_write [OF e]
           distinct_update cong: option.case_cong)

definition cell_ok :: "syncKind \<Rightarrow> string \<Rightarrow> fieldCell option \<Rightarrow> changeEntry set \<Rightarrow> bool" where
  "cell_ok k f cell A = (case cell of None \<Rightarrow> A = {} | Some c \<Rightarrow> cell_inv (merge_of k f) c A)"

lemma rec_inv_cell: "rec_inv r S \<Longrightarrow> cell_ok (rs_kind r) f (map_of (rs_fields r) f) (alive S f)"
  by (auto simp: rec_inv_def fields_inv_def cell_ok_def)

lemma live_of_covering: "cell_ok k f cell A \<Longrightarrow> covering (merge_of k f) (set (live_of cell)) A"
  by (auto simp: cell_ok_def live_of_def cell_inv_def covering_def split: option.splits)

lemma rival_facts:
  assumes ok: "cell_ok k f cell A" and num: "\<forall>x\<in>A. numeric_ok (merge_of k f) x"
    and rival: "rival_of (merge_of k f) cell d = Some r"
  shows "r \<in> A \<and> (\<exists>c. cell = Some c) \<and> (merge_of k f = Some SumM \<longrightarrow> ce_deviceId r = d) \<and>
         (merge_of k f \<noteq> Some SumM \<longrightarrow> greatest (bkey (merge_of k f)) A r)"
proof (cases "merge_of k f = Some SumM")
  case True
  then have pick: "pickWinner (Some SumM) (filter (\<lambda>c. ce_deviceId c = d) (live_of cell)) = Some r"
    using rival by (simp add: rival_of_def componentWinner_def)
  have live: "set (live_of cell) \<subseteq> A"
    using live_of_covering [OF ok] by (simp add: covering_def)
  have "greatest (bkey (Some SumM)) (set (filter (\<lambda>c. ce_deviceId c = d) (live_of cell))) r"
    by (rule pickWinner_greatest [OF pick]) (use num live True in auto)
  then show ?thesis
    using live True pick by (cases cell) (auto simp: greatest_def live_of_def)
next
  case False
  then show ?thesis
    using rival ok by (auto simp: rival_of_def cell_ok_def cell_inv_def greatest_def covering_def)
qed

lemma reduceWinner_inv:
  assumes one: "one_record (rs_kind r) (insert e S)" and inv: "rec_inv r S"
    and e: "\<not> ce_tombstone e" "\<forall>t\<in>tombs S. entry_ts t < entry_ts e"
    and m: "m = merge_of (rs_kind r) (ce_field e)"
    and cell: "cell = map_of (rs_fields r) (ce_field e)"
    and rival: "\<not> numeric_mode m \<Longrightarrow> \<forall>x\<in>alive S (ce_field e). entry_ts x \<le> entry_ts e"
  shows "rec_inv (rd_record (reduceWinner e m cell rv r)) (insert e S)"
proof -
  let ?f = "ce_field e" and ?A = "insert e (alive S (ce_field e))"
  have A: "alive (insert e S) ?f = ?A"
    by (simp add: alive_after_write [OF e])
  have num: "\<forall>x\<in>?A. numeric_ok m x"
    using alive_numeric [OF one] A m by auto
  have ok: "cell_ok (rs_kind r) ?f cell (alive S ?f)"
    unfolding cell by (rule rec_inv_cell [OF inv])
  show ?thesis
  proof (cases "numeric_mode m")
    case False
    then have "m = None \<or> m = Some Lww"
      by (cases m) (auto intro: mergeMode.exhaust)
    moreover have "cell_inv m \<lparr>fc_winner = e, fc_value = ce_value e, fc_live = [e]\<rparr> ?A"
      using False rival [OF False]
      by (auto simp: cell_inv_def covering_def covers_def greatest_def bkey_def value_spec_def)
    ultimately show ?thesis
      using write_cell_inv [OF inv e] m by (auto simp: reduceWinner_def Let_def)
  next
    case True
    let ?live = "in_live (liveInsert (live_of cell) e (m = Some SumM))"
    have cov: "covering m (set ?live) (alive (insert e S) ?f)"
      unfolding A using liveInsert_covering [OF num True] live_of_covering [OF ok] m by simp
    obtain w where w: "pickWinner m ?live = Some w"
      using liveInsert_nonempty by (metis not_None_eq pickWinner_None)
    have "cell_inv m \<lparr>fc_winner = w, fc_value = cell_value m w ?live, fc_live = ?live\<rparr> ?A"
      unfolding m A [symmetric]
      by (rule cell_inv_rebuild [OF one cov [unfolded m] w [unfolded m]]) (use True m in simp)
    with True w show ?thesis
      using write_cell_inv [OF inv e] m by (auto simp: reduceWinner_def Let_def)
  qed
qed

lemma covering_keeps_greatest:
  assumes adm: "admissible T" "insert e A \<subseteq> T" and cov: "covering m L (insert e A)"
    and g: "greatest (bkey m) A w" "bkey m e \<le> bkey m w"
  shows "w \<in> L \<and> greatest (bkey m) (insert e A) w"
proof -
  have gw: "greatest (bkey m) (insert e A) w"
    using g by (auto simp: greatest_def)
  then obtain c where "c \<in> L" "covers m c w"
    using cov by (auto simp: covering_def greatest_def)
  moreover have "c \<in> insert e A"
    using \<open>c \<in> L\<close> cov by (auto simp: covering_def)
  ultimately have "bkey m c = bkey m w"
    using covers_bkey gw by (metis greatest_def order_antisym)
  then have "c = w"
    using ts_eq [OF adm(1)] adm(2) \<open>c \<in> insert e A\<close> gw by (auto simp: bkey_def greatest_def)
  with \<open>c \<in> L\<close> gw show ?thesis by simp
qed

text \<open>A write no larger than an alive write of its device leaves the sum as it was.\<close>

lemma sum_spec_insert:
  assumes "finite A" "r \<in> A" "ce_deviceId r = ce_deviceId e" "nv e \<le> nv r"
  shows "sum_spec (insert e A) = sum_spec A"
proof -
  have "device_max (insert e A) d = device_max A d" for d
  proof (cases "ce_deviceId e = d")
    case True
    have eq: "{x \<in> insert e A. ce_deviceId x = d} = insert e {x \<in> A. ce_deviceId x = d}"
      using True by auto
    have "nv r \<in> nv ` {x \<in> A. ce_deviceId x = d}" "finite (nv ` {x \<in> A. ce_deviceId x = d})"
      using assms True by auto
    then have "nv e \<le> Max (nv ` {x \<in> A. ce_deviceId x = d})" "nv ` {x \<in> A. ce_deviceId x = d} \<noteq> {}"
      using assms(4) Max_ge order_trans by blast+
    then show ?thesis
      using assms(1) unfolding device_max_def eq by (simp add: max_absorb2)
  next
    case False
    then have "{x \<in> insert e A. ce_deviceId x = d} = {x \<in> A. ce_deviceId x = d}" by auto
    then show ?thesis by (simp add: device_max_def)
  qed
  moreover have "ce_deviceId ` insert e A = ce_deviceId ` A"
    using assms(2,3) by (metis image_insert insert_absorb imageI)
  ultimately show ?thesis by (simp add: sum_spec_def)
qed

lemma reduceLoser_inv:
  assumes one: "one_record (rs_kind r) (insert e S)" and inv: "rec_inv r S"
    and e: "\<not> ce_tombstone e" "\<forall>t\<in>tombs S. entry_ts t < entry_ts e"
    and m: "m = merge_of (rs_kind r) (ce_field e)"
    and cell: "cell = map_of (rs_fields r) (ce_field e)"
    and rival: "rival_of m cell (ce_deviceId e) = Some rv" "\<not> beats e rv m"
  shows "rec_inv (rd_record (reduceLoser e m cell rv r)) (insert e S)"
proof -
  let ?f = "ce_field e" and ?A = "alive S (ce_field e)"
  have A: "alive (insert e S) ?f = insert e ?A"
    by (simp add: alive_after_write [OF e])
  have num: "\<forall>x\<in>insert e ?A. numeric_ok m x"
    using alive_numeric [OF one] A m by auto
  have ok: "cell_ok (rs_kind r) ?f cell ?A"
    unfolding cell by (rule rec_inv_cell [OF inv])
  have rvA: "rv \<in> ?A" "m = Some SumM \<longrightarrow> ce_deviceId rv = ce_deviceId e"
      "m \<noteq> Some SumM \<longrightarrow> greatest (bkey m) ?A rv"
    and "\<exists>c. cell = Some c"
    using rival_facts [OF ok, folded m, OF _ rival(1)] num by simp_all
  then obtain c where c: "cell = Some c" by blast
  then have ci: "cell_inv m c ?A" using ok m by (simp add: cell_ok_def)
  have le: "bkey m e \<le> bkey m rv"
    using rival(2) beats_iff [of m e rv] num rvA(1) by (simp add: not_less)
  have gw: "greatest (bkey m) ?A (fc_winner c)" using ci by (simp add: cell_inv_def)
  have lew: "bkey m e \<le> bkey m (fc_winner c)"
    using le gw rvA(1) by (auto simp: greatest_def intro: order_trans)
  have adm: "admissible (insert e S)" "insert e ?A \<subseteq> insert e S"
    using one alive_subset by (auto simp: one_record_def)
  show ?thesis
  proof (cases "numeric_mode m")
    case False
    have "covers m (fc_winner c) e"
      using lew False by (simp add: covers_def bkey_def less_eq_prod_def)
    then have "covering m (set (fc_live c)) (insert e ?A)"
      using ci unfolding cell_inv_def covering_def by blast
    moreover have "greatest (bkey m) (insert e ?A) (fc_winner c)"
      using gw lew by (simp add: greatest_def)
    ultimately have "cell_inv m c (insert e ?A)"
      using ci False by (simp add: cell_inv_def value_spec_def)
    moreover have "AList.update ?f c (rs_fields r) = rs_fields r"
      by (rule update_triv) (use c cell in simp)
    ultimately show ?thesis
      using write_cell_inv [OF inv e, of c] m c False by (simp add: reduceLoser_def Let_def)
  next
    case True
    let ?live = "in_live (liveInsert (fc_live c) e (m = Some SumM))"
    have cov: "covering m (set ?live) (insert e ?A)"
      using liveInsert_covering [OF num True] ci by (simp add: cell_inv_def)
    have keep: "fc_winner c \<in> set ?live" "greatest (bkey m) (insert e ?A) (fc_winner c)"
      using covering_keeps_greatest [OF adm cov gw lew] by auto
    have "value_spec m (insert e ?A) (fc_winner c) = value_spec m ?A (fc_winner c)"
    proof (cases "m = Some SumM")
      case True
      then have "nv e \<le> nv rv" using le by (auto simp: bkey_def less_eq_prod_def)
      with True rvA show ?thesis
        using sum_spec_insert finite_alive [OF one_record_subset [OF one]]
        by (simp add: value_spec_def subset_insertI)
    qed (simp add: value_spec_def)
    then have "cell_inv m (c\<lparr>fc_live := ?live\<rparr>) (insert e ?A)"
      using ci cov keep True by (simp add: cell_inv_def)
    then show ?thesis
      using write_cell_inv [OF inv e, of "c\<lparr>fc_live := ?live\<rparr>"] m c True
      by (simp add: reduceLoser_def Let_def)
  qed
qed

lemma reduceField_inv:
  assumes one: "one_record (rs_kind r) (insert e S)" and inv: "rec_inv r S"
    and e: "\<not> ce_tombstone e"
  shows "rec_inv (rd_record (reduceField e r)) (insert e S)"
proof (cases "\<exists>t. rs_tombstone r = Some t \<and> entry_ts e \<le> entry_ts t")
  case True
  then show ?thesis
    using dead_on_arrival_inv [OF inv e]
    by (auto simp: reduceField_def Let_def entry_cmp.cmp_le)
next
  case False
  then have newer: "\<forall>t\<in>tombs S. entry_ts t < entry_ts e"
    using inv by (auto simp: rec_inv_def not_le dest!: tomb_le_newest intro: le_less_trans)
  let ?f = "ce_field e"
  define m where "m = merge_of (rs_kind r) ?f"
  define cell where "cell = map_of (rs_fields r) ?f"
  define rival where "rival = rival_of m cell (ce_deviceId e)"
  have kind: "ce_kind e = rs_kind r"
    using one by (simp add: one_record_def)
  have contest: "rd_record (reduceField e r) =
      (case rival of None \<Rightarrow> rd_record (reduceWinner e m cell None r)
       | Some rv \<Rightarrow> if beats e rv m then rd_record (reduceWinner e m cell rival r)
                    else rd_record (reduceLoser e m cell rv r))"
    using False kind
    by (auto simp: reduceField_def Let_def entry_cmp.cmp_le m_def cell_def rival_def
             split: option.splits)
  have ok: "cell_ok (rs_kind r) ?f cell (alive S ?f)"
    unfolding cell_def by (rule rec_inv_cell [OF inv])
  have num: "\<forall>x\<in>insert e (alive S ?f). numeric_ok m x"
    using alive_numeric [OF one, of _ ?f] alive_after_write [OF e newer, of ?f] m_def by auto
  note win = reduceWinner_inv [OF one inv e newer m_def cell_def]
  show ?thesis
  proof (cases rival)
    case None
    then have "\<not> numeric_mode m \<Longrightarrow> alive S ?f = {}"
      using ok by (auto simp: rival_def rival_of_def cell_ok_def split: option.splits)
    then show ?thesis
      using None win by (simp add: contest)
  next
    case (Some rv)
    show ?thesis
    proof (cases "beats e rv m")
      case True
      have "\<forall>x\<in>alive S ?f. entry_ts x \<le> entry_ts e" if "\<not> numeric_mode m"
      proof -
        have "greatest (bkey m) (alive S ?f) rv" "bkey m rv < bkey m e"
          using rival_facts [OF ok, of "ce_deviceId e" rv] num Some that True beats_iff [of m e rv]
          by (auto simp: rival_def m_def greatest_def)
        then have "entry_ts x \<le> entry_ts rv" "entry_ts rv < entry_ts e" if "x \<in> alive S ?f" for x
          using that \<open>\<not> numeric_mode m\<close> by (simp_all add: greatest_def bkey_def)
        then show ?thesis
          by (metis less_imp_le order_le_less_trans)
      qed
      with Some True win show ?thesis by (simp add: contest)
    next
      case False
      then show ?thesis
        using Some reduceLoser_inv [OF one inv e newer m_def cell_def, of rv]
        by (simp add: contest rival_def)
    qed
  qed
qed

lemma reduceEntry_inv:
  assumes "one_record (rs_kind r) (insert e S)" "rec_inv r S"
  shows "rec_inv (rd_record (reduceEntry e r)) (insert e S)"
  using reduceTombstone_inv [OF assms] reduceField_inv [OF assms]
  by (simp add: reduceEntry_def)

lemma reduceEntry_id:
  "rs_kind (rd_record (reduceEntry e r)) = rs_kind r"
  "rs_recordId (rd_record (reduceEntry e r)) = rs_recordId r"
  by (auto simp: reduceEntry_def reduceTombstone_def reduceField_def reduceWinner_def
      reduceLoser_def Let_def split: option.splits)

section \<open>What the merge state still refers to\<close>

lemma refs_iff:
  "distinct (map fst (rs_fields r)) \<Longrightarrow>
   x \<in> refs r \<longleftrightarrow> rs_tombstone r = Some x \<or>
                  (\<exists>f c. map_of (rs_fields r) f = Some c \<and> x \<in> set (fc_live c))"
  by (fastforce simp: refs_def)

lemma rec_inv_live:
  assumes "rec_inv r S" "map_of (rs_fields r) f = Some c" "x \<in> set (fc_live c)"
  shows "x \<in> alive S f"
  using assms by (auto simp: rec_inv_def fields_inv_def cell_inv_def covering_def
                       dest!: spec [of _ f])

lemma rec_inv_tomb: "rec_inv r S \<Longrightarrow> rs_tombstone r = Some t \<Longrightarrow> t \<in> S \<and> ce_tombstone t"
  by (auto simp: rec_inv_def tomb_inv_def greatest_def tombs_def)

lemma refs_subset: "rec_inv r S \<Longrightarrow> refs r \<subseteq> S"
proof
  fix x assume inv: "rec_inv r S" and "x \<in> refs r"
  then consider "rs_tombstone r = Some x"
    | f c where "map_of (rs_fields r) f = Some c" "x \<in> set (fc_live c)"
    using refs_iff [of r x] by (auto simp: rec_inv_def)
  then show "x \<in> S"
    by cases (use rec_inv_tomb [OF inv] rec_inv_live [OF inv] alive_subset in blast)+
qed

lemma liveInsert_sets:
  "set (in_live (liveInsert live e b)) =
     (set live - set (in_dropped (liveInsert live e b))) \<union> set (in_added (liveInsert live e b))"
  "set (in_dropped (liveInsert live e b)) \<subseteq> set live"
  by (auto simp: liveInsert_def split: option.splits)

lemma live_of_iff: "x \<in> set (live_of c) \<longleftrightarrow> (\<exists>c'. c = Some c' \<and> x \<in> set (fc_live c'))"
  by (cases c) (simp_all add: live_of_def)

lemma ex_map_upd:
  "(\<exists>g c'. (m(f \<mapsto> c)) g = Some c' \<and> P c') \<longleftrightarrow> P c \<or> (\<exists>g c'. g \<noteq> f \<and> m g = Some c' \<and> P c')"
proof
  assume "\<exists>g c'. (m(f \<mapsto> c)) g = Some c' \<and> P c'"
  then obtain g c' where "(m(f \<mapsto> c)) g = Some c'" "P c'" by blast
  then show "P c \<or> (\<exists>g c'. g \<noteq> f \<and> m g = Some c' \<and> P c')"
    by (cases "g = f") auto
next
  assume "P c \<or> (\<exists>g c'. g \<noteq> f \<and> m g = Some c' \<and> P c')"
  then show "\<exists>g c'. (m(f \<mapsto> c)) g = Some c' \<and> P c'"
    by (metis fun_upd_apply)
qed

lemma ex_map_at:
  "(\<exists>g c'. m g = Some c' \<and> P c') \<longleftrightarrow>
     (\<exists>c'. m f = Some c' \<and> P c') \<or> (\<exists>g c'. g \<noteq> f \<and> m g = Some c' \<and> P c')"
proof
  assume "\<exists>g c'. m g = Some c' \<and> P c'"
  then obtain g c' where "m g = Some c'" "P c'" by blast
  then show "(\<exists>c'. m f = Some c' \<and> P c') \<or> (\<exists>g c'. g \<noteq> f \<and> m g = Some c' \<and> P c')"
    by (cases "g = f") auto
qed auto

lemma refs_write_cell:
  assumes inv: "rec_inv r S" and D: "D \<subseteq> set (live_of (map_of (rs_fields r) f))"
    and live: "set (fc_live c) = (set (live_of (map_of (rs_fields r) f)) - D) \<union> N"
  shows "refs (r\<lparr>rs_fields := AList.update f c (rs_fields r)\<rparr>) = (refs r - D) \<union> N"
proof -
  have dist: "distinct (map fst (rs_fields r))" "distinct (map fst (AList.update f c (rs_fields r)))"
    using inv by (auto simp: rec_inv_def distinct_update)
  have D_field: "ce_field x = f \<and> \<not> ce_tombstone x" if "x \<in> D" for x
  proof (cases "map_of (rs_fields r) f")
    case (Some c')
    then show ?thesis
      using D that rec_inv_live [OF inv Some, of x] alive_field [of x S f] by (auto simp: live_of_def)
  qed (use D that in \<open>simp add: live_of_def subset_iff\<close>)
  show ?thesis
  proof (rule set_eqI)
    fix x
    define T where "T \<longleftrightarrow> rs_tombstone r = Some x"
    define Q where "Q \<longleftrightarrow> (\<exists>g c'. g \<noteq> f \<and> map_of (rs_fields r) g = Some c' \<and> x \<in> set (fc_live c'))"
    have new: "x \<in> refs (r\<lparr>rs_fields := AList.update f c (rs_fields r)\<rparr>) \<longleftrightarrow>
        T \<or> x \<in> set (fc_live c) \<or> Q"
    proof -
      have "(\<exists>g c'. map_of (AList.update f c (rs_fields r)) g = Some c' \<and> x \<in> set (fc_live c')) \<longleftrightarrow>
          x \<in> set (fc_live c) \<or> Q"
        unfolding update_conv' ex_map_upd Q_def ..
      then show ?thesis
        using refs_iff [of "r\<lparr>rs_fields := AList.update f c (rs_fields r)\<rparr>" x] dist(2) by (simp add: T_def)
    qed
    have old: "x \<in> refs r \<longleftrightarrow> T \<or> x \<in> set (live_of (map_of (rs_fields r) f)) \<or> Q"
      unfolding refs_iff [OF dist(1), of x] live_of_iff T_def Q_def ex_map_at [where f = f] ..
    have "x \<notin> D" if "T"
      using D_field [of x] rec_inv_tomb [OF inv that [unfolded T_def]] by (rule_tac notI) simp
    moreover have "x \<notin> D" if q: "Q"
    proof -
      obtain g c' where "g \<noteq> f" "map_of (rs_fields r) g = Some c'" "x \<in> set (fc_live c')"
        using q unfolding Q_def by blast
      then have "g \<noteq> f" "ce_field x = g"
        using rec_inv_live [OF inv, THEN alive_field, THEN conjunct1] by simp_all
      then show ?thesis
        using D_field [of x] by (rule_tac notI) simp
    qed
    ultimately show "x \<in> refs (r\<lparr>rs_fields := AList.update f c (rs_fields r)\<rparr>) \<longleftrightarrow> x \<in> refs r - D \<union> N"
      by (simp only: new old live Un_iff Diff_iff) blast
  qed
qed

lemma reduceWinner_refs:
  assumes "rec_inv r S" "cell = map_of (rs_fields r) (ce_field e)"
  shows "refs (rd_record (reduceWinner e m cell rv r)) =
         (refs r - set (rd_dropped (reduceWinner e m cell rv r))) \<union>
         set (rd_added (reduceWinner e m cell rv r))"
proof (cases "m = None \<or> m = Some Lww")
  case True
  then show ?thesis
    using refs_write_cell [OF assms(1) order_refl, where N = "{e}"]
    by (auto simp: reduceWinner_def Let_def assms(2))
next
  case False
  then have "\<not> (m = None \<or> m = Some Lww)" by blast
  then show ?thesis
    unfolding reduceWinner_def Let_def
    by (simp only: if_False reduction.simps)
       (rule refs_write_cell [OF assms(1)], simp_all add: assms(2) liveInsert_sets)
qed

lemma reduceLoser_refs:
  assumes "rec_inv r S" "cell = map_of (rs_fields r) (ce_field e)"
  shows "refs (rd_record (reduceLoser e m cell rv r)) =
         (refs r - set (rd_dropped (reduceLoser e m cell rv r))) \<union>
         set (rd_added (reduceLoser e m cell rv r))"
proof (cases cell)
  case (Some c)
  then have live: "live_of (map_of (rs_fields r) (ce_field e)) = fc_live c"
    using assms(2) by (simp add: live_of_def)
  show ?thesis
    unfolding reduceLoser_def Let_def
    by (simp add: Some refs_write_cell [OF assms(1)] live liveInsert_sets)
qed (simp add: reduceLoser_def Let_def)

lemma kill_cell_live:
  "(\<exists>c'. map_option snd (kill_cell k e (f, c)) = Some c' \<and> x \<in> set (fc_live c')) \<longleftrightarrow>
     x \<in> set (fc_live c) \<and> entry_ts e < entry_ts x"
  by (auto simp: Let_def entry_cmp.cmp_le not_le pickWinner_None [unfolded filter_empty_conv]
      filter_empty_conv split: option.splits)

lemma reduceTombstone_refs:
  assumes inv: "rec_inv r S" and e: "ce_tombstone e"
  shows "refs (rd_record (reduceTombstone e r)) =
         (refs r - set (rd_dropped (reduceTombstone e r))) \<union> set (rd_added (reduceTombstone e r))"
proof (cases "\<exists>t. rs_tombstone r = Some t \<and> entry_ts e \<le> entry_ts t")
  case True
  then show ?thesis by (auto simp: reduceTombstone_def entry_cmp.cmp_le)
next
  case False
  let ?fs = "List.map_filter (kill_cell (rs_kind r) e) (rs_fields r)"
  let ?r = "r\<lparr>rs_fields := ?fs, rs_tombstone := Some e\<rparr>"
  have dist: "distinct (map fst (rs_fields r))"
    using inv by (simp add: rec_inv_def)
  have dist': "distinct (map fst ?fs)"
    by (rule distinct_map_filter_keys [OF dist]) (rule kill_cell_key)
  have look: "map_of ?fs f = (case map_of (rs_fields r) f of None \<Rightarrow> None
                              | Some c \<Rightarrow> map_option snd (kill_cell (rs_kind r) e (f, c)))" for f
    by (rule map_of_map_filter [OF dist]) (rule kill_cell_key)
  have killed: "x \<in> set (killed_live e (rs_fields r)) \<longleftrightarrow>
      (\<exists>f c. map_of (rs_fields r) f = Some c \<and> x \<in> set (fc_live c) \<and> entry_ts x \<le> entry_ts e)" for x
    using dist by (fastforce simp: killed_live_def entry_cmp.cmp_le)
  have "x \<in> refs ?r \<longleftrightarrow> x = e \<or>
      (\<exists>f c. map_of (rs_fields r) f = Some c \<and> x \<in> set (fc_live c) \<and> entry_ts e < entry_ts x)" for x
    using refs_iff [of ?r x] dist' kill_cell_live [of "rs_kind r" e _ _ x]
    by (auto simp: look split: option.splits)
  moreover have "rd_record (reduceTombstone e r) = ?r" "rd_added (reduceTombstone e r) = [e]"
      "set (rd_dropped (reduceTombstone e r)) =
       set_option (rs_tombstone r) \<union> set (killed_live e (rs_fields r))"
    using False by (auto simp: reduceTombstone_def entry_cmp.cmp_le split: option.splits)
  moreover have "x \<in> refs r - (set_option (rs_tombstone r) \<union> set (killed_live e (rs_fields r))) \<longleftrightarrow>
      (\<exists>f c. map_of (rs_fields r) f = Some c \<and> x \<in> set (fc_live c) \<and> entry_ts e < entry_ts x)" for x
    using refs_iff [OF dist, of x] killed [of x] rec_inv_tomb [OF inv]
      rec_inv_live [OF inv] alive_field by (fastforce simp: not_le)
  ultimately show ?thesis
    by (intro set_eqI) (simp only: Un_iff list.set singleton_iff; blast)
qed

lemma reduceField_cases:
  obtains t where "reduceField e r = \<lparr>rd_outcome = Superseded e t, rd_record = r,
      rd_losses = [(e, t)], rd_dropped = [], rd_added = []\<rparr>"
  | rv where "reduceField e r =
      reduceWinner e (merge_of (ce_kind e) (ce_field e)) (map_of (rs_fields r) (ce_field e)) rv r"
  | rv where "reduceField e r =
      reduceLoser e (merge_of (ce_kind e) (ce_field e)) (map_of (rs_fields r) (ce_field e)) rv r"
  unfolding reduceField_def Let_def
  by (cases "rs_tombstone r";
      cases "rival_of (merge_of (ce_kind e) (ce_field e)) (map_of (rs_fields r) (ce_field e)) (ce_deviceId e)")
     (fastforce split: if_splits)+

lemma reduceEntry_refs:
  assumes inv: "rec_inv r S"
  shows "refs (rd_record (reduceEntry e r)) =
         (refs r - set (rd_dropped (reduceEntry e r))) \<union> set (rd_added (reduceEntry e r))"
proof (cases "ce_tombstone e")
  case False
  then show ?thesis
    by (rule_tac reduceField_cases [of e r])
       (simp_all add: reduceEntry_def reduceWinner_refs [OF inv refl] reduceLoser_refs [OF inv refl])
qed (simp add: reduceEntry_def reduceTombstone_refs [OF inv])

lemma reduceTombstone_dropped: "set (rd_dropped (reduceTombstone e r)) \<subseteq> refs r"
proof -
  have "set (killed_live e (rs_fields r)) \<subseteq> refs r"
    by (auto simp: killed_live_def refs_def)
  then show ?thesis
    by (auto simp: reduceTombstone_def refs_def split: option.splits)
qed

lemma reduceWinner_dropped: "set (rd_dropped (reduceWinner e m cell rv r)) \<subseteq> set (live_of cell)"
  using liveInsert_sets(2) [of "live_of cell" e] by (auto simp: reduceWinner_def Let_def)

lemma reduceLoser_dropped: "set (rd_dropped (reduceLoser e m cell rv r)) \<subseteq> set (live_of cell)"
  by (cases cell) (simp_all add: reduceLoser_def Let_def live_of_def liveInsert_sets(2))

lemma live_of_refs: "set (live_of (map_of (rs_fields r) f)) \<subseteq> refs r"
  by (auto simp: live_of_def refs_def dest: map_of_SomeD split: option.splits)
    (metis map_of_SomeD snd_conv UN_I image_eqI)

lemma reduceEntry_dropped: "set (rd_dropped (reduceEntry e r)) \<subseteq> refs r"
proof (cases "ce_tombstone e")
  case False
  show ?thesis
    by (rule reduceField_cases [of e r])
       (use False reduceWinner_dropped reduceLoser_dropped live_of_refs in
          \<open>force simp: reduceEntry_def\<close>)+
qed (simp add: reduceEntry_def reduceTombstone_dropped)

end
