(* ===== verification/SyncState.thy ===== *)
theory SyncState
  imports SyncConverge
begin

text \<open>
  The merge state as a whole: every record's state is the specified one for the entries of
  that record, and \<open>mergeLive\<close> is exactly what the records refer to. From this the merge is
  an \<open>order_free_fold\<close>: the view depends on the set of accepted entries only, and dropping
  entries outside \<open>mergeLive\<close> from the log does not change it.
\<close>

section \<open>The state invariant\<close>

definition part :: "changeEntry set \<Rightarrow> string \<Rightarrow> changeEntry set" where
  "part S k = {e \<in> S. entry_record_key e = k}"

definition record_ok :: "string \<Rightarrow> recordState option \<Rightarrow> changeEntry set \<Rightarrow> bool" where
  "record_ok k r A = (case r of
     None \<Rightarrow> A = {}
   | Some r \<Rightarrow> A \<noteq> {} \<and> syncedRecordKey (rs_kind r) (rs_recordId r) = k \<and> rec_inv r A)"

definition state_inv :: "mergeState \<Rightarrow> changeEntry set \<Rightarrow> bool" where
  "state_inv ms S =
     (distinct (map fst (ms_records ms)) \<and>
      (\<forall>k. record_ok k (map_of (ms_records ms) k) (part S k)) \<and>
      (\<forall>x. x \<in> ms_live ms \<longleftrightarrow> (\<exists>k r. map_of (ms_records ms) k = Some r \<and> x \<in> refs r)))"

lemma part_subset: "part S k \<subseteq> S"
  by (auto simp: part_def)

lemma part_insert: "part (insert e S) k = (if entry_record_key e = k then insert e (part S k) else part S k)"
  by (auto simp: part_def)

lemma part_kind: "e \<in> part S (syncedRecordKey k i) \<Longrightarrow> ce_kind e = k \<and> ce_recordId e = i"
  by (simp add: part_def entry_record_key_def)

lemma empty_merge_inv: "state_inv (empty_merge d) {}"
  by (simp add: state_inv_def empty_merge_def record_ok_def part_def)

lemma fresh_record_inv: "rec_inv (fresh_record e) {}"
  by (simp add: rec_inv_def fresh_record_def tomb_inv_def tombs_def fields_inv_def alive_def)

lemma fresh_record_refs: "refs (fresh_record e) = {}"
  by (simp add: refs_def fresh_record_def)

lemma record_at_facts:
  assumes "state_inv ms S"
  shows "rec_inv (record_at (ms_records ms) e) (part S (entry_record_key e))"
    and "rs_kind (record_at (ms_records ms) e) = ce_kind e"
    and "rs_recordId (record_at (ms_records ms) e) = ce_recordId e"
proof -
  have "record_ok (entry_record_key e) (map_of (ms_records ms) (entry_record_key e))
          (part S (entry_record_key e))"
    using assms by (simp add: state_inv_def)
  then show "rec_inv (record_at (ms_records ms) e) (part S (entry_record_key e))"
    and "rs_kind (record_at (ms_records ms) e) = ce_kind e"
    and "rs_recordId (record_at (ms_records ms) e) = ce_recordId e"
    by (auto simp: record_at_def record_ok_def fresh_record_inv entry_record_key_def
        split: option.splits) (simp_all add: fresh_record_def)
qed

lemma one_record_part:
  assumes "admissible S" "k = syncedRecordKey kd i"
  shows "one_record kd (part S k)"
  using assms admissible_subset [OF assms(1) part_subset] part_kind
  unfolding one_record_def by blast

lemma merge_step_records:
  "ms_records (merge_step env em e ms) =
     AList.update (entry_record_key e) (rd_record (reduceEntry e (record_at (ms_records ms) e)))
       (ms_records ms)"
  by (simp add: merge_step_def reduce_def Let_def split: prod.split)

lemma merge_step_live:
  "ms_live (merge_step env em e ms) =
     (ms_live ms - set (rd_dropped (reduceEntry e (record_at (ms_records ms) e)))) \<union>
     set (rd_added (reduceEntry e (record_at (ms_records ms) e)))"
  by (simp add: merge_step_def reduce_def Let_def split: prod.split)

lemma other_record_untouched:
  assumes "state_inv ms S" "map_of (ms_records ms) k = Some r" "x \<in> refs r"
  shows "x \<in> part S k"
proof -
  have "rec_inv r (part S k)"
    using assms(1,2) by (force simp: state_inv_def record_ok_def dest: spec [of _ k])
  then show ?thesis
    using refs_subset assms(3) by blast
qed

lemma merge_step_inv:
  assumes adm: "admissible (insert e S)" and inv: "state_inv ms S"
  shows "state_inv (merge_step env em e ms) (insert e S)"
proof -
  define k where "k = entry_record_key e"
  define r where "r = record_at (ms_records ms) e"
  define rd where "rd = reduceEntry e r"
  note facts = record_at_facts [OF inv, of e, folded r_def k_def]
  have kk: "k = syncedRecordKey (ce_kind e) (ce_recordId e)"
    by (simp add: k_def entry_record_key_def)
  have "one_record (rs_kind r) (insert e (part S k))"
    using one_record_part [OF adm kk] facts(2) by (simp add: part_insert k_def)
  then have new: "rec_inv (rd_record rd) (insert e (part S k))"
    unfolding rd_def using facts(1) by (rule reduceEntry_inv)
  have rk: "record_ok k (Some (rd_record rd)) (insert e (part S k))"
    using new facts(2,3) by (simp add: record_ok_def rd_def reduceEntry_id kk)
  have recs: "map_of (ms_records (merge_step env em e ms)) = (map_of (ms_records ms))(k \<mapsto> rd_record rd)"
    by (simp add: merge_step_records update_conv' k_def rd_def r_def)
  have ok: "record_ok k' (((map_of (ms_records ms))(k \<mapsto> rd_record rd)) k') (part (insert e S) k')" for k'
  proof (cases "k' = k")
    case True
    then show ?thesis using rk by (simp add: part_insert k_def)
  next
    case False
    then show ?thesis using inv by (simp add: part_insert state_inv_def k_def)
  qed
  have rf: "refs (rd_record rd) = (refs r - set (rd_dropped rd)) \<union> set (rd_added rd)"
    unfolding rd_def by (rule reduceEntry_refs [OF facts(1)])
  have old: "x \<in> ms_live ms \<longleftrightarrow> x \<in> refs r \<or>
      (\<exists>k' r'. k' \<noteq> k \<and> map_of (ms_records ms) k' = Some r' \<and> x \<in> refs r')" for x
  proof -
    have "(\<exists>r'. map_of (ms_records ms) k = Some r' \<and> x \<in> refs r') \<longleftrightarrow> x \<in> refs r"
      by (simp add: r_def record_at_def fresh_record_refs flip: k_def split: option.split)
    then show ?thesis
      using inv ex_map_at [of "map_of (ms_records ms)" "\<lambda>r'. x \<in> refs r'" k]
      by (simp add: state_inv_def)
  qed
  have apart: "x \<notin> set (rd_dropped rd)"
    if "k' \<noteq> k" "map_of (ms_records ms) k' = Some r'" "x \<in> refs r'" for x k' r'
  proof -
    have "x \<in> part S k'"
      by (rule other_record_untouched [OF inv that(2,3)])
    then have "x \<notin> part S k"
      using that(1) by (auto simp: part_def)
    then show ?thesis
      using reduceEntry_dropped [of e r] refs_subset [OF facts(1)] by (auto simp: rd_def)
  qed
  have "x \<in> ms_live (merge_step env em e ms) \<longleftrightarrow>
      (\<exists>k' r'. ((map_of (ms_records ms))(k \<mapsto> rd_record rd)) k' = Some r' \<and> x \<in> refs r')" for x
    unfolding ex_map_upd merge_step_live rf using apart old [of x]
    by (simp only: Un_iff Diff_iff flip: r_def rd_def) blast
  with inv ok show ?thesis
    unfolding state_inv_def recs by (simp add: merge_step_records distinct_update)
qed

lemma merge_fold_inv:
  assumes "admissible (S \<union> set es)" "state_inv ms S"
  shows "state_inv (fold (merge_step env em) es ms) (S \<union> set es)"
  using assms
proof (induction es arbitrary: S ms)
  case (Cons e es)
  have "state_inv (merge_step env em e ms) (insert e S)"
    by (rule merge_step_inv [OF admissible_subset [OF Cons.prems(1)] Cons.prems(2)]) auto
  then show ?case
    using Cons.IH [of "insert e S"] Cons.prems(1) by simp
qed simp

section \<open>The view and its specification\<close>

text \<open>What a reader of the merge state sees of a record, whatever the order of its maps.\<close>

record recordView =
  rv_kind :: syncKind
  rv_recordId :: string
  rv_tombstone :: "changeEntry option"
  rv_fields :: "string \<Rightarrow> (changeEntry \<times> jsval) option"

definition view_of :: "recordState \<Rightarrow> recordView" where
  "view_of r = \<lparr>rv_kind = rs_kind r, rv_recordId = rs_recordId r, rv_tombstone = rs_tombstone r,
                rv_fields = (\<lambda>f. map_option (\<lambda>c. (fc_winner c, fc_value c)) (map_of (rs_fields r) f))\<rparr>"

definition merge_view :: "mergeState \<Rightarrow> string \<Rightarrow> recordView option" where
  "merge_view ms k = map_option view_of (map_of (ms_records ms) k)"

definition record_spec :: "changeEntry set \<Rightarrow> syncKind \<Rightarrow> string \<Rightarrow> recordView" where
  "record_spec A kd i =
     \<lparr>rv_kind = kd, rv_recordId = i,
      rv_tombstone = (if tombs A = {} then None else Some (THE t. greatest entry_ts (tombs A) t)),
      rv_fields = (\<lambda>f.
        let m = merge_of kd f; w = (THE w. greatest (bkey m) (alive A f) w)
        in if alive A f = {} then None else Some (w, value_spec m (alive A f) w))\<rparr>"

definition merge_spec :: "changeEntry set \<Rightarrow> string \<Rightarrow> recordView option" where
  "merge_spec S k =
     (if part S k = {} then None
      else Some (record_spec (part S k) (ce_kind (SOME e. e \<in> part S k))
                             (ce_recordId (SOME e. e \<in> part S k))))"

lemma greatest_ts_unique:
  "admissible S \<Longrightarrow> greatest entry_ts (tombs S) v \<Longrightarrow> greatest entry_ts (tombs S) w \<Longrightarrow> v = w"
  unfolding greatest_def tombs_def by (metis (no_types, lifting) mem_Collect_eq order_antisym ts_eq)

lemma view_of_spec:
  assumes one: "one_record (rs_kind r) A" and inv: "rec_inv r A"
  shows "view_of r = record_spec A (rs_kind r) (rs_recordId r)"
proof -
  have adm: "admissible A" using one by (simp add: one_record_def)
  have "rs_tombstone r = (if tombs A = {} then None else Some (THE t. greatest entry_ts (tombs A) t))"
  proof (cases "rs_tombstone r")
    case (Some t)
    then have "greatest entry_ts (tombs A) t"
      using inv by (simp add: rec_inv_def tomb_inv_def)
    then have "(THE t. greatest entry_ts (tombs A) t) = t" "tombs A \<noteq> {}"
      using greatest_ts_unique [OF adm] by (blast, auto simp: greatest_def)
    with Some show ?thesis by simp
  qed (use inv in \<open>simp add: rec_inv_def tomb_inv_def\<close>)
  moreover have "map_option (\<lambda>c. (fc_winner c, fc_value c)) (map_of (rs_fields r) f) =
      (let m = merge_of (rs_kind r) f; w = (THE w. greatest (bkey m) (alive A f) w)
       in if alive A f = {} then None else Some (w, value_spec m (alive A f) w))" for f
  proof (cases "map_of (rs_fields r) f")
    case (Some c)
    then have c: "cell_inv (merge_of (rs_kind r) f) c (alive A f)"
      using inv by (auto simp: rec_inv_def fields_inv_def dest!: spec [of _ f])
    then have g: "greatest (bkey (merge_of (rs_kind r) f)) (alive A f) (fc_winner c)"
      by (simp add: cell_inv_def)
    then have "(THE w. greatest (bkey (merge_of (rs_kind r) f)) (alive A f) w) = fc_winner c"
        "alive A f \<noteq> {}"
      using greatest_unique [OF adm alive_subset] by (blast, auto simp: greatest_def)
    with Some c show ?thesis by (simp add: cell_inv_def Let_def)
  qed (use inv in \<open>auto simp: rec_inv_def fields_inv_def dest!: spec [of _ f]\<close>)
  ultimately show ?thesis
    by (simp add: view_of_def record_spec_def)
qed

lemma merge_view_spec:
  assumes adm: "admissible S" and inv: "state_inv ms S"
  shows "merge_view ms = merge_spec S"
proof
  fix k
  have ok: "record_ok k (map_of (ms_records ms) k) (part S k)"
    using inv by (simp add: state_inv_def)
  show "merge_view ms k = merge_spec S k"
  proof (cases "map_of (ms_records ms) k")
    case None
    with ok show ?thesis by (simp add: record_ok_def merge_view_def merge_spec_def)
  next
    case (Some r)
    with ok have r: "part S k \<noteq> {}" "k = syncedRecordKey (rs_kind r) (rs_recordId r)"
        "rec_inv r (part S k)"
      by (auto simp: record_ok_def)
    then have "(SOME e. e \<in> part S k) \<in> part S k"
      by (meson ex_in_conv someI_ex)
    then have "ce_kind (SOME e. e \<in> part S k) = rs_kind r"
        "ce_recordId (SOME e. e \<in> part S k) = rs_recordId r"
      using part_kind [of _ S "rs_kind r" "rs_recordId r"] r(2) by auto
    with r Some show ?thesis
      using view_of_spec [OF one_record_part [OF adm r(2)] r(3)]
      by (simp add: merge_view_def merge_spec_def)
  qed
qed

section \<open>The merge as an order-free fold\<close>

lemma merge_run_inv:
  "admissible (set es) \<Longrightarrow> state_inv (fold (merge_step env em) es (empty_merge d)) (set es)"
  using merge_fold_inv [OF _ empty_merge_inv, of es] by simp

interpretation merge: order_free_fold "merge_step env em" "empty_merge d" merge_view merge_spec admissible
  for env em d
  by unfold_locales (rule merge_view_spec [OF _ merge_run_inv])

end
