(* ===== verification/SyncView.thy ===== *)
theory SyncView
  imports SyncState
begin

text \<open>
  What follows from the state invariant: a log that keeps the entries the merge still refers
  to rebuilds the same state (compaction is safe, now and under every later delivery), and
  \<open>materialize\<close> returns the same sorted records on every replica, including the per-device
  components and the winning devices it reports.
\<close>

section \<open>Dropping merge-dead entries\<close>

lemma restrict_tomb:
  assumes inv: "rec_inv r A" and keep: "refs r \<subseteq> B" "B \<subseteq> A"
  shows "tomb_inv (rs_tombstone r) B" and "alive B f = alive A f \<inter> B"
proof -
  show tomb: "tomb_inv (rs_tombstone r) B"
  proof (cases "rs_tombstone r")
    case (Some t)
    then have "t \<in> B" "greatest entry_ts (tombs A) t"
      using inv keep(1) by (auto simp: rec_inv_def tomb_inv_def refs_def)
    with Some keep(2) show ?thesis
      by (auto simp: tomb_inv_def greatest_def tombs_def)
  qed (use inv keep(2) in \<open>auto simp: rec_inv_def tomb_inv_def tombs_def\<close>)
  have "(\<forall>t\<in>tombs B. entry_ts t < x) \<longleftrightarrow> (\<forall>t\<in>tombs A. entry_ts t < x)" for x
  proof (cases "rs_tombstone r")
    case None
    then show ?thesis using inv tomb by (simp add: rec_inv_def tomb_inv_def)
  next
    case (Some t)
    then have "greatest entry_ts (tombs A) t" "greatest entry_ts (tombs B) t"
      using inv tomb by (simp_all add: rec_inv_def tomb_inv_def)
    then show ?thesis by (auto simp: greatest_def intro: le_less_trans)
  qed
  then show "alive B f = alive A f \<inter> B"
    using keep(2) by (auto simp: alive_def)
qed

lemma rec_inv_restrict:
  assumes one: "one_record (rs_kind r) A" and inv: "rec_inv r A" and keep: "refs r \<subseteq> B" "B \<subseteq> A"
  shows "rec_inv r B"
proof -
  have dist: "distinct (map fst (rs_fields r))"
    using inv by (simp add: rec_inv_def)
  note tomb = restrict_tomb(1) [OF inv keep] and alive = restrict_tomb(2) [OF inv keep]
  have "case map_of (rs_fields r) f of None \<Rightarrow> alive B f = {}
        | Some c \<Rightarrow> cell_inv (merge_of (rs_kind r) f) c (alive B f)" for f
  proof (cases "map_of (rs_fields r) f")
    case None
    then show ?thesis
      using inv alive by (auto simp: rec_inv_def fields_inv_def dest!: spec [of _ f])
  next
    case (Some c)
    let ?m = "merge_of (rs_kind r) f"
    have c: "cell_inv ?m c (alive A f)"
      using inv Some by (auto simp: rec_inv_def fields_inv_def dest!: spec [of _ f])
    have "set (fc_live c) \<subseteq> B"
      using keep(1) refs_iff [OF dist] Some by blast
    with c have cov: "covering ?m (set (fc_live c)) (alive A f)"
        "covering ?m (set (fc_live c)) (alive B f)"
      by (auto simp: cell_inv_def covering_def alive)
    have fin: "finite (alive A f)" "finite (alive B f)"
      using finite_alive [OF one] alive by auto
    have "value_spec ?m (alive B f) w = value_spec ?m (alive A f) w" for w
    proof (cases "?m = Some SumM")
      case True
      then have "sum_spec (alive B f) = sum_spec (alive A f)"
        using covering_sum [OF cov(1) [unfolded True] fin(1)] covering_sum [OF cov(2) [unfolded True] fin(2)]
        by simp
      then show ?thesis by (simp add: value_spec_def)
    qed (simp add: value_spec_def)
    moreover have "greatest (bkey ?m) (alive B f) (fc_winner c)"
      using c \<open>set (fc_live c) \<subseteq> B\<close> by (auto simp: cell_inv_def greatest_def alive)
    ultimately show ?thesis
      using Some c cov(2) by (simp add: cell_inv_def)
  qed
  with dist tomb show ?thesis
    by (simp add: rec_inv_def fields_inv_def)
qed

text \<open>Conversely, a record rebuilt from the entries another state still refers to is the
  specified one for all the entries that state stood for.\<close>

lemma rec_inv_extend:
  assumes one: "one_record (rs_kind r) A" and inv0: "rec_inv r0 A" and kind: "rs_kind r0 = rs_kind r"
    and keep: "refs r0 \<subseteq> B" "B \<subseteq> A" and inv: "rec_inv r B"
  shows "rec_inv r A"
proof -
  have adm: "admissible A" using one by (simp add: one_record_def)
  note alive = restrict_tomb(2) [OF inv0 keep]
  have tomb: "tomb_inv (rs_tombstone r) A"
  proof (cases "rs_tombstone r0")
    case None
    then have "tombs A = {}" using inv0 by (simp add: rec_inv_def tomb_inv_def)
    moreover have "tombs B \<subseteq> tombs A" using keep(2) by (auto simp: tombs_def)
    ultimately have "rs_tombstone r = None"
      using inv by (auto simp: rec_inv_def tomb_inv_def greatest_def split: option.splits)
    then show ?thesis using \<open>tombs A = {}\<close> by (simp add: tomb_inv_def)
  next
    case (Some t)
    have tA: "greatest entry_ts (tombs A) t" using inv0 Some by (simp add: rec_inv_def tomb_inv_def)
    moreover have tB: "greatest entry_ts (tombs B) t"
      using restrict_tomb(1) [OF inv0 keep] Some by (simp add: tomb_inv_def)
    moreover obtain t' where t': "rs_tombstone r = Some t'" "greatest entry_ts (tombs B) t'"
      using inv tB by (auto simp: rec_inv_def tomb_inv_def greatest_def split: option.splits)
    ultimately have "t' = t"
      using greatest_ts_unique [OF admissible_subset [OF adm keep(2)]] by blast
    then show ?thesis using t'(1) tA by (simp add: tomb_inv_def)
  qed
  have "case map_of (rs_fields r) f of None \<Rightarrow> alive A f = {}
        | Some c \<Rightarrow> cell_inv (merge_of (rs_kind r) f) c (alive A f)" for f
  proof (cases "map_of (rs_fields r0) f")
    case None
    then have "alive A f = {}" using inv0 by (auto simp: rec_inv_def fields_inv_def dest!: spec [of _ f])
    moreover from this have "alive B f = {}" by (simp add: alive)
    then have "map_of (rs_fields r) f = None"
      using inv by (cases "map_of (rs_fields r) f")
        (auto simp: rec_inv_def fields_inv_def cell_inv_def greatest_def dest!: spec [of _ f])
    ultimately show ?thesis by simp
  next
    case (Some c0)
    let ?m = "merge_of (rs_kind r) f"
    have c0: "cell_inv ?m c0 (alive A f)"
      using inv0 Some kind by (auto simp: rec_inv_def fields_inv_def dest!: spec [of _ f])
    have "set (fc_live c0) \<subseteq> B"
      using Some keep(1) by (force simp: refs_def dest: map_of_SomeD)
    with c0 have cov0: "covering ?m (set (fc_live c0)) (alive A f)" "set (fc_live c0) \<subseteq> alive B f"
      by (auto simp: cell_inv_def covering_def alive)
    then have "alive B f \<noteq> {}" using c0 by (auto simp: cell_inv_def)
    then obtain c where c: "map_of (rs_fields r) f = Some c" "cell_inv ?m c (alive B f)"
      using inv by (auto simp: rec_inv_def fields_inv_def dest!: spec [of _ f] split: option.splits)
    have cov: "covering ?m (set (fc_live c)) (alive A f)"
      unfolding covering_def
    proof (intro conjI ballI)
      show "set (fc_live c) \<subseteq> alive A f" using c(2) by (auto simp: cell_inv_def covering_def alive)
      fix e assume "e \<in> alive A f"
      then obtain x where x: "x \<in> alive B f" "covers ?m x e"
        using cov0 unfolding covering_def by blast
      then obtain y where "y \<in> set (fc_live c)" "covers ?m y x"
        using c(2) unfolding cell_inv_def covering_def by blast
      with x(2) show "\<exists>c\<in>set (fc_live c). covers ?m c e" by (blast intro: covers_trans)
    qed
    have "alive B f \<subseteq> alive A f" by (simp add: alive)
    have covB: "covering ?m (set (fc_live c)) (alive B f)" using c(2) by (simp add: cell_inv_def)
    have fin: "finite (alive A f)" "finite (alive B f)" using finite_alive [OF one] alive by auto
    have "value_spec ?m (alive A f) w = value_spec ?m (alive B f) w" for w
    proof (cases "?m = Some SumM")
      case True
      then show ?thesis
        using covering_sum [OF cov [unfolded True] fin(1)] covering_sum [OF covB [unfolded True] fin(2)]
        by (simp add: value_spec_def)
    qed (simp add: value_spec_def)
    moreover have "greatest (bkey ?m) (set (fc_live c)) (fc_winner c)"
      using c(2) by (auto simp: cell_inv_def greatest_def covering_def)
    ultimately show ?thesis
      using c cov covering_greatest [OF cov] by (simp add: cell_inv_def)
  qed
  with inv tomb show ?thesis
    by (simp add: rec_inv_def fields_inv_def)
qed

lemma refs_nonempty:
  assumes inv: "rec_inv r A" and ne: "A \<noteq> {}"
  shows "refs r \<noteq> {}"
proof (cases "rs_tombstone r")
  case (Some t)
  then show ?thesis by (simp add: refs_def)
next
  case None
  then have none: "tombs A = {}"
    using inv by (simp add: rec_inv_def tomb_inv_def)
  obtain e where e: "e \<in> A"
    using ne by blast
  then have al: "e \<in> alive A (ce_field e)"
    using none by (auto simp: alive_def tombs_def)
  then obtain c where "map_of (rs_fields r) (ce_field e) = Some c" "fc_winner c \<in> set (fc_live c)"
    using inv by (fastforce simp: rec_inv_def fields_inv_def cell_inv_def
                   dest!: spec [of _ "ce_field e"] split: option.splits)
  then show ?thesis
    by (force simp: refs_def dest: map_of_SomeD)
qed

lemma state_inv_restrict:
  assumes adm: "admissible S" and inv: "state_inv ms S" and keep: "ms_live ms \<subseteq> T" "T \<subseteq> S"
  shows "state_inv ms T"
proof -
  have "record_ok k (map_of (ms_records ms) k) (part T k)" for k
  proof (cases "map_of (ms_records ms) k")
    case None
    then have "part S k = {}"
      using inv by (auto simp: state_inv_def record_ok_def dest!: spec [of _ k])
    with None keep(2) show ?thesis by (auto simp: record_ok_def part_def)
  next
    case (Some r)
    have ok: "record_ok k (Some r) (part S k)"
      using inv Some by (simp add: state_inv_def flip: Some)
    then have r: "part S k \<noteq> {}" "k = syncedRecordKey (rs_kind r) (rs_recordId r)" "rec_inv r (part S k)"
      by (auto simp: record_ok_def)
    have refs: "refs r \<subseteq> part T k"
    proof
      fix x assume "x \<in> refs r"
      then have "x \<in> part S k" "x \<in> ms_live ms"
        using refs_subset [OF r(3)] inv Some by (auto simp: state_inv_def)
      then show "x \<in> part T k" using keep(1) by (auto simp: part_def)
    qed
    have "rec_inv r (part T k)"
      by (rule rec_inv_restrict [OF one_record_part [OF adm r(2)] r(3) refs])
         (use keep(2) in \<open>auto simp: part_def\<close>)
    moreover have "part T k \<noteq> {}"
      using refs refs_nonempty [OF r(3,1)] by blast
    ultimately show ?thesis
      using Some r(2) by (simp add: record_ok_def)
  qed
  with inv show ?thesis
    by (simp add: state_inv_def)
qed

lemma state_inv_extend:
  assumes adm: "admissible S" and inv0: "state_inv ms0 S" and keep: "ms_live ms0 \<subseteq> T" "T \<subseteq> S"
    and inv: "state_inv ms T"
  shows "state_inv ms S"
proof -
  have "record_ok k (map_of (ms_records ms) k) (part S k)" for k
  proof (cases "map_of (ms_records ms0) k")
    case None
    then have "part S k = {}"
      using inv0 by (auto simp: state_inv_def record_ok_def dest!: spec [of _ k])
    moreover from this have "part T k = {}" using keep(2) by (auto simp: part_def)
    then have "map_of (ms_records ms) k = None"
      using inv by (cases "map_of (ms_records ms) k")
        (auto simp: state_inv_def record_ok_def dest!: spec [of _ k])
    ultimately show ?thesis by (simp add: record_ok_def)
  next
    case (Some r0)
    have "record_ok k (Some r0) (part S k)"
      using inv0 Some by (simp add: state_inv_def flip: Some)
    then have r0: "part S k \<noteq> {}" "k = syncedRecordKey (rs_kind r0) (rs_recordId r0)" "rec_inv r0 (part S k)"
      by (auto simp: record_ok_def)
    have refs: "refs r0 \<subseteq> part T k"
    proof
      fix x assume "x \<in> refs r0"
      then have "x \<in> part S k" "x \<in> ms_live ms0"
        using refs_subset [OF r0(3)] inv0 Some by (auto simp: state_inv_def)
      then show "x \<in> part T k" using keep(1) by (auto simp: part_def)
    qed
    then have "part T k \<noteq> {}" using refs_nonempty [OF r0(3,1)] by blast
    then obtain r where r: "map_of (ms_records ms) k = Some r"
        "syncedRecordKey (rs_kind r) (rs_recordId r) = k" "rec_inv r (part T k)"
      using inv by (auto simp: state_inv_def record_ok_def dest!: spec [of _ k] split: option.splits)
    then have kind: "rs_kind r0 = rs_kind r" using r0(2) by simp
    have "rec_inv r (part S k)"
      by (rule rec_inv_extend [OF one_record_part [OF adm r(2) [symmetric]] r0(3) kind refs _ r(3)])
         (use keep(2) in \<open>auto simp: part_def\<close>)
    then show ?thesis using r r0(1) by (simp add: record_ok_def)
  qed
  with inv show ?thesis by (simp add: state_inv_def)
qed

text \<open>Every accepted entry is at or below an entry the merge still refers to.\<close>

lemma live_bounds:
  assumes inv: "state_inv ms S" and e: "e \<in> S"
  shows "\<exists>c\<in>ms_live ms. entry_ts e \<le> entry_ts c"
proof -
  let ?k = "entry_record_key e"
  have eA: "e \<in> part S ?k" using e by (simp add: part_def)
  then obtain r where r: "map_of (ms_records ms) ?k = Some r" "rec_inv r (part S ?k)"
    using inv by (auto simp: state_inv_def record_ok_def dest!: spec [of _ ?k] split: option.splits)
  have refs: "x \<in> ms_live ms" if "x \<in> refs r" for x
    using inv r(1) that by (auto simp: state_inv_def)
  have "\<exists>c\<in>refs r. entry_ts e \<le> entry_ts c"
  proof (cases "\<exists>t\<in>tombs (part S ?k). entry_ts e \<le> entry_ts t")
    case True
    then obtain t where "rs_tombstone r = Some t" "greatest entry_ts (tombs (part S ?k)) t"
      using r(2) by (auto simp: rec_inv_def tomb_inv_def split: option.splits)
    with True show ?thesis by (auto simp: refs_def greatest_def intro: order_trans)
  next
    case False
    then have "e \<in> alive (part S ?k) (ce_field e)"
      using eA by (force simp: alive_def tombs_def)
    moreover from this obtain c where c: "map_of (rs_fields r) (ce_field e) = Some c"
        "cell_inv (merge_of (rs_kind r) (ce_field e)) c (alive (part S ?k) (ce_field e))"
      using r(2) by (auto simp: rec_inv_def fields_inv_def dest!: spec [of _ "ce_field e"] split: option.splits)
    ultimately obtain x where "x \<in> set (fc_live c)" "entry_ts e \<le> entry_ts x"
      by (auto simp: cell_inv_def covering_def covers_def)
    then show ?thesis using c(1) by (force simp: refs_def dest: map_of_SomeD)
  qed
  then show ?thesis using refs by blast
qed

text \<open>A retained log and the full log agree, also after any further entries.\<close>

lemma retained_log_same_view:
  assumes adm: "admissible (set es \<union> set fs)"
    and live: "ms_live (fold (merge_step env em) es (empty_merge d)) \<subseteq> set ds" "set ds \<subseteq> set es"
  shows "merge_view (fold (merge_step env' em') (ds @ fs) (empty_merge d')) =
         merge_view (fold (merge_step env em) (es @ fs) (empty_merge d))"
proof -
  let ?ms = "fold (merge_step env em) es (empty_merge d)"
  let ?T = "set ds \<union> set fs"
  have adms: "admissible (set es)" "admissible ?T"
    using adm live(2) by (auto intro: admissible_subset)
  have "state_inv ?ms (set ds)"
    by (rule state_inv_restrict [OF adms(1) merge_run_inv [OF adms(1)] live])
  then have "state_inv (fold (merge_step env em) fs ?ms) ?T"
    by (rule merge_fold_inv [OF adms(2)])
  then have "merge_view (fold (merge_step env em) fs ?ms) = merge_spec ?T"
    by (rule merge_view_spec [OF adms(2)])
  moreover have "merge_view (fold (merge_step env' em') (ds @ fs) (empty_merge d')) = merge_spec ?T"
    using merge.view_spec [of "ds @ fs"] adms(2) by simp
  ultimately show ?thesis by simp
qed

section \<open>The materialized list\<close>

text \<open>A materialized record up to the key order of its objects.\<close>

record materializedView =
  mv_kind :: syncKind
  mv_recordId :: string
  mv_fields :: "string \<Rightarrow> jsval option"
  mv_sums :: "string \<Rightarrow> (string \<Rightarrow> jsnum option) option"
  mv_devices :: "string \<Rightarrow> string option"

definition mat_view :: "materializedRecord \<Rightarrow> materializedView" where
  "mat_view m = \<lparr>mv_kind = mr_kind m, mv_recordId = mr_recordId m, mv_fields = map_of (mr_fields m),
                 mv_sums = (\<lambda>f. map_option map_of (map_of (mr_sumComponents m) f)),
                 mv_devices = map_of (mr_winnerDeviceIds m)\<rparr>"

definition components_spec :: "changeEntry set \<Rightarrow> string \<Rightarrow> jsnum option" where
  "components_spec A d = (if d \<in> ce_deviceId ` A then Some (jnat (device_max A d)) else None)"

definition mat_spec :: "syncKind \<Rightarrow> string \<Rightarrow> changeEntry set \<Rightarrow> materializedView" where
  "mat_spec kd i A =
     (let win = (\<lambda>f. THE w. greatest (bkey (merge_of kd f)) (alive A f) w)
      in \<lparr>mv_kind = kd, mv_recordId = i,
          mv_fields = (\<lambda>f. if alive A f = {} then None
                           else Some (value_spec (merge_of kd f) (alive A f) (win f))),
          mv_sums = (\<lambda>f. if merge_of kd f = Some SumM \<and> alive A f \<noteq> {}
                         then Some (components_spec (alive A f)) else None),
          mv_devices = (\<lambda>f. if merge_of kd f = Some Lww \<and> alive A f \<noteq> {}
                            then Some (ce_deviceId (win f)) else None)\<rparr>)"

lemma device_max_other: "d \<noteq> ce_deviceId e \<Longrightarrow> device_max (insert e A) d = device_max A d"
proof -
  assume "d \<noteq> ce_deviceId e"
  then have "{a \<in> insert e A. ce_deviceId a = d} = {a \<in> A. ce_deviceId a = d}" by auto
  then show ?thesis by (simp only: device_max_def)
qed

lemma device_maxima_spec:
  assumes "\<forall>x\<in>set live \<union> A. numeric_ok (Some SumM) x" "finite A"
    "map_of acc = components_spec A"
  shows "map_of (device_maxima live acc) = components_spec (A \<union> set live)"
  using assms
proof (induction live arbitrary: acc A)
  case (Cons e es)
  have e: "ce_value e = JNum (jnat (nv e))"
    using Cons.prems(1) by (simp add: numeric_ok_def)
  define x where "x = (case map_of acc (ce_deviceId e) of None \<Rightarrow> jnat (nv e)
                       | Some cur \<Rightarrow> num_max cur (jnat (nv e)))"
  let ?D = "{a \<in> A. ce_deviceId a = ce_deviceId e}"
  have dev: "{a \<in> insert e A. ce_deviceId a = d} =
      (if d = ce_deviceId e then insert e ?D else {a \<in> A. ce_deviceId a = d})" for d
    by auto
  have x: "x = jnat (device_max (insert e A) (ce_deviceId e))"
  proof (cases "ce_deviceId e \<in> ce_deviceId ` A")
    case True
    then have "nv ` ?D \<noteq> {}" "finite (nv ` ?D)"
      using Cons.prems(2) by auto
    then have "device_max (insert e A) (ce_deviceId e) = max (nv e) (device_max A (ce_deviceId e))"
      unfolding device_max_def dev [of "ce_deviceId e"]
      by (simp only: refl if_True image_insert Max_insert not_False_eq_True)
    then show ?thesis
      using True Cons.prems(3) by (simp add: x_def components_spec_def max_def)
  next
    case False
    then have "?D = {}" by (metis (mono_tags, lifting) Collect_empty_eq imageI)
    then have "{a \<in> insert e A. ce_deviceId a = ce_deviceId e} = {e}"
      unfolding dev [of "ce_deviceId e"] by (simp only: refl if_True)
    then have "device_max (insert e A) (ce_deviceId e) = nv e"
      unfolding device_max_def by (simp only: image_insert image_empty Max_singleton)
    with False Cons.prems(3) show ?thesis
      by (simp add: x_def components_spec_def)
  qed
  have "map_of (AList.update (ce_deviceId e) x acc) = components_spec (insert e A)"
    using device_max_other [of _ e]
    by (intro ext) (auto simp: update_conv' Cons.prems(3) x components_spec_def)
  then have "map_of (device_maxima es (AList.update (ce_deviceId e) x acc)) =
      components_spec (insert e A \<union> set es)"
    using Cons.prems(1,2) by (intro Cons.IH) auto
  then show ?case
    by (simp add: e x_def)
qed simp

lemma covering_components:
  "covering (Some SumM) L A \<Longrightarrow> finite A \<Longrightarrow> components_spec L = components_spec A"
  using covering_devices [of L A] covering_device_max [of L A]
  by (auto simp: components_spec_def fun_eq_iff)

lemma device_maxima_alive:
  assumes "one_record k S" "covering (Some SumM) (set live) (alive S f)" "merge_of k f = Some SumM"
  shows "map_of (device_maxima live []) = components_spec (alive S f)"
proof -
  have "\<forall>x\<in>set live. numeric_ok (Some SumM) x"
    using assms alive_numeric [OF assms(1), of _ f] by (auto simp: covering_def)
  moreover have "map_of ([] :: (string, jsnum) jsmap) = components_spec {}"
    by (simp add: components_spec_def fun_eq_iff)
  ultimately have "map_of (device_maxima live []) = components_spec (set live)"
    using device_maxima_spec [of live "{}" "[]"] by simp
  then show ?thesis
    using covering_components [OF assms(2) finite_alive [OF assms(1)]] by simp
qed

lemma map_of_fieldsOf: "map_of (fieldsOf (Some r)) f = map_option fc_value (map_of (rs_fields r) f)"
proof -
  have "map_of (map (\<lambda>(field, cell). (field, fc_value cell)) xs) f = map_option fc_value (map_of xs f)" for xs
    by (induction xs) auto
  then show ?thesis by (simp add: fieldsOf_def)
qed

lemma device_maxima_nonempty: "acc \<noteq> [] \<Longrightarrow> device_maxima live acc \<noteq> []"
proof (induction live arbitrary: acc)
  case (Cons e es)
  have "AList.update (ce_deviceId e) x acc \<noteq> []" for x
    by (cases acc) auto
  with Cons show ?case by (auto split: jsval.split)
qed simp

lemma mat_view_spec:
  assumes one: "one_record (rs_kind r) A" and inv: "rec_inv r A"
  shows "mat_view (materializedOf r) = mat_spec (rs_kind r) (rs_recordId r) A"
proof -
  let ?k = "rs_kind r"
  have dist: "distinct (map fst (rs_fields r))" using inv by (simp add: rec_inv_def)
  have win: "(THE w. greatest (bkey (merge_of ?k f)) (alive A f) w) = fc_winner c"
    if c: "cell_inv (merge_of ?k f) c (alive A f)" for f c
    using c one greatest_unique [OF _ alive_subset, of A "merge_of ?k f" f]
    by (intro the_equality) (auto simp: cell_inv_def one_record_def)
  have cell: "case map_of (rs_fields r) f of None \<Rightarrow> alive A f = {}
      | Some c \<Rightarrow> cell_inv (merge_of ?k f) c (alive A f) \<and> alive A f \<noteq> {}" for f
    using inv by (auto simp: rec_inv_def fields_inv_def cell_inv_def greatest_def dest!: spec [of _ f]
        split: option.splits)
  have "map_of (sumComponentsOf r) f =
      (case map_of (rs_fields r) f of None \<Rightarrow> None
       | Some c \<Rightarrow> if merge_of ?k f = Some SumM \<and> device_maxima (fc_live c) [] \<noteq> []
                   then Some (device_maxima (fc_live c) []) else None)" for f
    unfolding sumComponentsOf_def
    by (subst map_of_map_filter [OF dist]) (auto simp: Let_def split: if_splits option.splits)
  moreover have "map_of (device_maxima (fc_live c) []) = components_spec (alive A f)"
      "device_maxima (fc_live c) [] \<noteq> []"
    if "map_of (rs_fields r) f = Some c" "merge_of ?k f = Some SumM" for f c
  proof -
    have c: "covering (Some SumM) (set (fc_live c)) (alive A f)" "alive A f \<noteq> {}"
      using cell [of f] that by (auto simp: cell_inv_def)
    show eq: "map_of (device_maxima (fc_live c) []) = components_spec (alive A f)"
      by (rule device_maxima_alive [OF one c(1) that(2)])
    show "device_maxima (fc_live c) [] \<noteq> []"
    proof
      assume "device_maxima (fc_live c) [] = []"
      then have "components_spec (alive A f) d = None" for d
        using eq [symmetric] by simp
      then show False
        using c(2) by (metis all_not_in_conv components_spec_def imageI option.distinct(1))
    qed
  qed
  ultimately have sums: "map_option map_of (map_of (sumComponentsOf r) f) =
      (if merge_of ?k f = Some SumM \<and> alive A f \<noteq> {} then Some (components_spec (alive A f)) else None)" for f
    using cell [of f] by (auto split: option.splits)
  have devices: "map_of (winnerDeviceIdsOf r) f =
      (if merge_of ?k f = Some Lww \<and> alive A f \<noteq> {}
       then Some (ce_deviceId (THE w. greatest (bkey (merge_of ?k f)) (alive A f) w)) else None)" for f
    unfolding winnerDeviceIdsOf_def
    by (subst map_of_map_filter [OF dist]) (use cell [of f] win [of f] in \<open>auto split: if_splits option.splits\<close>)
  have vals: "map_of (mr_fields (materializedOf r)) f =
      (if alive A f = {} then None
       else Some (value_spec (merge_of ?k f) (alive A f)
                   (THE w. greatest (bkey (merge_of ?k f)) (alive A f) w)))" for f
  proof (cases "map_of (rs_fields r) f")
    case (Some c)
    then have c: "cell_inv (merge_of ?k f) c (alive A f)" "alive A f \<noteq> {}"
      using cell [of f] by simp_all
    then have "fc_value c = value_spec (merge_of ?k f) (alive A f) (fc_winner c)"
      by (simp add: cell_inv_def)
    with Some c(2) win [OF c(1)] show ?thesis
      by (simp only: materializedOf_def map_of_fieldsOf materializedRecord.simps option.map if_False)
  qed (use cell [of f] in \<open>simp add: materializedOf_def map_of_fieldsOf\<close>)
  show ?thesis
    using vals sums devices
    by (simp add: mat_view_def mat_spec_def materializedOf_def Let_def fun_eq_iff)
qed

definition view_key :: "materializedView \<Rightarrow> nat \<times> string \<times> string \<times> string" where
  "view_key v = ((if mv_kind v \<in> set grouped_kinds then 0 else 1),
     materializeGroup (mv_kind v) (mv_recordId v), kind_str (mv_kind v), mv_recordId v)"

lemma view_key_mat: "view_key (mat_view m) = mat_key m"
  by (simp add: view_key_def mat_key_def mat_view_def)

definition materialized_set :: "changeEntry set \<Rightarrow> materializedView set" where
  "materialized_set S = {mat_spec kd i (part S (syncedRecordKey kd i)) | kd i.
                          part S (syncedRecordKey kd i) \<noteq> {}}"

lemma materialize_views:
  assumes adm: "admissible S" and inv: "state_inv ms S"
  shows "mat_view ` set (materialize ms) = materialized_set S"
    and "sorted (map view_key (map mat_view (materialize ms)))"
    and "distinct (map view_key (map mat_view (materialize ms)))"
proof -
  have dist: "distinct (map fst (ms_records ms))"
    using inv by (simp add: state_inv_def)
  have rec: "syncedRecordKey (rs_kind r) (rs_recordId r) = k \<and> part S k \<noteq> {} \<and> rec_inv r (part S k)"
    if "(k, r) \<in> set (ms_records ms)" for k r
  proof -
    have "map_of (ms_records ms) k = Some r" using dist that by simp
    then show ?thesis
      using inv by (fastforce simp: state_inv_def record_ok_def dest: spec [of _ k])
  qed
  have view: "mat_view (materializedOf r) = mat_spec (rs_kind r) (rs_recordId r) (part S k)"
    if "(k, r) \<in> set (ms_records ms)" for k r
    using rec [OF that] by (intro mat_view_spec one_record_part [OF adm]) auto
  have "mat_view ` set (materialize ms) = (\<lambda>(k, r). mat_spec (rs_kind r) (rs_recordId r) (part S k)) ` set (ms_records ms)"
    using view by (force simp: materialize_def image_iff)
  also have "\<dots> = materialized_set S"
  proof (intro equalityI subsetI)
    fix v assume "v \<in> (\<lambda>(k, r). mat_spec (rs_kind r) (rs_recordId r) (part S k)) ` set (ms_records ms)"
    then show "v \<in> materialized_set S"
      using rec unfolding materialized_set_def by fastforce
  next
    fix v assume "v \<in> materialized_set S"
    then obtain kd i where v: "v = mat_spec kd i (part S (syncedRecordKey kd i))"
        "part S (syncedRecordKey kd i) \<noteq> {}"
      by (auto simp: materialized_set_def)
    then obtain r where r: "map_of (ms_records ms) (syncedRecordKey kd i) = Some r"
      using inv by (fastforce simp: state_inv_def record_ok_def dest!: spec [of _ "syncedRecordKey kd i"]
          split: option.splits)
    then have "(syncedRecordKey kd i, r) \<in> set (ms_records ms)"
      by (rule map_of_SomeD)
    with v rec [OF this] show "v \<in> (\<lambda>(k, r). mat_spec (rs_kind r) (rs_recordId r) (part S k)) ` set (ms_records ms)"
      by force
  qed
  finally show "mat_view ` set (materialize ms) = materialized_set S" .
  show "sorted (map view_key (map mat_view (materialize ms)))"
    using mat_cmp.sort_by_sorted by (simp add: materialize_def comp_def view_key_mat)
  have "inj_on (mat_key \<circ> materializedOf \<circ> snd) (set (ms_records ms))"
  proof (rule inj_onI, clarify)
    fix k r k' r' assume m: "(k, r) \<in> set (ms_records ms)" "(k', r') \<in> set (ms_records ms)"
      and eq: "(mat_key \<circ> materializedOf \<circ> snd) (k, r) = (mat_key \<circ> materializedOf \<circ> snd) (k', r')"
    then have "k = k'"
      using rec [OF m(1)] rec [OF m(2)]
      by (auto simp: mat_key_def materializedOf_def kind_codec.enc_eq_iff)
    then show "k = k' \<and> r = r'"
      using m dist eq_key_imp_eq_value by fastforce
  qed
  then have "distinct (map (mat_key \<circ> materializedOf \<circ> snd) (ms_records ms))"
    using dist by (simp add: distinct_map)
  then show "distinct (map view_key (map mat_view (materialize ms)))"
    by (subst mset_eq_imp_distinct_iff [of _ "map (mat_key \<circ> materializedOf \<circ> snd) (ms_records ms)"])
       (simp_all add: materialize_def comp_def view_key_mat image_mset.compositionality)
qed

text \<open>Two states for one set of entries materialize the same list.\<close>

lemma materialize_unique:
  assumes "admissible S" "state_inv ms S" "state_inv ms' S"
  shows "map mat_view (materialize ms) = map mat_view (materialize ms')"
proof (rule map_sorted_distinct_set_unique [where f = view_key])
  show "inj_on view_key (set (map mat_view (materialize ms)) \<union> set (map mat_view (materialize ms')))"
    using materialize_views(3) [OF assms(1,2)]
    by (simp only: set_map materialize_views(1) [OF assms(1,2)] materialize_views(1) [OF assms(1,3)]
        Un_absorb distinct_map)
qed (use materialize_views [OF assms(1,2)] materialize_views [OF assms(1,3)] in simp_all)

end
