(* ===== verification/SyncMarks.thy ===== *)
theory SyncMarks
  imports SyncView
begin

text \<open>
  The contiguous per-device watermarks of \<open>createSyncEngine\<close>: \<open>foldSeq\<close>, \<open>commitSeqs\<close>,
  \<open>prospectiveMarks\<close> and \<open>cursorSnapshot\<close>. A mark is the largest seq with no gap below it
  among the observed seqs, in whatever order they arrive; the marks an append would produce,
  computed without touching the state, are the marks it does produce.

  The engine's own \<open>Map\<close>s are maps here. The object literals keyed by device ids are
  written with \<open>put_own\<close>, which loses the key \<open>__proto__\<close> as the assignment does.
\<close>

section \<open>Definitions\<close>

record markState =
  mk_contiguous :: "(string, nat) jsmap"
  mk_seen :: "(string, nat list) jsmap"

text \<open>\<open>Set.prototype.add\<close> on the insertion-ordered contents.\<close>

definition set_add :: "'a \<Rightarrow> 'a list \<Rightarrow> 'a list" where
  "set_add x xs = (if x \<in> set xs then xs else xs @ [x])"

text \<open>The loop \<open>while (set.delete(mark + 1)) { mark += 1; }\<close>.\<close>

function advance :: "nat \<Rightarrow> nat list \<Rightarrow> nat \<times> nat list" where
  "advance mark buf =
     (if mark + 1 \<in> set buf then advance (mark + 1) (removeAll (mark + 1) buf) else (mark, buf))"
  by auto
termination
  by (relation "measure (\<lambda>(mark, buf). length buf)") (auto intro: length_removeAll_less)

declare advance.simps [simp del]

definition foldSeq :: "string \<Rightarrow> nat \<Rightarrow> markState \<Rightarrow> markState" where
  "foldSeq source seq st =
     (let mark = map_get_or 0 (mk_contiguous st) source
      in if seq \<le> mark then st
         else let (mark', buf') = advance mark (set_add seq (map_get_or [] (mk_seen st) source))
              in st\<lparr>mk_seen := AList.update source buf' (mk_seen st),
                    mk_contiguous := AList.update source mark' (mk_contiguous st)\<rparr>)"

type_synonym skips = "(string, nat list) jsmap"

definition fold_entries :: "changeEntry list \<Rightarrow> markState \<Rightarrow> markState" where
  "fold_entries es = fold (\<lambda>e. foldSeq (ce_deviceId e) (ce_seq e)) es"

definition fold_skips :: "skips \<Rightarrow> markState \<Rightarrow> markState" where
  "fold_skips sk = fold (\<lambda>(dev, seqs). fold (foldSeq dev) seqs) sk"

definition commitSeqs :: "changeEntry list \<Rightarrow> skips option \<Rightarrow> markState \<Rightarrow> markState" where
  "commitSeqs entries skipped st =
     (let st' = fold_entries entries st
      in case skipped of None \<Rightarrow> st' | Some sk \<Rightarrow> fold_skips sk st')"

text \<open>
  \<open>o[k] = v\<close> on an object literal: under the key \<open>__proto__\<close> no property is made (a number is
  ignored, an array becomes the prototype). Reading a member every object inherits yields an object or a
  function, which no number compares with.
\<close>

definition proto_key :: string where "proto_key = ''__proto__''"

definition object_members :: "string list" where
  "object_members =
     [proto_key, ''constructor'', ''hasOwnProperty'', ''isPrototypeOf'', ''propertyIsEnumerable'', ''toLocaleString'',
      ''toString'', ''valueOf'', ''__defineGetter__'', ''__defineSetter__'', ''__lookupGetter__'', ''__lookupSetter__'']"

definition put_own :: "string \<Rightarrow> 'v \<Rightarrow> (string, 'v) jsmap \<Rightarrow> (string, 'v) jsmap" where
  "put_own k v m = (if k = proto_key then m else AList.update k v m)"

text \<open>The scratch marks and buffers of \<open>prospectiveMarks\<close>; the marks are an object literal.\<close>

record hypothetical =
  hy_marks :: "(string, nat) jsmap"
  hy_buffers :: "(string, nat list) jsmap"

definition open_buffer :: "markState \<Rightarrow> string \<Rightarrow> hypothetical \<Rightarrow> hypothetical" where
  "open_buffer st dev h =
     (case map_of (hy_buffers h) dev of
        Some _ \<Rightarrow> h
      | None \<Rightarrow> h\<lparr>hy_buffers := AList.update dev (map_get_or [] (mk_seen st) dev) (hy_buffers h),
                  hy_marks := put_own dev (map_get_or 0 (mk_contiguous st) dev) (hy_marks h)\<rparr>)"

definition foldHypothetical :: "markState \<Rightarrow> string \<Rightarrow> nat \<Rightarrow> hypothetical \<Rightarrow> hypothetical" where
  "foldHypothetical st dev seq h0 =
     (let h = open_buffer st dev h0;
          mark = map_get_or 0 (hy_marks h) dev
      in if dev \<noteq> proto_key \<and> mark < seq
         then let (mark', buf') = advance mark (set_add seq (map_get_or [] (hy_buffers h) dev))
              in h\<lparr>hy_buffers := AList.update dev buf' (hy_buffers h),
                   hy_marks := put_own dev mark' (hy_marks h)\<rparr>
         else h)"

definition prospectiveMarks ::
  "markState \<Rightarrow> changeEntry list \<Rightarrow> skips option \<Rightarrow> (string, nat) jsmap" where
  "prospectiveMarks st entries skipped =
     (let h0 = \<lparr>hy_marks = [], hy_buffers = []\<rparr>;
          h1 = fold (\<lambda>(dev, seqs). fold (foldHypothetical st dev) seqs)
                 (case skipped of None \<Rightarrow> [] | Some sk \<Rightarrow> sk) h0;
          h2 = fold (\<lambda>e. foldHypothetical st (ce_deviceId e) (ce_seq e)) entries h1
      in hy_marks h2)"

definition by_progress :: "string \<times> nat \<Rightarrow> string \<times> nat \<Rightarrow> int" where
  "by_progress a b = int (snd b) - int (snd a)"

definition cursorSnapshot :: "markState \<Rightarrow> (string, nat) jsmap" where
  "cursorSnapshot st =
     filter (\<lambda>p. fst p \<noteq> proto_key) (take max_cursor_devices (sort_by by_progress (mk_contiguous st)))"

interpretation progress: comparator by_progress "\<lambda>p. - int (snd p)"
  by unfold_locales (auto simp: by_progress_def)

section \<open>One device's mark\<close>

definition lane_of :: "markState \<Rightarrow> string \<Rightarrow> nat \<times> nat list" where
  "lane_of st dev = (map_get_or 0 (mk_contiguous st) dev, map_get_or [] (mk_seen st) dev)"

definition fold1 :: "nat \<Rightarrow> nat \<times> nat list \<Rightarrow> nat \<times> nat list" where
  "fold1 seq mb = (if seq \<le> fst mb then mb else advance (fst mb) (set_add seq (snd mb)))"

definition observed :: "nat \<times> nat list \<Rightarrow> nat set" where
  "observed mb = {1..fst mb} \<union> set (snd mb)"

text \<open>No buffered seq waits directly above the mark.\<close>

definition settled :: "nat \<times> nat list \<Rightarrow> bool" where
  "settled mb = (fst mb + 1 \<notin> set (snd mb))"

lemma set_set_add [simp]: "set (set_add x xs) = insert x (set xs)"
  by (auto simp: set_add_def)

lemma advance_props:
  "settled (advance mark buf) \<and> observed (advance mark buf) = observed (mark, buf)"
proof (induction mark buf rule: advance.induct)
  case (1 mark buf)
  show ?case
  proof (cases "mark + 1 \<in> set buf")
    case True
    have "observed (mark + 1, removeAll (mark + 1) buf) = observed (mark, buf)"
      using True by (auto simp: observed_def le_Suc_eq)
    with 1 [OF True] True show ?thesis
      by (simp add: advance.simps [of mark buf])
  next
    case False
    then show ?thesis
      by (simp add: advance.simps [of mark buf] settled_def)
  qed
qed

lemma fold1_props:
  assumes "settled mb" "1 \<le> seq"
  shows "settled (fold1 seq mb)" "observed (fold1 seq mb) = insert seq (observed mb)"
proof -
  have "settled (fold1 seq mb) \<and> observed (fold1 seq mb) = insert seq (observed mb)"
  proof (cases "seq \<le> fst mb")
    case False
    then show ?thesis
      using advance_props [of "fst mb" "set_add seq (snd mb)"] by (auto simp: fold1_def observed_def)
  qed (use assms in \<open>auto simp: fold1_def observed_def\<close>)
  then show "settled (fold1 seq mb)" "observed (fold1 seq mb) = insert seq (observed mb)" by auto
qed

lemma fold1_zero: "fold1 0 mb = mb"
  by (simp add: fold1_def)

lemma fold1s_props:
  "settled mb \<Longrightarrow> settled (fold fold1 ss mb) \<and>
     observed (fold fold1 ss mb) = observed mb \<union> (set ss - {0})"
proof (induction ss arbitrary: mb)
  case (Cons s ss)
  show ?case
  proof (cases "s = 0")
    case True
    then show ?thesis using Cons by (simp add: fold1_zero)
  next
    case False
    then have "settled (fold1 s mb)" "observed (fold1 s mb) = insert s (observed mb)"
      using fold1_props [OF Cons.prems, of s] by simp_all
    with Cons.IH [of "fold1 s mb"] False show ?thesis by auto
  qed
qed simp

text \<open>The mark is the end of the gap-free prefix of what was observed.\<close>

lemma settled_mark:
  assumes "settled mb"
  shows "{1..n} \<subseteq> observed mb \<longleftrightarrow> n \<le> fst mb"
proof
  assume sub: "{1..n} \<subseteq> observed mb"
  show "n \<le> fst mb"
  proof (rule ccontr)
    assume "\<not> n \<le> fst mb"
    then have "fst mb + 1 \<in> observed mb" using sub by auto
    then show False using assms by (auto simp: observed_def settled_def)
  qed
qed (auto simp: observed_def)

definition frontier :: "nat set \<Rightarrow> nat" where
  "frontier A = (GREATEST n. {1..n} \<subseteq> A)"

lemma settled_frontier: "settled mb \<Longrightarrow> frontier (observed mb) = fst mb"
  unfolding frontier_def by (rule Greatest_equality) (use settled_mark [of mb] in blast)+

section \<open>The state, device by device\<close>

definition marks_inv :: "markState \<Rightarrow> bool" where
  "marks_inv st = (\<forall>d. settled (lane_of st d))"

definition mark_of :: "markState \<Rightarrow> string \<Rightarrow> nat" where
  "mark_of st d = map_get_or 0 (mk_contiguous st) d"

definition no_marks :: markState where
  "no_marks = \<lparr>mk_contiguous = [], mk_seen = []\<rparr>"

lemma lane_of_mark: "fst (lane_of st d) = mark_of st d"
  by (simp add: lane_of_def mark_of_def)

lemma lane_of_foldSeq: "lane_of (foldSeq s n st) d = (if d = s then fold1 n (lane_of st d) else lane_of st d)"
  by (auto simp: foldSeq_def lane_of_def fold1_def Let_def split: prod.split)

lemma foldSeq_inv: "marks_inv st \<Longrightarrow> marks_inv (foldSeq s n st)"
  using fold1s_props [of "lane_of st s" "[n]"] by (simp add: marks_inv_def lane_of_foldSeq)

text \<open>The seqs a list of \<open>(device, seq)\<close> folds holds for one device.\<close>

definition seqs_of :: "string \<Rightarrow> (string \<times> nat) list \<Rightarrow> nat list" where
  "seqs_of d ps = map snd (filter (\<lambda>p. fst p = d) ps)"

definition entry_pairs :: "changeEntry list \<Rightarrow> (string \<times> nat) list" where
  "entry_pairs es = map (\<lambda>e. (ce_deviceId e, ce_seq e)) es"

definition skip_pairs :: "skips option \<Rightarrow> (string \<times> nat) list" where
  "skip_pairs sk = concat (map (\<lambda>(d, ss). map (Pair d) ss) (case sk of None \<Rightarrow> [] | Some s \<Rightarrow> s))"

abbreviation fold_pairs :: "(string \<times> nat) list \<Rightarrow> markState \<Rightarrow> markState" where
  "fold_pairs ps \<equiv> fold (\<lambda>p. foldSeq (fst p) (snd p)) ps"

lemma lane_of_fold_pairs: "lane_of (fold_pairs ps st) d = fold fold1 (seqs_of d ps) (lane_of st d)"
  by (induction ps arbitrary: st) (auto simp: seqs_of_def lane_of_foldSeq)

lemma fold_pairs_inv: "marks_inv st \<Longrightarrow> marks_inv (fold_pairs ps st)"
  by (induction ps arbitrary: st) (auto intro: foldSeq_inv)

lemma fold_entries_pairs: "fold_entries es = fold_pairs (entry_pairs es)"
  by (simp add: fold_entries_def entry_pairs_def fold_map comp_def)

lemma fold_nested: "fold (\<lambda>(d, ss). fold (g d) ss) sk = fold (\<lambda>p. g (fst p) (snd p)) (concat (map (\<lambda>(d, ss). map (Pair d) ss) sk))"
  by (induction sk) (auto simp: fold_map comp_def fun_eq_iff)

lemma commitSeqs_pairs: "commitSeqs es sk st = fold_pairs (entry_pairs es @ skip_pairs sk) st"
  by (simp add: commitSeqs_def Let_def fold_entries_pairs fold_skips_def fold_nested skip_pairs_def
      split: option.split)

lemma commitSeqs_inv: "marks_inv st \<Longrightarrow> marks_inv (commitSeqs es sk st)"
  unfolding commitSeqs_pairs by (rule fold_pairs_inv)

lemma lane_of_commit: "lane_of (commitSeqs es sk st) d =
    fold fold1 (seqs_of d (entry_pairs es @ skip_pairs sk)) (lane_of st d)"
  unfolding commitSeqs_pairs by (rule lane_of_fold_pairs)

lemma mark_of_fold_pairs:
  assumes "marks_inv st"
  shows "mark_of (fold_pairs ps st) d = frontier (observed (lane_of st d) \<union> (set (seqs_of d ps) - {0}))"
  using settled_frontier fold1s_props [of "lane_of st d" "seqs_of d ps"] assms
  by (metis lane_of_fold_pairs lane_of_mark marks_inv_def)

text \<open>The same for the scratch state of \<open>prospectiveMarks\<close>.\<close>

definition hypo_of :: "markState \<Rightarrow> hypothetical \<Rightarrow> string \<Rightarrow> nat \<times> nat list" where
  "hypo_of st h d = (case map_of (hy_buffers h) d of
     None \<Rightarrow> lane_of st d | Some b \<Rightarrow> (map_get_or 0 (hy_marks h) d, b))"

definition hypo_ok :: "hypothetical \<Rightarrow> string set \<Rightarrow> bool" where
  "hypo_ok h D = (dom (map_of (hy_buffers h)) = D \<and> dom (map_of (hy_marks h)) = D - {proto_key})"

lemma open_buffer_facts:
  assumes "hypo_ok h D"
  shows "hypo_ok (open_buffer st d h) (insert d D)"
    and "d' \<noteq> proto_key \<Longrightarrow> hypo_of st (open_buffer st d h) d' = hypo_of st h d'"
    and "map_of (hy_buffers (open_buffer st d h)) d \<noteq> None"
  using assms
  by (auto simp: open_buffer_def put_own_def hypo_ok_def hypo_of_def lane_of_def fun_eq_iff split: option.split)

lemma foldHypothetical_facts:
  assumes "hypo_ok h D"
  shows "hypo_ok (foldHypothetical st s n h) (insert s D)"
    and "d \<noteq> proto_key \<Longrightarrow> hypo_of st (foldHypothetical st s n h) d = (if d = s then fold1 n (hypo_of st h d) else hypo_of st h d)"
proof -
  define h1 where "h1 = open_buffer st s h"
  have ok: "hypo_ok h1 (insert s D)" and same: "\<And>d'. d' \<noteq> proto_key \<Longrightarrow> hypo_of st h1 d' = hypo_of st h d'"
    and opened: "map_of (hy_buffers h1) s \<noteq> None"
    using open_buffer_facts [OF assms] by (simp_all add: h1_def)
  from opened obtain b where b: "map_of (hy_buffers h1) s = Some b" by blast
  then have buf: "map_get_or [] (hy_buffers h1) s = b" "hypo_of st h1 s = (map_get_or 0 (hy_marks h1) s, b)"
    by (simp_all add: map_get_or_def hypo_of_def)
  show "hypo_ok (foldHypothetical st s n h) (insert s D)"
    using ok by (auto simp: foldHypothetical_def hypo_ok_def put_own_def Let_def simp flip: h1_def split: prod.split)
  assume d: "d \<noteq> proto_key"
  have "hypo_of st (foldHypothetical st s n h) d = (if d = s then fold1 n (hypo_of st h1 d) else hypo_of st h1 d)"
    using buf d
    by (auto simp: foldHypothetical_def put_own_def fold1_def Let_def hypo_of_def simp flip: h1_def
        split: prod.split option.split)
  then show "hypo_of st (foldHypothetical st s n h) d = (if d = s then fold1 n (hypo_of st h d) else hypo_of st h d)"
    using d by (auto simp: same)
qed

lemma fold_hypothetical:
  assumes "hypo_ok h D"
  shows "hypo_ok (fold (\<lambda>p. foldHypothetical st (fst p) (snd p)) ps h) (D \<union> fst ` set ps) \<and>
    (d \<noteq> proto_key \<longrightarrow> hypo_of st (fold (\<lambda>p. foldHypothetical st (fst p) (snd p)) ps h) d =
      fold fold1 (seqs_of d ps) (hypo_of st h d))"
  using assms
proof (induction ps arbitrary: h D)
  case (Cons p ps)
  note f = foldHypothetical_facts [OF Cons.prems, where s = "fst p" and n = "snd p" and st = st]
  show ?case
    using Cons.IH [OF f(1)] f(2) [of d] by (auto simp: seqs_of_def)
qed (simp add: seqs_of_def)

lemma prospectiveMarks_pairs:
  "prospectiveMarks st es sk =
     hy_marks (fold (\<lambda>p. foldHypothetical st (fst p) (snd p)) (skip_pairs sk @ entry_pairs es)
       \<lparr>hy_marks = [], hy_buffers = []\<rparr>)"
  by (simp add: prospectiveMarks_def Let_def fold_nested skip_pairs_def entry_pairs_def fold_map comp_def)

lemma prospective_lane:
  assumes inv: "marks_inv st"
  shows "map_of (prospectiveMarks st es sk) d =
    (if d \<noteq> proto_key \<and> d \<in> fst ` set (entry_pairs es @ skip_pairs sk) then Some (mark_of (commitSeqs es sk st) d) else None)"
proof (cases "d = proto_key")
  case proto: False
  let ?ps = "skip_pairs sk @ entry_pairs es"
  define h where "h = fold (\<lambda>p. foldHypothetical st (fst p) (snd p)) ?ps \<lparr>hy_marks = [], hy_buffers = []\<rparr>"
  have empty: "hypo_ok \<lparr>hy_marks = [], hy_buffers = []\<rparr> {}" by (simp add: hypo_ok_def)
  have ok: "hypo_ok h (fst ` set ?ps)"
    and lane: "hypo_of st h d = fold fold1 (seqs_of d ?ps) (lane_of st d)"
    using fold_hypothetical [OF empty, of st ?ps d] proto by (simp_all add: h_def hypo_of_def)
  have s: "settled (lane_of st d)" using inv by (simp add: marks_inv_def)
  have "set (seqs_of d ?ps) = set (seqs_of d (entry_pairs es @ skip_pairs sk))"
    by (auto simp: seqs_of_def)
  then have "fst (fold fold1 (seqs_of d ?ps) (lane_of st d)) = mark_of (commitSeqs es sk st) d"
    unfolding commitSeqs_pairs mark_of_fold_pairs [OF inv]
    using settled_frontier fold1s_props [OF s, of "seqs_of d ?ps"] by metis
  then have mark: "fst (hypo_of st h d) = mark_of (commitSeqs es sk st) d"
    using lane by simp
  have pm: "prospectiveMarks st es sk = hy_marks h"
    by (simp only: prospectiveMarks_pairs h_def)
  have dom: "fst ` set ?ps = fst ` set (entry_pairs es @ skip_pairs sk)"
    by auto
  show ?thesis
  proof (cases "d \<in> fst ` set ?ps")
    case True
    then obtain b m where "map_of (hy_buffers h) d = Some b" "map_of (hy_marks h) d = Some m"
      using ok proto unfolding hypo_ok_def by blast
    with mark True proto show ?thesis
      unfolding pm dom by (simp add: hypo_of_def map_get_or_def)
  next
    case False
    then have "map_of (hy_marks h) d = None"
      using ok unfolding hypo_ok_def by blast
    with False show ?thesis
      unfolding pm dom by simp
  qed
next
  case True
  have "hypo_ok \<lparr>hy_marks = [], hy_buffers = []\<rparr> {}" by (simp add: hypo_ok_def)
  from fold_hypothetical [OF this, of st "skip_pairs sk @ entry_pairs es" d] True show ?thesis
    unfolding prospectiveMarks_pairs hypo_ok_def by (metis (no_types, lifting) Diff_iff domIff insertI1)
qed

section \<open>Order freedom and the advertised cursor\<close>

definition marks_spec :: "(string \<times> nat) set \<Rightarrow> string \<Rightarrow> nat" where
  "marks_spec P d = frontier ({n. (d, n) \<in> P} - {0})"

lemma no_marks_inv: "marks_inv no_marks"
  by (simp add: marks_inv_def no_marks_def lane_of_def settled_def)

interpretation marks: order_free_fold "\<lambda>p. foldSeq (fst p) (snd p)" no_marks mark_of marks_spec "\<lambda>_. True"
proof (unfold_locales, rule ext)
  fix ps :: "(string \<times> nat) list" and d
  have "observed (lane_of no_marks d) = {}"
    by (simp add: no_marks_def lane_of_def observed_def)
  moreover have "set (seqs_of d ps) = {n. (d, n) \<in> set ps}"
    by (force simp: seqs_of_def)
  ultimately show "mark_of (fold_pairs ps no_marks) d = marks_spec (set ps) d"
    using mark_of_fold_pairs [OF no_marks_inv, of ps d] by (simp add: marks_spec_def)
qed

lemma cursor_set:
  "set (cursorSnapshot st) = {p \<in> set (take max_cursor_devices (sort_by by_progress (mk_contiguous st))). fst p \<noteq> proto_key}"
  unfolding cursorSnapshot_def by (rule set_filter)

lemma cursor_subset: "set (cursorSnapshot st) \<subseteq> set (mk_contiguous st)"
proof
  fix p assume "p \<in> set (cursorSnapshot st)"
  then have "p \<in> set (take max_cursor_devices (sort_by by_progress (mk_contiguous st)))"
    unfolding cursor_set by blast
  then show "p \<in> set (mk_contiguous st)" by (metis in_set_takeD set_sort_by)
qed

lemma cursor_length: "length (cursorSnapshot st) \<le> max_cursor_devices"
  unfolding cursorSnapshot_def by (rule order_trans [OF length_filter_le]) simp

text \<open>A device left out of a full cursor has made no more progress than any device in it.\<close>

lemma cursor_keeps_most:
  assumes "p \<in> set (cursorSnapshot st)" "q \<in> set (mk_contiguous st) - set (cursorSnapshot st)"
    and "fst q \<noteq> proto_key"
  shows "snd q \<le> snd p"
proof -
  let ?xs = "sort_by by_progress (mk_contiguous st)"
  have "q \<notin> set (take max_cursor_devices ?xs)"
    using assms(2,3) unfolding cursor_set by blast
  moreover have "q \<in> set (take max_cursor_devices ?xs @ drop max_cursor_devices ?xs)"
    using assms(2) by simp
  ultimately have "q \<in> set (drop max_cursor_devices ?xs)"
    by (metis Un_iff set_append)
  moreover have "p \<in> set (take max_cursor_devices ?xs)"
    using assms(1) unfolding cursor_set by blast
  moreover have "sorted (map (\<lambda>p. - int (snd p)) (take max_cursor_devices ?xs @ drop max_cursor_devices ?xs))"
    using progress.sort_by_sorted [of "mk_contiguous st"] by simp
  ultimately show ?thesis
    unfolding map_append sorted_append by auto
qed

end
