(* ===== verification/SyncLog.thy ===== *)
theory SyncLog
  imports SyncMarks
begin

text \<open>
  The accepted-entry log of \<open>createSyncEngine\<close>: per-device lanes kept in seq order by
  \<open>indexEntry\<close> and searched by \<open>firstSeqIndex\<close>, and the paged export \<open>exportDelta\<close> with its
  retention filter, dry-tail cache and \<open>skipped\<close> listing.
\<close>

section \<open>Lanes\<close>

text \<open>The binary search of \<open>firstSeqIndex\<close>; \<open>list[mid]?.seq ?? 0\<close> off the end reads 0.\<close>

function bsearch :: "(nat \<Rightarrow> bool) \<Rightarrow> changeEntry list \<Rightarrow> nat \<Rightarrow> nat \<Rightarrow> nat" where
  "bsearch test list lo hi =
     (if lo < hi then
        let mid = (lo + hi) div 2
        in if test (if mid < length list then ce_seq (list ! mid) else 0)
           then bsearch test list (mid + 1) hi else bsearch test list lo mid
      else lo)"
  by auto
termination
  by (relation "measure (\<lambda>(test, list, lo, hi). hi - lo)") auto

declare bsearch.simps [simp del]

definition firstSeqIndex :: "changeEntry list \<Rightarrow> (nat \<Rightarrow> bool) \<Rightarrow> nat" where
  "firstSeqIndex list test = bsearch test list 0 (length list)"

record logState =
  lg_lanes :: "(string, changeEntry list) jsmap"
  lg_seen :: "string set"
  lg_retiredTail :: "(string, nat \<times> int) jsmap"

definition lane :: "logState \<Rightarrow> string \<Rightarrow> changeEntry list" where
  "lane lg dev = map_get_or [] (lg_lanes lg) dev"

definition insert_lane :: "changeEntry \<Rightarrow> changeEntry list \<Rightarrow> changeEntry list" where
  "insert_lane e list =
     (if list = [] \<or> ce_seq (last list) < ce_seq e then list @ [e]
      else splice_insert (firstSeqIndex list (\<lambda>seq. seq < ce_seq e)) e list)"

definition indexEntry :: "changeEntry \<Rightarrow> logState \<Rightarrow> logState" where
  "indexEntry e lg =
     lg\<lparr>lg_seen := insert (entryKey e) (lg_seen lg),
        lg_retiredTail := AList.delete (ce_deviceId e) (lg_retiredTail lg),
        lg_lanes := AList.update (ce_deviceId e) (insert_lane e (lane lg (ce_deviceId e))) (lg_lanes lg)\<rparr>"

text \<open>Over a lane in seq order and a bound test, the search finds the boundary.\<close>

definition downset :: "(nat \<Rightarrow> bool) \<Rightarrow> bool" where
  "downset test = (\<forall>a b. test b \<longrightarrow> a \<le> b \<longrightarrow> test a)"

lemma bsearch_boundary:
  assumes "sorted (map ce_seq list)" "hi \<le> length list" "lo \<le> hi"
    and "downset test"
    and "\<forall>j<lo. test (ce_seq (list ! j))" "\<forall>j. hi \<le> j \<longrightarrow> j < length list \<longrightarrow> \<not> test (ce_seq (list ! j))"
  shows "(\<forall>j<bsearch test list lo hi. test (ce_seq (list ! j))) \<and>
         (\<forall>j. bsearch test list lo hi \<le> j \<longrightarrow> j < length list \<longrightarrow> \<not> test (ce_seq (list ! j))) \<and>
         bsearch test list lo hi \<le> length list"
  using assms
proof (induction test list lo hi rule: bsearch.induct)
  case (1 test list lo hi)
  show ?case
  proof (cases "lo < hi")
    case False
    then have eq: "bsearch test list lo hi = lo"
      by (simp add: bsearch.simps [of test list lo hi])
    have "lo = hi" using False 1(5) by simp
    then show ?thesis
      unfolding eq using 1(4,7,8) by simp
  next
    case True
    let ?mid = "(lo + hi) div 2"
    have mid: "lo \<le> ?mid" "?mid < hi" "?mid < length list"
      using True 1(4) by auto
    have mono: "i \<le> j \<Longrightarrow> j < length list \<Longrightarrow> ce_seq (list ! i) \<le> ce_seq (list ! j)" for i j
      using 1(3) by (auto simp: sorted_iff_nth_mono)
    show ?thesis
    proof (cases "test (ce_seq (list ! ?mid))")
      case True
      have below: "\<forall>j<?mid + 1. test (ce_seq (list ! j))"
      proof (intro allI impI)
        fix j assume "j < ?mid + 1"
        then have "ce_seq (list ! j) \<le> ce_seq (list ! ?mid)" using mono [of j ?mid] mid(3) by simp
        then show "test (ce_seq (list ! j))" using 1(6) True unfolding downset_def by blast
      qed
      have eq: "bsearch test list lo hi = bsearch test list (?mid + 1) hi"
        using \<open>lo < hi\<close> True mid(3) by (simp add: bsearch.simps [of test list lo hi] Let_def)
      have "test (if ?mid < length list then ce_seq (list ! ?mid) else 0)"
        using True mid(3) by simp
      from 1(1) [OF \<open>lo < hi\<close> refl this 1(3,4) _ 1(6) below 1(8)] mid(2)
      show ?thesis unfolding eq by simp
    next
      case False
      have above: "\<forall>j. ?mid \<le> j \<longrightarrow> j < length list \<longrightarrow> \<not> test (ce_seq (list ! j))"
        using False 1(6) mono [of ?mid] unfolding downset_def by blast
      have eq: "bsearch test list lo hi = bsearch test list lo ?mid"
        using \<open>lo < hi\<close> False mid(3) by (simp add: bsearch.simps [of test list lo hi] Let_def)
      have "\<not> test (if ?mid < length list then ce_seq (list ! ?mid) else 0)"
        using False mid(3) by simp
      from 1(2) [OF \<open>lo < hi\<close> refl this 1(3) _ mid(1) 1(6,7) above] mid(3)
      show ?thesis unfolding eq by simp
    qed
  qed
qed

lemma downset_less: "downset (\<lambda>s. s < n)"
  by (auto simp: downset_def)

lemma downset_le: "downset (\<lambda>s. s \<le> n)"
  by (auto simp: downset_def)

lemma firstSeqIndex_boundary:
  assumes "sorted (map ce_seq list)" "downset test"
  shows "take (firstSeqIndex list test) list = filter (\<lambda>e. test (ce_seq e)) list"
    and "drop (firstSeqIndex list test) list = filter (\<lambda>e. \<not> test (ce_seq e)) list"
    and "firstSeqIndex list test \<le> length list"
proof -
  let ?i = "firstSeqIndex list test"
  have b: "(\<forall>j<?i. test (ce_seq (list ! j))) \<and>
      (\<forall>j. ?i \<le> j \<longrightarrow> j < length list \<longrightarrow> \<not> test (ce_seq (list ! j))) \<and> ?i \<le> length list"
    unfolding firstSeqIndex_def
    by (rule bsearch_boundary [OF assms(1) order_refl]) (use assms(2) in auto)
  then show "?i \<le> length list" by blast
  have t: "\<forall>e\<in>set (take ?i list). test (ce_seq e)" "\<forall>e\<in>set (drop ?i list). \<not> test (ce_seq e)"
    using b by (auto simp: in_set_conv_nth)
  have "filter (\<lambda>e. test (ce_seq e)) (take ?i list @ drop ?i list) = take ?i list"
      "filter (\<lambda>e. \<not> test (ce_seq e)) (take ?i list @ drop ?i list) = drop ?i list"
    using t unfolding filter_append by (simp_all add: filter_id_conv filter_empty_conv)
  then show "take ?i list = filter (\<lambda>e. test (ce_seq e)) list"
      "drop ?i list = filter (\<lambda>e. \<not> test (ce_seq e)) list"
    by simp_all
qed

definition lanes_ok :: "logState \<Rightarrow> bool" where
  "lanes_ok lg =
     (\<forall>d. sorted (map ce_seq (lane lg d)) \<and> (\<forall>e\<in>set (lane lg d). ce_deviceId e = d))"

lemma sorted_filter_split:
  "sorted xs \<Longrightarrow> sorted (filter (\<lambda>x. x < (k::nat)) xs @ k # filter (\<lambda>x. \<not> x < k) xs)"
  by (auto simp: sorted_append sorted_wrt_filter)

lemma insert_lane_props:
  assumes "sorted (map ce_seq list)"
  shows "sorted (map ce_seq (insert_lane e list))" and "mset (insert_lane e list) = add_mset e (mset list)"
proof -
  show "mset (insert_lane e list) = add_mset e (mset list)"
    by (simp add: insert_lane_def)
  show "sorted (map ce_seq (insert_lane e list))"
  proof (cases "list = [] \<or> ce_seq (last list) < ce_seq e")
    case True
    then have "\<forall>x\<in>set list. ce_seq x \<le> ce_seq e"
      using assms by (cases list rule: rev_cases) (auto simp: sorted_append)
    with True assms show ?thesis
      by (simp add: insert_lane_def sorted_append)
  next
    case False
    note b = firstSeqIndex_boundary [OF assms downset_less, of "ce_seq e"]
    have "map ce_seq (insert_lane e list) =
        filter (\<lambda>x. x < ce_seq e) (map ce_seq list) @ ce_seq e # filter (\<lambda>x. \<not> x < ce_seq e) (map ce_seq list)"
      using False b by (simp add: insert_lane_def splice_insert_def filter_map comp_def)
    then show ?thesis
      using sorted_filter_split [OF assms] by simp
  qed
qed

lemma set_insert_lane: "sorted (map ce_seq list) \<Longrightarrow> set (insert_lane e list) = insert e (set list)"
  by (metis insert_lane_props(2) set_mset_add_mset_insert set_mset_mset)

lemma lane_indexEntry:
  "lane (indexEntry e lg) d = (if d = ce_deviceId e then insert_lane e (lane lg d) else lane lg d)"
  by (simp add: lane_def indexEntry_def)

lemma indexEntry_ok: "lanes_ok lg \<Longrightarrow> lanes_ok (indexEntry e lg)"
  by (simp add: lanes_ok_def lane_indexEntry insert_lane_props(1) set_insert_lane)

text \<open>Every accepted entry, whatever its device.\<close>

definition logged :: "logState \<Rightarrow> changeEntry set" where
  "logged lg = (\<Union>d. set (lane lg d))"

lemma logged_iff: "lanes_ok lg \<Longrightarrow> x \<in> logged lg \<longleftrightarrow> x \<in> set (lane lg (ce_deviceId x))"
  by (auto simp: logged_def lanes_ok_def)

lemma logged_indexEntry:
  assumes "lanes_ok lg"
  shows "logged (indexEntry e lg) = insert e (logged lg)"
proof (rule set_eqI)
  fix x :: changeEntry
  have "set (lane (indexEntry e lg) (ce_deviceId x)) =
      (if ce_deviceId x = ce_deviceId e then insert e (set (lane lg (ce_deviceId x)))
       else set (lane lg (ce_deviceId x)))"
    using assms by (simp add: lane_indexEntry lanes_ok_def set_insert_lane)
  then show "x \<in> logged (indexEntry e lg) \<longleftrightarrow> x \<in> insert e (logged lg)"
    unfolding insert_iff logged_iff [OF assms] logged_iff [OF indexEntry_ok [OF assms]] by auto
qed

section \<open>The paged export\<close>

definition PLAY_HISTORY_RETENTION_MS :: nat where
  "PLAY_HISTORY_RETENTION_MS = 180 * 24 * 60 * 60 * 1000"

text \<open>A play event beyond the retention window never ships.\<close>

definition is_retired :: "int \<Rightarrow> changeEntry \<Rightarrow> bool" where
  "is_retired retainedFloor e =
     (ce_kind e = PlayEvent \<and> \<not> ce_tombstone e \<and> isPlayEvent (ce_value e) \<and>
      int (nat_of_val (propOf (ce_value e) ''playedMs'')) < retainedFloor)"

record exportLane =
  ln_dev :: string
  ln_list :: "changeEntry list"
  ln_pos :: nat
  ln_head :: "changeEntry option"

datatype seekEnd = Found changeEntry | DryTail | RanOut

text \<open>The scan of \<open>seek\<close> over the rest of the lane: the new position, how it ended, and the
  seqs it noted as retired.\<close>

fun seek_scan :: "(nat \<times> int) option \<Rightarrow> int \<Rightarrow> changeEntry list \<Rightarrow> nat \<Rightarrow> nat list \<Rightarrow>
    nat \<times> seekEnd \<times> nat list" where
  "seek_scan dry retainedFloor [] pos noted = (pos, RanOut, noted)"
| "seek_scan dry retainedFloor (e # es) pos noted =
     (if (case dry of None \<Rightarrow> False
                    | Some (from, fl) \<Rightarrow> fl \<le> retainedFloor \<and> from \<le> ce_seq e)
      then (pos + length (e # es), DryTail, noted)
      else if is_retired retainedFloor e
      then seek_scan dry retainedFloor es (pos + 1) (noted @ [ce_seq e])
      else (pos + 1, Found e, noted))"

text \<open>What the export threads besides the lanes: the retired seqs per device and the cache.\<close>

record exportState =
  ex_retired :: "(string, nat list) jsmap"
  ex_tail :: "(string, nat \<times> int) jsmap"

definition seek :: "int \<Rightarrow> exportLane \<Rightarrow> exportState \<Rightarrow> exportLane \<times> exportState" where
  "seek retainedFloor la ex =
     (let start = ln_pos la; dev = ln_dev la;
          (pos, how, noted) = seek_scan (map_of (ex_tail ex) dev) retainedFloor
                                (drop start (ln_list la)) start [];
          ex1 = (if noted = [] then ex
                 else ex\<lparr>ex_retired := AList.update dev (map_get_or [] (ex_retired ex) dev @ noted)
                                          (ex_retired ex)\<rparr>)
      in case how of
           Found e \<Rightarrow> (la\<lparr>ln_pos := pos, ln_head := Some e\<rparr>, ex1)
         | DryTail \<Rightarrow> (la\<lparr>ln_pos := pos, ln_head := None\<rparr>, ex1)
         | RanOut \<Rightarrow>
             (la\<lparr>ln_pos := pos, ln_head := None\<rparr>,
              if start < length (ln_list la)
              then ex1\<lparr>ex_tail := AList.update dev (ce_seq (ln_list la ! start), retainedFloor) (ex_tail ex1)\<rparr>
              else ex1))"

definition since_mark :: "(string, nat) jsmap option \<Rightarrow> string \<Rightarrow> nat" where
  "since_mark since dev = (case since of None \<Rightarrow> 0 | Some c \<Rightarrow> map_get_or 0 c dev)"

text \<open>
  \<open>since[dev]\<close> for a device the cursor has no row for, named like a member every object inherits:
  the read yields that member, with which no number compares. A lane then starts at its first entry
  (seqs count from 1, so as from the mark 0), and its row of skipped seqs stays empty.
\<close>

definition reads_member :: "(string, nat) jsmap option \<Rightarrow> string \<Rightarrow> bool" where
  "reads_member since dev =
     (case since of None \<Rightarrow> False | Some c \<Rightarrow> map_of c dev = None \<and> dev \<in> set object_members)"

text \<open>The lanes with something above the requester's mark, each sought to its first head.\<close>

fun open_lanes :: "(string, nat) jsmap option \<Rightarrow> int \<Rightarrow> (string \<times> changeEntry list) list \<Rightarrow>
    exportState \<Rightarrow> exportLane list \<times> exportState" where
  "open_lanes since retainedFloor [] ex = ([], ex)"
| "open_lanes since retainedFloor ((dev, list) # rest) ex =
     (let mark = since_mark since dev; pos = firstSeqIndex list (\<lambda>seq. seq \<le> mark)
      in if pos < length list then
           let (la, ex1) = seek retainedFloor
                 \<lparr>ln_dev = dev, ln_list = list, ln_pos = pos, ln_head = None\<rparr> ex;
               (lns, ex2) = open_lanes since retainedFloor rest ex1
           in (la # lns, ex2)
         else open_lanes since retainedFloor rest ex)"

text \<open>The scan for the lane whose head is earliest in canonical order.\<close>

fun best_lane :: "exportLane list \<Rightarrow> nat \<Rightarrow> (nat \<times> changeEntry) option \<Rightarrow> (nat \<times> changeEntry) option" where
  "best_lane [] i best = best"
| "best_lane (la # lns) i best =
     best_lane lns (i + 1)
       (case ln_head la of
          None \<Rightarrow> best
        | Some h \<Rightarrow> (case best of
                       None \<Rightarrow> Some (i, h)
                     | Some (_, b) \<Rightarrow> if compareEntryTs h b < 0 then Some (i, h) else best))"

text \<open>The page loop, with the number of entries it may still add.\<close>

fun page_loop :: "int \<Rightarrow> nat \<Rightarrow> exportLane list \<Rightarrow> exportState \<Rightarrow> changeEntry list \<Rightarrow>
    changeEntry list \<times> exportLane list \<times> exportState" where
  "page_loop retainedFloor 0 lanes ex entries = (entries, lanes, ex)"
| "page_loop retainedFloor (Suc n) lanes ex entries =
     (case best_lane lanes 0 None of
        None \<Rightarrow> (entries, lanes, ex)
      | Some (i, head) \<Rightarrow>
          let (la, ex1) = seek retainedFloor (lanes ! i) ex
          in page_loop retainedFloor n (lanes[i := la]) ex1 (entries @ [head]))"

definition shipped_max :: "changeEntry list \<Rightarrow> (string, nat) jsmap" where
  "shipped_max entries =
     fold (\<lambda>e m. if map_get_or 0 m (ce_deviceId e) < ce_seq e
                 then AList.update (ce_deviceId e) (ce_seq e) m else m) entries []"

text \<open>The \<open>skipped\<close> row of one shipped device.\<close>

definition skipped_row :: "logState \<Rightarrow> markState \<Rightarrow> (string, nat) jsmap option \<Rightarrow>
    (string, nat list) jsmap \<Rightarrow> string \<Rightarrow> nat \<Rightarrow> nat list" where
  "skipped_row lg marks since retired dev shippedBound =
     (let mark = since_mark since dev;
          accounted = min shippedBound (map_get_or 0 (mk_contiguous marks) dev);
          list = lane lg dev;
          present = map ce_seq (takeWhile (\<lambda>e. ce_seq e \<le> accounted)
                      (drop (firstSeqIndex list (\<lambda>seq. seq \<le> mark)) list));
          holes = take max_delta_entries (filter (\<lambda>seq. seq \<notin> set present) [mark + 1..<accounted + 1]);
          late = filter (\<lambda>seq. mark < seq \<and> seq \<le> shippedBound) (map_get_or [] retired dev)
      in if reads_member since dev then [] else take max_delta_entries (sort (remdups (holes @ late))))"

record syncDelta =
  sd_sender :: string
  sd_cursor :: "(string, nat) jsmap"
  sd_entries :: "changeEntry list"
  sd_more :: bool
  sd_skipped :: skips

text \<open>The rows are collected in an object literal, which loses the key \<open>__proto__\<close>.\<close>

definition skipped_map :: "logState \<Rightarrow> markState \<Rightarrow> (string, nat) jsmap option \<Rightarrow>
    (string, nat list) jsmap \<Rightarrow> (string, nat) jsmap \<Rightarrow> skips" where
  "skipped_map lg marks since retired shipped =
     filter (\<lambda>p. snd p \<noteq> [] \<and> fst p \<noteq> proto_key)
       (map (\<lambda>(dev, b). (dev, skipped_row lg marks since retired dev b)) shipped)"

definition exportDelta :: "string \<Rightarrow> (string, nat) jsmap option \<Rightarrow> nat \<Rightarrow> nat \<Rightarrow> markState \<Rightarrow>
    logState \<Rightarrow> syncDelta \<times> logState" where
  "exportDelta deviceId since limit at_ms marks lg =
     (let bound = min limit max_delta_entries;
          retainedFloor = int at_ms - int PLAY_HISTORY_RETENTION_MS;
          (lanes0, ex0) = open_lanes since retainedFloor (lg_lanes lg)
                            \<lparr>ex_retired = [], ex_tail = lg_retiredTail lg\<rparr>;
          (entries, lanes, ex) = page_loop retainedFloor bound lanes0 ex0 []
      in (\<lparr>sd_sender = deviceId, sd_cursor = cursorSnapshot marks, sd_entries = entries,
           sd_more = list_ex (\<lambda>la. ln_head la \<noteq> None) lanes,
           sd_skipped = skipped_map lg marks since (ex_retired ex) (shipped_max entries)\<rparr>,
          lg\<lparr>lg_retiredTail := ex_tail ex\<rparr>))"

end
