(* ===== verification/SyncExport.thy ===== *)
theory SyncExport
  imports SyncLog
begin

text \<open>
  What a page of \<open>exportDelta\<close> holds. Each lane is read as a prefix of the entries above the
  requester's mark: what is not retired ships, in order, what is retired is noted, and what
  the dry-tail cache lets the scan skip is retired. From this: nothing retired, foreign or
  already held ships; a final page leaves nothing behind; a listed \<open>skipped\<close> seq never names
  an entry that could ship; and a receiver that folds the page has no gap left up to what the
  page ships.
\<close>

section \<open>Lanes in strict seq order\<close>

text \<open>A device mints each seq once, so a lane holds one entry per seq.\<close>

definition lanes_strict :: "logState \<Rightarrow> bool" where
  "lanes_strict lg =
     (distinct (map fst (lg_lanes lg)) \<and>
      (\<forall>d. sorted_wrt (<) (map ce_seq (lane lg d)) \<and> (\<forall>e\<in>set (lane lg d). ce_deviceId e = d)))"

definition cache_ok :: "logState \<Rightarrow> (string, nat \<times> int) jsmap \<Rightarrow> bool" where
  "cache_ok lg tails =
     (\<forall>dev from fl. map_of tails dev = Some (from, fl) \<longrightarrow>
        (\<forall>e\<in>set (lane lg dev). from \<le> ce_seq e \<longrightarrow> is_retired fl e))"

lemma is_retired_mono: "is_retired fl e \<Longrightarrow> fl \<le> fl' \<Longrightarrow> is_retired fl' e"
  by (auto simp: is_retired_def)

lemma strict_sorted_map: "sorted_wrt (<) (map ce_seq xs) \<Longrightarrow> sorted (map ce_seq xs)"
  by (simp add: strict_sorted_iff)

lemma lanes_strict_ok: "lanes_strict lg \<Longrightarrow> lanes_ok lg"
  by (simp add: lanes_strict_def lanes_ok_def strict_sorted_map)

lemma seek_scan_props:
  assumes "seek_scan dry fl rest pos noted = (pos', how, noted')"
    and "sorted (map ce_seq rest)"
    and "\<forall>from f. dry = Some (from, f) \<and> f \<le> fl \<longrightarrow> (\<forall>e\<in>set rest. from \<le> ce_seq e \<longrightarrow> is_retired fl e)"
  shows "\<exists>seg rest'. rest = seg @ rest' \<and> noted' = noted @ map ce_seq (filter (is_retired fl) seg) \<and>
     (case how of
        Found e \<Rightarrow> filter (\<lambda>e. \<not> is_retired fl e) seg = [e] \<and> pos' = pos + length seg
      | DryTail \<Rightarrow> filter (\<lambda>e. \<not> is_retired fl e) seg = [] \<and> (\<forall>e\<in>set rest'. is_retired fl e)
      | RanOut \<Rightarrow> filter (\<lambda>e. \<not> is_retired fl e) seg = [] \<and> rest' = [])"
  using assms
proof (induction dry fl rest pos noted rule: seek_scan.induct)
  case (1 dry fl pos noted)
  then show ?case by auto
next
  case (2 dry fl e es pos noted)
  let ?hit = "case dry of None \<Rightarrow> False | Some (from, f) \<Rightarrow> f \<le> fl \<and> from \<le> ce_seq e"
  show ?case
  proof (cases ?hit)
    case True
    then obtain lo f where d: "dry = Some (lo, f)" "f \<le> fl" "lo \<le> ce_seq e"
      by (auto split: option.splits)
    have "is_retired fl x" if "x \<in> set (e # es)" for x
    proof -
      have "lo \<le> ce_seq x"
        using that d(3) 2(3) by auto
      then show ?thesis using 2(4) d that by blast
    qed
    then show ?thesis
      using True 2(2) by (intro exI [of _ "[]"] exI [of _ "e # es"]) auto
  next
    case False
    show ?thesis
    proof (cases "is_retired fl e")
      case True
      have "seek_scan dry fl es (pos + 1) (noted @ [ce_seq e]) = (pos', how, noted')"
        using 2(2) False True by simp
      from 2(1) [OF False True this] obtain seg rest' where
        "es = seg @ rest' \<and> noted' = (noted @ [ce_seq e]) @ map ce_seq (filter (is_retired fl) seg) \<and>
         (case how of
            Found e \<Rightarrow> filter (\<lambda>e. \<not> is_retired fl e) seg = [e] \<and> pos' = pos + 1 + length seg
          | DryTail \<Rightarrow> filter (\<lambda>e. \<not> is_retired fl e) seg = [] \<and> (\<forall>e\<in>set rest'. is_retired fl e)
          | RanOut \<Rightarrow> filter (\<lambda>e. \<not> is_retired fl e) seg = [] \<and> rest' = [])"
        using 2(3,4) by auto
      then show ?thesis
        using True by (intro exI [of _ "e # seg"] exI [of _ rest']) (auto split: seekEnd.splits)
    next
      case nret: False
      then show ?thesis
        using 2(2) False by (intro exI [of _ "[e]"] exI [of _ es]) auto
    qed
  qed
qed

section \<open>One lane of a page\<close>

abbreviation opt_list :: "'a option \<Rightarrow> 'a list" where
  "opt_list x \<equiv> (case x of None \<Rightarrow> [] | Some y \<Rightarrow> [y])"

definition lane_good ::
  "int \<Rightarrow> changeEntry list \<Rightarrow> changeEntry list \<Rightarrow> nat list \<Rightarrow> exportLane \<Rightarrow> bool" where
  "lane_good fl ahead shipped retired la =
     (\<exists>seg rest. ahead = seg @ rest \<and>
        filter (\<lambda>e. \<not> is_retired fl e) seg = shipped @ opt_list (ln_head la) \<and>
        retired = map ce_seq (filter (is_retired fl) seg) \<and>
        (ln_head la \<noteq> None \<longrightarrow> rest = drop (ln_pos la) (ln_list la)) \<and>
        (ln_head la = None \<longrightarrow> (\<forall>e\<in>set rest. is_retired fl e)))"

lemma seek_props:
  assumes s: "seek fl la ex = (la', ex')" and strict: "lanes_strict lg" and cache: "cache_ok lg (ex_tail ex)"
    and list: "ln_list la = lane lg (ln_dev la)"
  shows "ln_dev la' = ln_dev la \<and> ln_list la' = ln_list la \<and> cache_ok lg (ex_tail ex') \<and>
    (\<forall>d. d \<noteq> ln_dev la \<longrightarrow> map_get_or [] (ex_retired ex') d = map_get_or [] (ex_retired ex) d) \<and>
    (\<exists>seg rest. drop (ln_pos la) (ln_list la) = seg @ rest \<and>
       map_get_or [] (ex_retired ex') (ln_dev la) =
         map_get_or [] (ex_retired ex) (ln_dev la) @ map ce_seq (filter (is_retired fl) seg) \<and>
       filter (\<lambda>e. \<not> is_retired fl e) seg = opt_list (ln_head la') \<and>
       (ln_head la' \<noteq> None \<longrightarrow> rest = drop (ln_pos la') (ln_list la)) \<and>
       (ln_head la' = None \<longrightarrow> (\<forall>e\<in>set rest. is_retired fl e)))"
proof -
  let ?dev = "ln_dev la" and ?start = "ln_pos la" and ?list = "ln_list la"
  obtain pos how noted where scan:
    "seek_scan (map_of (ex_tail ex) ?dev) fl (drop ?start ?list) ?start [] = (pos, how, noted)"
    by (metis prod_cases3)
  have sorted: "sorted (map ce_seq (drop ?start ?list))" "sorted_wrt (<) (map ce_seq ?list)"
    using strict list by (auto simp: lanes_strict_def strict_sorted_map simp flip: drop_map intro: sorted_wrt_drop)
  have dry: "\<forall>from f. map_of (ex_tail ex) ?dev = Some (from, f) \<and> f \<le> fl \<longrightarrow>
      (\<forall>e\<in>set (drop ?start ?list). from \<le> ce_seq e \<longrightarrow> is_retired fl e)"
    using cache list unfolding cache_ok_def by (metis in_set_dropD is_retired_mono)
  obtain seg rest where seg: "drop ?start ?list = seg @ rest" "noted = map ce_seq (filter (is_retired fl) seg)"
    and how: "case how of
        Found e \<Rightarrow> filter (\<lambda>e. \<not> is_retired fl e) seg = [e] \<and> pos = ?start + length seg
      | DryTail \<Rightarrow> filter (\<lambda>e. \<not> is_retired fl e) seg = [] \<and> (\<forall>e\<in>set rest. is_retired fl e)
      | RanOut \<Rightarrow> filter (\<lambda>e. \<not> is_retired fl e) seg = [] \<and> rest = []"
    using seek_scan_props [OF scan sorted(1) dry] by auto
  have ret: "map_get_or [] (ex_retired ex') ?dev = map_get_or [] (ex_retired ex) ?dev @ noted"
      "d \<noteq> ?dev \<Longrightarrow> map_get_or [] (ex_retired ex') d = map_get_or [] (ex_retired ex) d" for d
    using s scan by (auto simp: seek_def Let_def split: seekEnd.splits if_splits)
  have same: "ln_dev la' = ?dev" "ln_list la' = ?list"
    using s scan by (auto simp: seek_def Let_def split: seekEnd.splits)
  have head: "ln_head la' = (case how of Found e \<Rightarrow> Some e | _ \<Rightarrow> None)"
    and pos: "how = Found e \<Longrightarrow> ln_pos la' = pos" for e
    using s scan by (auto simp: seek_def Let_def split: seekEnd.splits)
  have "cache_ok lg (ex_tail ex')"
  proof (cases "how = RanOut \<and> ?start < length ?list")
    case False
    then have "ex_tail ex' = ex_tail ex"
      using s scan by (auto simp: seek_def Let_def split: seekEnd.splits if_splits)
    then show ?thesis using cache by simp
  next
    case True
    then have tail: "ex_tail ex' = AList.update ?dev (ce_seq (?list ! ?start), fl) (ex_tail ex)"
      using s scan by (auto simp: seek_def Let_def split: if_splits)
    have all: "is_retired fl e" if e: "e \<in> set ?list" "ce_seq (?list ! ?start) \<le> ce_seq e" for e
    proof -
      obtain i where i: "i < length ?list" "e = ?list ! i"
        using e(1) by (metis in_set_conv_nth)
      have "?start \<le> i"
      proof (rule ccontr)
        assume "\<not> ?start \<le> i"
        then have "ce_seq (?list ! i) < ce_seq (?list ! ?start)"
          using sorted(2) True sorted_wrt_nth_less [of "(<)" "map ce_seq ?list" i ?start] by simp
        with e(2) i(2) show False by simp
      qed
      then have "drop ?start ?list ! (i - ?start) = e" "i - ?start < length (drop ?start ?list)"
        using i by simp_all
      then have "e \<in> set (drop ?start ?list)"
        by (metis nth_mem)
      moreover have "filter (\<lambda>e. \<not> is_retired fl e) (drop ?start ?list) = []"
        using how True seg(1) by simp
      ultimately show ?thesis by (metis (mono_tags) filter_empty_conv)
    qed
    show ?thesis
      unfolding cache_ok_def
    proof (intro allI impI ballI)
      fix dev lo f e
      assume a: "map_of (ex_tail ex') dev = Some (lo, f)" "e \<in> set (lane lg dev)" "lo \<le> ce_seq e"
      show "is_retired f e"
      proof (cases "dev = ?dev")
        case True
        then show ?thesis using a all list by (simp add: tail)
      next
        case False
        then show ?thesis using a cache by (auto simp: tail cache_ok_def)
      qed
    qed
  qed
  moreover have "ln_head la' \<noteq> None \<longrightarrow> rest = drop (ln_pos la') ?list"
  proof
    assume "ln_head la' \<noteq> None"
    then obtain e where e: "how = Found e" using head by (cases how) auto
    then have "ln_pos la' = ?start + length seg" using pos how by simp
    then show "rest = drop (ln_pos la') ?list"
      using seg(1) by (metis add.commute append_eq_conv_conj drop_drop)
  qed
  moreover have "filter (\<lambda>e. \<not> is_retired fl e) seg = opt_list (ln_head la')"
      "ln_head la' = None \<longrightarrow> (\<forall>e\<in>set rest. is_retired fl e)"
    using how head by (auto split: seekEnd.splits)
  ultimately show ?thesis
    using ret same seg by (intro conjI exI [of _ seg] exI [of _ rest]) simp_all
qed

text \<open>Shipping the head and seeking on keeps the lane good.\<close>

lemma lane_good_ship:
  assumes good: "lane_good fl ahead shipped (map_get_or [] (ex_retired ex) (ln_dev la)) la"
    and head: "ln_head la = Some h"
    and s: "seek fl la ex = (la', ex')" "lanes_strict lg" "cache_ok lg (ex_tail ex)"
      "ln_list la = lane lg (ln_dev la)"
  shows "lane_good fl ahead (shipped @ [h]) (map_get_or [] (ex_retired ex') (ln_dev la)) la'"
proof -
  obtain seg rest where seg: "ahead = seg @ rest" "filter (\<lambda>e. \<not> is_retired fl e) seg = shipped @ [h]"
      "map_get_or [] (ex_retired ex) (ln_dev la) = map ce_seq (filter (is_retired fl) seg)"
      "rest = drop (ln_pos la) (ln_list la)"
    using good head by (auto simp: lane_good_def)
  obtain seg' rest' where seg': "drop (ln_pos la) (ln_list la) = seg' @ rest'"
      "map_get_or [] (ex_retired ex') (ln_dev la) =
         map_get_or [] (ex_retired ex) (ln_dev la) @ map ce_seq (filter (is_retired fl) seg')"
      "filter (\<lambda>e. \<not> is_retired fl e) seg' = opt_list (ln_head la')"
      "ln_head la' \<noteq> None \<longrightarrow> rest' = drop (ln_pos la') (ln_list la)"
      "ln_head la' = None \<longrightarrow> (\<forall>e\<in>set rest'. is_retired fl e)" "ln_list la' = ln_list la"
    using seek_props [OF s] by (elim conjE exE) (rule that, assumption+)
  show ?thesis
    unfolding lane_good_def
    by (intro exI [of _ "seg @ seg'"] exI [of _ rest']) (use seg seg' in simp)
qed

lemma lane_good_open:
  assumes s: "seek fl la ex = (la', ex')" "lanes_strict lg" "cache_ok lg (ex_tail ex)"
      "ln_list la = lane lg (ln_dev la)"
    and fresh: "map_get_or [] (ex_retired ex) (ln_dev la) = []"
  shows "lane_good fl (drop (ln_pos la) (ln_list la)) [] (map_get_or [] (ex_retired ex') (ln_dev la)) la'"
proof -
  obtain seg' rest' where seg': "drop (ln_pos la) (ln_list la) = seg' @ rest'"
      "map_get_or [] (ex_retired ex') (ln_dev la) =
         map_get_or [] (ex_retired ex) (ln_dev la) @ map ce_seq (filter (is_retired fl) seg')"
      "filter (\<lambda>e. \<not> is_retired fl e) seg' = opt_list (ln_head la')"
      "ln_head la' \<noteq> None \<longrightarrow> rest' = drop (ln_pos la') (ln_list la)"
      "ln_head la' = None \<longrightarrow> (\<forall>e\<in>set rest'. is_retired fl e)" "ln_list la' = ln_list la"
    using seek_props [OF s] by (elim conjE exE) (rule that, assumption+)
  show ?thesis
    unfolding lane_good_def
    by (intro exI [of _ seg'] exI [of _ rest']) (use seg' fresh in simp)
qed

section \<open>The whole page\<close>

text \<open>The entries of a device above the requester's mark.\<close>

definition above_mark :: "logState \<Rightarrow> (string, nat) jsmap option \<Rightarrow> string \<Rightarrow> changeEntry list" where
  "above_mark lg since d = filter (\<lambda>e. \<not> ce_seq e \<le> since_mark since d) (lane lg d)"

definition of_device :: "string \<Rightarrow> changeEntry list \<Rightarrow> changeEntry list" where
  "of_device d es = filter (\<lambda>e. ce_deviceId e = d) es"

definition page_inv :: "logState \<Rightarrow> (string, nat) jsmap option \<Rightarrow> int \<Rightarrow> exportLane list \<Rightarrow>
    exportState \<Rightarrow> changeEntry list \<Rightarrow> bool" where
  "page_inv lg since fl lanes ex entries =
     (distinct (map ln_dev lanes) \<and> cache_ok lg (ex_tail ex) \<and>
      (\<forall>la\<in>set lanes. ln_list la = lane lg (ln_dev la) \<and>
         lane_good fl (above_mark lg since (ln_dev la)) (of_device (ln_dev la) entries)
           (map_get_or [] (ex_retired ex) (ln_dev la)) la) \<and>
      (\<forall>d. d \<notin> ln_dev ` set lanes \<longrightarrow>
         of_device d entries = [] \<and> map_get_or [] (ex_retired ex) d = [] \<and> above_mark lg since d = []))"

lemma open_lanes_inv:
  assumes "lanes_strict lg" "set lss \<subseteq> set (lg_lanes lg)" "distinct (map fst lss)"
    and "open_lanes since fl lss ex = (lanes, ex')" "cache_ok lg (ex_tail ex)"
    and "\<forall>d\<in>fst ` set lss. map_get_or [] (ex_retired ex) d = []"
  shows "distinct (map ln_dev lanes) \<and> ln_dev ` set lanes \<subseteq> fst ` set lss \<and>
     cache_ok lg (ex_tail ex') \<and>
     (\<forall>d. d \<notin> fst ` set lss \<longrightarrow> map_get_or [] (ex_retired ex') d = map_get_or [] (ex_retired ex) d) \<and>
     (\<forall>la\<in>set lanes. ln_list la = lane lg (ln_dev la) \<and>
        lane_good fl (above_mark lg since (ln_dev la)) [] (map_get_or [] (ex_retired ex') (ln_dev la)) la) \<and>
     (\<forall>d\<in>fst ` set lss - ln_dev ` set lanes.
        above_mark lg since d = [] \<and> map_get_or [] (ex_retired ex') d = [])"
  using assms(2-)
proof (induction lss arbitrary: ex lanes)
  case Nil
  then show ?case by auto
next
  case (Cons p lss)
  obtain dev list where p: "p = (dev, list)" by force
  have list: "list = lane lg dev"
    using Cons.prems(1) assms(1) p by (auto simp: lane_def lanes_strict_def map_get_or_def)
  let ?mark = "since_mark since dev" and ?pos = "firstSeqIndex list (\<lambda>seq. seq \<le> since_mark since dev)"
  have sorted: "sorted (map ce_seq list)"
    using assms(1) list by (simp add: lanes_strict_def strict_sorted_map)
  have ahead: "drop ?pos list = above_mark lg since dev"
    using firstSeqIndex_boundary(2) [OF sorted downset_le] list by (simp add: above_mark_def)
  show ?case
  proof (cases "?pos < length list")
    case False
    then have "open_lanes since fl lss ex = (lanes, ex')"
      using Cons.prems(3) p by (simp add: Let_def)
    moreover have "above_mark lg since dev = []"
      using False ahead by simp
    ultimately show ?thesis
      using Cons.IH [of ex lanes] Cons.prems p by auto
  next
    case True
    define la0 where "la0 = \<lparr>ln_dev = dev, ln_list = list, ln_pos = ?pos, ln_head = None\<rparr>"
    obtain la ex1 where sk: "seek fl la0 ex = (la, ex1)" by force
    obtain lns where rest: "open_lanes since fl lss ex1 = (lns, ex')" "lanes = la # lns"
      using Cons.prems(3) True p sk by (auto simp: Let_def la0_def split: prod.splits)
    have la0: "ln_dev la0 = dev" "ln_list la0 = list" "ln_pos la0 = ?pos" "ln_list la0 = lane lg (ln_dev la0)"
      using list by (simp_all add: la0_def)
    note sp = seek_props [OF sk assms(1) Cons.prems(4) la0(4), unfolded la0(1,2)]
    have fresh: "map_get_or [] (ex_retired ex) (ln_dev la0) = []"
      using Cons.prems(5) p la0(1) by simp
    have good: "lane_good fl (above_mark lg since dev) [] (map_get_or [] (ex_retired ex1) dev) la"
      using lane_good_open [OF sk assms(1) Cons.prems(4) la0(4) fresh] ahead by (simp add: la0)
    have dev: "dev \<notin> fst ` set lss" and ndist: "distinct (map fst lss)"
      using Cons.prems(2) p by auto
    have clear: "\<forall>d\<in>fst ` set lss. map_get_or [] (ex_retired ex1) d = []"
    proof
      fix d assume "d \<in> fst ` set lss"
      then have "d \<noteq> dev" "map_get_or [] (ex_retired ex) d = []"
        using dev Cons.prems(5) by auto
      then show "map_get_or [] (ex_retired ex1) d = []" using sp by simp
    qed
    have "set lss \<subseteq> set (lg_lanes lg)" "cache_ok lg (ex_tail ex1)"
      using Cons.prems(1) sp by auto
    note ih = Cons.IH [OF this(1) ndist rest(1) this(2) clear]
    have ret: "map_get_or [] (ex_retired ex') dev = map_get_or [] (ex_retired ex1) dev"
      using ih dev by blast
    have la: "ln_dev la = dev" "ln_list la = lane lg dev"
      using sp list by simp_all
    show ?thesis
    proof (intro conjI)
      show "distinct (map ln_dev lanes)" using ih rest(2) la dev by auto
      show "ln_dev ` set lanes \<subseteq> fst ` set (p # lss)" using ih rest(2) la p by auto
      show "cache_ok lg (ex_tail ex')" using ih by blast
      show "\<forall>d. d \<notin> fst ` set (p # lss) \<longrightarrow> map_get_or [] (ex_retired ex') d = map_get_or [] (ex_retired ex) d"
        using ih sp p by simp
      show "\<forall>la\<in>set lanes. ln_list la = lane lg (ln_dev la) \<and>
          lane_good fl (above_mark lg since (ln_dev la)) [] (map_get_or [] (ex_retired ex') (ln_dev la)) la"
        using ih rest(2) la good ret by simp
      show "\<forall>d\<in>fst ` set (p # lss) - ln_dev ` set lanes.
          above_mark lg since d = [] \<and> map_get_or [] (ex_retired ex') d = []"
        using ih rest(2) la p by auto
    qed
  qed
qed

lemma best_lane_props:
  assumes "best_lane lns i best = r"
  shows "(r = best \<or> (\<exists>j h. r = Some (i + j, h) \<and> j < length lns \<and> ln_head (lns ! j) = Some h)) \<and>
    (\<forall>la\<in>set lns. \<forall>h'. ln_head la = Some h' \<longrightarrow> (\<exists>j h. r = Some (j, h) \<and> entry_ts h \<le> entry_ts h')) \<and>
    (\<forall>k b. best = Some (k, b) \<longrightarrow> (\<exists>j h. r = Some (j, h) \<and> entry_ts h \<le> entry_ts b))"
  using assms
proof (induction lns i best rule: best_lane.induct)
  case (1 i best)
  then show ?case by auto
next
  case (2 la lns i best)
  define best' where "best' = (case ln_head la of None \<Rightarrow> best
      | Some h \<Rightarrow> (case best of None \<Rightarrow> Some (i, h)
                   | Some (_, b) \<Rightarrow> if compareEntryTs h b < 0 then Some (i, h) else best))"
  have r: "best_lane lns (i + 1) best' = r"
    using 2(2) by (simp add: best'_def)
  note ih = 2(1) [folded best'_def, OF r]
  have old: "\<exists>j h. best' = Some (j, h) \<and> entry_ts h \<le> entry_ts b" if "best = Some (k, b)" for k b
    using that by (auto simp: best'_def entry_cmp.cmp_neg less_imp_le split: option.splits)
  have new: "\<exists>j h. best' = Some (j, h) \<and> entry_ts h \<le> entry_ts h'" if "ln_head la = Some h'" for h'
    using that by (auto simp: best'_def entry_cmp.cmp_neg not_less split: option.splits)
  have from_best': "\<exists>j h. r = Some (j, h) \<and> entry_ts h \<le> t"
    if cur: "\<exists>j h. best' = Some (j, h) \<and> entry_ts h \<le> t" for t
  proof -
    obtain k b where b: "best' = Some (k, b)" "entry_ts b \<le> t" using cur by blast
    obtain j h where "r = Some (j, h)" "entry_ts h \<le> entry_ts b"
      using ih b(1) by blast
    with b(2) show ?thesis by (intro exI [of _ j] exI [of _ h]) simp
  qed
  have src: "best' = best \<or> (\<exists>h. best' = Some (i, h) \<and> ln_head la = Some h)"
    by (auto simp: best'_def split: option.splits)
  have one: "r = best \<or> (\<exists>j h. r = Some (i + j, h) \<and> j < length (la # lns) \<and> ln_head ((la # lns) ! j) = Some h)"
  proof (cases "r = best'")
    case True
    then show ?thesis
      using src by (elim disjE exE conjE) (simp, rule disjI2, rule exI [of _ 0], simp)
  next
    case False
    then obtain j h where "r = Some (i + 1 + j, h)" "j < length lns" "ln_head (lns ! j) = Some h"
      using ih by blast
    then show ?thesis by (intro disjI2 exI [of _ "Suc j"] exI [of _ h]) simp
  qed
  moreover have "\<exists>j h. r = Some (j, h) \<and> entry_ts h \<le> entry_ts h'"
    if "la' \<in> set (la # lns)" "ln_head la' = Some h'" for la' h'
    using that ih from_best' [OF new] by auto
  moreover have "\<exists>j h. r = Some (j, h) \<and> entry_ts h \<le> entry_ts b" if "best = Some (k, b)" for k b
    using from_best' [OF old [OF that]] .
  ultimately show ?case by blast
qed

definition stamped :: "logState \<Rightarrow> bool" where
  "stamped lg = (\<forall>d. sorted (map entry_ts (lane lg d)))"

text \<open>The page so far is in canonical order, and no head is due before it.\<close>

definition merged_inv :: "logState \<Rightarrow> exportLane list \<Rightarrow> changeEntry list \<Rightarrow> bool" where
  "merged_inv lg lanes entries =
     (stamped lg \<longrightarrow> sorted (map entry_ts entries) \<and>
        (\<forall>la\<in>set lanes. \<forall>h. ln_head la = Some h \<longrightarrow> (\<forall>e\<in>set entries. entry_ts e \<le> entry_ts h)))"

lemma lane_good_head:
  assumes "lane_good fl (above_mark lg since d) shipped retired la" "ln_head la = Some h"
  shows "h \<in> set (lane lg d)" "\<not> is_retired fl h" "since_mark since d < ce_seq h"
    "stamped lg \<Longrightarrow> sorted (map entry_ts (shipped @ [h]))"
proof -
  obtain seg rest where seg: "above_mark lg since d = seg @ rest"
      "filter (\<lambda>e. \<not> is_retired fl e) seg = shipped @ [h]"
    using assms by (auto simp: lane_good_def)
  then have "h \<in> set (filter (\<lambda>e. \<not> is_retired fl e) seg)" by simp
  then have "h \<in> set seg" "\<not> is_retired fl h" by simp_all
  moreover have "set seg \<subseteq> set (above_mark lg since d)" using seg(1) by simp
  ultimately show "h \<in> set (lane lg d)" "\<not> is_retired fl h" "since_mark since d < ce_seq h"
    by (auto simp: above_mark_def)
  assume "stamped lg"
  then have "sorted (map entry_ts (above_mark lg since d))"
    by (simp add: stamped_def above_mark_def sorted_filter)
  then have "sorted (map entry_ts (filter (\<lambda>e. \<not> is_retired fl e) seg))"
    by (simp add: seg(1) sorted_append sorted_filter)
  then show "sorted (map entry_ts (shipped @ [h]))" by (simp only: seg(2))
qed

lemma page_step:
  assumes inv: "page_inv lg since fl lanes ex entries" "merged_inv lg lanes entries" and strict: "lanes_strict lg"
    and best: "best_lane lanes 0 None = Some (i, h)" and sk: "seek fl (lanes ! i) ex = (la', ex')"
  shows "page_inv lg since fl (lanes[i := la']) ex' (entries @ [h])"
    and "merged_inv lg (lanes[i := la']) (entries @ [h])"
proof -
  have i: "i < length lanes" "ln_head (lanes ! i) = Some h"
    and least: "\<forall>la\<in>set lanes. \<forall>h'. ln_head la = Some h' \<longrightarrow> entry_ts h \<le> entry_ts h'"
    using best_lane_props [OF best] by auto
  let ?la = "lanes ! i" and ?d = "ln_dev (lanes ! i)"
  have mem: "?la \<in> set lanes" using i(1) by simp
  have good: "lane_good fl (above_mark lg since ?d) (of_device ?d entries) (map_get_or [] (ex_retired ex) ?d) ?la"
    and list: "ln_list ?la = lane lg ?d" and cache: "cache_ok lg (ex_tail ex)"
    and dist: "distinct (map ln_dev lanes)"
    using inv(1) mem by (auto simp: page_inv_def)
  have sp: "ln_dev la' = ?d \<and> ln_list la' = ln_list ?la \<and> cache_ok lg (ex_tail ex') \<and>
      (\<forall>d. d \<noteq> ?d \<longrightarrow> map_get_or [] (ex_retired ex') d = map_get_or [] (ex_retired ex) d)"
    using seek_props [OF sk strict cache list] by (elim conjE) (intro conjI; assumption)
  have hd: "ce_deviceId h = ?d"
    using lane_good_head(1) [OF good i(2)] strict by (auto simp: lanes_strict_def)
  have good': "lane_good fl (above_mark lg since ?d) (of_device ?d entries @ [h]) (map_get_or [] (ex_retired ex') ?d) la'"
    by (rule lane_good_ship [OF good i(2) sk strict cache list])
  have devs: "map ln_dev (lanes[i := la']) = map ln_dev lanes"
    using list_update_id [of "map ln_dev lanes" i] i(1) sp by (simp add: map_update)
  have other: "la \<in> set lanes \<and> ln_dev la \<noteq> ?d" if m: "la \<in> set (lanes[i := la'])" "la \<noteq> la'" for la
  proof -
    obtain j where j: "j < length lanes" "j \<noteq> i" "la = lanes ! j"
      using m by (metis in_set_conv_nth length_list_update nth_list_update_eq nth_list_update_neq)
    then have "ln_dev la \<noteq> ?d"
      using dist i(1) nth_eq_iff_index_eq [of "map ln_dev lanes" j i] by simp
    with j show ?thesis by simp
  qed
  have dev_other: "of_device d (entries @ [h]) = of_device d entries" if "d \<noteq> ?d" for d
    using that hd by (simp add: of_device_def)
  have "ln_list la = lane lg (ln_dev la) \<and>
      lane_good fl (above_mark lg since (ln_dev la)) (of_device (ln_dev la) (entries @ [h]))
        (map_get_or [] (ex_retired ex') (ln_dev la)) la"
    if m: "la \<in> set (lanes[i := la'])" for la
  proof (cases "la = la'")
    case True
    then show ?thesis using good' sp hd list by (simp add: of_device_def)
  next
    case False
    from other [OF m False] show ?thesis
      using inv(1) sp dev_other by (simp add: page_inv_def)
  qed
  moreover have "of_device d (entries @ [h]) = [] \<and> map_get_or [] (ex_retired ex') d = [] \<and>
      above_mark lg since d = []"
    if "d \<notin> ln_dev ` set (lanes[i := la'])" for d
  proof -
    have "d \<notin> ln_dev ` set lanes"
      using that devs by (metis set_map)
    then have "d \<noteq> ?d" "of_device d entries = []" "map_get_or [] (ex_retired ex) d = []"
        "above_mark lg since d = []"
      using inv(1) mem by (auto simp: page_inv_def)
    then show ?thesis using dev_other sp by simp
  qed
  ultimately show "page_inv lg since fl (lanes[i := la']) ex' (entries @ [h])"
    using dist devs sp by (simp add: page_inv_def)
  show "merged_inv lg (lanes[i := la']) (entries @ [h])"
    unfolding merged_inv_def
  proof (intro impI conjI ballI allI)
    assume st: "stamped lg"
    then have m: "sorted (map entry_ts entries)" "\<forall>e\<in>set entries. entry_ts e \<le> entry_ts h"
      using inv(2) mem i(2) by (auto simp: merged_inv_def)
    then show "sorted (map entry_ts (entries @ [h]))" by (auto simp: sorted_append)
    fix la k e assume la: "la \<in> set (lanes[i := la'])" "ln_head la = Some k" "e \<in> set (entries @ [h])"
    have "entry_ts h \<le> entry_ts k"
    proof (cases "la = la'")
      case True
      then have "sorted (map entry_ts ((of_device ?d entries @ [h]) @ [k]))"
        using lane_good_head(4) [OF good'] la(2) st by simp
      then show ?thesis by (simp add: sorted_append)
    next
      case False
      then show ?thesis using other [OF la(1)] least la(2) by blast
    qed
    then show "entry_ts e \<le> entry_ts k" using la(3) m(2) by (auto intro: order_trans)
  qed
qed

lemma page_loop_inv:
  assumes "page_inv lg since fl lanes ex entries" "merged_inv lg lanes entries" "lanes_strict lg"
    and "page_loop fl n lanes ex entries = (entries', lanes', ex')"
  shows "page_inv lg since fl lanes' ex' entries' \<and> merged_inv lg lanes' entries' \<and>
         length entries' \<le> length entries + n \<and>
         (length entries' < length entries + n \<longrightarrow> (\<forall>la\<in>set lanes'. ln_head la = None))"
  using assms
proof (induction n arbitrary: lanes ex entries)
  case (Suc n)
  show ?case
  proof (cases "best_lane lanes 0 None")
    case None
    then have "\<forall>la\<in>set lanes. ln_head la = None"
      using best_lane_props [OF None] by (metis not_None_eq)
    with None Suc.prems show ?thesis by auto
  next
    case (Some p)
    obtain i h la ex1 where p: "p = (i, h)" and sk: "seek fl (lanes ! i) ex = (la, ex1)"
      by (metis surj_pair)
    note step = page_step [OF Suc.prems(1-3) Some [unfolded p] sk]
    show ?thesis
      using Suc.IH [OF step Suc.prems(3)] Suc.prems(4) Some p sk by simp
  qed
qed simp

section \<open>What the receiver gets\<close>

text \<open>The invariant at the end of the export, for the page the caller sees.\<close>

lemma export_inv:
  assumes strict: "lanes_strict lg" and cache: "cache_ok lg (lg_retiredTail lg)"
    and x: "exportDelta dev since limit at_ms marks lg = (delta, lg')"
  defines "fl \<equiv> int at_ms - int PLAY_HISTORY_RETENTION_MS"
  obtains lanes ex where
    "page_inv lg since fl lanes ex (sd_entries delta)" "merged_inv lg lanes (sd_entries delta)"
    "length (sd_entries delta) \<le> min limit max_delta_entries"
    "sd_more delta \<longleftrightarrow> (\<exists>la\<in>set lanes. ln_head la \<noteq> None)"
    "sd_skipped delta = skipped_map lg marks since (ex_retired ex) (shipped_max (sd_entries delta))"
    "lg' = lg\<lparr>lg_retiredTail := ex_tail ex\<rparr>"
proof -
  let ?ex = "\<lparr>ex_retired = [], ex_tail = lg_retiredTail lg\<rparr>"
  obtain lanes0 ex0 where o: "open_lanes since fl (lg_lanes lg) ?ex = (lanes0, ex0)" by force
  obtain entries lanes ex where l: "page_loop fl (min limit max_delta_entries) lanes0 ex0 [] = (entries, lanes, ex)"
    by (metis prod_cases3)
  have dist: "distinct (map fst (lg_lanes lg))" using strict by (simp add: lanes_strict_def)
  note oi = open_lanes_inv [OF strict order_refl dist o, simplified, OF cache]
  have none: "above_mark lg since d = [] \<and> map_get_or [] (ex_retired ex0) d = []"
    if "d \<notin> ln_dev ` set lanes0" for d
  proof (cases "d \<in> fst ` set (lg_lanes lg)")
    case True
    then show ?thesis using oi that by blast
  next
    case False
    then have "lane lg d = []"
      by (simp add: lane_def map_get_or_def map_of_eq_None_iff [THEN iffD2])
    with False oi show ?thesis by (simp add: above_mark_def)
  qed
  have p0: "page_inv lg since fl lanes0 ex0 []"
    unfolding page_inv_def using oi none by (simp add: of_device_def)
  have m0: "merged_inv lg lanes0 []" by (simp add: merged_inv_def)
  note li = page_loop_inv [OF p0 m0 strict l]
  have d: "sd_entries delta = entries" "sd_more delta \<longleftrightarrow> list_ex (\<lambda>la. ln_head la \<noteq> None) lanes"
      "sd_skipped delta = skipped_map lg marks since (ex_retired ex) (shipped_max entries)"
      "lg' = lg\<lparr>lg_retiredTail := ex_tail ex\<rparr>"
    using x o l by (auto simp: exportDelta_def Let_def fl_def)
  show thesis
    by (rule that [of lanes ex]) (use li d in \<open>simp_all add: list_ex_iff\<close>)
qed

text \<open>One device's share of a page.\<close>

lemma page_device:
  assumes "page_inv lg since fl lanes ex entries"
  obtains seg rest hd where "above_mark lg since d = seg @ rest"
    "filter (\<lambda>e. \<not> is_retired fl e) seg = of_device d entries @ opt_list hd"
    "map_get_or [] (ex_retired ex) d = map ce_seq (filter (is_retired fl) seg)"
    "hd = None \<longrightarrow> (\<forall>e\<in>set rest. is_retired fl e)"
    "hd \<noteq> None \<longrightarrow> (\<exists>la\<in>set lanes. ln_head la \<noteq> None)"
proof (cases "d \<in> ln_dev ` set lanes")
  case True
  then obtain la where la: "la \<in> set lanes" "ln_dev la = d" by auto
  with assms have "lane_good fl (above_mark lg since d) (of_device d entries) (map_get_or [] (ex_retired ex) d) la"
    by (auto simp: page_inv_def)
  then obtain seg rest where "above_mark lg since d = seg @ rest"
      "filter (\<lambda>e. \<not> is_retired fl e) seg = of_device d entries @ opt_list (ln_head la)"
      "map_get_or [] (ex_retired ex) d = map ce_seq (filter (is_retired fl) seg)"
      "ln_head la \<noteq> None \<longrightarrow> rest = drop (ln_pos la) (ln_list la)"
      "ln_head la = None \<longrightarrow> (\<forall>e\<in>set rest. is_retired fl e)"
    unfolding lane_good_def by (elim exE conjE) (rule that, assumption+)
  then show thesis
    using la(1) by (intro that [of seg rest "ln_head la"]) blast+
next
  case False
  with assms show thesis
    using that [of "[]" "[]" None] by (simp add: page_inv_def)
qed

lemma of_device_set: "e \<in> set (of_device d es) \<longleftrightarrow> e \<in> set es \<and> ce_deviceId e = d"
  by (auto simp: of_device_def)

lemma page_entries:
  assumes inv: "page_inv lg since fl lanes ex entries" and e: "e \<in> set entries"
  shows "e \<in> set (lane lg (ce_deviceId e))" "since_mark since (ce_deviceId e) < ce_seq e" "\<not> is_retired fl e"
proof -
  obtain seg rest hd where seg: "above_mark lg since (ce_deviceId e) = seg @ rest"
      "filter (\<lambda>e. \<not> is_retired fl e) seg = of_device (ce_deviceId e) entries @ opt_list hd"
    using page_device [OF inv, where d = "ce_deviceId e"] .
  have "e \<in> set (filter (\<lambda>e. \<not> is_retired fl e) seg)"
    unfolding seg(2) using e by (simp add: of_device_set)
  then have "\<not> is_retired fl e" "e \<in> set (above_mark lg since (ce_deviceId e))"
    using seg(1) by auto
  then show "e \<in> set (lane lg (ce_deviceId e))" "since_mark since (ce_deviceId e) < ce_seq e" "\<not> is_retired fl e"
    by (auto simp: above_mark_def)
qed

lemma strict_seq_inj:
  "lanes_strict lg \<Longrightarrow> a \<in> set (lane lg d) \<Longrightarrow> b \<in> set (lane lg d) \<Longrightarrow> ce_seq a = ce_seq b \<Longrightarrow> a = b"
  by (metis distinct_map inj_onD lanes_strict_def strict_sorted_iff)

lemma page_complete:
  assumes inv: "page_inv lg since fl lanes ex entries" and ended: "\<forall>la\<in>set lanes. ln_head la = None"
    and e: "e \<in> set (lane lg d)" "ce_deviceId e = d" "since_mark since d < ce_seq e" "\<not> is_retired fl e"
  shows "e \<in> set entries"
proof -
  obtain seg rest hd where seg: "above_mark lg since d = seg @ rest"
      "filter (\<lambda>e. \<not> is_retired fl e) seg = of_device d entries @ opt_list hd"
      "hd = None \<longrightarrow> (\<forall>e\<in>set rest. is_retired fl e)" "hd \<noteq> None \<longrightarrow> (\<exists>la\<in>set lanes. ln_head la \<noteq> None)"
    using page_device [OF inv, where d = d] .
  have "hd = None" using seg(4) ended by auto
  moreover have "e \<in> set (seg @ rest)"
    using e unfolding seg(1) [symmetric] by (simp add: above_mark_def)
  ultimately have "e \<in> set (filter (\<lambda>e. \<not> is_retired fl e) seg)"
    using seg(3) e(4) by auto
  then have "e \<in> set (of_device d entries)"
    unfolding seg(2) using \<open>hd = None\<close> by simp
  then show ?thesis by (simp add: of_device_set)
qed

lemma page_distinct:
  assumes inv: "page_inv lg since fl lanes ex entries" and strict: "lanes_strict lg"
  shows "distinct entries"
proof -
  have dev: "distinct (of_device d entries)" for d
  proof -
    obtain seg rest hd where seg: "above_mark lg since d = seg @ rest"
        "filter (\<lambda>e. \<not> is_retired fl e) seg = of_device d entries @ opt_list hd"
      using page_device [OF inv, where d = d] .
    have "sorted_wrt (<) (map ce_seq (lane lg d))" using strict by (simp add: lanes_strict_def)
    then have "distinct (lane lg d)"
      by (auto simp: strict_sorted_iff distinct_map)
    then have "distinct (seg @ rest)"
      unfolding seg(1) [symmetric] by (simp add: above_mark_def)
    then have "distinct (filter (\<lambda>e. \<not> is_retired fl e) seg)" by simp
    then show ?thesis unfolding seg(2) by simp
  qed
  have "distinct es" if "\<And>d. distinct (of_device d es)" for es
    using that
  proof (induction es)
    case (Cons e es)
    have "distinct (of_device d es)" for d
      using Cons.prems [of d] by (auto simp: of_device_def split: if_splits)
    moreover have "e \<notin> set es"
      using Cons.prems [of "ce_deviceId e"] by (simp add: of_device_def)
    ultimately show ?case using Cons.IH by simp
  qed simp
  then show ?thesis using dev by blast
qed

lemma shipped_max_props:
  "distinct (map fst (shipped_max es)) \<and>
   (\<forall>d b. map_of (shipped_max es) d = Some b \<longrightarrow> (\<exists>e\<in>set (of_device d es). ce_seq e = b)) \<and>
   (\<forall>e\<in>set es. 0 < ce_seq e \<longrightarrow> (\<exists>b. map_of (shipped_max es) (ce_deviceId e) = Some b \<and> ce_seq e \<le> b))"
proof (induction es rule: rev_induct)
  case Nil
  then show ?case by (simp add: shipped_max_def)
next
  case (snoc x es)
  let ?m = "shipped_max es"
  have step: "shipped_max (es @ [x]) =
      (if map_get_or 0 ?m (ce_deviceId x) < ce_seq x then AList.update (ce_deviceId x) (ce_seq x) ?m else ?m)"
    by (simp add: shipped_max_def)
  have dev: "set (of_device d (es @ [x])) = set (of_device d es) \<union> (if ce_deviceId x = d then {x} else {})" for d
    by (auto simp: of_device_def)
  show ?case
  proof (cases "map_get_or 0 ?m (ce_deviceId x) < ce_seq x")
    case True
    have "\<exists>b. ((map_of ?m)(ce_deviceId x \<mapsto> ce_seq x)) (ce_deviceId e) = Some b \<and> ce_seq e \<le> b"
      if e: "e \<in> set (es @ [x])" "0 < ce_seq e" for e
    proof (cases "ce_deviceId e = ce_deviceId x")
      case same: True
      have "ce_seq e \<le> ce_seq x"
      proof (cases "e = x")
        case False
        then obtain b where "map_of ?m (ce_deviceId e) = Some b" "ce_seq e \<le> b"
          using snoc e by auto
        then show ?thesis using True same by (simp add: map_get_or_def)
      qed simp
      then show ?thesis using same by simp
    next
      case False
      then show ?thesis using snoc e by auto
    qed
    then show ?thesis
      using snoc True dev by (auto simp: step distinct_update split: if_splits)
  next
    case False
    have "\<exists>b. map_of ?m (ce_deviceId x) = Some b \<and> ce_seq x \<le> b" if "0 < ce_seq x"
      using False that by (auto simp: map_get_or_def split: option.splits)
    then show ?thesis
      using snoc False dev by (auto simp: step split: if_splits)
  qed
qed

section \<open>The skipped listing\<close>

lemma present_seqs:
  assumes "lanes_strict lg"
  shows "set (map ce_seq (takeWhile (\<lambda>e. ce_seq e \<le> a) (drop (firstSeqIndex (lane lg d) (\<lambda>s. s \<le> m)) (lane lg d)))) =
    {n. m < n \<and> n \<le> a \<and> (\<exists>e\<in>set (lane lg d). ce_seq e = n)}"
proof -
  have s: "sorted (map ce_seq (lane lg d))"
    using assms by (simp add: lanes_strict_def strict_sorted_map)
  let ?above = "filter (\<lambda>e. \<not> ce_seq e \<le> m) (lane lg d)"
  have d: "drop (firstSeqIndex (lane lg d) (\<lambda>s. s \<le> m)) (lane lg d) = ?above"
    by (rule firstSeqIndex_boundary(2) [OF s downset_le])
  have "takeWhile (\<lambda>e. ce_seq e \<le> a) xs = filter (\<lambda>e. ce_seq e \<le> a) xs"
    if "sorted (map ce_seq xs)" for xs :: "changeEntry list"
    using that
  proof (induction xs)
    case (Cons x xs)
    show ?case
    proof (cases "ce_seq x \<le> a")
      case False
      then have "filter (\<lambda>e. ce_seq e \<le> a) (x # xs) = []"
        using Cons.prems by (auto simp: filter_empty_conv)
      with False show ?thesis by simp
    qed (use Cons in simp)
  qed simp
  then have "takeWhile (\<lambda>e. ce_seq e \<le> a) ?above = filter (\<lambda>e. ce_seq e \<le> a) ?above"
    using s by (simp add: sorted_filter)
  then show ?thesis unfolding d by auto
qed

lemma skipped_row_sound:
  assumes inv: "page_inv lg since fl lanes ex entries" and strict: "lanes_strict lg"
    and n: "n \<in> set (skipped_row lg marks since (ex_retired ex) d b)"
  shows "since_mark since d < n \<and> n \<le> b \<and> (\<forall>e\<in>set (lane lg d). ce_seq e = n \<longrightarrow> is_retired fl e)"
proof -
  let ?m = "since_mark since d" and ?a = "min b (map_get_or 0 (mk_contiguous marks) d)"
  let ?present = "set (map ce_seq (takeWhile (\<lambda>e. ce_seq e \<le> ?a)
      (drop (firstSeqIndex (lane lg d) (\<lambda>s. s \<le> ?m)) (lane lg d))))"
  have "n \<in> set (filter (\<lambda>s. s \<notin> ?present) [?m + 1..<?a + 1]) \<or>
      n \<in> set (filter (\<lambda>s. ?m < s \<and> s \<le> b) (map_get_or [] (ex_retired ex) d))"
  proof -
    let ?holes = "filter (\<lambda>s. s \<notin> ?present) [?m + 1..<?a + 1]"
    let ?late = "filter (\<lambda>s. ?m < s \<and> s \<le> b) (map_get_or [] (ex_retired ex) d)"
    have "n \<in> set (sort (remdups (take max_delta_entries ?holes @ ?late)))"
      using n unfolding skipped_row_def Let_def by (auto dest: in_set_takeD split: if_splits)
    then have "n \<in> set (take max_delta_entries ?holes) \<or> n \<in> set ?late" by simp
    then show ?thesis by (elim disjE) (blast dest: in_set_takeD, blast)
  qed
  then consider (hole) "?m < n" "n \<le> ?a" "n \<notin> ?present"
    | (late) "?m < n" "n \<le> b" "n \<in> set (map_get_or [] (ex_retired ex) d)"
    by auto
  then show ?thesis
  proof cases
    case hole
    then have "\<not> (\<exists>e\<in>set (lane lg d). ce_seq e = n)"
      unfolding present_seqs [OF strict] by simp
    with hole show ?thesis by auto
  next
    case late
    obtain seg rest hd where seg: "above_mark lg since d = seg @ rest"
        "map_get_or [] (ex_retired ex) d = map ce_seq (filter (is_retired fl) seg)"
      using page_device [OF inv, where d = d] .
    then obtain e where e: "e \<in> set seg" "is_retired fl e" "ce_seq e = n"
      using late(3) by auto
    then have "e \<in> set (lane lg d)"
      using seg(1) by (metis UnCI above_mark_def filter_is_subset set_append subsetD)
    then show ?thesis
      using strict_seq_inj [OF strict] e late by blast
  qed
qed

text \<open>Between the requester's mark and what the page ships, every seq is shipped or listed.\<close>

lemma in_take_sorted:
  assumes "sorted xs" "distinct xs" "n \<in> set xs" "set xs \<subseteq> {m<..}" "n \<le> m + k"
  shows "n \<in> set (take k (xs :: nat list))"
proof -
  obtain i where i: "i < length xs" "xs ! i = n" using assms(3) by (auto simp: in_set_conv_nth)
  have "i < k"
  proof (rule ccontr)
    assume "\<not> i < k"
    have "set (take (Suc i) xs) \<subseteq> {m<..n}"
    proof
      fix y assume "y \<in> set (take (Suc i) xs)"
      then obtain j where j: "j \<le> i" "xs ! j = y"
        by (auto simp: in_set_conv_nth less_Suc_eq_le)
      then have "y \<le> n" using i sorted_nth_mono [OF assms(1) j(1)] by simp
      moreover have "y \<in> set xs" using j i nth_mem [of j xs] by simp
      ultimately show "y \<in> {m<..n}" using assms(4) by auto
    qed
    then have "card (set (take (Suc i) xs)) \<le> card {m<..n}" by (intro card_mono) auto
    moreover have "card (set (take (Suc i) xs)) = Suc i"
      using i assms(2) by (simp add: distinct_card distinct_take)
    ultimately show False using \<open>\<not> i < k\<close> assms(5) by simp
  qed
  then show ?thesis using i by (metis in_set_conv_nth length_take min_less_iff_conj nth_take)
qed

lemma skipped_row_covers:
  assumes inv: "page_inv lg since fl lanes ex entries" and strict: "lanes_strict lg"
    and named: "\<not> reads_member since d"
    and b: "x \<in> set (of_device d entries)" "ce_seq x = b"
    and n: "since_mark since d < n" "n \<le> b" "n \<le> map_get_or 0 (mk_contiguous marks) d"
      "n \<le> since_mark since d + max_delta_entries"
  shows "n \<in> ce_seq ` set (of_device d entries) \<or> n \<in> set (skipped_row lg marks since (ex_retired ex) d b)"
proof -
  let ?m = "since_mark since d" and ?a = "min b (map_get_or 0 (mk_contiguous marks) d)"
  let ?present = "set (map ce_seq (takeWhile (\<lambda>e. ce_seq e \<le> ?a)
      (drop (firstSeqIndex (lane lg d) (\<lambda>s. s \<le> ?m)) (lane lg d))))"
  let ?holes = "filter (\<lambda>s. s \<notin> ?present) [?m + 1..<?a + 1]"
  let ?late = "filter (\<lambda>s. ?m < s \<and> s \<le> b) (map_get_or [] (ex_retired ex) d)"
  have row: "n \<in> set (skipped_row lg marks since (ex_retired ex) d b)" if "n \<in> set ?holes \<or> n \<in> set ?late"
  proof -
    let ?all = "sort (remdups (take max_delta_entries ?holes @ ?late))"
    have above: "set ?holes \<subseteq> {?m<..}" "set ?late \<subseteq> {?m<..}" by auto
    have "n \<in> set (take max_delta_entries ?holes) \<or> n \<in> set ?late"
      using that
    proof
      assume "n \<in> set ?holes"
      then have "n \<in> set (take max_delta_entries ?holes)"
        by (rule in_take_sorted [OF _ _ _ above(1) n(4), rotated 2])
           (auto intro: sorted_wrt_filter distinct_filter simp del: upt.simps upt_Suc)
      then show ?thesis ..
    qed simp
    then have "n \<in> set ?all" by simp
    moreover have "set ?all \<subseteq> {?m<..}"
      using above set_take_subset [of max_delta_entries ?holes] by (simp only: set_sort set_remdups set_append) blast
    ultimately have "n \<in> set (take max_delta_entries ?all)"
      by (intro in_take_sorted [OF _ _ _ _ n(4)]) simp_all
    then show ?thesis unfolding skipped_row_def Let_def using named by simp
  qed
  show ?thesis
  proof (cases "n \<in> ?present")
    case False
    moreover have "n \<in> set [?m + 1..<?a + 1]"
      unfolding set_upt using n by simp
    ultimately have "n \<in> set ?holes" unfolding set_filter by blast
    then show ?thesis using row by blast
  next
    case True
    then obtain e where e: "e \<in> set (lane lg d)" "ce_seq e = n"
      unfolding present_seqs [OF strict] by blast
    obtain seg rest hd where seg: "above_mark lg since d = seg @ rest"
        "filter (\<lambda>e. \<not> is_retired fl e) seg = of_device d entries @ opt_list hd"
        "map_get_or [] (ex_retired ex) d = map ce_seq (filter (is_retired fl) seg)"
      using page_device [OF inv, where d = d] .
    have "sorted_wrt (<) (map ce_seq (lane lg d))" using strict by (simp add: lanes_strict_def)
    then have sd: "sorted_wrt (<) (map ce_seq (seg @ rest))"
      unfolding seg(1) [symmetric] above_mark_def sorted_wrt_map by (rule sorted_wrt_filter)
    have xseg: "x \<in> set (filter (\<lambda>e. \<not> is_retired fl e) seg)"
      unfolding seg(2) using b(1) by simp
    have "e \<in> set (seg @ rest)"
      using e n(1) unfolding seg(1) [symmetric] by (simp add: above_mark_def)
    moreover have "e \<notin> set rest"
    proof
      assume "e \<in> set rest"
      then have "ce_seq x < ce_seq e" using sd xseg by (auto simp: sorted_wrt_append)
      then show False using e(2) n(2) b(2) by simp
    qed
    ultimately have eseg: "e \<in> set seg" by simp
    show ?thesis
    proof (cases "is_retired fl e")
      case True
      then have "n \<in> set ?late" using eseg e(2) n seg(3) by auto
      then show ?thesis using row by blast
    next
      case False
      then have "e \<in> set (of_device d entries @ opt_list hd)"
        using eseg unfolding seg(2) [symmetric] by simp
      moreover have "e \<notin> set (opt_list hd)"
      proof
        assume "e \<in> set (opt_list hd)"
        then have hd: "hd = Some e" by (simp split: option.splits)
        have "sorted_wrt (<) (map ce_seq (filter (\<lambda>e. \<not> is_retired fl e) seg))"
          using sd by (simp add: sorted_wrt_append sorted_wrt_map sorted_wrt_filter)
        then have "ce_seq x < ce_seq e"
          unfolding seg(2) using hd b(1) by (auto simp: sorted_wrt_append)
        then show False using e(2) n(2) b(2) by simp
      qed
      ultimately show ?thesis using e(2) by auto
    qed
  qed
qed

section \<open>The export, and a receiver folding it\<close>

lemma export_entries:
  assumes "lanes_strict lg" "cache_ok lg (lg_retiredTail lg)"
    and "exportDelta dev since limit at_ms marks lg = (delta, lg')" "e \<in> set (sd_entries delta)"
  shows "e \<in> logged lg \<and> since_mark since (ce_deviceId e) < ce_seq e \<and>
         \<not> is_retired (int at_ms - int PLAY_HISTORY_RETENTION_MS) e"
proof (rule export_inv [OF assms(1-3)])
  fix lanes ex
  assume "page_inv lg since (int at_ms - int PLAY_HISTORY_RETENTION_MS) lanes ex (sd_entries delta)"
  from page_entries [OF this assms(4)] show ?thesis
    using logged_iff [OF lanes_strict_ok [OF assms(1)], of e] by simp
qed

lemma export_page:
  assumes "lanes_strict lg" "cache_ok lg (lg_retiredTail lg)"
    and "exportDelta dev since limit at_ms marks lg = (delta, lg')"
  shows "distinct (sd_entries delta) \<and> length (sd_entries delta) \<le> min limit max_delta_entries \<and>
         (stamped lg \<longrightarrow> sorted (map entry_ts (sd_entries delta)))"
  by (rule export_inv [OF assms]) (use page_distinct [OF _ assms(1)] in \<open>simp add: merged_inv_def\<close>)

lemma export_complete:
  assumes "lanes_strict lg" "cache_ok lg (lg_retiredTail lg)"
    and "exportDelta dev since limit at_ms marks lg = (delta, lg')" "\<not> sd_more delta"
    and "e \<in> logged lg" "since_mark since (ce_deviceId e) < ce_seq e"
      "\<not> is_retired (int at_ms - int PLAY_HISTORY_RETENTION_MS) e"
  shows "e \<in> set (sd_entries delta)"
proof -
  have "e \<in> set (lane lg (ce_deviceId e))"
    using assms(5) logged_iff [OF lanes_strict_ok [OF assms(1)]] by blast
  then show ?thesis
    by (rule_tac export_inv [OF assms(1-3)]) (rule page_complete, use assms(4,6,7) in auto)
qed

lemma export_keeps_cache:
  assumes "lanes_strict lg" "cache_ok lg (lg_retiredTail lg)"
    and "exportDelta dev since limit at_ms marks lg = (delta, lg')"
  shows "cache_ok lg' (lg_retiredTail lg') \<and> lg_lanes lg' = lg_lanes lg \<and> lg_seen lg' = lg_seen lg"
proof (rule export_inv [OF assms])
  fix lanes ex
  assume "page_inv lg since (int at_ms - int PLAY_HISTORY_RETENTION_MS) lanes ex (sd_entries delta)"
    and lg': "lg' = lg\<lparr>lg_retiredTail := ex_tail ex\<rparr>"
  then show ?thesis by (simp add: page_inv_def cache_ok_def lane_def)
qed

lemma shipped_positive:
  "page_inv lg since fl lanes ex entries \<Longrightarrow> e \<in> set entries \<Longrightarrow> 0 < ce_seq e"
  using page_entries(2) by fastforce

lemma export_skipped_sound:
  assumes "lanes_strict lg" "cache_ok lg (lg_retiredTail lg)"
    and "exportDelta dev since limit at_ms marks lg = (delta, lg')"
    and "(d, ss) \<in> set (sd_skipped delta)" "n \<in> set ss"
  shows "since_mark since d < n \<and> (\<exists>x\<in>set (sd_entries delta). ce_deviceId x = d \<and> n \<le> ce_seq x) \<and>
    (\<forall>e\<in>logged lg. ce_deviceId e = d \<longrightarrow> ce_seq e = n \<longrightarrow>
       is_retired (int at_ms - int PLAY_HISTORY_RETENTION_MS) e)"
proof (rule export_inv [OF assms(1-3)])
  fix lanes ex
  assume inv: "page_inv lg since (int at_ms - int PLAY_HISTORY_RETENTION_MS) lanes ex (sd_entries delta)"
    and sk: "sd_skipped delta = skipped_map lg marks since (ex_retired ex) (shipped_max (sd_entries delta))"
  obtain b where b: "(d, b) \<in> set (shipped_max (sd_entries delta))"
      "ss = skipped_row lg marks since (ex_retired ex) d b"
    using assms(4) unfolding sk skipped_map_def by auto
  then have "map_of (shipped_max (sd_entries delta)) d = Some b"
    using shipped_max_props [of "sd_entries delta"] by simp
  then obtain x where "x \<in> set (sd_entries delta)" "ce_deviceId x = d" "ce_seq x = b"
    using shipped_max_props [of "sd_entries delta"] by (metis of_device_set)
  then show ?thesis
    using skipped_row_sound [OF inv assms(1), of n marks d b] assms(5) b(2)
      logged_iff [OF lanes_strict_ok [OF assms(1)]] by auto
qed

lemma export_covers:
  assumes "lanes_strict lg" "cache_ok lg (lg_retiredTail lg)"
    and "exportDelta dev since limit at_ms marks lg = (delta, lg')"
    and x: "x \<in> set (sd_entries delta)" "ce_deviceId x = d"
    and named: "d \<notin> set object_members"
    and n: "since_mark since d < n" "n \<le> ce_seq x" "n \<le> map_get_or 0 (mk_contiguous marks) d"
      "n \<le> since_mark since d + max_delta_entries"
  shows "n \<in> set (seqs_of d (entry_pairs (sd_entries delta) @ skip_pairs (Some (sd_skipped delta))))"
proof (rule export_inv [OF assms(1-3)])
  fix lanes ex
  assume inv: "page_inv lg since (int at_ms - int PLAY_HISTORY_RETENTION_MS) lanes ex (sd_entries delta)"
    and sk: "sd_skipped delta = skipped_map lg marks since (ex_retired ex) (shipped_max (sd_entries delta))"
  obtain b where b: "map_of (shipped_max (sd_entries delta)) d = Some b" "ce_seq x \<le> b"
    using shipped_max_props [of "sd_entries delta"] shipped_positive [OF inv x(1)] x by metis
  obtain y where y: "y \<in> set (of_device d (sd_entries delta))" "ce_seq y = b"
    using shipped_max_props [of "sd_entries delta"] b(1) by metis
  have d: "\<not> reads_member since d" "d \<noteq> proto_key"
    using named by (auto simp: reads_member_def object_members_def split: option.splits)
  have "n \<le> b" using n(2) b(2) by simp
  from skipped_row_covers [OF inv assms(1) d(1) y n(1) this n(3,4)]
  consider "n \<in> ce_seq ` set (of_device d (sd_entries delta))"
    | "n \<in> set (skipped_row lg marks since (ex_retired ex) d b)" by blast
  then show ?thesis
  proof cases
    case 1
    then show ?thesis by (force simp: seqs_of_def entry_pairs_def of_device_set)
  next
    case 2
    then have "(d, skipped_row lg marks since (ex_retired ex) d b) \<in> set (sd_skipped delta)"
      unfolding sk skipped_map_def using map_of_SomeD [OF b(1)] d(2) by force
    then show ?thesis
      using 2 by (force simp: seqs_of_def skip_pairs_def)
  qed
qed

text \<open>The receiver's mark reaches everything the sender accounts for on the page.\<close>

lemma receiver_advances:
  assumes "lanes_strict lg" "cache_ok lg (lg_retiredTail lg)"
    and "exportDelta dev since limit at_ms marks lg = (delta, lg')"
    and "x \<in> set (sd_entries delta)" "ce_deviceId x = d"
    and "d \<notin> set object_members"
    and inv: "marks_inv rst" and same: "mark_of rst d = since_mark since d"
  shows "min (min (ce_seq x) (mark_of marks d)) (since_mark since d + max_delta_entries)
           \<le> mark_of (commitSeqs (sd_entries delta) (Some (sd_skipped delta)) rst) d"
proof -
  let ?ss = "seqs_of d (entry_pairs (sd_entries delta) @ skip_pairs (Some (sd_skipped delta)))"
  let ?l = "fold fold1 ?ss (lane_of rst d)"
  have l: "settled ?l" "observed ?l = observed (lane_of rst d) \<union> (set ?ss - {0})"
    using fold1s_props inv by (simp_all add: marks_inv_def)
  have "n \<in> observed ?l" 
    if n: "n \<in> {1..min (min (ce_seq x) (mark_of marks d)) (since_mark since d + max_delta_entries)}" for n
  proof (cases "n \<le> since_mark since d")
    case True
    then show ?thesis
      unfolding l(2) using n same by (auto simp: observed_def lane_of_mark)
  next
    case False
    then have "n \<in> set ?ss"
      using export_covers [OF assms(1-6), of n] n by (simp add: mark_of_def)
    then show ?thesis unfolding l(2) using n by auto
  qed
  then have "min (min (ce_seq x) (mark_of marks d)) (since_mark since d + max_delta_entries) \<le> fst ?l"
    using settled_mark [OF l(1)] by blast
  then show ?thesis
    by (metis lane_of_commit lane_of_mark)
qed

end
