(* ===== verification/Errors.thy ===== *)
theory Errors
  imports JsValue
begin

text \<open>
  \<open>packages/application/src/errors.ts\<close>: the error taxonomy every port returns, the slug table
  that folds wire kinds onto it, and the predicates on error shapes the playback and queue code
  share. \<open>Result<T>\<close> is \<open>appError + 'a\<close>.
\<close>

datatype errorKind =
    NoResult | NotApplicable | Unsupported | AuthRequired | AuthExpired | RateLimit | Transient
  | ProviderWall | ExpiredResource | PermissionDenied | InvalidResponse | TimedOut | Cancelled
  | BudgetExceeded | GuestTrap | InvalidMessage | ArtifactRejected | StreamsCapped | Released
  | SupersededKind | Evicted | Expired | NotFound | Unavailable | StorageFull | Internal

record appError =
  ae_kind :: errorKind
  ae_message :: string
  ae_retryable :: bool
  ae_retryAfterMs :: "nat option"

type_synonym 'a result = "appError + 'a"

definition RETRYABLE :: "errorKind list" where
  "RETRYABLE = [RateLimit, Transient, ExpiredResource, TimedOut, StreamsCapped, Expired, Internal]"

definition ERROR_KIND_BY_SLUG :: "(string \<times> errorKind) list" where
  "ERROR_KIND_BY_SLUG =
     [(''no-result'', NoResult), (''not-applicable'', NotApplicable),
      (''unsupported'', Unsupported), (''auth-required'', AuthRequired),
      (''auth-expired'', AuthExpired), (''rate-limit'', RateLimit), (''transient'', Transient),
      (''provider-wall'', ProviderWall), (''expired-resource'', ExpiredResource),
      (''permission-denied'', PermissionDenied), (''invalid-response'', InvalidResponse),
      (''timeout'', TimedOut), (''cancelled'', Cancelled), (''budget-exceeded'', BudgetExceeded),
      (''guest-trap'', GuestTrap), (''invalid-message'', InvalidMessage),
      (''artifact-rejected'', ArtifactRejected), (''streams-capped'', StreamsCapped),
      (''released'', Released), (''superseded'', SupersededKind), (''evicted'', Evicted),
      (''expired'', Expired), (''not-found'', NotFound), (''unavailable'', Unavailable),
      (''storage-full'', StorageFull), (''io-error'', Transient),
      (''invalid-request'', InvalidResponse), (''not-implemented'', Unavailable),
      (''process-crashed'', Unavailable), (''corrupt-state'', Internal), (''internal'', Internal)]"

fun appErrorKind :: "jsval \<Rightarrow> errorKind" where
  "appErrorKind (JStr slug) =
     (case map_of ERROR_KIND_BY_SLUG slug of Some k \<Rightarrow> k | None \<Rightarrow> Internal)"
| "appErrorKind _ = Internal"

definition appError :: "errorKind \<Rightarrow> string \<Rightarrow> nat option \<Rightarrow> appError" where
  "appError kind message retryAfterMs =
     \<lparr>ae_kind = kind, ae_message = message, ae_retryable = (kind \<in> set RETRYABLE),
      ae_retryAfterMs = retryAfterMs\<rparr>"

text \<open>The white space \<open>String.prototype.trim\<close> removes, among the 8-bit characters.\<close>

definition js_space :: "char \<Rightarrow> bool" where
  "js_space c = (of_char c \<in> {9, 10, 11, 12, 13, 32, 160 :: nat})"

definition js_trim :: "string \<Rightarrow> string" where
  "js_trim s = rev (dropWhile js_space (rev (dropWhile js_space s)))"

text \<open>\<open>message.split(':').at(-1)\<close>\<close>

definition last_segment :: "string \<Rightarrow> string" where
  "last_segment s = rev (takeWhile (\<lambda>c. c \<noteq> CHR '':'') (rev s))"

definition isBotCheckWall :: "appError \<Rightarrow> bool" where
  "isBotCheckWall e =
     (ae_kind e = ProviderWall \<or>
      (ae_kind e = Transient \<and> js_trim (last_segment (ae_message e)) = ''bot-check''))"

definition isStreamsCappedTransient :: "appError \<Rightarrow> bool" where
  "isStreamsCappedTransient e =
     (ae_kind e = StreamsCapped \<or>
      (ae_kind e = Transient \<and> js_trim (last_segment (ae_message e)) = ''streams-capped''))"

definition PERMANENT_FAILURE_KINDS :: "errorKind list" where
  "PERMANENT_FAILURE_KINDS = [NotFound, Unsupported, NoResult, AuthRequired, ExpiredResource]"

definition isPermanentFailure :: "appError \<Rightarrow> bool" where
  "isPermanentFailure e = (ae_kind e \<in> set PERMANENT_FAILURE_KINDS)"

definition cancelledError :: appError where
  "cancelledError = appError Cancelled ''cancelled'' None"

definition fromUnknown :: appError where
  "fromUnknown = appError Internal ''unexpected port failure'' None"

text \<open>Each kind's own slug, the inverse of the table on the taxonomy.\<close>

definition kind_slug :: "errorKind \<Rightarrow> string" where
  "kind_slug k = fst (hd (filter (\<lambda>p. snd p = k)
     (filter (\<lambda>p. fst p \<notin> {''io-error'', ''invalid-request'', ''not-implemented'', ''process-crashed'',
                             ''corrupt-state''}) ERROR_KIND_BY_SLUG)))"

lemma slug_table: "map_of ERROR_KIND_BY_SLUG (kind_slug k) = Some k"
  by (cases k) (simp_all add: kind_slug_def ERROR_KIND_BY_SLUG_def)

interpretation error_slug: codec kind_slug "map_of ERROR_KIND_BY_SLUG" "\<lambda>_. True"
  by unfold_locales (simp add: slug_table)

lemma last_segment_prefix: "CHR '':'' \<notin> set d \<Longrightarrow> last_segment (p @ CHR '':'' # d) = d"
proof -
  assume "CHR '':'' \<notin> set d"
  then have "takeWhile (\<lambda>c. c \<noteq> CHR '':'') (rev d) = rev d"
    by (auto simp: takeWhile_eq_all_conv)
  then show ?thesis
    by (simp add: last_segment_def takeWhile_tail del: takeWhile_eq_all_conv)
qed

lemma js_trim_padded:
  assumes "d \<noteq> []" "\<not> js_space (hd d)" "\<not> js_space (last d)" "\<forall>c\<in>set p. js_space c"
  shows "js_trim (p @ d) = d"
proof -
  have "dropWhile js_space (p @ d) = d"
    using assms by (cases d) (simp_all add: dropWhile_append2)
  moreover have "dropWhile js_space (rev d) = rev d"
    using assms(1,3) by (cases d rule: rev_cases) simp_all
  ultimately show ?thesis by (simp add: js_trim_def)
qed

text \<open>Every leg prepends its own prefix; the verdict carried by the last segment survives.\<close>

lemma wall_survives_prefix:
  assumes "ae_kind e = Transient" "ae_message e = p @ CHR '':'' # ws @ d" "\<forall>c\<in>set ws. js_space c"
  shows "d = ''bot-check'' \<Longrightarrow> isBotCheckWall e" "d = ''streams-capped'' \<Longrightarrow> isStreamsCappedTransient e"
proof -
  have nocolon: "CHR '':'' \<notin> set ws"
    using assms(3) by (auto simp: js_space_def)
  then have seg: "last_segment (ae_message e) = ws @ d" if "CHR '':'' \<notin> set d"
    unfolding assms(2) using that by (intro last_segment_prefix) simp
  have trim: "js_trim (ws @ d) = d" if "d \<noteq> []" "\<not> js_space (hd d)" "\<not> js_space (last d)"
    using that assms(3) by (rule js_trim_padded)
  show "isBotCheckWall e" if "d = ''bot-check''"
    using seg trim assms(1) by (simp add: isBotCheckWall_def that js_space_def)
  show "isStreamsCappedTransient e" if "d = ''streams-capped''"
    using seg trim assms(1) by (simp add: isStreamsCappedTransient_def that js_space_def)
qed

end
