(* ===== verification/SyncEngine.thy ===== *)
theory SyncEngine
  imports SyncExport Errors
begin

text \<open>
  The operations of \<open>createSyncEngine\<close> over its whole state: hydration from the durable log,
  local writes, remote applies, compaction, and the diagnostics reads. The durable store, the
  clock, the id mint and the cancellation signal are ports: an operation takes the time its
  turn read (\<open>None\<close> for an unsafe clock), whether its signal had fired, and the store's answer
  to each append it issues. The log port only reports failed best-effort writes and is not
  modelled.
\<close>

section \<open>State and port\<close>

record syncEngine =
  en_deviceId :: string
  en_ms :: mergeState
  en_log :: logState
  en_marks :: markState
  en_peers :: "(string, (string, nat) jsmap) jsmap"
  en_stale :: "string list"
  en_dirty :: "string list"
  en_localSeq :: nat
  en_clock :: hlcStamp

record syncLogWrite =
  lw_entries :: "changeEntry list"
  lw_watermarks :: "(string, nat) jsmap"
  lw_divergence :: "divergenceEntry list"
  lw_dropDivergenceBefore :: "nat option"
  lw_dropEntries :: "(string \<times> nat) list"
  lw_droppedEmissions :: "nat list"
  lw_peerMarks :: "(string, (string, nat) jsmap) jsmap"

text \<open>The ports during one operation: \<open>op_append\<close> is the store's answer to a write, \<open>None\<close>
  for \<open>ok\<close>; \<open>op_next\<close> the ids \<open>ids.next('div')\<close> mints.\<close>

record opEnv =
  op_cancelled :: bool
  op_now :: "nat option"
  op_next :: "nat \<Rightarrow> string"
  op_append :: "syncLogWrite \<Rightarrow> appError option"

definition merge_env :: "opEnv \<Rightarrow> syncEngine \<Rightarrow> mergeEnv" where
  "merge_env env en = \<lparr>me_deviceId = en_deviceId en, me_now = op_now env, me_next = op_next env\<rparr>"

text \<open>The envelope of \<open>runOp\<close>: cancellation first, then the clock.\<close>

definition runOp :: "opEnv \<Rightarrow> (nat \<Rightarrow> syncEngine \<Rightarrow> 'a result \<times> syncEngine) \<Rightarrow> syncEngine \<Rightarrow>
    'a result \<times> syncEngine" where
  "runOp env work en =
     (if op_cancelled env then (Inl cancelledError, en)
      else case op_now env of
             None \<Rightarrow> (Inl (appError Internal ''clock returned an unsafe timestamp'' None), en)
           | Some at_ms \<Rightarrow> work at_ms en)"

section \<open>Appends\<close>

definition no_write :: syncLogWrite where
  "no_write = \<lparr>lw_entries = [], lw_watermarks = [], lw_divergence = [],
               lw_dropDivergenceBefore = None, lw_dropEntries = [], lw_droppedEmissions = [],
               lw_peerMarks = []\<rparr>"

definition appendLog :: "opEnv \<Rightarrow> changeEntry list \<Rightarrow> skips option \<Rightarrow>
    (string \<times> (string, nat) jsmap) option \<Rightarrow> syncEngine \<Rightarrow> appError option \<times> syncEngine" where
  "appendLog env entries skipped peerMark en =
     (let w = no_write\<lparr>lw_entries := entries,
                       lw_watermarks := prospectiveMarks (en_marks en) entries skipped,
                       lw_peerMarks := (case peerMark of None \<Rightarrow> [] | Some p \<Rightarrow> [p])\<rparr>
      in case op_append env w of
           Some e \<Rightarrow> (Some e, en)
         | None \<Rightarrow>
             (None,
              en\<lparr>en_marks := commitSeqs entries skipped (en_marks en),
                 en_log := fold indexEntry entries (en_log en),
                 en_dirty := (case peerMark of None \<Rightarrow> en_dirty en
                                             | Some (sender, _) \<Rightarrow> removeAll sender (en_dirty en))\<rparr>))"

section \<open>Compaction\<close>

record compactionPlan =
  cp_dropped :: "changeEntry list"
  cp_lanes :: "(string \<times> changeEntry list) list"
  cp_ordinals :: "nat list"

text \<open>The least mark any peer advertises for a device.\<close>

fun peer_floor :: "(string, (string, nat) jsmap) jsmap \<Rightarrow> string \<Rightarrow> nat option" where
  "peer_floor [] dev = None"
| "peer_floor ((s, marks) # rest) dev =
     (let m = map_get_or 0 marks dev
      in case peer_floor rest dev of None \<Rightarrow> Some m | Some f \<Rightarrow> Some (min m f))"

definition keeps_entry :: "syncEngine \<Rightarrow> string \<Rightarrow> changeEntry \<Rightarrow> bool" where
  "keeps_entry en dev e =
     (e \<in> ms_live (en_ms en) \<or> (dev = en_deviceId en \<and> ce_seq e = en_localSeq en))"

definition note_ordinal :: "syncEngine \<Rightarrow> changeEntry \<Rightarrow> nat list \<Rightarrow> nat list" where
  "note_ordinal en e ords =
     (case map_of (dh_emittedAt (ms_div (en_ms en))) e of
        None \<Rightarrow> ords
      | Some n \<Rightarrow> if n \<in> set ords then ords else ords @ [n])"

text \<open>One lane: the prefix at or below the floor splits into kept and dropped entries.\<close>

definition plan_lane :: "syncEngine \<Rightarrow> string \<times> changeEntry list \<Rightarrow> compactionPlan \<Rightarrow> compactionPlan" where
  "plan_lane en dl plan =
     (let (dev, list) = dl;
          fl = (case peer_floor (en_peers en) dev of None \<Rightarrow> 0 | Some f \<Rightarrow> f)
      in if fl = 0 then plan
         else
           let prefix = takeWhile (\<lambda>e. ce_seq e \<le> fl) list;
               kept = filter (keeps_entry en dev) prefix;
               gone = filter (\<lambda>e. \<not> keeps_entry en dev e) prefix
           in plan\<lparr>cp_dropped := cp_dropped plan @ gone,
                   cp_lanes := (if length kept \<noteq> length prefix
                                then cp_lanes plan @ [(dev, kept @ drop (length prefix) list)]
                                else cp_lanes plan),
                   cp_ordinals := fold (note_ordinal en) gone (cp_ordinals plan)\<rparr>)"

definition planCompaction :: "syncEngine \<Rightarrow> compactionPlan" where
  "planCompaction en =
     (let plan = \<lparr>cp_dropped = [], cp_lanes = [], cp_ordinals = []\<rparr>
      in if en_peers en = [] \<or> en_stale en \<noteq> [] then plan
         else fold (plan_lane en) (lg_lanes (en_log en)) plan)"

definition commitCompaction :: "compactionPlan \<Rightarrow> syncEngine \<Rightarrow> syncEngine" where
  "commitCompaction plan en =
     en\<lparr>en_log := (en_log en)
          \<lparr>lg_lanes := fold (\<lambda>(dev, entries) ls. AList.update dev entries ls) (cp_lanes plan) (lg_lanes (en_log en)),
           lg_seen := lg_seen (en_log en) - entryKey ` set (cp_dropped plan)\<rparr>,
        en_ms := (en_ms en)
          \<lparr>ms_div := (ms_div (en_ms en))
             \<lparr>dh_emittedAt := fold AList.delete (cp_dropped plan) (dh_emittedAt (ms_div (en_ms en)))\<rparr>\<rparr>\<rparr>"

text \<open>Every pending peer row re-issues on every write until a write carrying it confirms.\<close>

definition pending_rows :: "syncEngine \<Rightarrow> (string, (string, nat) jsmap) jsmap" where
  "pending_rows en = List.map_filter (\<lambda>s. map_option (Pair s) (map_of (en_peers en) s)) (en_dirty en)"

definition plan_drops :: "compactionPlan option \<Rightarrow> changeEntry list" where
  "plan_drops plan = (case plan of None \<Rightarrow> [] | Some p \<Rightarrow> cp_dropped p)"

definition divergence_write :: "divergenceEntry list \<Rightarrow> compactionPlan option \<Rightarrow> nat option \<Rightarrow>
    syncEngine \<Rightarrow> syncLogWrite" where
  "divergence_write rows plan dropBefore en =
     no_write\<lparr>lw_divergence := rows, lw_dropDivergenceBefore := dropBefore,
              lw_dropEntries := map (\<lambda>e. (ce_deviceId e, ce_seq e)) (plan_drops plan),
              lw_droppedEmissions :=
                (if plan_drops plan = [] then [] else (case plan of None \<Rightarrow> [] | Some p \<Rightarrow> cp_ordinals p)),
              lw_peerMarks := pending_rows en\<rparr>"

definition appendDivergence :: "opEnv \<Rightarrow> divergenceEntry list \<Rightarrow> compactionPlan option \<Rightarrow>
    syncEngine \<Rightarrow> syncEngine" where
  "appendDivergence env rows plan en =
     (if rows = [] \<and> plan_drops plan = [] \<and> pending_rows en = [] then en
      else
        let (dropBefore, dh) = pruneDivergence (ms_div (en_ms en));
            en1 = en\<lparr>en_ms := (en_ms en)\<lparr>ms_div := dh\<rparr>\<rparr>
        in case op_append env (divergence_write rows plan dropBefore en) of
             Some e \<Rightarrow> en1
           | None \<Rightarrow>
               (let en2 = en1\<lparr>en_dirty := filter (\<lambda>s. s \<notin> set (map fst (pending_rows en))) (en_dirty en1)\<rparr>
                in case plan of None \<Rightarrow> en2 | Some p \<Rightarrow> commitCompaction p en2))"

text \<open>A cursor is a complete claim: the sender's row is replaced.\<close>

definition notePeerCursor :: "string \<Rightarrow> (string, nat) jsmap \<Rightarrow> syncEngine \<Rightarrow> syncEngine" where
  "notePeerCursor sender cursor en =
     (let changed = (case map_of (en_peers en) sender of
                       None \<Rightarrow> True
                     | Some prev \<Rightarrow> length prev \<noteq> length cursor \<or>
                         list_ex (\<lambda>(src, mark). map_of prev src \<noteq> Some mark) cursor);
          wasStale = sender \<in> set (en_stale en)
      in en\<lparr>en_peers := (if changed then AList.update sender cursor (en_peers en) else en_peers en),
            en_stale := removeAll sender (en_stale en),
            en_dirty := (if wasStale \<or> changed then set_add sender (en_dirty en) else en_dirty en)\<rparr>)"

section \<open>Local writes\<close>

datatype localWrite =
    WriteField jsval jsval jsval jsval
  | WriteTombstone jsval jsval jsval

text \<open>
  \<open>WriteField kind recordId field value\<close> and \<open>WriteTombstone kind recordId tombstone\<close>: the two
  shapes of \<open>LocalWrite\<close>, by whether \<open>'tombstone' in input\<close>, with the members as the caller
  passes them.
\<close>

fun lw_kind :: "localWrite \<Rightarrow> jsval" where
  "lw_kind (WriteField k _ _ _) = k"
| "lw_kind (WriteTombstone k _ _) = k"

fun lw_recordId :: "localWrite \<Rightarrow> jsval" where
  "lw_recordId (WriteField _ i _ _) = i"
| "lw_recordId (WriteTombstone _ i _) = i"

definition validLocalWrite :: "localWrite \<Rightarrow> appError option" where
  "validLocalWrite w =
     (if \<not> isSyncRecordKind (lw_kind w) then Some (appError InvalidResponse ''unknown record kind'' None)
      else if \<not> isString (lw_recordId w) max_record_id
      then Some (appError InvalidResponse ''invalid record id'' None)
      else if kind_of_val (lw_kind w) = Some Settings \<and> lw_recordId w \<noteq> JStr SETTINGS_RECORD_ID
      then Some (appError InvalidResponse ''settings is a singleton record'' None)
      else case w of
             WriteTombstone _ _ t \<Rightarrow>
               if t \<noteq> JBool True then Some (appError InvalidResponse ''invalid tombstone write'' None) else None
           | WriteField k _ f v \<Rightarrow>
               if \<not> isString f max_field \<or> f = JStr TOMBSTONE_FIELD
               then Some (appError InvalidResponse ''invalid field'' None)
               else (case syncFieldRule (the (kind_of_val k)) (str_of f) of
                       None \<Rightarrow> Some (appError NotApplicable
                                 (str_of k @ ''.'' @ str_of f @ '' does not sync'') None)
                     | Some r \<Rightarrow>
                         if \<not> rule_valid r v
                         then Some (appError InvalidResponse
                                (str_of k @ ''.'' @ str_of f @ '' failed its contract'') None)
                         else None))"

text \<open>\<open>Math.max(0, value - remoteShare)\<close> on numbers that are safe nonnegative integers.\<close>

definition sumComponentFor :: "syncEngine \<Rightarrow> syncKind \<Rightarrow> string \<Rightarrow> string \<Rightarrow> jsval \<Rightarrow> jsval" where
  "sumComponentFor en kind recordId field v =
     (case (merge_of kind field, v) of
        (Some SumM, JNum x) \<Rightarrow>
          let r = map_of (ms_records (en_ms en)) (syncedRecordKey kind recordId);
              cell = (case r of None \<Rightarrow> None | Some r \<Rightarrow> map_of (rs_fields r) field);
              remoteShare = sumValue (filter (\<lambda>e. ce_deviceId e \<noteq> en_deviceId en) (live_of cell));
              d = num_add x (case remoteShare of Fin q \<Rightarrow> Fin (- q) | PosInf \<Rightarrow> NegInf
                                               | NegInf \<Rightarrow> PosInf | NaN \<Rightarrow> NaN)
          in JNum (num_max (jnat 0) d)
      | _ \<Rightarrow> v)"

definition mint_entry :: "syncEngine \<Rightarrow> bool \<Rightarrow> hlcStamp \<Rightarrow> nat \<Rightarrow> localWrite \<Rightarrow> changeEntry" where
  "mint_entry en preNormalized stamp seq w =
     (let kind = the (kind_of_val (lw_kind w)); recordId = str_of (lw_recordId w)
      in case w of
           WriteTombstone _ _ _ \<Rightarrow>
             \<lparr>ce_kind = kind, ce_recordId = recordId, ce_field = TOMBSTONE_FIELD, ce_value = JNull,
              ce_tombstone = True, ce_hlc = stamp, ce_deviceId = en_deviceId en, ce_seq = seq\<rparr>
         | WriteField _ _ f v \<Rightarrow>
             \<lparr>ce_kind = kind, ce_recordId = recordId, ce_field = str_of f,
              ce_value = (if preNormalized then v else sumComponentFor en kind recordId (str_of f) v),
              ce_tombstone = False, ce_hlc = stamp, ce_deviceId = en_deviceId en, ce_seq = seq\<rparr>)"

text \<open>The minting loop: the clock ticks once per input and keeps what it ticked when a later
  tick throws.\<close>

fun mint_entries :: "syncEngine \<Rightarrow> bool \<Rightarrow> nat \<Rightarrow> localWrite list \<Rightarrow> nat \<Rightarrow> hlcStamp \<Rightarrow>
    changeEntry list option \<times> hlcStamp" where
  "mint_entries en pre at_ms [] i clk = (Some [], clk)"
| "mint_entries en pre at_ms (w # ws) i clk =
     (case hlc_tick (jnat at_ms) clk of
        (Inl _, clk') \<Rightarrow> (None, clk')
      | (Inr stamp, clk') \<Rightarrow>
          (let (rest, clk'') = mint_entries en pre at_ms ws (i + 1) clk'
           in (map_option (Cons (mint_entry en pre stamp (en_localSeq en + i + 1) w)) rest, clk'')))"

text \<open>Merging entries one by one, collecting outcomes and divergence rows.\<close>

fun merge_all :: "mergeEnv \<Rightarrow> emitMode \<Rightarrow> changeEntry list \<Rightarrow> mergeState \<Rightarrow>
    (mergeOutcome list \<times> divergenceEntry list) \<times> mergeState" where
  "merge_all env em [] ms = (([], []), ms)"
| "merge_all env em (e # es) ms =
     (let ((o1, d1), ms1) = reduce env em e ms;
          ((os, ds), ms2) = merge_all env em es ms1
      in ((o1 # os, d1 @ ds), ms2))"

definition writeBody :: "opEnv \<Rightarrow> bool \<Rightarrow> localWrite list \<Rightarrow> nat \<Rightarrow> syncEngine \<Rightarrow>
    (changeEntry \<times> mergeOutcome) list result \<times> syncEngine" where
  "writeBody env pre inputs at_ms en =
     (case mint_entries en pre at_ms inputs 0 (en_clock en) of
        (None, clk) \<Rightarrow> (Inl fromUnknown, en\<lparr>en_clock := clk\<rparr>)
      | (Some entries, clk) \<Rightarrow>
          (case appendLog env entries None None (en\<lparr>en_clock := clk\<rparr>) of
             (Some e, en1) \<Rightarrow> (Inl e, en1)
           | (None, en1) \<Rightarrow>
               (let ((os, divs), ms) = merge_all (merge_env env en) EmitLive entries (en_ms en1);
                    en2 = en1\<lparr>en_localSeq := en_localSeq en1 + length entries, en_ms := ms\<rparr>
                in (Inr (zip entries os), appendDivergence env divs None en2))))"

fun first_invalid :: "localWrite list \<Rightarrow> appError option" where
  "first_invalid [] = None"
| "first_invalid (w # ws) = (case validLocalWrite w of Some e \<Rightarrow> Some e | None \<Rightarrow> first_invalid ws)"

definition writeChanges :: "opEnv \<Rightarrow> localWrite list \<Rightarrow> bool \<Rightarrow> syncEngine \<Rightarrow>
    (changeEntry \<times> mergeOutcome) list result \<times> syncEngine" where
  "writeChanges env inputs pre en =
     (if inputs = [] then (Inl (appError InvalidResponse ''empty local write'' None), en)
      else case first_invalid inputs of
             Some e \<Rightarrow> (Inl e, en)
           | None \<Rightarrow> runOp env (writeBody env pre inputs) en)"

fun firstWritten :: "(changeEntry \<times> mergeOutcome) list result \<Rightarrow> (changeEntry \<times> mergeOutcome) result" where
  "firstWritten (Inl e) = Inl e"
| "firstWritten (Inr []) = Inl (appError Internal ''local write produced no entry'' None)"
| "firstWritten (Inr (x # _)) = Inr x"

definition localChange :: "opEnv \<Rightarrow> localWrite \<Rightarrow> syncEngine \<Rightarrow>
    (changeEntry \<times> mergeOutcome) result \<times> syncEngine" where
  "localChange env w en = (let (r, en') = writeChanges env [w] False en in (firstWritten r, en'))"

section \<open>Diagnostics\<close>

definition divergenceHistory :: "syncKind option \<Rightarrow> string option \<Rightarrow> syncEngine \<Rightarrow> divergenceEntry list" where
  "divergenceHistory k i en =
     rev (filter (\<lambda>row. (k = None \<or> k = Some (dv_kind row)) \<and> (i = None \<or> i = Some (dv_recordId row)))
           (dh_rows (ms_div (en_ms en))))"

definition restoreLoser :: "opEnv \<Rightarrow> jsval \<Rightarrow> syncEngine \<Rightarrow>
    (changeEntry \<times> mergeOutcome) result \<times> syncEngine" where
  "restoreLoser env historyId en =
     (if \<not> isString historyId 64 then (Inl (appError InvalidResponse ''invalid history id'' None), en)
      else case find (\<lambda>d. dv_historyId d = str_of historyId) (dh_rows (ms_div (en_ms en))) of
             None \<Rightarrow> (Inl (appError NotFound ''unknown divergence entry'' None), en)
           | Some row \<Rightarrow>
               let input = (if ds_tombstone (dv_loser row)
                            then WriteTombstone (JStr (kind_str (dv_kind row))) (JStr (dv_recordId row)) (JBool True)
                            else WriteField (JStr (kind_str (dv_kind row))) (JStr (dv_recordId row))
                                   (JStr (dv_field row)) (ds_value (dv_loser row)));
                   (r, en') = writeChanges env [input] True en
               in (firstWritten r, en'))"

section \<open>Remote applies\<close>

text \<open>The members of a guarded delta document.\<close>

definition delta_sender :: "jsval \<Rightarrow> string" where
  "delta_sender doc = str_of (propOf doc ''senderDeviceId'')"

fun arr_elems :: "jsval \<Rightarrow> jsval list" where
  "arr_elems (JArr xs) = xs"
| "arr_elems _ = []"

definition cursor_of_val :: "jsval \<Rightarrow> (string, nat) jsmap" where
  "cursor_of_val v = map (\<lambda>(k, x). (k, nat_of_val x)) (obj_entries v)"

definition skips_of_val :: "jsval \<Rightarrow> skips" where
  "skips_of_val v = map (\<lambda>(k, x). (k, map nat_of_val (arr_elems x))) (obj_entries v)"

text \<open>The classification of the raw entries: rejects (with their index), and the valid entries in
  document order; \<open>inDoc\<close> holds the keys met so far.\<close>

fun classify :: "jsval list \<Rightarrow> nat \<Rightarrow> string list \<Rightarrow> mergeOutcome list \<times> changeEntry list" where
  "classify [] i inDoc = ([], [])"
| "classify (raw # raws) i inDoc =
     (case entry_of_val raw of
        None \<Rightarrow>
          (let (os, es) = classify raws (i + 1) inDoc
           in (Rejected i ''malformed or non-syncable entry'' # os, es))
      | Some e \<Rightarrow>
          if entryKey e \<in> set inDoc then
            (let (os, es) = classify raws (i + 1) inDoc
             in (Rejected i ''duplicate stamp within delta'' # os, es))
          else
            (let (os, es) = classify raws (i + 1) (entryKey e # inDoc) in (os, e # es)))"

text \<open>Receiving a list of stamps, \<open>None\<close> when one receive throws; the clock keeps the stamps
  received before.\<close>

fun receive_all :: "changeEntry list \<Rightarrow> nat \<Rightarrow> hlcStamp \<Rightarrow> bool \<times> hlcStamp" where
  "receive_all [] at_ms clk = (True, clk)"
| "receive_all (e # es) at_ms clk =
     (case hlc_receive (stamp_val (ce_hlc e)) (jnat at_ms) clk of
        (Inl _, clk') \<Rightarrow> (False, clk')
      | (Inr _, clk') \<Rightarrow> receive_all es at_ms clk')"

text \<open>The merge loop of an apply: \<open>None\<close> in the first component when a receive throws.\<close>

fun apply_all :: "mergeEnv \<Rightarrow> changeEntry list \<Rightarrow> nat \<Rightarrow> hlcStamp \<Rightarrow> mergeState \<Rightarrow>
    (mergeOutcome list \<times> divergenceEntry list) option \<times> hlcStamp \<times> mergeState" where
  "apply_all env [] at_ms clk ms = (Some ([], []), clk, ms)"
| "apply_all env (e # es) at_ms clk ms =
     (case hlc_receive (stamp_val (ce_hlc e)) (jnat at_ms) clk of
        (Inl _, clk') \<Rightarrow> (None, clk', ms)
      | (Inr _, clk') \<Rightarrow>
          (let ((o1, d1), ms1) = reduce env EmitLive e ms;
               (rest, clk2, ms2) = apply_all env es at_ms clk' ms1
           in (map_option (\<lambda>(os, ds). (o1 # os, d1 @ ds)) rest, clk2, ms2)))"

definition recordSnapshot :: "syncEngine \<Rightarrow> changeEntry \<Rightarrow> materializedRecord" where
  "recordSnapshot en e =
     (case map_of (ms_records (en_ms en)) (entry_record_key e) of
        None \<Rightarrow> \<lparr>mr_kind = ce_kind e, mr_recordId = ce_recordId e, mr_fields = fieldsOf None,
                 mr_sumComponents = [], mr_winnerDeviceIds = []\<rparr>
      | Some r \<Rightarrow> (materializedOf r)\<lparr>mr_kind := ce_kind e, mr_recordId := ce_recordId e\<rparr>)"

definition stamp_outcome :: "syncEngine \<Rightarrow> mergeOutcome \<Rightarrow> mergeOutcome \<times> materializedRecord option" where
  "stamp_outcome en oc =
     (oc, (case oc of Applied e _ \<Rightarrow> Some (recordSnapshot en e) | _ \<Rightarrow> None))"

record applyResult =
  ar_sender :: string
  ar_entries :: "changeEntry list"
  ar_outcomes :: "(mergeOutcome \<times> materializedRecord option) list"
  ar_divergence :: "divergenceEntry list"
  ar_cursor :: "(string, nat) jsmap"

definition is_fresh :: "syncEngine \<Rightarrow> changeEntry \<Rightarrow> bool" where
  "is_fresh en e = (entryKey e \<notin> lg_seen (en_log en))"

text \<open>What follows the durable append: the merge to completion, the compaction and the
  divergence write.\<close>

definition finishApply :: "opEnv \<Rightarrow> jsval \<Rightarrow> nat \<Rightarrow> mergeOutcome list \<Rightarrow> changeEntry list \<Rightarrow>
    syncEngine \<Rightarrow> applyResult result \<times> syncEngine" where
  "finishApply env doc at_ms outcomes fresh en =
     (case apply_all (merge_env env en) fresh at_ms (en_clock en) (en_ms en) of
        (None, clk, ms) \<Rightarrow> (Inl fromUnknown, en\<lparr>en_clock := clk, en_ms := ms\<rparr>)
      | (Some (os, divs), clk, ms) \<Rightarrow>
          (let en1 = en\<lparr>en_clock := clk, en_ms := ms\<rparr>;
               en2 = appendDivergence env divs (Some (planCompaction en1)) en1
           in (Inr \<lparr>ar_sender = delta_sender doc, ar_entries = fresh,
                     ar_outcomes = map (stamp_outcome en2) (outcomes @ os),
                     ar_divergence = divs, ar_cursor = cursorSnapshot (en_marks en2)\<rparr>, en2)))"

definition applyBody :: "opEnv \<Rightarrow> jsval \<Rightarrow> string option \<Rightarrow> nat \<Rightarrow> syncEngine \<Rightarrow>
    applyResult result \<times> syncEngine" where
  "applyBody env doc senderDeviceId at_ms en =
     (let sender = delta_sender doc;
          skipped = skips_of_val (propOf doc ''skipped'');
          (rejects, raws) = classify (arr_elems (propOf doc ''entries'')) 0 [];
          valid = sort_by compareEntryTs raws
      in if \<not> fst (receive_all valid at_ms (en_clock en)) then (Inl fromUnknown, en)
         else
           let fresh = filter (is_fresh en) valid;
               outcomes = rejects @ map Duplicate (filter (\<lambda>e. \<not> is_fresh en e) valid);
               en1 = (case senderDeviceId of
                        None \<Rightarrow> en
                      | Some _ \<Rightarrow> notePeerCursor sender (cursor_of_val (propOf doc ''cursor'')) en);
               row = (case senderDeviceId of
                        None \<Rightarrow> None
                      | Some _ \<Rightarrow> map_option (Pair sender) (map_of (en_peers en1) sender));
               needsLog = (fresh \<noteq> [] \<or> skipped \<noteq> [] \<or> sender \<in> set (en_dirty en1))
           in if needsLog then
                (case appendLog env fresh (Some skipped) row en1 of
                   (Some e, en2) \<Rightarrow> (Inl e, en2)
                 | (None, en2) \<Rightarrow> finishApply env doc at_ms outcomes fresh en2)
              else finishApply env doc at_ms outcomes fresh en1)"

definition applyDelta :: "opEnv \<Rightarrow> jsval \<Rightarrow> string option \<Rightarrow> syncEngine \<Rightarrow>
    applyResult result \<times> syncEngine" where
  "applyDelta env doc senderDeviceId en =
     (if \<not> isSyncDelta doc then (Inl (appError InvalidMessage ''malformed sync delta'' None), en)
      else if senderDeviceId \<noteq> None \<and> senderDeviceId \<noteq> Some (delta_sender doc)
      then (Inl (appError InvalidMessage ''sync: forged senderDeviceId'' None), en)
      else runOp env (applyBody env doc senderDeviceId) en)"

text \<open>\<open>exportDelta\<close> behind its argument checks.\<close>

definition exportOp :: "opEnv \<Rightarrow> jsval \<Rightarrow> jsval \<Rightarrow> syncEngine \<Rightarrow> syncDelta result \<times> syncEngine" where
  "exportOp env since limit en =
     (if since \<noteq> JUndef \<and> \<not> isSyncCursor since
      then (Inl (appError InvalidResponse ''invalid sync cursor'' None), en)
      else if \<not> isSafeNonNegative limit \<or> nat_of_val limit < 1
      then (Inl (appError InvalidResponse ''invalid delta limit'' None), en)
      else runOp env
        (\<lambda>at_ms en.
           let (d, lg) = exportDelta (en_deviceId en)
                 (if since = JUndef then None else Some (cursor_of_val since))
                 (nat_of_val limit) at_ms (en_marks en) (en_log en)
           in (Inr d, en\<lparr>en_log := lg\<rparr>)) en)"

section \<open>Hydration\<close>

record syncLogSnapshot =
  sn_entries :: "changeEntry list"
  sn_divergence :: "divergenceEntry list"
  sn_watermarks :: "(string, nat) jsmap"
  sn_divergenceFloor :: "nat option"
  sn_replayOffset :: "nat option"
  sn_droppedEmissions :: "nat list option"
  sn_peerMarks :: "(string, (string, nat) jsmap) jsmap option"

definition or_zero :: "nat option \<Rightarrow> nat" where
  "or_zero x = (case x of None \<Rightarrow> 0 | Some n \<Rightarrow> n)"

text \<open>The divergence state before the replay: the stored rows seed the dedupe set, the
  accumulated retired ordinals the replay cursor.\<close>

definition hydrate_div :: "syncLogSnapshot \<Rightarrow> divState" where
  "hydrate_div sn =
     skipRetiredOrdinals
       \<lparr>dh_rows = sn_divergence sn,
        dh_seen = (\<lambda>row. divergenceKey (dv_kind row) (dv_recordId row) (dv_field row) (dv_loser row)) `
                    set (sn_divergence sn),
        dh_seq = fold max (map dv_seq (sn_divergence sn)) 0, dh_minted = 0, dh_replaySeen = {},
        dh_emittedAt = [],
        dh_dropped = sort (remdups (case sn_droppedEmissions sn of None \<Rightarrow> [] | Some ns \<Rightarrow> ns)),
        dh_droppedCursor = 0, dh_nextOrdinal = or_zero (sn_replayOffset sn) + 1,
        dh_floor = or_zero (sn_divergenceFloor sn)\<rparr>"

definition empty_engine :: "string \<Rightarrow> divState \<Rightarrow> syncEngine" where
  "empty_engine dev d =
     \<lparr>en_deviceId = dev, en_ms = empty_merge d,
      en_log = \<lparr>lg_lanes = [], lg_seen = {}, lg_retiredTail = []\<rparr>,
      en_marks = no_marks, en_peers = [], en_stale = [], en_dirty = [], en_localSeq = 0,
      en_clock = Stamp 0 0\<rparr>"

definition hydrate_entry :: "opEnv \<Rightarrow> changeEntry \<Rightarrow>
    divergenceEntry list \<times> hlcStamp option \<times> syncEngine \<Rightarrow>
    divergenceEntry list \<times> hlcStamp option \<times> syncEngine" where
  "hydrate_entry env e acc =
     (let (repairs, highest, en) = acc;
          ((_, ds), ms) = reduce (merge_env env en) EmitRepair e (en_ms en)
      in (repairs @ ds,
          (case highest of None \<Rightarrow> Some (ce_hlc e)
                         | Some h \<Rightarrow> if 0 < compareStamp (ce_hlc e) h then Some (ce_hlc e) else highest),
          en\<lparr>en_log := indexEntry e (en_log en),
             en_marks := foldSeq (ce_deviceId e) (ce_seq e) (en_marks en),
             en_localSeq := (if ce_deviceId e = en_deviceId en \<and> en_localSeq en < ce_seq e
                             then ce_seq e else en_localSeq en),
             en_ms := ms\<rparr>))"

definition merge_watermarks :: "(string, nat) jsmap \<Rightarrow> markState \<Rightarrow> markState" where
  "merge_watermarks ws st =
     fold (\<lambda>(dev, mark) st. st\<lparr>mk_contiguous :=
             AList.update dev (max mark (map_get_or 0 (mk_contiguous st) dev)) (mk_contiguous st)\<rparr>) ws st"

text \<open>The hydrated engine. A failed repair write is only logged.\<close>

definition hydrate :: "opEnv \<Rightarrow> string \<Rightarrow> syncLogSnapshot \<Rightarrow> syncEngine" where
  "hydrate env dev sn =
     (let (repairs, highest, en) = fold (hydrate_entry env) (sn_entries sn)
            ([], None, empty_engine dev (hydrate_div sn));
          en1 = en\<lparr>en_marks := merge_watermarks (sn_watermarks sn) (en_marks en),
                   en_stale := remdups (map fst (case sn_peerMarks sn of None \<Rightarrow> [] | Some p \<Rightarrow> p)),
                   en_clock := (case highest of None \<Rightarrow> Stamp 0 0 | Some h \<Rightarrow> h)\<rparr>
      in if repairs = [] then en1
         else en1\<lparr>en_ms := (en_ms en1)\<lparr>ms_div := snd (pruneDivergence (ms_div (en_ms en1)))\<rparr>\<rparr>)"

section \<open>Opening the engine\<close>

definition isSyncLogSnapshot :: "jsval \<Rightarrow> bool" where
  [guard_defs]: "isSyncLogSnapshot v =
     (isRecord v \<and> isArr (list_all isChangeEntry) (propOf v ''entries'') \<and>
      isArr (list_all isDivergenceEntry) (propOf v ''divergence'') \<and>
      isRecord (propOf v ''watermarks'') \<and> isSyncCursor (propOf v ''watermarks'') \<and>
      optional isOptSafeNonNegative (propOf v ''divergenceFloor'') \<and>
      optional isOptSafeNonNegative (propOf v ''divergenceReplayOffset'') \<and>
      optional (isArr (list_all isEmissionSeq)) (propOf v ''divergenceDroppedEmissions'') \<and>
      optional isPeerMarks (propOf v ''peerMarks''))"

text \<open>The members of a guarded snapshot document.\<close>

definition side_of_val :: "jsval \<Rightarrow> divergenceSide" where
  "side_of_val v =
     \<lparr>ds_deviceId = str_of (propOf v ''deviceId''), ds_hlc = the (stamp_of_val (propOf v ''hlc'')),
      ds_tombstone = (propOf v ''tombstone'' = JBool True), ds_value = propOf v ''value''\<rparr>"

definition divergence_of_val :: "jsval \<Rightarrow> divergenceEntry" where
  "divergence_of_val v =
     \<lparr>dv_historyId = str_of (propOf v ''historyId''), dv_seq = nat_of_val (propOf v ''seq''),
      dv_kind = the (kind_of_val (propOf v ''kind'')), dv_recordId = str_of (propOf v ''recordId''),
      dv_field = str_of (propOf v ''field''), dv_loser = side_of_val (propOf v ''loser''),
      dv_winner = side_of_val (propOf v ''winner''), dv_observedMs = nat_of_val (propOf v ''observedMs''),
      dv_local = (propOf v ''origin'' = JStr ''local'')\<rparr>"

fun opt_of_val :: "(jsval \<Rightarrow> 'a) \<Rightarrow> jsval \<Rightarrow> 'a option" where
  "opt_of_val f JUndef = None"
| "opt_of_val f JNull = None"
| "opt_of_val f v = Some (f v)"

definition snapshot_of_val :: "jsval \<Rightarrow> syncLogSnapshot" where
  "snapshot_of_val v =
     \<lparr>sn_entries = map (the \<circ> entry_of_val) (arr_elems (propOf v ''entries'')),
      sn_divergence = map divergence_of_val (arr_elems (propOf v ''divergence'')),
      sn_watermarks = cursor_of_val (propOf v ''watermarks''),
      sn_divergenceFloor = opt_of_val nat_of_val (propOf v ''divergenceFloor''),
      sn_replayOffset = opt_of_val nat_of_val (propOf v ''divergenceReplayOffset''),
      sn_droppedEmissions =
        opt_of_val (\<lambda>x. map nat_of_val (arr_elems x)) (propOf v ''divergenceDroppedEmissions''),
      sn_peerMarks =
        opt_of_val (\<lambda>x. map (\<lambda>(s, c). (s, cursor_of_val c)) (obj_entries x)) (propOf v ''peerMarks'')\<rparr>"

definition createSyncEngine :: "opEnv \<Rightarrow> jsval \<Rightarrow> jsval result \<Rightarrow> syncEngine result" where
  "createSyncEngine env deviceId loaded =
     (if \<not> isString deviceId max_device_id
      then Inl (appError InvalidResponse ''invalid sync engine deps'' None)
      else case op_now env of
             None \<Rightarrow> Inl (appError Internal ''clock returned an unsafe timestamp'' None)
           | Some _ \<Rightarrow>
               (case loaded of
                  Inl e \<Rightarrow> Inl e
                | Inr doc \<Rightarrow>
                    if \<not> isSyncLogSnapshot doc
                    then Inl (appError InvalidResponse ''sync log snapshot invalid'' None)
                    else Inr (hydrate env (str_of deviceId) (snapshot_of_val doc))))"

end
