(* ===== verification/SyncSafety.thy ===== *)
theory SyncSafety
  imports SyncEngine
begin

text \<open>
  The invariant of a sync engine relative to the set of entries it has ever accepted, kept by
  every operation: the merge state is the specified one, the log still holds every entry the
  merge refers to, the marks are settled, and the clock is at or above every stamp. From it:
  compaction drops only what every peer has acknowledged and the merge no longer needs, a
  restart rebuilds the same view, and a merge that has become durable never fails.
\<close>

section \<open>Compaction\<close>

definition floor_of :: "syncEngine \<Rightarrow> string \<Rightarrow> nat" where
  "floor_of en dev = (case peer_floor (en_peers en) dev of None \<Rightarrow> 0 | Some f \<Rightarrow> f)"

text \<open>What a plan drops of a lane.\<close>

definition drops :: "syncEngine \<Rightarrow> string \<Rightarrow> changeEntry \<Rightarrow> bool" where
  "drops en dev e =
     (en_peers en \<noteq> [] \<and> en_stale en = [] \<and> ce_seq e \<le> floor_of en dev \<and> 0 < floor_of en dev \<and>
      \<not> keeps_entry en dev e)"

lemma peer_floor_le: "peer_floor ps dev = Some f \<Longrightarrow> (s, marks) \<in> set ps \<Longrightarrow> f \<le> map_get_or 0 marks dev"
proof (induction ps arbitrary: f)
  case (Cons p ps)
  obtain s' m' where p: "p = (s', m')" by force
  show ?case
  proof (cases "peer_floor ps dev")
    case None
    then have "ps = []" by (cases ps) (auto simp: Let_def split: option.splits)
    with Cons.prems p show ?thesis by (auto simp: Let_def)
  next
    case (Some f')
    then have "f = min (map_get_or 0 m' dev) f'" using Cons.prems(1) p by (simp add: Let_def)
    then show ?thesis
      using Cons.IH [OF Some] Cons.prems(2) p by auto
  qed
qed simp

lemma takeWhile_sorted_filter:
  "sorted (map ce_seq xs) \<Longrightarrow> takeWhile (\<lambda>e. ce_seq e \<le> a) xs = filter (\<lambda>e. ce_seq e \<le> a) xs"
proof (induction xs)
  case (Cons x xs)
  show ?case
  proof (cases "ce_seq x \<le> a")
    case False
    then have "filter (\<lambda>e. ce_seq e \<le> a) (x # xs) = []"
      using Cons.prems by (auto simp: filter_empty_conv)
    with False show ?thesis by simp
  qed (use Cons in simp)
qed simp

lemma dropWhile_sorted_filter:
  "sorted (map ce_seq xs) \<Longrightarrow> dropWhile (\<lambda>e. ce_seq e \<le> a) xs = filter (\<lambda>e. \<not> ce_seq e \<le> a) xs"
proof (induction xs)
  case (Cons x xs)
  show ?case
  proof (cases "ce_seq x \<le> a")
    case False
    then have "filter (\<lambda>e. \<not> ce_seq e \<le> a) (x # xs) = x # xs"
      using Cons.prems by (auto simp: filter_id_conv)
    with False show ?thesis by simp
  qed (use Cons in simp)
qed simp

lemma compacted_lane:
  assumes "sorted (map ce_seq xs)"
  shows "filter P (takeWhile (\<lambda>e. ce_seq e \<le> a) xs) @ drop (length (takeWhile (\<lambda>e. ce_seq e \<le> a) xs)) xs =
         filter (\<lambda>e. ce_seq e \<le> a \<longrightarrow> P e) xs"
proof -
  have d: "drop (length (takeWhile (\<lambda>e. ce_seq e \<le> a) xs)) xs = dropWhile (\<lambda>e. ce_seq e \<le> a) xs"
    by (simp only: dropWhile_eq_drop)
  have "filter (\<lambda>e. ce_seq e \<le> a \<longrightarrow> P e) (takeWhile (\<lambda>e. ce_seq e \<le> a) xs) =
      filter P (takeWhile (\<lambda>e. ce_seq e \<le> a) xs)"
    by (rule filter_cong [OF refl]) (auto dest: set_takeWhileD)
  moreover have "filter (\<lambda>e. ce_seq e \<le> a \<longrightarrow> P e) (dropWhile (\<lambda>e. ce_seq e \<le> a) xs) =
      dropWhile (\<lambda>e. ce_seq e \<le> a) xs"
    by (rule filter_True) (simp add: dropWhile_sorted_filter [OF assms])
  ultimately show ?thesis
    unfolding d using filter_append [of "\<lambda>e. ce_seq e \<le> a \<longrightarrow> P e" "takeWhile (\<lambda>e. ce_seq e \<le> a) xs"
        "dropWhile (\<lambda>e. ce_seq e \<le> a) xs"] by (simp only: takeWhile_dropWhile_id)
qed

lemma plan_lane_facts:
  assumes "sorted (map ce_seq list)" "en_peers en \<noteq> []" "en_stale en = []"
  shows "cp_dropped (plan_lane en (dev, list) p) = cp_dropped p @ filter (drops en dev) list"
    and "cp_lanes (plan_lane en (dev, list) p) =
         (if filter (drops en dev) list = [] then cp_lanes p
          else cp_lanes p @ [(dev, filter (\<lambda>e. \<not> drops en dev e) list)])"
proof -
  let ?fl = "floor_of en dev"
  let ?pre = "takeWhile (\<lambda>e. ce_seq e \<le> ?fl) list"
  have gone: "filter (\<lambda>e. \<not> keeps_entry en dev e) ?pre = filter (drops en dev) list" if "0 < ?fl"
    using that assms by (auto simp: takeWhile_sorted_filter drops_def intro!: filter_cong)
  have kept: "filter (keeps_entry en dev) ?pre @ drop (length ?pre) list = filter (\<lambda>e. \<not> drops en dev e) list"
    if "0 < ?fl"
    using that assms by (auto simp: compacted_lane drops_def intro!: filter_cong)
  have len: "length (filter (keeps_entry en dev) ?pre) \<noteq> length ?pre \<longleftrightarrow>
      filter (\<lambda>e. \<not> keeps_entry en dev e) ?pre \<noteq> []"
    using sum_length_filter_compl [of "keeps_entry en dev" ?pre] by (metis add_cancel_right_right length_0_conv)
  show "cp_dropped (plan_lane en (dev, list) p) = cp_dropped p @ filter (drops en dev) list"
    using gone by (auto simp: plan_lane_def Let_def simp flip: floor_of_def) (simp add: drops_def)
  show "cp_lanes (plan_lane en (dev, list) p) =
         (if filter (drops en dev) list = [] then cp_lanes p
          else cp_lanes p @ [(dev, filter (\<lambda>e. \<not> drops en dev e) list)])"
  proof (cases "?fl = 0")
    case True
    then have "filter (drops en dev) list = []" by (simp add: drops_def)
    with True show ?thesis by (simp add: plan_lane_def Let_def flip: floor_of_def)
  next
    case False
    then show ?thesis
      using gone kept len by (simp add: plan_lane_def Let_def flip: floor_of_def)
  qed
qed

text \<open>The whole plan.\<close>

lemma plan_facts:
  assumes "\<forall>(d, xs)\<in>set lanes. sorted (map ce_seq xs)" "en_peers en \<noteq> []" "en_stale en = []"
  shows "cp_dropped (fold (plan_lane en) lanes p) =
           cp_dropped p @ concat (map (\<lambda>(d, xs). filter (drops en d) xs) lanes) \<and>
         cp_lanes (fold (plan_lane en) lanes p) =
           cp_lanes p @ map (\<lambda>(d, xs). (d, filter (\<lambda>e. \<not> drops en d e) xs))
             (filter (\<lambda>(d, xs). filter (drops en d) xs \<noteq> []) lanes)"
  using assms(1)
proof (induction lanes arbitrary: p)
  case (Cons l lanes)
  obtain d xs where l: "l = (d, xs)" by force
  have s: "sorted (map ce_seq xs)" using Cons.prems l by simp
  note f = plan_lane_facts [OF s assms(2,3), of d p]
  show ?case
    using Cons.IH [of "plan_lane en l p"] Cons.prems f unfolding l by simp
qed simp

lemma install_lanes:
  assumes "distinct (map fst ls)"
  shows "map_of (fold (\<lambda>(d, xs) m. AList.update d xs m) ls m) k =
         (case map_of ls k of Some xs \<Rightarrow> Some xs | None \<Rightarrow> map_of m k)"
  using assms
proof (induction ls arbitrary: m)
  case (Cons l ls)
  obtain d xs where l: "l = (d, xs)" by force
  have "map_of ls d = None" using Cons.prems l by (simp add: map_of_eq_None_iff)
  then show ?case
    using Cons l by (auto split: option.splits)
qed simp

lemma map_of_filter_lanes:
  "distinct (map fst ls) \<Longrightarrow>
   map_of (map (\<lambda>(d, xs). (d, g d xs)) (filter (\<lambda>(d, xs). P d xs) ls)) k =
     (case map_of ls k of Some xs \<Rightarrow> if P k xs then Some (g k xs) else None | None \<Rightarrow> None)"
proof (induction ls)
  case (Cons l ls)
  obtain d xs where l: "l = (d, xs)" by force
  show ?case
  proof (cases "d = k")
    case True
    then have "map_of ls k = None" using Cons.prems l by (simp add: map_of_eq_None_iff)
    then show ?thesis using Cons l True by simp
  next
    case False
    then show ?thesis using Cons l by simp
  qed
qed simp

lemma distinct_fst_map_filter:
  "distinct (map fst ls) \<Longrightarrow> distinct (map fst (map (\<lambda>(d, xs). (d, g d xs)) (filter P ls)))"
proof -
  have "map fst (map (\<lambda>(d, xs). (d, g d xs)) ys) = map fst ys" for ys :: "('a \<times> 'b) list"
    by (induction ys) auto
  then show "distinct (map fst ls) \<Longrightarrow> ?thesis"
    by (simp only: distinct_map_filter)
qed

text \<open>A committed plan leaves each lane its undropped entries.\<close>

lemma compacted_lanes:
  assumes dist: "distinct (map fst (lg_lanes (en_log en)))" and ok: "lanes_ok (en_log en)"
  shows "lane (en_log (commitCompaction (planCompaction en) en)) d =
         filter (\<lambda>e. \<not> drops en d e) (lane (en_log en) d)"
proof (cases "en_peers en = [] \<or> en_stale en \<noteq> []")
  case True
  then show ?thesis
    by (auto simp: planCompaction_def commitCompaction_def lane_def drops_def)
next
  case False
  let ?ls = "lg_lanes (en_log en)"
  have sorted: "\<forall>(d, xs)\<in>set ?ls. sorted (map ce_seq xs)"
  proof clarify
    fix d xs assume "(d, xs) \<in> set ?ls"
    then have "lane (en_log en) d = xs" using dist by (simp add: lane_def map_get_or_def)
    then show "sorted (map ce_seq xs)" using ok by (auto simp: lanes_ok_def)
  qed
  define keep where "keep = (\<lambda>d. filter (\<lambda>e. \<not> drops en d e))"
  have lanes: "cp_lanes (planCompaction en) =
      map (\<lambda>(d, xs). (d, keep d xs)) (filter (\<lambda>(d, xs). filter (drops en d) xs \<noteq> []) ?ls)"
    using False plan_facts [OF sorted, of en] by (simp add: planCompaction_def keep_def)
  have "map_of (fold (\<lambda>(d, xs) m. AList.update d xs m) (cp_lanes (planCompaction en)) ?ls) d =
      map_option (keep d) (map_of ?ls d)"
    unfolding lanes install_lanes [OF distinct_fst_map_filter [OF dist]] map_of_filter_lanes [OF dist]
    by (auto simp: keep_def filter_empty_conv filter_id_conv split: option.splits)
  then show ?thesis
    by (simp add: commitCompaction_def lane_def map_get_or_def keep_def split: option.split)
qed

lemma compacted_logged:
  assumes dist: "distinct (map fst (lg_lanes (en_log en)))" and ok: "lanes_ok (en_log en)"
  shows "lanes_ok (en_log (commitCompaction (planCompaction en) en))"
    and "logged (en_log (commitCompaction (planCompaction en) en)) =
           {e \<in> logged (en_log en). \<not> drops en (ce_deviceId e) e}"
proof -
  note lanes = compacted_lanes [OF dist ok]
  show ok': "lanes_ok (en_log (commitCompaction (planCompaction en) en))"
    using ok by (simp add: lanes_ok_def lanes sorted_filter)
  show "logged (en_log (commitCompaction (planCompaction en) en)) =
      {e \<in> logged (en_log en). \<not> drops en (ce_deviceId e) e}"
    using logged_iff [OF ok'] logged_iff [OF ok] lanes by auto
qed

lemma plan_dropped:
  assumes dist: "distinct (map fst (lg_lanes (en_log en)))" and ok: "lanes_ok (en_log en)"
    and e: "e \<in> set (cp_dropped (planCompaction en))"
  shows "e \<in> logged (en_log en)" "drops en (ce_deviceId e) e"
proof -
  have F: "en_peers en \<noteq> []" "en_stale en = []"
    using e by (cases "en_peers en = [] \<or> en_stale en \<noteq> []"; simp add: planCompaction_def)+
  let ?ls = "lg_lanes (en_log en)"
  have lane: "lane (en_log en) d = xs" if "(d, xs) \<in> set ?ls" for d xs
    using dist that by (simp add: lane_def map_get_or_def)
  have sorted: "\<forall>(d, xs)\<in>set ?ls. sorted (map ce_seq xs)"
    using lane ok by (auto simp: lanes_ok_def)
  have "e \<in> set (concat (map (\<lambda>(d, xs). filter (drops en d) xs) ?ls))"
    using e F plan_facts [OF sorted F] by (simp add: planCompaction_def)
  then obtain d xs where d: "(d, xs) \<in> set ?ls" "e \<in> set xs" "drops en d e" by auto
  then have "ce_deviceId e = d" "e \<in> set (lane (en_log en) d)"
    using lane [OF d(1)] ok by (auto simp: lanes_ok_def)
  then show "e \<in> logged (en_log en)" "drops en (ce_deviceId e) e"
    using d(3) by (auto simp: logged_def)
qed

section \<open>The engine invariant\<close>

text \<open>No entry is indexed twice, and the dry-tail cache tells the truth.\<close>

definition log_fine :: "logState \<Rightarrow> bool" where
  "log_fine lg = ((\<forall>d. distinct (lane lg d)) \<and> cache_ok lg (lg_retiredTail lg))"

lemma log_fine_index:
  assumes "lanes_ok lg" "log_fine lg" "e \<notin> logged lg"
  shows "log_fine (indexEntry e lg)"
proof -
  have "distinct (lane (indexEntry e lg) d)" for d
  proof (cases "d = ce_deviceId e")
    case True
    have "mset (insert_lane e (lane lg d)) = mset (e # lane lg d)"
      using assms(1) by (simp add: insert_lane_props lanes_ok_def)
    moreover have "distinct (e # lane lg d)"
      using assms(2,3) by (auto simp: log_fine_def logged_def)
    ultimately show ?thesis
      using True mset_eq_imp_distinct_iff by (metis lane_indexEntry)
  qed (use assms(2) in \<open>simp add: lane_indexEntry log_fine_def\<close>)
  moreover have "cache_ok (indexEntry e lg) (lg_retiredTail (indexEntry e lg))"
    using assms(2) unfolding cache_ok_def log_fine_def
    by (auto simp: lane_indexEntry) (auto simp: indexEntry_def split: if_splits)
  ultimately show ?thesis by (simp add: log_fine_def)
qed

lemma log_fine_all:
  "lanes_ok lg \<Longrightarrow> log_fine lg \<Longrightarrow> distinct es \<Longrightarrow> set es \<inter> logged lg = {} \<Longrightarrow>
     log_fine (fold indexEntry es lg)"
  by (induction es arbitrary: lg) (simp_all add: indexEntry_ok log_fine_index logged_indexEntry)

text \<open>Every indexed entry has been folded into its device's mark, and the newest entry this
  device minted is still indexed.\<close>

definition marks_cover :: "markState \<Rightarrow> changeEntry set \<Rightarrow> bool" where
  "marks_cover st L = (\<forall>e\<in>L. ce_seq e \<in> observed (lane_of st (ce_deviceId e)))"

definition newest_logged :: "syncEngine \<Rightarrow> bool" where
  "newest_logged en =
     (0 < en_localSeq en \<longrightarrow>
        (\<exists>e\<in>logged (en_log en). ce_deviceId e = en_deviceId en \<and> ce_seq e = en_localSeq en))"

lemma commitSeqs_observed:
  assumes "marks_inv st"
  shows "observed (lane_of (commitSeqs es sk st) d) =
    observed (lane_of st d) \<union> (set (seqs_of d (entry_pairs es @ skip_pairs sk)) - {0})"
  using fold1s_props [of "lane_of st d"] assms by (simp add: lane_of_commit marks_inv_def)

lemma marks_cover_commit:
  assumes "marks_inv st" "marks_cover st L" "\<forall>e\<in>set es. 1 \<le> ce_seq e"
  shows "marks_cover (commitSeqs es sk st) (L \<union> set es)"
proof -
  have "ce_seq e \<in> set (seqs_of (ce_deviceId e) (entry_pairs es @ skip_pairs sk)) - {0}" if "e \<in> set es" for e
    using that assms(3) by (force simp: seqs_of_def entry_pairs_def)
  then show ?thesis
    using assms(2) unfolding marks_cover_def commitSeqs_observed [OF assms(1)] by blast
qed

lemma marks_cover_subset: "marks_cover st L \<Longrightarrow> L' \<subseteq> L \<Longrightarrow> marks_cover st L'"
  by (auto simp: marks_cover_def)

definition engine_inv :: "syncEngine \<Rightarrow> changeEntry set \<Rightarrow> bool" where
  "engine_inv en S =
     (admissible S \<and> state_inv (en_ms en) S \<and>
      lanes_ok (en_log en) \<and> distinct (map fst (lg_lanes (en_log en))) \<and>
      logged (en_log en) \<subseteq> S \<and> ms_live (en_ms en) \<subseteq> logged (en_log en) \<and>
      lg_seen (en_log en) = entryKey ` logged (en_log en) \<and>
      marks_inv (en_marks en) \<and> log_fine (en_log en) \<and>
      marks_cover (en_marks en) (logged (en_log en)) \<and> newest_logged en \<and>
      stamp_ok (en_clock en) \<and> (\<forall>e\<in>S. ce_hlc e \<le> en_clock en))"

lemma lanes_distinct_index: "distinct (map fst (lg_lanes lg)) \<Longrightarrow> distinct (map fst (lg_lanes (indexEntry e lg)))"
  by (simp add: indexEntry_def distinct_update)

lemma seen_index: "lg_seen (indexEntry e lg) = insert (entryKey e) (lg_seen lg)"
  by (simp add: indexEntry_def)

text \<open>The log after indexing a list of entries.\<close>

lemma index_all:
  assumes "lanes_ok lg" "distinct (map fst (lg_lanes lg))" "lg_seen lg = entryKey ` logged lg"
  shows "lanes_ok (fold indexEntry es lg) \<and> distinct (map fst (lg_lanes (fold indexEntry es lg))) \<and>
    logged (fold indexEntry es lg) = logged lg \<union> set es \<and>
    lg_seen (fold indexEntry es lg) = entryKey ` logged (fold indexEntry es lg)"
  using assms
proof (induction es arbitrary: lg)
  case (Cons e es)
  have "lanes_ok (indexEntry e lg)" "distinct (map fst (lg_lanes (indexEntry e lg)))"
      "logged (indexEntry e lg) = insert e (logged lg)"
    using Cons.prems by (simp_all add: indexEntry_ok lanes_distinct_index logged_indexEntry)
  moreover have "lg_seen (indexEntry e lg) = entryKey ` logged (indexEntry e lg)"
    using Cons.prems by (simp add: seen_index logged_indexEntry)
  ultimately show ?case
    using Cons.IH [of "indexEntry e lg"] by simp
qed simp

lemma merge_all_state: "snd (merge_all env em es ms) = fold (merge_step env em) es ms"
  by (induction es arbitrary: ms) (simp_all add: merge_step_def Let_def case_prod_beta)

lemma merge_live_new: "ms_live (fold (merge_step env em) es ms) \<subseteq> ms_live ms \<union> set es"
proof (induction es arbitrary: ms)
  case (Cons e es)
  have "set (rd_added (reduceEntry e r)) \<subseteq> {e}" for r
    by (auto simp: reduceEntry_def reduceTombstone_def reduceField_def reduceWinner_def
        reduceLoser_def liveInsert_def Let_def split: option.splits if_splits)
  then have "ms_live (merge_step env em e ms) \<subseteq> insert e (ms_live ms)"
    by (auto simp: merge_step_live)
  with Cons [of "merge_step env em e ms"] show ?case by auto
qed simp

text \<open>Changes that keep everything the invariant reads.\<close>

lemma engine_inv_cong:
  assumes "engine_inv en S"
    and "ms_records (en_ms en') = ms_records (en_ms en)" "ms_live (en_ms en') = ms_live (en_ms en)"
    and "en_log en' = en_log en" "en_marks en' = en_marks en" "en_clock en' = en_clock en"
    and "en_localSeq en' = en_localSeq en" "en_deviceId en' = en_deviceId en"
  shows "engine_inv en' S"
  using assms by (simp add: engine_inv_def state_inv_def newest_logged_def)

text \<open>The merge and log part of a durable append followed by the merge of its entries.\<close>

lemma engine_inv_extend:
  assumes inv: "engine_inv en S" and adm: "admissible (S \<union> set es)"
    and ms: "ms_records (en_ms en') = ms_records (fold (merge_step env em) es (en_ms en))"
      "ms_live (en_ms en') = ms_live (fold (merge_step env em) es (en_ms en))"
    and lg: "en_log en' = fold indexEntry es (en_log en)"
    and new: "distinct es" "set es \<inter> logged (en_log en) = {}"
    and marks: "en_marks en' = commitSeqs es sk (en_marks en)"
    and newest: "newest_logged en'"
    and clk: "stamp_ok (en_clock en')" "\<forall>e\<in>S \<union> set es. ce_hlc e \<le> en_clock en'"
  shows "engine_inv en' (S \<union> set es)"
proof -
  have st: "state_inv (fold (merge_step env em) es (en_ms en)) (S \<union> set es)"
    using inv adm by (intro merge_fold_inv) (simp_all add: engine_inv_def)
  then have "state_inv (en_ms en') (S \<union> set es)"
    using ms by (simp add: state_inv_def)
  moreover have "lanes_ok (en_log en)" "distinct (map fst (lg_lanes (en_log en)))"
      "lg_seen (en_log en) = entryKey ` logged (en_log en)" "logged (en_log en) \<subseteq> S"
      "ms_live (en_ms en) \<subseteq> logged (en_log en)"
    using inv by (simp_all add: engine_inv_def)
  moreover from index_all [OF this(1-3), of es] have
    "lanes_ok (en_log en')" "distinct (map fst (lg_lanes (en_log en')))"
      "logged (en_log en') = logged (en_log en) \<union> set es"
      "lg_seen (en_log en') = entryKey ` logged (en_log en')"
    by (simp_all add: lg)
  moreover have "ms_live (en_ms en') \<subseteq> ms_live (en_ms en) \<union> set es"
    unfolding ms by (rule merge_live_new)
  moreover have "log_fine (en_log en')"
    using inv new unfolding lg by (intro log_fine_all) (simp_all add: engine_inv_def)
  moreover have "\<forall>e\<in>set es. 1 \<le> ce_seq e"
    using adm by (auto simp: admissible_def valid_entry_def)
  then have "marks_cover (en_marks en') (logged (en_log en) \<union> set es)" "marks_inv (en_marks en')"
    using inv unfolding marks by (simp_all add: engine_inv_def marks_cover_commit commitSeqs_inv)
  ultimately show ?thesis
    using adm newest clk unfolding engine_inv_def by (intro conjI; (blast | simp))
qed

lemma commit_compaction_inv:
  assumes inv: "engine_inv en S"
  shows "engine_inv (commitCompaction (planCompaction en) en) S"
proof -
  let ?en' = "commitCompaction (planCompaction en) en"
  have dist: "distinct (map fst (lg_lanes (en_log en)))" and ok: "lanes_ok (en_log en)"
    and live: "ms_live (en_ms en) \<subseteq> logged (en_log en)" and adm: "admissible S"
    and seen: "lg_seen (en_log en) = entryKey ` logged (en_log en)" and sub: "logged (en_log en) \<subseteq> S"
    using inv by (simp_all add: engine_inv_def)
  note lanes = compacted_lanes [OF dist ok]
  note ok' = compacted_logged(1) [OF dist ok] and logged = compacted_logged(2) [OF dist ok]
  have dist': "distinct (map fst (lg_lanes (en_log ?en')))"
  proof -
    have "distinct (map fst m) \<Longrightarrow> distinct (map fst (fold (\<lambda>(d, xs) m. AList.update d xs m) ls m))" for ls m
      by (induction ls arbitrary: m) (auto simp: distinct_update)
    with dist show ?thesis by (simp add: commitCompaction_def)
  qed
  have dropped: "e \<in> logged (en_log en) \<and> drops en (ce_deviceId e) e"
    if "e \<in> set (cp_dropped (planCompaction en))" for e
    using plan_dropped [OF dist ok that] by blast
  have all_dropped: "e \<in> set (cp_dropped (planCompaction en))"
    if e: "e \<in> logged (en_log en)" "drops en (ce_deviceId e) e" for e
  proof -
    have F: "en_peers en \<noteq> []" "en_stale en = []" using e(2) by (simp_all add: drops_def)
    have mem: "e \<in> set (lane (en_log en) (ce_deviceId e))" using e(1) logged_iff [OF ok] by blast
    then obtain xs where xs: "map_of (lg_lanes (en_log en)) (ce_deviceId e) = Some xs" "e \<in> set xs"
      by (cases "map_of (lg_lanes (en_log en)) (ce_deviceId e)") (simp_all add: lane_def map_get_or_def)
    have sorted: "\<forall>(d, xs)\<in>set (lg_lanes (en_log en)). sorted (map ce_seq xs)"
    proof clarify
      fix d xs assume "(d, xs) \<in> set (lg_lanes (en_log en))"
      then have "lane (en_log en) d = xs" using dist by (simp add: lane_def map_get_or_def)
      then show "sorted (map ce_seq xs)" using ok by (auto simp: lanes_ok_def)
    qed
    have "e \<in> set (concat (map (\<lambda>(d, xs). filter (drops en d) xs) (lg_lanes (en_log en))))"
      using map_of_SomeD [OF xs(1)] xs(2) e(2) by force
    then show ?thesis
      using F plan_facts [OF sorted F] by (simp add: planCompaction_def)
  qed
  have "lg_seen (en_log ?en') = entryKey ` logged (en_log ?en')"
  proof -
    have inj: "inj_on entryKey S"
      using adm by (auto simp: admissible_def inj_on_def entryKey_eq_iff)
    have "lg_seen (en_log ?en') =
        entryKey ` logged (en_log en) - entryKey ` {e \<in> logged (en_log en). drops en (ce_deviceId e) e}"
    proof -
      have "set (cp_dropped (planCompaction en)) = {e \<in> logged (en_log en). drops en (ce_deviceId e) e}"
        using dropped all_dropped by (intro set_eqI) (simp only: mem_Collect_eq, blast)
      then show ?thesis by (simp add: commitCompaction_def seen)
    qed
    also have "\<dots> = entryKey ` (logged (en_log en) - {e \<in> logged (en_log en). drops en (ce_deviceId e) e})"
      by (rule inj_on_image_set_diff [OF inj, symmetric]) (use sub in auto)
    also have "logged (en_log en) - {e \<in> logged (en_log en). drops en (ce_deviceId e) e} = logged (en_log ?en')"
      unfolding logged by blast
    finally show ?thesis .
  qed
  moreover have "ms_live (en_ms ?en') \<subseteq> logged (en_log ?en')"
    using live unfolding logged by (auto simp: commitCompaction_def drops_def keeps_entry_def)
  moreover have "state_inv (en_ms ?en') S"
    using inv by (simp add: engine_inv_def state_inv_def commitCompaction_def)
  moreover have "en_marks ?en' = en_marks en" "en_clock ?en' = en_clock en"
    by (simp_all add: commitCompaction_def)
  moreover have "newest_logged ?en'"
    using inv unfolding engine_inv_def newest_logged_def logged drops_def keeps_entry_def
    by (auto simp: commitCompaction_def)
  moreover have "marks_cover (en_marks en) (logged (en_log ?en'))"
    using inv by (auto simp: engine_inv_def logged intro: marks_cover_subset)
  moreover have "log_fine (en_log ?en')"
  proof -
    have "lg_retiredTail (en_log ?en') = lg_retiredTail (en_log en)"
      by (simp add: commitCompaction_def)
    moreover have "log_fine (en_log en)" using inv by (simp add: engine_inv_def)
    ultimately show ?thesis by (auto simp: log_fine_def cache_ok_def lanes)
  qed
  moreover have "logged (en_log ?en') \<subseteq> S"
    using sub unfolding logged by blast
  ultimately show ?thesis
    using inv ok' dist' unfolding engine_inv_def by simp
qed

section \<open>Every operation keeps it\<close>

lemma planCompaction_cong:
  assumes "en_peers en' = en_peers en" "en_stale en' = en_stale en" "en_log en' = en_log en"
    "ms_live (en_ms en') = ms_live (en_ms en)" "en_deviceId en' = en_deviceId en"
    "en_localSeq en' = en_localSeq en" "dh_emittedAt (ms_div (en_ms en')) = dh_emittedAt (ms_div (en_ms en))"
  shows "planCompaction en' = planCompaction en"
proof -
  have k: "keeps_entry en' = keeps_entry en" "note_ordinal en' = note_ordinal en"
    using assms by (simp_all add: keeps_entry_def note_ordinal_def fun_eq_iff)
  have "plan_lane en' = plan_lane en"
    by (intro ext) (unfold plan_lane_def k assms, rule refl)
  then show ?thesis
    using assms by (simp add: planCompaction_def Let_def)
qed

lemma prune_emitted: "dh_emittedAt (snd (pruneDivergence d)) = dh_emittedAt d"
  by (simp add: pruneDivergence_def Let_def)

lemma appendDivergence_inv:
  assumes inv: "engine_inv en S" and plan: "plan = None \<or> plan = Some (planCompaction en)"
  shows "engine_inv (appendDivergence env rows plan en) S"
proof -
  obtain db dh where pr: "pruneDivergence (ms_div (en_ms en)) = (db, dh)" by force
  define en1 where "en1 = en\<lparr>en_ms := (en_ms en)\<lparr>ms_div := dh\<rparr>\<rparr>"
  define en2 where "en2 = en1\<lparr>en_dirty := filter (\<lambda>s. s \<notin> set (map fst (pending_rows en))) (en_dirty en1)\<rparr>"
  have inv1: "engine_inv en1 S" "engine_inv en2 S"
    by (rule engine_inv_cong [OF inv]; simp add: en1_def en2_def)+
  have "dh_emittedAt dh = dh_emittedAt (ms_div (en_ms en))"
    using prune_emitted [of "ms_div (en_ms en)"] pr by simp
  then have same: "planCompaction en2 = planCompaction en"
    by (intro planCompaction_cong) (simp_all add: en2_def en1_def)
  have "engine_inv (commitCompaction (planCompaction en) en2) S"
    using commit_compaction_inv [OF inv1(2)] by (simp only: same)
  then show ?thesis
    using inv inv1 plan
    by (auto simp: appendDivergence_def pr Let_def en1_def en2_def split: option.split)
qed

lemma notePeerCursor_inv: "engine_inv en S \<Longrightarrow> engine_inv (notePeerCursor sender cursor en) S"
  by (erule engine_inv_cong) (simp_all add: notePeerCursor_def Let_def)

text \<open>Minting: the stamps are new and increasing, the seqs consecutive.\<close>

lemma mint_entries_props:
  assumes "mint_entries en pre at_ms ws i clk = (r, clk')" "stamp_ok clk"
  shows "stamp_ok clk' \<and> clk \<le> clk' \<and>
    (\<forall>es. r = Some es \<longrightarrow>
       length es = length ws \<and>
       (\<forall>e\<in>set es. clk < ce_hlc e \<and> ce_hlc e \<le> clk' \<and> stamp_ok (ce_hlc e) \<and> ce_deviceId e = en_deviceId en) \<and>
       sorted_wrt (<) (map ce_hlc es) \<and>
       map ce_seq es = [en_localSeq en + i + 1..<en_localSeq en + i + 1 + length ws])"
  using assms
proof (induction ws arbitrary: i clk r clk')
  case (Cons w ws)
  show ?case
  proof (cases "fst (hlc_tick (jnat at_ms) clk)")
    case (Inl x)
    then have "hlc_tick (jnat at_ms) clk = (Inl x, clk)"
      using clock_exec_atomic [of "Tick (jnat at_ms)" clk] by (simp add: threw_def prod_eq_iff)
    with Cons.prems show ?thesis by auto
  next
    case (Inr s)
    then have tick: "hlc_tick (jnat at_ms) clk = (Inr s, s)" "clk < s" "stamp_ok s"
      using tick_returns [OF Inr] tick_above [OF Inr] tick_ok [OF Cons.prems(2) Inr]
      by (simp_all add: prod_eq_iff)
    obtain rest where rest: "mint_entries en pre at_ms ws (i + 1) s = (rest, clk')"
        "r = map_option (Cons (mint_entry en pre s (en_localSeq en + i + 1) w)) rest"
      using Cons.prems(1) tick(1) by (auto split: prod.splits)
    note ih = Cons.IH [OF rest(1) tick(3)]
    let ?e = "mint_entry en pre s (en_localSeq en + i + 1) w"
    have e: "ce_hlc ?e = s" "ce_deviceId ?e = en_deviceId en" "ce_seq ?e = en_localSeq en + i + 1"
      by (simp_all add: mint_entry_def Let_def split: localWrite.split)
    show ?thesis
    proof (intro conjI allI impI)
      show "stamp_ok clk'" "clk \<le> clk'" using ih tick(2) by auto
      fix es assume "r = Some es"
      then obtain es' where es: "rest = Some es'" "es = ?e # es'" using rest(2) by auto
      then have ih': "length es' = length ws" "sorted_wrt (<) (map ce_hlc es')"
          "map ce_seq es' = [en_localSeq en + (i + 1) + 1..<en_localSeq en + (i + 1) + 1 + length ws]"
          "\<forall>e\<in>set es'. s < ce_hlc e \<and> ce_hlc e \<le> clk' \<and> stamp_ok (ce_hlc e) \<and> ce_deviceId e = en_deviceId en"
        using ih by blast+
      show "length es = length (w # ws)" using ih'(1) es by simp
      have "clk < ce_hlc x" if "x \<in> set es'" for x
        using ih'(4) that tick(2) by (auto intro: less_trans)
      then show "\<forall>e\<in>set es. clk < ce_hlc e \<and> ce_hlc e \<le> clk' \<and> stamp_ok (ce_hlc e) \<and> ce_deviceId e = en_deviceId en"
        using ih'(4) es e tick(2,3) ih by simp
      show "sorted_wrt (<) (map ce_hlc es)" using ih'(2,4) es e by simp
      show "map ce_seq es = [en_localSeq en + i + 1..<en_localSeq en + i + 1 + length (w # ws)]"
        using ih'(3) es e by (subst upt_conv_Cons) simp_all
    qed
  qed
qed auto

text \<open>The component a \<open>sum\<close> write stamps: the asked aggregate less the other devices' share.\<close>

definition remote_share :: "syncEngine \<Rightarrow> syncKind \<Rightarrow> string \<Rightarrow> string \<Rightarrow> nat" where
  "remote_share en k i f =
     sum_spec {e \<in> set (live_of (case map_of (ms_records (en_ms en)) (syncedRecordKey k i) of
                                  None \<Rightarrow> None | Some r \<Rightarrow> map_of (rs_fields r) f)).
               ce_deviceId e \<noteq> en_deviceId en}"

lemma engine_live_numeric:
  assumes inv: "engine_inv en S" and sum: "merge_of k f = Some SumM"
    and x: "x \<in> set (live_of (case map_of (ms_records (en_ms en)) (syncedRecordKey k i) of
                                  None \<Rightarrow> None | Some r \<Rightarrow> map_of (rs_fields r) f))"
  shows "numeric_ok (Some SumM) x"
proof -
  let ?key = "syncedRecordKey k i"
  obtain r where r: "map_of (ms_records (en_ms en)) ?key = Some r"
    using x by (cases "map_of (ms_records (en_ms en)) ?key") (simp_all add: live_of_def)
  then obtain c where c: "map_of (rs_fields r) f = Some c" "x \<in> set (fc_live c)"
    using x by (cases "map_of (rs_fields r) f") (simp_all add: live_of_def)
  have adm: "admissible S" and "state_inv (en_ms en) S"
    using inv by (simp_all add: engine_inv_def)
  then have "record_ok ?key (Some r) (part S ?key)"
    using r by (simp add: state_inv_def flip: r)
  then have rk: "rs_kind r = k" "rec_inv r (part S ?key)"
    by (simp_all add: record_ok_def)
  then show ?thesis
    using rec_inv_live [OF rk(2) c] alive_numeric [OF one_record_part [OF adm refl]] sum by metis
qed

lemma sumComponentFor_spec:
  assumes inv: "engine_inv en S" and sum: "merge_of k f = Some SumM"
  shows "sumComponentFor en k i f (JNum (jnat n)) = JNum (jnat (n - remote_share en k i f))"
proof -
  let ?live = "live_of (case map_of (ms_records (en_ms en)) (syncedRecordKey k i) of
                          None \<Rightarrow> None | Some r \<Rightarrow> map_of (rs_fields r) f)"
  let ?others = "filter (\<lambda>e. ce_deviceId e \<noteq> en_deviceId en) ?live"
  have "\<forall>x\<in>set ?others. numeric_ok (Some SumM) x"
    using engine_live_numeric [OF inv sum] by auto
  then have "sumValue ?others = jnat (sum_spec (set ?others))"
    by (rule sumValue_spec)
  then have v: "sumValue ?others = jnat (remote_share en k i f)"
    by (simp add: remote_share_def)
  let ?s = "remote_share en k i f"
  have "num_max (jnat 0) (Fin (of_nat n + - of_nat ?s)) = jnat (n - ?s)"
  proof (cases "?s < n")
    case True
    then have "(of_nat ?s :: rat) < of_nat n" by (simp only: of_nat_less_iff)
    then show ?thesis using True by (simp add: of_nat_diff)
  next
    case False
    then have "(of_nat n :: rat) \<le> of_nat ?s" by (simp only: of_nat_le_iff not_less)
    then show ?thesis using False by simp
  qed
  then show ?thesis
    using v sum by (simp add: sumComponentFor_def Let_def del: num_max.simps)
qed

lemma valid_write_entry:
  assumes valid: "validLocalWrite w = None" and inv: "engine_inv en S"
    and stamp: "stamp_ok s" and seq: "1 \<le> n" "n \<le> max_safe"
    and dev: "en_deviceId en \<noteq> []" "length (en_deviceId en) \<le> max_device_id"
  shows "valid_entry (mint_entry en pre s n w)"
proof -
  obtain k where k: "kind_of_val (lw_kind w) = Some k" "isString (lw_recordId w) max_record_id"
      "k = Settings \<longrightarrow> lw_recordId w = JStr SETTINGS_RECORD_ID"
    using valid by (auto simp: validLocalWrite_def isSyncRecordKind_def split: if_splits)
  then have i: "str_of (lw_recordId w) \<noteq> []" "length (str_of (lw_recordId w)) \<le> max_record_id"
      "k = Settings \<longrightarrow> str_of (lw_recordId w) = SETTINGS_RECORD_ID"
    by (auto simp: isString_iff)
  show ?thesis
  proof (cases w)
    case (WriteTombstone k' i' t)
    with k i stamp seq dev show ?thesis
      by (simp add: valid_entry_def mint_entry_def TOMBSTONE_FIELD_def)
  next
    case (WriteField k' i' f v)
    then have f: "isString f max_field"
      using valid by (auto simp: validLocalWrite_def split: if_splits)
    have kk: "kind_of_val k' = Some k" using k(1) WriteField by simp
    obtain r where r: "syncFieldRule k (str_of f) = Some r" "rule_valid r v"
      using valid WriteField kk by (auto simp: validLocalWrite_def split: if_splits option.splits)
    have val: "rule_valid r (sumComponentFor en k (str_of i') (str_of f) v)"
    proof (cases "merge_of k (str_of f) = Some SumM")
      case False
      then have "sumComponentFor en k (str_of i') (str_of f) v = v"
        by (auto simp: sumComponentFor_def split: option.splits mergeMode.splits)
      then show ?thesis using r(2) by simp
    next
      case True
      then have "k = PlayCount" "str_of f = ''count''" by (simp_all add: merge_of_Sum_iff)
      then have safe: "rule_valid r = isSafeNonNegative"
        using r(1) by (auto simp: syncFieldRule_def rule_with_def)
      then obtain m where m: "v = JNum (jnat m)" "m \<le> max_safe"
        using r(2) by (auto simp: isSafeNonNegative_iff dest: safe_nat_Some)
      then show ?thesis
        using sumComponentFor_spec [OF inv True, of "str_of i'" m] safe
        by (auto simp: isSafeNonNegative_iff)
    qed
    have "str_of f \<noteq> []" "length (str_of f) \<le> max_field"
      using f by (auto simp: isString_iff)
    then show ?thesis
      using WriteField kk i stamp seq dev r val
      by (simp add: valid_entry_def mint_entry_def Let_def)
  qed
qed

lemma mint_entries_valid:
  assumes "mint_entries en pre at_ms ws i clk = (Some es, clk')" "stamp_ok clk"
    and "first_invalid ws = None" and inv: "engine_inv en S"
    and seq: "en_localSeq en + i + length ws \<le> max_safe"
    and dev: "en_deviceId en \<noteq> []" "length (en_deviceId en) \<le> max_device_id"
  shows "\<forall>e\<in>set es. valid_entry e"
  using assms(1-3) seq
proof (induction ws arbitrary: i clk es)
  case (Cons w ws)
  obtain s clk1 rest where s: "hlc_tick (jnat at_ms) clk = (Inr s, clk1)"
      "mint_entries en pre at_ms ws (i + 1) clk1 = (Some rest, clk')"
      "es = mint_entry en pre s (en_localSeq en + i + 1) w # rest"
    using Cons.prems(1) by (auto split: prod.splits sum.splits)
  have "stamp_ok s" "clk1 = s"
    using s(1) tick_ok [OF Cons.prems(2), of "jnat at_ms" s] tick_returns [of "jnat at_ms" clk s] by simp_all
  moreover have "validLocalWrite w = None" "first_invalid ws = None"
    using Cons.prems(3) by (auto split: option.splits)
  ultimately show ?case
    using valid_write_entry [OF _ inv _ _ _ dev, of w s "en_localSeq en + i + 1" pre]
      Cons.IH [OF s(2)] Cons.prems(4) s(3) by simp
qed simp

lemma merge_all_records:
  "ms_records (snd (merge_all env em es ms)) = ms_records (fold (merge_step env em) es ms)"
  "ms_live (snd (merge_all env em es ms)) = ms_live (fold (merge_step env em) es ms)"
  by (simp_all add: merge_all_state)

text \<open>New stamps keep the entries admissible.\<close>

lemma admissible_new:
  assumes inv: "engine_inv en S" and valid: "\<forall>e\<in>set es. valid_entry e"
    and new: "\<forall>e\<in>set es. en_clock en < ce_hlc e" and sorted: "sorted_wrt (<) (map ce_hlc es)"
  shows "admissible (S \<union> set es)"
proof -
  have S: "finite S" "\<forall>e\<in>S. valid_entry e" "inj_on entry_ts S" "\<forall>e\<in>S. ce_hlc e \<le> en_clock en"
    using inv by (simp_all add: engine_inv_def admissible_def)
  have "inj_on ce_hlc (set es)"
    using sorted by (auto simp: strict_sorted_iff distinct_map)
  then have "inj_on entry_ts (set es)"
    by (auto simp: inj_on_def entry_ts_def)
  moreover have "entry_ts a \<noteq> entry_ts b" if "a \<in> S" "b \<in> set es" for a b
    using S(4) new that by (force simp: entry_ts_def)
  ultimately have "inj_on entry_ts (S \<union> set es)"
    using S(3) by (auto simp: inj_on_def) metis+
  then show ?thesis
    using S valid by (auto simp: admissible_def)
qed

lemma appendLog_facts:
  assumes "appendLog env es sk pm en = (r, en1)"
  shows "en_ms en1 = en_ms en \<and> en_clock en1 = en_clock en \<and> en_deviceId en1 = en_deviceId en \<and>
     en_localSeq en1 = en_localSeq en \<and> en_peers en1 = en_peers en \<and> en_stale en1 = en_stale en \<and>
     (if r = None then en_log en1 = fold indexEntry es (en_log en) \<and> en_marks en1 = commitSeqs es sk (en_marks en)
      else en1 = en)"
  using assms by (auto simp: appendLog_def Let_def split: option.splits)

lemma writeBody_inv:
  assumes inv: "engine_inv en S" and ok: "first_invalid inputs = None"
    and seq: "en_localSeq en + length inputs \<le> max_safe"
    and dev: "en_deviceId en \<noteq> []" "length (en_deviceId en) \<le> max_device_id"
    and run: "writeBody env pre inputs at_ms en = (r, en')"
  shows "engine_inv en' (S \<union> (case r of Inl _ \<Rightarrow> {} | Inr rs \<Rightarrow> fst ` set rs))"
proof -
  obtain mr clk where mint: "mint_entries en pre at_ms inputs 0 (en_clock en) = (mr, clk)" by force
  have clk0: "stamp_ok (en_clock en)" "\<forall>e\<in>S. ce_hlc e \<le> en_clock en" "marks_inv (en_marks en)"
    using inv by (simp_all add: engine_inv_def)
  note mp = mint_entries_props [OF mint clk0(1)]
  have inv_clk: "engine_inv (en\<lparr>en_clock := clk\<rparr>) S"
    using inv mp by (auto simp: engine_inv_def newest_logged_def intro: order_trans)
  show ?thesis
  proof (cases mr)
    case None
    then show ?thesis using run mint inv_clk by (auto simp: writeBody_def)
  next
    case (Some es)
    obtain ra en1 where ap: "appendLog env es None None (en\<lparr>en_clock := clk\<rparr>) = (ra, en1)" by force
    note af = appendLog_facts [OF ap]
    show ?thesis
    proof (cases ra)
      case (Some err)
      then have "en' = en\<lparr>en_clock := clk\<rparr>" "r = Inl err"
        using run mint \<open>mr = Some es\<close> ap af by (auto simp: writeBody_def)
      then show ?thesis using inv_clk by simp
    next
      case None
      obtain os divs ms where ma: "merge_all (merge_env env en) EmitLive es (en_ms en1) = ((os, divs), ms)"
        by (metis prod.collapse)
      define en2 where "en2 = en1\<lparr>en_localSeq := en_localSeq en1 + length es, en_ms := ms\<rparr>"
      have res: "r = Inr (zip es os)" "en' = appendDivergence env divs None en2"
        using run mint \<open>mr = Some es\<close> ap None ma by (auto simp: writeBody_def Let_def en2_def)
      have len: "length os = length es"
      proof -
        have "length (fst (fst (merge_all e m xs st))) = length xs" for e m xs st
          by (induction xs arbitrary: st) (simp_all add: Let_def case_prod_beta)
        then show ?thesis using ma by (metis fst_conv)
      qed
      have valid: "\<forall>e\<in>set es. valid_entry e"
        using mint_entries_valid [OF mint [unfolded \<open>mr = Some es\<close>] clk0(1) ok inv _ dev] seq by simp
      have props: "\<forall>e\<in>set es. en_clock en < ce_hlc e \<and> ce_hlc e \<le> clk" "sorted_wrt (<) (map ce_hlc es)"
        using mp \<open>mr = Some es\<close> by auto
      have adm: "admissible (S \<union> set es)"
        by (rule admissible_new [OF inv valid _ props(2)]) (use props(1) in blast)
      have "engine_inv en2 (S \<union> set es)"
      proof (rule engine_inv_extend [OF inv adm])
        show "ms_records (en_ms en2) = ms_records (fold (merge_step (merge_env env en) EmitLive) es (en_ms en))"
          "ms_live (en_ms en2) = ms_live (fold (merge_step (merge_env env en) EmitLive) es (en_ms en))"
          using merge_all_records [of "merge_env env en" EmitLive es "en_ms en1"] ma af by (simp_all add: en2_def)
        show "en_log en2 = fold indexEntry es (en_log en)" using af None by (simp add: en2_def)
        show "distinct es" using props(2) distinct_map strict_sorted_iff by blast
        show "set es \<inter> logged (en_log en) = {}"
          using props(1) clk0(2) inv by (fastforce simp: engine_inv_def)
        show "en_marks en2 = commitSeqs es None (en_marks en)" using af None by (simp add: en2_def)
        show "newest_logged en2"
        proof (cases "es = []")
          case True
          then show ?thesis using inv af None by (simp add: engine_inv_def newest_logged_def en2_def)
        next
          case False
          have "last (map ce_seq es) = last [en_localSeq en + 1..<en_localSeq en + 1 + length es]"
            using mp \<open>mr = Some es\<close> by simp
          then have "ce_seq (last es) = en_localSeq en + length es"
            using False by (simp add: last_map Suc_le_eq)
          moreover have "ce_deviceId (last es) = en_deviceId en" "last es \<in> set es"
            using mp \<open>mr = Some es\<close> False by simp_all
          moreover have "logged (en_log en2) = logged (en_log en) \<union> set es"
            using inv af None index_all [of "en_log en" es] by (simp add: en2_def engine_inv_def)
          ultimately show ?thesis using af by (auto simp: newest_logged_def en2_def)
        qed
        show "stamp_ok (en_clock en2)" using af mp by (simp add: en2_def)
        show "\<forall>e\<in>S \<union> set es. ce_hlc e \<le> en_clock en2"
          using af mp clk0(2) props(1) by (auto simp: en2_def intro: order_trans)
      qed
      then have "engine_inv en' (S \<union> set es)"
        unfolding res by (rule appendDivergence_inv) simp
      moreover have "fst ` set (zip es os) = set es"
        using len by (metis list.set_map map_fst_zip)
      ultimately show ?thesis unfolding res(1) by simp
    qed
  qed
qed

section \<open>Applying a delta\<close>

lemma receive_l_c_mono:
  fixes clk clk' s :: hlcStamp and n :: nat
  assumes "stamp_l clk < stamp_l clk' \<or> (stamp_l clk = stamp_l clk' \<and> stamp_c clk \<le> stamp_c clk')"
  defines "l \<equiv> receive_l clk s n" and "l' \<equiv> receive_l clk' s n"
  shows "l < l' \<or> (l = l' \<and> receive_c clk s l \<le> receive_c clk' s l')"
  using assms(1)
proof (elim disjE conjE)
  assume lt: "stamp_l clk < stamp_l clk'"
  have "l \<le> l'" using lt by (auto simp: l_def l'_def receive_l_def max_def)
  moreover have "receive_c clk s l \<le> receive_c clk' s l'" if "l = l'"
  proof -
    have "stamp_l clk' \<le> l'" by (simp add: l'_def receive_l_def)
    then have "l \<noteq> stamp_l clk" using lt that by simp
    then have "receive_c clk s l = (if l' = stamp_l s then stamp_c s + 1 else 0)"
      using that by (simp add: receive_c_def)
    then show ?thesis by (simp add: receive_c_def)
  qed
  ultimately show ?thesis by (auto simp: le_less)
next
  assume eq: "stamp_l clk = stamp_l clk'" and c: "stamp_c clk \<le> stamp_c clk'"
  have "l = l'" using eq by (simp add: l_def l'_def receive_l_def)
  moreover have "receive_c clk s l \<le> receive_c clk' s l"
    using eq c by (auto simp: receive_c_def)
  ultimately show ?thesis by simp
qed

lemma receive_mono:
  assumes le: "clk \<le> clk'" and ok: "fst (hlc_receive r now clk') = Inr v'" and bound: "stamp_ok clk'"
  obtains v where "hlc_receive r now clk = (Inr v, v)" "v \<le> v'"
proof -
  obtain s n where r: "stamp_of_val r = Some s" "safe_nat now = Some n"
    using ok by (auto simp: hlc_receive_def split: option.splits)
  have n: "n \<le> max_safe" "stamp_l s \<le> max_safe" "stamp_l clk' \<le> max_safe"
    using safe_nat_bound [OF r(2)] stamp_of_val_ok [OF r(1)] bound by (simp_all add: stamp_ok_def)
  define l where "l = receive_l clk s n"
  define l' where "l' = receive_l clk' s n"
  define c where "c = receive_c clk s l"
  define c' where "c' = receive_c clk' s l'"
  have v': "v' = (if max_safe < c' then Stamp (l' + 1) 0 else Stamp l' c')" "max_safe < c' \<longrightarrow> l' \<noteq> max_safe"
    using ok r by (auto simp: hlc_receive_def set_stamp_def Let_def l'_def c'_def split: if_splits)
  have cmp: "l < l' \<or> (l = l' \<and> c \<le> c')"
    unfolding l_def l'_def c_def c'_def by (rule receive_l_c_mono) (use le in \<open>simp add: stamp_order\<close>)
  have "l' \<le> max_safe" using n by (simp add: l'_def receive_l_def)
  then have fits: "max_safe < c \<longrightarrow> l \<noteq> max_safe" using cmp v'(2) by auto
  define v where "v = (if max_safe < c then Stamp (l + 1) 0 else Stamp l c)"
  have "hlc_receive r now clk = (Inr v, v)"
    using r fits by (simp add: hlc_receive_def set_stamp_def Let_def v_def flip: l_def c_def)
  moreover have "v \<le> v'"
    using cmp by (auto simp: v_def v'(1) stamp_order)
  ultimately show thesis by (rule that)
qed

lemma receive_all_subseq:
  assumes "clk \<le> clk'" "fst (receive_all es at_ms clk')" "stamp_ok clk'"
  shows "fst (receive_all (filter P es) at_ms clk)"
  using assms
proof (induction es arbitrary: clk clk')
  case (Cons e es)
  let ?r = "stamp_val (ce_hlc e)"
  obtain v' where v': "hlc_receive ?r (jnat at_ms) clk' = (Inr v', v')" "fst (receive_all es at_ms v')"
  proof (cases "fst (hlc_receive ?r (jnat at_ms) clk')")
    case (Inl x)
    then have "\<not> fst (receive_all (e # es) at_ms clk')" by (simp split: prod.split) (metis fst_conv sum.simps(5))
    then show ?thesis using Cons.prems(2) by simp
  next
    case (Inr v')
    then have "hlc_receive ?r (jnat at_ms) clk' = (Inr v', v')"
      using receive_returns by (metis prod.collapse)
    with Cons.prems(2) show ?thesis by (intro that) simp_all
  qed
  have ok: "stamp_ok v'" "clk' < v'"
    using receive_ok [OF Cons.prems(3)] receive_above [of ?r "jnat at_ms" clk' v'] v'(1) by (metis fst_conv)+
  show ?case
  proof (cases "P e")
    case True
    obtain v where "hlc_receive ?r (jnat at_ms) clk = (Inr v, v)" "v \<le> v'"
      by (rule receive_mono [OF Cons.prems(1) _ Cons.prems(3)]) (use v'(1) in auto)
    then show ?thesis
      using Cons.IH [of v v'] v'(2) ok True by simp
  next
    case False
    have "clk \<le> v'" using Cons.prems(1) ok(2) by simp
    then show ?thesis using Cons.IH [of clk v'] v'(2) ok(1) False by simp
  qed
qed simp

text \<open>Once a list can be received, its merge runs to the end.\<close>

lemma apply_all_runs:
  assumes "fst (receive_all es at_ms clk)" "stamp_ok clk" "\<forall>e\<in>set es. stamp_ok (ce_hlc e)"
  shows "\<exists>os ds clk'. apply_all env es at_ms clk ms = (Some (os, ds), clk', snd (merge_all env EmitLive es ms)) \<and>
     stamp_ok clk' \<and> clk \<le> clk' \<and> (\<forall>e\<in>set es. ce_hlc e \<le> clk')"
  using assms
proof (induction es arbitrary: clk ms)
  case (Cons e es)
  let ?r = "stamp_val (ce_hlc e)"
  obtain v where v: "hlc_receive ?r (jnat at_ms) clk = (Inr v, v)" "fst (receive_all es at_ms v)"
  proof (cases "fst (hlc_receive ?r (jnat at_ms) clk)")
    case (Inl x)
    then have "\<not> fst (receive_all (e # es) at_ms clk)" by (simp split: prod.split) (metis fst_conv sum.simps(5))
    then show ?thesis using Cons.prems(1) by simp
  next
    case (Inr v)
    then have "hlc_receive ?r (jnat at_ms) clk = (Inr v, v)"
      using receive_returns by (metis prod.collapse)
    with Cons.prems(1) show ?thesis by (intro that) simp_all
  qed
  have ok: "stamp_ok v" "clk < v \<and> (\<forall>s. stamp_of_val ?r = Some s \<longrightarrow> s < v)"
    using receive_ok [OF Cons.prems(2)] receive_above [of ?r "jnat at_ms" clk v] v(1) by (metis fst_conv)+
  then have ev: "ce_hlc e < v"
    using stamp_codec.dec_enc Cons.prems(3) by simp
  obtain o1 d1 ms1 where red: "reduce env EmitLive e ms = ((o1, d1), ms1)" by (metis prod.collapse)
  obtain os ds clk' where ih: "apply_all env es at_ms v ms1 = (Some (os, ds), clk', snd (merge_all env EmitLive es ms1))"
      "stamp_ok clk'" "v \<le> clk'" "\<forall>e\<in>set es. ce_hlc e \<le> clk'"
    using Cons.IH [OF v(2) ok(1), of ms1] Cons.prems(3) by auto
  have "apply_all env (e # es) at_ms clk ms =
      (Some (o1 # os, d1 @ ds), clk', snd (merge_all env EmitLive (e # es) ms))"
    using v(1) red ih(1) by (simp add: Let_def case_prod_beta)
  moreover have "clk \<le> clk'" "ce_hlc e \<le> clk'"
    using ok(2) ev ih(3) by (meson less_imp_le order_trans)+
  ultimately show ?case
    using ih by (intro exI [of _ "o1 # os"] exI [of _ "d1 @ ds"] exI [of _ clk']) simp
qed simp

definition doc_entries :: "jsval \<Rightarrow> changeEntry list" where
  "doc_entries doc = snd (classify (arr_elems (propOf doc ''entries'')) 0 [])"

lemma classify_props:
  "(\<forall>e\<in>set (snd (classify raws i D)). valid_entry e \<and> entryKey e \<notin> set D) \<and>
   distinct (map entryKey (snd (classify raws i D)))"
proof (induction raws arbitrary: i D)
  case (Cons raw raws)
  show ?case
  proof (cases "entry_of_val raw")
    case None
    then show ?thesis using Cons [of "i + 1" D] by (simp add: case_prod_beta Let_def)
  next
    case (Some e)
    then show ?thesis
      using Cons [of "i + 1" D] Cons [of "i + 1" "entryKey e # D"] entry_of_val_valid [OF Some]
      by (auto simp: case_prod_beta Let_def)
  qed
qed simp

lemma doc_entries_valid: "e \<in> set (doc_entries doc) \<Longrightarrow> valid_entry e"
  using classify_props [of "arr_elems (propOf doc ''entries'')" 0 "[]"] by (simp add: doc_entries_def)

text \<open>An apply either fails with the log, the marks, the clock and the merge as they were, or
  merges exactly its fresh entries.\<close>

lemma applyBody_cases:
  assumes inv: "engine_inv en S" and adm: "admissible (S \<union> set (doc_entries doc))"
    and run: "applyBody env doc sd at_ms en = (r, en')"
  shows "(\<exists>err. r = Inl err \<and> en_ms en' = en_ms en \<and> en_log en' = en_log en \<and>
            en_marks en' = en_marks en \<and> en_clock en' = en_clock en \<and>
            (en' = en \<or> (\<exists>w. op_append env w = Some err))) \<or>
    (\<exists>res. r = Inr res \<and> engine_inv en' (S \<union> set (ar_entries res)) \<and>
       set (ar_entries res) = {e \<in> set (doc_entries doc). is_fresh en e} \<and> ar_sender res = delta_sender doc)"
proof -
  let ?sender = "delta_sender doc" and ?valid = "sort_by compareEntryTs (doc_entries doc)"
  obtain rejects where cl: "classify (arr_elems (propOf doc ''entries'')) 0 [] = (rejects, doc_entries doc)"
    unfolding doc_entries_def by (metis prod.collapse)
  define fresh where "fresh = filter (is_fresh en) ?valid"
  define outcomes where "outcomes = rejects @
    map Duplicate (filter (\<lambda>e. \<not> is_fresh en e) ?valid)"
  define skipped where "skipped = skips_of_val (propOf doc ''skipped'')"
  define en1 where "en1 = (case sd of None \<Rightarrow> en
    | Some _ \<Rightarrow> notePeerCursor ?sender (cursor_of_val (propOf doc ''cursor'')) en)"
  define row where "row = (case sd of None \<Rightarrow> None | Some _ \<Rightarrow> map_option (Pair ?sender) (map_of (en_peers en1) ?sender))"
  have body: "applyBody env doc sd at_ms en =
     (if \<not> fst (receive_all ?valid at_ms (en_clock en)) then (Inl fromUnknown, en)
      else if fresh \<noteq> [] \<or> skipped \<noteq> [] \<or> ?sender \<in> set (en_dirty en1) then
        (case appendLog env fresh (Some skipped) row en1 of
           (Some e, en2) \<Rightarrow> (Inl e, en2)
         | (None, en2) \<Rightarrow> finishApply env doc at_ms outcomes fresh en2)
      else finishApply env doc at_ms outcomes fresh en1)"
    unfolding applyBody_def Let_def cl prod.case fresh_def outcomes_def skipped_def en1_def row_def ..
  have inv1: "engine_inv en1 S"
    using inv by (cases sd) (simp_all add: en1_def notePeerCursor_inv)
  have same1: "en_ms en1 = en_ms en" "en_log en1 = en_log en" "en_marks en1 = en_marks en" "en_clock en1 = en_clock en"
    by (simp_all add: en1_def notePeerCursor_def Let_def split: option.split)
  have fset: "set fresh = {e \<in> set (doc_entries doc). is_fresh en e}"
    by (auto simp: fresh_def)
  have admf: "admissible (S \<union> set fresh)"
    using adm by (rule admissible_subset) (auto simp: fset)
  have stamps: "\<forall>e\<in>set fresh. stamp_ok (ce_hlc e)"
    using doc_entries_valid by (auto simp: fset valid_entry_def)
  have merged: "\<exists>res. r = Inr res \<and> engine_inv en' (S \<union> set (ar_entries res)) \<and>
       set (ar_entries res) = {e \<in> set (doc_entries doc). is_fresh en e} \<and> ar_sender res = ?sender"
    if pre: "fst (receive_all ?valid at_ms (en_clock en))"
      and fin: "(r, en') = finishApply env doc at_ms outcomes fresh en2"
      and e2: "engine_inv en1 S" "en_ms en2 = en_ms en1" "en_clock en2 = en_clock en1"
        "en_log en2 = fold indexEntry fresh (en_log en1)" "en_marks en2 = commitSeqs fresh sk (en_marks en1)"
        "en_localSeq en2 = en_localSeq en1" "en_deviceId en2 = en_deviceId en1" for en2 sk
  proof -
    have invc: "stamp_ok (en_clock en)" "\<forall>e\<in>S. ce_hlc e \<le> en_clock en"
      using inv by (simp_all add: engine_inv_def)
    have clk2: "en_clock en2 = en_clock en" and ms2: "en_ms en2 = en_ms en"
      using e2 same1 by simp_all
    have rec: "fst (receive_all fresh at_ms (en_clock en2))"
      unfolding fresh_def clk2 by (rule receive_all_subseq [OF order_refl pre invc(1)])
    obtain os ds clk ms where ap: "apply_all (merge_env env en2) fresh at_ms (en_clock en2) (en_ms en2) =
         (Some (os, ds), clk, ms)" "ms = snd (merge_all (merge_env env en2) EmitLive fresh (en_ms en2))"
        "stamp_ok clk" "en_clock en2 \<le> clk" "\<forall>e\<in>set fresh. ce_hlc e \<le> clk"
      using apply_all_runs [OF rec _ stamps, of "merge_env env en2" "en_ms en2"] invc(1) unfolding clk2 by blast
    define en3 where "en3 = en2\<lparr>en_clock := clk, en_ms := ms\<rparr>"
    have res: "en' = appendDivergence env ds (Some (planCompaction en3)) en3"
        "\<exists>res. r = Inr res \<and> ar_entries res = fresh \<and> ar_sender res = ?sender"
      using fin by (auto simp: finishApply_def ap(1) Let_def en3_def)
    have "distinct (doc_entries doc)"
      using classify_props [of "arr_elems (propOf doc ''entries'')" 0 "[]"]
      by (simp add: doc_entries_def distinct_map)
    then have "distinct ?valid"
      using mset_eq_imp_distinct_iff [OF mset_sort_by] by blast
    then have "distinct fresh" by (simp add: fresh_def)
    have "set fresh \<inter> logged (en_log en1) = {}"
      using inv by (auto simp: fset is_fresh_def same1 engine_inv_def)
    have "engine_inv en3 (S \<union> set fresh)"
    proof (rule engine_inv_extend [OF e2(1) admf])
      show "distinct fresh" "set fresh \<inter> logged (en_log en1) = {}" by fact+
      show "ms_records (en_ms en3) = ms_records (fold (merge_step (merge_env env en2) EmitLive) fresh (en_ms en1))"
        "ms_live (en_ms en3) = ms_live (fold (merge_step (merge_env env en2) EmitLive) fresh (en_ms en1))"
        using ap(2) e2(2) by (simp_all add: en3_def merge_all_state)
      show "en_log en3 = fold indexEntry fresh (en_log en1)" "en_marks en3 = commitSeqs fresh sk (en_marks en1)"
        "stamp_ok (en_clock en3)"
        using e2 ap(3) by (simp_all add: en3_def)
      show "newest_logged en3"
        using e2 inv1 index_all [of "en_log en1" fresh] by (auto simp: en3_def engine_inv_def newest_logged_def)
      show "\<forall>e\<in>S \<union> set fresh. ce_hlc e \<le> en_clock en3"
        using invc(2) ap(4,5) clk2 by (auto simp: en3_def intro: order_trans)
    qed
    then have "engine_inv en' (S \<union> set fresh)"
      unfolding res(1) by (rule appendDivergence_inv) simp
    then show ?thesis using res(2) fset by metis
  qed
  show ?thesis
  proof (cases "fst (receive_all ?valid at_ms (en_clock en))")
    case False
    then have "r = Inl fromUnknown" "en' = en" using run body by simp_all
    then show ?thesis by blast
  next
    case pre: True
    show ?thesis
    proof (cases "fresh \<noteq> [] \<or> skipped \<noteq> [] \<or> ?sender \<in> set (en_dirty en1)")
      case False
      then have "(r, en') = finishApply env doc at_ms outcomes fresh en1" "fresh = []"
        using run body pre by simp_all
      then show ?thesis
        using merged [OF pre _ inv1 refl refl, of None] by (simp add: commitSeqs_def fold_entries_def)
    next
      case True
      obtain ra en2 where ap: "appendLog env fresh (Some skipped) row en1 = (ra, en2)" by force
      note af = appendLog_facts [OF ap]
      show ?thesis
      proof (cases ra)
        case (Some err)
        then have "r = Inl err" "en' = en1"
          using run body pre True ap af by simp_all
        moreover have "\<exists>w. op_append env w = Some err"
          using ap Some by (auto simp: appendLog_def Let_def split: option.splits)
        ultimately show ?thesis using same1 by simp
      next
        case None
        then have fin: "(r, en') = finishApply env doc at_ms outcomes fresh en2"
          using run body pre True ap by simp
        show ?thesis
          by (rule disjI2, rule merged [OF pre fin inv1, where sk = "Some skipped"])
             (use af None in simp_all)
      qed
    qed
  qed
qed

end
