(* ===== verification/SyncReplica.thy ===== *)
theory SyncReplica
  imports SyncSafety
begin

text \<open>
  Replicas as state machines: the operations of the engine at the call level, the restart from
  the durable log, and the replicas they reach. Along every run the engine's state is the
  specified state of the entries it has accepted, through failed stores, compactions and
  restarts.
\<close>

section \<open>The operations at the call level\<close>

definition written :: "(changeEntry \<times> mergeOutcome) list result \<Rightarrow> changeEntry set" where
  "written r = (case r of Inl _ \<Rightarrow> {} | Inr rs \<Rightarrow> fst ` set rs)"

definition accepted :: "applyResult result \<Rightarrow> changeEntry set" where
  "accepted r = (case r of Inl _ \<Rightarrow> {} | Inr res \<Rightarrow> set (ar_entries res))"

definition device_ok :: "string \<Rightarrow> bool" where
  "device_ok dev = (dev \<noteq> [] \<and> length dev \<le> max_device_id)"

lemma runOp_cases:
  assumes "runOp env work en = (r, en')"
  obtains (refused) e where "r = Inl e" "en' = en"
  | (ran) at_ms where "work at_ms en = (r, en')" "op_now env = Some at_ms"
  using assms by (auto simp: runOp_def split: if_splits option.splits)

lemma writeChanges_cases:
  assumes "writeChanges env inputs pre en = (r, en')"
  obtains (refused) e where "r = Inl e" "en' = en"
  | (ran) at_ms where "first_invalid inputs = None" "inputs \<noteq> []" "writeBody env pre inputs at_ms en = (r, en')"
proof (cases "inputs = [] \<or> first_invalid inputs \<noteq> None")
  case True
  then show thesis using assms refused by (auto simp: writeChanges_def split: option.splits if_splits)
next
  case False
  then have "runOp env (writeBody env pre inputs) en = (r, en')"
    using assms by (simp add: writeChanges_def)
  then show thesis using False by (cases rule: runOp_cases) (auto intro: refused ran)
qed

lemma applyDelta_cases:
  assumes "applyDelta env doc sd en = (r, en')"
  obtains (refused) e where "r = Inl e" "en' = en"
  | (ran) at_ms where "isSyncDelta doc" "applyBody env doc sd at_ms en = (r, en')"
proof (cases "isSyncDelta doc \<and> (sd = None \<or> sd = Some (delta_sender doc))")
  case False
  then show thesis using assms refused by (auto simp: applyDelta_def split: if_splits)
next
  case True
  then have "runOp env (applyBody env doc sd) en = (r, en')"
    using assms by (auto simp: applyDelta_def)
  then show thesis using True by (cases rule: runOp_cases) (auto intro: refused ran)
qed

lemma exportOp_cases:
  assumes "exportOp env since limit en = (r, en')"
  obtains (refused) e where "r = Inl e" "en' = en"
  | (ran) at_ms d lg where "r = Inr d" "en' = en\<lparr>en_log := lg\<rparr>"
      "exportDelta (en_deviceId en) (if since = JUndef then None else Some (cursor_of_val since))
         (nat_of_val limit) at_ms (en_marks en) (en_log en) = (d, lg)"
      "since = JUndef \<or> isSyncCursor since" "op_now env = Some at_ms" "1 \<le> nat_of_val limit"
proof (cases "(since = JUndef \<or> isSyncCursor since) \<and> isSafeNonNegative limit \<and> 1 \<le> nat_of_val limit")
  case False
  then show thesis using assms refused by (auto simp: exportOp_def split: if_splits)
next
  case True
  then show thesis using assms refused
    by (auto simp: exportOp_def runOp_def split: if_splits option.splits prod.splits intro: ran)
qed

lemma writeChanges_inv:
  assumes inv: "engine_inv en S" and run: "writeChanges env inputs pre en = (r, en')"
    and seq: "en_localSeq en + length inputs \<le> max_safe" and dev: "device_ok (en_deviceId en)"
  shows "engine_inv en' (S \<union> written r)"
  using run
proof (cases rule: writeChanges_cases)
  case (ran at_ms)
  then show ?thesis
    using writeBody_inv [OF inv ran(1) seq _ _ ran(3)] dev by (simp add: device_ok_def written_def)
qed (use inv in \<open>simp add: written_def\<close>)

lemma appendDivergence_frame:
  "en_localSeq (appendDivergence env rows plan en) = en_localSeq en \<and>
   en_deviceId (appendDivergence env rows plan en) = en_deviceId en \<and>
   en_marks (appendDivergence env rows plan en) = en_marks en \<and>
   en_clock (appendDivergence env rows plan en) = en_clock en \<and>
   ms_records (en_ms (appendDivergence env rows plan en)) = ms_records (en_ms en)"
  by (simp add: appendDivergence_def commitCompaction_def Let_def split: prod.split option.split)

lemma appendLog_seq:
  "appendLog env es sk pm en = (x, en1) \<Longrightarrow> en_localSeq en1 = en_localSeq en \<and> en_deviceId en1 = en_deviceId en"
  using appendLog_facts by metis

lemma finishApply_seq:
  "finishApply env doc at_ms os es en = (r, en') \<Longrightarrow>
     en_localSeq en' = en_localSeq en \<and> en_deviceId en' = en_deviceId en"
  by (auto simp: finishApply_def Let_def appendDivergence_frame split: prod.splits option.splits)

lemma applyBody_seq:
  assumes "applyBody env doc sd at_ms en = (r, en')"
  shows "en_localSeq en' = en_localSeq en \<and> en_deviceId en' = en_deviceId en"
  using assms
  by (auto simp: applyBody_def Let_def notePeerCursor_def split: prod.splits option.splits if_splits
      dest!: finishApply_seq appendLog_seq)

lemma applyDelta_seq:
  "applyDelta env doc sd en = (r, en') \<Longrightarrow>
     en_localSeq en' = en_localSeq en \<and> en_deviceId en' = en_deviceId en"
  by (erule applyDelta_cases) (auto dest: applyBody_seq)

text \<open>A delta is applied as a whole or not at all.\<close>

lemma applyDelta_result:
  assumes inv: "engine_inv en S" and adm: "admissible (S \<union> set (doc_entries doc))"
    and run: "applyDelta env doc sd en = (r, en')"
  shows "case r of
      Inl _ \<Rightarrow> en_ms en' = en_ms en \<and> en_log en' = en_log en \<and> en_marks en' = en_marks en \<and>
        en_clock en' = en_clock en
    | Inr res \<Rightarrow> set (ar_entries res) = {e \<in> set (doc_entries doc). is_fresh en e}"
    and "engine_inv en' (S \<union> accepted r)"
proof -
  note frame = applyDelta_seq [OF run]
  have "(case r of
      Inl _ \<Rightarrow> en_ms en' = en_ms en \<and> en_log en' = en_log en \<and> en_marks en' = en_marks en \<and>
        en_clock en' = en_clock en
    | Inr res \<Rightarrow> set (ar_entries res) = {e \<in> set (doc_entries doc). is_fresh en e}) \<and>
    engine_inv en' (S \<union> accepted r)"
    using run
  proof (cases rule: applyDelta_cases)
    case (refused e)
    with inv show ?thesis by (simp add: accepted_def)
  next
    case (ran at_ms)
    from applyBody_cases [OF inv adm ran(2)] show ?thesis
    proof (elim disjE exE conjE, goal_cases)
      case (3 res)
      then show ?case by (simp add: accepted_def)
    qed (use engine_inv_cong [OF inv, of en'] inv frame in \<open>simp_all add: accepted_def\<close>)
  qed
  then show "case r of
      Inl _ \<Rightarrow> en_ms en' = en_ms en \<and> en_log en' = en_log en \<and> en_marks en' = en_marks en \<and>
        en_clock en' = en_clock en
    | Inr res \<Rightarrow> set (ar_entries res) = {e \<in> set (doc_entries doc). is_fresh en e}"
    and "engine_inv en' (S \<union> accepted r)" by blast+
qed

section \<open>Exports\<close>

text \<open>One entry per device and seq.\<close>

definition numbered :: "changeEntry set \<Rightarrow> bool" where
  "numbered S = inj_on (\<lambda>e. (ce_deviceId e, ce_seq e)) S"

lemma numbered_subset: "numbered S \<Longrightarrow> T \<subseteq> S \<Longrightarrow> numbered T"
  by (auto simp: numbered_def intro: inj_on_subset)

lemma engine_log:
  assumes inv: "engine_inv en S" and num: "numbered S"
  shows "lanes_strict (en_log en)" "cache_ok (en_log en) (lg_retiredTail (en_log en))"
proof -
  have ok: "lanes_ok (en_log en)" "distinct (map fst (lg_lanes (en_log en)))" "log_fine (en_log en)"
      "logged (en_log en) \<subseteq> S"
    using inv by (simp_all add: engine_inv_def)
  have "sorted_wrt (<) (map ce_seq (lane (en_log en) d))" for d
  proof -
    have lane: "set (lane (en_log en) d) \<subseteq> S" "\<forall>e\<in>set (lane (en_log en) d). ce_deviceId e = d"
      using ok(1,4) by (simp_all add: lanes_ok_def logged_def UN_subset_iff)
    have "inj_on ce_seq (set (lane (en_log en) d))"
    proof (rule inj_onI)
      fix x y assume xy: "x \<in> set (lane (en_log en) d)" "y \<in> set (lane (en_log en) d)" "ce_seq x = ce_seq y"
      then have "x \<in> S" "y \<in> S" "ce_deviceId x = ce_deviceId y"
        using lane by auto
      then show "x = y" using num xy(3) by (auto simp: numbered_def dest: inj_onD)
    qed
    then show ?thesis
      using ok(1,3) by (simp add: strict_sorted_iff distinct_map lanes_ok_def log_fine_def)
  qed
  then show "lanes_strict (en_log en)"
    using ok(1,2) by (simp add: lanes_strict_def lanes_ok_def)
  show "cache_ok (en_log en) (lg_retiredTail (en_log en))"
    using ok(3) by (simp add: log_fine_def)
qed

lemma exportOp_inv:
  assumes inv: "engine_inv en S" and num: "numbered S" and run: "exportOp env since limit en = (r, en')"
  shows "engine_inv en' S" and "en_ms en' = en_ms en" and "en_localSeq en' = en_localSeq en"
    and "en_deviceId en' = en_deviceId en" and "en_marks en' = en_marks en"
proof -
  have "engine_inv en' S \<and> en_ms en' = en_ms en \<and> en_localSeq en' = en_localSeq en \<and>
      en_deviceId en' = en_deviceId en \<and> en_marks en' = en_marks en"
    using run
  proof (cases rule: exportOp_cases)
    case (ran at_ms d lg)
    have keep: "cache_ok lg (lg_retiredTail lg)" "lg_lanes lg = lg_lanes (en_log en)" "lg_seen lg = lg_seen (en_log en)"
      using export_keeps_cache [OF engine_log [OF inv num] ran(3)] by simp_all
    have same: "lane lg = lane (en_log en)"
      using keep(2) by (simp add: lane_def fun_eq_iff)
    then have "logged lg = logged (en_log en)" "lanes_ok lg = lanes_ok (en_log en)"
        "log_fine lg = log_fine (en_log en)"
      using keep(1) inv by (simp_all add: logged_def lanes_ok_def log_fine_def engine_inv_def)
    then show ?thesis
      using inv ran(2) keep same by (simp add: engine_inv_def newest_logged_def)
  qed (use inv in simp)
  then show "engine_inv en' S" and "en_ms en' = en_ms en" and "en_localSeq en' = en_localSeq en"
    and "en_deviceId en' = en_deviceId en" and "en_marks en' = en_marks en" by blast+
qed

section \<open>Restart\<close>

text \<open>The durable store after every confirmed append: the indexed entries, and each device's
  confirmed mark.\<close>

definition stored :: "syncLogSnapshot \<Rightarrow> syncEngine \<Rightarrow> bool" where
  "stored sn en =
     (set (sn_entries sn) = logged (en_log en) \<and> distinct (sn_entries sn) \<and>
      distinct (map fst (sn_watermarks sn)) \<and>
      (\<forall>d. map_get_or 0 (sn_watermarks sn) d = mark_of (en_marks en) d))"

lemma lane_of_watermarks:
  "distinct (map fst ws) \<Longrightarrow>
   lane_of (merge_watermarks ws st) d = (max (mark_of st d) (map_get_or 0 ws d), snd (lane_of st d))"
proof (induction ws arbitrary: st)
  case Nil
  then show ?case by (simp add: merge_watermarks_def lane_of_def mark_of_def)
next
  case (Cons w ws)
  obtain k m where w: "w = (k, m)" by force
  have "map_get_or 0 ws k = 0"
    using Cons.prems w by (simp add: map_get_or_def map_of_eq_None_iff split: option.split) (metis imageI fst_conv map_of_SomeD)
  then show ?case
    using Cons.IH Cons.prems w
    by (auto simp: merge_watermarks_def lane_of_def mark_of_def map_get_or_def split: option.splits)
qed

text \<open>The replay loop.\<close>

lemma hydrate_fold:
  assumes "fold (hydrate_entry env) es (rp, h, en) = (rp', h', en')"
  shows "en_ms en' = fold (merge_step (merge_env env en) EmitRepair) es (en_ms en) \<and>
    en_log en' = fold indexEntry es (en_log en) \<and> en_marks en' = fold_entries es (en_marks en) \<and>
    en_deviceId en' = en_deviceId en \<and> en_peers en' = en_peers en \<and> en_dirty en' = en_dirty en \<and>
    en_localSeq en' = fold max (map ce_seq (filter (\<lambda>e. ce_deviceId e = en_deviceId en) es)) (en_localSeq en) \<and>
    (\<forall>e\<in>set es. \<exists>s. h' = Some s \<and> ce_hlc e \<le> s) \<and> (\<forall>s. h = Some s \<longrightarrow> (\<exists>s'. h' = Some s' \<and> s \<le> s')) \<and>
    (h' = h \<or> h' \<in> Some ` ce_hlc ` set es)"
  using assms
proof (induction es arbitrary: rp h en)
  case (Cons e es)
  obtain rp1 h1 en1 where step: "hydrate_entry env e (rp, h, en) = (rp1, h1, en1)"
    using prod_cases3 by blast
  then have facts: "en_ms en1 = merge_step (merge_env env en) EmitRepair e (en_ms en)"
      "en_log en1 = indexEntry e (en_log en)" "en_marks en1 = foldSeq (ce_deviceId e) (ce_seq e) (en_marks en)"
      "en_deviceId en1 = en_deviceId en" "en_peers en1 = en_peers en" "en_dirty en1 = en_dirty en"
      "en_localSeq en1 = (if ce_deviceId e = en_deviceId en then max (ce_seq e) (en_localSeq en) else en_localSeq en)"
      "\<exists>s. h1 = Some s \<and> ce_hlc e \<le> s \<and> (\<forall>t. h = Some t \<longrightarrow> t \<le> s)" "h1 = h \<or> h1 = Some (ce_hlc e)"
    by (auto simp: hydrate_entry_def merge_step_def Let_def stamp_cmp.cmp_pos split: prod.splits option.splits if_splits)
  have "merge_env env en1 = merge_env env en" using facts(4) by (simp add: merge_env_def)
  then show ?case
    using Cons.IH [of rp1 h1 en1] Cons.prems step facts by (auto simp: fold_entries_def intro: order_trans)
qed (auto simp: fold_entries_def)

text \<open>This device's entries in the accepted set, and the last seq it minted.\<close>

definition own_inv :: "syncEngine \<Rightarrow> changeEntry set \<Rightarrow> bool" where
  "own_inv en S = (\<forall>e\<in>S. ce_deviceId e = en_deviceId en \<longrightarrow> ce_seq e \<le> en_localSeq en)"

lemma fold_max_nat:
  fixes m :: nat
  shows "m \<le> fold max xs m" "x \<in> set xs \<Longrightarrow> x \<le> fold max xs m"
    "(\<forall>x\<in>set xs. x \<le> b) \<Longrightarrow> m \<le> b \<Longrightarrow> fold max xs m \<le> b"
proof -
  have ge: "m \<le> fold max xs m" for xs and m :: nat
    by (induction xs arbitrary: m) (auto intro: order_trans [OF max.cobounded2])
  then show "m \<le> fold max xs m" .
  show "x \<in> set xs \<Longrightarrow> x \<le> fold max xs m"
    by (induction xs arbitrary: m) (auto intro: order_trans [OF max.cobounded1 ge])
  show "(\<forall>x\<in>set xs. x \<le> b) \<Longrightarrow> m \<le> b \<Longrightarrow> fold max xs m \<le> b"
    by (induction xs arbitrary: m) auto
qed

lemma hydrated_marks:
  assumes inv: "marks_inv st" "marks_cover st (set es)" and pos: "\<forall>e\<in>set es. 1 \<le> ce_seq e"
    and ws: "distinct (map fst ws)" "\<forall>d. map_get_or 0 ws d = mark_of st d"
  defines "st' \<equiv> merge_watermarks ws (fold_entries es no_marks)"
  shows "marks_inv st'" "mark_of st' d = mark_of st d" "marks_cover st' (set es)"
proof -
  let ?f = "fold_entries es no_marks"
  have f: "?f = commitSeqs es None no_marks" by (simp add: commitSeqs_def)
  have invf: "marks_inv ?f" unfolding f by (rule commitSeqs_inv [OF no_marks_inv])
  have obs: "observed (lane_of ?f d) = {n. \<exists>e\<in>set es. ce_deviceId e = d \<and> ce_seq e = n}" for d
    using pos unfolding f commitSeqs_observed [OF no_marks_inv]
    by (force simp: no_marks_def lane_of_def observed_def seqs_of_def entry_pairs_def skip_pairs_def)
  have sub: "observed (lane_of ?f d) \<subseteq> observed (lane_of st d)" for d
    unfolding obs using inv(2) by (auto simp: marks_cover_def)
  have le: "mark_of ?f d \<le> mark_of st d" for d
  proof -
    have "settled (lane_of ?f d)" "settled (lane_of st d)" using invf inv(1) by (simp_all add: marks_inv_def)
    then have "{1..mark_of ?f d} \<subseteq> observed (lane_of st d)"
      using settled_mark [of "lane_of ?f d" "mark_of ?f d"] sub [of d] by (simp add: lane_of_mark)
    then show ?thesis
      using settled_mark [OF \<open>settled (lane_of st d)\<close>] by (simp add: lane_of_mark)
  qed
  have lane: "lane_of st' d = (mark_of st d, snd (lane_of ?f d))" for d
    using lane_of_watermarks [OF ws(1), of ?f d] ws(2) le [of d] by (simp add: st'_def max_absorb2)
  show "mark_of st' d = mark_of st d"
    using lane [of d] by (simp flip: lane_of_mark)
  show "marks_inv st'"
    unfolding marks_inv_def
  proof
    fix d
    have "settled (lane_of st d)" using inv(1) by (simp add: marks_inv_def)
    then have "mark_of st d + 1 \<notin> observed (lane_of st d)"
      by (simp add: settled_def observed_def lane_of_mark)
    then have "mark_of st d + 1 \<notin> observed (lane_of ?f d)" using sub by blast
    then show "settled (lane_of st' d)"
      unfolding lane by (simp add: settled_def observed_def)
  qed
  have "observed (lane_of ?f d) \<subseteq> observed (lane_of st' d)" for d
    using le [of d] unfolding lane by (auto simp: observed_def lane_of_mark)
  moreover have "marks_cover ?f (set es)" using obs by (auto simp: marks_cover_def)
  ultimately show "marks_cover st' (set es)" unfolding marks_cover_def by blast
qed

lemma hydrate_restores:
  fixes env :: opEnv
  assumes inv: "engine_inv en S" and own: "own_inv en S" and sn: "stored sn en"
  defines "en' \<equiv> hydrate env (en_deviceId en) sn"
  shows "engine_inv en' S" and "en_localSeq en' = en_localSeq en" and "en_deviceId en' = en_deviceId en"
    and "mark_of (en_marks en') d = mark_of (en_marks en) d" and "logged (en_log en') = logged (en_log en)"
proof -
  define es where "es = sn_entries sn"
  define e0 where "e0 = empty_engine (en_deviceId en) (hydrate_div sn)"
  obtain rp h ef where run: "fold (hydrate_entry env) es ([], None, e0) = (rp, h, ef)"
    using prod_cases3 by blast
  note hf = hydrate_fold [OF run]
  have e0: "en_ms e0 = empty_merge (hydrate_div sn)" "en_marks e0 = no_marks" "en_deviceId e0 = en_deviceId en"
      "en_localSeq e0 = 0" "logged (en_log e0) = {}" "lanes_ok (en_log e0)" "distinct (map fst (lg_lanes (en_log e0)))"
      "lg_seen (en_log e0) = {}" "log_fine (en_log e0)"
    by (simp_all add: e0_def empty_engine_def logged_def lane_def lanes_ok_def log_fine_def cache_ok_def)
  define clk where "clk = (case h of None \<Rightarrow> Stamp 0 0 | Some s \<Rightarrow> s)"
  define mk where "mk = merge_watermarks (sn_watermarks sn) (fold_entries es no_marks)"
  have en': "en_log en' = en_log ef" "en_marks en' = mk" "en_clock en' = clk" "en_localSeq en' = en_localSeq ef"
      "en_deviceId en' = en_deviceId en" "ms_records (en_ms en') = ms_records (en_ms ef)"
      "ms_live (en_ms en') = ms_live (en_ms ef)"
    using run hf e0 by (simp_all add: en'_def hydrate_def Let_def es_def e0_def mk_def clk_def)
  have se: "set es = logged (en_log en)" "distinct es" "distinct (map fst (sn_watermarks sn))"
      "\<forall>d. map_get_or 0 (sn_watermarks sn) d = mark_of (en_marks en) d"
    using sn by (simp_all add: stored_def es_def)
  have old: "admissible S" "state_inv (en_ms en) S" "logged (en_log en) \<subseteq> S" "ms_live (en_ms en) \<subseteq> set es"
      "marks_inv (en_marks en)" "marks_cover (en_marks en) (set es)" "newest_logged en"
    using inv se(1) by (simp_all add: engine_inv_def)
  have pos: "\<forall>e\<in>set es. 1 \<le> ce_seq e"
    using old(1,3) se(1) by (auto simp: admissible_def valid_entry_def)
  have adm: "admissible (set es)" using admissible_subset old(1,3) se(1) by auto
  have log: "lanes_ok (en_log en')" "distinct (map fst (lg_lanes (en_log en')))" "logged (en_log en') = set es"
      "lg_seen (en_log en') = entryKey ` logged (en_log en')"
    using index_all [of "en_log e0" es] e0 hf en'(1) by simp_all
  then show "logged (en_log en') = logged (en_log en)" by (simp add: se(1))
  have fine: "log_fine (en_log en')"
    using log_fine_all [of "en_log e0" es] e0 se(2) hf en'(1) by simp
  have live: "ms_live (en_ms en') \<subseteq> set es"
    using merge_live_new [of "merge_env env e0" EmitRepair es "en_ms e0"] e0(1) hf en'(7)
    by (simp add: empty_merge_def)
  have "state_inv (en_ms ef) (set es)"
    using merge_run_inv [OF adm] hf e0(1) by simp
  then have "state_inv (en_ms en') (set es)"
    using en'(6,7) by (simp add: state_inv_def)
  from state_inv_extend [OF old(1,2,4) _ this] have st: "state_inv (en_ms en') S"
    using old(3) se(1) by simp
  note marks = hydrated_marks [OF old(5,6) pos se(3,4), folded mk_def]
  show "mark_of (en_marks en') d = mark_of (en_marks en) d" by (simp add: en'(2) marks)
  let ?own = "filter (\<lambda>e. ce_deviceId e = en_deviceId en) es"
  have seq: "en_localSeq en' = fold max (map ce_seq ?own) 0"
    using hf e0 en'(4) by simp
  have le: "fold max (map ce_seq ?own) 0 \<le> en_localSeq en"
    by (rule fold_max_nat) (use own old(3) se(1) in \<open>auto simp: own_inv_def\<close>)
  have ge: "en_localSeq en \<le> fold max (map ce_seq ?own) 0"
  proof (cases "en_localSeq en = 0")
    case False
    then obtain e where "e \<in> set es" "ce_deviceId e = en_deviceId en" "ce_seq e = en_localSeq en"
      using old(7) se(1) by (auto simp: newest_logged_def)
    then have "en_localSeq en \<in> set (map ce_seq ?own)" by force
    then show ?thesis by (rule fold_max_nat)
  qed simp
  show same: "en_localSeq en' = en_localSeq en" using seq le ge by simp
  show "en_deviceId en' = en_deviceId en" by (rule en'(5))
  have newest: "newest_logged en'"
    using old(7) log(3) same en'(5) se(1) by (simp add: newest_logged_def)
  have clock: "stamp_ok clk \<and> (\<forall>e\<in>set es. ce_hlc e \<le> clk)"
  proof -
    have "stamp_ok (ce_hlc e)" if "e \<in> set es" for e
      using adm that by (auto simp: admissible_def valid_entry_def)
    then show ?thesis
      using hf by (auto simp: clk_def stamp_ok_def split: option.splits)
  qed
  have "\<forall>e\<in>S. ce_hlc e \<le> clk"
  proof
    fix e assume "e \<in> S"
    then obtain c where "c \<in> ms_live (en_ms en)" "entry_ts e \<le> entry_ts c"
      using live_bounds [OF old(2)] by blast
    then have "c \<in> set es" "ce_hlc e \<le> ce_hlc c"
      using old(4) by (auto simp: entry_ts_def less_eq_prod_def)
    then show "ce_hlc e \<le> clk" using clock by (auto intro: order_trans)
  qed
  then show "engine_inv en' S"
    using old st log fine live marks clock newest en' se(1) unfolding engine_inv_def by simp
qed

section \<open>Replicas\<close>

text \<open>
  The states of the engine of device \<open>dev\<close> and the entries it has accepted on the way:
  installed on an empty log, and then any sequence of writes, applies, exports and restarts.
  An apply's document agrees with what the replica holds on who minted what: an entry is
  identified by its stamp and device, and by its device and seq, and this device's own entries
  come back to it only as it minted them.
\<close>

inductive replica :: "string \<Rightarrow> syncEngine \<Rightarrow> changeEntry set \<Rightarrow> bool" for dev where
  install: "device_ok dev \<Longrightarrow> sn_entries sn = [] \<Longrightarrow> sn_watermarks sn = [] \<Longrightarrow>
    replica dev (hydrate env dev sn) {}"
| wrote: "replica dev en S \<Longrightarrow> writeChanges env inputs pre en = (r, en') \<Longrightarrow>
    en_localSeq en + length inputs \<le> max_safe \<Longrightarrow> replica dev en' (S \<union> written r)"
| applied: "replica dev en S \<Longrightarrow> applyDelta env doc sd en = (r', en') \<Longrightarrow>
    admissible (S \<union> set (doc_entries doc)) \<Longrightarrow> numbered (S \<union> set (doc_entries doc)) \<Longrightarrow>
    \<forall>e\<in>set (doc_entries doc). ce_deviceId e = dev \<longrightarrow> e \<in> S \<Longrightarrow> replica dev en' (S \<union> accepted r')"
| exported: "replica dev en S \<Longrightarrow> exportOp env since limit en = (r'', en') \<Longrightarrow> replica dev en' S"
| restarted: "replica dev en S \<Longrightarrow> stored sn en \<Longrightarrow> replica dev (hydrate env dev sn) S"

definition replica_inv :: "string \<Rightarrow> syncEngine \<Rightarrow> changeEntry set \<Rightarrow> bool" where
  "replica_inv dev en S =
     (device_ok dev \<and> en_deviceId en = dev \<and> engine_inv en S \<and> own_inv en S \<and> numbered S)"

lemma install_inv:
  assumes "sn_entries sn = []" "sn_watermarks sn = []"
  shows "engine_inv (hydrate env dev sn) {}" "en_deviceId (hydrate env dev sn) = dev"
  using assms empty_merge_inv
  by (auto simp: hydrate_def Let_def empty_engine_def engine_inv_def lanes_ok_def lane_def logged_def
      log_fine_def cache_ok_def merge_watermarks_def no_marks_inv marks_cover_def newest_logged_def
      admissible_def stamp_ok_def empty_merge_def)

lemma writeChanges_seqs:
  assumes run: "writeChanges env inputs pre en = (r, en')" and inv: "engine_inv en S"
  shows "en_deviceId en' = en_deviceId en \<and> en_localSeq en \<le> en_localSeq en' \<and>
    (\<forall>e\<in>written r. ce_deviceId e = en_deviceId en \<and> en_localSeq en < ce_seq e \<and> ce_seq e \<le> en_localSeq en') \<and>
    inj_on ce_seq (written r)"
  using run
proof (cases rule: writeChanges_cases)
  case (ran at_ms)
  have clk: "stamp_ok (en_clock en)" using inv by (simp add: engine_inv_def)
  obtain mr clk where mint: "mint_entries en pre at_ms inputs 0 (en_clock en) = (mr, clk)" by force
  note mp = mint_entries_props [OF mint clk]
  show ?thesis
  proof (cases mr)
    case None
    then show ?thesis using ran(3) mint by (auto simp: writeBody_def written_def)
  next
    case (Some es)
    then have es: "map ce_seq es = [en_localSeq en + 1..<en_localSeq en + 1 + length es]"
        "\<forall>e\<in>set es. ce_deviceId e = en_deviceId en"
      using mp by auto
    have "ce_seq ` set es = {en_localSeq en + 1..<en_localSeq en + 1 + length es}"
      using es(1) by (metis list.set_map set_upt)
    then have "ce_seq e \<in> {en_localSeq en + 1..<en_localSeq en + 1 + length es}" if "e \<in> set es" for e
      using that by blast
    then have seqs: "\<forall>e\<in>set es. en_localSeq en < ce_seq e \<and> ce_seq e \<le> en_localSeq en + length es"
      by fastforce
    have inj: "inj_on ce_seq (set es)"
      using es(1) by (metis distinct_map distinct_upt)
    obtain ra en1 where ap: "appendLog env es None None (en\<lparr>en_clock := clk\<rparr>) = (ra, en1)" by force
    note af = appendLog_facts [OF ap]
    show ?thesis
    proof (cases ra)
      case (Some err)
      then show ?thesis using ran(3) mint \<open>mr = Some es\<close> ap af by (auto simp: writeBody_def written_def)
    next
      case None
      obtain os divs ms where ma: "merge_all (merge_env env en) EmitLive es (en_ms en1) = ((os, divs), ms)"
        by (metis prod.collapse)
      have "r = Inr (zip es os)" "en_localSeq en' = en_localSeq en + length es" "en_deviceId en' = en_deviceId en"
        using ran(3) mint \<open>mr = Some es\<close> ap None ma af
        by (auto simp: writeBody_def Let_def appendDivergence_frame)
      moreover have "fst ` set (zip es os) \<subseteq> set es"
        by (auto dest: set_zip_leftD)
      ultimately show ?thesis
        using es(2) seqs inj by (auto simp: written_def intro: inj_on_subset)
    qed
  qed
qed (simp add: written_def)

lemma numbered_own:
  assumes "numbered S" "\<forall>e\<in>S. ce_deviceId e = d \<longrightarrow> ce_seq e \<le> n"
    and "\<forall>e\<in>W. ce_deviceId e = d \<and> n < ce_seq e" "inj_on ce_seq W"
  shows "numbered (S \<union> W)"
  unfolding numbered_def
proof (rule inj_onI)
  fix x y
  assume x: "x \<in> S \<union> W" and y: "y \<in> S \<union> W" and eq: "(ce_deviceId x, ce_seq x) = (ce_deviceId y, ce_seq y)"
  consider "x \<in> S" "y \<in> S" | "x \<in> W" "y \<in> W" | "x \<in> S" "y \<in> W" | "x \<in> W" "y \<in> S"
    using x y by blast
  then show "x = y"
  proof cases
    case 1 then show ?thesis using assms(1) eq by (auto simp: numbered_def dest: inj_onD)
  next
    case 2 then show ?thesis using assms(4) eq by (auto dest: inj_onD)
  next
    case 3 then show ?thesis using assms(2,3) eq by force
  next
    case 4 then show ?thesis using assms(2,3) eq by force
  qed
qed

lemma replica_keeps: "replica dev en S \<Longrightarrow> replica_inv dev en S"
proof (induction rule: replica.induct)
  case (install sn env)
  then show ?case
    using install_inv [OF install(2,3)] by (simp add: replica_inv_def own_inv_def numbered_def)
next
  case (wrote en S env inputs pre r en')
  then have IH: "device_ok dev" "en_deviceId en = dev" "engine_inv en S" "own_inv en S" "numbered S"
    by (simp_all add: replica_inv_def)
  note seqs = writeChanges_seqs [OF wrote(2) IH(3)]
  have "engine_inv en' (S \<union> written r)"
    by (rule writeChanges_inv [OF IH(3) wrote(2,3)]) (simp add: IH(1,2))
  moreover have "numbered (S \<union> written r)"
    by (rule numbered_own [OF IH(5)]) (use seqs IH(4) in \<open>auto simp: own_inv_def\<close>)
  moreover have "own_inv en' (S \<union> written r)"
    using seqs IH(4) by (force simp: own_inv_def)
  ultimately show ?case using IH(1,2) seqs by (simp add: replica_inv_def)
next
  case (applied en S env doc sd r' en')
  then have IH: "device_ok dev" "en_deviceId en = dev" "engine_inv en S" "own_inv en S" "numbered S"
    by (simp_all add: replica_inv_def)
  have sub: "accepted r' \<subseteq> set (doc_entries doc)"
    using applyDelta_result(1) [OF IH(3) applied(3,2)] by (auto simp: accepted_def split: sum.splits)
  have "engine_inv en' (S \<union> accepted r')" by (rule applyDelta_result [OF IH(3) applied(3,2)])
  moreover have "numbered (S \<union> accepted r')"
    by (rule numbered_subset [OF applied(4)]) (use sub in blast)
  moreover have "own_inv en' (S \<union> accepted r')"
    using IH(2,4) applied(5) sub applyDelta_seq [OF applied(2)] by (auto simp: own_inv_def)
  ultimately show ?case using IH(1,2) applyDelta_seq [OF applied(2)] by (simp add: replica_inv_def)
next
  case (exported en S env since limit r'' en')
  then have IH: "device_ok dev" "en_deviceId en = dev" "engine_inv en S" "own_inv en S" "numbered S"
    by (simp_all add: replica_inv_def)
  then show ?case
    using exportOp_inv [OF IH(3,5) exported(2)] by (simp add: replica_inv_def own_inv_def)
next
  case (restarted en S sn env)
  then have IH: "device_ok dev" "en_deviceId en = dev" "engine_inv en S" "own_inv en S" "numbered S"
    by (simp_all add: replica_inv_def)
  show ?case
    using hydrate_restores [OF IH(3,4) restarted(2), of env] IH by (simp add: replica_inv_def own_inv_def)
qed

section \<open>The delta document\<close>

text \<open>A \<open>SyncDelta\<close> as the JSON object the transport carries.\<close>

definition delta_val :: "syncDelta \<Rightarrow> jsval" where
  "delta_val d = JObj
     [(''formatVersion'', JNum (jnat 1)), (''senderDeviceId'', JStr (sd_sender d)),
      (''cursor'', JObj (map (\<lambda>(k, n). (k, JNum (jnat n))) (sd_cursor d))),
      (''entries'', JArr (map val_of_entry (sd_entries d))), (''more'', JBool (sd_more d)),
      (''skipped'', JObj (map (\<lambda>(k, ns). (k, JArr (map (\<lambda>n. JNum (jnat n)) ns))) (sd_skipped d)))]"

lemma classify_vals:
  assumes "\<forall>e\<in>set es. valid_entry e" "distinct (map entryKey es)" "\<forall>e\<in>set es. entryKey e \<notin> set D"
  shows "classify (map val_of_entry es) i D = ([], es)"
  using assms
proof (induction es arbitrary: i D)
  case (Cons e es)
  then have "classify (map val_of_entry es) (i + 1) (entryKey e # D) = ([], es)"
    by (intro Cons.IH) (auto simp: image_iff)
  then show ?case using Cons.prems by (simp add: entry_codec.dec_enc)
qed simp

lemma doc_entries_delta:
  "\<forall>e\<in>set (sd_entries d). valid_entry e \<Longrightarrow> distinct (map entryKey (sd_entries d)) \<Longrightarrow>
     doc_entries (delta_val d) = sd_entries d"
  by (simp add: doc_entries_def delta_val_def classify_vals)

lemma skips_of_delta:
  assumes "\<forall>(d, ss)\<in>set (sd_skipped d). \<forall>n\<in>set ss. n \<le> max_safe"
  shows "skips_of_val (propOf (delta_val d) ''skipped'') = sd_skipped d"
proof -
  have "map (nat_of_val \<circ> (\<lambda>n. JNum (jnat n))) ss = ss" if "(k, ss) \<in> set (sd_skipped d)" for k ss
    using assms that by (intro map_idI) auto
  then have "map ((\<lambda>(k, x). (k, map nat_of_val (arr_elems x))) \<circ> (\<lambda>(k, ns). (k, JArr (map (\<lambda>n. JNum (jnat n)) ns))))
      (sd_skipped d) = sd_skipped d"
    by (intro map_idI) (auto simp del: nat_of_val.simps)
  then show ?thesis by (simp add: delta_val_def skips_of_val_def)
qed

text \<open>The marks after an apply.\<close>

lemma finishApply_marks:
  "finishApply env doc at_ms os es en = (Inr res, en') \<Longrightarrow> en_marks en' = en_marks en \<and> ar_entries res = es"
  by (auto simp: finishApply_def Let_def appendDivergence_frame split: prod.splits option.splits)

lemma applyBody_marks:
  assumes "applyBody env doc sd at_ms en = (Inr res, en')"
  shows "en_marks en' = commitSeqs (ar_entries res) (Some (skips_of_val (propOf doc ''skipped''))) (en_marks en)"
proof -
  let ?valid = "sort_by compareEntryTs (doc_entries doc)" and ?sk = "skips_of_val (propOf doc ''skipped'')"
  let ?fresh = "filter (is_fresh en) ?valid"
  have note_marks: "en_marks (notePeerCursor s c en) = en_marks en" for s c
    by (simp add: notePeerCursor_def Let_def)
  have append: "en_marks en2 = commitSeqs es sk (en_marks en1)" if "appendLog env es sk pm en1 = (None, en2)" for es sk pm en1 en2
    using appendLog_facts [OF that] by simp
  obtain rejects where cl: "classify (arr_elems (propOf doc ''entries'')) 0 [] = (rejects, doc_entries doc)"
    unfolding doc_entries_def by (metis prod.collapse)
  have none: "commitSeqs [] (Some []) st = st" for st
    by (simp add: commitSeqs_def fold_entries_def fold_skips_def)
  show ?thesis
    using assms none unfolding applyBody_def Let_def cl prod.case
    by (auto simp: note_marks dest!: finishApply_marks append split: if_splits prod.splits option.splits)
qed

lemma applyDelta_marks:
  "applyDelta env doc sd en = (Inr res, en') \<Longrightarrow>
     en_marks en' = commitSeqs (ar_entries res) (Some (skips_of_val (propOf doc ''skipped''))) (en_marks en)"
  by (erule applyDelta_cases) (auto dest: applyBody_marks)

section \<open>Opening on a stored document\<close>

text \<open>The document of a snapshot of entries and marks.\<close>

definition log_val :: "changeEntry list \<Rightarrow> (string, nat) jsmap \<Rightarrow> jsval" where
  "log_val es ws = JObj
     [(''entries'', JArr (map val_of_entry es)), (''divergence'', JArr []),
      (''watermarks'', JObj (map (\<lambda>(k, n). (k, JNum (jnat n))) ws))]"

lemma cursor_of_vals:
  "\<forall>(k, n)\<in>set ws. n \<le> max_safe \<Longrightarrow> cursor_of_val (JObj (map (\<lambda>(k, n). (k, JNum (jnat n))) ws)) = ws"
  by (induction ws) (auto simp: cursor_of_val_def)

lemma open_log:
  assumes "\<forall>e\<in>set es. valid_entry e" "\<forall>(k, n)\<in>set ws. n \<le> max_safe" "length ws \<le> max_cursor_devices"
    and "op_now env = Some t" "device_ok dev"
  shows "createSyncEngine env (JStr dev) (Inr (log_val es ws)) =
    Inr (hydrate env dev \<lparr>sn_entries = es, sn_divergence = [], sn_watermarks = ws, sn_divergenceFloor = None,
           sn_replayOffset = None, sn_droppedEmissions = None, sn_peerMarks = None\<rparr>)"
proof -
  have "list_all isSafeNonNegative (map (\<lambda>x. JNum (jnat (snd x))) ws)"
    using assms(2) by (auto simp: list_all_iff isSafeNonNegative_iff)
  then have c: "isSyncCursor (JObj (map (\<lambda>(k, n). (k, JNum (jnat n))) ws))"
    using assms(3) by (simp add: isSyncCursor_def comp_def case_prod_beta)
  have e: "list_all isChangeEntry (map val_of_entry es)" "map (the \<circ> entry_of_val) (map val_of_entry es) = es"
  proof -
    have one: "entry_of_val (val_of_entry e) = Some e" if "e \<in> set es" for e
      using assms(1) that by (simp add: entry_codec.dec_enc)
    then show "map (the \<circ> entry_of_val) (map val_of_entry es) = es"
      by (simp add: map_idI)
    have "isChangeEntry (val_of_entry e)" if "e \<in> set es" for e
      using one [OF that] by (auto simp: entry_of_val_def split: if_splits)
    then show "list_all isChangeEntry (map val_of_entry es)"
      by (simp add: list_all_iff)
  qed
  have "isSyncLogSnapshot (log_val es ws)"
    using c e(1) by (simp add: isSyncLogSnapshot_def log_val_def optional_def)
  moreover have "snapshot_of_val (log_val es ws) =
      \<lparr>sn_entries = es, sn_divergence = [], sn_watermarks = ws, sn_divergenceFloor = None,
       sn_replayOffset = None, sn_droppedEmissions = None, sn_peerMarks = None\<rparr>"
    using e(2) cursor_of_vals [OF assms(2)] by (simp add: snapshot_of_val_def log_val_def)
  ultimately show ?thesis
    using assms(4,5) by (simp add: createSyncEngine_def device_ok_def)
qed

end
