(* ===== verification/SyncSamples.thy ===== *)
theory SyncSamples
  imports SyncReplica
begin

text \<open>
  A small run used by the witnesses: device \<open>A\<close> installs and writes one setting, device \<open>B\<close>
  installs and applies a delta that carries it. The two replicas hold the same entry.
\<close>

definition sample_env :: opEnv where
  "sample_env = \<lparr>op_cancelled = False, op_now = Some 1000, op_next = (\<lambda>n. ''d'' @ show_nat n),
                 op_append = (\<lambda>_. None)\<rparr>"

definition broken_env :: opEnv where
  "broken_env = sample_env\<lparr>op_append := (\<lambda>_. Some (appError Internal ''disk full'' None))\<rparr>"

definition no_snapshot :: syncLogSnapshot where
  "no_snapshot = \<lparr>sn_entries = [], sn_divergence = [], sn_watermarks = [], sn_divergenceFloor = None,
                  sn_replayOffset = None, sn_droppedEmissions = None, sn_peerMarks = None\<rparr>"

definition sample_write :: localWrite where
  "sample_write = WriteField (JStr ''settings'') (JStr ''settings'') (JStr ''theme'') (JStr ''dark'')"

definition sample_entry :: changeEntry where
  "sample_entry = \<lparr>ce_kind = Settings, ce_recordId = ''settings'', ce_field = ''theme'', ce_value = JStr ''dark'',
                   ce_tombstone = False, ce_hlc = Stamp 1000 0, ce_deviceId = ''A'', ce_seq = 1\<rparr>"

definition fresh_A :: syncEngine where
  "fresh_A = hydrate sample_env ''A'' no_snapshot"

definition fresh_B :: syncEngine where
  "fresh_B = hydrate sample_env ''B'' no_snapshot"

definition engine_A :: syncEngine where
  "engine_A = snd (writeChanges sample_env [sample_write] False fresh_A)"

definition sample_doc :: jsval where
  "sample_doc = JObj [(''formatVersion'', JNum (jnat 1)), (''senderDeviceId'', JStr ''A''),
     (''cursor'', JObj [(''A'', JNum (jnat 1))]), (''entries'', JArr [val_of_entry sample_entry]),
     (''more'', JBool False), (''skipped'', JObj [])]"

definition engine_B :: syncEngine where
  "engine_B = snd (applyDelta sample_env sample_doc (Some ''A'') fresh_B)"

lemma fst_write: "fst (writeChanges sample_env [sample_write] False fresh_A) = Inr [(sample_entry, Applied sample_entry [])]"
  by code_simp

lemma fresh_replicas: "replica ''A'' fresh_A {}" "replica ''B'' fresh_B {}"
  unfolding fresh_A_def fresh_B_def
  by (rule replica.install; simp add: device_ok_def no_snapshot_def)+

lemma replica_A: "replica ''A'' engine_A {sample_entry}"
proof -
  have "replica ''A'' (snd (writeChanges sample_env [sample_write] False fresh_A))
      ({} \<union> written (fst (writeChanges sample_env [sample_write] False fresh_A)))"
  proof (rule replica.wrote [OF fresh_replicas(1) prod.collapse [symmetric]])
    have "en_localSeq fresh_A = 0" by code_simp
    then show "en_localSeq fresh_A + length [sample_write] \<le> max_safe" by simp
  qed
  then show ?thesis by (simp add: fst_write written_def engine_A_def)
qed

lemma sample_valid: "valid_entry sample_entry"
  by code_simp

lemma sample_admissible: "admissible {sample_entry}"
  by (simp add: admissible_def sample_valid)

lemma sample_doc_entries: "doc_entries sample_doc = [sample_entry]"
  by code_simp

lemma accepted_B: "accepted (fst (applyDelta sample_env sample_doc (Some ''A'') fresh_B)) = {sample_entry}"
proof -
  have "map_option ar_entries (case fst (applyDelta sample_env sample_doc (Some ''A'') fresh_B) of
          Inl _ \<Rightarrow> None | Inr res \<Rightarrow> Some res) = Some [sample_entry]"
    by code_simp
  then show ?thesis by (auto simp: accepted_def split: sum.splits)
qed

lemma replica_B: "replica ''B'' engine_B {sample_entry}"
proof -
  have "replica ''B'' (snd (applyDelta sample_env sample_doc (Some ''A'') fresh_B))
      ({} \<union> accepted (fst (applyDelta sample_env sample_doc (Some ''A'') fresh_B)))"
    by (rule replica.applied [OF fresh_replicas(2) prod.collapse [symmetric]])
       (simp_all add: sample_doc_entries sample_admissible numbered_def, simp add: sample_entry_def)
  then show ?thesis by (simp add: accepted_B engine_B_def)
qed

section \<open>An acknowledged overwrite\<close>

text \<open>\<open>A\<close> overwrites its setting, and \<open>B\<close> then advertises that it holds both entries.\<close>

definition second_write :: localWrite where
  "second_write = WriteField (JStr ''settings'') (JStr ''settings'') (JStr ''theme'') (JStr ''light'')"

definition second_entry :: changeEntry where
  "second_entry = sample_entry\<lparr>ce_value := JStr ''light'', ce_hlc := Stamp 1000 1, ce_seq := 2\<rparr>"

definition engine_A2 :: syncEngine where
  "engine_A2 = snd (writeChanges sample_env [second_write] False engine_A)"

definition engine_A3 :: syncEngine where
  "engine_A3 = notePeerCursor ''B'' [(''A'', 2)] engine_A2"

lemma replica_A2: "replica ''A'' engine_A2 {sample_entry, second_entry}"
proof -
  have "map_option (map fst) (case fst (writeChanges sample_env [second_write] False engine_A) of
          Inl _ \<Rightarrow> None | Inr rs \<Rightarrow> Some rs) = Some [second_entry]"
    by code_simp
  then have w: "written (fst (writeChanges sample_env [second_write] False engine_A)) = {second_entry}"
    by (auto simp: written_def split: sum.splits)
  have "replica ''A'' (snd (writeChanges sample_env [second_write] False engine_A))
      ({sample_entry} \<union> written (fst (writeChanges sample_env [second_write] False engine_A)))"
  proof (rule replica.wrote [OF replica_A prod.collapse [symmetric]])
    have "en_localSeq engine_A = 1" by code_simp
    then show "en_localSeq engine_A + length [second_write] \<le> max_safe" by simp
  qed
  then show ?thesis by (simp add: w engine_A2_def insert_commute)
qed

lemma engine_A3_inv: "engine_inv engine_A3 {sample_entry, second_entry}"
  using replica_keeps [OF replica_A2] unfolding engine_A3_def replica_inv_def
  by (auto intro: notePeerCursor_inv)

lemma logged_single: "lg_lanes lg = [(d, xs)] \<Longrightarrow> logged lg = set xs"
  by (auto simp: logged_def lane_def map_get_or_def split: if_splits)

lemma plan_A3: "cp_dropped (planCompaction engine_A3) = [sample_entry]"
  by code_simp

lemma compacted_A3: "logged (en_log (commitCompaction (planCompaction engine_A3) engine_A3)) = set [second_entry]"
  by (rule logged_single [where d = "''A''"]) code_simp

lemma logged_A2: "logged (en_log engine_A2) = set [sample_entry, second_entry]"
  by (rule logged_single [where d = "''A''"]) code_simp

lemma entries_differ: "sample_entry \<noteq> second_entry" "entry_ts sample_entry \<noteq> entry_ts second_entry"
  by (simp_all add: sample_entry_def second_entry_def entry_ts_def)

definition stored_A2 :: syncLogSnapshot where
  "stored_A2 = no_snapshot\<lparr>sn_entries := [sample_entry, second_entry], sn_watermarks := [(''A'', 2)]\<rparr>"

lemma stored_A2: "stored stored_A2 engine_A2"
proof -
  have "mk_contiguous (en_marks engine_A2) = [(''A'', 2)]" by code_simp
  then show ?thesis
    using entries_differ(1) by (auto simp: stored_def stored_A2_def logged_A2 mark_of_def map_get_or_def)
qed

definition second_outcome :: mergeOutcome where
  "second_outcome = snd (hd (case fst (writeChanges sample_env [second_write] False engine_A) of Inr rs \<Rightarrow> rs))"

lemma second_write_result:
  "fst (writeChanges sample_env [second_write] False engine_A) = Inr [(second_entry, second_outcome)]"
  by code_simp

section \<open>A retired play event\<close>

text \<open>\<open>A\<close> logs a play, writes a setting, and exports half a year later.\<close>

definition play_write :: localWrite where
  "play_write = WriteField (JStr ''playEvent'') (JStr ''p1'') (JStr ''event'')
     (JObj [(''eventId'', JStr ''p1''), (''recordingId'', JStr ''r1''), (''occurrenceId'', JNull),
            (''playedMs'', JNum (jnat 5)), (''listenedMs'', JNum (jnat 7))])"

definition engine_P :: syncEngine where
  "engine_P = snd (writeChanges sample_env [play_write, sample_write] False fresh_A)"

definition entries_P :: "changeEntry list" where
  "entries_P = (case fst (writeChanges sample_env [play_write, sample_write] False fresh_A) of
                  Inl _ \<Rightarrow> [] | Inr rs \<Rightarrow> map fst rs)"

lemma replica_P: "replica ''A'' engine_P (set entries_P)"
proof -
  have "replica ''A'' (snd (writeChanges sample_env [play_write, sample_write] False fresh_A))
      ({} \<union> written (fst (writeChanges sample_env [play_write, sample_write] False fresh_A)))"
  proof (rule replica.wrote [OF fresh_replicas(1) prod.collapse [symmetric]])
    have "en_localSeq fresh_A = 0" by code_simp
    then show "en_localSeq fresh_A + length [play_write, sample_write] \<le> max_safe" by simp
  qed
  then show ?thesis
    by (auto simp: written_def engine_P_def entries_P_def split: sum.splits)
qed

definition later_env :: opEnv where
  "later_env = sample_env\<lparr>op_now := Some 15552000900\<rparr>"

definition page_P :: syncDelta where
  "page_P = (case fst (exportOp later_env JUndef (JNum (jnat 10)) engine_P) of Inr d \<Rightarrow> d)"

lemma page_P:
  "exportOp later_env JUndef (JNum (jnat 10)) engine_P =
     (Inr page_P, snd (exportOp later_env JUndef (JNum (jnat 10)) engine_P))"
  "op_now later_env = Some 15552000900" "\<not> sd_more page_P" "sd_skipped page_P = [(''A'', [1])]"
  "sd_entries page_P = [sample_entry\<lparr>ce_hlc := Stamp 1000 1, ce_seq := 2\<rparr>]"
proof -
  have "(case fst (exportOp later_env JUndef (JNum (jnat 10)) engine_P) of Inl _ \<Rightarrow> False | Inr d \<Rightarrow> True)"
    by code_simp
  then show "exportOp later_env JUndef (JNum (jnat 10)) engine_P =
     (Inr page_P, snd (exportOp later_env JUndef (JNum (jnat 10)) engine_P))"
    by (auto simp: page_P_def prod_eq_iff split: sum.splits)
  show "op_now later_env = Some 15552000900" by (simp add: later_env_def)
  show "\<not> sd_more page_P" by code_simp
  show "sd_skipped page_P = [(''A'', [1])]" by code_simp
  show "sd_entries page_P = [sample_entry\<lparr>ce_hlc := Stamp 1000 1, ce_seq := 2\<rparr>]" by code_simp
qed

text \<open>\<open>B\<close> applies that page.\<close>

definition result_P :: applyResult where
  "result_P = (case fst (applyDelta later_env (delta_val page_P) None fresh_B) of Inr res \<Rightarrow> res)"

definition engine_BP :: syncEngine where
  "engine_BP = snd (applyDelta later_env (delta_val page_P) None fresh_B)"

lemma apply_P: "applyDelta later_env (delta_val page_P) None fresh_B = (Inr result_P, engine_BP)"
proof -
  have "(case fst (applyDelta later_env (delta_val page_P) None fresh_B) of Inl _ \<Rightarrow> False | Inr d \<Rightarrow> True)"
    by code_simp
  then show ?thesis
    by (auto simp: result_P_def engine_BP_def prod_eq_iff split: sum.splits)
qed

end
