(* ===== verification/CoreTheorems.thy ===== *)
theory CoreTheorems
  imports SyncSamples
begin

text \<open>
  Properties of the parts the sync engine is built from: the hybrid logical clock, the record
  ids and entry keys, the wire guards, the seq search and the error classification.
\<close>

section \<open>The hybrid logical clock\<close>

text \<open>C14: the stamps a clock returns over any sequence of ticks and receives, with calls that throw
  in between, are strictly increasing and all above the stamp it started from.\<close>

theorem clock_strictly_increases:
  assumes "stamp_ok clk"
  shows "sorted_wrt (<) (clk # run_values clock_exec cs clk)"
  using hlc.run_values_strict [OF assms] hlc.run_values_above [OF assms] by simp

theorem clock_strictly_increases_witness:
  "sorted_wrt (<) (Stamp 5 0 # run_values clock_exec
     [Tick (jnat 3), Receive (stamp_val (Stamp 9 2)) (jnat 4), Tick NaN, Tick (jnat 20)] (Stamp 5 0))"
  by (rule clock_strictly_increases) (simp add: stamp_ok_def)

text \<open>receiving a remote stamp moves the clock above both its own stamp and the remote one, so
  whatever happens after a message is stamped after it.\<close>

theorem receive_dominates:
  assumes "stamp_ok s" "fst (hlc_receive (stamp_val s) now clk) = Inr v"
  shows "clk < v \<and> s < v \<and> snd (hlc_receive (stamp_val s) now clk) = v"
  using receive_above [OF assms(2)] receive_returns [OF assms(2)] assms(1)
  by (simp add: stamp_codec.dec_enc)

theorem receive_dominates_witness:
  "Stamp 5 0 < Stamp 9 3 \<and> Stamp 9 2 < Stamp 9 3 \<and>
    snd (hlc_receive (stamp_val (Stamp 9 2)) (jnat 4) (Stamp 5 0)) = Stamp 9 3"
proof (rule receive_dominates)
  show "stamp_ok (Stamp 9 2)" by (simp add: stamp_ok_def)
  have "case fst (hlc_receive (stamp_val (Stamp 9 2)) (jnat 4) (Stamp 5 0)) of
      Inl _ \<Rightarrow> False | Inr v \<Rightarrow> stamp_l v = 9 \<and> stamp_c v = 3"
    by code_simp
  then show "fst (hlc_receive (stamp_val (Stamp 9 2)) (jnat 4) (Stamp 5 0)) = Inr (Stamp 9 3)"
    by (auto split: sum.splits hlcStamp.splits) (metis hlcStamp.collapse)
qed

text \<open>a tick at a time within the safe-integer range throws only when the clock is at the last
  representable stamp and the wall clock is not ahead of it.\<close>

theorem tick_defined:
  "(\<exists>v. fst (hlc_tick (jnat now) clk) = Inr v) \<longleftrightarrow>
     now \<le> max_safe \<and> \<not> (now \<le> stamp_l clk \<and> clk = Stamp max_safe max_safe)"
  by (auto simp: tick_total)

section \<open>Keys and record ids\<close>

text \<open>an entry's dedupe key identifies its stamp and device: two entries share a key exactly when
  they share both, whatever characters the device id holds.\<close>

theorem entry_key_injective: "entryKey a = entryKey b \<longleftrightarrow> ce_hlc a = ce_hlc b \<and> ce_deviceId a = ce_deviceId b"
  by (simp add: entryKey_eq_iff entry_ts_def)

text \<open>a composite record id decodes to the parts it was built from, whatever characters they
  hold, so distinct part lists never share a record.\<close>

theorem record_id_roundtrip:
  assumes "\<forall>p\<in>set parts. length p \<le> max_safe"
  shows "decodeRecordId (encodeRecordId parts) = Some parts"
  by (rule decode_encode [OF assms])

theorem record_id_roundtrip_witness:
  "decodeRecordId (encodeRecordId [''3:a|b'', [], ''recording'']) = Some [''3:a|b'', [], ''recording'']"
  by (rule record_id_roundtrip) simp

text \<open>C0: records of different kinds or ids never share a key of the merge's record map.\<close>

theorem record_key_injective: "syncedRecordKey k i = syncedRecordKey k' i' \<longleftrightarrow> k = k' \<and> i = i'"
  by simp

section \<open>The wire guard\<close>

text \<open>the guard admits only well-formed entries: what \<open>isChangeEntry\<close> accepts has a nonempty
  bounded record id, field and device, a safe stamp, a positive safe seq, and either is a tombstone
  with a null value or passes its field's contract.\<close>

theorem guarded_entry_valid:
  assumes "entry_of_val v = Some e"
  shows "valid_entry e"
  by (rule entry_of_val_valid [OF assms])

theorem guarded_entry_valid_witness: "valid_entry (sample_entry\<lparr>ce_seq := 3\<rparr>)"
proof (rule guarded_entry_valid)
  have "(case entry_of_val (val_of_entry (sample_entry\<lparr>ce_seq := 3\<rparr>)) of
      None \<Rightarrow> False | Some e \<Rightarrow> e = sample_entry\<lparr>ce_seq := 3\<rparr>)"
    by code_simp
  then show "entry_of_val (val_of_entry (sample_entry\<lparr>ce_seq := 3\<rparr>)) = Some (sample_entry\<lparr>ce_seq := 3\<rparr>)"
    by (simp split: option.splits)
qed

section \<open>The seq search\<close>

text \<open>the binary search of a seq-ordered lane finds the boundary a linear scan finds: the entries
  before the index are exactly those below the bound.\<close>

theorem first_seq_index:
  assumes "sorted (map ce_seq entries)"
  shows "take (firstSeqIndex entries (\<lambda>s. s < n)) entries = filter (\<lambda>e. ce_seq e < n) entries \<and>
    drop (firstSeqIndex entries (\<lambda>s. s < n)) entries = filter (\<lambda>e. \<not> ce_seq e < n) entries"
  using firstSeqIndex_boundary [OF assms downset_less] by blast

theorem first_seq_index_witness:
  "take (firstSeqIndex [sample_entry, second_entry] (\<lambda>s. s < 2)) [sample_entry, second_entry] =
      filter (\<lambda>e. ce_seq e < 2) [sample_entry, second_entry] \<and>
    drop (firstSeqIndex [sample_entry, second_entry] (\<lambda>s. s < 2)) [sample_entry, second_entry] =
      filter (\<lambda>e. \<not> ce_seq e < 2) [sample_entry, second_entry]"
  by (rule first_seq_index) (simp add: sample_entry_def second_entry_def)

section \<open>Errors\<close>

text \<open>a provider's wall detail is recognised under any number of wrapping prefixes: a transient
  error whose message ends in \<open>bot-check\<close> or \<open>streams-capped\<close> after its last colon, with any
  spaces around it, is classified as that wall.\<close>

theorem wall_recognised:
  assumes "ae_kind e = Transient" "ae_message e = p @ CHR '':'' # ws @ d" "\<forall>c\<in>set ws. js_space c"
    and "d = ''bot-check'' \<or> d = ''streams-capped''"
  shows "if d = ''bot-check'' then isBotCheckWall e else isStreamsCappedTransient e"
  using wall_survives_prefix [OF assms(1-3)] assms(4) by auto

theorem wall_recognised_witness:
  "if ''bot-check'' = ''bot-check'' then isBotCheckWall (appError Transient ''provider: yt: bot-check'' None)
   else isStreamsCappedTransient (appError Transient ''provider: yt: bot-check'' None)"
  by (rule wall_recognised [where p = "''provider: yt''" and ws = "'' ''"])
     (simp_all add: appError_def js_space_def)

end
