(* ===== verification/SyncTheorems.thy ===== *)
theory SyncTheorems
  imports SyncSamples
begin

text \<open>
  The properties of the sync engine, each over the definitions the code maps to, with the
  witnesses that apply them on the sample run.
\<close>

section \<open>Convergence\<close>

lemma replica_engine: "replica dev en S \<Longrightarrow> engine_inv en S \<and> own_inv en S \<and> numbered S \<and> en_deviceId en = dev \<and> device_ok dev"
  using replica_keeps by (simp add: replica_inv_def)

lemma replica_state: "replica dev en S \<Longrightarrow> admissible S \<and> state_inv (en_ms en) S"
  using replica_engine by (fastforce simp: engine_inv_def)

text \<open>C1: two replicas that have accepted the same entries, each through any sequence of local
  writes, applied deltas, exports, failed stores, compactions and restarts, show the same
  records and materialize the same list.\<close>

theorem replicas_converge:
  assumes "replica d1 en1 S" "replica d2 en2 S"
  shows "merge_view (en_ms en1) = merge_view (en_ms en2) \<and>
    map mat_view (materialize (en_ms en1)) = map mat_view (materialize (en_ms en2))"
proof -
  have S: "admissible S" "state_inv (en_ms en1) S" "state_inv (en_ms en2) S"
    using assms replica_state by blast+
  then show ?thesis
    using merge_view_spec [OF S(1,2)] merge_view_spec [OF S(1,3)] materialize_unique [OF S] by simp
qed

theorem replicas_converge_witness:
  "merge_view (en_ms engine_A) = merge_view (en_ms engine_B) \<and>
    map mat_view (materialize (en_ms engine_A)) = map mat_view (materialize (en_ms engine_B))"
  by (rule replicas_converge [OF replica_A replica_B])

text \<open>C2: what a replica holds is a function of the accepted entries alone: a record exists
  when an entry names it, its tombstone is the newest, a field exists when an entry of it
  postdates the newest tombstone, its winner is the greatest such entry under the field's merge
  rule, and its value is the winner's, or for a \<open>sum\<close> field the saturated sum of the devices'
  greatest components.\<close>

theorem replica_field_value:
  assumes "replica dev en S" and "A = part S (syncedRecordKey k i)"
  shows "(case map_of (ms_records (en_ms en)) (syncedRecordKey k i) of
      None \<Rightarrow> A = {}
    | Some r \<Rightarrow> A \<noteq> {} \<and> tomb_inv (rs_tombstone r) A \<and>
        (case map_of (rs_fields r) f of
           None \<Rightarrow> alive A f = {}
         | Some c \<Rightarrow> greatest (bkey (merge_of k f)) (alive A f) (fc_winner c) \<and>
             fc_value c = value_spec (merge_of k f) (alive A f) (fc_winner c)))"
proof -
  have "record_ok (syncedRecordKey k i) (map_of (ms_records (en_ms en)) (syncedRecordKey k i)) A"
    using replica_state [OF assms(1)] assms(2) by (simp add: state_inv_def)
  then show ?thesis
    by (auto simp: record_ok_def rec_inv_def fields_inv_def cell_inv_def dest!: spec [of _ f]
        split: option.splits)
qed

theorem replica_field_value_witness:
  "(case map_of (ms_records (en_ms engine_A)) (syncedRecordKey Settings ''settings'') of
      None \<Rightarrow> part {sample_entry} (syncedRecordKey Settings ''settings'') = {}
    | Some r \<Rightarrow> part {sample_entry} (syncedRecordKey Settings ''settings'') \<noteq> {} \<and>
        tomb_inv (rs_tombstone r) (part {sample_entry} (syncedRecordKey Settings ''settings'')) \<and>
        (case map_of (rs_fields r) ''theme'' of
           None \<Rightarrow> alive (part {sample_entry} (syncedRecordKey Settings ''settings'')) ''theme'' = {}
         | Some c \<Rightarrow> greatest (bkey (merge_of Settings ''theme''))
               (alive (part {sample_entry} (syncedRecordKey Settings ''settings'')) ''theme'') (fc_winner c) \<and>
             fc_value c = value_spec (merge_of Settings ''theme'')
               (alive (part {sample_entry} (syncedRecordKey Settings ''settings'')) ''theme'') (fc_winner c)))"
  by (rule replica_field_value [OF replica_A refl])

text \<open>the materialized list is in the canonical order (grouped kinds first, then group, kind
  and id), without repetitions, on every replica.\<close>

theorem materialized_sorted:
  assumes "replica dev en S"
  shows "sorted (map mat_key (materialize (en_ms en))) \<and> distinct (map mat_key (materialize (en_ms en)))"
  using materialize_views(2,3) [of S "en_ms en"] replica_state [OF assms]
  by (simp add: comp_def view_key_mat)

theorem materialized_sorted_witness:
  "sorted (map mat_key (materialize (en_ms engine_A))) \<and> distinct (map mat_key (materialize (en_ms engine_A)))"
  by (rule materialized_sorted [OF replica_A])

section \<open>Compaction and restart\<close>

text \<open>C3: compaction is invisible: replaying the compacted log, and then any further entries,
  gives every reader the records the uncompacted engine shows after the same entries.\<close>

theorem compaction_safe:
  assumes "engine_inv en S" "admissible (S \<union> set fs)"
    and "set ds = logged (en_log (commitCompaction (planCompaction en) en))"
  shows "merge_view (fold (merge_step env em) (ds @ fs) (empty_merge d)) =
    merge_view (fold (merge_step env' em') fs (en_ms en))"
proof -
  let ?en = "commitCompaction (planCompaction en) en" and ?T = "set ds \<union> set fs"
  have inv: "engine_inv ?en S" by (rule commit_compaction_inv [OF assms(1)])
  have ms: "ms_live (en_ms ?en) = ms_live (en_ms en)" by (simp add: commitCompaction_def)
  have sub: "ms_live (en_ms en) \<subseteq> set ds" "set ds \<subseteq> S"
    using inv unfolding engine_inv_def assms(3) ms by auto
  have adm: "admissible S" "admissible ?T" and st: "state_inv (en_ms en) S"
    using assms(1,2) sub by (auto simp: engine_inv_def intro: admissible_subset)
  have "state_inv (en_ms en) (set ds)" by (rule state_inv_restrict [OF adm(1) st sub])
  then have "merge_view (fold (merge_step env' em') fs (en_ms en)) = merge_spec ?T"
    using merge_view_spec [OF adm(2)] merge_fold_inv [OF adm(2)] by blast
  moreover have "merge_view (fold (merge_step env em) (ds @ fs) (empty_merge d)) = merge_spec ?T"
    using merge.view_spec [of "ds @ fs"] adm(2) by simp
  ultimately show ?thesis by simp
qed

theorem compaction_safe_witness:
  "merge_view (fold (merge_step (merge_env sample_env fresh_B) EmitRepair) ([second_entry] @ [])
      (empty_merge (hydrate_div no_snapshot))) =
    merge_view (fold (merge_step (merge_env sample_env engine_A3) EmitLive) [] (en_ms engine_A3))"
proof (rule compaction_safe [OF engine_A3_inv])
  show "admissible ({sample_entry, second_entry} \<union> set [])"
    using replica_state [OF replica_A2] by simp
  show "set [second_entry] = logged (en_log (commitCompaction (planCompaction engine_A3) engine_A3))"
    by (simp add: compacted_A3)
qed

text \<open>C4: compaction forgets only what every known peer has acknowledged and the merge no longer
  reads: each dropped entry is at or below every peer's advertised mark for its device, is not
  referred to by any record, and is not the newest entry this device minted; nothing is dropped
  while some peer's mark is stale.\<close>

theorem compaction_acknowledged:
  assumes "engine_inv en S" "e \<in> set (cp_dropped (planCompaction en))" "(s, marks) \<in> set (en_peers en)"
  shows "ce_seq e \<le> map_get_or 0 marks (ce_deviceId e) \<and> e \<notin> ms_live (en_ms en) \<and> en_stale en = [] \<and>
    \<not> (ce_deviceId e = en_deviceId en \<and> ce_seq e = en_localSeq en)"
proof -
  have "distinct (map fst (lg_lanes (en_log en)))" "lanes_ok (en_log en)"
    using assms(1) by (simp_all add: engine_inv_def)
  then have d: "drops en (ce_deviceId e) e" using plan_dropped assms(2) by blast
  then show ?thesis
    using peer_floor_le [OF _ assms(3), of "ce_deviceId e"]
    by (auto simp: drops_def floor_of_def keeps_entry_def split: option.splits intro: order_trans)
qed

theorem compaction_acknowledged_witness:
  "ce_seq sample_entry \<le> map_get_or 0 [(''A'', 2)] (ce_deviceId sample_entry) \<and>
    sample_entry \<notin> ms_live (en_ms engine_A3) \<and> en_stale engine_A3 = [] \<and>
    \<not> (ce_deviceId sample_entry = en_deviceId engine_A3 \<and> ce_seq sample_entry = en_localSeq engine_A3)"
proof (rule compaction_acknowledged [OF engine_A3_inv, where s = "''B''"])
  show "sample_entry \<in> set (cp_dropped (planCompaction engine_A3))" by (simp add: plan_A3)
  have "en_peers engine_A3 = [(''B'', [(''A'', 2)])]" by code_simp
  then show "(''B'', [(''A'', 2)]) \<in> set (en_peers engine_A3)" by simp
qed



section \<open>Local writes\<close>

lemma mint_entries_length: "mint_entries en pre at_ms ws i clk = (Some es, clk') \<Longrightarrow> length es = length ws"
  by (induction ws arbitrary: i clk es) (auto split: prod.splits sum.splits)

lemma writeChanges_minted:
  assumes "writeChanges env inputs pre en = (Inr rs, en')"
  obtains at_ms es clk os where "mint_entries en pre at_ms inputs 0 (en_clock en) = (Some es, clk)"
    "rs = zip es os" "length os = length es" "length es = length inputs" "inputs \<noteq> []"
  using assms
proof (cases rule: writeChanges_cases)
  case (ran at_ms)
  have len: "length (fst (fst (merge_all e m xs st))) = length xs" for e m xs st
    by (induction xs arbitrary: st) (simp_all add: Let_def case_prod_beta)
  obtain es clk where mint: "mint_entries en pre at_ms inputs 0 (en_clock en) = (Some es, clk)"
    using ran(3) by (auto simp: writeBody_def split: prod.splits option.splits)
  obtain en1 where ap: "appendLog env es None None (en\<lparr>en_clock := clk\<rparr>) = (None, en1)"
    using ran(3) mint by (auto simp: writeBody_def split: prod.splits option.splits)
  have "length es = length inputs"
    using mint_entries_length [OF mint] by simp
  moreover have "rs = zip es (fst (fst (merge_all (merge_env env en) EmitLive es (en_ms en1))))"
    using ran(3) mint ap by (auto simp: writeBody_def Let_def split: prod.splits)
  ultimately show thesis using that mint len ran(2) by metis
qed simp

lemma minted_newest:
  assumes "replica dev en S" "mint_entries en pre at_ms inputs 0 (en_clock en) = (Some es, clk)" "e \<in> set es"
  shows "\<forall>x\<in>S. ce_hlc x < ce_hlc e"
proof -
  have "stamp_ok (en_clock en)" "\<forall>x\<in>S. ce_hlc x \<le> en_clock en"
    using replica_engine [OF assms(1)] by (simp_all add: engine_inv_def)
  then show ?thesis
    using mint_entries_props [OF assms(2)] assms(3) by (fastforce intro: le_less_trans)
qed

text \<open>C8: a local write is newer than everything the replica has accepted, in its stamp, and its
  seq is one this device has never used; so are all entries of one transactional write, in order.\<close>

theorem local_write_is_newest:
  assumes "replica dev en S" "writeChanges env inputs pre en = (Inr rs, en')" "e \<in> fst ` set rs"
  shows "ce_deviceId e = dev \<and> e \<notin> S \<and> (\<forall>x\<in>S. ce_hlc x < ce_hlc e) \<and>
    (\<forall>x\<in>S. ce_deviceId x = dev \<longrightarrow> ce_seq x < ce_seq e) \<and>
    sorted_wrt (<) (map (ce_hlc \<circ> fst) rs) \<and> sorted_wrt (<) (map (ce_seq \<circ> fst) rs)"
proof -
  obtain at_ms es clk os where m: "mint_entries en pre at_ms inputs 0 (en_clock en) = (Some es, clk)"
      "rs = zip es os" "length os = length es"
    by (rule writeChanges_minted [OF assms(2)])
  note facts = replica_engine [OF assms(1)]
  then have clk: "stamp_ok (en_clock en)" "\<forall>x\<in>S. ce_hlc x \<le> en_clock en" and own: "own_inv en S"
    by (simp_all add: engine_inv_def)
  note mp = mint_entries_props [OF m(1) clk(1)]
  have e: "e \<in> set es" using assms(3) m(2) by (auto dest: set_zip_leftD)
  have seqs: "map ce_seq es = [en_localSeq en + 1..<en_localSeq en + 1 + length es]"
    using mp by simp
  then have "ce_seq e \<in> set [en_localSeq en + 1..<en_localSeq en + 1 + length es]"
    using e by (metis image_eqI list.set_map)
  then have "en_localSeq en < ce_seq e" by auto
  moreover have "sorted_wrt (<) (map ce_seq es)" unfolding seqs by (rule sorted_wrt_upt)
  moreover have "map (ce_hlc \<circ> fst) rs = map ce_hlc es" "map (ce_seq \<circ> fst) rs = map ce_seq es"
    using m(2,3) by (simp_all flip: map_map)
  ultimately show ?thesis
    using mp e clk own facts by (fastforce simp: own_inv_def)
qed

theorem local_write_is_newest_witness:
  "ce_deviceId second_entry = ''A'' \<and> second_entry \<notin> {sample_entry} \<and>
    ce_hlc sample_entry < ce_hlc second_entry \<and> ce_seq sample_entry < ce_seq second_entry"
proof -
  have run: "writeChanges sample_env [second_write] False engine_A = (Inr [(second_entry, second_outcome)], engine_A2)"
    by (simp add: engine_A2_def second_write_result prod_eq_iff)
  have "ce_deviceId sample_entry = ''A''" by (simp add: sample_entry_def)
  then show ?thesis
    using local_write_is_newest [OF replica_A run, of second_entry] by simp
qed

text \<open>the user's own write shows at once: after a successful write of a last-writer-wins
  field, the record exists, the field's winner is the written entry and its value is what was
  written, whatever was merged before.\<close>

theorem local_write_wins:
  assumes "replica dev en S" "en_localSeq en < max_safe" "merge_of k f = Some Lww"
    and "localChange env (WriteField (JStr (kind_str k)) (JStr i) (JStr f) v) en = (Inr (e, oc), en')"
  shows "\<exists>r c. map_of (ms_records (en_ms en')) (syncedRecordKey k i) = Some r \<and>
    map_of (rs_fields r) f = Some c \<and> fc_winner c = e \<and> fc_value c = v"
proof -
  let ?w = "WriteField (JStr (kind_str k)) (JStr i) (JStr f) v" and ?A = "part (S \<union> {e}) (syncedRecordKey k i)"
  have "rs = []" if "writeChanges env [?w] False en = (Inr ((e, oc) # rs), en')" for rs
    using writeChanges_minted [OF that] by (metis One_nat_def Suc_inject length_0_conv length_Cons length_zip
        list.size(3) min.idem)
  then have run: "writeChanges env [?w] False en = (Inr [(e, oc)], en')"
    using assms(4) by (auto simp: localChange_def split: prod.splits elim!: firstWritten.elims)
  obtain at_ms es clk os where m: "mint_entries en False at_ms [?w] 0 (en_clock en) = (Some es, clk)"
      "[(e, oc)] = zip es os" "length os = length es"
    by (rule writeChanges_minted [OF run])
  then obtain s where s: "e = mint_entry en False s (en_localSeq en + 1) ?w"
    by (auto simp: zip_Cons1 split: prod.splits sum.splits list.splits)
  have e: "ce_kind e = k" "ce_recordId e = i" "ce_field e = f" "\<not> ce_tombstone e" "ce_value e = v"
    using s assms(3) by (simp_all add: mint_entry_def sumComponentFor_def Let_def kind_codec.dec_enc)
  have newest: "\<forall>x\<in>S. ce_hlc x < ce_hlc e"
    using minted_newest [OF assms(1) m(1)] m(2) by (metis list.set_intros(1) set_zip_leftD)
  have "replica dev en' (S \<union> {e})"
    using replica.wrote [OF assms(1) run] assms(2) by (simp add: written_def)
  then have st: "state_inv (en_ms en') (S \<union> {e})" using replica_state by blast
  have eA: "e \<in> ?A" using e by (simp add: part_def entry_record_key_def)
  have below: "\<forall>x\<in>?A - {e}. entry_ts x < entry_ts e"
    using newest by (auto simp: part_def entry_ts_def less_prod_def)
  then have al: "e \<in> alive ?A f"
    using eA e by (auto simp: alive_def tombs_def)
  have ok: "record_ok (syncedRecordKey k i) (map_of (ms_records (en_ms en')) (syncedRecordKey k i)) ?A"
    using st by (simp add: state_inv_def)
  then obtain r where r: "map_of (ms_records (en_ms en')) (syncedRecordKey k i) = Some r" "rs_kind r = k" "rec_inv r ?A"
    using eA by (auto simp: record_ok_def split: option.splits)
  then obtain c where c: "map_of (rs_fields r) f = Some c" "cell_inv (merge_of k f) c (alive ?A f)"
    using al by (auto simp: rec_inv_def fields_inv_def dest!: spec [of _ f] split: option.splits)
  then have w: "greatest (bkey (merge_of k f)) (alive ?A f) (fc_winner c)" "fc_value c = ce_value (fc_winner c)"
    using assms(3) by (simp_all add: cell_inv_def value_spec_def)
  then have "fc_winner c \<in> ?A" "entry_ts e \<le> entry_ts (fc_winner c)"
    using al assms(3) alive_subset by (auto simp: greatest_def bkey_def less_eq_prod_def)
  then have "fc_winner c = e" using below by (meson DiffI insertE leD singletonD)
  then show ?thesis using r(1) c(1) w(2) e(5) by blast
qed

theorem local_write_wins_witness:
  "\<exists>r c. map_of (ms_records (en_ms engine_A2)) (syncedRecordKey Settings ''settings'') = Some r \<and>
    map_of (rs_fields r) ''theme'' = Some c \<and> fc_winner c = second_entry \<and> fc_value c = JStr ''light''"
proof (rule local_write_wins [OF replica_A])
  have "en_localSeq engine_A = 1" by code_simp
  then show "en_localSeq engine_A < max_safe" by simp
  show "merge_of Settings ''theme'' = Some Lww" by code_simp
  have "WriteField (JStr (kind_str Settings)) (JStr ''settings'') (JStr ''theme'') (JStr ''light'') = second_write"
    by (simp add: second_write_def)
  then show "localChange sample_env
      (WriteField (JStr (kind_str Settings)) (JStr ''settings'') (JStr ''theme'') (JStr ''light'')) engine_A =
      (Inr (second_entry, second_outcome), engine_A2)"
    using second_write_result by (auto simp: localChange_def engine_A2_def split: prod.splits)
qed

section \<open>Applying deltas\<close>

text \<open>C9: a delta is applied as a whole or not at all: an apply that returns an error (a malformed or
  forged document, a cancelled signal, an unsafe clock, a refused write, a clock overflow) leaves
  the records, the log, the marks and the clock as they were; one that succeeds merges exactly the
  document's valid entries that were not already indexed, and keeps the engine's invariant.\<close>

theorem apply_all_or_nothing:
  assumes "engine_inv en S" "admissible (S \<union> set (doc_entries doc))" "applyDelta env doc sd en = (r, en')"
  shows "case r of
      Inl _ \<Rightarrow> en_ms en' = en_ms en \<and> en_log en' = en_log en \<and> en_marks en' = en_marks en \<and>
        en_clock en' = en_clock en \<and> en_localSeq en' = en_localSeq en
    | Inr res \<Rightarrow> set (ar_entries res) = {e \<in> set (doc_entries doc). is_fresh en e} \<and>
        engine_inv en' (S \<union> set (ar_entries res))"
  using applyDelta_result [OF assms] applyDelta_seq [OF assms(3)]
  by (cases r) (simp_all add: accepted_def)

theorem apply_all_or_nothing_witness:
  "en_ms (snd (applyDelta broken_env sample_doc None fresh_B)) = en_ms fresh_B \<and>
   en_log (snd (applyDelta broken_env sample_doc None fresh_B)) = en_log fresh_B \<and>
   en_marks (snd (applyDelta broken_env sample_doc None fresh_B)) = en_marks fresh_B \<and>
   en_clock (snd (applyDelta broken_env sample_doc None fresh_B)) = en_clock fresh_B \<and>
   en_localSeq (snd (applyDelta broken_env sample_doc None fresh_B)) = en_localSeq fresh_B"
proof -
  have inv: "engine_inv fresh_B {}" using replica_engine [OF fresh_replicas(2)] by blast
  have err: "fst (applyDelta broken_env sample_doc None fresh_B) = Inl (appError Internal ''disk full'' None)"
    by code_simp
  have adm: "admissible ({} \<union> set (doc_entries sample_doc))"
    by (simp add: sample_doc_entries sample_admissible)
  show ?thesis
    using apply_all_or_nothing [OF inv adm, of broken_env None, OF prod.collapse [symmetric]] by (simp add: err)
qed

text \<open>C10: the watermarks written with an append are the marks the engine commits when the append is
  confirmed: for every device the write touches, the store is told exactly the mark that follows,
  and it is told of no other device. The one exception is a device named \<open>__proto__\<close>: the object
  literal the marks are collected in has no row for it, though the engine commits its mark.\<close>

theorem stored_marks_are_committed:
  assumes "marks_inv st"
  shows "map_of (prospectiveMarks st entries skipped) d =
    (if d \<noteq> ''__proto__'' \<and> d \<in> fst ` set (entry_pairs entries @ skip_pairs skipped)
     then Some (mark_of (commitSeqs entries skipped st) d) else None)"
  using prospective_lane [OF assms] by (simp add: proto_key_def)

theorem stored_marks_are_committed_witness:
  "map_of (prospectiveMarks (en_marks engine_A2) [sample_entry\<lparr>ce_deviceId := ''B''\<rparr>] (Some [(''A'', [4])])) ''A'' = Some 2"
proof -
  have "marks_inv (en_marks engine_A2)"
    using replica_engine [OF replica_A2] by (simp add: engine_inv_def)
  from stored_marks_are_committed [OF this] have
    "map_of (prospectiveMarks (en_marks engine_A2) [sample_entry\<lparr>ce_deviceId := ''B''\<rparr>] (Some [(''A'', [4])])) ''A'' =
      Some (mark_of (commitSeqs [sample_entry\<lparr>ce_deviceId := ''B''\<rparr>] (Some [(''A'', [4])]) (en_marks engine_A2)) ''A'')"
    by (simp add: skip_pairs_def)
  also have "mark_of (commitSeqs [sample_entry\<lparr>ce_deviceId := ''B''\<rparr>] (Some [(''A'', [4])]) (en_marks engine_A2)) ''A'' = 2"
    by code_simp
  finally show ?thesis .
qed

text \<open>C11: a device's mark is the length of the gapless prefix of its seqs: folding any seqs, in any
  order and with repetitions, leaves the mark at or above \<open>n\<close> exactly when all of \<open>1..n\<close> were
  folded.\<close>

theorem mark_is_gapless_prefix:
  "n \<le> mark_of (fold (\<lambda>p. foldSeq (fst p) (snd p)) ps no_marks) d \<longleftrightarrow> {1..n} \<subseteq> {m. (d, m) \<in> set ps}"
proof -
  let ?l = "lane_of (fold (\<lambda>p. foldSeq (fst p) (snd p)) ps no_marks) d"
  have empty: "settled (lane_of no_marks d)" "observed (lane_of no_marks d) = {}"
    by (simp_all add: no_marks_def lane_of_def settled_def observed_def)
  have "settled ?l" "observed ?l = set (seqs_of d ps) - {0}"
    using fold1s_props [OF empty(1), of "seqs_of d ps"] empty(2) by (simp_all add: lane_of_fold_pairs)
  moreover have "set (seqs_of d ps) = {m. (d, m) \<in> set ps}" by (force simp: seqs_of_def)
  ultimately have "n \<le> fst ?l \<longleftrightarrow> {1..n} \<subseteq> {m. (d, m) \<in> set ps} - {0}"
    using settled_mark by metis
  moreover have "{1..n} \<subseteq> A - {0} \<longleftrightarrow> {1..n} \<subseteq> A" for A :: "nat set" by auto
  ultimately show ?thesis by (simp add: lane_of_mark)
qed

section \<open>Exporting pages\<close>

lemma exported_page:
  assumes "replica dev en S" "exportOp env since limit en = (Inr d, en')" "op_now env = Some at_ms"
  obtains lg where
    "lanes_strict (en_log en)" "cache_ok (en_log en) (lg_retiredTail (en_log en))"
    "exportDelta dev (if since = JUndef then None else Some (cursor_of_val since))
       (nat_of_val limit) at_ms (en_marks en) (en_log en) = (d, lg)"
proof -
  note facts = replica_engine [OF assms(1)]
  show thesis
    using assms(2)
  proof (cases rule: exportOp_cases)
    case (ran at_ms' d' lg)
    then show ?thesis using that engine_log facts assms(3) by auto
  qed simp
qed

abbreviation asked :: "jsval \<Rightarrow> string \<Rightarrow> nat" where
  "asked since d \<equiv> since_mark (if since = JUndef then None else Some (cursor_of_val since)) d"

abbreviation floor_ms :: "nat \<Rightarrow> int" where
  "floor_ms at_ms \<equiv> int at_ms - int PLAY_HISTORY_RETENTION_MS"

text \<open>an exported page holds each entry once, no more than the limit, and only entries of the
  log that are above the requester's mark and inside the retention window.\<close>

theorem exported_page_sound:
  assumes "replica dev en S" "exportOp env since limit en = (Inr d, en')" "op_now env = Some at_ms"
  shows "distinct (sd_entries d) \<and> length (sd_entries d) \<le> min (nat_of_val limit) max_delta_entries \<and>
    set (sd_entries d) \<subseteq> {e \<in> logged (en_log en). asked since (ce_deviceId e) < ce_seq e \<and>
                                               \<not> is_retired (floor_ms at_ms) e}"
proof -
  obtain lg where x: "lanes_strict (en_log en)" "cache_ok (en_log en) (lg_retiredTail (en_log en))"
    "exportDelta dev (if since = JUndef then None else Some (cursor_of_val since))
       (nat_of_val limit) at_ms (en_marks en) (en_log en) = (d, lg)"
    by (rule exported_page [OF assms])
  then show ?thesis using export_page [OF x] export_entries [OF x] by blast
qed

theorem exported_page_sound_witness:
  "distinct (sd_entries page_P) \<and> length (sd_entries page_P) \<le> min (nat_of_val (JNum (jnat 10))) max_delta_entries \<and>
    set (sd_entries page_P) \<subseteq> {e \<in> logged (en_log engine_P). asked JUndef (ce_deviceId e) < ce_seq e \<and>
                                               \<not> is_retired (floor_ms 15552000900) e}"
  by (rule exported_page_sound [OF replica_P page_P(1,2)])

text \<open>C12: a page that does not announce more is complete: it carries every entry of the log above
  the requester's mark that the retention window keeps.\<close>

theorem exported_page_complete:
  assumes "replica dev en S" "exportOp env since limit en = (Inr d, en')" "op_now env = Some at_ms" "\<not> sd_more d"
  shows "{e \<in> logged (en_log en). asked since (ce_deviceId e) < ce_seq e \<and> \<not> is_retired (floor_ms at_ms) e}
           \<subseteq> set (sd_entries d)"
proof -
  obtain lg where x: "lanes_strict (en_log en)" "cache_ok (en_log en) (lg_retiredTail (en_log en))"
    "exportDelta dev (if since = JUndef then None else Some (cursor_of_val since))
       (nat_of_val limit) at_ms (en_marks en) (en_log en) = (d, lg)"
    by (rule exported_page [OF assms(1-3)])
  then show ?thesis using export_complete [OF x assms(4)] by blast
qed

theorem exported_page_complete_witness:
  "{e \<in> logged (en_log engine_P). asked JUndef (ce_deviceId e) < ce_seq e \<and> \<not> is_retired (floor_ms 15552000900) e}
     \<subseteq> set (sd_entries page_P)"
  by (rule exported_page_complete [OF replica_P page_P(1,2,3)])

text \<open>C13: a seq listed as skipped hides nothing: it is above the requester's mark, and every entry
  the exporter has indexed under it is beyond the retention window.\<close>

theorem exported_skips_sound:
  assumes "replica dev en S" "exportOp env since limit en = (Inr d, en')" "op_now env = Some at_ms"
    and "(dev', ss) \<in> set (sd_skipped d)" "n \<in> set ss"
  shows "asked since dev' < n \<and>
    {e \<in> logged (en_log en). ce_deviceId e = dev' \<and> ce_seq e = n} \<subseteq> {e. is_retired (floor_ms at_ms) e}"
proof -
  obtain lg where x: "lanes_strict (en_log en)" "cache_ok (en_log en) (lg_retiredTail (en_log en))"
    "exportDelta dev (if since = JUndef then None else Some (cursor_of_val since))
       (nat_of_val limit) at_ms (en_marks en) (en_log en) = (d, lg)"
    by (rule exported_page [OF assms(1-3)])
  then show ?thesis using export_skipped_sound [OF x assms(4,5)] by blast
qed

theorem exported_skips_sound_witness:
  "asked JUndef ''A'' < 1 \<and>
    {e \<in> logged (en_log engine_P). ce_deviceId e = ''A'' \<and> ce_seq e = 1} \<subseteq> {e. is_retired (floor_ms 15552000900) e}"
  by (rule exported_skips_sound [OF replica_P page_P(1,2), where ss = "[1]"]) (simp_all add: page_P(4))

section \<open>Two replicas exchange a page\<close>

text \<open>What one page carries, on both sides.\<close>

lemma exchange_facts:
  assumes A: "replica da ea Sa" and x: "exportOp env since limit ea = (Inr d, ea')" "op_now env = Some at_ms"
    and B: "replica db eb Sb" and adm: "admissible (Sa \<union> Sb)"
    and run: "applyDelta env' (delta_val d) sd eb = (Inr res, eb')"
  shows "set (sd_entries d) \<subseteq> logged (en_log ea)"
    and "set (ar_entries res) = {e \<in> set (sd_entries d). is_fresh eb e}"
    and "set (sd_entries d) \<subseteq> logged (en_log eb) \<union> set (ar_entries res)"
    and "en_marks eb' = commitSeqs (ar_entries res) (Some (sd_skipped d)) (en_marks eb)"
    and "engine_inv eb' (Sb \<union> set (ar_entries res))"
proof -
  obtain lg where ex: "lanes_strict (en_log ea)" "cache_ok (en_log ea) (lg_retiredTail (en_log ea))"
    "exportDelta da (if since = JUndef then None else Some (cursor_of_val since))
       (nat_of_val limit) at_ms (en_marks ea) (en_log ea) = (d, lg)"
    by (rule exported_page [OF A x])
  note fa = replica_engine [OF A] and fb = replica_engine [OF B]
  have sub: "logged (en_log ea) \<subseteq> Sa" "logged (en_log eb) \<subseteq> Sb" "lg_seen (en_log eb) = entryKey ` logged (en_log eb)"
    using fa fb by (simp_all add: engine_inv_def)
  show entries: "set (sd_entries d) \<subseteq> logged (en_log ea)" using export_entries [OF ex] by blast
  then have inU: "set (sd_entries d) \<subseteq> Sa \<union> Sb" using sub by blast
  have inj: "inj_on entryKey (Sa \<union> Sb)"
    using adm by (auto simp: admissible_def inj_on_def entryKey_eq_iff)
  have valid: "\<forall>e\<in>set (sd_entries d). valid_entry e"
    using inU adm by (auto simp: admissible_def)
  have "distinct (map entryKey (sd_entries d))"
    using export_page [OF ex] inj_on_subset [OF inj inU] by (simp add: distinct_map)
  then have doc: "doc_entries (delta_val d) = sd_entries d"
    by (rule doc_entries_delta [OF valid])
  have "admissible (Sb \<union> set (doc_entries (delta_val d)))"
    unfolding doc by (rule admissible_subset [OF adm]) (use inU in auto)
  from applyDelta_result [OF _ this run, of] fb
  show acc: "set (ar_entries res) = {e \<in> set (sd_entries d). is_fresh eb e}"
    and "engine_inv eb' (Sb \<union> set (ar_entries res))"
    by (simp_all add: doc accepted_def)
  show "set (sd_entries d) \<subseteq> logged (en_log eb) \<union> set (ar_entries res)"
  proof
    fix e assume e: "e \<in> set (sd_entries d)"
    show "e \<in> logged (en_log eb) \<union> set (ar_entries res)"
    proof (cases "is_fresh eb e")
      case False
      then obtain y where y: "y \<in> logged (en_log eb)" "entryKey y = entryKey e"
        using sub(3) by (auto simp: is_fresh_def)
      then have "y = e" using inj_onD [OF inj y(2)] sub(2) inU e by blast
      with y(1) show ?thesis by simp
    qed (use e acc in simp)
  qed
  have small: "\<forall>(k, ss)\<in>set (sd_skipped d). \<forall>n\<in>set ss. n \<le> max_safe"
  proof clarify
    fix k ss n assume "(k, ss) \<in> set (sd_skipped d)" "n \<in> set ss"
    then obtain y where "y \<in> set (sd_entries d)" "n \<le> ce_seq y" using export_skipped_sound [OF ex] by blast
    then show "n \<le> max_safe" using valid by (auto simp: valid_entry_def)
  qed
  show "en_marks eb' = commitSeqs (ar_entries res) (Some (sd_skipped d)) (en_marks eb)"
    using applyDelta_marks [OF run] by (simp only: skips_of_delta [OF small])
qed

text \<open>C6: one final page carries everything: after \<open>A\<close> exports a page that announces no more and
  \<open>B\<close> applies it, \<open>B\<close> has accepted every entry of \<open>A\<close>'s log above the mark it asked from that the
  retention window keeps, nothing that \<open>A\<close> does not hold, and its own entries stay.\<close>

theorem exchange_complete:
  assumes "replica da ea Sa" "exportOp env since limit ea = (Inr d, ea')" "op_now env = Some at_ms"
    and "replica db eb Sb" "admissible (Sa \<union> Sb)"
    and "applyDelta env' (delta_val d) sd eb = (Inr res, eb')" "\<not> sd_more d"
  shows "{e \<in> logged (en_log ea). asked since (ce_deviceId e) < ce_seq e \<and> \<not> is_retired (floor_ms at_ms) e}
       \<subseteq> Sb \<union> set (ar_entries res)
    \<and> set (ar_entries res) \<subseteq> logged (en_log ea)
    \<and> merge_view (en_ms eb') = merge_spec (Sb \<union> set (ar_entries res))"
proof -
  note facts = exchange_facts [OF assms(1-6)]
  obtain lg where x: "lanes_strict (en_log ea)" "cache_ok (en_log ea) (lg_retiredTail (en_log ea))"
    "exportDelta da (if since = JUndef then None else Some (cursor_of_val since))
       (nat_of_val limit) at_ms (en_marks ea) (en_log ea) = (d, lg)"
    by (rule exported_page [OF assms(1-3)])
  have "{e \<in> logged (en_log ea). asked since (ce_deviceId e) < ce_seq e \<and> \<not> is_retired (floor_ms at_ms) e}
       \<subseteq> set (sd_entries d)"
    using export_complete [OF x assms(7)] by blast
  moreover have "logged (en_log eb) \<subseteq> Sb"
    using replica_engine [OF assms(4)] by (simp add: engine_inv_def)
  moreover have "merge_view (en_ms eb') = merge_spec (Sb \<union> set (ar_entries res))"
    using facts(5) by (intro merge_view_spec) (simp_all add: engine_inv_def)
  ultimately show ?thesis using facts(1-3) by blast
qed

lemma sample_exchange: "admissible (set entries_P \<union> {})"
  using replica_state [OF replica_P] by simp

theorem exchange_complete_witness:
  "{e \<in> logged (en_log engine_P). asked JUndef (ce_deviceId e) < ce_seq e \<and> \<not> is_retired (floor_ms 15552000900) e}
       \<subseteq> {} \<union> set (ar_entries result_P)
    \<and> set (ar_entries result_P) \<subseteq> logged (en_log engine_P)
    \<and> merge_view (en_ms engine_BP) = merge_spec ({} \<union> set (ar_entries result_P))"
  by (rule exchange_complete [OF replica_P page_P(1,2) fresh_replicas(2) sample_exchange apply_P page_P(3)])

text \<open>C7: paging advances: after applying a page asked for from its own mark, the receiver's mark for a
  shipped device covers everything from there up to the shipped seq that the exporter's own mark
  covers, up to the 10000 seqs one skip row can list; so it moves whenever the exporter's mark is
  above the one asked from. (An exporter whose own mark is not above it vouches for no gap, and then
  the mark may stay.) Devices named like a member every object inherits are left out: their skip rows
  are not exported.\<close>

theorem exchange_advances:
  assumes "replica da ea Sa" "exportOp env since limit ea = (Inr d, ea')" "op_now env = Some at_ms"
    and "replica db eb Sb" "admissible (Sa \<union> Sb)"
    and "applyDelta env' (delta_val d) sd eb = (Inr res, eb')"
    and "x \<in> set (sd_entries d)" "asked since (ce_deviceId x) = mark_of (en_marks eb) (ce_deviceId x)"
    and "ce_deviceId x \<notin> set object_members"
  shows "min (min (ce_seq x) (mark_of (en_marks ea) (ce_deviceId x))) (asked since (ce_deviceId x) + max_delta_entries)
      \<le> mark_of (en_marks eb') (ce_deviceId x) \<and>
    (asked since (ce_deviceId x) < mark_of (en_marks ea) (ce_deviceId x) \<longrightarrow>
      mark_of (en_marks eb) (ce_deviceId x) < mark_of (en_marks eb') (ce_deviceId x))"
proof -
  let ?dev = "ce_deviceId x"
  note facts = exchange_facts [OF assms(1-6)]
  obtain lg where ex: "lanes_strict (en_log ea)" "cache_ok (en_log ea) (lg_retiredTail (en_log ea))"
    "exportDelta da (if since = JUndef then None else Some (cursor_of_val since))
       (nat_of_val limit) at_ms (en_marks ea) (en_log ea) = (d, lg)"
    by (rule exported_page [OF assms(1-3)])
  have inv: "marks_inv (en_marks eb)" "marks_cover (en_marks eb) (logged (en_log eb))"
    using replica_engine [OF assms(4)] by (simp_all add: engine_inv_def)
  have adv: "min (min (ce_seq x) (mark_of (en_marks ea) ?dev)) (asked since ?dev + max_delta_entries) \<le>
      mark_of (commitSeqs (sd_entries d) (Some (sd_skipped d)) (en_marks eb)) ?dev"
    by (rule receiver_advances [OF ex assms(7) refl assms(9) inv(1) assms(8) [symmetric]])
  have above: "asked since ?dev < ce_seq x"
    using export_entries [OF ex assms(7)] by blast
  have "observed (lane_of (commitSeqs (sd_entries d) (Some (sd_skipped d)) (en_marks eb)) ?dev) \<subseteq>
      observed (lane_of (en_marks eb') ?dev)"
  proof
    fix n assume "n \<in> observed (lane_of (commitSeqs (sd_entries d) (Some (sd_skipped d)) (en_marks eb)) ?dev)"
    then consider "n \<in> observed (lane_of (en_marks eb) ?dev)"
      | e where "e \<in> set (sd_entries d)" "ce_deviceId e = ?dev" "ce_seq e = n" "n \<noteq> 0"
      | "n \<in> set (seqs_of ?dev (skip_pairs (Some (sd_skipped d))))" "n \<noteq> 0"
      unfolding commitSeqs_observed [OF inv(1)] by (auto simp: seqs_of_def entry_pairs_def)
    then show "n \<in> observed (lane_of (en_marks eb') ?dev)"
    proof cases
      case 2
      then have "e \<in> logged (en_log eb) \<or> e \<in> set (ar_entries res)" using facts(3) by blast
      then show ?thesis
      proof
        assume "e \<in> logged (en_log eb)"
        then show ?thesis
          using inv(2) 2 unfolding facts(4) commitSeqs_observed [OF inv(1)] by (auto simp: marks_cover_def)
      next
        assume "e \<in> set (ar_entries res)"
        then have "n \<in> set (seqs_of ?dev (entry_pairs (ar_entries res)))"
          using 2 by (force simp: seqs_of_def entry_pairs_def)
        then show ?thesis
          using 2 unfolding facts(4) commitSeqs_observed [OF inv(1)] by (auto simp: seqs_of_def)
      qed
    qed (unfold facts(4) commitSeqs_observed [OF inv(1)], auto simp: seqs_of_def)
  qed
  moreover have "settled (lane_of (commitSeqs (sd_entries d) (Some (sd_skipped d)) (en_marks eb)) ?dev)"
      "settled (lane_of (en_marks eb') ?dev)"
    using commitSeqs_inv [OF inv(1)] unfolding facts(4) marks_inv_def by blast+
  ultimately have "mark_of (commitSeqs (sd_entries d) (Some (sd_skipped d)) (en_marks eb)) ?dev \<le> mark_of (en_marks eb') ?dev"
    using settled_mark by (metis dual_order.refl lane_of_mark subset_trans)
  with adv have "min (min (ce_seq x) (mark_of (en_marks ea) ?dev)) (asked since ?dev + max_delta_entries)
      \<le> mark_of (en_marks eb') ?dev" by (rule order_trans)
  with above assms(8) show ?thesis by (auto simp: max_delta_entries_def min_def split: if_splits)
qed

theorem exchange_advances_witness:
  "min (min 2 (mark_of (en_marks engine_P) ''A'')) (asked JUndef ''A'' + max_delta_entries) \<le> mark_of (en_marks engine_BP) ''A'' \<and>
   mark_of (en_marks fresh_B) ''A'' < mark_of (en_marks engine_BP) ''A''"
proof -
  let ?x = "sample_entry\<lparr>ce_hlc := Stamp 1000 1, ce_seq := 2\<rparr>"
  have x: "ce_deviceId ?x = ''A''" "ce_seq ?x = 2" by (simp_all add: sample_entry_def)
  have "asked JUndef (ce_deviceId ?x) = mark_of (en_marks fresh_B) (ce_deviceId ?x)" by code_simp
  moreover have "?x \<in> set (sd_entries page_P)" by (simp add: page_P(5))
  moreover have "ce_deviceId ?x \<notin> set object_members"
    unfolding x(1) by (simp add: object_members_def proto_key_def)
  ultimately have "min (min (ce_seq ?x) (mark_of (en_marks engine_P) (ce_deviceId ?x)))
        (asked JUndef (ce_deviceId ?x) + max_delta_entries) \<le> mark_of (en_marks engine_BP) (ce_deviceId ?x) \<and>
      (asked JUndef (ce_deviceId ?x) < mark_of (en_marks engine_P) (ce_deviceId ?x) \<longrightarrow>
        mark_of (en_marks fresh_B) (ce_deviceId ?x) < mark_of (en_marks engine_BP) (ce_deviceId ?x))"
    by (rule_tac exchange_advances [OF replica_P page_P(1,2) fresh_replicas(2) sample_exchange apply_P])
  moreover have "asked JUndef (ce_deviceId ?x) < mark_of (en_marks engine_P) (ce_deviceId ?x)" by code_simp
  ultimately show ?thesis unfolding x by blast
qed

section \<open>A rebuilt device\<close>

text \<open>C15: applying a delta never moves the local seq: when a replica accepts entries that its own
  device id minted before (a rebuilt device that a peer sends its history back to), its next writes
  count on from its own local seq, and one of them carries the device and the seq of the accepted
  entry, under a later stamp.\<close>

theorem rebuilt_device_reuses_seq:
  assumes "replica dev en S" "admissible (S \<union> set (doc_entries doc))"
    and "applyDelta env doc sender en = (Inr res, en')" "x \<in> set (ar_entries res)" "ce_deviceId x = dev"
    and "writeChanges env' inputs pre en' = (Inr rs, en'')"
    and "en_localSeq en < ce_seq x" "ce_seq x \<le> en_localSeq en + length inputs"
  shows "\<exists>e\<in>fst ` set rs. ce_deviceId e = ce_deviceId x \<and> ce_seq e = ce_seq x \<and> ce_hlc x < ce_hlc e"
proof -
  note frame = applyDelta_seq [OF assms(3)] and facts = replica_engine [OF assms(1)]
  have "engine_inv en' (S \<union> accepted (Inr res))"
    using facts by (intro applyDelta_result(2) [OF _ assms(2,3)]) simp
  then have clk: "stamp_ok (en_clock en')" "ce_hlc x \<le> en_clock en'"
    using assms(4) by (auto simp: engine_inv_def accepted_def)
  obtain at_ms es clk' os where m: "mint_entries en' pre at_ms inputs 0 (en_clock en') = (Some es, clk')"
      "rs = zip es os" "length os = length es"
    by (rule writeChanges_minted [OF assms(6)])
  have es: "map ce_seq es = [en_localSeq en + 1..<en_localSeq en + 1 + length inputs]"
      "\<forall>e\<in>set es. ce_deviceId e = dev \<and> ce_hlc x < ce_hlc e"
    using mint_entries_props [OF m(1) clk(1)] frame facts clk(2) by (auto intro: le_less_trans)
  have "ce_seq x \<in> set (map ce_seq es)"
    unfolding es(1) set_upt atLeastLessThan_iff using assms(7,8) by linarith
  then obtain e where e: "e \<in> set es" "ce_seq e = ce_seq x" by auto
  moreover have "fst ` set rs = set es"
    using m(2,3) by (metis list.set_map map_fst_zip)
  ultimately show ?thesis using es(2) assms(5) by blast
qed

definition relayed_doc :: jsval where
  "relayed_doc = delta_val \<lparr>sd_sender = ''B'', sd_cursor = [(''A'', 1)], sd_entries = [sample_entry],
     sd_more = False, sd_skipped = []\<rparr>"

definition rebuilt_A :: syncEngine where
  "rebuilt_A = snd (applyDelta sample_env relayed_doc (Some ''B'') fresh_A)"

definition rebuilt_writes :: "(changeEntry \<times> mergeOutcome) list" where
  "rebuilt_writes = (case fst (writeChanges sample_env [second_write] False rebuilt_A) of Inl _ \<Rightarrow> [] | Inr rs \<Rightarrow> rs)"

theorem rebuilt_device_reuses_seq_witness:
  "\<exists>e\<in>fst ` set rebuilt_writes. ce_deviceId e = ce_deviceId sample_entry \<and> ce_seq e = ce_seq sample_entry \<and>
     ce_hlc sample_entry < ce_hlc e"
proof -
  have doc: "doc_entries relayed_doc = [sample_entry]" by code_simp
  have applied: "map_option ar_entries (case fst (applyDelta sample_env relayed_doc (Some ''B'') fresh_A) of
      Inl _ \<Rightarrow> None | Inr res \<Rightarrow> Some res) = Some [sample_entry]" by code_simp
  then obtain res where res: "applyDelta sample_env relayed_doc (Some ''B'') fresh_A = (Inr res, rebuilt_A)"
      "ar_entries res = [sample_entry]"
    by (auto simp: rebuilt_A_def prod_eq_iff split: sum.splits)
  have "case fst (writeChanges sample_env [second_write] False rebuilt_A) of Inl _ \<Rightarrow> False | Inr _ \<Rightarrow> True"
    by code_simp
  then have wrote: "writeChanges sample_env [second_write] False rebuilt_A =
      (Inr rebuilt_writes, snd (writeChanges sample_env [second_write] False rebuilt_A))"
    by (auto simp: rebuilt_writes_def prod_eq_iff split: sum.splits)
  have "en_localSeq fresh_A = 0" by code_simp
  then show ?thesis
    by (intro rebuilt_device_reuses_seq [OF fresh_replicas(1) _ res(1) _ _ wrote])
       (simp_all add: doc res(2) sample_admissible sample_entry_def [symmetric],
        simp_all add: sample_entry_def)
qed

end
