(* ===== verification/QueueEngine.thy ===== *)
theory QueueEngine
  imports EntryOrder DomainGuards Errors
begin

text \<open>
  The playback queue: the class \<open>QueueEngine\<close> of
  \<open>packages/application/src/queue/queue-engine.ts\<close>, with \<open>sameRef\<close> of \<open>session/util.ts\<close>. The
  private fields are one record, both caches included; every public method is a call on it
  (\<open>Inl\<close> the exception). Numbers and origins a caller hands in are validated as the code
  does: a number is a \<open>jsnum\<close>, a reference or an origin is put through the guards of
  \<open>domain.ts\<close> on its JSON form. The object copies (\<open>cloneOccurrence\<close>, \<open>Object.freeze\<close>) are
  the identity on values.
\<close>

section \<open>Data\<close>

datatype queueMode = Stopped | Paused | Playing

fun mode_str :: "queueMode \<Rightarrow> string" where
  "mode_str Stopped = ''stopped''"
| "mode_str Paused = ''paused''"
| "mode_str Playing = ''playing''"

definition mode_of_str :: "string \<Rightarrow> queueMode option" where
  "mode_of_str s =
     (if s = ''stopped'' then Some Stopped
      else if s = ''paused'' then Some Paused
      else if s = ''playing'' then Some Playing
      else None)"

record queueOccurrence =
  qo_occurrenceId :: string
  qo_recordingId :: string
  qo_selectedRef :: "sourceRef option"

datatype queueOrigin =
    FromCollection string
  | FromPlaylist string string
  | FromEntity sourceRef string
  | FromSearch string
  | FromLibrary

record queueSnapshot =
  qs_revision :: jsnum
  qs_occurrences :: "queueOccurrence list"
  qs_currentOccurrenceId :: "string option"
  qs_positionMs :: jsnum
  qs_mode :: string
  qs_blockedError :: "appError option"
  qs_origin :: "queueOrigin option"

text \<open>The JSON forms the guards see.\<close>

definition ref_val :: "sourceRef \<Rightarrow> jsval" where
  "ref_val r = JObj [(''provider'', JStr (ref_provider r)), (''kind'', JStr (ref_kind r)),
                     (''id'', JStr (ref_id r))]"

fun origin_val :: "queueOrigin \<Rightarrow> jsval" where
  "origin_val (FromCollection c) = JObj [(''kind'', JStr ''collection''), (''collection'', JStr c)]"
| "origin_val (FromPlaylist i n) =
     JObj [(''kind'', JStr ''playlist''), (''playlistId'', JStr i), (''name'', JStr n)]"
| "origin_val (FromEntity r n) =
     JObj [(''kind'', JStr ''entity''), (''ref'', ref_val r), (''name'', JStr n)]"
| "origin_val (FromSearch q) = JObj [(''kind'', JStr ''search''), (''query'', JStr q)]"
| "origin_val FromLibrary = JObj [(''kind'', JStr ''library'')]"

definition occurrence_val :: "queueOccurrence \<Rightarrow> jsval" where
  "occurrence_val o' =
     JObj [(''occurrenceId'', JStr (qo_occurrenceId o')),
           (''recordingId'', JStr (qo_recordingId o')),
           (''selectedRef'', case qo_selectedRef o' of None \<Rightarrow> JNull | Some r \<Rightarrow> ref_val r)]"

definition error_val :: "appError \<Rightarrow> jsval" where
  "error_val e =
     JObj ([(''kind'', JStr (kind_slug (ae_kind e))), (''message'', JStr (ae_message e)),
            (''retryable'', JBool (ae_retryable e))] @
           (case ae_retryAfterMs e of None \<Rightarrow> [] | Some n \<Rightarrow> [(''retryAfterMs'', JNum (jnat n))]))"

definition snapshot_val :: "queueSnapshot \<Rightarrow> jsval" where
  "snapshot_val s =
     JObj ([(''revision'', JNum (qs_revision s)),
            (''occurrences'', JArr (map occurrence_val (qs_occurrences s))),
            (''currentOccurrenceId'',
               case qs_currentOccurrenceId s of None \<Rightarrow> JNull | Some i \<Rightarrow> JStr i),
            (''positionMs'', JNum (qs_positionMs s)), (''mode'', JStr (qs_mode s))] @
           (case qs_blockedError s of None \<Rightarrow> [] | Some e \<Rightarrow> [(''blockedError'', error_val e)]) @
           (case qs_origin s of None \<Rightarrow> [] | Some g \<Rightarrow> [(''origin'', origin_val g)]))"

section \<open>Comparisons and checks\<close>

definition sameRef :: "sourceRef option \<Rightarrow> sourceRef option \<Rightarrow> bool" where
  "sameRef a b =
     (case (a, b) of
        (Some x, Some y) \<Rightarrow>
          ref_provider x = ref_provider y \<and> ref_kind x = ref_kind y \<and> ref_id x = ref_id y
      | _ \<Rightarrow> a = b)"

definition sameOrigin :: "queueOrigin option \<Rightarrow> queueOrigin option \<Rightarrow> bool" where
  "sameOrigin a b =
     (case (a, b) of
        (Some x, Some y) \<Rightarrow>
          (case (x, y) of
             (FromCollection c, FromCollection d) \<Rightarrow> c = d
           | (FromPlaylist i n, FromPlaylist j m) \<Rightarrow> i = j \<and> n = m
           | (FromEntity r n, FromEntity s m) \<Rightarrow> n = m \<and> sameRef (Some r) (Some s)
           | (FromSearch p, FromSearch q) \<Rightarrow> p = q
           | (FromLibrary, FromLibrary) \<Rightarrow> True
           | _ \<Rightarrow> False)
      | _ \<Rightarrow> a = b)"

definition sameError :: "appError option \<Rightarrow> appError option \<Rightarrow> bool" where
  "sameError a b =
     (case (a, b) of
        (Some x, Some y) \<Rightarrow>
          ae_kind x = ae_kind y \<and> ae_message x = ae_message y \<and>
          ae_retryable x = ae_retryable y \<and> ae_retryAfterMs x = ae_retryAfterMs y
      | _ \<Rightarrow> a = b)"

lemma sameRef_eq [simp]: "sameRef a b \<longleftrightarrow> a = b"
  by (auto simp: sameRef_def split: option.splits)

lemma sameOrigin_eq [simp]: "sameOrigin a b \<longleftrightarrow> a = b"
  by (auto simp: sameOrigin_def split: option.splits queueOrigin.splits)

lemma sameError_eq [simp]: "sameError a b \<longleftrightarrow> a = b"
  by (auto simp: sameError_def split: option.splits)

text \<open>\<open>validateOccurrence\<close>, with the exception it throws.\<close>

definition validateOccurrence :: "queueOccurrence \<Rightarrow> exn option" where
  "validateOccurrence o' =
     (if qo_occurrenceId o' = [] then
        Some (TypeError ''occurrenceId must be a nonempty string'')
      else if qo_recordingId o' = [] then
        Some (TypeError ''recordingId must be a nonempty string'')
      else if (case qo_selectedRef o' of None \<Rightarrow> False | Some r \<Rightarrow> \<not> isSourceRef (ref_val r)) then
        Some (TypeError ''selectedRef must be null or a valid SourceRef'')
      else None)"

text \<open>The constructor's loop over the members: the first invalid or repeated one throws.\<close>

fun check_occurrences :: "string set \<Rightarrow> queueOccurrence list \<Rightarrow> exn option" where
  "check_occurrences ids [] = None"
| "check_occurrences ids (o' # os) =
     (case validateOccurrence o' of
        Some e \<Rightarrow> Some e
      | None \<Rightarrow>
          if qo_occurrenceId o' \<in> ids then
            Some (TypeError ''occurrenceId values must be unique'')
          else check_occurrences (insert (qo_occurrenceId o') ids) os)"

definition origin_ok :: "queueOrigin option \<Rightarrow> bool" where
  "origin_ok g = (case g of None \<Rightarrow> True | Some x \<Rightarrow> isQueueOrigin (origin_val x))"

section \<open>The engine\<close>

record queueEngine =
  qe_revision :: nat
  qe_occurrences :: "queueOccurrence list"
  qe_currentId :: "string option"
  qe_positionMs :: nat
  qe_mode :: queueMode
  qe_blockedError :: "appError option"
  qe_origin :: "queueOrigin option"
  qe_unplayable :: "string set"
  qe_occurrenceCache :: "(nat \<times> queueOccurrence list) option"
  qe_snapshotCache :: "queueSnapshot option"

definition empty_snapshot :: queueSnapshot where
  "empty_snapshot =
     \<lparr>qs_revision = jnat 0, qs_occurrences = [], qs_currentOccurrenceId = None,
      qs_positionMs = jnat 0, qs_mode = ''stopped'', qs_blockedError = None, qs_origin = None\<rparr>"

definition occ_ids :: "queueOccurrence list \<Rightarrow> string list" where
  "occ_ids os = map qo_occurrenceId os"

definition newQueueEngine :: "queueSnapshot option \<Rightarrow> string set \<Rightarrow> exn + queueEngine" where
  "newQueueEngine initial unplayable =
     (let s = (case initial of None \<Rightarrow> empty_snapshot | Some s \<Rightarrow> s);
          occurrences = qs_occurrences s; currentId = qs_currentOccurrenceId s;
          blockedError = qs_blockedError s; origin = qs_origin s
      in case safe_nat (qs_revision s) of
           None \<Rightarrow> Inl (TypeError ''revision must be a safe nonnegative integer'')
         | Some revision \<Rightarrow>
      (case safe_nat (qs_positionMs s) of
           None \<Rightarrow> Inl (TypeError ''positionMs must be a safe nonnegative integer'')
         | Some positionMs \<Rightarrow>
      (case mode_of_str (qs_mode s) of
           None \<Rightarrow> Inl (TypeError ''mode must be stopped, paused, or playing'')
         | Some mode \<Rightarrow>
      (case check_occurrences {} occurrences of
           Some e \<Rightarrow> Inl e
         | None \<Rightarrow>
      let ids = set (occ_ids occurrences)
      in if (case currentId of None \<Rightarrow> False | Some c \<Rightarrow> c \<notin> ids) then
           Inl (TypeError ''currentOccurrenceId must be a member or null'')
         else if currentId = None \<and> positionMs \<noteq> 0 then
           Inl (TypeError ''position must be 0 without a current occurrence'')
         else if currentId = None \<and> mode \<noteq> Stopped then
           Inl (TypeError ''mode must be stopped without a current occurrence'')
         else if currentId = None \<and> blockedError \<noteq> None then
           Inl (TypeError ''blockedError requires a current occurrence'')
         else if currentId \<noteq> None \<and> mode = Stopped then
           Inl (TypeError ''a selected occurrence cannot be stopped'')
         else if currentId \<noteq> None \<and> blockedError \<noteq> None \<and> mode \<noteq> Paused then
           Inl (TypeError ''blockedError requires the paused mode'')
         else if \<not> origin_ok origin then
           Inl (TypeError ''origin must be a valid QueueOrigin'')
         else
           Inr \<lparr>qe_revision = revision, qe_occurrences = occurrences, qe_currentId = currentId,
                qe_positionMs = positionMs, qe_mode = mode, qe_blockedError = blockedError,
                qe_origin = origin, qe_unplayable = unplayable \<inter> ids,
                qe_occurrenceCache = None, qe_snapshotCache = None\<rparr>))))"

type_synonym queueCall = "(queueEngine, unit) call"

definition isUnplayable :: "string \<Rightarrow> queueEngine \<Rightarrow> bool" where
  "isUnplayable i q = (i \<in> qe_unplayable q)"

subsection \<open>Snapshots\<close>

definition rebuild_snapshot :: "queueEngine \<Rightarrow> queueSnapshot \<times> queueEngine" where
  "rebuild_snapshot q =
     (let occurrences =
            (case qe_occurrenceCache q of
               Some (r, os) \<Rightarrow> if r = qe_revision q then os else qe_occurrences q
             | None \<Rightarrow> qe_occurrences q);
          snap = \<lparr>qs_revision = jnat (qe_revision q), qs_occurrences = occurrences,
                  qs_currentOccurrenceId = qe_currentId q, qs_positionMs = jnat (qe_positionMs q),
                  qs_mode = mode_str (qe_mode q), qs_blockedError = qe_blockedError q,
                  qs_origin = qe_origin q\<rparr>
      in (snap, q\<lparr>qe_occurrenceCache := Some (qe_revision q, occurrences),
                  qe_snapshotCache := Some snap\<rparr>))"

definition queue_snapshot :: "queueEngine \<Rightarrow> queueSnapshot \<times> queueEngine" where
  "queue_snapshot q =
     (case qe_snapshotCache q of
        Some cached \<Rightarrow>
          if qs_revision cached = jnat (qe_revision q) \<and> qs_positionMs cached = jnat (qe_positionMs q)
          then (cached, q)
          else rebuild_snapshot q
      | None \<Rightarrow> rebuild_snapshot q)"

definition queue_fork :: "queueEngine \<Rightarrow> (exn + queueEngine) \<times> queueEngine" where
  "queue_fork q =
     (let (snap, q') = queue_snapshot q in (newQueueEngine (Some snap) (qe_unplayable q'), q'))"

subsection \<open>Ticks and lookups\<close>

definition requireTick :: "queueEngine \<Rightarrow> queueCall \<Rightarrow> queueCall" where
  "requireTick q rest =
     (if max_safe \<le> qe_revision q
      then throws (TypeError ''revision would exceed MAX_SAFE_INTEGER'') q
      else rest)"

definition queue_tick :: "queueEngine \<Rightarrow> queueEngine" where
  "queue_tick q = q\<lparr>qe_revision := qe_revision q + 1\<rparr>"

definition queue_apply :: "string option \<Rightarrow> nat \<Rightarrow> queueMode \<Rightarrow> queueEngine \<Rightarrow> queueEngine" where
  "queue_apply currentId positionMs mode q =
     queue_tick (q\<lparr>qe_currentId := currentId, qe_positionMs := positionMs, qe_mode := mode,
                   qe_blockedError := None\<rparr>)"

definition queue_indexOf :: "queueEngine \<Rightarrow> string \<Rightarrow> nat option" where
  "queue_indexOf q i = find_index (\<lambda>x. qo_occurrenceId x = i) (qe_occurrences q)"

definition requireIndex :: "queueEngine \<Rightarrow> string \<Rightarrow> (nat \<Rightarrow> queueCall) \<Rightarrow> queueCall" where
  "requireIndex q i rest =
     (case queue_indexOf q i of
        None \<Rightarrow> throws (TypeError (''unknown occurrenceId: '' @ i)) q
      | Some index \<Rightarrow> rest index)"

definition unflag :: "string \<Rightarrow> queueEngine \<Rightarrow> queueEngine" where
  "unflag i q = q\<lparr>qe_unplayable := qe_unplayable q - {i}\<rparr>"

text \<open>\<open>Math.max(0, Math.min(index, length))\<close>\<close>

definition clamp :: "int \<Rightarrow> nat \<Rightarrow> nat" where
  "clamp i n = nat (max 0 (min i (int n)))"

definition resumed_mode :: "queueMode \<Rightarrow> queueMode" where
  "resumed_mode m = (if m = Playing then Playing else Paused)"

section \<open>Commands\<close>

definition queue_enqueue :: "queueOccurrence \<Rightarrow> jsnum option \<Rightarrow> queueEngine \<Rightarrow> queueCall" where
  [op_defs]: "queue_enqueue occurrence index q =
     (case validateOccurrence occurrence of
        Some e \<Rightarrow> throws e q
      | None \<Rightarrow>
          if queue_indexOf q (qo_occurrenceId occurrence) \<noteq> None then
            throws (TypeError ''occurrenceId values must be unique'') q
          else if (case index of None \<Rightarrow> False | Some x \<Rightarrow> safe_int x = None) then
            throws (TypeError ''index must be a safe integer when supplied'') q
          else requireTick q
            (let len = length (qe_occurrences q);
                 at_pos = (case index of
                             None \<Rightarrow> clamp (int len) len
                           | Some x \<Rightarrow> clamp (the (safe_int x)) len)
             in returns ()
                  (queue_tick (q\<lparr>qe_occurrences :=
                                  splice_insert at_pos occurrence (qe_occurrences q)\<rparr>))))"

definition queue_select :: "string \<Rightarrow> bool \<Rightarrow> queueEngine \<Rightarrow> queueCall" where
  [op_defs]: "queue_select i autoplay q =
     requireIndex q i (\<lambda>_.
       let mode = (if autoplay then Playing else Paused)
       in if qe_currentId q = Some i \<and> qe_positionMs q = 0 \<and> qe_mode q = mode \<and>
             qe_blockedError q = None
          then returns () q
          else requireTick q
            (returns () (queue_apply (Some i) 0 mode (if autoplay then unflag i q else q))))"

text \<open>
  The member \<open>next()\<close> lands on: the first one after the cursor without a failed mark. An
  index of \<open>-1\<close> (a cursor that is no member) would slice from the start.
\<close>

definition next_playable :: "queueEngine \<Rightarrow> string \<Rightarrow> queueOccurrence option" where
  "next_playable q cur =
     (let rest = (case queue_indexOf q cur of
                    None \<Rightarrow> qe_occurrences q
                  | Some k \<Rightarrow> drop (k + 1) (qe_occurrences q))
      in find (\<lambda>x. qo_occurrenceId x \<notin> qe_unplayable q) rest)"

definition queue_next :: "queueEngine \<Rightarrow> queueCall" where
  [op_defs]: "queue_next q =
     (case qe_currentId q of
        None \<Rightarrow> returns () q
      | Some cur \<Rightarrow> requireTick q
          (case next_playable q cur of
             None \<Rightarrow> returns () (queue_apply None 0 Stopped q)
           | Some nxt \<Rightarrow>
               returns () (queue_apply (Some (qo_occurrenceId nxt)) 0 (resumed_mode (qe_mode q)) q)))"

definition queue_stop :: "queueEngine \<Rightarrow> queueCall" where
  [op_defs]: "queue_stop q =
     (if qe_currentId q = None then returns () q
      else requireTick q (returns () (queue_apply None 0 Stopped q)))"

definition queue_clear :: "queueEngine \<Rightarrow> queueCall" where
  [op_defs]: "queue_clear q =
     (if qe_occurrences q = [] \<and> qe_currentId q = None then returns () q
      else requireTick q
        (returns () (queue_apply None 0 Stopped
           (q\<lparr>qe_occurrences := [], qe_unplayable := {}, qe_origin := None\<rparr>))))"

definition setOrigin :: "queueOrigin option \<Rightarrow> queueEngine \<Rightarrow> queueCall" where
  [op_defs]: "setOrigin origin q =
     (if \<not> origin_ok origin then throws (TypeError ''origin must be a valid QueueOrigin'') q
      else if sameOrigin (qe_origin q) origin then returns () q
      else requireTick q (returns () (queue_tick (q\<lparr>qe_origin := origin\<rparr>))))"

definition clearExceptCurrent :: "queueEngine \<Rightarrow> queueCall" where
  [op_defs]: "clearExceptCurrent q =
     (case qe_currentId q of
        None \<Rightarrow> queue_clear q
      | Some cur \<Rightarrow>
          if length (qe_occurrences q) = 1 then returns () q
          else requireTick q
            (case queue_indexOf q cur of
               None \<Rightarrow> returns () q
             | Some k \<Rightarrow>
                 let current = qe_occurrences q ! k
                 in returns () (queue_tick (q\<lparr>qe_occurrences := [current],
                      qe_unplayable := qe_unplayable q \<inter> {qo_occurrenceId current}\<rparr>))))"

definition queue_previous :: "queueEngine \<Rightarrow> queueCall" where
  [op_defs]: "queue_previous q =
     (case qe_currentId q of
        None \<Rightarrow> returns () q
      | Some cur \<Rightarrow>
          (case queue_indexOf q cur of
             None \<Rightarrow> returns () q
           | Some index \<Rightarrow>
               if 0 < qe_positionMs q \<and>
                  (index = 0 \<or> (3000 < qe_positionMs q \<and> qe_blockedError q = None))
               then requireTick q (returns () (queue_tick (q\<lparr>qe_positionMs := 0\<rparr>)))
               else if index = 0 then returns () q
               else requireTick q
                 (returns () (queue_apply
                    (Some (qo_occurrenceId (qe_occurrences q ! (index - 1)))) 0 (qe_mode q) q))))"

definition queue_remove :: "string \<Rightarrow> queueEngine \<Rightarrow> queueCall" where
  [op_defs]: "queue_remove i q =
     requireIndex q i (\<lambda>index. requireTick q
       (let q' = unflag i (q\<lparr>qe_occurrences := splice_remove index (qe_occurrences q)\<rparr>)
        in if qe_currentId q = Some i then
             (if index < length (qe_occurrences q')
              then returns () (queue_apply (Some (qo_occurrenceId (qe_occurrences q' ! index))) 0
                                 (resumed_mode (qe_mode q)) q')
              else returns () (queue_apply None 0 Stopped q'))
           else returns () (queue_tick q')))"

definition queue_move :: "string \<Rightarrow> jsnum \<Rightarrow> queueEngine \<Rightarrow> queueCall" where
  [op_defs]: "queue_move i toIndex q =
     requireIndex q i (\<lambda>index.
       case safe_int toIndex of
         None \<Rightarrow> throws (TypeError ''toIndex must be a safe integer'') q
       | Some t \<Rightarrow>
           let target = clamp t (length (qe_occurrences q) - 1)
           in if target = index then returns () q
              else requireTick q
                (let moved = qe_occurrences q ! index
                 in returns () (queue_tick (q\<lparr>qe_occurrences :=
                      splice_insert target moved (splice_remove index (qe_occurrences q))\<rparr>))))"

text \<open>\<open>order.map(...)\<close> over a map built from the members: later entries of one id win.\<close>

definition reordered :: "queueEngine \<Rightarrow> string list \<Rightarrow> queueOccurrence list option" where
  "reordered q order =
     those (map (map_of (rev (map (\<lambda>x. (qo_occurrenceId x, x)) (qe_occurrences q)))) order)"

definition queue_reorder :: "string list \<Rightarrow> queueEngine \<Rightarrow> queueCall" where
  [op_defs]: "queue_reorder order q =
     (if length order \<noteq> length (qe_occurrences q) then
        throws (TypeError ''reorder must cover every occurrence'') q
      else if \<not> distinct order then
        throws (TypeError ''reorder must not repeat an occurrence'') q
      else case reordered q order of
        None \<Rightarrow> throws (TypeError ''reorder carries an unknown occurrence'') q
      | Some nxt \<Rightarrow>
          if nxt = qe_occurrences q then returns () q
          else requireTick q (returns () (queue_tick (q\<lparr>qe_occurrences := nxt\<rparr>))))"

definition setSelectedRef :: "string \<Rightarrow> sourceRef option \<Rightarrow> queueEngine \<Rightarrow> queueCall" where
  [op_defs]: "setSelectedRef i ref q =
     requireIndex q i (\<lambda>index.
       if (case ref of None \<Rightarrow> False | Some r \<Rightarrow> \<not> isSourceRef (ref_val r)) then
         throws (TypeError ''ref must be null or a valid SourceRef'') q
       else let existing = qe_occurrences q ! index
            in if sameRef (qo_selectedRef existing) ref then returns () q
               else requireTick q
                 (returns () (queue_tick (q\<lparr>qe_occurrences :=
                    (qe_occurrences q)[index := existing\<lparr>qo_selectedRef := ref\<rparr>]\<rparr>))))"

definition queue_play :: "queueEngine \<Rightarrow> queueCall" where
  [op_defs]: "queue_play q =
     (case qe_currentId q of
        None \<Rightarrow> returns () q
      | Some cur \<Rightarrow>
          if qe_mode q = Playing \<and> qe_blockedError q = None then returns () q
          else requireTick q
            (returns () (queue_apply (Some cur) (qe_positionMs q) Playing (unflag cur q))))"

definition queue_pause :: "queueEngine \<Rightarrow> queueCall" where
  [op_defs]: "queue_pause q =
     (if qe_mode q \<noteq> Playing then returns () q
      else requireTick q (returns () (queue_tick (q\<lparr>qe_mode := Paused\<rparr>))))"

definition requirePosition :: "queueEngine \<Rightarrow> jsnum \<Rightarrow> (nat \<Rightarrow> queueCall) \<Rightarrow> queueCall" where
  "requirePosition q ms rest =
     (case safe_nat ms of
        None \<Rightarrow> throws (TypeError ''positionMs must be a safe nonnegative integer'') q
      | Some n \<Rightarrow> rest n)"

definition observePosition :: "jsnum \<Rightarrow> queueEngine \<Rightarrow> queueCall" where
  [op_defs]: "observePosition ms q =
     requirePosition q ms (\<lambda>n.
       if qe_currentId q = None \<or> qe_positionMs q = n then returns () q
       else returns () (q\<lparr>qe_positionMs := n\<rparr>))"

definition seekTo :: "jsnum \<Rightarrow> queueEngine \<Rightarrow> queueCall" where
  [op_defs]: "seekTo ms q =
     requirePosition q ms (\<lambda>n.
       if qe_currentId q = None \<or> qe_positionMs q = n then returns () q
       else requireTick q (returns () (queue_tick (q\<lparr>qe_positionMs := n\<rparr>))))"

definition blockCurrent :: "appError \<Rightarrow> bool \<Rightarrow> queueEngine \<Rightarrow> queueCall" where
  [op_defs]: "blockCurrent err unplayable q =
     (case qe_currentId q of
        None \<Rightarrow> returns () q
      | Some i \<Rightarrow>
          if qe_mode q = Paused \<and> sameError (qe_blockedError q) (Some err) \<and>
             (\<not> unplayable \<or> i \<in> qe_unplayable q)
          then returns () q
          else requireTick q
            (returns () (queue_tick (q\<lparr>qe_mode := Paused, qe_blockedError := Some err,
               qe_unplayable := (if unplayable then insert i (qe_unplayable q)
                                 else qe_unplayable q)\<rparr>))))"

definition markFailed :: "appError \<Rightarrow> queueEngine \<Rightarrow> queueCall" where
  [op_defs]: "markFailed err = blockCurrent err False"

definition markUnplayable :: "appError \<Rightarrow> queueEngine \<Rightarrow> queueCall" where
  [op_defs]: "markUnplayable err = blockCurrent err True"

definition reconcile_to :: "string option \<Rightarrow> nat \<Rightarrow> bool \<Rightarrow> queueEngine \<Rightarrow> queueCall" where
  [op_defs]: "reconcile_to occurrenceId n playing q =
     (let mode = (if occurrenceId = None then Stopped else if playing then Playing else Paused);
          position = (if occurrenceId = None then 0 else n)
      in if qe_currentId q = occurrenceId \<and> qe_positionMs q = position \<and> qe_mode q = mode \<and>
            qe_blockedError q = None
         then returns () q
         else requireTick q
           (let q' = queue_apply occurrenceId position mode q
            in returns () (case occurrenceId of
                             Some i \<Rightarrow> if playing then unflag i q' else q'
                           | None \<Rightarrow> q')))"

definition reconcileNativeCurrent :: "string option \<Rightarrow> jsnum \<Rightarrow> bool \<Rightarrow> queueEngine \<Rightarrow> queueCall" where
  [op_defs]: "reconcileNativeCurrent occurrenceId positionMs playing q =
     requirePosition q positionMs (\<lambda>n.
       case occurrenceId of
         None \<Rightarrow> reconcile_to None n playing q
       | Some i \<Rightarrow> requireIndex q i (\<lambda>_. reconcile_to (Some i) n playing q))"

definition restorePaused :: "queueEngine \<Rightarrow> queueCall" where
  [op_defs]: "restorePaused q =
     (let mode = (if qe_currentId q = None then Stopped else Paused)
      in if mode = qe_mode q \<and> qe_blockedError q = None then returns () q
         else requireTick q
           (returns () (queue_apply (qe_currentId q) (qe_positionMs q) mode q)))"

text \<open>The public methods as commands; taking a snapshot writes the two caches.\<close>

datatype queueCommand =
    Enqueue queueOccurrence "jsnum option"
  | Select string bool
  | Next
  | Stop
  | Clear
  | SetOrigin "queueOrigin option"
  | ClearExceptCurrent
  | Previous
  | Remove string
  | Move string jsnum
  | Reorder "string list"
  | SetSelectedRef string "sourceRef option"
  | Play
  | Pause
  | ObservePosition jsnum
  | SeekTo jsnum
  | MarkFailed appError
  | MarkUnplayable appError
  | ReconcileNativeCurrent "string option" jsnum bool
  | RestorePaused
  | TakeSnapshot

fun queue_exec :: "queueCommand \<Rightarrow> queueEngine \<Rightarrow> queueCall" where
  "queue_exec (Enqueue x k) q = queue_enqueue x k q"
| "queue_exec (Select i autoplay) q = queue_select i autoplay q"
| "queue_exec Next q = queue_next q"
| "queue_exec Stop q = queue_stop q"
| "queue_exec Clear q = queue_clear q"
| "queue_exec (SetOrigin g) q = setOrigin g q"
| "queue_exec ClearExceptCurrent q = clearExceptCurrent q"
| "queue_exec Previous q = queue_previous q"
| "queue_exec (Remove i) q = queue_remove i q"
| "queue_exec (Move i t) q = queue_move i t q"
| "queue_exec (Reorder order) q = queue_reorder order q"
| "queue_exec (SetSelectedRef i r) q = setSelectedRef i r q"
| "queue_exec Play q = queue_play q"
| "queue_exec Pause q = queue_pause q"
| "queue_exec (ObservePosition ms) q = observePosition ms q"
| "queue_exec (SeekTo ms) q = seekTo ms q"
| "queue_exec (MarkFailed e) q = markFailed e q"
| "queue_exec (MarkUnplayable e) q = markUnplayable e q"
| "queue_exec (ReconcileNativeCurrent i ms playing) q = reconcileNativeCurrent i ms playing q"
| "queue_exec RestorePaused q = restorePaused q"
| "queue_exec TakeSnapshot q = returns () (snd (queue_snapshot q))"

end
