(* ===== verification/QueueLaws.thy ===== *)
theory QueueLaws
  imports QueueEngine
begin

text \<open>
  The laws of the playback queue. \<open>queue_inv\<close> is the legal-state invariant the constructor
  enforces, with the failed marks inside the members and both caches coherent; \<open>queue_step\<close>
  is the shape of every command: it throws and leaves the queue alone, does nothing, or
  changes something and ticks the revision once. The commands are proved one by one to have
  that shape, and the interface \<open>atomic_machine\<close> is interpreted on them.
\<close>

section \<open>The invariant\<close>

definition occurrence_ok :: "queueOccurrence \<Rightarrow> bool" where
  "occurrence_ok x = (validateOccurrence x = None)"

definition cursor_ok :: "queueEngine \<Rightarrow> bool" where
  "cursor_ok q =
     (case qe_currentId q of
        None \<Rightarrow> qe_positionMs q = 0 \<and> qe_mode q = Stopped \<and> qe_blockedError q = None
      | Some c \<Rightarrow> c \<in> set (occ_ids (qe_occurrences q)) \<and> qe_mode q \<noteq> Stopped \<and>
                  (qe_blockedError q \<noteq> None \<longrightarrow> qe_mode q = Paused))"

definition queue_core :: "queueEngine \<Rightarrow> bool" where
  "queue_core q =
     (qe_positionMs q \<le> max_safe \<and> distinct (occ_ids (qe_occurrences q)) \<and>
      (\<forall>x\<in>set (qe_occurrences q). occurrence_ok x) \<and> cursor_ok q \<and>
      qe_unplayable q \<subseteq> set (occ_ids (qe_occurrences q)) \<and> origin_ok (qe_origin q))"

text \<open>The snapshot the fields determine, without any cache.\<close>

definition fresh_snapshot :: "queueEngine \<Rightarrow> queueSnapshot" where
  "fresh_snapshot q =
     \<lparr>qs_revision = jnat (qe_revision q), qs_occurrences = qe_occurrences q,
      qs_currentOccurrenceId = qe_currentId q, qs_positionMs = jnat (qe_positionMs q),
      qs_mode = mode_str (qe_mode q), qs_blockedError = qe_blockedError q,
      qs_origin = qe_origin q\<rparr>"

definition occurrence_cache_ok :: "queueEngine \<Rightarrow> bool" where
  "occurrence_cache_ok q =
     (case qe_occurrenceCache q of
        None \<Rightarrow> True
      | Some (r, os) \<Rightarrow> r \<le> qe_revision q \<and> (r = qe_revision q \<longrightarrow> os = qe_occurrences q))"

definition snapshot_cache_ok :: "queueEngine \<Rightarrow> bool" where
  "snapshot_cache_ok q =
     (case qe_snapshotCache q of
        None \<Rightarrow> True
      | Some s \<Rightarrow> qs_revision s \<in> jnat ` {..qe_revision q} \<and>
          (qs_revision s = jnat (qe_revision q) \<longrightarrow>
             s = (fresh_snapshot q)\<lparr>qs_positionMs := qs_positionMs s\<rparr>))"

definition queue_inv :: "queueEngine \<Rightarrow> bool" where
  "queue_inv q =
     (qe_revision q \<le> max_safe \<and> queue_core q \<and> occurrence_cache_ok q \<and> snapshot_cache_ok q)"

lemmas queue_inv_defs = queue_inv_def queue_core_def cursor_ok_def

section \<open>Shape of a command\<close>

text \<open>Everything a tick accounts for: the state without the revision and the caches.\<close>

definition queue_content :: "queueEngine \<Rightarrow> queueEngine" where
  "queue_content q = q\<lparr>qe_revision := 0, qe_occurrenceCache := None, qe_snapshotCache := None\<rparr>"

definition same_books :: "queueEngine \<Rightarrow> queueEngine \<Rightarrow> bool" where
  "same_books q q' =
     (qe_revision q' = qe_revision q \<and> qe_occurrenceCache q' = qe_occurrenceCache q \<and>
      qe_snapshotCache q' = qe_snapshotCache q)"

definition queue_step :: "queueEngine \<Rightarrow> queueCall \<Rightarrow> bool" where
  "queue_step q r =
     ((\<exists>e. r = throws e q) \<or> r = returns () q \<or>
      (\<exists>q'. r = returns () (queue_tick q') \<and> same_books q q' \<and> qe_revision q < max_safe \<and>
            queue_content q' \<noteq> queue_content q \<and> queue_core q'))"

lemma step_throws [inv_intros]: "queue_step q (throws e q)"
  by (simp add: queue_step_def)

lemma step_same [inv_intros]: "queue_step q (returns () q)"
  by (simp add: queue_step_def)

lemma step_tick:
  "qe_revision q < max_safe \<Longrightarrow> same_books q q' \<Longrightarrow> queue_content q' \<noteq> queue_content q \<Longrightarrow>
     queue_core q' \<Longrightarrow> queue_step q (returns () (queue_tick q'))"
  by (auto simp: queue_step_def)

lemma step_requireTick [inv_intros]:
  "(qe_revision q < max_safe \<Longrightarrow> queue_step q r) \<Longrightarrow> queue_step q (requireTick q r)"
  by (simp add: requireTick_def step_throws)

lemma indexOf_Some:
  "queue_indexOf q i = Some k \<Longrightarrow>
     k < length (qe_occurrences q) \<and> qo_occurrenceId (qe_occurrences q ! k) = i"
  unfolding queue_indexOf_def by (drule find_index_Some) simp

lemma indexOf_None: "queue_indexOf q i = None \<longleftrightarrow> i \<notin> set (occ_ids (qe_occurrences q))"
  by (auto simp: queue_indexOf_def occ_ids_def)

lemma indexOf_member: "queue_indexOf q i = Some k \<Longrightarrow> i \<in> set (occ_ids (qe_occurrences q))"
  by (metis indexOf_None option.distinct(1))

lemma step_requireIndex:
  "(\<And>k. queue_indexOf q i = Some k \<Longrightarrow> queue_step q (rest k)) \<Longrightarrow>
     queue_step q (requireIndex q i rest)"
  by (auto simp: requireIndex_def step_throws split: option.splits)

lemma step_requirePosition:
  "(\<And>n. n \<le> max_safe \<Longrightarrow> queue_step q (rest n)) \<Longrightarrow> queue_step q (requirePosition q ms rest)"
  by (auto simp: requirePosition_def step_throws dest: safe_nat_bound split: option.splits)

lemma cleared_step:
  assumes "qe_revision q < max_safe" "same_books q q'" "queue_core q'"
    and "queue_content (q'\<lparr>qe_currentId := c, qe_positionMs := p, qe_mode := m,
                            qe_blockedError := None\<rparr>) \<noteq> queue_content q"
    and "p \<le> max_safe"
    and "case c of None \<Rightarrow> p = 0 \<and> m = Stopped
                 | Some i \<Rightarrow> i \<in> set (occ_ids (qe_occurrences q')) \<and> m \<noteq> Stopped"
  shows "queue_step q (returns () (queue_apply c p m q'))"
proof -
  have "queue_core (q'\<lparr>qe_currentId := c, qe_positionMs := p, qe_mode := m,
                       qe_blockedError := None\<rparr>)"
    using assms by (auto simp: queue_core_def cursor_ok_def split: option.splits)
  then show ?thesis
    using assms unfolding queue_apply_def by (intro step_tick) (simp_all add: same_books_def)
qed

lemma queue_core_unflag: "queue_core q \<Longrightarrow> queue_core (unflag i q)"
  by (auto simp: queue_core_def cursor_ok_def unflag_def split: option.splits)

lemma unflag_fields [simp]:
  "qe_occurrences (unflag i q) = qe_occurrences q" "qe_currentId (unflag i q) = qe_currentId q"
  "qe_positionMs (unflag i q) = qe_positionMs q" "qe_mode (unflag i q) = qe_mode q"
  "qe_blockedError (unflag i q) = qe_blockedError q" "qe_revision (unflag i q) = qe_revision q"
  "same_books q (unflag i q)"
  "qe_unplayable (unflag i q) = qe_unplayable q - {i}"
  by (simp_all add: unflag_def same_books_def)

lemma unflag_apply: "unflag i (queue_apply c p m q) = queue_apply c p m (unflag i q)"
  by (simp add: unflag_def queue_apply_def queue_tick_def)

lemma same_books_refl [simp]: "same_books q q"
  by (simp add: same_books_def)

text \<open>The contents differ as soon as one field does.\<close>

lemma content_eq_iff:
  "queue_content a = queue_content b \<longleftrightarrow>
     qe_occurrences a = qe_occurrences b \<and> qe_currentId a = qe_currentId b \<and>
     qe_positionMs a = qe_positionMs b \<and> qe_mode a = qe_mode b \<and>
     qe_blockedError a = qe_blockedError b \<and> qe_origin a = qe_origin b \<and>
     qe_unplayable a = qe_unplayable b"
  by (cases a; cases b) (auto simp: queue_content_def)

lemma content_length:
  "length (qe_occurrences a) \<noteq> length (qe_occurrences b) \<Longrightarrow> queue_content a \<noteq> queue_content b"
  by (auto simp: content_eq_iff)

section \<open>The commands\<close>

lemma step_enqueue:
  assumes core: "queue_core q"
  shows "queue_step q (queue_enqueue x k q)"
proof -
  have "queue_step q (returns () (queue_tick (q\<lparr>qe_occurrences :=
          splice_insert p x (qe_occurrences q)\<rparr>)))"
    if "validateOccurrence x = None" "queue_indexOf q (qo_occurrenceId x) = None"
      "qe_revision q < max_safe" for p
  proof (rule step_tick)
    show "queue_content (q\<lparr>qe_occurrences := splice_insert p x (qe_occurrences q)\<rparr>) \<noteq> queue_content q"
      by (intro content_length) simp
    show "queue_core (q\<lparr>qe_occurrences := splice_insert p x (qe_occurrences q)\<rparr>)"
      using core that unfolding queue_core_def cursor_ok_def occ_ids_def
      by (auto simp: map_splice_insert distinct_splice_insert indexOf_None occ_ids_def
          occurrence_ok_def split: option.splits)
  qed (use that in \<open>simp_all add: same_books_def\<close>)
  then show ?thesis
    unfolding queue_enqueue_def
    by (auto simp: Let_def intro!: inv_intros split: option.splits)
qed

lemma step_select:
  assumes core: "queue_core q"
  shows "queue_step q (queue_select i autoplay q)"
  unfolding queue_select_def
proof (rule step_requireIndex)
  fix k assume idx: "queue_indexOf q i = Some k"
  let ?m = "if autoplay then Playing else Paused"
  let ?same = "qe_currentId q = Some i \<and> qe_positionMs q = 0 \<and> qe_mode q = ?m \<and>
               qe_blockedError q = None"
  have "queue_step q (returns () (queue_apply (Some i) 0 ?m (if autoplay then unflag i q else q)))"
    if "\<not> ?same" "qe_revision q < max_safe"
  proof (rule cleared_step)
    show "queue_content ((if autoplay then unflag i q else q)\<lparr>qe_currentId := Some i,
             qe_positionMs := 0, qe_mode := ?m, qe_blockedError := None\<rparr>) \<noteq> queue_content q"
      (is "queue_content ?q \<noteq> _")
    proof
      assume "queue_content ?q = queue_content q"
      then have ?same
        by (cases autoplay; simp add: content_eq_iff)
      with that(1) show False ..
    qed
  qed (use that core indexOf_member [OF idx] in \<open>auto simp: queue_core_unflag\<close>)
  then show "queue_step q (let mode = ?m in if qe_currentId q = Some i \<and> qe_positionMs q = 0 \<and>
        qe_mode q = mode \<and> qe_blockedError q = None then returns () q
      else requireTick q (returns () (queue_apply (Some i) 0 mode (if autoplay then unflag i q else q))))"
    by (simp add: Let_def step_same step_requireTick)
qed

lemma next_playable_member:
  "next_playable q cur = Some x \<Longrightarrow> x \<in> set (qe_occurrences q)"
  by (auto simp: next_playable_def Let_def dest!: find_Some_set dest: in_set_dropD split: option.splits)

lemma nth_inj_ids:
  "distinct (occ_ids os) \<Longrightarrow> i < length os \<Longrightarrow> j < length os \<Longrightarrow>
     qo_occurrenceId (os ! i) = qo_occurrenceId (os ! j) \<Longrightarrow> i = j"
  by (simp add: occ_ids_def distinct_conv_nth) metis

lemma ids_nth: "k < length os \<Longrightarrow> qo_occurrenceId (os ! k) \<in> set (occ_ids os)"
  by (simp add: occ_ids_def)

lemma next_playable_later:
  assumes core: "queue_core q" and nxt: "next_playable q cur = Some x"
    and idx: "queue_indexOf q cur = Some k"
  shows "qo_occurrenceId x \<noteq> cur"
proof -
  have "x \<in> set (drop (k + 1) (qe_occurrences q))"
    using nxt idx by (auto simp: next_playable_def Let_def dest!: find_Some_set)
  then obtain d where d: "d < length (qe_occurrences q) - (k + 1)" "x = qe_occurrences q ! (k + 1 + d)"
    by (auto simp: in_set_conv_nth)
  then show ?thesis
    using nth_inj_ids [of "qe_occurrences q" "k + 1 + d" k] d core
      indexOf_Some [OF idx] by (auto simp: queue_core_def less_diff_conv)
qed

lemma core_member_ids: "queue_core q \<Longrightarrow> qe_currentId q = Some c \<Longrightarrow> c \<in> set (occ_ids (qe_occurrences q))"
  by (simp add: queue_core_def cursor_ok_def)

lemma core_current_index:
  assumes "queue_core q" "qe_currentId q = Some c"
  obtains k where "queue_indexOf q c = Some k" "k < length (qe_occurrences q)"
    "qo_occurrenceId (qe_occurrences q ! k) = c"
  using core_member_ids [OF assms] indexOf_None [of q c] indexOf_Some
  by (cases "queue_indexOf q c") auto

lemma step_next:
  assumes core: "queue_core q"
  shows "queue_step q (queue_next q)"
proof (cases "qe_currentId q")
  case None
  then show ?thesis by (simp add: queue_next_def step_same)
next
  case (Some cur)
  then obtain k where k: "queue_indexOf q cur = Some k"
    using core core_current_index by blast
  have "queue_step q (case next_playable q cur of
      None \<Rightarrow> returns () (queue_apply None 0 Stopped q)
    | Some nxt \<Rightarrow>
        returns () (queue_apply (Some (qo_occurrenceId nxt)) 0 (resumed_mode (qe_mode q)) q))"
    if room: "qe_revision q < max_safe"
  proof (cases "next_playable q cur")
    case None
    show ?thesis
      using room core Some by (simp add: None) (rule cleared_step; simp add: content_eq_iff)
  next
    case (Some nxt)
    have "qo_occurrenceId nxt \<noteq> cur"
      using next_playable_later [OF core Some k] .
    then show ?thesis
      using room core next_playable_member [OF Some] \<open>qe_currentId q = Some cur\<close>
      by (simp add: Some)
        (rule cleared_step; simp add: content_eq_iff resumed_mode_def occ_ids_def)
  qed
  then show ?thesis
    by (simp add: queue_next_def Some step_requireTick)
qed

lemma step_stop: "queue_core q \<Longrightarrow> queue_step q (queue_stop q)"
  unfolding queue_stop_def
  by (auto intro!: inv_intros cleared_step simp: content_eq_iff)

lemma core_empty:
  "queue_core q \<Longrightarrow> qe_occurrences q = [] \<Longrightarrow> qe_currentId q = None"
  by (auto simp: queue_core_def cursor_ok_def occ_ids_def split: option.splits)

lemma step_clear:
  assumes core: "queue_core q"
  shows "queue_step q (queue_clear q)"
proof -
  let ?q = "q\<lparr>qe_occurrences := [], qe_unplayable := {}, qe_origin := None\<rparr>"
  have "queue_step q (returns () (queue_apply None 0 Stopped ?q))"
    if ne: "\<not> (qe_occurrences q = [] \<and> qe_currentId q = None)" and room: "qe_revision q < max_safe"
  proof -
    let ?r = "?q\<lparr>qe_currentId := None, qe_positionMs := 0, qe_mode := Stopped,
                  qe_blockedError := None\<rparr>"
    have "queue_core ?r"
      by (simp add: queue_core_def cursor_ok_def occ_ids_def origin_ok_def)
    moreover have "queue_content ?r \<noteq> queue_content q"
      using ne core_empty [OF core] by (auto simp: content_eq_iff)
    ultimately show ?thesis
      unfolding queue_apply_def using room by (intro step_tick) (simp_all add: same_books_def)
  qed
  then show ?thesis
    by (simp add: queue_clear_def step_same step_requireTick)
qed

lemma step_setOrigin: "queue_core q \<Longrightarrow> queue_step q (setOrigin g q)"
  unfolding setOrigin_def
  by (auto intro!: inv_intros step_tick simp: content_eq_iff same_books_def queue_core_def
      cursor_ok_def split: option.splits)

lemma step_clearExceptCurrent:
  assumes core: "queue_core q"
  shows "queue_step q (clearExceptCurrent q)"
proof (cases "qe_currentId q")
  case None
  then show ?thesis by (simp add: clearExceptCurrent_def step_clear core)
next
  case (Some cur)
  then obtain k where k: "queue_indexOf q cur = Some k" "k < length (qe_occurrences q)"
      "qo_occurrenceId (qe_occurrences q ! k) = cur"
    using core core_current_index by blast
  let ?q = "q\<lparr>qe_occurrences := [qe_occurrences q ! k], qe_unplayable := qe_unplayable q \<inter> {cur}\<rparr>"
  have "queue_step q (returns () (queue_tick ?q))"
    if "length (qe_occurrences q) \<noteq> 1" "qe_revision q < max_safe"
  proof (rule step_tick)
    show "queue_content ?q \<noteq> queue_content q"
      using that(1) by (intro content_length) simp
    show "queue_core ?q"
      using core k Some by (auto simp: queue_core_def cursor_ok_def occ_ids_def)
  qed (use that in \<open>simp_all add: same_books_def\<close>)
  then show ?thesis
    by (simp add: clearExceptCurrent_def Some k Let_def step_same step_requireTick)
qed

lemma step_previous:
  assumes core: "queue_core q"
  shows "queue_step q (queue_previous q)"
proof (cases "qe_currentId q")
  case None
  then show ?thesis by (simp add: queue_previous_def step_same)
next
  case (Some cur)
  then obtain k where k: "queue_indexOf q cur = Some k" "k < length (qe_occurrences q)"
      "qo_occurrenceId (qe_occurrences q ! k) = cur"
    using core core_current_index by blast
  have rewind: "queue_step q (returns () (queue_tick (q\<lparr>qe_positionMs := 0\<rparr>)))"
    if "0 < qe_positionMs q" "qe_revision q < max_safe"
    using that core Some by (intro step_tick)
      (auto simp: content_eq_iff same_books_def queue_core_def cursor_ok_def)
  have stepback: "queue_step q (returns () (queue_apply
      (Some (qo_occurrenceId (qe_occurrences q ! (k - 1)))) 0 (qe_mode q) q))"
    if "k \<noteq> 0" "qe_revision q < max_safe"
  proof -
    have "qo_occurrenceId (qe_occurrences q ! (k - 1)) \<noteq> cur"
      using that(1) k core nth_inj_ids [of "qe_occurrences q" "k - 1" k]
      by (auto simp: queue_core_def less_imp_diff_less)
    moreover have "qe_mode q \<noteq> Stopped"
      using core Some by (simp add: queue_core_def cursor_ok_def)
    ultimately show ?thesis
      using that k core Some
      by (intro cleared_step) (auto simp: content_eq_iff ids_nth)
  qed
  show ?thesis
    using rewind stepback by (auto simp: queue_previous_def Some k intro!: inv_intros)
qed

lemma step_remove:
  assumes core: "queue_core q"
  shows "queue_step q (queue_remove i q)"
  unfolding queue_remove_def
proof (intro step_requireIndex step_requireTick)
  fix k assume idx: "queue_indexOf q i = Some k" and room: "qe_revision q < max_safe"
  let ?os = "qe_occurrences q" let ?rest = "splice_remove k ?os"
  let ?q = "unflag i (q\<lparr>qe_occurrences := ?rest\<rparr>)"
  have k: "k < length ?os" "qo_occurrenceId (?os ! k) = i" and d: "distinct (occ_ids ?os)"
    using indexOf_Some [OF idx] core by (simp_all add: queue_core_def)
  have len: "length ?rest = length ?os - 1"
    using k by (simp add: length_splice_remove)
  have ids: "occ_ids ?rest = splice_remove k (occ_ids ?os)"
    by (simp add: occ_ids_def map_splice_remove)
  have set_ids: "set (occ_ids ?rest) = set (occ_ids ?os) - {i}"
    using set_splice_remove [OF d, of k] k unfolding ids by (simp add: occ_ids_def)
  have base: "distinct (occ_ids ?rest)" "\<forall>x\<in>set ?rest. occurrence_ok x"
      "qe_unplayable q - {i} \<subseteq> set (occ_ids ?rest)" "qe_positionMs q \<le> max_safe" "origin_ok (qe_origin q)"
    using core d set_splice_remove_subset [of k ?os] unfolding set_ids
    by (auto simp: ids distinct_splice_remove queue_core_def)
  have differs: "queue_content (?q\<lparr>qe_currentId := c, qe_positionMs := p, qe_mode := m,
                   qe_blockedError := b\<rparr>) \<noteq> queue_content q" for c p m b
    using len k by (intro content_length) (auto simp: unflag_def)
  have land: "queue_step q (returns () (queue_apply c 0 m ?q))"
    if "case c of None \<Rightarrow> m = Stopped | Some j \<Rightarrow> j \<in> set (occ_ids ?rest) \<and> m \<noteq> Stopped" for c m
  proof -
    have "queue_core (?q\<lparr>qe_currentId := c, qe_positionMs := 0, qe_mode := m, qe_blockedError := None\<rparr>)"
      using base that by (auto simp: queue_core_def cursor_ok_def unflag_def split: option.splits)
    then show ?thesis
      using room differs unfolding queue_apply_def
      by (intro step_tick) (simp_all add: same_books_def unflag_def)
  qed
  have keep: "queue_step q (returns () (queue_tick ?q))" if "qe_currentId q \<noteq> Some i"
  proof (rule step_tick [OF room])
    show "queue_core ?q"
      using base that core set_ids
      by (auto simp: queue_core_def cursor_ok_def unflag_def split: option.splits)
    show "queue_content ?q \<noteq> queue_content q"
      using len k by (intro content_length) (auto simp: unflag_def)
  qed (simp add: same_books_def unflag_def)
  show "queue_step q
        (let q' = ?q
         in if qe_currentId q = Some i then
             (if k < length (qe_occurrences q')
              then returns () (queue_apply (Some (qo_occurrenceId (qe_occurrences q' ! k))) 0
                                 (resumed_mode (qe_mode q)) q')
              else returns () (queue_apply None 0 Stopped q'))
           else returns () (queue_tick q'))"
    using keep by (auto simp: Let_def resumed_mode_def ids_nth intro!: land)
qed

lemma move_mset:
  "k < length xs \<Longrightarrow> mset (splice_insert t (xs ! k) (splice_remove k xs)) = mset xs"
  by (simp add: mset_splice_remove)

lemma permuted_core:
  assumes "queue_core q" "mset os = mset (qe_occurrences q)"
  shows "queue_core (q\<lparr>qe_occurrences := os\<rparr>)"
proof -
  have "set os = set (qe_occurrences q)" "distinct (occ_ids os) = distinct (occ_ids (qe_occurrences q))"
    using assms(2) mset_eq_imp_distinct_iff [of "occ_ids os" "occ_ids (qe_occurrences q)"]
    by (auto simp: occ_ids_def dest: mset_eq_setD)
  then show ?thesis
    using assms(1) by (auto simp: queue_core_def cursor_ok_def occ_ids_def split: option.splits)
qed

lemma step_permuted:
  assumes "queue_core q" "mset os = mset (qe_occurrences q)" "os \<noteq> qe_occurrences q"
    and "qe_revision q < max_safe"
  shows "queue_step q (returns () (queue_tick (q\<lparr>qe_occurrences := os\<rparr>)))"
  using assms by (intro step_tick permuted_core) (auto simp: same_books_def content_eq_iff)

lemma nth_splice_moved:
  assumes "k < length xs" "t < length xs"
  shows "splice_insert t (xs ! k) (splice_remove k xs) ! t = xs ! k"
  using assms by (simp add: splice_insert_def nth_append length_splice_remove)

lemma clamp_less: "0 < n \<Longrightarrow> clamp t (n - 1) < n"
  by (auto simp: clamp_def)

lemma step_move:
  assumes core: "queue_core q"
  shows "queue_step q (queue_move i t q)"
  unfolding queue_move_def
proof (intro step_requireIndex)
  fix k assume idx: "queue_indexOf q i = Some k"
  let ?os = "qe_occurrences q"
  have k: "k < length ?os" and d: "distinct (occ_ids ?os)" and ne: "?os \<noteq> []"
    using indexOf_Some [OF idx] core by (auto simp: queue_core_def)
  have "queue_step q (returns () (queue_tick (q\<lparr>qe_occurrences :=
          splice_insert p (?os ! k) (splice_remove k ?os)\<rparr>)))"
    if p: "p < length ?os" "p \<noteq> k" and room: "qe_revision q < max_safe" for p
  proof (rule step_permuted [OF core])
    show "splice_insert p (?os ! k) (splice_remove k ?os) \<noteq> ?os"
      using nth_splice_moved [OF k p(1)] nth_inj_ids [OF d p(1) k] p(2) by metis
  qed (use move_mset k room in auto)
  then show "queue_step q (case safe_int t of
         None \<Rightarrow> throws (TypeError ''toIndex must be a safe integer'') q
       | Some t \<Rightarrow>
           let target = clamp t (length ?os - 1)
           in if target = k then returns () q
              else requireTick q
                (let moved = ?os ! k
                 in returns () (queue_tick (q\<lparr>qe_occurrences :=
                      splice_insert target moved (splice_remove k ?os)\<rparr>))))"
    using clamp_less [of "length ?os"] ne
    by (auto simp: Let_def intro!: inv_intros split: option.splits)
qed

lemma map_of_ids:
  assumes "distinct (occ_ids os)"
  shows "map_of (rev (map (\<lambda>x. (qo_occurrenceId x, x)) os)) i =
           find (\<lambda>x. qo_occurrenceId x = i) os"
proof -
  have "map_of (rev (map (\<lambda>x. (qo_occurrenceId x, x)) os)) =
        map_of (map (\<lambda>x. (qo_occurrenceId x, x)) os)"
    using assms by (subst map_of_inject_set) (simp_all add: occ_ids_def comp_def rev_map [symmetric])
  moreover have "map_of (map (\<lambda>x. (qo_occurrenceId x, x)) os) i =
                 find (\<lambda>x. qo_occurrenceId x = i) os"
    by (induction os) auto
  ultimately show ?thesis by simp
qed

lemma those_find:
  assumes "distinct (occ_ids os)"
    and "those (map (map_of (rev (map (\<lambda>x. (qo_occurrenceId x, x)) os))) order) = Some ys"
  shows "occ_ids ys = order \<and> set ys \<subseteq> set os"
  using assms(2)
proof (induction order arbitrary: ys)
  case (Cons i order)
  then show ?case
    by (auto simp: map_of_ids [OF assms(1)] occ_ids_def dest!: find_Some_set split: option.splits)
qed (simp add: occ_ids_def)

lemma reordered_perm:
  assumes core: "queue_core q" and ok: "reordered q order = Some ys"
    and len: "length order = length (qe_occurrences q)" and d: "distinct order"
  shows "mset ys = mset (qe_occurrences q) \<and> occ_ids ys = order"
proof -
  have do: "distinct (occ_ids (qe_occurrences q))"
    using core by (simp add: queue_core_def)
  have ids: "occ_ids ys = order" and sub: "set ys \<subseteq> set (qe_occurrences q)"
    using those_find [OF do] ok by (auto simp: reordered_def)
  have dys: "distinct ys" and dos: "distinct (qe_occurrences q)"
    using d ids do by (auto simp: occ_ids_def distinct_map)
  moreover have "length ys = length (qe_occurrences q)"
    using ids len by (metis length_map occ_ids_def)
  ultimately have "set ys = set (qe_occurrences q)"
    using sub by (metis card_subset_eq List.finite_set distinct_card)
  then show ?thesis
    using dys dos ids by (simp add: set_eq_iff_mset_eq_distinct)
qed

lemma step_reorder:
  assumes core: "queue_core q"
  shows "queue_step q (queue_reorder order q)"
  unfolding queue_reorder_def using reordered_perm [OF core, of order]
  by (auto intro!: inv_intros step_permuted core split: option.splits)

lemma step_setSelectedRef:
  assumes core: "queue_core q"
  shows "queue_step q (setSelectedRef i r q)"
  unfolding setSelectedRef_def
proof (rule step_requireIndex)
  fix k assume idx: "queue_indexOf q i = Some k"
  let ?os = "qe_occurrences q"
  let ?x = "(?os ! k)\<lparr>qo_selectedRef := r\<rparr>"
  have k: "k < length ?os"
    using indexOf_Some [OF idx] by simp
  have ids: "occ_ids (?os[k := ?x]) = occ_ids ?os"
    using k by (auto simp: occ_ids_def map_update intro!: nth_equalityI simp: nth_list_update)
  have "queue_step q (returns () (queue_tick (q\<lparr>qe_occurrences := ?os[k := ?x]\<rparr>)))"
    if valid: "\<not> (case r of None \<Rightarrow> False | Some r \<Rightarrow> \<not> isSourceRef (ref_val r))"
      and new: "qo_selectedRef (?os ! k) \<noteq> r" and room: "qe_revision q < max_safe"
  proof (rule step_tick [OF room])
    have "occurrence_ok (?os ! k)"
      using core k by (simp add: queue_core_def)
    then have "occurrence_ok ?x"
      using valid by (auto simp: occurrence_ok_def validateOccurrence_def split: if_splits)
    then show "queue_core (q\<lparr>qe_occurrences := ?os[k := ?x]\<rparr>)"
      using core ids set_update_subset_insert [of ?os k ?x]
      by (auto simp: queue_core_def cursor_ok_def split: option.splits)
    have "?os[k := ?x] ! k \<noteq> ?os ! k"
      using k new by (metis nth_list_update_eq queueOccurrence.select_convs(3) queueOccurrence.surjective
          queueOccurrence.update_convs(3))
    then show "queue_content (q\<lparr>qe_occurrences := ?os[k := ?x]\<rparr>) \<noteq> queue_content q"
      by (auto simp: content_eq_iff)
  qed (simp add: same_books_def)
  then show "queue_step q
      (if (case r of None \<Rightarrow> False | Some r \<Rightarrow> \<not> isSourceRef (ref_val r)) then
         throws (TypeError ''ref must be null or a valid SourceRef'') q
       else let existing = ?os ! k
            in if sameRef (qo_selectedRef existing) r then returns () q
               else requireTick q
                 (returns () (queue_tick (q\<lparr>qe_occurrences :=
                    ?os[k := existing\<lparr>qo_selectedRef := r\<rparr>]\<rparr>))))"
    by (auto simp: Let_def intro!: inv_intros)
qed

lemma current_mode:
  "queue_core q \<Longrightarrow> qe_currentId q = Some c \<Longrightarrow> qe_mode q \<noteq> Stopped"
  by (simp add: queue_core_def cursor_ok_def)

lemma step_play:
  assumes core: "queue_core q"
  shows "queue_step q (queue_play q)"
proof (cases "qe_currentId q")
  case (Some cur)
  have "queue_step q (returns () (queue_apply (Some cur) (qe_positionMs q) Playing (unflag cur q)))"
    if "\<not> (qe_mode q = Playing \<and> qe_blockedError q = None)" "qe_revision q < max_safe"
  proof (rule cleared_step)
    show "queue_content ((unflag cur q)\<lparr>qe_currentId := Some cur, qe_positionMs := qe_positionMs q,
            qe_mode := Playing, qe_blockedError := None\<rparr>) \<noteq> queue_content q"
      (is "queue_content ?r \<noteq> _")
    proof
      assume "queue_content ?r = queue_content q"
      then have "qe_mode q = Playing \<and> qe_blockedError q = None"
        by (simp add: content_eq_iff)
      with that(1) show False ..
    qed
    show "qe_positionMs q \<le> max_safe" "queue_core (unflag cur q)"
      using core queue_core_unflag by (simp_all add: queue_core_def)
  qed (use that core_member_ids [OF core Some] in simp_all)
  then show ?thesis
    by (simp add: queue_play_def Some step_same step_requireTick)
qed (simp add: queue_play_def step_same)

lemma step_pause:
  assumes core: "queue_core q"
  shows "queue_step q (queue_pause q)"
  using core unfolding queue_pause_def
  by (auto intro!: inv_intros step_tick simp: content_eq_iff same_books_def queue_core_def
      cursor_ok_def split: option.splits)

lemma step_seekTo:
  assumes core: "queue_core q"
  shows "queue_step q (seekTo ms q)"
  using core unfolding seekTo_def
  by (auto intro!: inv_intros step_requirePosition step_tick simp: content_eq_iff same_books_def
      queue_core_def cursor_ok_def)

lemma step_block:
  assumes core: "queue_core q"
  shows "queue_step q (blockCurrent err unplayable q)"
proof (cases "qe_currentId q")
  case (Some i)
  let ?q = "q\<lparr>qe_mode := Paused, qe_blockedError := Some err,
              qe_unplayable := (if unplayable then insert i (qe_unplayable q) else qe_unplayable q)\<rparr>"
  have "queue_step q (returns () (queue_tick ?q))"
    if "\<not> (qe_mode q = Paused \<and> qe_blockedError q = Some err \<and> (\<not> unplayable \<or> i \<in> qe_unplayable q))"
      "qe_revision q < max_safe"
  proof (rule step_tick)
    show "queue_core ?q"
      using core Some core_member_ids [OF core Some] by (auto simp: queue_core_def cursor_ok_def)
    show "queue_content ?q \<noteq> queue_content q"
    proof
      assume "queue_content ?q = queue_content q"
      then have "qe_mode q = Paused \<and> qe_blockedError q = Some err \<and> (\<not> unplayable \<or> i \<in> qe_unplayable q)"
        by (cases unplayable) (auto simp: content_eq_iff)
      with that(1) show False ..
    qed
  qed (use that in \<open>simp_all add: same_books_def\<close>)
  then show ?thesis
    by (simp add: blockCurrent_def Some step_same step_requireTick)
qed (simp add: blockCurrent_def step_same)

lemma step_reconcile_to:
  assumes core: "queue_core q" and n: "n \<le> max_safe"
    and mem: "\<And>i. occurrenceId = Some i \<Longrightarrow> i \<in> set (occ_ids (qe_occurrences q))"
  shows "queue_step q (reconcile_to occurrenceId n playing q)"
proof -
  let ?m = "if occurrenceId = None then Stopped else if playing then Playing else Paused"
  let ?p = "if occurrenceId = None then 0 else n"
  let ?q = "case occurrenceId of Some i \<Rightarrow> if playing then unflag i q else q | None \<Rightarrow> q"
  let ?same = "qe_currentId q = occurrenceId \<and> qe_positionMs q = ?p \<and> qe_mode q = ?m \<and>
               qe_blockedError q = None"
  have "queue_step q (returns () (queue_apply occurrenceId ?p ?m ?q))"
    if "\<not> ?same" "qe_revision q < max_safe"
  proof (rule cleared_step)
    show "queue_content (?q\<lparr>qe_currentId := occurrenceId, qe_positionMs := ?p, qe_mode := ?m,
            qe_blockedError := None\<rparr>) \<noteq> queue_content q" (is "queue_content ?r \<noteq> _")
    proof
      assume "queue_content ?r = queue_content q"
      then have ?same by (cases occurrenceId; cases playing) (auto simp: content_eq_iff)
      with that(1) show False ..
    qed
    show "queue_core ?q"
      using core by (simp add: queue_core_unflag split: option.splits)
    show "case occurrenceId of None \<Rightarrow> ?p = 0 \<and> ?m = Stopped
          | Some i \<Rightarrow> i \<in> set (occ_ids (qe_occurrences ?q)) \<and> ?m \<noteq> Stopped"
      using mem by (auto split: option.splits)
  qed (use that n in \<open>auto split: option.splits\<close>)
  moreover have "(case occurrenceId of
        Some i \<Rightarrow> if playing then unflag i (queue_apply occurrenceId ?p ?m q)
                  else queue_apply occurrenceId ?p ?m q
      | None \<Rightarrow> queue_apply occurrenceId ?p ?m q) = queue_apply occurrenceId ?p ?m ?q"
    by (simp add: unflag_apply split: option.splits)
  ultimately show ?thesis
    unfolding reconcile_to_def Let_def by (auto intro!: inv_intros)
qed

lemma step_reconcile:
  assumes core: "queue_core q"
  shows "queue_step q (reconcileNativeCurrent i ms playing q)"
  unfolding reconcileNativeCurrent_def
  by (auto intro!: step_requirePosition step_requireIndex step_reconcile_to core
      dest: indexOf_member split: option.splits)

lemma step_restorePaused:
  assumes core: "queue_core q"
  shows "queue_step q (restorePaused q)"
proof -
  let ?m = "if qe_currentId q = None then Stopped else Paused"
  have "queue_step q (returns () (queue_apply (qe_currentId q) (qe_positionMs q) ?m q))"
    if "\<not> (?m = qe_mode q \<and> qe_blockedError q = None)" "qe_revision q < max_safe"
  proof (rule cleared_step)
    show "queue_content (q\<lparr>qe_currentId := qe_currentId q, qe_positionMs := qe_positionMs q,
            qe_mode := ?m, qe_blockedError := None\<rparr>) \<noteq> queue_content q"
      using that(1) by (cases "qe_currentId q") (auto simp: content_eq_iff)
  qed (use that core core_member_ids [OF core] in
      \<open>auto simp: queue_core_def cursor_ok_def split: option.splits\<close>)
  then show ?thesis
    by (simp add: restorePaused_def Let_def step_same step_requireTick)
qed

lemma step_exec:
  assumes "queue_core q" "\<And>ms. c \<noteq> ObservePosition ms" "c \<noteq> TakeSnapshot"
  shows "queue_step q (queue_exec c q)"
  using assms(1,3) assms(2) [of "case c of ObservePosition ms \<Rightarrow> ms | _ \<Rightarrow> NaN"]
  by (cases c)
    (simp_all add: step_enqueue step_select step_next step_stop step_clear step_setOrigin
      step_clearExceptCurrent step_previous step_remove step_move step_reorder step_setSelectedRef
      step_play step_pause step_seekTo markFailed_def markUnplayable_def step_block step_reconcile
      step_restorePaused)

section \<open>Caches\<close>

lemma jnat_inj [simp]: "jnat a = jnat b \<longleftrightarrow> a = b"
  by simp

lemma fresh_fields:
  "fresh_snapshot q = (fresh_snapshot r)\<lparr>qs_positionMs := qs_positionMs (fresh_snapshot q)\<rparr>"
  if "qe_revision q = qe_revision r" "qe_occurrences q = qe_occurrences r"
    "qe_currentId q = qe_currentId r" "qe_mode q = qe_mode r"
    "qe_blockedError q = qe_blockedError r" "qe_origin q = qe_origin r"
  using that by (simp add: fresh_snapshot_def)

lemma rebuild_fresh:
  "occurrence_cache_ok q \<Longrightarrow>
     rebuild_snapshot q =
       (fresh_snapshot q, q\<lparr>qe_occurrenceCache := Some (qe_revision q, qe_occurrences q),
                            qe_snapshotCache := Some (fresh_snapshot q)\<rparr>)"
  by (auto simp: rebuild_snapshot_def occurrence_cache_ok_def fresh_snapshot_def Let_def
      split: option.splits)

lemma cached_fresh:
  assumes "snapshot_cache_ok q" "qe_snapshotCache q = Some s"
    "qs_revision s = jnat (qe_revision q)" "qs_positionMs s = jnat (qe_positionMs q)"
  shows "s = fresh_snapshot q"
  using assms by (simp add: snapshot_cache_ok_def) (simp add: fresh_snapshot_def)

lemma snapshot_fresh: "queue_inv q \<Longrightarrow> fst (queue_snapshot q) = fresh_snapshot q"
  unfolding queue_snapshot_def queue_inv_def
  by (auto simp: rebuild_fresh dest: cached_fresh split: option.splits)

lemma snapshot_keeps:
  assumes "queue_inv q"
  shows "queue_inv (snd (queue_snapshot q))"
    and "queue_content (snd (queue_snapshot q)) = queue_content q"
    and "qe_revision (snd (queue_snapshot q)) = qe_revision q"
proof -
  let ?q = "q\<lparr>qe_occurrenceCache := Some (qe_revision q, qe_occurrences q),
              qe_snapshotCache := Some (fresh_snapshot q)\<rparr>"
  have fresh: "fresh_snapshot ?q = fresh_snapshot q"
    by (simp add: fresh_snapshot_def)
  have "snd (queue_snapshot q) \<in> {q, ?q}"
    using assms unfolding queue_snapshot_def queue_inv_def
    by (auto simp: rebuild_fresh split: option.splits)
  moreover have "snapshot_cache_ok ?q"
    using fresh by (auto simp: snapshot_cache_ok_def) (simp_all add: fresh_snapshot_def)
  moreover have "occurrence_cache_ok ?q"
    by (simp add: occurrence_cache_ok_def)
  moreover have "queue_core ?q"
    using assms by (simp add: queue_inv_def queue_core_def cursor_ok_def cong: option.case_cong)
  ultimately show "queue_inv (snd (queue_snapshot q))"
    "queue_content (snd (queue_snapshot q)) = queue_content q"
    "qe_revision (snd (queue_snapshot q)) = qe_revision q"
    using assms by (auto simp: queue_inv_def content_eq_iff)
qed

text \<open>A tick invalidates both caches; an observed position invalidates neither of the fields they hold.\<close>

lemma queue_core_tick: "queue_core (queue_tick q) = queue_core q"
  by (simp add: queue_core_def cursor_ok_def queue_tick_def cong: option.case_cong)

lemma tick_inv:
  assumes inv: "queue_inv q" and books: "same_books q q'" and room: "qe_revision q < max_safe"
    and core: "queue_core q'"
  shows "queue_inv (queue_tick q')"
proof -
  have "occurrence_cache_ok (queue_tick q')"
    using inv books by (auto simp: queue_inv_def occurrence_cache_ok_def same_books_def queue_tick_def
        split: option.splits)
  moreover have "snapshot_cache_ok (queue_tick q')"
    using inv books by (auto simp: queue_inv_def snapshot_cache_ok_def same_books_def queue_tick_def
        split: option.splits)
  ultimately show ?thesis
    using room books core by (simp add: queue_inv_def queue_core_tick)
      (simp add: queue_tick_def same_books_def)
qed

lemma observe_inv:
  assumes inv: "queue_inv q" and n: "n \<le> max_safe" and cur: "qe_currentId q \<noteq> None"
  shows "queue_inv (q\<lparr>qe_positionMs := n\<rparr>)"
proof -
  have "snapshot_cache_ok (q\<lparr>qe_positionMs := n\<rparr>)"
    using inv by (simp add: queue_inv_def snapshot_cache_ok_def fresh_snapshot_def split: option.splits)
  moreover have "occurrence_cache_ok (q\<lparr>qe_positionMs := n\<rparr>)"
    using inv by (auto simp: queue_inv_def occurrence_cache_ok_def split: option.splits)
  ultimately show ?thesis
    using inv n cur by (auto simp: queue_inv_def queue_core_def cursor_ok_def split: option.splits)
qed

lemma observe_result:
  "observePosition ms q \<in> {throws (TypeError ''positionMs must be a safe nonnegative integer'') q,
     returns () q} \<or>
   (\<exists>n\<le>max_safe. qe_currentId q \<noteq> None \<and> observePosition ms q = returns () (q\<lparr>qe_positionMs := n\<rparr>))"
  by (auto simp: observePosition_def requirePosition_def dest: safe_nat_bound split: option.splits)

section \<open>The machine\<close>

lemma exec_cases:
  assumes "queue_core q"
  obtains (thrown) e where "queue_exec c q = throws e q"
  | (same) "queue_exec c q = returns () q"
  | (ticked) q' where "queue_exec c q = returns () (queue_tick q')" "same_books q q'"
      "qe_revision q < max_safe" "queue_content q' \<noteq> queue_content q" "queue_core q'"
  | (observed) ms n where "c = ObservePosition ms" "n \<le> max_safe" "qe_currentId q \<noteq> None"
      "queue_exec c q = returns () (q\<lparr>qe_positionMs := n\<rparr>)"
  | (taken) "c = TakeSnapshot" "queue_exec c q = returns () (snd (queue_snapshot q))"
proof -
  consider (obs) ms where "c = ObservePosition ms" | (snap) "c = TakeSnapshot"
    | (other) "\<And>ms. c \<noteq> ObservePosition ms" "c \<noteq> TakeSnapshot"
    by blast
  then show thesis
  proof cases
    case obs
    then show thesis
      using observe_result [of ms q] that(1,2,4) by auto
  next
    case other
    then show thesis
      using step_exec [OF assms other] that(1-3) unfolding queue_step_def by blast
  qed (use that(5) in simp)
qed

interpretation queue: atomic_machine queue_exec queue_inv qe_revision
proof
  fix c q
  show "snd (queue_exec c q) = q" if t: "threw (queue_exec c q)"
    using t
    by (cases c)
      (auto simp: op_defs Let_def requireTick_def requireIndex_def requirePosition_def threw_def
        split: option.splits if_splits)
next
  fix c q
  assume inv: "queue_inv q"
  then have core: "queue_core q" by (simp add: queue_inv_def)
  show "queue_inv (snd (queue_exec c q))"
    using core by (cases rule: exec_cases [where c = c])
      (simp_all add: inv tick_inv [OF inv] observe_inv snapshot_keeps)
  show "qe_revision q \<le> qe_revision (snd (queue_exec c q))"
    using core by (cases rule: exec_cases [where c = c])
      (simp_all add: inv snapshot_keeps same_books_def queue_tick_def)
qed

end
