(* ===== verification/QueueTheorems.thy ===== *)
theory QueueTheorems
  imports QueueLaws
begin

text \<open>
  The properties of the playback queue: every reachable queue is legal, a command ticks the
  revision exactly when it changes something, snapshots are never stale, a fork is the queue,
  \<open>next()\<close> lands where it should, reorders are permutations, and what the wire guard makes of
  a snapshot.
\<close>

section \<open>Construction\<close>

lemma check_occurrences_ok:
  "check_occurrences ids os = None \<longleftrightarrow>
     (\<forall>x\<in>set os. occurrence_ok x) \<and> distinct (occ_ids os) \<and> set (occ_ids os) \<inter> ids = {}"
  by (induction os arbitrary: ids)
    (auto simp: occurrence_ok_def occ_ids_def split: option.splits)

lemma mode_of_str_mode [simp]: "mode_of_str (mode_str m) = Some m"
  by (cases m) (simp_all add: mode_of_str_def)

lemma constructed_inv:
  assumes "newQueueEngine initial unplayable = Inr q"
  shows "queue_inv q"
proof -
  define s where "s = (case initial of None \<Rightarrow> empty_snapshot | Some s \<Rightarrow> s)"
  obtain revision positionMs mode where ok: "safe_nat (qs_revision s) = Some revision"
      "safe_nat (qs_positionMs s) = Some positionMs" "mode_of_str (qs_mode s) = Some mode"
      "check_occurrences {} (qs_occurrences s) = None"
    using assms unfolding newQueueEngine_def Let_def s_def [symmetric]
    by (auto split: option.splits)
  show ?thesis
    using assms ok safe_nat_bound [OF ok(1)] safe_nat_bound [OF ok(2)]
    unfolding newQueueEngine_def Let_def s_def [symmetric]
    by (auto simp: queue_inv_def queue_core_def cursor_ok_def check_occurrences_ok
        occurrence_cache_ok_def snapshot_cache_ok_def split: if_splits option.splits)
qed

lemma fresh_constructs:
  assumes inv: "queue_inv q" and marks: "qe_unplayable q \<subseteq> u"
  shows "newQueueEngine (Some (fresh_snapshot q)) u =
           Inr (q\<lparr>qe_unplayable := u \<inter> set (occ_ids (qe_occurrences q)),
                  qe_occurrenceCache := None, qe_snapshotCache := None\<rparr>)"
proof -
  have "check_occurrences {} (qe_occurrences q) = None"
    using inv by (simp add: check_occurrences_ok queue_inv_def queue_core_def)
  then show ?thesis
    using inv by (cases q) (auto simp: newQueueEngine_def fresh_snapshot_def Let_def queue_inv_def
        queue_core_def cursor_ok_def split: option.splits)
qed

section \<open>Properties\<close>

text \<open>C16: Whatever public methods are called on a queue the constructor accepted, with whatever
  arguments and however many of them throw, the queue stays legal: the revision and position
  are safe integers, the occurrences are valid with distinct ids, the cursor is a member with a
  mode that is not stopped or there is none and the queue rests at zero, an error blocks only a
  paused current row, and the failed marks belong to members.\<close>

theorem queue_stays_legal:
  assumes "newQueueEngine initial unplayable = Inr q"
  shows "queue_inv (run_calls queue_exec cs q)"
  by (rule queue.run_keeps) (rule constructed_inv [OF assms])

text \<open>C17: Ticks are atomic and exact. A command that throws leaves the queue as it was; any other
  command, an observed position aside, either changes nothing but caches or changes the queue and
  raises the revision by exactly one.\<close>

theorem queue_ticks_exactly_on_change:
  assumes inv: "queue_inv q" and c: "\<not> (\<exists>ms. c = ObservePosition ms)"
    and run: "queue_exec c q = (res, q')"
  shows "(case res of Inl e \<Rightarrow> q' = q
          | Inr _ \<Rightarrow> qe_revision q' =
              (if queue_content q' = queue_content q then qe_revision q else Suc (qe_revision q)))"
proof -
  have core: "queue_core q" using inv by (simp add: queue_inv_def)
  show ?thesis
    using core
  proof (cases rule: exec_cases [where c = c])
    case (ticked p)
    then have "queue_content q' = queue_content p" "qe_revision q' = Suc (qe_revision q)"
      using run by (auto simp: content_eq_iff queue_tick_def same_books_def)
    then show ?thesis using ticked run by auto
  next
    case taken
    then show ?thesis using run snapshot_keeps [OF inv] by auto
  qed (use run c in auto)
qed

text \<open>Snapshots are never stale: after any calls, and through both caches (the occurrence
  clones kept per revision, the last snapshot kept per revision and position), \<open>snapshot()\<close>
  returns exactly what the fields of the queue say now.\<close>

theorem queue_snapshot_is_current:
  assumes "newQueueEngine initial unplayable = Inr q"
  shows "fst (queue_snapshot (run_calls queue_exec cs q)) = fresh_snapshot (run_calls queue_exec cs q)"
  by (rule snapshot_fresh [OF queue.run_keeps [OF constructed_inv [OF assms]]])

text \<open>A fork is the queue: rebuilding an engine from its own snapshot and failed marks never
  throws and gives the same revision, members, cursor, position, mode, error, origin and marks,
  with empty caches. In particular the constructor accepts every snapshot the engine emits.\<close>

theorem queue_fork_is_copy:
  assumes inv: "queue_inv q"
  shows "fst (queue_fork q) = Inr (q\<lparr>qe_occurrenceCache := None, qe_snapshotCache := None\<rparr>)"
proof -
  have "qe_unplayable (snd (queue_snapshot q)) = qe_unplayable q"
    using snapshot_keeps(2) [OF inv] by (simp add: content_eq_iff)
  moreover have "qe_unplayable q \<subseteq> set (occ_ids (qe_occurrences q))"
    using inv by (simp add: queue_inv_def queue_core_def)
  moreover have "q\<lparr>qe_unplayable := qe_unplayable q, qe_occurrenceCache := None,
                   qe_snapshotCache := None\<rparr> = q\<lparr>qe_occurrenceCache := None, qe_snapshotCache := None\<rparr>"
    by simp
  ultimately show ?thesis
    using fresh_constructs [OF inv order_refl] snapshot_fresh [OF inv]
    by (simp add: queue_fork_def split_beta Int_absorb2)
qed

lemma find_first:
  "find P xs = Some x \<longleftrightarrow>
     (\<exists>j<length xs. x = xs ! j \<and> P (xs ! j) \<and> (\<forall>i<j. \<not> P (xs ! i)))"
  by (auto simp: find_Some_iff)

text \<open>\<open>next()\<close> from the cursor row at index \<open>k\<close> lands on the first later row without a failed
  mark, at position 0, playing if it was playing and paused otherwise; with no such row left the
  queue ends: no cursor, stopped. It never wraps around and never touches the members.\<close>

theorem queue_next_lands:
  assumes inv: "queue_inv q" and cur: "qe_currentId q = Some cur"
    and room: "qe_revision q < max_safe" and idx: "queue_indexOf q cur = Some k"
    and run: "queue_next q = (res, q')"
    and later_def: "later = filter (\<lambda>x. qo_occurrenceId x \<notin> qe_unplayable q) (drop (Suc k) (qe_occurrences q))"
  shows "qe_occurrences q' = qe_occurrences q \<and> qe_unplayable q' = qe_unplayable q \<and>
         qe_positionMs q' = 0 \<and> qe_blockedError q' = None \<and>
         (case later of
            [] \<Rightarrow> qe_currentId q' = None \<and> qe_mode q' = Stopped
          | x # _ \<Rightarrow> qe_currentId q' = Some (qo_occurrenceId x) \<and>
                     qe_mode q' = (if qe_mode q = Playing then Playing else Paused))"
proof -
  have find_filter: "find P xs = (case filter P xs of [] \<Rightarrow> None | y # _ \<Rightarrow> Some y)" for P and xs :: "queueOccurrence list"
    by (induction xs) auto
  have "next_playable q cur = (case later of [] \<Rightarrow> None | y # _ \<Rightarrow> Some y)"
    by (simp add: next_playable_def idx find_filter later_def)
  then show ?thesis
    using run room unfolding queue_next_def cur
    by (auto simp: requireTick_def queue_apply_def queue_tick_def resumed_mode_def split: list.splits)
qed

text \<open>A successful \<open>reorder(order)\<close> puts the members exactly in the order asked for and
  neither loses, duplicates nor alters one; cursor, position, mode and marks stay.\<close>

theorem queue_reorder_permutes:
  assumes inv: "queue_inv q" and run: "queue_reorder order q = (Inr u, q')"
  shows "occ_ids (qe_occurrences q') = order \<and>
         mset (qe_occurrences q') = mset (qe_occurrences q) \<and>
         qe_currentId q' = qe_currentId q \<and> qe_positionMs q' = qe_positionMs q \<and>
         qe_mode q' = qe_mode q \<and> qe_unplayable q' = qe_unplayable q"
proof -
  have core: "queue_core q" using inv by (simp add: queue_inv_def)
  show ?thesis
    using run reordered_perm [OF core, of order]
    by (auto simp: queue_reorder_def requireTick_def queue_tick_def split: if_splits option.splits)
qed

text \<open>A successful \<open>move(id, toIndex)\<close> keeps every member and puts the moved one at the index
  asked for, clamped to the queue; the others keep their relative order.\<close>

theorem queue_move_places:
  assumes inv: "queue_inv q" and run: "queue_move i toIndex q = (Inr u, q')"
    and t: "safe_int toIndex = Some t"
  shows "mset (qe_occurrences q') = mset (qe_occurrences q) \<and>
         occ_ids (qe_occurrences q') ! clamp t (length (qe_occurrences q) - 1) = i \<and>
         filter (\<lambda>j. j \<noteq> i) (occ_ids (qe_occurrences q')) =
           filter (\<lambda>j. j \<noteq> i) (occ_ids (qe_occurrences q))"
proof -
  let ?os = "qe_occurrences q" let ?t = "clamp t (length ?os - 1)"
  obtain k where idx: "queue_indexOf q i = Some k"
    using run by (auto simp: queue_move_def requireIndex_def split: option.splits)
  have k: "k < length ?os" "qo_occurrenceId (?os ! k) = i"
    using indexOf_Some [OF idx] by simp_all
  then have tl: "?t < length ?os"
    by (intro clamp_less) auto
  consider "q' = q" "?t = k"
    | "qe_occurrences q' = splice_insert ?t (?os ! k) (splice_remove k ?os)"
    using run t by (auto simp: queue_move_def requireIndex_def idx requireTick_def Let_def
        queue_tick_def split: if_splits)
  then show ?thesis
  proof cases
    case 1
    then show ?thesis using k by (simp add: occ_ids_def)
  next
    case 2
    have "filter (\<lambda>j. j \<noteq> i) (occ_ids (splice_insert ?t (?os ! k) ys)) =
            filter (\<lambda>j. j \<noteq> i) (occ_ids ys)" for ys
      using k(2) by (simp add: occ_ids_def splice_insert_def)
        (metis append_take_drop_id filter_append map_append)
    moreover have "filter (\<lambda>j. j \<noteq> i) (occ_ids (splice_remove k ?os)) =
                     filter (\<lambda>j. j \<noteq> i) (occ_ids ?os)"
    proof -
      have "?os = take k ?os @ ?os ! k # drop (Suc k) ?os"
        using k(1) by (rule id_take_nth_drop)
      then have "occ_ids ?os = occ_ids (take k ?os) @ i # occ_ids (drop (Suc k) ?os)"
        using k(2) by (metis (no_types, lifting) occ_ids_def list.simps(9) map_append)
      then show ?thesis
        by (simp add: splice_remove_def occ_ids_def)
    qed
    moreover have "occ_ids (qe_occurrences q') ! ?t = i"
      using nth_splice_moved [OF k(1) tl] tl k 2
      by (simp add: occ_ids_def length_splice_remove)
    ultimately show ?thesis
      using 2 move_mset [OF k(1)] by simp
  qed
qed

section \<open>The wire guard of a snapshot\<close>

definition wire_occurrence :: "queueOccurrence \<Rightarrow> bool" where
  "wire_occurrence x =
     (length (qo_occurrenceId x) \<le> 64 \<and> length (qo_recordingId x) \<le> 64 \<and>
      (case qo_selectedRef x of None \<Rightarrow> True | Some r \<Rightarrow> ref_kind r = ''track''))"

lemma occurrence_val_ok:
  "occurrence_ok x \<Longrightarrow> wire_occurrence x \<Longrightarrow> isQueueOccurrence (occurrence_val x)"
  by (cases "qo_selectedRef x")
    (auto simp: occurrence_ok_def validateOccurrence_def wire_occurrence_def isQueueOccurrence_def
      occurrence_val_def hasExactKeys_def hasOwn_def nullable_def isTrackRef_def ref_val_def
      split: if_splits)

lemma occurrence_val_id [simp]: "propOf (occurrence_val x) ''occurrenceId'' = JStr (qo_occurrenceId x)"
  by (simp add: occurrence_val_def)

lemma error_val_ok:
  "(case ae_retryAfterMs e of None \<Rightarrow> True | Some n \<Rightarrow> n \<le> max_safe) \<Longrightarrow> isAppErrorLike (error_val e)"
  by (auto simp: isAppErrorLike_def error_val_def optional_def split: option.splits)

lemma mode_str_inj [simp]: "mode_str m = mode_str n \<longleftrightarrow> m = n"
  by (metis mode_of_str_mode option.inject)

lemma mode_str_cases: "mode_str m \<in> {''stopped'', ''paused'', ''playing''}"
  by (cases m) simp_all

text \<open>The snapshot of a legal queue passes the persistence guard \<open>isQueueSnapshot\<close>, provided
  its ids fit 64 code units, its selected refs are track refs and its error carries a safe wait:
  the three things the guard asks for and the engine does not.\<close>

theorem queue_snapshot_persistable:
  assumes inv: "queue_inv q" and wire: "list_all wire_occurrence (qe_occurrences q)"
    and wait: "case qe_blockedError q of None \<Rightarrow> True
               | Some e \<Rightarrow> (case ae_retryAfterMs e of None \<Rightarrow> True | Some n \<Rightarrow> n \<le> max_safe)"
  shows "isQueueSnapshot (snapshot_val (fst (queue_snapshot q)))"
proof -
  let ?s = "fresh_snapshot q" let ?v = "snapshot_val ?s"
  have core: "queue_core q" and rev: "qe_revision q \<le> max_safe"
    using inv by (simp_all add: queue_inv_def)
  have props: "propOf ?v ''revision'' = JNum (jnat (qe_revision q))"
    "propOf ?v ''occurrences'' = JArr (map occurrence_val (qe_occurrences q))"
    "propOf ?v ''currentOccurrenceId'' = (case qe_currentId q of None \<Rightarrow> JNull | Some i \<Rightarrow> JStr i)"
    "propOf ?v ''positionMs'' = JNum (jnat (qe_positionMs q))"
    "propOf ?v ''mode'' = JStr (mode_str (qe_mode q))"
    "propOf ?v ''blockedError'' = (case qe_blockedError q of None \<Rightarrow> JUndef | Some e \<Rightarrow> error_val e)"
    "propOf ?v ''origin'' = (case qe_origin q of None \<Rightarrow> JUndef | Some g \<Rightarrow> origin_val g)"
    by (auto simp: snapshot_val_def fresh_snapshot_def split: option.splits)
  have keys: "isRecord ?v" "hasKeys ?v
      [''revision'', ''occurrences'', ''currentOccurrenceId'', ''positionMs'', ''mode'']
      [''blockedError'', ''origin'']"
    by (auto simp: snapshot_val_def hasKeys_def hasOwn_def split: option.splits)
  have occs: "list_all isQueueOccurrence (map occurrence_val (qe_occurrences q))"
    using core wire by (auto simp: list_all_iff queue_core_def occurrence_val_ok)
  have ids: "map (\<lambda>v. propOf v ''occurrenceId'') (map occurrence_val (qe_occurrences q)) =
             map JStr (occ_ids (qe_occurrences q))"
    by (simp add: occ_ids_def)
  have dist: "distinct (map JStr (occ_ids (qe_occurrences q)))"
    using core by (auto simp: queue_core_def distinct_map inj_on_def)
  have blocked: "qe_blockedError q \<noteq> None \<Longrightarrow> isAppErrorLike (error_val (the (qe_blockedError q)))"
    using wait by (auto intro: error_val_ok)
  have origin: "qe_origin q \<noteq> None \<Longrightarrow> isQueueOrigin (origin_val (the (qe_origin q)))"
    using core by (auto simp: queue_core_def origin_ok_def)
  have scalars: "isSafeNonNegative (JNum (jnat (qe_revision q)))"
    "isSafeNonNegative (JNum (jnat (qe_positionMs q)))"
    using core rev by (simp_all add: queue_core_def)
  have "isQueueSnapshot ?v"
    unfolding isQueueSnapshot_def props
    using keys occs ids dist blocked origin scalars core mode_str_cases [of "qe_mode q"]
    by (auto simp: Let_def queue_core_def cursor_ok_def error_val_def
        mode_str_inj [of _ Stopped, simplified] mode_str_inj [of _ Paused, simplified]
        split: option.splits)
  then show ?thesis
    by (simp add: snapshot_fresh [OF inv])
qed

lemma occurrence_val_rejected:
  assumes "occurrence_ok x" "\<not> wire_occurrence x"
  shows "\<not> isQueueOccurrence (occurrence_val x)"
  using assms
  by (cases "qo_selectedRef x")
    (auto simp: occurrence_ok_def validateOccurrence_def wire_occurrence_def isQueueOccurrence_def
      occurrence_val_def nullable_def isTrackRef_def ref_val_def split: if_splits)

text \<open>C18: The engine checks less than the guard its snapshots must pass: an occurrence with an id
  over 64 code units, or with a selected ref that is an album, artist or playlist, is enqueued
  without an error, and from then on the snapshot is rejected by \<open>isQueueSnapshot\<close>, so the
  queue cannot be persisted.\<close>

theorem enqueue_can_break_persistence:
  assumes inv: "queue_inv q" and ok: "validateOccurrence x = None" and bad: "\<not> wire_occurrence x"
    and new: "qo_occurrenceId x \<notin> set (occ_ids (qe_occurrences q))"
    and room: "qe_revision q < max_safe"
    and run: "queue_enqueue x None q = (res, q')"
  shows "res = Inr () \<and> \<not> isQueueSnapshot (snapshot_val (fst (queue_snapshot q')))"
proof -
  have idx: "queue_indexOf q (qo_occurrenceId x) = None"
    using new by (simp add: indexOf_None)
  have q': "res = Inr ()" "x \<in> set (qe_occurrences q')"
    using run room by (auto simp: queue_enqueue_def ok idx requireTick_def Let_def queue_tick_def)
  have inv': "queue_inv q'"
    using queue.keeps [OF inv, of "Enqueue x None"] run by simp
  have "\<not> isQueueOccurrence (occurrence_val x)"
    using occurrence_val_rejected ok bad by (simp add: occurrence_ok_def)
  then have "\<not> list_all isQueueOccurrence (map occurrence_val (qe_occurrences q'))"
    using q'(2) by (auto simp: list_all_iff)
  moreover have "propOf (snapshot_val (fresh_snapshot q')) ''occurrences'' =
                 JArr (map occurrence_val (qe_occurrences q'))"
    by (simp add: snapshot_val_def fresh_snapshot_def)
  ultimately show ?thesis
    using q'(1) by (simp add: isQueueSnapshot_def snapshot_fresh [OF inv'])
qed

section \<open>Instances\<close>

definition sample_ref :: sourceRef where
  "sample_ref = \<lparr>ref_provider = ''yt'', ref_kind = ''track'', ref_id = ''v1''\<rparr>"

definition sample_row :: "string \<Rightarrow> queueOccurrence" where
  "sample_row i = \<lparr>qo_occurrenceId = i, qo_recordingId = ''r'' @ i, qo_selectedRef = Some sample_ref\<rparr>"

definition sample_queue_snapshot :: queueSnapshot where
  "sample_queue_snapshot =
     \<lparr>qs_revision = jnat 4, qs_occurrences = [sample_row ''a'', sample_row ''b'', sample_row ''c''],
      qs_currentOccurrenceId = Some ''a'', qs_positionMs = jnat 1000, qs_mode = ''playing'',
      qs_blockedError = None, qs_origin = Some (FromCollection ''liked'')\<rparr>"

definition sample_queue :: queueEngine where
  "sample_queue =
     \<lparr>qe_revision = 4, qe_occurrences = [sample_row ''a'', sample_row ''b'', sample_row ''c''],
      qe_currentId = Some ''a'', qe_positionMs = 1000, qe_mode = Playing, qe_blockedError = None,
      qe_origin = Some (FromCollection ''liked''), qe_unplayable = {''b''},
      qe_occurrenceCache = None, qe_snapshotCache = None\<rparr>"

definition album_row :: queueOccurrence where
  "album_row = \<lparr>qo_occurrenceId = ''d'', qo_recordingId = ''rd'',
                qo_selectedRef = Some \<lparr>ref_provider = ''yt'', ref_kind = ''album'', ref_id = ''v2''\<rparr>\<rparr>"

lemmas sample_defs = sample_ref_def sample_row_def sample_queue_snapshot_def sample_queue_def
  album_row_def

lemma sample_guards:
  "validateOccurrence (sample_row [c]) = None" "validateOccurrence album_row = None"
  "origin_ok (Some (FromCollection ''liked''))"
  by (simp_all add: validateOccurrence_def sample_defs isSourceRef_def ref_val_def hasExactKeys_def
      hasOwn_def SOURCE_REF_KINDS_def origin_ok_def isQueueOrigin_def QUEUE_ORIGIN_COLLECTIONS_def)

lemma sample_constructs:
  "newQueueEngine (Some sample_queue_snapshot) {''b'', ''z''} = Inr sample_queue"
  using sample_guards(1) sample_guards(3)
  by (auto simp: newQueueEngine_def sample_queue_snapshot_def sample_queue_def mode_of_str_def
      occ_ids_def sample_row_def Let_def safe_nat_def safe_int_def)

lemma sample_inv: "queue_inv sample_queue"
  by (rule constructed_inv [OF sample_constructs])

theorem queue_stays_legal_witness:
  "queue_inv (run_calls queue_exec [Next, Next, Play] sample_queue)"
  by (rule queue_stays_legal [OF sample_constructs])

theorem queue_ticks_exactly_on_change_witness:
  "qe_revision (snd (queue_exec Stop sample_queue)) = 5"
proof -
  have "queue_exec Stop sample_queue = (Inr (), queue_apply None 0 Stopped sample_queue)"
    by (simp add: queue_stop_def requireTick_def sample_queue_def)
  then show ?thesis
    using queue_ticks_exactly_on_change [OF sample_inv, of Stop "Inr ()"
        "queue_apply None 0 Stopped sample_queue"]
    by (simp add: queue_apply_def queue_tick_def content_eq_iff sample_queue_def)
qed

theorem queue_snapshot_is_current_witness:
  "qs_currentOccurrenceId (fst (queue_snapshot (run_calls queue_exec [TakeSnapshot, Next] sample_queue))) =
     Some ''c''"
  unfolding queue_snapshot_is_current [OF sample_constructs, of "[TakeSnapshot, Next]"]
  by (simp add: fresh_snapshot_def queue_snapshot_def rebuild_snapshot_def sample_queue_def Let_def
      queue_next_def requireTick_def next_playable_def queue_indexOf_def sample_row_def
      queue_apply_def queue_tick_def)

theorem queue_fork_is_copy_witness: "fst (queue_fork sample_queue) = Inr sample_queue"
  using queue_fork_is_copy [OF sample_inv] by (simp add: sample_queue_def)

lemma sample_next:
  "queue_next sample_queue = (Inr (), queue_apply (Some ''c'') 0 Playing sample_queue)"
  by (simp add: queue_next_def requireTick_def next_playable_def queue_indexOf_def sample_queue_def
      sample_row_def resumed_mode_def)

theorem queue_next_lands_witness:
  "qe_currentId (queue_apply (Some ''c'') 0 Playing sample_queue) = Some ''c''"
  using queue_next_lands [OF sample_inv _ _ _ sample_next, of "''a''" 0 "[sample_row ''c'']"]
  by (simp add: sample_queue_def queue_indexOf_def sample_row_def)

definition reversed_queue :: queueEngine where
  "reversed_queue = sample_queue\<lparr>qe_revision := 5,
     qe_occurrences := [sample_row ''c'', sample_row ''b'', sample_row ''a'']\<rparr>"

theorem queue_reorder_permutes_witness:
  "occ_ids (qe_occurrences reversed_queue) = [''c'', ''b'', ''a'']"
proof -
  have "queue_reorder [''c'', ''b'', ''a''] sample_queue = (Inr (), reversed_queue)"
    by (simp add: queue_reorder_def reordered_def sample_queue_def sample_row_def requireTick_def
        queue_tick_def reversed_queue_def)
  then show ?thesis
    using queue_reorder_permutes [OF sample_inv] by blast
qed

definition moved_queue :: queueEngine where
  "moved_queue = sample_queue\<lparr>qe_revision := 5,
     qe_occurrences := [sample_row ''b'', sample_row ''c'', sample_row ''a'']\<rparr>"

theorem queue_move_places_witness:
  "occ_ids (qe_occurrences moved_queue) ! 2 = ''a''"
proof -
  have "queue_move ''a'' (jint 9) sample_queue = (Inr (), moved_queue)"
    by (simp add: queue_move_def requireIndex_def queue_indexOf_def sample_queue_def sample_row_def
        safe_int_def clamp_def requireTick_def queue_tick_def splice_insert_def splice_remove_def
        moved_queue_def)
  then show ?thesis
    using queue_move_places [OF sample_inv, of "''a''" "jint 9" "()" moved_queue 9]
    by (simp add: safe_int_def clamp_def sample_queue_def)
qed

theorem queue_snapshot_persistable_witness:
  "isQueueSnapshot (snapshot_val (fst (queue_snapshot sample_queue)))"
  by (rule queue_snapshot_persistable [OF sample_inv])
    (simp_all add: sample_queue_def sample_row_def sample_ref_def wire_occurrence_def)

theorem enqueue_can_break_persistence_witness:
  "\<not> isQueueSnapshot (snapshot_val (fst (queue_snapshot (snd (queue_enqueue album_row None sample_queue)))))"
  using enqueue_can_break_persistence [OF sample_inv sample_guards(2), of
      "fst (queue_enqueue album_row None sample_queue)"
      "snd (queue_enqueue album_row None sample_queue)"]
  by (simp add: wire_occurrence_def album_row_def occ_ids_def sample_queue_def sample_row_def)

end
