(* ===== verification/Playlists.thy ===== *)
theory Playlists
  imports QueueEngine Doubles
begin

text \<open>
  Playlists: \<open>packages/application/src/library/playlists.ts\<close>. Both sections form one state, and
  every use case maps a state to the next one or throws. Positions are JavaScript numbers, so
  the appended \<open>last + 1\<close>, the head \<open>first - 1\<close> and the midpoint are rounded to doubles and the
  fallback to integer positions is reachable.
\<close>

section \<open>Data\<close>

record playlist =
  pl_playlistId :: string
  pl_name :: string
  pl_createdMs :: nat
  pl_updatedMs :: nat

record playlistEntry =
  pe_entryId :: string
  pe_playlistId :: string
  pe_recordingId :: string
  pe_position :: jsnum
  pe_selectedRef :: "sourceRef option"
  pe_addedMs :: nat

record playlistState =
  ps_playlists :: "playlist list"
  ps_entries :: "playlistEntry list"

datatype entryMove = Before string | After string

definition playlist_val :: "playlist \<Rightarrow> jsval" where
  "playlist_val p =
     JObj [(''playlistId'', JStr (pl_playlistId p)), (''name'', JStr (pl_name p)),
           (''createdMs'', JNum (jnat (pl_createdMs p))), (''updatedMs'', JNum (jnat (pl_updatedMs p)))]"

definition entry_val :: "playlistEntry \<Rightarrow> jsval" where
  "entry_val e =
     JObj [(''entryId'', JStr (pe_entryId e)), (''playlistId'', JStr (pe_playlistId e)),
           (''recordingId'', JStr (pe_recordingId e)), (''position'', JNum (pe_position e)),
           (''selectedRef'', case pe_selectedRef e of None \<Rightarrow> JNull | Some r \<Rightarrow> ref_val r),
           (''addedMs'', JNum (jnat (pe_addedMs e)))]"

section \<open>Number arithmetic\<close>

fun js_half :: "jsnum \<Rightarrow> jsnum" where
  "js_half (Fin a) = to_double (a / 2)"
| "js_half x = x"

text \<open>
  The comparator \<open>a.position - b.position\<close>: the sign of the difference of two doubles, which
  rounds to zero only for equal ones; \<open>NaN\<close> counts as zero in \<open>sort\<close>.
\<close>

definition compare_positions :: "playlistEntry \<Rightarrow> playlistEntry \<Rightarrow> int" where
  "compare_positions a b =
     (if num_less (pe_position a) (pe_position b) then - 1
      else if num_less (pe_position b) (pe_position a) then 1
      else 0)"

section \<open>Checks and lookups\<close>

definition bad_id :: "string \<Rightarrow> bool" where
  "bad_id v = (\<not> isString (JStr v) 64)"

definition requireId :: "string \<Rightarrow> string \<Rightarrow> (exn + 'a) \<Rightarrow> exn + 'a" where
  "requireId v label rest =
     (if bad_id v then Inl (TypeError (label @ '' must be a nonempty id'')) else rest)"

definition requireName :: "string \<Rightarrow> (exn + 'a) \<Rightarrow> exn + 'a" where
  "requireName name rest =
     (if js_trim name = [] \<or> 512 < length name then Inl (TypeError ''invalid playlist name'')
      else rest)"

definition requireNow :: "jsnum \<Rightarrow> (nat \<Rightarrow> exn + 'a) \<Rightarrow> exn + 'a" where
  "requireNow nowMs rest =
     (case safe_nat nowMs of
        None \<Rightarrow> Inl (TypeError ''nowMs must be a safe nonnegative integer'')
      | Some n \<Rightarrow> rest n)"

definition playlistById :: "playlistState \<Rightarrow> string \<Rightarrow> playlist option" where
  "playlistById st i = find (\<lambda>p. pl_playlistId p = i) (ps_playlists st)"

definition siblings :: "playlistEntry list \<Rightarrow> string \<Rightarrow> playlistEntry list" where
  "siblings entries i = sort_by compare_positions (filter (\<lambda>e. pe_playlistId e = i) entries)"

definition bumpUpdated :: "playlist list \<Rightarrow> string \<Rightarrow> nat \<Rightarrow> playlist list" where
  "bumpUpdated playlists i nowMs =
     map (\<lambda>p. if pl_playlistId p = i \<and> pl_updatedMs p \<noteq> nowMs
              then p\<lparr>pl_updatedMs := max nowMs (pl_updatedMs p)\<rparr> else p) playlists"

section \<open>Use cases\<close>

definition createPlaylist ::
  "playlistState \<Rightarrow> string \<Rightarrow> string \<Rightarrow> jsnum \<Rightarrow> exn + playlistState" where
  [op_defs]: "createPlaylist st i name nowMs =
     requireId i ''playlistId'' (requireName name (requireNow nowMs (\<lambda>now.
       if playlistById st i \<noteq> None then Inl (TypeError ''duplicate playlistId'')
       else Inr (st\<lparr>ps_playlists := ps_playlists st @
              [\<lparr>pl_playlistId = i, pl_name = name, pl_createdMs = now, pl_updatedMs = now\<rparr>]\<rparr>))))"

definition renamePlaylist ::
  "playlistState \<Rightarrow> string \<Rightarrow> string \<Rightarrow> jsnum \<Rightarrow> exn + playlistState" where
  [op_defs]: "renamePlaylist st i name nowMs =
     requireId i ''playlistId'' (requireName name (requireNow nowMs (\<lambda>now.
       if playlistById st i = None then Inl (TypeError ''unknown playlist'')
       else Inr (st\<lparr>ps_playlists := map (\<lambda>p.
              if pl_playlistId p = i
              then p\<lparr>pl_name := name, pl_updatedMs := max now (pl_updatedMs p)\<rparr> else p)
              (ps_playlists st)\<rparr>))))"

definition deletePlaylist :: "playlistState \<Rightarrow> string \<Rightarrow> exn + playlistState" where
  [op_defs]: "deletePlaylist st i =
     requireId i ''playlistId''
       (if playlistById st i = None then Inl (TypeError ''unknown playlist'')
        else Inr \<lparr>ps_playlists = filter (\<lambda>p. pl_playlistId p \<noteq> i) (ps_playlists st),
                   ps_entries = filter (\<lambda>e. pe_playlistId e \<noteq> i) (ps_entries st)\<rparr>)"

record entryInput =
  ei_entryId :: string
  ei_playlistId :: string
  ei_recordingId :: string
  ei_selectedRef :: "sourceRef option"
  ei_addedMs :: jsnum

definition addPlaylistEntry :: "playlistState \<Rightarrow> entryInput \<Rightarrow> exn + playlistState" where
  [op_defs]: "addPlaylistEntry st input =
     requireId (ei_entryId input) ''entryId'' (requireId (ei_playlistId input) ''playlistId''
       (requireId (ei_recordingId input) ''recordingId''
       (if (case ei_selectedRef input of None \<Rightarrow> False | Some r \<Rightarrow> \<not> isTrackRef (ref_val r)) then
          Inl (TypeError ''selectedRef must be a track ref or null'')
        else requireNow (ei_addedMs input) (\<lambda>added.
          if playlistById st (ei_playlistId input) = None then
            Inl (TypeError ''unknown playlist'')
          else if list_ex (\<lambda>e. pe_entryId e = ei_entryId input) (ps_entries st) then
            Inl (TypeError ''duplicate entryId'')
          else
            let row = siblings (ps_entries st) (ei_playlistId input);
                position = (if row = [] then jnat 1 else js_add (pe_position (last row)) (jnat 1))
            in Inr \<lparr>ps_playlists = bumpUpdated (ps_playlists st) (ei_playlistId input) added,
                    ps_entries = ps_entries st @
                      [\<lparr>pe_entryId = ei_entryId input, pe_playlistId = ei_playlistId input,
                        pe_recordingId = ei_recordingId input, pe_position = position,
                        pe_selectedRef = ei_selectedRef input, pe_addedMs = added\<rparr>]\<rparr>))))"

definition entryById :: "playlistState \<Rightarrow> string \<Rightarrow> playlistEntry option" where
  "entryById st i = find (\<lambda>e. pe_entryId e = i) (ps_entries st)"

definition removePlaylistEntry :: "playlistState \<Rightarrow> string \<Rightarrow> jsnum \<Rightarrow> exn + playlistState" where
  [op_defs]: "removePlaylistEntry st i nowMs =
     requireId i ''entryId'' (requireNow nowMs (\<lambda>now.
       case entryById st i of
         None \<Rightarrow> Inl (TypeError ''unknown entry'')
       | Some entry \<Rightarrow>
           Inr \<lparr>ps_playlists = bumpUpdated (ps_playlists st) (pe_playlistId entry) now,
                ps_entries = filter (\<lambda>e. pe_entryId e \<noteq> i) (ps_entries st)\<rparr>))"

text \<open>The slot among the other members a move names: \<open>None\<close> when the target is not one of them.\<close>

definition move_index :: "playlistEntry list \<Rightarrow> entryMove option \<Rightarrow> nat option" where
  "move_index rest mv =
     (case mv of
        None \<Rightarrow> Some (length rest)
      | Some (Before t) \<Rightarrow> find_index (\<lambda>e. pe_entryId e = t) rest
      | Some (After t) \<Rightarrow> map_option Suc (find_index (\<lambda>e. pe_entryId e = t) rest))"

text \<open>The new position at a slot, or \<open>None\<close> when no double separates the neighbours.\<close>

definition slot_position :: "playlistEntry option \<Rightarrow> playlistEntry option \<Rightarrow> jsnum option" where
  "slot_position before after =
     (let candidate =
            (case (before, after) of
               (None, None) \<Rightarrow> jnat 1
             | (None, Some a) \<Rightarrow> js_add (pe_position a) (jint (- 1))
             | (Some b, None) \<Rightarrow> js_add (pe_position b) (jnat 1)
             | (Some b, Some a) \<Rightarrow> js_half (js_add (pe_position b) (pe_position a)))
      in if (case before of None \<Rightarrow> True | Some b \<Rightarrow> num_less (pe_position b) candidate) \<and>
            (case after of None \<Rightarrow> True | Some a \<Rightarrow> num_less candidate (pe_position a))
         then Some candidate else None)"

definition renumber :: "playlistEntry list \<Rightarrow> playlistEntry list \<Rightarrow> playlistEntry list" where
  "renumber order entries =
     (let numbers = rev (zip (map pe_entryId order) [1..<Suc (length order)])
      in map (\<lambda>e. case map_of numbers (pe_entryId e) of
                    None \<Rightarrow> e
                  | Some n \<Rightarrow> e\<lparr>pe_position := jnat n\<rparr>) entries)"

definition slot_before :: "'a list \<Rightarrow> nat \<Rightarrow> 'a option" where
  "slot_before rest index = (if 0 < index then Some (rest ! (index - 1)) else None)"

definition slot_after :: "'a list \<Rightarrow> nat \<Rightarrow> 'a option" where
  "slot_after rest index = (if index < length rest then Some (rest ! index) else None)"

definition moved_entries :: "playlistEntry list \<Rightarrow> string \<Rightarrow> playlistEntry \<Rightarrow> playlistEntry list" where
  "moved_entries es i moved = map (\<lambda>e. if pe_entryId e = i then moved else e) es"

definition reorderPlaylistEntry ::
  "playlistState \<Rightarrow> string \<Rightarrow> entryMove option \<Rightarrow> jsnum \<Rightarrow> exn + playlistState" where
  [op_defs]: "reorderPlaylistEntry st i mv nowMs =
     requireId i ''entryId'' (requireNow nowMs (\<lambda>now.
       case entryById st i of
         None \<Rightarrow> Inl (TypeError ''unknown entry'')
       | Some entry \<Rightarrow>
           let rest = filter (\<lambda>e. pe_entryId e \<noteq> i) (siblings (ps_entries st) (pe_playlistId entry))
           in case move_index rest mv of
                None \<Rightarrow> Inl (TypeError ''unknown move target'')
              | Some index \<Rightarrow>
                  Inr \<lparr>ps_playlists = bumpUpdated (ps_playlists st) (pe_playlistId entry) now,
                       ps_entries =
                         (case slot_position (slot_before rest index) (slot_after rest index) of
                            None \<Rightarrow> renumber (splice_insert index entry rest) (ps_entries st)
                          | Some position \<Rightarrow>
                              moved_entries (ps_entries st) i (entry\<lparr>pe_position := position\<rparr>))\<rparr>))"

end
