(* ===== verification/PlaylistLaws.thy ===== *)
theory PlaylistLaws
  imports Playlists
begin

text \<open>
  The laws of the playlists: where a reordered entry lands, that no other row moves, and that
  every use case keeps the sections valid.
\<close>

section \<open>Sorted siblings\<close>

definition pos_of :: "playlistEntry \<Rightarrow> rat" where
  "pos_of e = (case pe_position e of Fin q \<Rightarrow> q | _ \<Rightarrow> 0)"

definition fin_pos :: "playlistEntry \<Rightarrow> bool" where
  "fin_pos e = isFiniteNumber (JNum (pe_position e))"

lemma fin_pos_iff: "fin_pos e \<longleftrightarrow> pe_position e = Fin (pos_of e)"
  by (cases "pe_position e") (simp_all add: fin_pos_def pos_of_def)

lemma compare_positions_fin:
  "fin_pos a \<Longrightarrow> fin_pos b \<Longrightarrow> compare_positions a b \<le> 0 \<longleftrightarrow> pos_of a \<le> pos_of b"
  by (auto simp: compare_positions_def fin_pos_iff)

lemma insert_by_positions:
  "fin_pos x \<Longrightarrow> list_all fin_pos xs \<Longrightarrow> insert_by compare_positions x xs = insort_key pos_of x xs"
  by (induction xs) (auto simp: compare_positions_fin)

lemma sort_by_positions:
  "list_all fin_pos xs \<Longrightarrow> sort_by compare_positions xs = sort_key pos_of xs"
proof (induction xs)
  case (Cons x xs)
  then have "list_all fin_pos (sort_key pos_of xs)"
    by (simp add: list_all_iff)
  then show ?case
    using Cons by (simp add: insert_by_positions)
qed simp

lemma siblings_sort:
  "list_all fin_pos es \<Longrightarrow> siblings es i = sort_key pos_of (filter (\<lambda>e. pe_playlistId e = i) es)"
  by (simp add: siblings_def sort_by_positions list_all_iff)

section \<open>Moving one element of a sorted list\<close>

lemma sorted_map_nth_le:
  "sorted (map f xs) \<Longrightarrow> i \<le> j \<Longrightarrow> j < length xs \<Longrightarrow> f (xs ! i) \<le> f (xs ! j)"
  using sorted_nth_mono [of "map f xs" i j] by simp

lemma splice_sorted:
  assumes "sorted (map f rest)" "index \<le> length rest"
    and "0 < index \<Longrightarrow> f (rest ! (index - 1)) < f x"
    and "index < length rest \<Longrightarrow> f x < f (rest ! index)"
  shows "sorted (map f (splice_insert index x rest))" and "\<forall>y\<in>set rest. f y \<noteq> f x"
proof -
  have lo: "f y < f x" if "y \<in> set (take index rest)" for y
  proof -
    obtain j where j: "j < index" "y = rest ! j"
      using \<open>y \<in> set (take index rest)\<close> assms(2) by (auto simp: in_set_conv_nth)
    then have "f y \<le> f (rest ! (index - 1))"
      using assms(1,2) by (auto intro!: sorted_map_nth_le)
    then show ?thesis using assms(3) j(1) by force
  qed
  have hi: "f x < f y" if "y \<in> set (drop index rest)" for y
  proof -
    obtain j where "j < length rest - index" and y: "y = rest ! (index + j)"
      using \<open>y \<in> set (drop index rest)\<close> by (auto simp: in_set_conv_nth)
    then have j: "index + j < length rest" by simp
    then have "f (rest ! index) \<le> f y"
      using assms(1) y by (auto intro!: sorted_map_nth_le)
    then show ?thesis using assms(4) j(1) by force
  qed
  have "sorted (map f (take index rest))" "sorted (map f (drop index rest))"
    using assms(1) by (simp_all add: sorted_wrt_take sorted_wrt_drop flip: take_map drop_map)
  then show "sorted (map f (splice_insert index x rest))"
    using lo hi by (force simp: splice_insert_def sorted_append less_imp_le)
  show "\<forall>y\<in>set rest. f y \<noteq> f x"
    using lo hi by (metis Un_iff append_take_drop_id less_irrefl set_append)
qed

lemma filter_splice_out: "\<not> P x \<Longrightarrow> filter P (splice_insert i x xs) = filter P xs"
  unfolding splice_insert_def by (metis append_take_drop_id filter.simps(2) filter_append)

lemma replaced_mset:
  assumes "distinct (map g F)" "e \<in> set F" "g e = i"
  shows "mset (map (\<lambda>x. if g x = i then e' else x) F) =
           add_mset e' (mset (filter (\<lambda>x. g x \<noteq> i) F))"
  using assms
proof (induction F)
  case (Cons x F)
  show ?case
  proof (cases "g x = i")
    case True
    then have "\<forall>y\<in>set F. g y \<noteq> i"
      using Cons.prems(1) by (metis distinct.simps(2) imageI list.set_map list.simps(9))
    then have "map (\<lambda>x. if g x = i then e' else x) F = F" "filter (\<lambda>x. g x \<noteq> i) F = F"
      by (auto intro!: map_idI)
    then show ?thesis using True by simp
  qed (use Cons in auto)
qed simp

text \<open>
  Replacing one element by one whose key lies strictly between the keys of a slot of the others
  moves it, and only it, to that slot of the sorted list.
\<close>

lemma sort_key_moved:
  assumes "distinct (map g F)" "e \<in> set F" "g e = i"
    and rest: "rest = sort_key f (filter (\<lambda>x. g x \<noteq> i) F)" and "index \<le> length rest"
    and "0 < index \<Longrightarrow> f (rest ! (index - 1)) < f e'"
    and "index < length rest \<Longrightarrow> f e' < f (rest ! index)"
  shows "sort_key f (map (\<lambda>x. if g x = i then e' else x) F) = splice_insert index e' rest"
proof (rule properties_for_sort_key)
  let ?F = "map (\<lambda>x. if g x = i then e' else x) F"
  have srt: "sorted (map f rest)" by (simp add: rest)
  note sp = splice_sorted [OF srt assms(5-7)]
  show "sorted (map f (splice_insert index e' rest))" by (rule sp)
  show "mset (splice_insert index e' rest) = mset ?F"
    using replaced_mset [OF assms(1-3)] by (simp add: rest)
  fix k assume "k \<in> set (splice_insert index e' rest)"
  have others: "filter (\<lambda>x. f k = f x) ?F = filter (\<lambda>x. f k = f x) (filter (\<lambda>x. g x \<noteq> i) F)"
    if "f k \<noteq> f e'"
    using that by (induction F) auto
  show "filter (\<lambda>x. f k = f x) (splice_insert index e' rest) = filter (\<lambda>x. f k = f x) ?F"
  proof (cases "f k = f e'")
    case True
    have none: "filter (\<lambda>x. f k = f x) rest = []"
      using sp(2) True by (auto simp: filter_empty_conv)
    then have "filter (\<lambda>x. f k = f x) (splice_insert index e' rest) = [e']"
    proof -
      have "filter (\<lambda>x. f k = f x) (take index rest) @ filter (\<lambda>x. f k = f x) (drop index rest) = []"
        using none by (simp flip: filter_append)
      then show ?thesis using True by (simp add: splice_insert_def)
    qed
    moreover have "mset (filter (\<lambda>x. f k = f x) ?F) = {#e'#}"
    proof -
      have "mset (filter (\<lambda>x. f k = f x) ?F) = filter_mset (\<lambda>x. f k = f x) (add_mset e' (mset rest))"
        using replaced_mset [OF assms(1-3)] by (simp add: rest del: mset_map)
      also have "\<dots> = {#e'#}"
        using none True by (simp flip: mset_filter)
      finally show ?thesis .
    qed
    ultimately show ?thesis by (simp only: mset_single_iff)
  next
    case False
    have "filter (\<lambda>x. f k = f x) (splice_insert index e' rest) = filter (\<lambda>x. f k = f x) rest"
      using False by (simp add: filter_splice_out)
    also have "\<dots> = filter (\<lambda>x. f k = f x) (filter (\<lambda>x. g x \<noteq> i) F)"
      unfolding rest by (metis (mono_tags, lifting) filter_cong sort_key_stable)
    finally show ?thesis using others [OF False] by simp
  qed
qed

section \<open>Reordering\<close>

lemma find_by_id:
  "find (\<lambda>x. g x = i) xs = Some e \<Longrightarrow> e \<in> set xs \<and> g e = i"
  by (auto dest: find_Some_set)

lemma distinct_ids_eq:
  "distinct (map g xs) \<Longrightarrow> a \<in> set xs \<Longrightarrow> b \<in> set xs \<Longrightarrow> g a = g b \<Longrightarrow> a = b"
  by (metis distinct_map inj_onD)

lemma slot_position_between:
  assumes "slot_position before after = Some p"
  shows "case before of None \<Rightarrow> True | Some b \<Rightarrow> num_less (pe_position b) p"
    and "case after of None \<Rightarrow> True | Some a \<Rightarrow> num_less p (pe_position a)"
  using assms by (auto simp: slot_position_def Let_def split: if_splits)

lemma filter_moved:
  assumes "distinct (map pe_entryId es)" "e \<in> set es" "pe_entryId e = i" "pe_playlistId e' = pe_playlistId e"
  shows "filter (\<lambda>x. pe_playlistId x = pl) (moved_entries es i e') =
         moved_entries (filter (\<lambda>x. pe_playlistId x = pl) es) i e'"
proof -
  have "\<forall>x\<in>set es. pe_entryId x = i \<longrightarrow> x = e"
    using distinct_ids_eq [OF assms(1) _ assms(2)] assms(3) by metis
  then have "filter (\<lambda>x. pe_playlistId (if pe_entryId x = i then e' else x) = pl) es =
             filter (\<lambda>x. pe_playlistId x = pl) es"
    using assms(4) by (intro filter_cong refl) (metis (full_types))
  then show ?thesis
    by (simp add: moved_entries_def filter_map comp_def)
qed

lemma num_less_fin: "fin_pos a \<Longrightarrow> num_less (pe_position a) p \<Longrightarrow> p = Fin q \<Longrightarrow> pos_of a < q"
  and num_greater_fin: "fin_pos a \<Longrightarrow> num_less p (pe_position a) \<Longrightarrow> p = Fin q \<Longrightarrow> q < pos_of a"
  by (auto simp: fin_pos_iff)

lemma siblings_moved:
  assumes fin: "list_all fin_pos es" and d: "distinct (map pe_entryId es)"
    and e: "e \<in> set es" "pe_entryId e = i"
    and rest: "rest = filter (\<lambda>x. pe_entryId x \<noteq> i) (siblings es (pe_playlistId e))"
    and idx: "index \<le> length rest"
    and slot: "slot_position (slot_before rest index) (slot_after rest index) = Some (Fin q)"
  shows "siblings (moved_entries es i (e\<lparr>pe_position := Fin q\<rparr>)) (pe_playlistId e) =
         splice_insert index (e\<lparr>pe_position := Fin q\<rparr>) rest"
proof -
  let ?e = "e\<lparr>pe_position := Fin q\<rparr>" let ?F = "filter (\<lambda>x. pe_playlistId x = pe_playlistId e) es"
  have pos: "pos_of ?e = q" by (simp add: pos_of_def)
  have rest': "rest = sort_key pos_of (filter (\<lambda>x. pe_entryId x \<noteq> i) ?F)"
    unfolding rest siblings_sort [OF fin] by (simp add: filter_sort)
  have "set rest \<subseteq> set es" by (auto simp: rest')
  then have fr: "fin_pos (rest ! k)" if "k < length rest" for k
    using fin that by (auto simp: list_all_iff dest: nth_mem)
  note between = slot_position_between [OF slot, unfolded slot_before_def slot_after_def]
  have lo: "pos_of (rest ! (index - 1)) < q" if "0 < index"
    using between(1) that idx fr [of "index - 1"] by (auto intro: num_less_fin)
  have hi: "q < pos_of (rest ! index)" if "index < length rest"
    using between(2) that fr [of index] by (auto intro: num_greater_fin)
  have "list_all fin_pos (moved_entries es i ?e)"
    using fin by (auto simp: list_all_iff moved_entries_def fin_pos_iff pos_of_def)
  then have "siblings (moved_entries es i ?e) (pe_playlistId e) =
             sort_key pos_of (moved_entries ?F i ?e)"
    using filter_moved [OF d e, of ?e] by (simp add: siblings_sort)
  also have "\<dots> = splice_insert index ?e rest"
    unfolding moved_entries_def
    by (rule sort_key_moved [where e = e]) (use d e rest' idx lo hi pos in \<open>auto simp: distinct_map_filter\<close>)
  finally show ?thesis .
qed

section \<open>Renumbering\<close>

lemma map_of_rev_distinct: "distinct (map fst m) \<Longrightarrow> map_of (rev m) = map_of m"
  by (subst map_of_inject_set) (simp_all add: rev_map [symmetric])

lemma numbers_nth:
  assumes "distinct ids" "j < length ids"
  shows "map_of (rev (zip ids [1..<Suc (length ids)])) (ids ! j) = Some (Suc j)"
proof -
  have "map_of (zip ids [1..<Suc (length ids)]) (ids ! j) = Some ([1..<Suc (length ids)] ! j)"
    using assms by (intro map_of_zip_nth) simp_all
  then show ?thesis
    using assms by (subst map_of_rev_distinct) (simp_all del: upt_Suc)
qed

lemma renumber_order:
  assumes d: "distinct (map pe_entryId order)" and j: "j < length order"
  shows "renumber order order ! j = (order ! j)\<lparr>pe_position := jnat (Suc j)\<rparr>"
  using numbers_nth [OF d, of j] j by (simp add: renumber_def Let_def del: upt_Suc)

lemma length_renumber [simp]: "length (renumber order es) = length es"
  by (simp add: renumber_def Let_def)

lemma renumber_map: "filter (\<lambda>e. pe_playlistId e = pl) (renumber order es) =
                     renumber order (filter (\<lambda>e. pe_playlistId e = pl) es)"
  by (auto simp: renumber_def Let_def filter_map comp_def split: option.splits
      intro!: arg_cong2 [where f = map] filter_cong simp del: upt_Suc)

lemma renumber_ids [simp]: "map pe_entryId (renumber order es) = map pe_entryId es"
  by (simp add: renumber_def Let_def split: option.splits del: upt_Suc)

lemma fin_renumber: "list_all fin_pos es \<Longrightarrow> list_all fin_pos (renumber order es)"
  by (auto simp: renumber_def Let_def list_all_iff fin_pos_iff pos_of_def split: option.splits simp del: upt_Suc)

lemma siblings_renumbered:
  assumes fin: "list_all fin_pos es"
    and perm: "mset order = mset (filter (\<lambda>e. pe_playlistId e = pl) es)"
    and d: "distinct (map pe_entryId order)"
  shows "siblings (renumber order es) pl = renumber order order"
proof -
  let ?F = "filter (\<lambda>e. pe_playlistId e = pl) es"
  have pos: "map pos_of (renumber order order) = map rat_of_nat [1..<Suc (length order)]"
    by (rule nth_equalityI) (auto simp: renumber_order [OF d] pos_of_def simp del: upt_Suc)
  have "sort_key pos_of (renumber order ?F) = renumber order order"
  proof (rule sort_key_inj_key_eq)
    show same: "mset (renumber order ?F) = mset (renumber order order)"
      using perm by (simp add: renumber_def Let_def)
    have "distinct (map pos_of (renumber order order))"
      unfolding pos by (simp add: distinct_map inj_on_def)
    then show "inj_on pos_of (set (renumber order ?F))"
      using mset_eq_setD [OF same] by (simp add: distinct_map)
    show "sorted (map pos_of (renumber order order))"
      unfolding pos by (simp add: sorted_map sorted_wrt_iff_nth_less del: upt_Suc)
  qed
  then show ?thesis
    using fin_renumber [OF fin] by (simp add: siblings_sort renumber_map)
qed

section \<open>Bounds\<close>

definition double_pos :: "playlistEntry \<Rightarrow> bool" where
  "double_pos e = (fin_pos e \<and> \<bar>pos_of e\<bar> \<le> max_double)"

lemma to_double_succ:
  assumes "\<bar>x\<bar> \<le> max_double"
  shows "\<exists>r. to_double (x + 1) = Fin r \<and> \<bar>r\<bar> \<le> max_double"
proof -
  have "rnd (x + 1) \<le> max_double" using assms by (intro rnd_succ_finite) simp
  moreover have "- max_double \<le> rnd (x + 1)"
    using rnd_mono [of "- max_double" "x + 1"] assms by (simp add: rnd_minus rnd_greatest)
  ultimately show ?thesis
    using max_double_less by (auto simp: to_double_def Let_def)
qed

lemma to_double_pred:
  assumes "\<bar>x\<bar> \<le> max_double"
  shows "\<exists>r. to_double (x - 1) = Fin r \<and> \<bar>r\<bar> \<le> max_double"
proof -
  have eq: "rnd (x - 1) = - rnd (- x + 1)"
    using rnd_minus [of "- x + 1"] by simp
  obtain r where "to_double (- x + 1) = Fin r" "\<bar>r\<bar> \<le> max_double"
    using to_double_succ [of "- x"] assms by auto
  then have "\<bar>rnd (- x + 1)\<bar> \<le> max_double"
    by (auto simp: to_double_def Let_def split: if_splits)
  then show ?thesis
    using max_double_less by (auto simp: to_double_def Let_def eq)
qed

text \<open>An accepted slot position is a finite double: infinities never pass the strict checks.\<close>

lemma slot_position_double:
  assumes "slot_position before after = Some p"
    and "case before of None \<Rightarrow> True | Some b \<Rightarrow> double_pos b"
    and "case after of None \<Rightarrow> True | Some a \<Rightarrow> double_pos a"
  shows "\<exists>q. p = Fin q \<and> \<bar>q\<bar> \<le> max_double"
proof (cases before)
  case None
  then show ?thesis
    using assms to_double_pred
    by (cases after) (auto simp: slot_position_def Let_def double_pos_def fin_pos_iff max_double_def
        split: if_splits)
next
  case (Some b)
  show ?thesis
  proof (cases after)
    case None
    then show ?thesis
      using assms Some to_double_succ
      by (auto simp: slot_position_def Let_def double_pos_def fin_pos_iff split: if_splits)
  next
    case (Some a)
    have "num_less (pe_position b) p" "num_less p (pe_position a)"
      using slot_position_between [OF assms(1)] \<open>before = Some b\<close> Some by simp_all
    then show ?thesis
      using assms(2,3) \<open>before = Some b\<close> Some
      by (cases p) (auto simp: double_pos_def fin_pos_iff)
  qed
qed

section \<open>Valid sections\<close>

definition playlist_row_ok :: "playlist \<Rightarrow> bool" where
  "playlist_row_ok p = isPlaylist (playlist_val p)"

definition entry_row_ok :: "playlistEntry \<Rightarrow> bool" where
  "entry_row_ok e = (isPlaylistEntry (entry_val e) \<and> double_pos e)"

definition playlists_valid :: "playlistState \<Rightarrow> bool" where
  "playlists_valid st =
     (distinct (map pl_playlistId (ps_playlists st)) \<and> distinct (map pe_entryId (ps_entries st)) \<and>
      list_all playlist_row_ok (ps_playlists st) \<and> list_all entry_row_ok (ps_entries st) \<and>
      (\<forall>e\<in>set (ps_entries st). pe_playlistId e \<in> pl_playlistId ` set (ps_playlists st)))"

lemma playlist_row_ok_iff:
  "playlist_row_ok p \<longleftrightarrow>
     \<not> bad_id (pl_playlistId p) \<and> pl_name p \<noteq> [] \<and> length (pl_name p) \<le> 512 \<and>
     pl_createdMs p \<le> pl_updatedMs p \<and> pl_updatedMs p \<le> max_safe"
  by (auto simp: playlist_row_ok_def isPlaylist_def playlist_val_def hasExactKeys_def hasOwn_def
      bad_id_def num_eq_def)

lemma entry_row_ok_iff:
  "entry_row_ok e \<longleftrightarrow>
     \<not> bad_id (pe_entryId e) \<and> \<not> bad_id (pe_playlistId e) \<and> \<not> bad_id (pe_recordingId e) \<and>
     (case pe_selectedRef e of None \<Rightarrow> True | Some r \<Rightarrow> isTrackRef (ref_val r)) \<and>
     pe_addedMs e \<le> max_safe \<and> double_pos e"
proof -
  have rv: "ref_val r \<noteq> JNull" for r by (simp add: ref_val_def)
  show ?thesis
    by (cases "pe_selectedRef e")
      (auto simp: entry_row_ok_def isPlaylistEntry_def entry_val_def hasExactKeys_def hasOwn_def
        bad_id_def nullable_def rv double_pos_def fin_pos_def)
qed

lemma bumpUpdated_ids [simp]: "map pl_playlistId (bumpUpdated ps i now) = map pl_playlistId ps"
  by (simp add: bumpUpdated_def)

lemma bumpUpdated_id_set [simp]: "pl_playlistId ` set (bumpUpdated ps i now) = pl_playlistId ` set ps"
  by (metis bumpUpdated_ids list.set_map)

lemma bumpUpdated_ok:
  "now \<le> max_safe \<Longrightarrow> list_all playlist_row_ok ps \<Longrightarrow> list_all playlist_row_ok (bumpUpdated ps i now)"
  by (auto simp: bumpUpdated_def list_all_iff playlist_row_ok_iff)

lemma requireId_Inr: "requireId v l rest = Inr x \<longleftrightarrow> \<not> bad_id v \<and> rest = Inr x"
  by (simp add: requireId_def)

lemma requireName_Inr:
  "requireName n rest = Inr x \<longleftrightarrow> js_trim n \<noteq> [] \<and> length n \<le> 512 \<and> rest = Inr x"
  by (simp add: requireName_def not_less)

lemma requireNow_Inr:
  "requireNow t rest = Inr x \<longleftrightarrow> (\<exists>n\<le>max_safe. safe_nat t = Some n \<and> rest n = Inr x)"
  by (auto simp: requireNow_def dest: safe_nat_bound split: option.splits)

lemmas require_Inr = requireId_Inr requireName_Inr requireNow_Inr

lemma js_trim_Nil [simp]: "js_trim [] = []"
  by (simp add: js_trim_def)

lemma playlistById_None:
  "playlistById st i = None \<longleftrightarrow> i \<notin> pl_playlistId ` set (ps_playlists st)"
  by (auto simp: playlistById_def find_None_iff)

lemma entryById_Some: "entryById st i = Some e \<Longrightarrow> e \<in> set (ps_entries st) \<and> pe_entryId e = i"
  unfolding entryById_def by (rule find_by_id)

lemma create_valid:
  "playlists_valid st \<Longrightarrow> createPlaylist st i name now = Inr st' \<Longrightarrow> playlists_valid st'"
  by (auto simp: createPlaylist_def require_Inr playlists_valid_def playlistById_None
      playlist_row_ok_iff split: if_splits)

lemma rename_valid:
  assumes valid: "playlists_valid st" and run: "renamePlaylist st i name now = Inr st'"
  shows "playlists_valid st'"
proof -
  obtain n where n: "n \<le> max_safe" "js_trim name \<noteq> []" "length name \<le> 512"
    and st': "st' = st\<lparr>ps_playlists := map (\<lambda>p. if pl_playlistId p = i
        then p\<lparr>pl_name := name, pl_updatedMs := max n (pl_updatedMs p)\<rparr> else p) (ps_playlists st)\<rparr>"
    using run by (auto simp: renamePlaylist_def require_Inr split: if_splits)
  have es: "ps_entries st' = ps_entries st" by (simp add: st')
  have ids: "map pl_playlistId (ps_playlists st') = map pl_playlistId (ps_playlists st)"
    by (simp add: st')
  then have "pl_playlistId ` set (ps_playlists st') = pl_playlistId ` set (ps_playlists st)"
    by (metis list.set_map)
  moreover have "list_all playlist_row_ok (ps_playlists st')"
    using valid n by (auto simp: st' playlists_valid_def list_all_iff playlist_row_ok_iff le_max_iff_disj)
  ultimately show ?thesis
    using valid ids es unfolding playlists_valid_def by simp
qed

lemma delete_valid:
  "playlists_valid st \<Longrightarrow> deletePlaylist st i = Inr st' \<Longrightarrow> playlists_valid st'"
  by (auto simp: deletePlaylist_def require_Inr playlists_valid_def list_all_iff image_iff
      distinct_map_filter split: if_splits) blast

lemma remove_valid:
  "playlists_valid st \<Longrightarrow> removePlaylistEntry st i now = Inr st' \<Longrightarrow> playlists_valid st'"
  by (auto simp: removePlaylistEntry_def require_Inr playlists_valid_def bumpUpdated_ok
      distinct_map_filter list_all_iff [where P = entry_row_ok] split: option.splits)

lemma siblings_set: "set (siblings es i) = {e \<in> set es. pe_playlistId e = i}"
  by (auto simp: siblings_def)

lemma add_valid:
  assumes valid: "playlists_valid st" and run: "addPlaylistEntry st input = Inr st'"
  shows "playlists_valid st'"
proof -
  let ?row = "siblings (ps_entries st) (ei_playlistId input)"
  let ?pos = "if ?row = [] then jnat 1 else js_add (pe_position (last ?row)) (jnat 1)"
  obtain added where ok: "\<not> bad_id (ei_entryId input)" "\<not> bad_id (ei_playlistId input)"
      "\<not> bad_id (ei_recordingId input)" "added \<le> max_safe"
      "case ei_selectedRef input of None \<Rightarrow> True | Some r \<Rightarrow> isTrackRef (ref_val r)"
      "ei_playlistId input \<in> pl_playlistId ` set (ps_playlists st)"
      "\<forall>e\<in>set (ps_entries st). pe_entryId e \<noteq> ei_entryId input"
    and st': "st' = \<lparr>ps_playlists = bumpUpdated (ps_playlists st) (ei_playlistId input) added,
        ps_entries = ps_entries st @
          [\<lparr>pe_entryId = ei_entryId input, pe_playlistId = ei_playlistId input,
            pe_recordingId = ei_recordingId input, pe_position = ?pos,
            pe_selectedRef = ei_selectedRef input, pe_addedMs = added\<rparr>]\<rparr>"
    using run unfolding addPlaylistEntry_def
    by (auto simp: require_Inr Let_def playlistById_None list_ex_iff split: if_splits option.splits)
  have "\<exists>q. ?pos = Fin q \<and> \<bar>q\<bar> \<le> max_double"
  proof (cases "?row = []")
    case False
    then have "last ?row \<in> set (ps_entries st)"
      using last_in_set [OF False] by (simp add: siblings_set)
    then have "double_pos (last ?row)"
      using valid by (simp add: playlists_valid_def list_all_iff entry_row_ok_iff)
    then show ?thesis
      using False to_double_succ by (auto simp: double_pos_def fin_pos_iff)
  qed (simp add: max_double_def)
  then show ?thesis
    using valid ok unfolding st' playlists_valid_def
    by (auto simp: bumpUpdated_ok entry_row_ok_iff double_pos_def fin_pos_iff pos_of_def)
qed

definition others :: "playlistState \<Rightarrow> playlistEntry \<Rightarrow> playlistEntry list" where
  "others st e = filter (\<lambda>x. pe_entryId x \<noteq> pe_entryId e) (siblings (ps_entries st) (pe_playlistId e))"

lemma move_index_le: "move_index rest mv = Some k \<Longrightarrow> k \<le> length rest"
  by (auto simp: move_index_def dest!: find_index_length split: option.splits entryMove.splits)

lemma reorder_result:
  assumes run: "reorderPlaylistEntry st i mv now = Inr st'"
  obtains n e k where "n \<le> max_safe" "e \<in> set (ps_entries st)" "pe_entryId e = i"
    "move_index (others st e) mv = Some k" "k \<le> length (others st e)"
    "ps_playlists st' = bumpUpdated (ps_playlists st) (pe_playlistId e) n"
    "ps_entries st' =
       (case slot_position (slot_before (others st e) k) (slot_after (others st e) k) of
          None \<Rightarrow> renumber (splice_insert k e (others st e)) (ps_entries st)
        | Some q \<Rightarrow> moved_entries (ps_entries st) i (e\<lparr>pe_position := q\<rparr>))"
proof -
  obtain n e where n: "n \<le> max_safe" "safe_nat now = Some n" and e: "entryById st i = Some e"
    using run by (auto simp: reorderPlaylistEntry_def require_Inr split: option.splits)
  have i: "pe_entryId e = i" "e \<in> set (ps_entries st)"
    using entryById_Some [OF e] by simp_all
  obtain k where k: "move_index (others st e) mv = Some k"
    using run n e i by (auto simp: reorderPlaylistEntry_def require_Inr Let_def others_def
        split: option.splits)
  show thesis
    by (rule that [OF n(1) i(2,1) k move_index_le [OF k]])
      (use run n e k in \<open>auto simp: reorderPlaylistEntry_def require_Inr Let_def
        others_def [of st e, unfolded i(1)]
        split: option.splits\<close>)
qed

lemma moved_ids: "pe_entryId e' = i \<Longrightarrow> map pe_entryId (moved_entries es i e') = map pe_entryId es"
  by (simp add: moved_entries_def)

lemma others_set: "set (others st e) \<subseteq> set (ps_entries st)"
  by (auto simp: others_def siblings_set)

lemma slot_members:
  "k \<le> length xs \<Longrightarrow> set_option (slot_before xs k) \<union> set_option (slot_after xs k) \<subseteq> set xs"
  by (auto simp: slot_before_def slot_after_def)

lemma renumber_member:
  assumes "x \<in> set (renumber order es)"
  shows "\<exists>y\<in>set es. x = y \<or> (\<exists>n\<in>{1..length order}. x = y\<lparr>pe_position := jnat n\<rparr>)"
proof -
  let ?m = "rev (zip (map pe_entryId order) [1..<Suc (length order)])"
  obtain y where y: "y \<in> set es" and x: "x = (case map_of ?m (pe_entryId y) of None \<Rightarrow> y
      | Some n \<Rightarrow> y\<lparr>pe_position := jnat n\<rparr>)"
    using assms unfolding renumber_def Let_def by auto
  show ?thesis
  proof (cases "map_of ?m (pe_entryId y)")
    case (Some n)
    then have "n \<in> set [1..<Suc (length order)]"
      by (auto dest!: map_of_SomeD set_zip_rightD simp del: upt_Suc)
    then have "n \<in> {1..length order}" by auto
    then show ?thesis using x y Some by (metis option.simps(5))
  qed (use x y in auto)
qed

lemma small_double: "n < 2 ^ 53 \<Longrightarrow> rat_of_nat n \<le> max_double"
proof -
  assume "n < 2 ^ 53"
  then have "rat_of_nat n < rat_of_nat (2 ^ 53)" by (simp only: of_nat_less_iff)
  then show ?thesis by (simp add: max_double_def)
qed

lemma renumber_rows:
  assumes rows: "list_all entry_row_ok es" and len: "length order < 2 ^ 53"
  shows "list_all entry_row_ok (renumber order es)"
  unfolding list_all_iff
proof
  fix x assume "x \<in> set (renumber order es)"
  then obtain y where y: "y \<in> set es"
    and x: "x = y \<or> (\<exists>n\<in>{1..length order}. x = y\<lparr>pe_position := jnat n\<rparr>)"
    using renumber_member by blast
  have ok: "entry_row_ok y" using rows y by (simp add: list_all_iff)
  show "entry_row_ok x"
    using x
  proof
    assume "\<exists>n\<in>{1..length order}. x = y\<lparr>pe_position := jnat n\<rparr>"
    then obtain n where n: "n \<le> length order" "x = y\<lparr>pe_position := jnat n\<rparr>" by auto
    then have "\<bar>rat_of_nat n\<bar> \<le> max_double" using len by (simp add: small_double)
    then show ?thesis
      using ok n(2) by (simp add: entry_row_ok_iff double_pos_def fin_pos_iff pos_of_def)
  qed (simp add: ok)
qed

lemma mset_siblings: "mset (siblings es pl) = mset (filter (\<lambda>e. pe_playlistId e = pl) es)"
  by (simp add: siblings_def)

lemma filter_other_mset:
  assumes "distinct (map pe_entryId es)" "e \<in> set es"
  shows "add_mset e (mset (filter (\<lambda>x. pe_entryId x \<noteq> pe_entryId e) es)) = mset es"
proof -
  have "map (\<lambda>x. if pe_entryId x = pe_entryId e then e else x) es = es"
    by (rule map_idI) (use distinct_ids_eq [OF assms(1) _ assms(2)] in metis)
  then show ?thesis
    using replaced_mset [OF assms refl, of e] by metis
qed

lemma others_mset:
  assumes "distinct (map pe_entryId (ps_entries st))" "e \<in> set (ps_entries st)"
  shows "mset (splice_insert k e (others st e)) =
         mset (filter (\<lambda>x. pe_playlistId x = pe_playlistId e) (ps_entries st))"
  using filter_other_mset [of "filter (\<lambda>x. pe_playlistId x = pe_playlistId e) (ps_entries st)" e] assms
  by (simp add: others_def distinct_map_filter mset_siblings mset_filter filter_filter_mset)

lemma others_double:
  "playlists_valid st \<Longrightarrow> x \<in> set (others st e) \<Longrightarrow> double_pos x"
  using others_set [of st e] unfolding playlists_valid_def list_all_iff entry_row_ok_def by blast

lemma slot_double:
  assumes "playlists_valid st" "k \<le> length (others st e)"
    and "slot_position (slot_before (others st e) k) (slot_after (others st e) k) = Some q"
  shows "\<exists>r. q = Fin r \<and> \<bar>r\<bar> \<le> max_double"
  using slot_members [OF assms(2)] others_double [OF assms(1)]
  by (intro slot_position_double [OF assms(3)]) (auto split: option.splits)

lemma reorder_valid:
  assumes valid: "playlists_valid st" and run: "reorderPlaylistEntry st i mv now = Inr st'"
    and len: "length (ps_entries st) < 2 ^ 32"
  shows "playlists_valid st'"
proof -
  obtain n e k where ok: "n \<le> max_safe" "e \<in> set (ps_entries st)" "pe_entryId e = i"
      "k \<le> length (others st e)" "ps_playlists st' = bumpUpdated (ps_playlists st) (pe_playlistId e) n"
    and es: "ps_entries st' =
       (case slot_position (slot_before (others st e) k) (slot_after (others st e) k) of
          None \<Rightarrow> renumber (splice_insert k e (others st e)) (ps_entries st)
        | Some q \<Rightarrow> moved_entries (ps_entries st) i (e\<lparr>pe_position := q\<rparr>))"
    by (rule reorder_result [OF run])
  note v = valid [unfolded playlists_valid_def]
  have d: "distinct (map pe_entryId (ps_entries st))" and rows: "list_all entry_row_ok (ps_entries st)"
    using v by simp_all
  have "map pe_entryId (ps_entries st') = map pe_entryId (ps_entries st) \<and>
        list_all entry_row_ok (ps_entries st') \<and>
        (\<forall>x\<in>set (ps_entries st'). pe_playlistId x \<in> pe_playlistId ` set (ps_entries st))"
  proof (cases "slot_position (slot_before (others st e) k) (slot_after (others st e) k)")
    case None
    have "length (splice_insert k e (others st e)) \<le> length (ps_entries st)"
      using arg_cong [OF others_mset [OF d ok(2), of k], of size]
      by (metis length_filter_le size_mset)
    then have "list_all entry_row_ok (renumber (splice_insert k e (others st e)) (ps_entries st))"
      using rows len by (intro renumber_rows) simp_all
    then show ?thesis
      using renumber_member by (fastforce simp: es None)
  next
    case (Some q)
    have "\<exists>r. q = Fin r \<and> \<bar>r\<bar> \<le> max_double"
      by (rule slot_double [OF valid ok(4) Some])
    then have "entry_row_ok (e\<lparr>pe_position := q\<rparr>)"
      using rows ok(2) by (auto simp: list_all_iff entry_row_ok_iff double_pos_def fin_pos_iff pos_of_def)
    then show ?thesis
      using rows ok(2,3) by (auto simp: es Some moved_ids) (auto simp: moved_entries_def list_all_iff)
  qed
  then show ?thesis
    using v ok by (auto simp: playlists_valid_def bumpUpdated_ok)
qed

end
