(* ===== verification/PlaylistTheorems.thy ===== *)
theory PlaylistTheorems
  imports PlaylistLaws
begin

text \<open>
  The properties of the playlists: every use case keeps both sections committable, and a
  reordered entry lands exactly where it was dropped while nothing else moves.
\<close>

section \<open>The use cases as commands\<close>

datatype playlistCommand =
    Create string string jsnum
  | Rename string string jsnum
  | Delete string
  | AddEntry entryInput
  | RemoveEntry string jsnum
  | ReorderEntry string "entryMove option" jsnum

fun playlist_exec :: "playlistCommand \<Rightarrow> playlistState \<Rightarrow> exn + playlistState" where
  "playlist_exec (Create i name now) st = createPlaylist st i name now"
| "playlist_exec (Rename i name now) st = renamePlaylist st i name now"
| "playlist_exec (Delete i) st = deletePlaylist st i"
| "playlist_exec (AddEntry input) st = addPlaylistEntry st input"
| "playlist_exec (RemoveEntry i now) st = removePlaylistEntry st i now"
| "playlist_exec (ReorderEntry i mv now) st = reorderPlaylistEntry st i mv now"

text \<open>C19: Every playlist use case that does not throw keeps the two sections committable: ids stay
  distinct, every entry belongs to a playlist, each row still passes its storage guard (so a
  regressed wall clock never puts \<open>updatedMs\<close> below \<open>createdMs\<close>), and every position is a finite
  double, although appends, head moves and midpoints are computed in floating point. Arrays have
  fewer than \<open>2^32\<close> elements.\<close>

theorem playlist_use_cases_keep_valid:
  assumes "playlists_valid st" "length (ps_entries st) < 2 ^ 32" "playlist_exec c st = Inr st'"
  shows "playlists_valid st'"
  using assms
  by (cases c) (auto intro: create_valid rename_valid delete_valid add_valid remove_valid reorder_valid)

section \<open>Where a moved entry lands\<close>

lemma splice_at_index:
  "find_index (\<lambda>x. g x = t) xs = Some k \<Longrightarrow>
     map g (take k xs) = takeWhile (\<lambda>x. x \<noteq> t) (map g xs) \<and>
     map g (drop k xs) = dropWhile (\<lambda>x. x \<noteq> t) (map g xs)"
  by (induction xs arbitrary: k) (auto split: if_splits)

lemma splice_after_index:
  "find_index (\<lambda>x. g x = t) xs = Some k \<Longrightarrow>
     map g (take (Suc k) xs) = takeWhile (\<lambda>x. x \<noteq> t) (map g xs) @ [t] \<and>
     map g (drop (Suc k) xs) = tl (dropWhile (\<lambda>x. x \<noteq> t) (map g xs))"
  by (induction xs arbitrary: k) (auto split: if_splits)

definition dropped :: "string \<Rightarrow> entryMove option \<Rightarrow> string list \<Rightarrow> string list" where
  "dropped i mv row =
     (case mv of
        None \<Rightarrow> row @ [i]
      | Some (Before t) \<Rightarrow> takeWhile (\<lambda>x. x \<noteq> t) row @ i # dropWhile (\<lambda>x. x \<noteq> t) row
      | Some (After t) \<Rightarrow> takeWhile (\<lambda>x. x \<noteq> t) row @ t # i # tl (dropWhile (\<lambda>x. x \<noteq> t) row))"

lemma move_index_dropped:
  assumes "move_index rest mv = Some k" "pe_entryId e = i"
  shows "map pe_entryId (splice_insert k e rest) = dropped i mv (map pe_entryId rest)"
  using assms splice_at_index [of pe_entryId _ rest k] splice_after_index [of pe_entryId _ rest]
  by (auto simp: move_index_def dropped_def splice_insert_def split: option.splits entryMove.splits)

lemma reorder_row:
  assumes valid: "playlists_valid st" and e: "e \<in> set (ps_entries st)" "pe_entryId e = i"
    and k: "k \<le> length (others st e)"
    and es: "ps_entries st' =
       (case slot_position (slot_before (others st e) k) (slot_after (others st e) k) of
          None \<Rightarrow> renumber (splice_insert k e (others st e)) (ps_entries st)
        | Some q \<Rightarrow> moved_entries (ps_entries st) i (e\<lparr>pe_position := q\<rparr>))"
  shows "map pe_entryId (siblings (ps_entries st') (pe_playlistId e)) =
         map pe_entryId (splice_insert k e (others st e))"
proof -
  have fin: "list_all fin_pos (ps_entries st)" and d: "distinct (map pe_entryId (ps_entries st))"
    using valid by (auto simp: playlists_valid_def list_all_iff entry_row_ok_iff double_pos_def)
  show ?thesis
  proof (cases "slot_position (slot_before (others st e) k) (slot_after (others st e) k)")
    case None
    let ?order = "splice_insert k e (others st e)"
    have perm: "mset ?order = mset (filter (\<lambda>x. pe_playlistId x = pe_playlistId e) (ps_entries st))"
      by (rule others_mset [OF d e(1)])
    have "mset (map pe_entryId ?order) =
          mset (map pe_entryId (filter (\<lambda>x. pe_playlistId x = pe_playlistId e) (ps_entries st)))"
      using perm by (simp only: mset_map)
    then have "distinct (map pe_entryId ?order)"
      using distinct_map_filter [OF d] by (metis mset_eq_imp_distinct_iff)
    then have "siblings (ps_entries st') (pe_playlistId e) = renumber ?order ?order"
      unfolding es None by (simp add: siblings_renumbered [OF fin perm])
    then show ?thesis by simp
  next
    case (Some q)
    obtain r where q: "q = Fin r"
      using slot_double [OF valid k Some] by blast
    have "siblings (ps_entries st') (pe_playlistId e) = splice_insert k (e\<lparr>pe_position := Fin r\<rparr>) (others st e)"
      unfolding es Some option.case q
      by (rule siblings_moved [OF fin d e _ k])
        (use Some e(2) q in \<open>simp_all add: others_def\<close>)
    then show ?thesis by (simp add: map_splice_insert)
  qed
qed

text \<open>Reordering an entry puts it exactly at the slot named (before or after a sibling, or last)
  in its playlist's order and leaves the relative order of all the others; this holds on both
  paths, the midpoint in floating point and the fallback that renumbers when no double separates
  the neighbours, and also when siblings share a position.\<close>

theorem playlist_reorder_lands:
  assumes valid: "playlists_valid st" and run: "reorderPlaylistEntry st i mv now = Inr st'"
    and e: "entryById st i = Some e"
  shows "map pe_entryId (siblings (ps_entries st') (pe_playlistId e)) =
         dropped i mv (filter (\<lambda>x. x \<noteq> i) (map pe_entryId (siblings (ps_entries st) (pe_playlistId e))))"
proof -
  obtain n e' k where r: "e' \<in> set (ps_entries st)" "pe_entryId e' = i"
      "move_index (others st e') mv = Some k" "k \<le> length (others st e')"
      "ps_entries st' =
       (case slot_position (slot_before (others st e') k) (slot_after (others st e') k) of
          None \<Rightarrow> renumber (splice_insert k e' (others st e')) (ps_entries st)
        | Some q \<Rightarrow> moved_entries (ps_entries st) i (e'\<lparr>pe_position := q\<rparr>))"
    by (rule reorder_result [OF run])
  have "e' = e"
    using entryById_Some [OF e] r(1,2) valid distinct_ids_eq [of pe_entryId "ps_entries st" e' e]
    by (simp add: playlists_valid_def)
  moreover have "map pe_entryId (others st e) =
      filter (\<lambda>x. x \<noteq> i) (map pe_entryId (siblings (ps_entries st) (pe_playlistId e)))"
    using entryById_Some [OF e] by (simp add: others_def filter_map comp_def)
  ultimately show ?thesis
    using reorder_row [OF valid r(1,2,4,5)] move_index_dropped [OF r(3,2)] by simp
qed

section \<open>Instances\<close>

definition sample_entry_at :: "string \<Rightarrow> rat \<Rightarrow> playlistEntry" where
  "sample_entry_at i q =
     \<lparr>pe_entryId = i, pe_playlistId = ''p'', pe_recordingId = ''r'', pe_position = Fin q,
      pe_selectedRef = None, pe_addedMs = 5\<rparr>"

definition sample_playlists :: playlistState where
  "sample_playlists =
     \<lparr>ps_playlists = [\<lparr>pl_playlistId = ''p'', pl_name = ''Mix'', pl_createdMs = 5, pl_updatedMs = 9\<rparr>],
      ps_entries = [sample_entry_at ''a'' 1, sample_entry_at ''b'' 2, sample_entry_at ''c'' 2]\<rparr>"

lemma sample_playlists_valid: "playlists_valid sample_playlists"
  by (simp add: playlists_valid_def sample_playlists_def sample_entry_at_def playlist_row_ok_iff
      entry_row_ok_iff bad_id_def double_pos_def fin_pos_iff pos_of_def max_double_def)

definition renamed_playlists :: playlistState where
  "renamed_playlists = sample_playlists\<lparr>ps_playlists :=
     [\<lparr>pl_playlistId = ''p'', pl_name = ''Old'', pl_createdMs = 5, pl_updatedMs = 9\<rparr>]\<rparr>"

theorem playlist_use_cases_keep_valid_witness: "playlists_valid renamed_playlists"
proof (rule playlist_use_cases_keep_valid [OF sample_playlists_valid])
  show "playlist_exec (Rename ''p'' ''Old'' (jnat 2)) sample_playlists = Inr renamed_playlists"
    by (simp add: renamePlaylist_def requireId_def requireName_def requireNow_def bad_id_def
        playlistById_def sample_playlists_def renamed_playlists_def js_trim_def js_space_def
        safe_nat_def safe_int_def)
qed (simp add: sample_playlists_def)

text \<open>Moving the first entry between two that share a position renumbers the playlist.\<close>

definition renumbered_playlists :: playlistState where
  "renumbered_playlists = sample_playlists\<lparr>ps_playlists :=
       [\<lparr>pl_playlistId = ''p'', pl_name = ''Mix'', pl_createdMs = 5, pl_updatedMs = 12\<rparr>],
     ps_entries := [sample_entry_at ''a'' 2, sample_entry_at ''b'' 1, sample_entry_at ''c'' 3]\<rparr>"

lemma sample_reorder:
  "reorderPlaylistEntry sample_playlists ''a'' (Some (Before ''c'')) (jnat 12) = Inr renumbered_playlists"
proof -
  have "to_double 4 = Fin 4" "to_double 2 = Fin 2"
    using to_double_nat [of 4] to_double_nat [of 2] by simp_all
  then show ?thesis
    by (simp add: reorderPlaylistEntry_def requireId_def requireNow_def bad_id_def entryById_def
        sample_playlists_def sample_entry_at_def siblings_def compare_positions_def move_index_def
        slot_before_def slot_after_def slot_position_def renumber_def bumpUpdated_def
        renumbered_playlists_def splice_insert_def safe_nat_def safe_int_def)
qed

theorem playlist_reorder_lands_witness:
  "map pe_entryId (siblings (ps_entries renumbered_playlists) ''p'') = [''b'', ''a'', ''c'']"
  using playlist_reorder_lands [OF sample_playlists_valid sample_reorder,
      of "sample_entry_at ''a'' 1"]
  by (simp add: entryById_def sample_playlists_def sample_entry_at_def siblings_def dropped_def
      compare_positions_def)

end
