(* ===== verification/History.thy ===== *)
theory History
  imports SyncLog Doubles Errors DomainGuards
begin

text \<open>
  Listening history and likes: \<open>packages/application/src/library/history.ts\<close> and
  \<open>library/likes.ts\<close>. \<open>recordPlay\<close> appends a counted play and prunes the history; \<open>topPlayed\<close>
  ranks the play counts through a bounded binary heap kept in an array, here a list updated by
  index; the two sift loops are recursive functions with the source's guards.
\<close>

section \<open>Recording a play\<close>

definition PLAY_COUNT_MIN_LISTENED_MS :: nat where
  "PLAY_COUNT_MIN_LISTENED_MS = 120000"

definition PLAY_COUNT_DURATION_FRACTION :: rat where
  "PLAY_COUNT_DURATION_FRACTION = 1 / 2"

definition TOP_PLAYED_LIMIT :: nat where
  "TOP_PLAYED_LIMIT = 50"

record playEvent =
  ev_eventId :: string
  ev_recordingId :: string
  ev_occurrenceId :: "string option"
  ev_playedMs :: nat
  ev_listenedMs :: nat

record playCount =
  pc_recordingId :: string
  pc_count :: nat
  pc_localCount :: "nat option"
  pc_loggedRemote :: "nat option"
  pc_loggedOurs :: "nat option"
  pc_lastMs :: nat

record playSections =
  hs_playHistory :: "playEvent list"
  hs_playCounts :: "playCount list"

text \<open>The threshold test; the product by one half is exact on safe integers.\<close>

definition countsAsPlay :: "jsnum \<Rightarrow> jsnum option \<Rightarrow> exn + bool" where
  "countsAsPlay listenedMs durationMs =
     (case safe_nat listenedMs of
        None \<Rightarrow> Inl (TypeError ''listenedMs must be a safe nonnegative integer'')
      | Some listened \<Rightarrow>
          if (case durationMs of None \<Rightarrow> False | Some d \<Rightarrow> safe_nat d = None) then
            Inl (TypeError ''durationMs must be a safe nonnegative integer or null'')
          else if PLAY_COUNT_MIN_LISTENED_MS \<le> listened then Inr True
          else Inr (case durationMs of
                      None \<Rightarrow> False
                    | Some d \<Rightarrow>
                        0 < the (safe_nat d) \<and>
                        of_nat (the (safe_nat d)) * PLAY_COUNT_DURATION_FRACTION \<le> of_nat listened))"

record playInput =
  in_eventId :: string
  in_recordingId :: string
  in_occurrenceId :: "string option"
  in_listenedMs :: jsnum
  in_durationMs :: "jsnum option"
  in_nowMs :: jsnum

definition play_horizon :: "playEvent list \<Rightarrow> nat \<Rightarrow> nat" where
  "play_horizon history nowMs = fold (\<lambda>e mx. max mx (ev_playedMs e)) history nowMs"

text \<open>\<open>n + 1\<close> on numbers: exact below \<open>2^53\<close>, rounded to the nearest double from there on.\<close>

definition plus_one :: "nat \<Rightarrow> nat" where
  "plus_one n = (if n < 2 ^ 53 then n + 1 else nat \<lfloor>rnd (of_nat n + 1)\<rfloor>)"

definition bumped_count :: "playCount option \<Rightarrow> string \<Rightarrow> nat \<Rightarrow> playCount" where
  "bumped_count existing recordingId horizon =
     \<lparr>pc_recordingId = recordingId,
      pc_count = plus_one (case existing of None \<Rightarrow> 0 | Some c \<Rightarrow> pc_count c),
      pc_localCount =
        Some (plus_one (case existing of None \<Rightarrow> 0
                        | Some c \<Rightarrow> (case pc_localCount c of None \<Rightarrow> 0 | Some n \<Rightarrow> n))),
      pc_loggedRemote = (case existing of None \<Rightarrow> None | Some c \<Rightarrow> pc_loggedRemote c),
      pc_loggedOurs = (case existing of None \<Rightarrow> None | Some c \<Rightarrow> pc_loggedOurs c),
      pc_lastMs = max horizon (case existing of None \<Rightarrow> 0 | Some c \<Rightarrow> pc_lastMs c)\<rparr>"

definition recordPlay :: "playSections \<Rightarrow> playInput \<Rightarrow> exn + (playSections \<times> bool)" where
  "recordPlay sections input =
     (if \<not> isString (JStr (in_eventId input)) 64 then
        Inl (TypeError ''eventId must be a nonempty id'')
      else if \<not> isString (JStr (in_recordingId input)) 64 then
        Inl (TypeError ''recordingId must be a nonempty id'')
      else if (case in_occurrenceId input of None \<Rightarrow> False | Some i \<Rightarrow> \<not> isString (JStr i) 64) then
        Inl (TypeError ''occurrenceId must be a nonempty id or null'')
      else case safe_nat (in_nowMs input) of
        None \<Rightarrow> Inl (TypeError ''nowMs must be a safe nonnegative integer'')
      | Some nowMs \<Rightarrow>
          if list_ex (\<lambda>e. ev_eventId e = in_eventId input) (hs_playHistory sections) then
            Inl (TypeError ''duplicate eventId'')
          else case countsAsPlay (in_listenedMs input) (in_durationMs input) of
            Inl e \<Rightarrow> Inl e
          | Inr False \<Rightarrow> Inr (sections, False)
          | Inr True \<Rightarrow>
              if in_occurrenceId input \<noteq> None \<and>
                 list_ex (\<lambda>e. ev_occurrenceId e = in_occurrenceId input) (hs_playHistory sections)
              then Inr (sections, False)
              else
                let horizon = play_horizon (hs_playHistory sections) nowMs;
                    event = \<lparr>ev_eventId = in_eventId input, ev_recordingId = in_recordingId input,
                             ev_occurrenceId = in_occurrenceId input, ev_playedMs = horizon,
                             ev_listenedMs = the (safe_nat (in_listenedMs input))\<rparr>;
                    cutoff = int horizon - int PLAY_HISTORY_RETENTION_MS;
                    history = filter (\<lambda>e. cutoff \<le> int (ev_playedMs e)) (hs_playHistory sections) @ [event];
                    existing = find (\<lambda>c. pc_recordingId c = in_recordingId input) (hs_playCounts sections);
                    count = bumped_count existing (in_recordingId input) horizon;
                    counts = (if existing = None then hs_playCounts sections @ [count]
                              else map (\<lambda>c. if pc_recordingId c = in_recordingId input then count else c)
                                     (hs_playCounts sections))
                in Inr (\<lparr>hs_playHistory = history, hs_playCounts = counts\<rparr>, True))"

section \<open>The heap of the Top 50\<close>

text \<open>Count descending, last play descending, id ascending.\<close>

definition rankPlayCount :: "playCount \<Rightarrow> playCount \<Rightarrow> int" where
  "rankPlayCount a b =
     (if pc_count a \<noteq> pc_count b then int (pc_count b) - int (pc_count a)
      else if pc_lastMs a \<noteq> pc_lastMs b then int (pc_lastMs b) - int (pc_lastMs a)
      else if pc_recordingId a < pc_recordingId b then - 1
      else if pc_recordingId b < pc_recordingId a then 1
      else 0)"

definition swap_at :: "nat \<Rightarrow> nat \<Rightarrow> 'a list \<Rightarrow> 'a list" where
  "swap_at i j xs = xs[i := xs ! j, j := xs ! i]"

fun siftUp :: "('a \<Rightarrow> 'a \<Rightarrow> int) \<Rightarrow> nat \<Rightarrow> 'a list \<Rightarrow> 'a list" where
  "siftUp rank i heap =
     (if 0 < i \<and> i < length heap then
        let parent = (i - 1) div 2
        in if 0 \<le> rank (heap ! parent) (heap ! i) then heap
           else siftUp rank parent (swap_at parent i heap)
      else heap)"

text \<open>The child \<open>siftDown\<close> would swap with: the worse of the two, if worse than the node.\<close>

definition sift_child :: "('a \<Rightarrow> 'a \<Rightarrow> int) \<Rightarrow> nat \<Rightarrow> 'a list \<Rightarrow> nat" where
  "sift_child rank i heap =
     (let left = i * 2 + 1; right = left + 1; n = length heap;
          s = (if left < n \<and> i < n \<and> 0 < rank (heap ! left) (heap ! i) then left else i)
      in if right < n \<and> s < n \<and> 0 < rank (heap ! right) (heap ! s) then right else s)"

lemma sift_child_bounds:
  "sift_child rank i heap \<noteq> i \<Longrightarrow> i < sift_child rank i heap \<and> sift_child rank i heap < length heap"
  by (auto simp: sift_child_def Let_def split: if_splits)

lemma length_swap_at [simp]: "length (swap_at i j xs) = length xs"
  by (simp add: swap_at_def)

function siftDown :: "('a \<Rightarrow> 'a \<Rightarrow> int) \<Rightarrow> nat \<Rightarrow> 'a list \<Rightarrow> 'a list" where
  "siftDown rank i heap =
     (let smallest = sift_child rank i heap
      in if smallest = i then heap else siftDown rank smallest (swap_at i smallest heap))"
  by pat_completeness auto
termination
  by (relation "measure (\<lambda>(rank, i, heap). length heap - i)")
    (auto dest!: sift_child_bounds intro: diff_less_mono2)

declare siftUp.simps [simp del] siftDown.simps [simp del]

text \<open>One resolvable count against the heap of the best so far.\<close>

definition keep_best :: "('a \<Rightarrow> 'a \<Rightarrow> int) \<Rightarrow> nat \<Rightarrow> 'a \<Rightarrow> 'a list \<Rightarrow> 'a list" where
  "keep_best rank limit x heap =
     (if length heap < limit then siftUp rank (length heap) (heap @ [x])
      else if heap \<noteq> [] \<and> rank x (heap ! 0) < 0 then siftDown rank 0 (heap[0 := x])
      else heap)"

type_synonym topRow = "string \<times> nat \<times> nat"

text \<open>
  The recordings enter by their ids only: a row is (recording id, count, last play), and the
  join keeps the ids that resolve.
\<close>

definition top_row :: "playCount \<Rightarrow> topRow" where
  "top_row c = (pc_recordingId c, pc_count c, pc_lastMs c)"

definition topPlayed :: "playCount list \<Rightarrow> string list \<Rightarrow> jsnum \<Rightarrow> exn + topRow list" where
  "topPlayed playCounts recordingIds limit =
     (case safe_int limit of
        None \<Rightarrow> Inl (TypeError ''limit must be a positive safe integer'')
      | Some l \<Rightarrow>
          if l < 1 then Inl (TypeError ''limit must be a positive safe integer'')
          else
            let heap = fold (\<lambda>entry heap.
                   if pc_recordingId entry \<notin> set recordingIds then heap
                   else keep_best rankPlayCount (nat l) entry heap) playCounts []
            in Inr (map top_row
                 (filter (\<lambda>c. pc_recordingId c \<in> set recordingIds) (sort_by rankPlayCount heap))))"

section \<open>Likes\<close>

record like =
  lk_entityKind :: string
  lk_targetId :: string
  lk_likedAtMs :: nat

definition like_is :: "string \<Rightarrow> string \<Rightarrow> like \<Rightarrow> bool" where
  "like_is entityKind targetId l = (lk_entityKind l = entityKind \<and> lk_targetId l = targetId)"

definition like_toggle ::
  "like list \<Rightarrow> string \<Rightarrow> string \<Rightarrow> jsnum \<Rightarrow> string \<Rightarrow> exn + like list" where
  "like_toggle likes entityKind targetId nowMs label =
     (if js_trim targetId = [] then Inl (TypeError (label @ '' must be nonempty''))
      else case safe_nat nowMs of
        None \<Rightarrow> Inl (TypeError ''nowMs must be a safe nonnegative integer'')
      | Some now \<Rightarrow>
          (case find_index (like_is entityKind targetId) likes of
             Some existing \<Rightarrow> Inr (splice_remove existing likes)
           | None \<Rightarrow> Inr (likes @ [\<lparr>lk_entityKind = entityKind, lk_targetId = targetId,
                                    lk_likedAtMs = now\<rparr>])))"

definition toggleTrackLike :: "like list \<Rightarrow> string \<Rightarrow> jsnum \<Rightarrow> exn + like list" where
  "toggleTrackLike likes recordingId nowMs =
     like_toggle likes ''track'' recordingId nowMs ''recordingId''"

definition toggleEntityLike :: "like list \<Rightarrow> string \<Rightarrow> string \<Rightarrow> jsnum \<Rightarrow> exn + like list" where
  "toggleEntityLike likes kind entityId nowMs =
     (if kind \<noteq> ''album'' \<and> kind \<noteq> ''artist'' \<and> kind \<noteq> ''playlist'' then
        Inl (TypeError ''kind must be an entity kind'')
      else like_toggle likes kind entityId nowMs ''entityId'')"

end
