(* ===== verification/HistoryLaws.thy ===== *)
theory HistoryLaws
  imports History
begin

text \<open>
  The laws of the listening history: the bounded heap is proved against sorting inside the
  interface \<open>comparator\<close>, for any three-way comparison, and the rank of play counts is an
  instance of it.
\<close>

section \<open>Sift loops keep the contents\<close>

lemma mset_swap_at: "i < length xs \<Longrightarrow> j < length xs \<Longrightarrow> mset (swap_at i j xs) = mset xs"
  by (simp add: swap_at_def mset_swap)

lemma swap_at_nth:
  "i < length xs \<Longrightarrow> j < length xs \<Longrightarrow> k < length xs \<Longrightarrow>
     swap_at i j xs ! k = (if k = j then xs ! i else if k = i then xs ! j else xs ! k)"
  by (simp add: swap_at_def nth_list_update)

lemma mset_siftUp: "mset (siftUp rank i h) = mset h"
proof (induction rank i h rule: siftUp.induct)
  case (1 rank i h)
  then show ?case
    by (subst siftUp.simps) (auto simp: Let_def mset_swap_at)
qed

lemma mset_siftDown: "mset (siftDown rank i h) = mset h"
proof (induction rank i h rule: siftDown.induct)
  case (1 rank i h)
  show ?case
  proof (cases "sift_child rank i h = i")
    case True
    then show ?thesis by (subst siftDown.simps) simp
  next
    case False
    then show ?thesis
      using 1 sift_child_bounds [OF False] by (subst siftDown.simps) (simp add: Let_def mset_swap_at)
  qed
qed

section \<open>Heap order\<close>

definition par :: "nat \<Rightarrow> nat" where
  "par j = (j - 1) div 2"

lemma par_less: "0 < j \<Longrightarrow> par j < j"
  by (simp add: par_def)

lemma par_child: "0 < j \<Longrightarrow> par j = i \<longleftrightarrow> j = 2 * i + 1 \<or> j = 2 * i + 2"
  by (auto simp: par_def)

text \<open>Every node's key is at most its parent's: the root is the worst kept entry.\<close>

definition heap_ok :: "('a \<Rightarrow> 'k::linorder) \<Rightarrow> 'a list \<Rightarrow> bool" where
  "heap_ok key h = (\<forall>j<length h. 0 < j \<longrightarrow> key (h ! j) \<le> key (h ! par j))"

definition heap_up :: "('a \<Rightarrow> 'k::linorder) \<Rightarrow> nat \<Rightarrow> 'a list \<Rightarrow> bool" where
  "heap_up key i h =
     (\<forall>j<length h. 0 < j \<longrightarrow>
        (j \<noteq> i \<longrightarrow> key (h ! j) \<le> key (h ! par j)) \<and>
        (par j = i \<longrightarrow> 0 < i \<longrightarrow> key (h ! j) \<le> key (h ! par i)))"

definition heap_down :: "('a \<Rightarrow> 'k::linorder) \<Rightarrow> nat \<Rightarrow> 'a list \<Rightarrow> bool" where
  "heap_down key i h =
     (\<forall>j<length h. 0 < j \<longrightarrow>
        (par j \<noteq> i \<longrightarrow> key (h ! j) \<le> key (h ! par j)) \<and>
        (par j = i \<longrightarrow> 0 < i \<longrightarrow> key (h ! j) \<le> key (h ! par i)))"

lemma heap_root:
  assumes "heap_ok key h" "j < length h"
  shows "key (h ! j) \<le> key (h ! 0)"
  using assms(2)
proof (induction j rule: less_induct)
  case (less j)
  show ?case
  proof (cases "j = 0")
    case False
    then have "par j < j" by (simp add: par_less)
    then have "key (h ! j) \<le> key (h ! par j)" "key (h ! par j) \<le> key (h ! 0)"
      using assms(1) less False by (auto simp: heap_ok_def)
    then show ?thesis by (rule order_trans)
  qed simp
qed

lemma swap_up:
  assumes up: "heap_up key i h" and i: "0 < i" "i < length h"
    and worse: "key (h ! par i) < key (h ! i)"
  shows "heap_up key (par i) (swap_at (par i) i h)"
  unfolding heap_up_def length_swap_at
proof (intro allI impI)
  let ?p = "par i" let ?h = "swap_at ?p i h"
  have p: "?p < i" "?p < length h" using par_less [OF i(1)] i(2) by auto
  note nth = swap_at_nth [OF p(2) i(2)]
  fix j assume j: "j < length h" "0 < j"
  have pj: "par j < j" "par j < length h" using par_less [OF j(2)] j(1) by auto
  have *: "j \<noteq> i \<longrightarrow> key (h ! j) \<le> key (h ! par j)"
    "par j = i \<longrightarrow> key (h ! j) \<le> key (h ! ?p)"
    using up j i unfolding heap_up_def by auto
  have first: "key (?h ! j) \<le> key (?h ! par j)" if "j \<noteq> ?p"
  proof (cases "j = i")
    case True
    then show ?thesis using worse p by (simp add: nth i)
  next
    case False
    then consider "par j = i" | "par j = ?p" | "par j \<noteq> i" "par j \<noteq> ?p" by blast
    then show ?thesis
      by cases (use * False that worse p pj j i in \<open>auto simp: nth\<close>)
  qed
  have second: "key (?h ! j) \<le> key (?h ! par ?p)" if "par j = ?p" "0 < ?p"
  proof -
    have pp: "par ?p < ?p" using par_less [OF that(2)] .
    have up_p: "key (h ! ?p) \<le> key (h ! par ?p)"
      using up p that(2) unfolding heap_up_def by auto
    have "key (?h ! j) \<le> key (h ! ?p)"
      using *(1) that pj by (cases "j = i") (auto simp: nth j p i)
    moreover have "?h ! par ?p = h ! par ?p"
      using pp p by (simp add: nth)
    ultimately show ?thesis using up_p by simp
  qed
  show "(j \<noteq> ?p \<longrightarrow> key (?h ! j) \<le> key (?h ! par j)) \<and>
        (par j = ?p \<longrightarrow> 0 < ?p \<longrightarrow> key (?h ! j) \<le> key (?h ! par ?p))"
    using first second by blast
qed

lemma heap_up_done:
  assumes "heap_up key i h" "i = 0 \<or> length h \<le> i \<or> key (h ! i) \<le> key (h ! par i)"
  shows "heap_ok key h"
  using assms by (auto simp: heap_up_def heap_ok_def)

text \<open>Sinking: the child chosen is at least as bad as the node and as its sibling.\<close>

lemma swap_down:
  assumes down: "heap_down key i h" and c: "c < length h" "0 < c" "par c = i"
    and worse: "key (h ! i) < key (h ! c)"
    and sib: "\<And>j. j < length h \<Longrightarrow> 0 < j \<Longrightarrow> par j = i \<Longrightarrow> key (h ! j) \<le> key (h ! c)"
  shows "heap_down key c (swap_at i c h)"
  unfolding heap_down_def length_swap_at
proof (intro allI impI)
  let ?h = "swap_at i c h"
  have ic: "i < c" "i < length h" using par_less [OF c(2)] c by auto
  note nth = swap_at_nth [OF ic(2) c(1)]
  fix j assume j: "j < length h" "0 < j"
  have pj: "par j < j" "par j < length h" using par_less [OF j(2)] j(1) by auto
  have *: "par j \<noteq> i \<longrightarrow> key (h ! j) \<le> key (h ! par j)"
    "par j = i \<longrightarrow> 0 < i \<longrightarrow> key (h ! j) \<le> key (h ! par i)"
    using down j unfolding heap_down_def by auto
  have first: "key (?h ! j) \<le> key (?h ! par j)" if "par j \<noteq> c"
  proof -
    consider (child) "par j = i" "j = c" | (sibling) "par j = i" "j \<noteq> c"
      | (node) "par j \<noteq> i" "j = i" | (other) "par j \<noteq> i" "j \<noteq> i"
      by blast
    then show ?thesis
    proof cases
      case child
      then show ?thesis using worse ic by (simp add: nth c)
    next
      case sibling
      then show ?thesis using sib [OF j] ic pj j by (auto simp: nth)
    next
      case node
      then have "key (h ! c) \<le> key (h ! par i)"
        using down c j unfolding heap_down_def by auto
      then show ?thesis using node that ic pj j by (auto simp: nth)
    next
      case other
      have "j \<noteq> c" using other c by auto
      then show ?thesis using * other that pj j by (auto simp: nth)
    qed
  qed
  have second: "key (?h ! j) \<le> key (?h ! par c)" if "par j = c"
  proof -
    have "key (h ! j) \<le> key (h ! c)" "j \<noteq> i" "j \<noteq> c"
      using *(1) that ic pj by auto
    then show ?thesis using c ic j by (simp add: nth)
  qed
  show "(par j \<noteq> c \<longrightarrow> key (?h ! j) \<le> key (?h ! par j)) \<and>
        (par j = c \<longrightarrow> 0 < c \<longrightarrow> key (?h ! j) \<le> key (?h ! par c))"
    using first second by blast
qed

section \<open>Sorted prefixes\<close>

text \<open>What one more element does to the best \<open>n\<close>.\<close>

lemma sort_mset: "mset xs = mset ys \<Longrightarrow> sort xs = sort (ys :: 'k::linorder list)"
  by (metis mset_sort properties_for_sort sorted_sort)

lemma take_insort: "take n (insort x ys) = take n (insort x (take n ys))" for x :: "'k::linorder"
proof (induction ys arbitrary: n)
  case (Cons y ys)
  then show ?case
    by (cases n) (auto simp: take_Cons' min_def)
qed simp

lemma take_sort_snoc:
  "take n (sort (xs @ [x])) = take n (insort x (take n (sort xs)))" for x :: "'k::linorder"
proof -
  have "sort (xs @ [x]) = insort x (sort xs)"
    using sort_mset [of "xs @ [x]" "x # xs"] by simp
  then show ?thesis by (simp add: take_insort [of n x "sort xs"])
qed

lemma insort_before_last: "k \<le> m \<Longrightarrow> insort k (ys @ [m]) = insort k ys @ [m]" for k :: "'k::linorder"
  by (induction ys) auto

lemma best_step:
  fixes S :: "'k::linorder list"
  assumes "sorted S" "length S \<le> n" "0 < n"
  shows "mset (take n (insort k S)) =
    (if length S < n then add_mset k (mset S)
     else if k < last S then add_mset k (mset S - {#last S#}) else mset S)"
proof (cases "length S < n")
  case False
  then have len: "length S = n" "S \<noteq> []" using assms by auto
  then obtain ys m where S: "S = ys @ [m]" by (metis rev_exhaust)
  show ?thesis
  proof (cases "k < m")
    case True
    then have "take n (insort k S) = insort k ys"
      using len(1) by (simp add: S insort_before_last)
    then show ?thesis using True len(1) by (simp add: S)
  next
    case False
    then have "\<forall>x\<in>set S. x \<le> k"
      using assms(1) by (auto simp: S sorted_append)
    then have "insort k S = S @ [k]"
      using assms(1) by (rule sorted_insort_is_snoc [rotated])
    then show ?thesis using False by (simp add: S flip: len(1))
  qed
qed simp

context comparator
begin

lemma siftUp_heap: "heap_up key i h \<Longrightarrow> heap_ok key (siftUp cmp i h)"
proof (induction i arbitrary: h rule: less_induct)
  case (less i)
  show ?case
  proof (cases "0 < i \<and> i < length h \<and> key (h ! par i) < key (h ! i)")
    case True
    then have "siftUp cmp i h = siftUp cmp (par i) (swap_at (par i) i h)"
      by (subst siftUp.simps) (simp add: Let_def par_def cmp_neg [symmetric] not_le)
    then show ?thesis
      using True less.IH [OF par_less] swap_up [OF less.prems] by simp
  next
    case False
    then have "siftUp cmp i h = h"
      by (subst siftUp.simps) (auto simp: Let_def par_def not_le cmp_neg)
    moreover have "heap_ok key h"
      using less.prems False by (intro heap_up_done) auto
    ultimately show ?thesis by simp
  qed
qed

lemma sift_child_cases:
  assumes "i < length h"
  shows "sift_child cmp i h =
     (let l = 2 * i + 1; r = 2 * i + 2; s = (if l < length h \<and> key (h ! i) < key (h ! l) then l else i)
      in if r < length h \<and> key (h ! s) < key (h ! r) then r else s)"
  using assms by (simp add: sift_child_def Let_def cmp_pos mult.commute [of i 2])

lemma sift_child_none:
  assumes "i < length h" "sift_child cmp i h = i" "0 < j" "j < length h" "par j = i"
  shows "key (h ! j) \<le> key (h ! i)"
  using assms par_child [OF assms(3), of i]
  by (auto simp: sift_child_cases Let_def split: if_splits)

lemma sift_child_some:
  assumes "i < length h" "sift_child cmp i h \<noteq> i"
  defines "c \<equiv> sift_child cmp i h"
  shows "0 < c" "par c = i" "key (h ! i) < key (h ! c)" "c < length h"
    and "j < length h \<Longrightarrow> 0 < j \<Longrightarrow> par j = i \<Longrightarrow> key (h ! j) \<le> key (h ! c)"
proof -
  show "c < length h" "0 < c"
    using sift_child_bounds [OF assms(2)] by (auto simp: c_def)
  show "par c = i" "key (h ! i) < key (h ! c)"
    using assms(1,2) unfolding c_def
    by (auto simp: sift_child_cases Let_def par_def split: if_splits)
  assume j: "j < length h" "0 < j" "par j = i"
  then have "j = 2 * i + 1 \<or> j = 2 * i + 2"
    using par_child [OF j(2), of i] by simp
  then show "key (h ! j) \<le> key (h ! c)"
    using assms(1,2) j(1) unfolding c_def
    by (auto simp: sift_child_cases Let_def split: if_splits)
qed

lemma siftDown_heap: "i < length h \<Longrightarrow> heap_down key i h \<Longrightarrow> heap_ok key (siftDown cmp i h)"
proof (induction "length h - i" arbitrary: i h rule: less_induct)
  case less
  show ?case
  proof (cases "sift_child cmp i h = i")
    case True
    have "key (h ! j) \<le> key (h ! par j)" if "j < length h" "0 < j" for j
    proof (cases "par j = i")
      case pi: True
      then show ?thesis
        using sift_child_none [OF less.prems(1) True that(2,1)] by simp
    next
      case False
      then show ?thesis using less.prems(2) that unfolding heap_down_def by blast
    qed
    then have "heap_ok key h"
      by (simp add: heap_ok_def)
    then show ?thesis by (subst siftDown.simps) (simp add: True)
  next
    case False
    let ?c = "sift_child cmp i h"
    have c: "i < ?c" "?c < length h" using sift_child_bounds [OF False] by auto
    note spec = sift_child_some [OF less.prems(1) False]
    have "heap_down key ?c (swap_at i ?c h)"
      using spec by (intro swap_down [OF less.prems(2)]) auto
    then have "heap_ok key (siftDown cmp ?c (swap_at i ?c h))"
      using c by (intro less.hyps) auto
    then show ?thesis
      by (subst siftDown.simps) (simp add: False Let_def)
  qed
qed

section \<open>The heap holds the best\<close>

lemma heap_append: "heap_ok key h \<Longrightarrow> heap_up key (length h) (h @ [x])"
proof -
  assume ok: "heap_ok key h"
  have small: "par j < length h" if "j < length (h @ [x])" "0 < j" for j
    using par_less [OF that(2)] that(1) by auto
  show ?thesis
    unfolding heap_up_def
  proof (intro allI impI conjI)
    fix j assume j: "j < length (h @ [x])" "0 < j"
    show "key ((h @ [x]) ! j) \<le> key ((h @ [x]) ! par j)" if "j \<noteq> length h"
      using ok j that small [OF j] by (auto simp: heap_ok_def nth_append)
    show "key ((h @ [x]) ! j) \<le> key ((h @ [x]) ! par (length h))" if "par j = length h"
      using small [OF j] that by simp
  qed
qed

lemma heap_single: "heap_up key 0 [x]"
  by (simp add: heap_up_def)

lemma heap_replace_root: "heap_ok key h \<Longrightarrow> heap_down key 0 (h[0 := x])"
  by (auto simp: heap_ok_def heap_down_def nth_list_update par_child)

lemma keep_best_heap: "heap_ok key h \<Longrightarrow> heap_ok key (keep_best cmp n x h)"
  unfolding keep_best_def
  by (auto intro!: siftUp_heap siftDown_heap heap_replace_root heap_single intro: heap_append)

lemma heap_max:
  assumes "heap_ok key h" "h \<noteq> []" "mset (map key h) = mset S" "sorted S"
  shows "key (h ! 0) = last S"
proof (rule antisym)
  have eq: "key ` set h = set S"
    using mset_eq_setD [OF assms(3)] by simp
  have ne: "S \<noteq> []" using eq assms(2) by auto
  have "key (h ! 0) \<in> set S" using eq assms(2) by auto
  then show "key (h ! 0) \<le> last S"
    using assms(4) by (cases S rule: rev_cases) (auto simp: sorted_append)
  have "last S \<in> key ` set h" using ne eq by auto
  then show "last S \<le> key (h ! 0)"
    using heap_root [OF assms(1)] by (auto simp: in_set_conv_nth)
qed

lemma keep_best_contents:
  assumes ok: "heap_ok key h" and n: "0 < n"
    and contents: "mset (map key h) = mset (take n (sort ks))"
  shows "mset (map key (keep_best cmp n x h)) = mset (take n (sort (ks @ [key x])))"
proof -
  let ?S = "take n (sort ks)"
  have S: "sorted ?S" "length ?S \<le> n" by (simp_all add: sorted_wrt_take)
  have len: "length h = length ?S"
    using arg_cong [OF contents, of size] by simp
  have right: "mset (take n (sort (ks @ [key x]))) =
    (if length h < n then add_mset (key x) (mset (map key h))
     else if key x < key (h ! 0) then add_mset (key x) (mset (map key h) - {#key (h ! 0)#})
     else mset (map key h))"
    unfolding take_sort_snoc best_step [OF S n] contents len
    using heap_max [OF ok _ contents S(1)] n len by (cases "h = []") auto
  have root: "h \<noteq> [] \<Longrightarrow> mset (map key (h[0 := x])) = add_mset (key x) (mset (map key h) - {#key (h ! 0)#})"
    by (cases h) simp_all
  show ?thesis
    unfolding right keep_best_def
    using n root
    by (auto simp: cmp_neg mset_siftUp mset_siftDown)
qed

lemma keep_best_fold:
  assumes "0 < n"
  shows "heap_ok key (fold (keep_best cmp n) xs []) \<and>
         mset (map key (fold (keep_best cmp n) xs [])) = mset (take n (sort (map key xs)))"
proof (induction xs rule: rev_induct)
  case (snoc x xs)
  then show ?case
    using keep_best_heap keep_best_contents [OF _ assms, of _ "map key xs" x] by simp
qed (simp add: heap_ok_def)

text \<open>Sorting the heap gives the first \<open>n\<close> of the sorted list, up to elements of equal key.\<close>

lemma keep_best_sorted:
  assumes "0 < n"
  shows "map key (sort_by cmp (fold (keep_best cmp n) xs [])) = map key (take n (sort_by cmp xs))"
proof -
  let ?h = "fold (keep_best cmp n) xs []"
  have "map key (sort_by cmp ?h) = sort (map key ?h)"
    by (rule properties_for_sort [symmetric]) (simp_all add: sort_by_sorted)
  also have "\<dots> = sort (take n (sort (map key xs)))"
    by (rule sort_mset) (use keep_best_fold [OF assms, of xs] in simp)
  also have "\<dots> = take n (sort (map key xs))"
    by (rule sort_key_id_if_sorted) (simp add: sorted_wrt_take)
  also have "sort (map key xs) = map key (sort_by cmp xs)"
    by (rule properties_for_sort) (simp_all add: sort_by_sorted)
  finally show ?thesis by (simp add: take_map)
qed

end

section \<open>The rank of play counts\<close>

definition rank_key :: "playCount \<Rightarrow> int \<times> int \<times> string" where
  "rank_key c = (- int (pc_count c), - int (pc_lastMs c), pc_recordingId c)"

interpretation rank: comparator rankPlayCount rank_key
  by unfold_locales (auto simp: rankPlayCount_def rank_key_def less_prod_def')

end
