(* ===== verification/HistoryTheorems.thy ===== *)
theory HistoryTheorems
  imports HistoryLaws
begin

text \<open>
  The properties of the listening history and the likes: the Top 50 equals sorting and cutting,
  a counted play is stamped and counted once, and a like toggles.
\<close>

section \<open>Top played\<close>

lemma fold_filtered:
  "fold (\<lambda>x acc. if P x then acc else f x acc) xs a = fold f (filter (\<lambda>x. \<not> P x) xs) a"
  by (induction xs arbitrary: a) auto

definition row_of_key :: "int \<times> int \<times> string \<Rightarrow> topRow" where
  "row_of_key k = (snd (snd k), nat (- fst k), nat (- fst (snd k)))"

lemma top_row_key: "top_row = row_of_key \<circ> rank_key"
  by (auto simp: rank_key_def top_row_def row_of_key_def)

lemma map_by_key: "map rank_key xs = map rank_key ys \<Longrightarrow> map top_row xs = map top_row ys"
  by (simp add: top_row_key flip: map_map)

text \<open>C20: The bounded heap computes what sorting would: for every limit, \<open>topPlayed\<close> returns the
  first \<open>limit\<close> rows of all resolvable counts ranked by count, then last play, then id.\<close>

theorem top_played_is_sorted_prefix:
  assumes l: "safe_int limit = Some l" "1 \<le> l"
  shows "topPlayed counts ids limit =
         Inr (map top_row (take (nat l)
           (sort_by rankPlayCount (filter (\<lambda>c. pc_recordingId c \<in> set ids) counts))))"
proof -
  let ?xs = "filter (\<lambda>c. pc_recordingId c \<in> set ids) counts"
  let ?h = "fold (keep_best rankPlayCount (nat l)) ?xs []"
  have pos: "0 < nat l" using l(2) by simp
  have heap: "fold (\<lambda>entry heap. if pc_recordingId entry \<notin> set ids then heap
      else keep_best rankPlayCount (nat l) entry heap) counts [] = ?h"
    by (simp add: fold_filtered)
  have keys: "map rank_key (sort_by rankPlayCount ?h) = map rank_key (take (nat l) (sort_by rankPlayCount ?xs))"
    by (rule rank.keep_best_sorted [OF pos])
  have "set (map pc_recordingId (sort_by rankPlayCount ?h)) \<subseteq> set ids"
  proof -
    have "map pc_recordingId (sort_by rankPlayCount ?h) =
          map pc_recordingId (take (nat l) (sort_by rankPlayCount ?xs))"
      using arg_cong [OF keys, of "map (snd \<circ> snd)"] by (simp add: rank_key_def comp_def)
    then show ?thesis by (auto dest!: in_set_takeD)
  qed
  then have "filter (\<lambda>c. pc_recordingId c \<in> set ids) (sort_by rankPlayCount ?h) = sort_by rankPlayCount ?h"
    by (intro filter_True) auto
  then show ?thesis
    using l map_by_key [OF keys] heap by (simp add: topPlayed_def Let_def)
qed

section \<open>Recording a play\<close>

definition history_ok :: "playSections \<Rightarrow> bool" where
  "history_ok s =
     (distinct (map ev_eventId (hs_playHistory s)) \<and>
      distinct (filter (\<lambda>i. i \<noteq> None) (map ev_occurrenceId (hs_playHistory s))) \<and>
      distinct (map pc_recordingId (hs_playCounts s)))"

definition total_plays :: "playCount list \<Rightarrow> nat" where
  "total_plays cs = sum_list (map pc_count cs)"

lemma horizon_ge: "nowMs \<le> play_horizon h nowMs \<and> (\<forall>e\<in>set h. ev_playedMs e \<le> play_horizon h nowMs)"
  unfolding play_horizon_def
proof (induction h arbitrary: nowMs)
  case (Cons e h)
  from Cons [of "max nowMs (ev_playedMs e)"] show ?case by simp
qed simp

lemma sum_replaced:
  fixes f :: "'a \<Rightarrow> nat"
  assumes "distinct (map g cs)" "c \<in> set cs" "g c = i"
  shows "sum_list (map f (map (\<lambda>x. if g x = i then y else x) cs)) + f c = sum_list (map f cs) + f y"
  using assms
proof (induction cs)
  case (Cons x cs)
  show ?case
  proof (cases "g x = i")
    case True
    then have "\<forall>z\<in>set cs. g z \<noteq> i"
      using Cons.prems(1) by (metis distinct.simps(2) imageI list.set_map list.simps(9))
    then have "map (\<lambda>x. if g x = i then y else x) cs = cs" and "c = x"
      using Cons.prems(2,3) by (auto intro!: map_idI)
    then show ?thesis using True by (simp del: map_map)
  next
    case False
    then show ?thesis using Cons by (auto simp: add.commute add.left_commute)
  qed
qed simp

lemma filter_none_ids: "distinct (filter (\<lambda>i. i \<noteq> None) (map f xs)) \<Longrightarrow>
   distinct (filter (\<lambda>i. i \<noteq> None) (map f (filter P xs)))"
proof -
  have "filter (\<lambda>x. f x \<noteq> None) (filter P xs) = filter P (filter (\<lambda>x. f x \<noteq> None) xs)"
    by (simp add: conj_commute)
  then show "distinct (filter (\<lambda>i. i \<noteq> None) (map f xs)) \<Longrightarrow> ?thesis"
    by (simp only: filter_map comp_def distinct_map_filter)
qed

lemma record_play_cases:
  assumes run: "recordPlay s input = Inr (s', recorded)"
  obtains (skipped) "s' = s" "\<not> recorded"
  | (counted) now listened where "recorded" "safe_nat (in_nowMs input) = Some now"
      "safe_nat (in_listenedMs input) = Some listened"
      "\<forall>e\<in>set (hs_playHistory s). ev_eventId e \<noteq> in_eventId input"
      "in_occurrenceId input = None \<or>
       (\<forall>e\<in>set (hs_playHistory s). ev_occurrenceId e \<noteq> in_occurrenceId input)"
      "hs_playHistory s' =
         filter (\<lambda>e. int (play_horizon (hs_playHistory s) now) - int PLAY_HISTORY_RETENTION_MS
                       \<le> int (ev_playedMs e)) (hs_playHistory s) @
         [\<lparr>ev_eventId = in_eventId input, ev_recordingId = in_recordingId input,
           ev_occurrenceId = in_occurrenceId input,
           ev_playedMs = play_horizon (hs_playHistory s) now, ev_listenedMs = listened\<rparr>]"
      "hs_playCounts s' =
         (let existing = find (\<lambda>c. pc_recordingId c = in_recordingId input) (hs_playCounts s);
              count = bumped_count existing (in_recordingId input) (play_horizon (hs_playHistory s) now)
          in if existing = None then hs_playCounts s @ [count]
             else map (\<lambda>c. if pc_recordingId c = in_recordingId input then count else c)
                    (hs_playCounts s))"
proof -
  obtain now where now: "safe_nat (in_nowMs input) = Some now"
    using run unfolding recordPlay_def by (auto split: if_splits option.splits)
  have new: "\<forall>e\<in>set (hs_playHistory s). ev_eventId e \<noteq> in_eventId input"
    using run now unfolding recordPlay_def by (auto simp: list_ex_iff split: if_splits)
  obtain b where b: "countsAsPlay (in_listenedMs input) (in_durationMs input) = Inr b"
    using run now unfolding recordPlay_def by (auto split: if_splits sum.splits)
  obtain listened where li: "safe_nat (in_listenedMs input) = Some listened"
    using b unfolding countsAsPlay_def by (auto split: option.splits)
  show thesis
  proof (cases "b \<and> \<not> (in_occurrenceId input \<noteq> None \<and>
      list_ex (\<lambda>e. ev_occurrenceId e = in_occurrenceId input) (hs_playHistory s))")
    case True
    show thesis
      by (rule counted [OF _ now li new])
        (use run now b True li in \<open>auto simp: recordPlay_def Let_def list_ex_iff split: if_splits\<close>)
  next
    case False
    show thesis
      by (rule skipped) (use run now b False in \<open>auto simp: recordPlay_def split: if_splits bool.splits\<close>)
  qed
qed

text \<open>A call of \<open>recordPlay\<close> either leaves both sections alone, or records one play: the total of
  all play counts grows by exactly one, the new event is stamped at the newest time seen (the
  wall clock or any earlier stamp), every event kept is within the retention window of that
  stamp and nothing inside the window is dropped. Event ids, occurrence ids and count rows stay
  unique, so no occurrence in the history is ever counted twice.\<close>

theorem record_play_counts_once:
  assumes ok: "history_ok s" and run: "recordPlay s input = Inr (s', recorded)"
    and exact: "\<forall>c\<in>set (hs_playCounts s). pc_count c < 2 ^ 53"
  shows "history_ok s' \<and>
    (if recorded then
       total_plays (hs_playCounts s') = Suc (total_plays (hs_playCounts s)) \<and>
       (let ev = last (hs_playHistory s') in
          hs_playHistory s' = filter (\<lambda>e. ev_playedMs ev \<le> ev_playedMs e + PLAY_HISTORY_RETENTION_MS)
                                (hs_playHistory s) @ [ev] \<and>
          ev_recordingId ev = in_recordingId input \<and> ev_occurrenceId ev = in_occurrenceId input \<and>
          list_all (\<lambda>e. ev_playedMs e \<le> ev_playedMs ev) (hs_playHistory s'))
     else s' = s)"
  using run
proof (cases rule: record_play_cases)
  case skipped
  then show ?thesis using ok by simp
next
  case (counted now listened)
  let ?hz = "play_horizon (hs_playHistory s) now"
  have window: "(int ?hz - int PLAY_HISTORY_RETENTION_MS \<le> int (ev_playedMs e)) =
      (?hz \<le> ev_playedMs e + PLAY_HISTORY_RETENTION_MS)" for e
    by linarith
  note hist = counted(6) [unfolded window]
  let ?ex = "find (\<lambda>c. pc_recordingId c = in_recordingId input) (hs_playCounts s)"
  have counts: "distinct (map pc_recordingId (hs_playCounts s')) \<and>
      total_plays (hs_playCounts s') = Suc (total_plays (hs_playCounts s))"
  proof (cases ?ex)
    case None
    then have "\<forall>c\<in>set (hs_playCounts s). pc_recordingId c \<noteq> in_recordingId input"
      by (auto simp: find_None_iff)
    moreover have "hs_playCounts s' = hs_playCounts s @ [bumped_count None (in_recordingId input) ?hz]"
      using counted(7) None by (simp add: Let_def)
    ultimately show ?thesis
      using ok by (auto simp: history_ok_def bumped_count_def plus_one_def total_plays_def)
  next
    case (Some c)
    then have c: "c \<in> set (hs_playCounts s)" "pc_recordingId c = in_recordingId input"
      by (auto dest: find_Some_set)
    let ?y = "bumped_count (Some c) (in_recordingId input) ?hz"
    have s': "hs_playCounts s' = map (\<lambda>x. if pc_recordingId x = in_recordingId input then ?y else x)
                (hs_playCounts s)"
      using counted(7) Some by (simp add: Let_def)
    have ids: "map pc_recordingId (hs_playCounts s') = map pc_recordingId (hs_playCounts s)"
      by (simp add: s' bumped_count_def)
    have "total_plays (hs_playCounts s') + pc_count c = total_plays (hs_playCounts s) + pc_count ?y"
      unfolding total_plays_def s'
      by (rule sum_replaced) (use ok c in \<open>auto simp: history_ok_def\<close>)
    then show ?thesis
      using ok ids exact c(1) by (simp add: history_ok_def bumped_count_def plus_one_def)
  qed
  have events: "distinct (map ev_eventId (hs_playHistory s'))"
    using ok counted(4) by (auto simp: hist history_ok_def distinct_map_filter)
  have occs: "distinct (filter (\<lambda>i. i \<noteq> None) (map ev_occurrenceId (hs_playHistory s')))"
    using filter_none_ids [of ev_occurrenceId "hs_playHistory s"] ok counted(5)
    by (auto simp: hist history_ok_def simp del: not_None_eq)
  show ?thesis
    using counts events occs horizon_ge [of now "hs_playHistory s"] counted(1)
    by (auto simp: history_ok_def hist Let_def list_all_iff)
qed

section \<open>Likes\<close>

text \<open>Toggling a track like flips whether the track is liked and keeps every other like: an
  unliked track is appended, a liked one is removed, and toggling an unliked track twice gives
  back the original list.\<close>

theorem track_like_toggles:
  assumes d: "distinct (map (\<lambda>l. (lk_entityKind l, lk_targetId l)) likes)"
    and run: "toggleTrackLike likes i now = Inr likes'"
  shows "(list_ex (like_is ''track'' i) likes' = (\<not> list_ex (like_is ''track'' i) likes)) \<and>
         filter (\<lambda>l. \<not> like_is ''track'' i l) likes' = filter (\<lambda>l. \<not> like_is ''track'' i l) likes \<and>
         (list_ex (like_is ''track'' i) likes \<or> toggleTrackLike likes' i now = Inr likes)"
proof (cases "find_index (like_is ''track'' i) likes")
  case None
  obtain n where n: "safe_nat now = Some n" "js_trim i \<noteq> []"
    using run by (auto simp: toggleTrackLike_def like_toggle_def split: if_splits option.splits)
  let ?l = "\<lparr>lk_entityKind = ''track'', lk_targetId = i, lk_likedAtMs = n\<rparr>"
  have l': "likes' = likes @ [?l]"
    using run n None by (simp add: toggleTrackLike_def like_toggle_def)
  have none: "\<forall>l\<in>set likes. \<not> like_is ''track'' i l" using None by simp
  then have "find_index (like_is ''track'' i) (likes @ [?l]) = Some (length likes)"
    by (induction likes) (auto simp: like_is_def)
  then have "toggleTrackLike likes' i now = Inr likes"
    using n by (simp add: toggleTrackLike_def like_toggle_def l' splice_remove_def)
  then show ?thesis
    using none by (auto simp: l' list_ex_iff like_is_def)
next
  case (Some k)
  have k: "k < length likes" "like_is ''track'' i (likes ! k)"
    using find_index_Some [OF Some] by auto
  have l': "likes' = splice_remove k likes"
    using run Some by (auto simp: toggleTrackLike_def like_toggle_def split: if_splits option.splits)
  have split: "likes = take k likes @ likes ! k # drop (Suc k) likes"
    using k(1) by (rule id_take_nth_drop)
  let ?key = "\<lambda>l. (lk_entityKind l, lk_targetId l)"
  have "distinct (map ?key (take k likes @ likes ! k # drop (Suc k) likes))"
    using d split by metis
  then have "(''track'', i) \<notin> ?key ` set likes'"
    using k(2) by (auto simp: l' splice_remove_def like_is_def)
  then have gone: "\<not> like_is ''track'' i l" if "l \<in> set likes'" for l
    using that by (auto simp: like_is_def image_iff)
  have "filter (\<lambda>l. \<not> like_is ''track'' i l) likes =
        filter (\<lambda>l. \<not> like_is ''track'' i l) (take k likes @ likes ! k # drop (Suc k) likes)"
    using split by simp
  then have "filter (\<lambda>l. \<not> like_is ''track'' i l) likes' = filter (\<lambda>l. \<not> like_is ''track'' i l) likes"
    using k(2) by (simp add: l' splice_remove_def)
  moreover have "list_ex (like_is ''track'' i) likes"
    unfolding list_ex_iff using k nth_mem by blast
  moreover have "\<not> list_ex (like_is ''track'' i) likes'"
    unfolding list_ex_iff using gone by blast
  ultimately show ?thesis by simp
qed

section \<open>Instances\<close>

definition sample_count :: "string \<Rightarrow> nat \<Rightarrow> playCount" where
  "sample_count i n = \<lparr>pc_recordingId = i, pc_count = n, pc_localCount = None,
     pc_loggedRemote = None, pc_loggedOurs = None, pc_lastMs = 7\<rparr>"

definition sample_counts :: "playCount list" where
  "sample_counts = [sample_count ''a'' 3, sample_count ''b'' 9, sample_count ''c'' 5, sample_count ''d'' 9]"

theorem top_played_is_sorted_prefix_witness:
  "topPlayed sample_counts [''a'', ''c'', ''d''] (jnat 2) = Inr [(''d'', 9, 7), (''c'', 5, 7)]"
  using top_played_is_sorted_prefix [of "jnat 2" 2 sample_counts "[''a'', ''c'', ''d'']"]
  by (simp add: safe_int_def sample_counts_def sample_count_def rankPlayCount_def top_row_def)

definition sample_event :: playEvent where
  "sample_event = \<lparr>ev_eventId = ''e1'', ev_recordingId = ''a'', ev_occurrenceId = Some ''o1'',
     ev_playedMs = 500, ev_listenedMs = 130000\<rparr>"

definition sample_sections :: playSections where
  "sample_sections = \<lparr>hs_playHistory = [sample_event], hs_playCounts = [sample_count ''a'' 3]\<rparr>"

definition sample_input :: playInput where
  "sample_input = \<lparr>in_eventId = ''e2'', in_recordingId = ''a'', in_occurrenceId = Some ''o2'',
     in_listenedMs = jnat 60, in_durationMs = Some (jnat 120), in_nowMs = jnat 400\<rparr>"

definition played_sections :: playSections where
  "played_sections =
     \<lparr>hs_playHistory = [sample_event, \<lparr>ev_eventId = ''e2'', ev_recordingId = ''a'',
        ev_occurrenceId = Some ''o2'', ev_playedMs = 500, ev_listenedMs = 60\<rparr>],
      hs_playCounts = [\<lparr>pc_recordingId = ''a'', pc_count = 4, pc_localCount = Some 1,
        pc_loggedRemote = None, pc_loggedOurs = None, pc_lastMs = 500\<rparr>]\<rparr>"

lemma sample_play: "recordPlay sample_sections sample_input = Inr (played_sections, True)"
  by (simp add: recordPlay_def sample_sections_def sample_input_def played_sections_def
      sample_event_def sample_count_def countsAsPlay_def PLAY_COUNT_MIN_LISTENED_MS_def
      PLAY_COUNT_DURATION_FRACTION_def PLAY_HISTORY_RETENTION_MS_def play_horizon_def
      bumped_count_def plus_one_def safe_nat_def safe_int_def)

theorem record_play_counts_once_witness:
  "total_plays (hs_playCounts played_sections) = 4"
proof -
  have "history_ok sample_sections"
    by (simp add: history_ok_def sample_sections_def sample_event_def)
  moreover have "\<forall>c\<in>set (hs_playCounts sample_sections). pc_count c < 2 ^ 53"
    by (simp add: sample_sections_def sample_count_def)
  ultimately show ?thesis
    using record_play_counts_once [OF _ sample_play]
    by (simp add: sample_sections_def total_plays_def sample_count_def)
qed

theorem track_like_toggles_witness:
  "toggleTrackLike [\<lparr>lk_entityKind = ''track'', lk_targetId = ''x'', lk_likedAtMs = 3\<rparr>] ''x'' (jnat 3) = Inr []"
  using track_like_toggles [of "[]" "''x''" "jnat 3"
      "[\<lparr>lk_entityKind = ''track'', lk_targetId = ''x'', lk_likedAtMs = 3\<rparr>]"]
  by (simp add: toggleTrackLike_def like_toggle_def js_trim_def js_space_def safe_nat_def safe_int_def
      like_is_def splice_remove_def)

end
