(* ===== verification/Catalog.thy ===== *)
theory Catalog
  imports QueueEngine Doubles
begin

text \<open>
  Catalog data: the \<open>TrackMetadata\<close>, \<open>Recording\<close> and \<open>SourceMapping\<close> types of
  \<open>packages/application/src/domain.ts\<close>, and the reading of titles in
  \<open>matching/matching-engine.ts\<close>: tokens, version labels and the comparison base. What the code
  takes from the Unicode tables (NFKC with lower-casing, the letter and number classes) is the
  argument \<open>uc\<close>; on one-byte text the rest is concrete.
\<close>

section \<open>Data\<close>

datatype versionLabel = Live | Remix | Remaster | CleanCut | ExplicitCut | Alternate

fun label_str :: "versionLabel \<Rightarrow> string" where
  "label_str Live = ''live''"
| "label_str Remix = ''remix''"
| "label_str Remaster = ''remaster''"
| "label_str CleanCut = ''clean''"
| "label_str ExplicitCut = ''explicit''"
| "label_str Alternate = ''alternate''"

datatype mappingStatus = Automatic | UserConfirmed | RejectedMapping

datatype provenance = FromProvider | FromLocal

record artworkRef =
  ar_url :: string
  ar_width :: "nat option"
  ar_height :: "nat option"

record matchEvidence =
  me_titleSimilarity :: rat
  me_artistSimilarity :: "rat option"
  me_durationDeltaMs :: "nat option"
  me_exactIsrc :: bool
  me_score :: rat
  me_versionLabels :: "versionLabel list"

record sourceMapping =
  sm_ref :: sourceRef
  sm_status :: mappingStatus
  sm_matchedAtMs :: nat
  sm_evidence :: matchEvidence

text \<open>Absent and \<open>null\<close> optional fields are both \<open>None\<close>: every reader joins them with \<open>??\<close>.\<close>

record trackMetadata =
  tm_sourceRef :: sourceRef
  tm_title :: string
  tm_artist :: "string option"
  tm_album :: "string option"
  tm_durationMs :: "nat option"
  tm_releaseYear :: "nat option"
  tm_artwork :: "artworkRef list"
  tm_explicit :: "bool option"
  tm_genre :: "string option"
  tm_storefront :: "string option"
  tm_artistRef :: "sourceRef option"
  tm_albumRef :: "sourceRef option"
  tm_isrc :: "string option"

record recording =
  rc_id :: string
  rc_title :: string
  rc_artist :: "string option"
  rc_album :: "string option"
  rc_durationMs :: "nat option"
  rc_releaseYear :: "nat option"
  rc_artwork :: "artworkRef list"
  rc_explicit :: "bool option"
  rc_genre :: "string option"
  rc_isrc :: "string option"
  rc_versionLabels :: "versionLabel list"
  rc_artistRef :: "sourceRef option"
  rc_albumRef :: "sourceRef option"
  rc_sourceRefs :: "sourceRef list"
  rc_mappings :: "sourceMapping list"
  rc_provenance :: provenance

definition LOCAL_PROVIDER :: string where
  "LOCAL_PROVIDER = ''local''"

definition localTrackRef :: "string \<Rightarrow> sourceRef" where
  "localTrackRef fileId = \<lparr>ref_provider = LOCAL_PROVIDER, ref_kind = ''track'', ref_id = fileId\<rparr>"

section \<open>Tokens\<close>

text \<open>\<open>uc_fold\<close> is \<open>normalize('NFKC').toLowerCase()\<close>, \<open>uc_word\<close> the class \<open>[\p{L}\p{N}]\<close>.\<close>

record unicode =
  uc_fold :: "string \<Rightarrow> string"
  uc_lower :: "string \<Rightarrow> string"
  uc_word :: "char \<Rightarrow> bool"

text \<open>The maximal runs of the characters in a class.\<close>

fun runs :: "('a \<Rightarrow> bool) \<Rightarrow> 'a list \<Rightarrow> 'a list list" where
  "runs P [] = []"
| "runs P (x # xs) =
     (if P x
      then (case xs of
              [] \<Rightarrow> [[x]]
            | y # _ \<Rightarrow> if P y then (case runs P xs of [] \<Rightarrow> [[x]] | r # rs \<Rightarrow> (x # r) # rs)
                       else [x] # runs P xs)
      else runs P xs)"

definition tokenize :: "unicode \<Rightarrow> string \<Rightarrow> string list" where
  "tokenize uc text = runs (uc_word uc) (uc_fold uc text)"

fun join :: "string \<Rightarrow> string list \<Rightarrow> string" where
  "join sep [] = []"
| "join sep [x] = x"
| "join sep (x # y # ys) = x @ sep @ join sep (y # ys)"

definition normalizeFree :: "unicode \<Rightarrow> string \<Rightarrow> string" where
  "normalizeFree uc text = join '' '' (tokenize uc text)"

section \<open>Titles\<close>

definition LABEL_ORDER :: "versionLabel list" where
  "LABEL_ORDER = [Live, Remix, Remaster, CleanCut, ExplicitCut, Alternate]"

definition LABEL_TOKEN :: "(string \<times> versionLabel) list" where
  "LABEL_TOKEN =
     [(''live'', Live), (''remix'', Remix), (''mix'', Remix), (''remaster'', Remaster),
      (''remastered'', Remaster), (''clean'', CleanCut), (''explicit'', ExplicitCut),
      (''alternate'', Alternate)]"

definition FURNITURE :: "string list" where
  "FURNITURE = map fst LABEL_TOKEN @
     [''alt'', ''take'', ''version'', ''official'', ''video'', ''audio'', ''feat'', ''ft'', ''topic'']"

text \<open>The token after the current one; \<open>[]\<close> is never a token.\<close>

fun next_token :: "string list \<Rightarrow> string" where
  "next_token [] = []"
| "next_token (t # ts) = t"

fun title_labels :: "string list \<Rightarrow> versionLabel set" where
  "title_labels [] = {}"
| "title_labels (t # ts) =
     (case map_of LABEL_TOKEN t of
        Some l \<Rightarrow> insert l (title_labels ts)
      | None \<Rightarrow>
          if t = ''alt'' \<and> (next_token ts = ''take'' \<or> next_token ts = ''version'')
          then insert Alternate (title_labels ts) else title_labels ts)"

text \<open>\<open>String.prototype.indexOf\<close>, as the text before and after the first occurrence.\<close>

fun split_at_sub :: "string \<Rightarrow> string \<Rightarrow> (string \<times> string) option" where
  "split_at_sub sep [] = (if sep = [] then Some ([], []) else None)"
| "split_at_sub sep (c # cs) =
     (if startsWith (c # cs) sep then Some ([], drop (length sep) (c # cs))
      else map_option (\<lambda>(a, b). (c # a, b)) (split_at_sub sep cs))"

definition cut_suffix :: "unicode \<Rightarrow> string \<Rightarrow> string \<Rightarrow> string" where
  "cut_suffix uc sep text =
     (case split_at_sub sep text of
        None \<Rightarrow> text
      | Some (before, after) \<Rightarrow>
          let rest = tokenize uc after
          in if rest \<noteq> [] \<and> list_all (\<lambda>t. t \<in> set FURNITURE) rest then before else text)"

fun base_tokens :: "string list \<Rightarrow> string list" where
  "base_tokens [] = []"
| "base_tokens (t # ts) =
     (if t = ''feat'' \<or> t = ''ft'' then []
      else if t = ''official'' \<and> (next_token ts = ''video'' \<or> next_token ts = ''audio'')
      then base_tokens (tl ts)
      else if map_of LABEL_TOKEN t \<noteq> None then base_tokens ts
      else if t = ''alt'' \<and> (next_token ts = ''take'' \<or> next_token ts = ''version'')
      then base_tokens (tl ts)
      else t # base_tokens ts)"

record analyzedTitle =
  at_base :: string
  at_labels :: "versionLabel set"

definition analyzeTitle :: "unicode \<Rightarrow> string \<Rightarrow> analyzedTitle" where
  "analyzeTitle uc title =
     (let lower = uc_fold uc title;
          baseText = cut_suffix uc '' | '' (cut_suffix uc '' - '' lower)
      in \<lparr>at_base = join '' '' (base_tokens (tokenize uc baseText)),
          at_labels = title_labels (tokenize uc lower)\<rparr>)"

definition extractVersionLabels :: "unicode \<Rightarrow> string \<Rightarrow> bool option \<Rightarrow> versionLabel list" where
  "extractVersionLabels uc title explicit =
     (let labels = at_labels (analyzeTitle uc title);
          labels' = (case explicit of
                       Some True \<Rightarrow> insert ExplicitCut labels
                     | Some False \<Rightarrow> insert CleanCut labels
                     | None \<Rightarrow> labels)
      in filter (\<lambda>l. l \<in> labels') LABEL_ORDER)"

section \<open>Recordings from metadata\<close>

text \<open>\<open>audioFields\<close>: the fields a provider record refreshes, written onto a recording.\<close>

definition audioFields :: "unicode \<Rightarrow> trackMetadata \<Rightarrow> recording \<Rightarrow> recording" where
  "audioFields uc metadata r =
     r\<lparr>rc_title := tm_title metadata, rc_artist := tm_artist metadata,
       rc_album := tm_album metadata, rc_durationMs := tm_durationMs metadata,
       rc_releaseYear := tm_releaseYear metadata, rc_artwork := tm_artwork metadata,
       rc_explicit := tm_explicit metadata, rc_genre := tm_genre metadata,
       rc_versionLabels := extractVersionLabels uc (tm_title metadata) (tm_explicit metadata)\<rparr>"

definition or_else :: "'a option \<Rightarrow> 'a option \<Rightarrow> 'a option" where
  "or_else a b = (case a of Some x \<Rightarrow> Some x | None \<Rightarrow> b)"

definition recordingFromMetadata :: "unicode \<Rightarrow> trackMetadata \<Rightarrow> string \<Rightarrow> recording" where
  "recordingFromMetadata uc metadata i =
     audioFields uc metadata
       \<lparr>rc_id = i, rc_title = [], rc_artist = None, rc_album = None, rc_durationMs = None,
        rc_releaseYear = None, rc_artwork = [], rc_explicit = None, rc_genre = None,
        rc_isrc = tm_isrc metadata, rc_versionLabels = [], rc_artistRef = tm_artistRef metadata,
        rc_albumRef = tm_albumRef metadata, rc_sourceRefs = [tm_sourceRef metadata],
        rc_mappings = [],
        rc_provenance =
          (if ref_provider (tm_sourceRef metadata) = LOCAL_PROVIDER then FromLocal else FromProvider)\<rparr>"

definition mergeRecordingMetadata :: "unicode \<Rightarrow> recording \<Rightarrow> trackMetadata \<Rightarrow> recording" where
  "mergeRecordingMetadata uc r metadata =
     (audioFields uc metadata r)
       \<lparr>rc_isrc := or_else (tm_isrc metadata) (rc_isrc r),
        rc_artistRef := or_else (tm_artistRef metadata)
          (if tm_artist metadata = rc_artist r then rc_artistRef r else None),
        rc_albumRef := or_else (tm_albumRef metadata)
          (if tm_album metadata = rc_album r then rc_albumRef r else None)\<rparr>"

section \<open>Mappings\<close>

definition REF_SEP :: char where
  "REF_SEP = CHR 0x1F"

definition refKey :: "sourceRef \<Rightarrow> string" where
  "refKey ref = ref_provider ref @ REF_SEP # ref_kind ref @ REF_SEP # ref_id ref"

definition status_rank :: "mappingStatus \<Rightarrow> nat" where
  "status_rank s = (case s of UserConfirmed \<Rightarrow> 2 | RejectedMapping \<Rightarrow> 1 | Automatic \<Rightarrow> 0)"

definition supersedes :: "sourceMapping \<Rightarrow> sourceMapping \<Rightarrow> bool" where
  "supersedes m e =
     (sm_matchedAtMs e < sm_matchedAtMs m \<or>
      (sm_matchedAtMs m = sm_matchedAtMs e \<and> status_rank (sm_status e) < status_rank (sm_status m)))"

definition collapse_step ::
  "sourceMapping \<Rightarrow> (string, sourceMapping) jsmap \<Rightarrow> (string, sourceMapping) jsmap" where
  "collapse_step m byRef =
     (case map_get byRef (refKey (sm_ref m)) of
        None \<Rightarrow> AList.update (refKey (sm_ref m)) m byRef
      | Some e \<Rightarrow> if supersedes m e then AList.update (refKey (sm_ref m)) m byRef else byRef)"

definition collapseByRef :: "sourceMapping list \<Rightarrow> (string, sourceMapping) jsmap" where
  "collapseByRef mappings = fold collapse_step mappings []"

text \<open>The winner per ref is the mapping with the greatest (time, rank), the earliest among equals.\<close>

definition claim_key :: "sourceMapping \<Rightarrow> nat \<times> nat" where
  "claim_key m = (sm_matchedAtMs m, status_rank (sm_status m))"

lemma supersedes_key: "supersedes m e \<longleftrightarrow> claim_key e < claim_key m"
  by (auto simp: supersedes_def claim_key_def)

lemma status_rank_inj: "status_rank a = status_rank b \<longleftrightarrow> a = b"
  by (cases a; cases b) (simp_all add: status_rank_def)

lemma collapse_spec:
  "(case map_get (collapseByRef ms) k of
      None \<Rightarrow> \<forall>m\<in>set ms. refKey (sm_ref m) \<noteq> k
    | Some w \<Rightarrow> w \<in> set ms \<and> refKey (sm_ref w) = k \<and>
        (\<forall>m\<in>set ms. refKey (sm_ref m) = k \<longrightarrow> claim_key m \<le> claim_key w))"
proof (induction ms rule: rev_induct)
  case (snoc m ms)
  let ?old = "map_get (collapseByRef ms)"
  have step: "collapseByRef (ms @ [m]) = collapse_step m (collapseByRef ms)"
    by (simp add: collapseByRef_def)
  show ?case
  proof (cases "refKey (sm_ref m) = k")
    case False
    then have "map_get (collapseByRef (ms @ [m])) k = ?old k"
      by (auto simp: step collapse_step_def split: option.splits)
    then show ?thesis using snoc False by (auto split: option.splits)
  next
    case True
    then show ?thesis
      using snoc by (auto simp: step collapse_step_def supersedes_key not_less split: option.splits
          intro: order_trans less_imp_le)
  qed
qed (simp add: collapseByRef_def)

end
