(* ===== verification/Matching.thy ===== *)
theory Matching
  imports Catalog Errors
begin

text \<open>
  The matcher of \<open>packages/application/src/matching/matching-engine.ts\<close>: S\<oslash>rensen-Dice similarity
  over bigrams and over tokens, credited artists, the same-song verdict, and the scoring and choice
  among provider candidates. Divisions, products and sums of similarities are rounded to doubles.
\<close>

section \<open>Similarity\<close>

definition count_item :: "'a \<Rightarrow> ('a, nat) jsmap \<Rightarrow> ('a, nat) jsmap" where
  "count_item x m = AList.update x (map_get_or 0 m x + 1) m"

definition counts :: "'a list \<Rightarrow> ('a, nat) jsmap" where
  "counts items = fold count_item items []"

definition overlap_of :: "('a, nat) jsmap \<Rightarrow> ('a, nat) jsmap \<Rightarrow> nat" where
  "overlap_of left right = (\<Sum>(k, c)\<leftarrow>left. min c (map_get_or 0 right k))"

definition total_of :: "('a, nat) jsmap \<Rightarrow> nat" where
  "total_of m = (\<Sum>(k, c)\<leftarrow>m. c)"

definition diceScore :: "('a, nat) jsmap \<Rightarrow> ('a, nat) jsmap \<Rightarrow> rat" where
  "diceScore left right =
     rnd (of_nat (2 * overlap_of left right) / of_nat (total_of left + total_of right))"

definition bigrams :: "string \<Rightarrow> string list" where
  "bigrams s = map (\<lambda>(x, y). [x, y]) (zip s (tl s))"

definition dice :: "string \<Rightarrow> string \<Rightarrow> rat" where
  "dice a b =
     (if a = b then 1
      else if length a < 2 \<or> length b < 2 then 0
      else diceScore (counts (bigrams a)) (counts (bigrams b)))"

text \<open>
  Splitting at white space and dropping empty parts leaves the maximal runs of other characters.
  The quotient is \<open>0 / 0\<close> only for two texts of white space alone, which no normalized text is
  (\<open>tokens_normalized\<close> below).
\<close>

definition space_tokens :: "string \<Rightarrow> string list" where
  "space_tokens s = runs (\<lambda>c. \<not> js_space c) s"

definition tokenDice :: "string \<Rightarrow> string \<Rightarrow> rat" where
  "tokenDice a b =
     (if a = b \<or> a = [] \<or> b = [] then (if a = b then 1 else 0)
      else diceScore (counts (space_tokens a)) (counts (space_tokens b)))"

section \<open>Credited artists\<close>

definition word_char :: "char \<Rightarrow> bool" where
  "word_char c \<longleftrightarrow>
     is_digit c \<or> c = CHR ''_'' \<or> (CHR ''a'' \<le> to_lower c \<and> to_lower c \<le> CHR ''z'')"

fun starts_word :: "string \<Rightarrow> bool" where
  "starts_word [] = False"
| "starts_word (c # cs) = word_char c"

text \<open>
  \<open>\bw\b\<close> and \<open>\bw\.?\b\<close> at a position, ignoring case: \<open>prevw\<close> says whether the character before is a
  word character. The result is the length of the match; the dot is given back when no boundary
  follows it.
\<close>

definition word_at :: "string \<Rightarrow> bool \<Rightarrow> bool \<Rightarrow> string \<Rightarrow> nat option" where
  "word_at w dot prevw s =
     (let rest = drop (length w) s
      in if prevw \<or> map to_lower (take (length w) s) \<noteq> w then None
         else if dot \<and> startsWith rest ''.'' \<and> starts_word (tl rest) then Some (length w + 1)
         else if starts_word rest then None
         else Some (length w))"

definition artist_sep :: "bool \<Rightarrow> string \<Rightarrow> nat option" where
  "artist_sep prevw s =
     (if s \<noteq> [] \<and> hd s \<in> {CHR ''&'', CHR '','', CHR ''+''} then Some 1
      else or_else (word_at ''feat'' True prevw s)
          (or_else (word_at ''ft'' True prevw s)
          (or_else (word_at ''featuring'' False prevw s)
          (or_else (word_at ''vs'' True prevw s)
            (word_at ''x'' False prevw s)))))"

text \<open>
  \<open>text.split(ARTIST_SPLIT)\<close>: the first argument says whether the character before is a word
  character. No separator is empty, so a match of length \<open>n\<close> drops \<open>n - 1\<close> characters of the rest.
\<close>

function artist_split :: "bool \<Rightarrow> string \<Rightarrow> string list" where
  "artist_split prevw [] = [[]]"
| "artist_split prevw (c # cs) =
     (case artist_sep prevw (c # cs) of
        Some n \<Rightarrow> [] # artist_split (word_char (last (take n (c # cs)))) (drop (n - 1) cs)
      | None \<Rightarrow>
          (case artist_split (word_char c) cs of
             [] \<Rightarrow> [[c]]
           | p # ps \<Rightarrow> (c # p) # ps))"
  by pat_completeness auto
termination by (relation "measure (\<lambda>(_, s). length s)") auto

definition artistViews :: "unicode \<Rightarrow> string \<Rightarrow> string list" where
  "artistViews uc text =
     (let whole = normalizeFree uc text
      in whole # filter (\<lambda>p. p \<noteq> [] \<and> p \<noteq> whole) (map (normalizeFree uc) (artist_split False text)))"

definition artistSimilarityBetween :: "string \<Rightarrow> string \<Rightarrow> rat" where
  "artistSimilarityBetween a b = rnd (rnd (dice a b + tokenDice a b) / 2)"

fun best_pair :: "rat \<Rightarrow> (string \<times> string) list \<Rightarrow> rat" where
  "best_pair best [] = best"
| "best_pair best ((l, r) # ps) =
     (let best' = max best (artistSimilarityBetween l r)
      in if best' = 1 then 1 else best_pair best' ps)"

definition bestArtistSimilarity :: "unicode \<Rightarrow> string \<Rightarrow> string \<Rightarrow> rat" where
  "bestArtistSimilarity uc a b = best_pair 0 (List.product (artistViews uc a) (artistViews uc b))"

section \<open>The same song\<close>

text \<open>The whole seconds of a duration, or nothing for a duration that is not known.\<close>

definition clock_text :: "nat option \<Rightarrow> string" where
  "clock_text d = (case d of None \<Rightarrow> [] | Some ms \<Rightarrow> show_nat (nat \<lfloor>rnd (of_nat ms / 1000)\<rfloor>))"

definition or_empty :: "string option \<Rightarrow> string" where
  "or_empty s = (case s of None \<Rightarrow> [] | Some x \<Rightarrow> x)"

definition matchDisplayKey :: "unicode \<Rightarrow> string \<Rightarrow> string \<Rightarrow> string option \<Rightarrow> nat option \<Rightarrow> string" where
  "matchDisplayKey uc provider title artist durationMs =
     join [REF_SEP]
       [provider, normalizeFree uc title, normalizeFree uc (or_empty artist), clock_text durationMs]"

definition displayKey :: "unicode \<Rightarrow> trackMetadata \<Rightarrow> string" where
  "displayKey uc c =
     matchDisplayKey uc (ref_provider (tm_sourceRef c)) (tm_title c) (tm_artist c) (tm_durationMs c)"

record identityFields =
  if_title :: string
  if_artist :: "string option"
  if_durationMs :: "nat option"
  if_isrc :: "string option"
  if_explicit :: "bool option"
  if_versionLabels :: "versionLabel list option"

definition metadata_identity :: "trackMetadata \<Rightarrow> identityFields" where
  "metadata_identity m =
     \<lparr>if_title = tm_title m, if_artist = tm_artist m, if_durationMs = tm_durationMs m,
      if_isrc = tm_isrc m, if_explicit = tm_explicit m, if_versionLabels = None\<rparr>"

definition recording_identity :: "recording \<Rightarrow> identityFields" where
  "recording_identity r =
     \<lparr>if_title = rc_title r, if_artist = rc_artist r, if_durationMs = rc_durationMs r,
      if_isrc = rc_isrc r, if_explicit = rc_explicit r, if_versionLabels = Some (rc_versionLabels r)\<rparr>"

definition SAME_SONG_ARTIST_SIM :: rat where
  "SAME_SONG_ARTIST_SIM = rnd (85 / 100)"

definition SAME_SONG_DURATION_MS :: nat where
  "SAME_SONG_DURATION_MS = 2500"

definition HARD_AXES :: "versionLabel list" where
  "HARD_AXES = [Live, Remix, Remaster, Alternate]"

definition cleanOrExplicit :: "versionLabel set \<Rightarrow> versionLabel option" where
  "cleanOrExplicit labels =
     (if ExplicitCut \<in> labels then Some ExplicitCut
      else if CleanCut \<in> labels then Some CleanCut else None)"

definition versionLabelsConflict :: "versionLabel set \<Rightarrow> versionLabel set \<Rightarrow> bool" where
  "versionLabelsConflict a b =
     (list_ex (\<lambda>axis. (axis \<in> a) \<noteq> (axis \<in> b)) HARD_AXES \<or>
      (cleanOrExplicit a \<noteq> None \<and> cleanOrExplicit b \<noteq> None \<and>
       cleanOrExplicit a \<noteq> cleanOrExplicit b))"

definition identityLabels :: "unicode \<Rightarrow> identityFields \<Rightarrow> versionLabel set" where
  "identityLabels uc f =
     set (case if_versionLabels f of
            Some ls \<Rightarrow> ls
          | None \<Rightarrow> extractVersionLabels uc (if_title f) (if_explicit f))"

definition isrc_code :: "unicode \<Rightarrow> identityFields \<Rightarrow> string option" where
  "isrc_code uc f =
     (case if_isrc f of
        None \<Rightarrow> None
      | Some c \<Rightarrow> (let code = uc_lower uc (js_trim c) in if code = [] then None else Some code))"

definition abs_diff :: "nat \<Rightarrow> nat \<Rightarrow> nat" where
  "abs_diff a b = (if a \<le> b then b - a else a - b)"

definition sameSongIdentity :: "unicode \<Rightarrow> identityFields \<Rightarrow> identityFields \<Rightarrow> bool" where
  "sameSongIdentity uc a b =
     (case (isrc_code uc a, isrc_code uc b) of
        (Some x, Some y) \<Rightarrow> x = y
      | _ \<Rightarrow>
          if at_base (analyzeTitle uc (if_title a)) \<noteq> at_base (analyzeTitle uc (if_title b)) then False
          else if versionLabelsConflict (identityLabels uc a) (identityLabels uc b) then False
          else
            (case (if_artist a, if_artist b, if_durationMs a, if_durationMs b) of
               (Some x, Some y, Some d, Some e) \<Rightarrow>
                 \<not> bestArtistSimilarity uc x y < SAME_SONG_ARTIST_SIM \<and>
                 \<not> SAME_SONG_DURATION_MS < abs_diff d e
             | (Some x, Some y, _, _) \<Rightarrow> \<not> bestArtistSimilarity uc x y < SAME_SONG_ARTIST_SIM
             | (_, _, Some d, Some e) \<Rightarrow> \<not> SAME_SONG_DURATION_MS < abs_diff d e
             | _ \<Rightarrow> False))"

text \<open>The labels in the order of their names, as \<open>sort()\<close> leaves them.\<close>

definition sorted_labels :: "versionLabel set \<Rightarrow> string list" where
  "sorted_labels ls =
     map label_str (filter (\<lambda>l. l \<in> ls) [Alternate, CleanCut, ExplicitCut, Live, Remaster, Remix])"

definition displayIdentityKey ::
  "unicode \<Rightarrow> string \<Rightarrow> string \<Rightarrow> string option \<Rightarrow> nat option \<Rightarrow> string" where
  "displayIdentityKey uc provider title artist durationMs =
     join [REF_SEP]
       [provider, at_base (analyzeTitle uc title),
        join '','' (sorted_labels (at_labels (analyzeTitle uc title))),
        normalizeFree uc (or_empty artist), clock_text durationMs]"

definition cleanerTitle :: "unicode \<Rightarrow> string \<Rightarrow> string \<Rightarrow> string" where
  "cleanerTitle uc a b = (if length (normalizeFree uc a) \<le> length (normalizeFree uc b) then a else b)"

section \<open>Scoring\<close>

definition candidate_labels :: "unicode \<Rightarrow> trackMetadata \<Rightarrow> versionLabel list" where
  "candidate_labels uc c = extractVersionLabels uc (tm_title c) (tm_explicit c)"

definition hardConflict :: "unicode \<Rightarrow> recording \<Rightarrow> trackMetadata \<Rightarrow> bool" where
  "hardConflict uc r c =
     (let intended = set (rc_versionLabels r); labels = set (candidate_labels uc c)
      in list_ex (\<lambda>axis. (axis \<in> intended) \<noteq> (axis \<in> labels)) HARD_AXES \<or>
         (cleanOrExplicit intended \<noteq> None \<and> cleanOrExplicit labels \<noteq> None \<and>
          cleanOrExplicit intended \<noteq> cleanOrExplicit labels))"

definition duration_adjustment :: "nat \<Rightarrow> rat" where
  "duration_adjustment delta =
     (if delta \<le> 2000 then 10 else if delta \<le> 6000 then 4 else if 15000 < delta then -10 else 0)"

definition base_score :: "bool \<Rightarrow> rat \<Rightarrow> rat option \<Rightarrow> rat" where
  "base_score exactIsrc t artist =
     (if exactIsrc then 1000
      else case artist of
             Some a \<Rightarrow> rnd (90 * rnd (rnd (rnd (7 / 10) * t) + rnd (rnd (3 / 10) * a)))
           | None \<Rightarrow> rnd (90 * t))"

definition evidence :: "unicode \<Rightarrow> recording \<Rightarrow> trackMetadata \<Rightarrow> matchEvidence option" where
  "evidence uc r c =
     (if hardConflict uc r c then None
      else
        let t = dice (at_base (analyzeTitle uc (rc_title r))) (at_base (analyzeTitle uc (tm_title c)));
            artist = (case (rc_artist r, tm_artist c) of
                        (Some x, Some y) \<Rightarrow> Some (bestArtistSimilarity uc x y)
                      | _ \<Rightarrow> None);
            exactIsrc = (case (rc_isrc r, tm_isrc c) of
                           (Some x, Some y) \<Rightarrow> uc_lower uc x = uc_lower uc y
                         | _ \<Rightarrow> False);
            delta = (case (rc_durationMs r, tm_durationMs c) of
                       (Some x, Some y) \<Rightarrow> Some (abs_diff x y)
                     | _ \<Rightarrow> None);
            adjustment = (case delta of Some d \<Rightarrow> duration_adjustment d | None \<Rightarrow> 0)
        in if \<not> exactIsrc \<and> t < rnd (65 / 100) then None
           else if \<not> exactIsrc \<and> (case artist of Some a \<Rightarrow> a < rnd (55 / 100) | None \<Rightarrow> False) then None
           else Some \<lparr>me_titleSimilarity = t, me_artistSimilarity = artist,
                      me_durationDeltaMs = delta, me_exactIsrc = exactIsrc,
                      me_score = rnd (base_score exactIsrc t artist + adjustment),
                      me_versionLabels =
                        filter (\<lambda>l. l \<in> set (candidate_labels uc c)) LABEL_ORDER\<rparr>)"

definition userEvidence :: "unicode \<Rightarrow> recording \<Rightarrow> trackMetadata \<Rightarrow> matchEvidence" where
  "userEvidence uc r c =
     (case evidence uc r c of
        Some e \<Rightarrow> e
      | None \<Rightarrow> \<lparr>me_titleSimilarity = 0, me_artistSimilarity = None, me_durationDeltaMs = None,
                 me_exactIsrc = False, me_score = 0, me_versionLabels = candidate_labels uc c\<rparr>)"

section \<open>The choice\<close>

datatype matchOutcome =
    Matched trackMetadata matchEvidence
  | Ambiguous "(trackMetadata \<times> matchEvidence) list"
  | MatchUnavailable string

record scored =
  sc_candidate :: trackMetadata
  sc_evidence :: matchEvidence
  sc_index :: nat

abbreviation sc_score :: "scored \<Rightarrow> rat" where
  "sc_score s \<equiv> me_score (sc_evidence s)"

definition verdict_of :: "(string, sourceMapping) jsmap \<Rightarrow> trackMetadata \<Rightarrow> mappingStatus option" where
  "verdict_of byRef c = map_option sm_status (map_get byRef (refKey (tm_sourceRef c)))"

text \<open>The scoring loop: it returns at the first candidate the user confirmed (\<open>Inl\<close>).\<close>

fun score_all ::
  "unicode \<Rightarrow> recording \<Rightarrow> (string, sourceMapping) jsmap \<Rightarrow> nat \<Rightarrow> trackMetadata list \<Rightarrow>
   trackMetadata + scored list" where
  "score_all uc r byRef i [] = Inr []"
| "score_all uc r byRef i (c # cs) =
     (if verdict_of byRef c = Some RejectedMapping then score_all uc r byRef (Suc i) cs
      else if verdict_of byRef c = Some UserConfirmed then Inl c
      else (case evidence uc r c of
              None \<Rightarrow> score_all uc r byRef (Suc i) cs
            | Some e \<Rightarrow>
                map_sum id ((#) \<lparr>sc_candidate = c, sc_evidence = e, sc_index = i\<rparr>)
                  (score_all uc r byRef (Suc i) cs)))"

definition compare_scored :: "scored \<Rightarrow> scored \<Rightarrow> int" where
  "compare_scored a b =
     (if sc_score a < sc_score b then 1
      else if sc_score b < sc_score a then -1
      else int (sc_index a) - int (sc_index b))"

fun distinct_display :: "unicode \<Rightarrow> string set \<Rightarrow> scored list \<Rightarrow> scored list" where
  "distinct_display uc seen [] = []"
| "distinct_display uc seen (s # ss) =
     (if displayKey uc (sc_candidate s) \<in> seen then distinct_display uc seen ss
      else s # distinct_display uc (insert (displayKey uc (sc_candidate s)) seen) ss)"

definition behind :: "scored \<Rightarrow> scored \<Rightarrow> rat" where
  "behind lead s = rnd (sc_score lead - sc_score s)"

fun near_ties :: "scored \<Rightarrow> nat \<Rightarrow> scored list \<Rightarrow> scored list" where
  "near_ties lead n [] = []"
| "near_ties lead n (s # ss) =
     (if 7 \<le> behind lead s \<or> 64 \<le> n then [] else s # near_ties lead (Suc n) ss)"

definition same_song :: "unicode \<Rightarrow> scored \<Rightarrow> scored \<Rightarrow> bool" where
  "same_song uc s t =
     sameSongIdentity uc (metadata_identity (sc_candidate s)) (metadata_identity (sc_candidate t))"

definition clear_lead :: "scored \<Rightarrow> scored list \<Rightarrow> bool" where
  "clear_lead lead others = (case others of [] \<Rightarrow> True | s # ss \<Rightarrow> 7 \<le> behind lead s)"

definition one_song :: "unicode \<Rightarrow> scored \<Rightarrow> scored list \<Rightarrow> bool" where
  "one_song uc lead tied \<longleftrightarrow> list_all (same_song uc lead) tied \<and> sorted_wrt (same_song uc) tied"

definition choose_match :: "unicode \<Rightarrow> scored list \<Rightarrow> matchOutcome" where
  "choose_match uc scoreds =
     (let ranked = sort_by compare_scored scoreds
      in (case distinct_display uc {} ranked of
            [] \<Rightarrow> MatchUnavailable ''no candidates''
          | lead # others \<Rightarrow>
              (if (78 \<le> sc_score lead \<or> me_exactIsrc (sc_evidence lead)) \<and> clear_lead lead others
               then Matched (sc_candidate lead) (sc_evidence lead)
               else if 65 \<le> sc_score lead \<and> \<not> clear_lead lead others
               then (if one_song uc lead (filter (\<lambda>s. behind lead s < 7) others)
                     then Matched (sc_candidate lead) (sc_evidence lead)
                     else Ambiguous
                       (map (\<lambda>s. (sc_candidate s, sc_evidence s)) (near_ties lead 0 ranked)))
               else MatchUnavailable ''below threshold'')))"

definition match ::
  "unicode \<Rightarrow> recording \<Rightarrow> trackMetadata list \<Rightarrow> sourceMapping list \<Rightarrow> matchOutcome" where
  "match uc r candidates userMappings =
     (case score_all uc r (collapseByRef userMappings) 0 candidates of
        Inl c \<Rightarrow> Matched c (userEvidence uc r c)
      | Inr scoreds \<Rightarrow> choose_match uc scoreds)"

end
