(* ===== verification/MatchingLaws.thy ===== *)
theory MatchingLaws
  imports Matching
begin

text \<open>
  Laws of the matcher: the count maps are multisets, so a score is the S\<oslash>rensen-Dice coefficient of
  two multisets, symmetric and between 0 and 1; the artist score is the greatest pairwise score;
  what the scoring loop keeps and where the ranking puts it.
\<close>

section \<open>Counts as multisets\<close>

lemma count_item_get: "map_get_or 0 (count_item x m) k = map_get_or 0 m k + (if k = x then 1 else 0)"
  by (simp add: count_item_def)

lemma fold_count_get:
  "map_get_or 0 (fold count_item xs m) k = map_get_or 0 m k + count (mset xs) k"
  by (induction xs arbitrary: m) (auto simp: count_item_get)

lemma counts_get: "map_get_or 0 (counts xs) k = count (mset xs) k"
  by (simp add: counts_def fold_count_get)

lemma distinct_counts: "distinct (map fst (counts xs))"
proof -
  have "distinct (map fst m) \<Longrightarrow> distinct (map fst (fold count_item xs m))" for m
    by (induction xs arbitrary: m) (simp_all add: count_item_def distinct_update)
  then show ?thesis by (simp add: counts_def)
qed

lemma counts_keys: "fst ` set (counts xs) = set xs"
proof -
  have "fst ` set (fold count_item xs m) = fst ` set m \<union> set xs" for m
    by (induction xs arbitrary: m) (auto simp: count_item_def dom_update)
  then show ?thesis by (simp add: counts_def)
qed

lemma sum_over_counts:
  "(\<Sum>(k, c)\<leftarrow>counts xs. f k c) = (\<Sum>k\<in>set xs. f k (count (mset xs) k))"
proof -
  have get: "c = count (mset xs) k" if "(k, c) \<in> set (counts xs)" for k c
    using that distinct_counts [of xs] counts_get [of xs k]
    by (simp add: map_get_or_def)
  have "(\<Sum>(k, c)\<leftarrow>counts xs. f k c) = (\<Sum>k\<leftarrow>map fst (counts xs). f k (count (mset xs) k))"
    using get by (force intro!: arg_cong [where f = sum_list] simp: o_def)
  also have "\<dots> = (\<Sum>k\<in>fst ` set (counts xs). f k (count (mset xs) k))"
    using distinct_counts [of xs] by (simp add: sum_list_distinct_conv_sum_set del: map_map)
  finally show ?thesis by (simp add: counts_keys)
qed

lemma total_counts: "total_of (counts xs) = length xs"
proof -
  have "total_of (counts xs) = (\<Sum>k\<in>set xs. count (mset xs) k)"
    unfolding total_of_def by (rule sum_over_counts [of "\<lambda>k c. c"])
  then show ?thesis by (metis set_mset_mset size_mset size_multiset_overloaded_eq)
qed

lemma overlap_counts: "overlap_of (counts xs) (counts ys) = size (mset xs \<inter># mset ys)"
proof -
  have "overlap_of (counts xs) (counts ys) = (\<Sum>k\<in>set xs. min (count (mset xs) k) (count (mset ys) k))"
    unfolding overlap_of_def counts_get
    by (rule sum_over_counts [of "\<lambda>k c. min c (count (mset ys) k)"])
  also have "\<dots> = (\<Sum>k\<in>set xs. count (mset xs \<inter># mset ys) k)"
    by simp
  also have "\<dots> = size (mset xs \<inter># mset ys)"
    unfolding size_multiset_overloaded_eq
    by (rule sum.mono_neutral_cong_right) auto
  finally show ?thesis .
qed

text \<open>The coefficient of two multisets, as it is stored in a double.\<close>

definition mset_dice :: "'a multiset \<Rightarrow> 'a multiset \<Rightarrow> rat" where
  "mset_dice A B = rnd (of_nat (2 * size (A \<inter># B)) / of_nat (size A + size B))"

lemma diceScore_counts: "diceScore (counts xs) (counts ys) = mset_dice (mset xs) (mset ys)"
  by (simp add: diceScore_def mset_dice_def overlap_counts total_counts)

lemma mset_dice_sym: "mset_dice A B = mset_dice B A"
proof -
  have "A \<inter># B = B \<inter># A" by (auto intro: multiset_eqI simp: min.commute)
  then show ?thesis by (simp add: mset_dice_def add.commute)
qed

lemma mset_dice_unit: "0 \<le> mset_dice A B \<and> mset_dice A B \<le> 1"
proof -
  have "2 * size (A \<inter># B) \<le> size A + size B"
    using size_mset_mono [of "A \<inter># B" A] size_mset_mono [of "A \<inter># B" B] by simp
  then have "rat_of_nat (2 * size (A \<inter># B)) \<le> of_nat (size A + size B)"
    by (simp only: of_nat_le_iff)
  then have "rat_of_nat (2 * size (A \<inter># B)) / of_nat (size A + size B) \<le> 1"
    by (simp only: divide_le_eq_1) auto
  then show ?thesis unfolding mset_dice_def by (intro rnd_unit) simp_all
qed

lemma dice_sym: "dice a b = dice b a"
  by (auto simp: dice_def diceScore_counts mset_dice_sym)

lemma tokenDice_sym: "tokenDice a b = tokenDice b a"
  by (auto simp: tokenDice_def diceScore_counts mset_dice_sym)

lemma dice_unit: "0 \<le> dice a b \<and> dice a b \<le> 1"
  by (auto simp: dice_def diceScore_counts mset_dice_unit)

lemma tokenDice_unit: "0 \<le> tokenDice a b \<and> tokenDice a b \<le> 1"
  by (auto simp: tokenDice_def diceScore_counts mset_dice_unit)

lemma artist_between_sym: "artistSimilarityBetween a b = artistSimilarityBetween b a"
  by (simp add: artistSimilarityBetween_def dice_sym tokenDice_sym)

lemma rnd_between: "0 \<le> q \<Longrightarrow> q \<le> of_nat n \<Longrightarrow> n < 2 ^ 53 \<Longrightarrow> 0 \<le> rnd q \<and> rnd q \<le> of_nat n"
  using rnd_mono [of 0 q] rnd_mono [of q "of_nat n"] by (simp add: rnd_nat)

lemma artist_between_unit: "0 \<le> artistSimilarityBetween a b \<and> artistSimilarityBetween a b \<le> 1"
proof -
  have "0 \<le> rnd (dice a b + tokenDice a b) \<and> rnd (dice a b + tokenDice a b) \<le> of_nat 2"
    using dice_unit [of a b] tokenDice_unit [of a b] by (intro rnd_between) simp_all
  then show ?thesis unfolding artistSimilarityBetween_def by (intro rnd_unit) simp_all
qed

section \<open>The best artist pair\<close>

lemma best_pair_Max:
  assumes "b < 1"
  shows "best_pair b ps = Max (insert b ((\<lambda>(l, r). artistSimilarityBetween l r) ` set ps))"
  using assms
proof (induction ps arbitrary: b)
  case (Cons p ps)
  obtain l r where p: "p = (l, r)" by (cases p)
  let ?f = "\<lambda>(l, r). artistSimilarityBetween l r"
  have top: "artistSimilarityBetween l' r' \<le> 1" for l' r' by (simp add: artist_between_unit)
  show ?case
  proof (cases "artistSimilarityBetween l r = 1")
    case True
    then have "Max (insert b (?f ` set (p # ps))) = 1"
      using Cons.prems by (intro Max_eqI) (auto simp: p top image_iff)
    then show ?thesis using True Cons.prems by (simp add: p max_def)
  next
    case False
    then have less: "max b (artistSimilarityBetween l r) < 1"
      using Cons.prems top [of l r] by (auto simp: max_def)
    then have "best_pair b (p # ps) = best_pair (max b (artistSimilarityBetween l r)) ps"
      by (auto simp: p Let_def)
    also have "\<dots> = Max (insert (max b (artistSimilarityBetween l r)) (?f ` set ps))"
      by (rule Cons.IH [OF less])
    also have "\<dots> = Max (insert b (?f ` set (p # ps)))"
      by (cases "ps = []") (auto simp: p max.assoc)
    finally show ?thesis .
  qed
qed simp

lemma bestArtistSimilarity_Max:
  "bestArtistSimilarity uc a b =
     Max (insert 0 ((\<lambda>(l, r). artistSimilarityBetween l r) ` (set (artistViews uc a) \<times> set (artistViews uc b))))"
  by (simp add: bestArtistSimilarity_def best_pair_Max)

lemma bestArtistSimilarity_sym: "bestArtistSimilarity uc a b = bestArtistSimilarity uc b a"
proof -
  have "(\<lambda>(l, r). artistSimilarityBetween l r) ` (A \<times> B) =
      (\<lambda>(l, r). artistSimilarityBetween l r) ` (B \<times> A)" for A B
    by (auto simp: image_iff) (metis artist_between_sym)+
  then show ?thesis by (simp add: bestArtistSimilarity_Max)
qed

lemma bestArtistSimilarity_unit:
  "0 \<le> bestArtistSimilarity uc a b \<and> bestArtistSimilarity uc a b \<le> 1"
  unfolding bestArtistSimilarity_Max
  by (auto intro!: Max_ge Max.boundedI simp: artist_between_unit)

section \<open>The same song\<close>

lemma abs_diff_sym: "abs_diff a b = abs_diff b a"
  by (simp add: abs_diff_def)

lemma versionLabelsConflict_sym: "versionLabelsConflict a b = versionLabelsConflict b a"
  by (auto simp: versionLabelsConflict_def HARD_AXES_def)

lemma sameSongIdentity_sym: "sameSongIdentity uc a b = sameSongIdentity uc b a"
  by (simp add: sameSongIdentity_def versionLabelsConflict_sym [of "identityLabels uc a"]
      bestArtistSimilarity_sym [of uc "the (if_artist a)"] eq_commute [of "at_base (analyzeTitle uc (if_title a))"]
      split: option.splits)
    (auto simp: bestArtistSimilarity_sym abs_diff_sym)

section \<open>Scoring\<close>

definition scorable ::
  "unicode \<Rightarrow> recording \<Rightarrow> (string, sourceMapping) jsmap \<Rightarrow> nat \<times> trackMetadata \<Rightarrow> scored option" where
  "scorable uc r byRef = (\<lambda>(i, c).
     if verdict_of byRef c = Some RejectedMapping then None
     else map_option (\<lambda>e. \<lparr>sc_candidate = c, sc_evidence = e, sc_index = i\<rparr>) (evidence uc r c))"

abbreviation confirmed_in :: "(string, sourceMapping) jsmap \<Rightarrow> trackMetadata list \<Rightarrow> trackMetadata option" where
  "confirmed_in byRef \<equiv> find (\<lambda>c. verdict_of byRef c = Some UserConfirmed)"

lemma score_all_confirmed: "confirmed_in byRef cs = Some c \<Longrightarrow> score_all uc r byRef i cs = Inl c"
  by (induction cs arbitrary: i) (auto split: if_splits option.splits)

lemma score_all_scored:
  "confirmed_in byRef cs = None \<Longrightarrow>
   score_all uc r byRef i cs = Inr (List.map_filter (scorable uc r byRef) (enumerate i cs))"
  by (induction cs arbitrary: i)
    (auto simp: scorable_def map_filter_simps split: if_splits option.splits)

lemma map_filter_set: "set (List.map_filter f xs) = {y. \<exists>x\<in>set xs. f x = Some y}"
  by (force simp: List.map_filter_def)

text \<open>A scored row belongs to a candidate that is not rejected and carries its evidence.\<close>

definition eligible ::
  "unicode \<Rightarrow> recording \<Rightarrow> sourceMapping list \<Rightarrow> trackMetadata list \<Rightarrow> trackMetadata \<Rightarrow> matchEvidence \<Rightarrow> bool" where
  "eligible uc r ms cs c e \<longleftrightarrow>
     c \<in> set cs \<and> verdict_of (collapseByRef ms) c \<noteq> Some RejectedMapping \<and> evidence uc r c = Some e"

lemma scored_rows:
  "(\<exists>s\<in>set (List.map_filter (scorable uc r (collapseByRef ms)) (enumerate i cs)).
      sc_candidate s = c \<and> sc_evidence s = e) \<longleftrightarrow> eligible uc r ms cs c e"
proof -
  have "c \<in> set cs \<longleftrightarrow> (\<exists>k. (k, c) \<in> set (enumerate i cs))"
  proof
    assume "c \<in> set cs"
    then obtain k where "k < length cs" "cs ! k = c" by (auto simp: in_set_conv_nth)
    then have "(i + k, c) \<in> set (enumerate i cs)" by (simp add: in_set_enumerate_eq)
    then show "\<exists>k. (k, c) \<in> set (enumerate i cs)" ..
  qed (auto simp: in_set_enumerate_eq)
  moreover have "scorable uc r byRef (k, d) = Some s \<longleftrightarrow>
      verdict_of byRef d \<noteq> Some RejectedMapping \<and> evidence uc r d = Some (sc_evidence s) \<and>
      s = \<lparr>sc_candidate = d, sc_evidence = sc_evidence s, sc_index = k\<rparr>" for byRef k d s
    by (cases s) (auto simp: scorable_def)
  ultimately show ?thesis
    unfolding map_filter_set eligible_def by (simp add: Bex_def) (metis scored.select_convs)
qed

section \<open>The ranking\<close>

interpretation ranking: comparator compare_scored "\<lambda>s. (- sc_score s, sc_index s)"
  by unfold_locales (auto simp: compare_scored_def)

abbreviation ranked :: "scored list \<Rightarrow> scored list" where
  "ranked \<equiv> sort_by compare_scored"

lemma ranked_desc: "sorted_wrt (\<lambda>s t. sc_score t \<le> sc_score s) (ranked ss)"
proof -
  have "sorted_wrt (\<lambda>s t. (- sc_score s, sc_index s) \<le> (- sc_score t, sc_index t)) (ranked ss)"
    using ranking.sort_by_sorted [of ss] by (simp add: sorted_map)
  then show ?thesis by (rule sorted_wrt_mono_rel [rotated]) auto
qed

lemma behind_mono: "sc_score t \<le> sc_score s \<Longrightarrow> behind lead s \<le> behind lead t"
  unfolding behind_def by (rule rnd_mono) simp

lemma distinct_display_subset: "set (distinct_display uc seen ss) \<subseteq> set ss"
  by (induction ss arbitrary: seen) (auto split: if_splits)

lemma distinct_display_hd:
  "distinct_display uc {} ss = lead # others \<Longrightarrow> \<exists>rest. ss = lead # rest \<and> set others \<subseteq> set rest"
  using distinct_display_subset by (cases ss) fastforce+

lemma near_ties_take:
  "sorted_wrt (\<lambda>s t. sc_score t \<le> sc_score s) ss \<Longrightarrow> n \<le> 64 \<Longrightarrow>
   near_ties lead n ss = take (64 - n) (filter (\<lambda>s. behind lead s < 7) ss)"
proof (induction lead n ss rule: near_ties.induct)
  case (2 lead n s ss)
  show ?case
  proof (cases "behind lead s < 7")
    case True
    then show ?thesis
      using 2 by (cases "n = 64") (auto simp: not_le not_less Suc_diff_Suc [symmetric] take_Cons' Suc_le_eq)
  next
    case False
    have "\<not> behind lead t < 7" if "t \<in> set ss" for t
      using 2(2) False that behind_mono [of t s lead] by simp
    then have "filter (\<lambda>s. behind lead s < 7) ss = []" by (simp add: filter_empty_conv)
    then show ?thesis using False by simp
  qed
qed simp

section \<open>Bounds of the score\<close>

lemma rnd_seven: "rnd (7 / 10) = 3152519739159347 / 4503599627370496"
  by code_simp

lemma rnd_three: "rnd (3 / 10) = 5404319552844595 / 18014398509481984"
  by code_simp

lemma floors: "rnd (65 / 100) = 5854679515581645 / 9007199254740992"
  "rnd (55 / 100) = 2476979795053773 / 4503599627370496"
  by code_simp+

lemma duration_adjustment_bounds: "-10 \<le> duration_adjustment d \<and> duration_adjustment d \<le> 10"
  by (simp add: duration_adjustment_def)

lemma rnd_le_nat: "q \<le> of_nat n \<Longrightarrow> n < 2 ^ 53 \<Longrightarrow> rnd q \<le> of_nat n"
  using rnd_mono [of q "of_nat n"] by (simp add: rnd_nat)

lemma rnd_ge_nat: "of_nat n \<le> q \<Longrightarrow> n < 2 ^ 53 \<Longrightarrow> of_nat n \<le> rnd q"
  using rnd_mono [of "of_nat n" q] by (simp add: rnd_nat)

lemma rnd_dyadic: "0 < m \<Longrightarrow> m < 2 ^ 53 \<Longrightarrow> k \<le> 1074 \<Longrightarrow> rnd (of_int m / 2 ^ k) = of_int m / 2 ^ k"
  using rnd_pos_exact [of m "- int k"] by (simp add: rnd_def power_int_minus divide_inverse)

lemma rnd_ge_dyadic: "of_int m / 2 ^ k \<le> q \<Longrightarrow> 0 < m \<Longrightarrow> m < 2 ^ 53 \<Longrightarrow> k \<le> 1074 \<Longrightarrow> of_int m / 2 ^ k \<le> rnd q"
  using rnd_mono [of "of_int m / 2 ^ k" q] by (simp add: rnd_dyadic)

lemma rnd_le_dyadic: "q \<le> of_int m / 2 ^ k \<Longrightarrow> 0 < m \<Longrightarrow> m < 2 ^ 53 \<Longrightarrow> k \<le> 1074 \<Longrightarrow> rnd q \<le> of_int m / 2 ^ k"
  using rnd_mono [of q "of_int m / 2 ^ k"] by (simp add: rnd_dyadic)

lemma blended_bounds:
  assumes "0 \<le> t" "t \<le> 1" "0 \<le> a" "a \<le> 1"
  shows "rnd (90 * rnd (rnd (rnd (7 / 10) * t) + rnd (rnd (3 / 10) * a))) \<le> 90"
    and "rnd (65 / 100) \<le> t \<Longrightarrow> rnd (55 / 100) \<le> a \<Longrightarrow>
      55 \<le> rnd (90 * rnd (rnd (rnd (7 / 10) * t) + rnd (rnd (3 / 10) * a)))"
proof -
  let ?x = "rnd (rnd (7 / 10) * t)" and ?y = "rnd (rnd (3 / 10) * a)"
  have "?x \<le> of_int 3152519739159347 / 2 ^ 52" "?y \<le> of_int 5404319552844595 / 2 ^ 54"
    unfolding rnd_seven rnd_three using assms by (intro rnd_le_dyadic; simp)+
  then have "?x + ?y \<le> of_nat 1" by simp
  then have "rnd (?x + ?y) \<le> 1" using rnd_le_nat [of "?x + ?y" 1] by simp
  then show "rnd (90 * rnd (?x + ?y)) \<le> 90" using rnd_le_nat [of "90 * rnd (?x + ?y)" 90] by simp
  assume lo: "rnd (65 / 100) \<le> t" "rnd (55 / 100) \<le> a"
  have "of_int 465 / 2 ^ 10 \<le> ?x" "of_int 168 / 2 ^ 10 \<le> ?y"
    using lo unfolding rnd_seven rnd_three floors by (intro rnd_ge_dyadic; simp)+
  then have "of_int 633 / 2 ^ 10 \<le> ?x + ?y" by simp
  then have "of_int 633 / 2 ^ 10 \<le> rnd (?x + ?y)" by (intro rnd_ge_dyadic) simp_all
  then show "55 \<le> rnd (90 * rnd (?x + ?y))" using rnd_ge_nat [of 55 "90 * rnd (?x + ?y)"] by simp
qed

lemma plain_bounds:
  assumes "0 \<le> t" "t \<le> 1"
  shows "rnd (90 * t) \<le> 90" and "rnd (65 / 100) \<le> t \<Longrightarrow> 55 \<le> rnd (90 * t)"
proof -
  show "rnd (90 * t) \<le> 90" using rnd_le_nat [of "90 * t" 90] assms by simp
  assume "rnd (65 / 100) \<le> t"
  then have "of_nat 55 \<le> 90 * t" unfolding floors by simp
  then show "55 \<le> rnd (90 * t)" using rnd_ge_nat [of 55 "90 * t"] by simp
qed

lemma base_score_bounds:
  assumes "0 \<le> t" "t \<le> 1" "pred_option (\<lambda>a. 0 \<le> a \<and> a \<le> 1) artist"
    "\<not> exact \<Longrightarrow> rnd (65 / 100) \<le> t" "\<not> exact \<Longrightarrow> pred_option ((\<le>) (rnd (55 / 100))) artist"
  shows "if exact then base_score exact t artist = 1000
         else 55 \<le> base_score exact t artist \<and> base_score exact t artist \<le> 90"
  using assms blended_bounds [of t "the artist"] plain_bounds [of t]
  by (cases artist) (auto simp: base_score_def)

definition evidence_ok :: "matchEvidence \<Rightarrow> bool" where
  "evidence_ok e \<longleftrightarrow>
     0 \<le> me_titleSimilarity e \<and> me_titleSimilarity e \<le> 1 \<and>
     pred_option (\<lambda>a. 0 \<le> a \<and> a \<le> 1) (me_artistSimilarity e) \<and>
     (if me_exactIsrc e then 990 \<le> me_score e \<and> me_score e \<le> 1010
      else 45 \<le> me_score e \<and> me_score e \<le> 100 \<and>
        rnd (65 / 100) \<le> me_titleSimilarity e \<and>
        pred_option ((\<le>) (rnd (55 / 100))) (me_artistSimilarity e))"

lemma adjusted_bounds:
  assumes "of_nat (n + 10) \<le> b" "b \<le> of_nat m" "-10 \<le> adj" "adj \<le> 10" "m < 2 ^ 50" "n < 2 ^ 50"
  shows "of_nat n \<le> rnd (b + adj)" "rnd (b + adj) \<le> of_nat (m + 10)"
proof -
  have "rat_of_nat n \<le> b + adj" "b + adj \<le> of_nat (m + 10)" using assms by simp_all
  then show "of_nat n \<le> rnd (b + adj)" "rnd (b + adj) \<le> of_nat (m + 10)"
    using rnd_ge_nat [of n "b + adj"] rnd_le_nat [of "b + adj" "m + 10"] assms by simp_all
qed

lemma evidence_sound: "evidence uc r c = Some e \<Longrightarrow> evidence_ok e"
proof -
  assume ev: "evidence uc r c = Some e"
  define adj where "adj = (case me_durationDeltaMs e of Some d \<Rightarrow> duration_adjustment d | None \<Rightarrow> 0)"
  have adj: "-10 \<le> adj" "adj \<le> 10"
    using duration_adjustment_bounds by (auto simp: adj_def split: option.splits)
  have t: "0 \<le> me_titleSimilarity e" "me_titleSimilarity e \<le> 1"
    and a: "pred_option (\<lambda>a. 0 \<le> a \<and> a \<le> 1) (me_artistSimilarity e)"
    and lo: "\<not> me_exactIsrc e \<Longrightarrow> rnd (65 / 100) \<le> me_titleSimilarity e"
      "\<not> me_exactIsrc e \<Longrightarrow> pred_option ((\<le>) (rnd (55 / 100))) (me_artistSimilarity e)"
    and score: "me_score e =
        rnd (base_score (me_exactIsrc e) (me_titleSimilarity e) (me_artistSimilarity e) + adj)"
    using ev dice_unit bestArtistSimilarity_unit
    by (auto simp: evidence_def Let_def adj_def pred_option_def split: if_splits option.splits)
  note base = base_score_bounds [OF t a, of "me_exactIsrc e", OF lo]
  show ?thesis
    using base t a lo adj adjusted_bounds [of 45 _ 90 adj] adjusted_bounds [of 990 1000 1000 adj]
    unfolding evidence_ok_def score by (auto split: if_splits)
qed

end
