(* ===== verification/MatchingTheorems.thy ===== *)
theory MatchingTheorems
  imports MatchingLaws
begin

text \<open>
  Properties of the matcher: the user's verdicts come first, evidence is bounded, what an
  ambiguous outcome parks, and the same-song verdict. \<open>ascii\<close> reads one-byte text, for the witnesses.
\<close>

definition ascii :: unicode where
  "ascii = \<lparr>uc_fold = map to_lower, uc_lower = map to_lower,
            uc_word = (\<lambda>c. is_digit c \<or> (97 \<le> (of_char (to_lower c) :: nat) \<and> of_char (to_lower c) \<le> (122 :: nat)))\<rparr>"

definition outcome_rows :: "matchOutcome \<Rightarrow> (trackMetadata \<times> matchEvidence) list" where
  "outcome_rows out =
     (case out of Matched c e \<Rightarrow> [(c, e)] | Ambiguous rows \<Rightarrow> rows | MatchUnavailable _ \<Rightarrow> [])"

lemma match_confirmed:
  "confirmed_in (collapseByRef ms) cs = Some c \<Longrightarrow> match uc r cs ms = Matched c (userEvidence uc r c)"
  by (simp add: match_def score_all_confirmed)

lemma match_scored:
  "confirmed_in (collapseByRef ms) cs = None \<Longrightarrow>
   match uc r cs ms = choose_match uc (List.map_filter (scorable uc r (collapseByRef ms)) (enumerate 0 cs))"
  by (simp add: match_def score_all_scored)

lemma choose_match_cases:
  obtains (unavailable) why where "choose_match uc ss = MatchUnavailable why"
  | (matched) lead rest where "ranked ss = lead # rest" "choose_match uc ss = Matched (sc_candidate lead) (sc_evidence lead)"
  | (ambiguous) lead rest others where "ranked ss = lead # rest" "65 \<le> sc_score lead"
      "distinct_display uc {} (ranked ss) = lead # others" "set others \<subseteq> set rest"
      "\<not> clear_lead lead others" "\<not> one_song uc lead (filter (\<lambda>s. behind lead s < 7) others)"
      "choose_match uc ss = Ambiguous (map (\<lambda>s. (sc_candidate s, sc_evidence s)) (near_ties lead 0 (ranked ss)))"
proof (cases "distinct_display uc {} (ranked ss)")
  case Nil
  then show ?thesis using unavailable by (simp add: choose_match_def)
next
  case (Cons lead others)
  then obtain rest where rest: "ranked ss = lead # rest" "set others \<subseteq> set rest"
    using distinct_display_hd by blast
  define A where "A \<longleftrightarrow> (78 \<le> sc_score lead \<or> me_exactIsrc (sc_evidence lead)) \<and> clear_lead lead others"
  define B where "B \<longleftrightarrow> 65 \<le> sc_score lead \<and> \<not> clear_lead lead others"
  define C where "C \<longleftrightarrow> one_song uc lead (filter (\<lambda>s. behind lead s < 7) others)"
  have eq: "choose_match uc ss =
      (if A then Matched (sc_candidate lead) (sc_evidence lead)
       else if B then (if C then Matched (sc_candidate lead) (sc_evidence lead)
         else Ambiguous (map (\<lambda>s. (sc_candidate s, sc_evidence s)) (near_ties lead 0 (ranked ss))))
       else MatchUnavailable ''below threshold'')"
    by (simp add: choose_match_def Let_def Cons A_def B_def C_def)
  show ?thesis
  proof (cases "A \<or> B \<and> C")
    case True
    then show ?thesis using matched [OF rest(1)] eq by auto
  next
    case False
    then show ?thesis
      using unavailable [of "''below threshold''"] ambiguous [OF rest(1) _ Cons rest(2)] eq
      by (cases B) (auto simp: B_def C_def)
  qed
qed

lemma near_ties_subset: "set (near_ties lead n ss) \<subseteq> set ss"
  by (induction lead n ss rule: near_ties.induct) auto

lemma choose_match_rows:
  "(c, e) \<in> set (outcome_rows (choose_match uc ss)) \<Longrightarrow> \<exists>s\<in>set ss. sc_candidate s = c \<and> sc_evidence s = e"
proof (cases rule: choose_match_cases [of uc ss])
  case (matched lead rest)
  moreover have "lead \<in> set ss" using matched(1) set_sort_by [of compare_scored ss] by auto
  ultimately show "(c, e) \<in> set (outcome_rows (choose_match uc ss)) \<Longrightarrow> ?thesis"
    by (auto simp: outcome_rows_def)
next
  case (ambiguous lead rest others)
  show "(c, e) \<in> set (outcome_rows (choose_match uc ss)) \<Longrightarrow> ?thesis"
    using near_ties_subset [of lead 0 "ranked ss"] unfolding ambiguous(7) by (auto simp: outcome_rows_def)
qed (simp add: outcome_rows_def)

definition sample_track :: "string \<Rightarrow> string \<Rightarrow> string \<Rightarrow> string option \<Rightarrow> nat option \<Rightarrow> trackMetadata" where
  "sample_track p i title artist ms =
     \<lparr>tm_sourceRef = \<lparr>ref_provider = p, ref_kind = ''track'', ref_id = i\<rparr>, tm_title = title,
      tm_artist = artist, tm_album = None, tm_durationMs = ms, tm_releaseYear = None,
      tm_artwork = [], tm_explicit = None, tm_genre = None, tm_storefront = None,
      tm_artistRef = None, tm_albumRef = None, tm_isrc = None\<rparr>"

definition sample_sunset :: recording where
  "sample_sunset = recordingFromMetadata ascii (sample_track ''p'' ''0'' ''Sunset'' None (Some 200000)) ''r''"

definition sample_tie :: "trackMetadata list" where
  "sample_tie = [sample_track ''q'' ''1'' ''Sunset'' (Some ''Ann'') (Some 200000),
                 sample_track ''q'' ''2'' ''Sunset (Official Video)'' (Some ''Bob'') (Some 201000)]"

definition sample_rows :: "(trackMetadata \<times> matchEvidence) list" where
  "sample_rows = map (\<lambda>c. (c, userEvidence ascii sample_sunset c)) sample_tie"

text \<open>C21: A match honours the user's verdicts: the first candidate with a confirmed mapping wins
  whatever its score, and otherwise every candidate an outcome names is one of the candidates,
  carries no rejection that is still in force, and comes with its own computed evidence.\<close>

theorem match_honours_verdicts:
  "case confirmed_in (collapseByRef ms) cs of
     Some c \<Rightarrow> match uc r cs ms = Matched c (userEvidence uc r c)
   | None \<Rightarrow> list_all (\<lambda>(c, e). eligible uc r ms cs c e) (outcome_rows (match uc r cs ms))"
proof (cases "confirmed_in (collapseByRef ms) cs")
  case None
  then show ?thesis
    by (auto simp: match_scored list_all_iff scored_rows [of uc r ms 0, symmetric] dest!: choose_match_rows)
qed (simp add: match_confirmed)

lemma near_window:
  assumes "ranked ss = lead # rest" "set others \<subseteq> set rest" "\<not> clear_lead lead others"
  defines "near \<equiv> near_ties lead 0 (ranked ss)"
  shows "near = take 64 (filter (\<lambda>s. behind lead s < 7) (ranked ss))"
    and "\<exists>s t. near = lead # s # t"
    and "sorted_wrt (\<lambda>s t. sc_score t \<le> sc_score s) near"
proof -
  let ?F = "filter (\<lambda>s. behind lead s < 7)"
  show near: "near = take 64 (?F (ranked ss))"
    using near_ties_take [OF ranked_desc, of 0 lead] by (simp add: near_def)
  obtain s where "s \<in> set others" "behind lead s < 7"
    using assms(3) by (cases others) (auto simp: clear_lead_def not_le)
  then have "s \<in> set (?F rest)" using assms(2) by auto
  then obtain t ts where "?F rest = t # ts" by (cases "?F rest") auto
  moreover have "behind lead lead < 7" by (simp add: behind_def)
  ultimately show "\<exists>s t. near = lead # s # t" by (simp add: near assms(1))
  show "sorted_wrt (\<lambda>s t. sc_score t \<le> sc_score s) near"
    unfolding near by (intro sorted_wrt_take sorted_wrt_filter ranked_desc)
qed

text \<open>Within seven points of the first row.\<close>

definition near_first :: "(trackMetadata \<times> matchEvidence) list \<Rightarrow> matchEvidence \<Rightarrow> bool" where
  "near_first rows e \<longleftrightarrow> rnd (me_score (snd (hd rows)) - me_score e) < 7"

lemma choose_match_ambiguous:
  assumes "choose_match uc ss = Ambiguous rows"
  shows "2 \<le> length rows \<and> length rows \<le> 64 \<and> 65 \<le> me_score (snd (hd rows))"
    and "sorted_wrt (\<lambda>x y. me_score (snd y) \<le> me_score (snd x)) rows"
    and "list_all (\<lambda>(c, e). near_first rows e) rows"
    and "length rows < 64 \<Longrightarrow> s \<in> set ss \<Longrightarrow> near_first rows (sc_evidence s) \<Longrightarrow>
      (sc_candidate s, sc_evidence s) \<in> set rows"
proof -
  consider lead rest others where "ranked ss = lead # rest" "65 \<le> sc_score lead"
      "set others \<subseteq> set rest" "\<not> clear_lead lead others"
      "rows = map (\<lambda>s. (sc_candidate s, sc_evidence s)) (near_ties lead 0 (ranked ss))"
    using assms by (cases rule: choose_match_cases [of uc ss]) auto
  then obtain lead rest others where *: "ranked ss = lead # rest" "65 \<le> sc_score lead"
      "set others \<subseteq> set rest" "\<not> clear_lead lead others"
      "rows = map (\<lambda>s. (sc_candidate s, sc_evidence s)) (near_ties lead 0 (ranked ss))"
    by blast
  define near where "near = near_ties lead 0 (ranked ss)"
  note near = near_window [OF *(1,3,4), folded near_def]
  have rows: "rows = map (\<lambda>s. (sc_candidate s, sc_evidence s)) near" by (simp add: *(5) near_def)
  obtain s' t where st: "near = lead # s' # t" using near(2) by blast
  have first: "near_first rows (sc_evidence s) \<longleftrightarrow> behind lead s < 7" for s
    by (simp add: near_first_def rows st behind_def)
  have "length near \<le> 64" by (simp add: near(1))
  then show "2 \<le> length rows \<and> length rows \<le> 64 \<and> 65 \<le> me_score (snd (hd rows))"
    using *(2) by (simp add: rows st)
  show "sorted_wrt (\<lambda>x y. me_score (snd y) \<le> me_score (snd x)) rows"
    using near(3) by (simp add: rows sorted_wrt_map)
  have "behind lead s < 7" if "s \<in> set near" for s
    using that near(1) by (auto dest: in_set_takeD)
  then show "list_all (\<lambda>(c, e). near_first rows e) rows"
    unfolding list_all_iff using first by (auto simp: rows)
  assume small: "length rows < 64" and s: "s \<in> set ss" "near_first rows (sc_evidence s)"
  have "near = filter (\<lambda>s. behind lead s < 7) (ranked ss)"
    using small near(1) by (simp add: rows)
  then have "s \<in> set near" using s first by simp
  then show "(sc_candidate s, sc_evidence s) \<in> set rows" by (auto simp: rows)
qed

text \<open>When the matcher asks the user, it offers between 2 and 64 candidates in descending score,
  the best of at least 65 points and every other within seven points of it; and unless the cap of
  64 was reached, it offers every eligible candidate within seven points, so no hidden duplicate
  survives a rejection of the rows.\<close>

theorem match_ambiguous_window:
  assumes "match uc r cs ms = Ambiguous rows"
  shows "2 \<le> length rows \<and> length rows \<le> 64 \<and> 65 \<le> me_score (snd (hd rows)) \<and>
    sorted_wrt (\<lambda>x y. me_score (snd y) \<le> me_score (snd x)) rows \<and>
    list_all (\<lambda>(c, e). near_first rows e) rows \<and>
    (length rows < 64 \<longrightarrow>
      (\<forall>c e. eligible uc r ms cs c e \<and> near_first rows e \<longrightarrow> (c, e) \<in> set rows))"
proof -
  have none: "confirmed_in (collapseByRef ms) cs = None"
    using assms match_confirmed by (cases "confirmed_in (collapseByRef ms) cs") fastforce+
  note amb = choose_match_ambiguous [OF assms [unfolded match_scored [OF none]]]
  have "(c, e) \<in> set rows"
    if few: "length rows < 64" and el: "eligible uc r ms cs c e" and near: "near_first rows e" for c e
  proof -
    obtain s where "s \<in> set (List.map_filter (scorable uc r (collapseByRef ms)) (enumerate 0 cs))"
        "sc_candidate s = c" "sc_evidence s = e"
      using scored_rows [of uc r ms 0 cs c e] el by blast
    then show ?thesis using amb(4) [OF few] near by blast
  qed
  then show ?thesis using amb(1-3) by simp
qed

theorem match_ambiguous_window_witness:
  "match ascii sample_sunset sample_tie [] = Ambiguous sample_rows \<and>
   length sample_rows \<le> 64 \<and> list_all (\<lambda>(c, e). near_first sample_rows e) sample_rows"
proof -
  have "match ascii sample_sunset sample_tie [] = Ambiguous sample_rows" by code_simp
  then show ?thesis using match_ambiguous_window [of ascii sample_sunset sample_tie "[]" sample_rows] by blast
qed

text \<open>Evidence is bounded: similarities lie between 0 and 1, a candidate accepted without an
  ISRC hit meets both floors and scores between 45 and 100, and an ISRC hit scores between 990 and
  1010, so it always outranks the others.\<close>

theorem evidence_bounded:
  "pred_option evidence_ok (evidence uc r c)"
  by (cases "evidence uc r c") (auto dest: evidence_sound)

text \<open>The same-song verdict is symmetric, and it never joins a cut with one of another version
  unless their ISRC codes agree.\<close>

theorem same_song_symmetric:
  "sameSongIdentity uc a b = sameSongIdentity uc b a \<and>
   (sameSongIdentity uc a b \<longrightarrow>
     (isrc_code uc a \<noteq> None \<and> isrc_code uc a = isrc_code uc b) \<or>
     \<not> versionLabelsConflict (identityLabels uc a) (identityLabels uc b))"
  using sameSongIdentity_sym [of uc a b]
  by (auto simp: sameSongIdentity_def split: if_splits option.splits)

theorem same_song_symmetric_witness:
  "sameSongIdentity ascii (metadata_identity (hd sample_tie)) (metadata_identity (hd sample_tie)) \<and>
   \<not> versionLabelsConflict (identityLabels ascii (metadata_identity (hd sample_tie)))
     (identityLabels ascii (metadata_identity (hd sample_tie)))"
proof -
  let ?a = "metadata_identity (hd sample_tie)"
  have "sameSongIdentity ascii ?a ?a" "isrc_code ascii ?a = None" by code_simp+
  then show ?thesis using same_song_symmetric [of ascii ?a ?a] by blast
qed

text \<open>A similarity score is the S\<oslash>rensen-Dice coefficient of the two bigram multisets, rounded
  to a double.\<close>

theorem dice_is_sorensen:
  "dice a b =
     (if a = b then 1
      else if length a < 2 \<or> length b < 2 then 0
      else mset_dice (mset (bigrams a)) (mset (bigrams b)))"
  by (simp add: dice_def diceScore_counts)

end
