(* ===== verification/CatalogValues.thy ===== *)
theory CatalogValues
  imports MatchingLaws
begin

text \<open>
  The catalog records as the JavaScript objects the runtime guards read, and what the guards say of
  records the code builds: the evidence the matcher computes and the mappings made from it pass the
  guards of \<open>domain.ts\<close>.
\<close>

section \<open>Objects\<close>

definition opt_val :: "('a \<Rightarrow> jsval) \<Rightarrow> 'a option \<Rightarrow> jsval" where
  "opt_val f x = (case x of None \<Rightarrow> JNull | Some y \<Rightarrow> f y)"

abbreviation nat_val :: "nat \<Rightarrow> jsval" where
  "nat_val n \<equiv> JNum (jnat n)"

definition label_val :: "versionLabel \<Rightarrow> jsval" where
  "label_val l = JStr (label_str l)"

fun status_str :: "mappingStatus \<Rightarrow> string" where
  "status_str Automatic = ''automatic''"
| "status_str UserConfirmed = ''user-confirmed''"
| "status_str RejectedMapping = ''rejected''"

fun provenance_str :: "provenance \<Rightarrow> string" where
  "provenance_str FromProvider = ''provider''"
| "provenance_str FromLocal = ''local''"

definition artwork_val :: "artworkRef \<Rightarrow> jsval" where
  "artwork_val a = JObj [(''url'', JStr (ar_url a)), (''width'', opt_val nat_val (ar_width a)),
                         (''height'', opt_val nat_val (ar_height a))]"

definition evidence_val :: "matchEvidence \<Rightarrow> jsval" where
  "evidence_val e =
     JObj [(''titleSimilarity'', JNum (Fin (me_titleSimilarity e))),
           (''artistSimilarity'', opt_val (\<lambda>a. JNum (Fin a)) (me_artistSimilarity e)),
           (''durationDeltaMs'', opt_val nat_val (me_durationDeltaMs e)),
           (''exactIsrc'', JBool (me_exactIsrc e)), (''score'', JNum (Fin (me_score e))),
           (''versionLabels'', JArr (map label_val (me_versionLabels e)))]"

definition mapping_val :: "sourceMapping \<Rightarrow> jsval" where
  "mapping_val m =
     JObj [(''ref'', ref_val (sm_ref m)), (''status'', JStr (status_str (sm_status m))),
           (''matchedAtMs'', nat_val (sm_matchedAtMs m)), (''evidence'', evidence_val (sm_evidence m))]"

text \<open>The optional keys of a metadata object are always written, with \<open>null\<close> for nothing.\<close>

definition metadata_val :: "trackMetadata \<Rightarrow> jsval" where
  "metadata_val t =
     JObj [(''sourceRef'', ref_val (tm_sourceRef t)), (''title'', JStr (tm_title t)),
           (''artist'', opt_val JStr (tm_artist t)), (''album'', opt_val JStr (tm_album t)),
           (''durationMs'', opt_val nat_val (tm_durationMs t)),
           (''releaseYear'', opt_val nat_val (tm_releaseYear t)),
           (''artwork'', JArr (map artwork_val (tm_artwork t))),
           (''explicit'', opt_val JBool (tm_explicit t)), (''genre'', opt_val JStr (tm_genre t)),
           (''storefront'', opt_val JStr (tm_storefront t)),
           (''artistRef'', opt_val ref_val (tm_artistRef t)),
           (''albumRef'', opt_val ref_val (tm_albumRef t)), (''isrc'', opt_val JStr (tm_isrc t))]"

definition recording_val :: "recording \<Rightarrow> jsval" where
  "recording_val r =
     JObj [(''id'', JStr (rc_id r)), (''title'', JStr (rc_title r)),
           (''artist'', opt_val JStr (rc_artist r)), (''album'', opt_val JStr (rc_album r)),
           (''durationMs'', opt_val nat_val (rc_durationMs r)),
           (''releaseYear'', opt_val nat_val (rc_releaseYear r)),
           (''artwork'', JArr (map artwork_val (rc_artwork r))),
           (''explicit'', opt_val JBool (rc_explicit r)), (''genre'', opt_val JStr (rc_genre r)),
           (''isrc'', opt_val JStr (rc_isrc r)),
           (''versionLabels'', JArr (map label_val (rc_versionLabels r))),
           (''artistRef'', opt_val ref_val (rc_artistRef r)),
           (''albumRef'', opt_val ref_val (rc_albumRef r)),
           (''sourceRefs'', JArr (map ref_val (rc_sourceRefs r))),
           (''mappings'', JArr (map mapping_val (rc_mappings r))),
           (''provenance'', JStr (provenance_str (rc_provenance r)))]"

section \<open>What the guards accept\<close>

lemma opt_val_null [simp]: "opt_val f None = JNull" "opt_val f (Some x) = f x"
  by (simp_all add: opt_val_def)

lemma label_val_inj: "inj label_val"
proof (rule injI)
  show "label_val a = label_val b \<Longrightarrow> a = b" for a b
    by (cases a; cases b) (simp_all add: label_val_def)
qed

lemma all_labels: "(UNIV :: versionLabel set) = set LABEL_ORDER"
  using versionLabel.exhaust by (auto simp: LABEL_ORDER_def)

lemma few_labels: "distinct ls \<Longrightarrow> length (ls :: versionLabel list) \<le> 6"
proof -
  assume "distinct ls"
  then have "length ls = card (set ls)" by (simp add: distinct_card)
  also have "\<dots> \<le> card (set LABEL_ORDER)" 
    by (rule card_mono) (simp, metis all_labels subset_UNIV)
  also have "\<dots> \<le> length LABEL_ORDER" by (rule card_length)
  finally show ?thesis by (simp add: LABEL_ORDER_def)
qed

lemma label_list_guard: "distinct ls \<Longrightarrow> isVersionLabelArray (JArr (map label_val ls))"
proof -
  assume "distinct ls"
  moreover have "isIn VERSION_LABELS (label_val l)" for l
    by (cases l) (simp_all add: label_val_def VERSION_LABELS_def)
  ultimately show ?thesis
    using few_labels [of ls] label_val_inj
    by (simp add: isVersionLabelArray_def distinct_map list_all_iff inj_on_subset [OF label_val_inj])
qed

lemma distinct_labels: "distinct (filter P LABEL_ORDER)"
  by (simp add: LABEL_ORDER_def)

definition safe_opt :: "nat option \<Rightarrow> bool" where
  "safe_opt d = (case d of None \<Rightarrow> True | Some n \<Rightarrow> n \<le> max_safe)"

lemma safe_opt_val: "safe_opt d \<Longrightarrow> isOptSafeNonNegative (opt_val nat_val d)"
  by (cases d) (simp_all add: safe_opt_def isOptSafeNonNegative_def)

definition evidence_wf :: "matchEvidence \<Rightarrow> bool" where
  "evidence_wf e \<longleftrightarrow>
     0 \<le> me_titleSimilarity e \<and> me_titleSimilarity e \<le> 1 \<and>
     pred_option (\<lambda>a. 0 \<le> a \<and> a \<le> 1) (me_artistSimilarity e) \<and>
     safe_opt (me_durationDeltaMs e) \<and> distinct (me_versionLabels e)"

lemma evidence_guard: "evidence_wf e \<Longrightarrow> isMatchEvidence (evidence_val e)"
  by (cases "me_artistSimilarity e")
    (simp_all add: isMatchEvidence_def evidence_val_def evidence_wf_def hasExactKeys_def hasOwn_def
      label_list_guard safe_opt_val)

lemma evidence_delta:
  "evidence uc r c = Some e \<Longrightarrow> safe_opt (rc_durationMs r) \<Longrightarrow> safe_opt (tm_durationMs c) \<Longrightarrow>
   safe_opt (me_durationDeltaMs e) \<and> distinct (me_versionLabels e)"
  by (auto simp: evidence_def Let_def safe_opt_def abs_diff_def distinct_labels
      split: if_splits option.splits)

lemma userEvidence_wf:
  assumes "safe_opt (rc_durationMs r)" "safe_opt (tm_durationMs c)"
  shows "evidence_wf (userEvidence uc r c)"
proof (cases "evidence uc r c")
  case None
  then show ?thesis
    by (simp add: userEvidence_def evidence_wf_def candidate_labels_def extractVersionLabels_def
        safe_opt_def distinct_labels Let_def)
next
  case (Some e)
  then show ?thesis
    using evidence_delta [OF Some assms] evidence_sound [OF Some]
    by (simp add: userEvidence_def evidence_wf_def evidence_ok_def)
qed

text \<open>A mapping for a track ref, stamped with a safe time, carrying such evidence.\<close>

lemma mapping_guard:
  "isTrackRef (ref_val (sm_ref m)) \<Longrightarrow> sm_matchedAtMs m \<le> max_safe \<Longrightarrow> evidence_wf (sm_evidence m) \<Longrightarrow>
   isSourceMapping (mapping_val m)"
  by (cases "sm_status m")
    (simp_all add: isSourceMapping_def mapping_val_def hasExactKeys_def hasOwn_def evidence_guard
      MAPPING_STATUSES_def)

lemma recording_durations: "isRecording (recording_val r) \<Longrightarrow> safe_opt (rc_durationMs r)"
  by (cases "rc_durationMs r")
    (simp_all add: isRecording_def recording_val_def hasAudioFields_def isOptSafeNonNegative_def
      safe_opt_def split: if_splits)

lemma metadata_durations: "isTrackMetadata (metadata_val c) \<Longrightarrow> safe_opt (tm_durationMs c)"
  by (cases "tm_durationMs c")
    (simp_all add: isTrackMetadata_def metadata_val_def hasAudioFields_def isOptSafeNonNegative_def
      safe_opt_def split: if_splits)

text \<open>Only the mappings of a recording change: the other fields keep passing the guard.\<close>

lemma recording_guard_mappings:
  "isRecording (recording_val (r\<lparr>rc_mappings := ms\<rparr>)) \<longleftrightarrow>
   isRecording (recording_val (r\<lparr>rc_mappings := []\<rparr>)) \<and> list_all (isSourceMapping \<circ> mapping_val) ms"
  by (auto simp: isRecording_def recording_val_def hasKeys_def hasOwn_def hasAudioFields_def list_all_iff)

lemma recording_guard_split:
  "isRecording (recording_val r) \<longleftrightarrow>
   isRecording (recording_val (r\<lparr>rc_mappings := []\<rparr>)) \<and> list_all (isSourceMapping \<circ> mapping_val) (rc_mappings r)"
  using recording_guard_mappings [where r = r and ms = "rc_mappings r"] by simp

end
