(* ===== verification/Corrections.thy ===== *)
theory Corrections
  imports CatalogValues
begin

text \<open>
  The match-review queue of \<open>packages/application/src/library/corrections.ts\<close>: parked ambiguous
  matches, the user's verdicts on them, and their undo. The service serializes its operations, so
  each one is a call on the stored sections; what the ports answer during the call is the argument
  \<open>ports\<close> (the signal before and after the load, the checked clock, a failing load or commit, the
  next id). A commit is all or nothing, as the storage port promises.
\<close>

section \<open>Data\<close>

record candidateSnapshot =
  cs_metadata :: trackMetadata
  cs_ref :: sourceRef

datatype reviewStatus = Pending | Confirmed | Rejected | Dismissed

record matchReview =
  mv_reviewId :: string
  mv_recordingId :: string
  mv_candidates :: "candidateSnapshot list"
  mv_status :: reviewStatus
  mv_resolution :: "sourceRef option option"
  mv_createdMs :: nat
  mv_resolvedMs :: "nat option"

record reviewState =
  rs_recordings :: "recording list"
  rs_reviews :: "matchReview list"

record ports =
  pt_cancelled :: bool
  pt_now :: "nat option"
  pt_load :: "appError option"
  pt_cancelledAfter :: bool
  pt_commit :: "appError option"
  pt_id :: string

fun review_status_str :: "reviewStatus \<Rightarrow> string" where
  "review_status_str Pending = ''pending''"
| "review_status_str Confirmed = ''confirmed''"
| "review_status_str Rejected = ''rejected''"
| "review_status_str Dismissed = ''dismissed''"

definition candidate_val :: "candidateSnapshot \<Rightarrow> jsval" where
  "candidate_val c =
     JObj [(''metadata'', metadata_val (cs_metadata c)), (''ref'', ref_val (cs_ref c))]"

definition review_val :: "matchReview \<Rightarrow> jsval" where
  "review_val v =
     JObj [(''reviewId'', JStr (mv_reviewId v)), (''recordingId'', JStr (mv_recordingId v)),
           (''candidates'', JArr (map candidate_val (mv_candidates v))),
           (''status'', JStr (review_status_str (mv_status v))),
           (''resolution'', opt_val (\<lambda>r. JObj [(''ref'', opt_val ref_val r)]) (mv_resolution v)),
           (''createdMs'', nat_val (mv_createdMs v)),
           (''resolvedMs'', opt_val nat_val (mv_resolvedMs v))]"

section \<open>Precedence\<close>

definition MATCH_GATE_MESSAGE :: string where
  "MATCH_GATE_MESSAGE = ''match requires confirmation''"

definition isMatchGate :: "appError \<Rightarrow> bool" where
  "isMatchGate e \<longleftrightarrow> ae_kind e = Unavailable \<and> ae_message e = MATCH_GATE_MESSAGE"

definition isRefRejected :: "sourceMapping list \<Rightarrow> sourceRef \<Rightarrow> bool" where
  "isRefRejected mappings ref \<longleftrightarrow>
     map_option sm_status (map_get (collapseByRef mappings) (refKey ref)) = Some RejectedMapping"

text \<open>The later of two claims: a new one replaces the best so far only when it is strictly newer.\<close>

definition later :: "sourceMapping \<Rightarrow> sourceMapping option \<Rightarrow> sourceMapping option" where
  "later m best =
     (case best of
        None \<Rightarrow> Some m
      | Some b \<Rightarrow> if sm_matchedAtMs b < sm_matchedAtMs m then Some m else Some b)"

fun effective_scan ::
  "string \<Rightarrow> sourceMapping list \<Rightarrow> sourceMapping option \<times> sourceMapping option \<Rightarrow>
   sourceMapping option \<times> sourceMapping option" where
  "effective_scan p [] acc = acc"
| "effective_scan p (m # ms) (confirmed, automatic) =
     effective_scan p ms
       (if ref_provider (sm_ref m) \<noteq> p then (confirmed, automatic)
        else case sm_status m of
               UserConfirmed \<Rightarrow> (later m confirmed, automatic)
             | Automatic \<Rightarrow> (confirmed, later m automatic)
             | RejectedMapping \<Rightarrow> (confirmed, automatic))"

definition effectiveMapping :: "recording \<Rightarrow> string \<Rightarrow> sourceMapping option" where
  "effectiveMapping r p =
     (let (confirmed, automatic) = effective_scan p (map snd (collapseByRef (rc_mappings r))) (None, None)
      in or_else confirmed automatic)"

section \<open>The operation wrapper\<close>

definition MAX_CANDIDATES :: nat where
  "MAX_CANDIDATES = 64"

text \<open>\<open>loaded\<close>: cancellation, clock, load, cancellation again (not for the listing), then the body.\<close>

definition loaded ::
  "ports \<Rightarrow> bool \<Rightarrow> (nat \<Rightarrow> reviewState \<Rightarrow> 'a result \<times> reviewState) \<Rightarrow> reviewState \<Rightarrow> 'a result \<times> reviewState" where
  "loaded pt recheck body s =
     (if pt_cancelled pt then (Inl cancelledError, s)
      else case pt_now pt of
             None \<Rightarrow> (Inl (appError Internal ''clock returned an unsafe timestamp'' None), s)
           | Some at' \<Rightarrow>
               (case pt_load pt of
                  Some e \<Rightarrow> (Inl e, s)
                | None \<Rightarrow>
                    if recheck \<and> pt_cancelledAfter pt then (Inl cancelledError, s) else body at' s))"

definition persist :: "ports \<Rightarrow> 'a \<Rightarrow> reviewState \<Rightarrow> reviewState \<Rightarrow> 'a result \<times> reviewState" where
  "persist pt v s' s = (case pt_commit pt of Some e \<Rightarrow> (Inl e, s) | None \<Rightarrow> (Inr v, s'))"

definition replaceRecording :: "recording list \<Rightarrow> recording \<Rightarrow> recording list" where
  "replaceRecording rows u = map (\<lambda>r. if rc_id r = rc_id u then u else r) rows"

definition replaceReview :: "matchReview list \<Rightarrow> matchReview \<Rightarrow> matchReview list" where
  "replaceReview rows u = map (\<lambda>r. if mv_reviewId r = mv_reviewId u then u else r) rows"

definition persistResolution ::
  "ports \<Rightarrow> recording \<Rightarrow> matchReview \<Rightarrow> reviewState \<Rightarrow> matchReview result \<times> reviewState" where
  "persistResolution pt r v s =
     persist pt v \<lparr>rs_recordings = replaceRecording (rs_recordings s) r,
                   rs_reviews = replaceReview (rs_reviews s) v\<rparr> s"

definition find_review :: "string \<Rightarrow> reviewState \<Rightarrow> matchReview option" where
  "find_review i s = find (\<lambda>v. mv_reviewId v = i) (rs_reviews s)"

definition find_recording :: "string \<Rightarrow> reviewState \<Rightarrow> recording option" where
  "find_recording i s = find (\<lambda>r. rc_id r = i) (rs_recordings s)"

section \<open>The operations\<close>

type_synonym review_call = "reviewState \<Rightarrow> matchReview result \<times> reviewState"

definition user_mapping :: "unicode \<Rightarrow> mappingStatus \<Rightarrow> nat \<Rightarrow> recording \<Rightarrow> candidateSnapshot \<Rightarrow> sourceMapping" where
  "user_mapping uc st at' r c =
     \<lparr>sm_ref = cs_ref c, sm_status = st, sm_matchedAtMs = at',
      sm_evidence = userEvidence uc r (cs_metadata c)\<rparr>"

definition confirm :: "unicode \<Rightarrow> ports \<Rightarrow> string \<Rightarrow> jsnum \<Rightarrow> review_call" where
  "confirm uc pt reviewId candidateIndex s =
     (case (isString (JStr reviewId) 64, safe_nat candidateIndex) of
        (True, Some i) \<Rightarrow>
          loaded pt True (\<lambda>at' s.
            case find_review reviewId s of
              None \<Rightarrow> (Inl (appError NotFound ''unknown review'' None), s)
            | Some v \<Rightarrow>
                if mv_status v \<noteq> Pending
                then (Inl (appError NotApplicable ''review already resolved'' None), s)
                else if length (mv_candidates v) \<le> i
                then (Inl (appError InvalidResponse ''candidate index out of range'' None), s)
                else case find_recording (mv_recordingId v) s of
                       None \<Rightarrow> (Inl (appError NotFound ''review recording missing'' None), s)
                     | Some r \<Rightarrow>
                         let c = mv_candidates v ! i
                         in persistResolution pt
                              (r\<lparr>rc_mappings := rc_mappings r @ [user_mapping uc UserConfirmed at' r c]\<rparr>)
                              (v\<lparr>mv_status := Confirmed, mv_resolution := Some (Some (cs_ref c)),
                                 mv_resolvedMs := Some at'\<rparr>) s) s
      | _ \<Rightarrow> (Inl (appError InvalidResponse ''invalid confirm arguments'' None), s))"

text \<open>One veto per distinct candidate ref, in the order of the candidates.\<close>

fun vetoes_of :: "unicode \<Rightarrow> nat \<Rightarrow> recording \<Rightarrow> string set \<Rightarrow> candidateSnapshot list \<Rightarrow> sourceMapping list" where
  "vetoes_of uc at' r seen [] = []"
| "vetoes_of uc at' r seen (c # cs) =
     (if refKey (cs_ref c) \<in> seen then vetoes_of uc at' r seen cs
      else user_mapping uc RejectedMapping at' r c
           # vetoes_of uc at' r (insert (refKey (cs_ref c)) seen) cs)"

definition reject :: "unicode \<Rightarrow> ports \<Rightarrow> string \<Rightarrow> review_call" where
  "reject uc pt reviewId s =
     (if \<not> isString (JStr reviewId) 64
      then (Inl (appError InvalidResponse ''invalid reject arguments'' None), s)
      else loaded pt True (\<lambda>at' s.
        case find_review reviewId s of
          None \<Rightarrow> (Inl (appError NotFound ''unknown review'' None), s)
        | Some v \<Rightarrow>
            if mv_status v \<noteq> Pending
            then (Inl (appError NotApplicable ''review already resolved'' None), s)
            else case find_recording (mv_recordingId v) s of
                   None \<Rightarrow> (Inl (appError NotFound ''review recording missing'' None), s)
                 | Some r \<Rightarrow>
                     persistResolution pt
                       (r\<lparr>rc_mappings := rc_mappings r @ vetoes_of uc at' r {} (mv_candidates v)\<rparr>)
                       (v\<lparr>mv_status := Rejected, mv_resolution := Some None,
                          mv_resolvedMs := Some at'\<rparr>) s) s)"

text \<open>Undo removes, for each touched ref, the first mapping with the verdict and its stamp.\<close>

definition is_verdict :: "string \<Rightarrow> mappingStatus \<Rightarrow> nat \<Rightarrow> sourceMapping \<Rightarrow> bool" where
  "is_verdict k st at' m \<longleftrightarrow> refKey (sm_ref m) = k \<and> sm_status m = st \<and> sm_matchedAtMs m = at'"

definition remove_verdict :: "mappingStatus \<Rightarrow> nat \<Rightarrow> string \<Rightarrow> sourceMapping list \<Rightarrow> sourceMapping list" where
  "remove_verdict st at' k ms =
     (case find_index (is_verdict k st at') ms of None \<Rightarrow> ms | Some i \<Rightarrow> splice_remove i ms)"

text \<open>The members of a \<open>Set\<close> in the order of their first insertion.\<close>

fun set_order :: "'a set \<Rightarrow> 'a list \<Rightarrow> 'a list" where
  "set_order seen [] = []"
| "set_order seen (k # ks) =
     (if k \<in> seen then set_order seen ks else k # set_order (insert k seen) ks)"

definition touched_refs :: "matchReview \<Rightarrow> string list option" where
  "touched_refs v =
     (if mv_status v = Confirmed
      then (case mv_resolution v of
              Some (Some ref) \<Rightarrow> Some [refKey ref]
            | _ \<Rightarrow> None)
      else Some (set_order {} (map (refKey \<circ> cs_ref) (mv_candidates v))))"

definition undo :: "ports \<Rightarrow> string \<Rightarrow> review_call" where
  "undo pt reviewId s =
     (if \<not> isString (JStr reviewId) 64
      then (Inl (appError InvalidResponse ''invalid undo arguments'' None), s)
      else loaded pt True (\<lambda>at' s.
        case find_review reviewId s of
          None \<Rightarrow> (Inl (appError NotFound ''unknown review'' None), s)
        | Some v \<Rightarrow>
            if mv_status v \<noteq> Confirmed \<and> mv_status v \<noteq> Rejected
            then (Inl (appError NotApplicable ''only a resolved review can undo'' None), s)
            else case mv_resolvedMs v of
                   None \<Rightarrow> (Inl (appError InvalidResponse ''resolved review missing stamp'' None), s)
                 | Some resolvedMs \<Rightarrow>
                     (case find_recording (mv_recordingId v) s of
                        None \<Rightarrow> (Inl (appError NotFound ''review recording missing'' None), s)
                      | Some r \<Rightarrow>
                          (case touched_refs v of
                             None \<Rightarrow> (Inl (appError InvalidResponse
                                       ''confirmed review missing resolution record'' None), s)
                           | Some touched \<Rightarrow>
                               persistResolution pt
                                 (r\<lparr>rc_mappings :=
                                      fold (remove_verdict
                                              (if mv_status v = Confirmed then UserConfirmed else RejectedMapping)
                                              resolvedMs)
                                        touched (rc_mappings r)\<rparr>)
                                 (v\<lparr>mv_status := Pending, mv_resolution := None,
                                    mv_resolvedMs := None\<rparr>) s))) s)"

definition enqueueReview :: "ports \<Rightarrow> string \<Rightarrow> candidateSnapshot list \<Rightarrow> review_call" where
  "enqueueReview pt recordingId candidates s =
     (if \<not> isString (JStr recordingId) 64 \<or> length candidates < 1 \<or>
         MAX_CANDIDATES < length candidates \<or>
         \<not> list_all (isCandidateSnapshot \<circ> candidate_val) candidates
      then (Inl (appError InvalidResponse ''invalid review candidates'' None), s)
      else loaded pt True (\<lambda>at' s.
        if \<not> list_ex (\<lambda>r. rc_id r = recordingId) (rs_recordings s)
        then (Inl (appError NotFound ''unknown recording'' None), s)
        else case find (\<lambda>v. mv_recordingId v = recordingId \<and> mv_status v = Pending) (rs_reviews s) of
               Some v \<Rightarrow> (Inr v, s)
             | None \<Rightarrow>
                 let v = \<lparr>mv_reviewId = pt_id pt, mv_recordingId = recordingId,
                          mv_candidates = candidates, mv_status = Pending, mv_resolution = None,
                          mv_createdMs = at', mv_resolvedMs = None\<rparr>
                 in persist pt v (s\<lparr>rs_reviews := rs_reviews s @ [v]\<rparr>) s) s)"

text \<open>\<open>lc\<close> is \<open>localeCompare\<close>; no status in the filter argument means all of them.\<close>

definition compare_reviews :: "(string \<Rightarrow> string \<Rightarrow> int) \<Rightarrow> matchReview \<Rightarrow> matchReview \<Rightarrow> int" where
  "compare_reviews lc a b =
     (if mv_createdMs a = mv_createdMs b then lc (mv_reviewId a) (mv_reviewId b)
      else int (mv_createdMs a) - int (mv_createdMs b))"

definition listReviews ::
  "(string \<Rightarrow> string \<Rightarrow> int) \<Rightarrow> ports \<Rightarrow> reviewStatus option \<Rightarrow> reviewState \<Rightarrow>
   matchReview list result \<times> reviewState" where
  "listReviews lc pt status =
     loaded pt False (\<lambda>at' s.
       (Inr (sort_by (compare_reviews lc)
              (filter (\<lambda>v. status = None \<or> status = Some (mv_status v)) (rs_reviews s))), s))"

end
