(* ===== verification/CorrectionsTheorems.thy ===== *)
theory CorrectionsTheorems
  imports Corrections
begin

text \<open>
  Properties of the match-review queue: every operation keeps the stored rows valid, undo is the
  inverse of a resolution, a verdict takes effect over automatic claims, and where two pending
  reviews of one recording can come from.
\<close>

section \<open>Commands\<close>

datatype reviewCmd =
    CmdConfirm string jsnum
  | CmdReject string
  | CmdUndo string
  | CmdEnqueue string "candidateSnapshot list"

fun exec_review :: "unicode \<Rightarrow> ports \<Rightarrow> reviewCmd \<Rightarrow> review_call" where
  "exec_review uc pt (CmdConfirm i k) s = confirm uc pt i k s"
| "exec_review uc pt (CmdReject i) s = reject uc pt i s"
| "exec_review uc pt (CmdUndo i) s = undo pt i s"
| "exec_review uc pt (CmdEnqueue i cs) s = enqueueReview pt i cs s"

section \<open>A concrete session\<close>

definition rv_metadata :: trackMetadata where
  "rv_metadata =
     \<lparr>tm_sourceRef = \<lparr>ref_provider = ''q'', ref_kind = ''track'', ref_id = ''1''\<rparr>, tm_title = ''Sun'',
      tm_artist = None, tm_album = None, tm_durationMs = Some 200000, tm_releaseYear = None,
      tm_artwork = [], tm_explicit = None, tm_genre = None, tm_storefront = None,
      tm_artistRef = None, tm_albumRef = None, tm_isrc = None\<rparr>"

definition rv_unicode :: unicode where
  "rv_unicode = \<lparr>uc_fold = map to_lower, uc_lower = map to_lower, uc_word = (\<lambda>c. \<not> js_space c)\<rparr>"

definition rv_start :: reviewState where
  "rv_start = \<lparr>rs_recordings = [recordingFromMetadata rv_unicode rv_metadata ''r''], rs_reviews = []\<rparr>"

definition rv_ports :: "nat \<Rightarrow> ports" where
  "rv_ports t = \<lparr>pt_cancelled = False, pt_now = Some t, pt_load = None, pt_cancelledAfter = False,
                 pt_commit = None, pt_id = show_nat t\<rparr>"

definition rv_park :: reviewCmd where
  "rv_park = CmdEnqueue ''r'' [\<lparr>cs_metadata = rv_metadata, cs_ref = tm_sourceRef rv_metadata\<rparr>]"

definition rv_run :: "reviewCmd list \<Rightarrow> reviewState" where
  "rv_run cmds = fold (\<lambda>(t, c) s. snd (exec_review rv_unicode (rv_ports t) c s)) (enumerate 1 cmds) rv_start"

lemmas rv_defs = rv_metadata_def rv_unicode_def rv_start_def rv_ports_def rv_park_def rv_run_def

section \<open>What one operation does\<close>

lemma find_review_Some: "find_review i s = Some v \<Longrightarrow> v \<in> set (rs_reviews s) \<and> mv_reviewId v = i"
  unfolding find_review_def by (auto dest: find_Some_set)

lemma find_recording_Some: "find_recording i s = Some r \<Longrightarrow> r \<in> set (rs_recordings s) \<and> rc_id r = i"
  unfolding find_recording_def by (auto dest: find_Some_set)

text \<open>What one resolution writes: a review and a recording that stand in for stored ones.\<close>

definition rewritten :: "recording \<Rightarrow> matchReview \<Rightarrow> reviewState \<Rightarrow> reviewState" where
  "rewritten r v s = \<lparr>rs_recordings = replaceRecording (rs_recordings s) r,
                      rs_reviews = replaceReview (rs_reviews s) v\<rparr>"

lemma loaded_cases:
  "loaded pt recheck body s = (x, s') \<Longrightarrow>
   (s' = s \<and> (\<exists>e. x = Inl e)) \<or> (\<exists>t. pt_now pt = Some t \<and> body t s = (x, s'))"
  by (auto simp: loaded_def split: if_splits option.splits)

lemma persist_cases:
  "persist pt v s' s = (x, s'') \<Longrightarrow> (s'' = s \<and> (\<exists>e. x = Inl e)) \<or> (s'' = s' \<and> x = Inr v)"
  by (auto simp: persist_def split: option.splits)

lemma confirm_cases:
  assumes "confirm uc pt i k s = (x, s')"
  obtains (same) e where "s' = s" "x = Inl e"
  | (wrote) t n v r c where "pt_now pt = Some t" "find_review i s = Some v" "mv_status v = Pending"
      "n < length (mv_candidates v)" "c = mv_candidates v ! n" "safe_nat k = Some n"
      "find_recording (mv_recordingId v) s = Some r"
      "x = Inr (v\<lparr>mv_status := Confirmed, mv_resolution := Some (Some (cs_ref c)), mv_resolvedMs := Some t\<rparr>)"
      "s' = rewritten (r\<lparr>rc_mappings := rc_mappings r @ [user_mapping uc UserConfirmed t r c]\<rparr>)
        (v\<lparr>mv_status := Confirmed, mv_resolution := Some (Some (cs_ref c)), mv_resolvedMs := Some t\<rparr>) s"
  using assms unfolding confirm_def persistResolution_def rewritten_def
  by (fastforce split: option.splits bool.splits if_splits dest!: loaded_cases persist_cases simp: Let_def not_le)

lemma reject_cases:
  assumes "reject uc pt i s = (x, s')"
  obtains (same) e where "s' = s" "x = Inl e"
  | (wrote) t v r where "pt_now pt = Some t" "find_review i s = Some v" "mv_status v = Pending"
      "find_recording (mv_recordingId v) s = Some r"
      "x = Inr (v\<lparr>mv_status := Rejected, mv_resolution := Some None, mv_resolvedMs := Some t\<rparr>)"
      "s' = rewritten (r\<lparr>rc_mappings := rc_mappings r @ vetoes_of uc t r {} (mv_candidates v)\<rparr>)
        (v\<lparr>mv_status := Rejected, mv_resolution := Some None, mv_resolvedMs := Some t\<rparr>) s"
  using assms unfolding reject_def persistResolution_def rewritten_def
  by (fastforce split: option.splits if_splits dest!: loaded_cases persist_cases)

definition verdict_status :: "matchReview \<Rightarrow> mappingStatus" where
  "verdict_status v = (if mv_status v = Confirmed then UserConfirmed else RejectedMapping)"

lemma undo_cases:
  assumes "undo pt i s = (x, s')"
  obtains (same) e where "s' = s" "x = Inl e"
  | (wrote) v r t ks where "find_review i s = Some v" "mv_status v = Confirmed \<or> mv_status v = Rejected"
      "mv_resolvedMs v = Some t" "find_recording (mv_recordingId v) s = Some r" "touched_refs v = Some ks"
      "x = Inr (v\<lparr>mv_status := Pending, mv_resolution := None, mv_resolvedMs := None\<rparr>)"
      "s' = rewritten (r\<lparr>rc_mappings := fold (remove_verdict (verdict_status v) t) ks (rc_mappings r)\<rparr>)
        (v\<lparr>mv_status := Pending, mv_resolution := None, mv_resolvedMs := None\<rparr>) s"
  using assms unfolding undo_def persistResolution_def rewritten_def verdict_status_def
  by (fastforce split: option.splits if_splits dest!: loaded_cases persist_cases)

lemma enqueue_cases:
  assumes "enqueueReview pt i cs s = (x, s')"
  obtains (same) "s' = s"
  | (wrote) t v where "pt_now pt = Some t" "isString (JStr i) 64" "length cs \<ge> 1" "length cs \<le> 64"
      "list_all (isCandidateSnapshot \<circ> candidate_val) cs" "i \<in> rc_id ` set (rs_recordings s)"
      "\<forall>w\<in>set (rs_reviews s). mv_recordingId w = i \<longrightarrow> mv_status w \<noteq> Pending"
      "v = \<lparr>mv_reviewId = pt_id pt, mv_recordingId = i, mv_candidates = cs, mv_status = Pending,
            mv_resolution = None, mv_createdMs = t, mv_resolvedMs = None\<rparr>"
      "x = Inr v" "s' = s\<lparr>rs_reviews := rs_reviews s @ [v]\<rparr>"
  using assms unfolding enqueueReview_def MAX_CANDIDATES_def
  by (fastforce split: option.splits if_splits dest!: loaded_cases persist_cases
      simp: Let_def not_le find_None_iff list_ex_iff)

section \<open>Every operation keeps the rows valid\<close>

definition reviews_valid :: "reviewState \<Rightarrow> bool" where
  "reviews_valid s \<longleftrightarrow>
     list_all (isRecording \<circ> recording_val) (rs_recordings s) \<and>
     list_all (isMatchReview \<circ> review_val) (rs_reviews s) \<and>
     distinct (map rc_id (rs_recordings s)) \<and> distinct (map mv_reviewId (rs_reviews s))"

text \<open>The ports keep their documented promises: a checked clock, and a fresh short id.\<close>

definition ports_ok :: "ports \<Rightarrow> reviewState \<Rightarrow> bool" where
  "ports_ok pt s \<longleftrightarrow> safe_opt (pt_now pt) \<and> isString (JStr (pt_id pt)) 64 \<and>
     pt_id pt \<notin> mv_reviewId ` set (rs_reviews s)"

lemma map_replaceRecording [simp]: "map rc_id (replaceRecording rows u) = map rc_id rows"
  by (simp add: replaceRecording_def)

lemma map_replaceReview [simp]: "map mv_reviewId (replaceReview rows u) = map mv_reviewId rows"
  by (simp add: replaceReview_def)

lemma rewritten_valid:
  assumes "reviews_valid s" "isRecording (recording_val r)" "isMatchReview (review_val v)"
  shows "reviews_valid (rewritten r v s)"
proof -
  have "set (replaceRecording rows r) \<subseteq> insert r (set rows)" for rows
    by (auto simp: replaceRecording_def)
  moreover have "set (replaceReview rows v) \<subseteq> insert v (set rows)" for rows
    by (auto simp: replaceReview_def)
  ultimately show ?thesis
    using assms unfolding reviews_valid_def rewritten_def list_all_iff by (simp del: map_map) blast
qed

lemma review_guard:
  "isMatchReview (review_val v) \<longleftrightarrow>
     isString (JStr (mv_reviewId v)) 64 \<and> isString (JStr (mv_recordingId v)) 64 \<and>
     1 \<le> length (mv_candidates v) \<and> length (mv_candidates v) \<le> 64 \<and>
     list_all (isCandidateSnapshot \<circ> candidate_val) (mv_candidates v) \<and>
     (case mv_resolution v of Some (Some r) \<Rightarrow> isTrackRef (ref_val r) | _ \<Rightarrow> True) \<and>
     mv_createdMs v \<le> max_safe \<and> safe_opt (mv_resolvedMs v) \<and>
     (if mv_status v = Pending then mv_resolvedMs v = None \<and> mv_resolution v = None
      else mv_resolvedMs v \<noteq> None)"
proof -
  have res: "nullable isMatchResolution (opt_val (\<lambda>r. JObj [(''ref'', opt_val ref_val r)]) x) \<longleftrightarrow>
      (case x of Some (Some r) \<Rightarrow> isTrackRef (ref_val r) | _ \<Rightarrow> True)" for x
    by (auto simp: nullable_def isMatchResolution_def hasExactKeys_def hasOwn_def opt_val_def ref_val_def
        split: option.splits)
  have st: "isIn MATCH_REVIEW_STATUSES (JStr (review_status_str x))"
    "review_status_str x = ''pending'' \<longleftrightarrow> x = Pending" for x
    by (cases x; simp add: MATCH_REVIEW_STATUSES_def)+
  have t: "nullable isSafeNonNegative (opt_val nat_val x) \<longleftrightarrow> safe_opt x"
    "opt_val nat_val x = JNull \<longleftrightarrow> x = None"
    "opt_val (\<lambda>r. JObj [(''ref'', opt_val ref_val r)]) y = JNull \<longleftrightarrow> y = None" for x y
    by (cases x; cases y; simp add: nullable_def safe_opt_def)+
  show ?thesis
    unfolding isMatchReview_def
    by (simp add: review_val_def hasExactKeys_def hasOwn_def res st t list_all_iff)
      (cases "mv_status v"; auto simp: MATCH_REVIEW_STATUSES_def)
qed

lemma candidate_guard:
  "isCandidateSnapshot (candidate_val c) \<Longrightarrow> isTrackRef (ref_val (cs_ref c)) \<and> safe_opt (tm_durationMs (cs_metadata c))"
  by (auto simp: isCandidateSnapshot_def candidate_val_def metadata_durations)

lemma user_mapping_valid:
  assumes "isRecording (recording_val r)" "isCandidateSnapshot (candidate_val c)" "t \<le> max_safe"
  shows "isSourceMapping (mapping_val (user_mapping uc st t r c))"
  using candidate_guard [OF assms(2)] recording_durations [OF assms(1)] assms(3)
  by (intro mapping_guard) (simp_all add: user_mapping_def userEvidence_wf)

lemma vetoes_valid:
  assumes "isRecording (recording_val r)" "t \<le> max_safe"
  shows "list_all (isCandidateSnapshot \<circ> candidate_val) cs \<Longrightarrow>
    list_all (isSourceMapping \<circ> mapping_val) (vetoes_of uc t r seen cs)"
  by (induction cs arbitrary: seen) (simp_all add: user_mapping_valid assms)

lemma mappings_appended_valid:
  "isRecording (recording_val r) \<Longrightarrow> list_all (isSourceMapping \<circ> mapping_val) ms \<Longrightarrow>
   isRecording (recording_val (r\<lparr>rc_mappings := rc_mappings r @ ms\<rparr>))"
  using recording_guard_split [of r] recording_guard_mappings [where r = r and ms = "rc_mappings r @ ms"]
  by simp

lemma remove_verdict_subset: "set (fold (remove_verdict st t) ks ms) \<subseteq> set ms"
proof (induction ks arbitrary: ms)
  case (Cons k ks)
  have "set (remove_verdict st t k ms) \<subseteq> set ms"
    by (auto simp: remove_verdict_def split: option.splits dest: set_splice_remove_subset [THEN subsetD])
  then show ?case using Cons [of "remove_verdict st t k ms"] by simp
qed simp

lemma mappings_removed_valid:
  "isRecording (recording_val r) \<Longrightarrow> set ms \<subseteq> set (rc_mappings r) \<Longrightarrow>
   isRecording (recording_val (r\<lparr>rc_mappings := ms\<rparr>))"
  using recording_guard_split [of r] recording_guard_mappings [where r = r and ms = ms]
  by (auto simp: list_all_iff)

text \<open>C22: Every operation of the review queue keeps the stored rows acceptable to the persistence
  guards: the mappings a verdict writes, the reviews it rewrites and the ones it parks all pass, and
  ids stay unique.\<close>

theorem review_queue_stays_valid:
  assumes "reviews_valid s" "ports_ok pt s"
  shows "reviews_valid (snd (exec_review uc pt cmd s))"
proof -
  obtain x s' where ex: "exec_review uc pt cmd s = (x, s')" by (cases "exec_review uc pt cmd s")
  have now: "t \<le> max_safe" if "pt_now pt = Some t" for t
    using assms(2) that by (simp add: ports_ok_def safe_opt_def)
  have rec: "isRecording (recording_val r)" if "find_recording i s = Some r" for i r
    using find_recording_Some [OF that] assms(1) by (auto simp: reviews_valid_def list_all_iff)
  have rev: "isMatchReview (review_val v)" if "find_review i s = Some v" for i v
    using find_review_Some [OF that] assms(1) by (auto simp: reviews_valid_def list_all_iff)
  have "reviews_valid s'"
  proof (cases cmd)
    case (CmdConfirm i k)
    show ?thesis
    proof (rule confirm_cases [OF ex [unfolded CmdConfirm exec_review.simps]])
      fix t n v r c
      assume *: "pt_now pt = Some t" "find_review i s = Some v" "n < length (mv_candidates v)"
        "c = mv_candidates v ! n" "find_recording (mv_recordingId v) s = Some r"
        and s': "s' = rewritten (r\<lparr>rc_mappings := rc_mappings r @ [user_mapping uc UserConfirmed t r c]\<rparr>)
          (v\<lparr>mv_status := Confirmed, mv_resolution := Some (Some (cs_ref c)), mv_resolvedMs := Some t\<rparr>) s"
      have c: "isCandidateSnapshot (candidate_val c)"
        using rev [OF *(2)] *(3,4) by (simp add: review_guard list_all_iff)
      show "reviews_valid s'"
        unfolding s' using rev [OF *(2)] now [OF *(1)] candidate_guard [OF c]
          user_mapping_valid [OF rec [OF *(5)] c now [OF *(1)]]
        by (intro rewritten_valid assms(1) mappings_appended_valid rec [OF *(5)])
          (simp_all add: review_guard safe_opt_def)
    qed (simp add: assms(1))
  next
    case (CmdReject i)
    show ?thesis
    proof (rule reject_cases [OF ex [unfolded CmdReject exec_review.simps]])
      fix t v r
      assume *: "pt_now pt = Some t" "find_review i s = Some v" "find_recording (mv_recordingId v) s = Some r"
        and s': "s' = rewritten (r\<lparr>rc_mappings := rc_mappings r @ vetoes_of uc t r {} (mv_candidates v)\<rparr>)
          (v\<lparr>mv_status := Rejected, mv_resolution := Some None, mv_resolvedMs := Some t\<rparr>) s"
      show "reviews_valid s'"
        unfolding s' using rev [OF *(2)] now [OF *(1)]
        by (intro rewritten_valid assms(1) mappings_appended_valid rec [OF *(3)] vetoes_valid)
          (simp_all add: review_guard safe_opt_def)
    qed (simp add: assms(1))
  next
    case (CmdUndo i)
    show ?thesis
      using ex [unfolded CmdUndo exec_review.simps]
    proof (cases rule: undo_cases)
      case (wrote v r t ks)
      show ?thesis
        unfolding wrote using rev [OF wrote(1)]
        by (intro rewritten_valid assms(1) mappings_removed_valid rec [OF wrote(4)] remove_verdict_subset)
          (simp_all add: review_guard safe_opt_def)
    qed (simp add: assms(1))
  next
    case (CmdEnqueue i cs)
    show ?thesis
      using ex [unfolded CmdEnqueue exec_review.simps]
    proof (cases rule: enqueue_cases)
      case (wrote t v)
      then have "isMatchReview (review_val v)"
        using now [OF wrote(1)] assms(2) by (simp add: review_guard ports_ok_def safe_opt_def)
      then show ?thesis
        using assms wrote(8) unfolding wrote(10) by (auto simp: reviews_valid_def ports_ok_def)
    qed (simp add: assms(1))
  qed
  then show ?thesis by (simp add: ex)
qed

theorem review_queue_stays_valid_witness:
  "reviews_valid (snd (exec_review rv_unicode (rv_ports 2) (CmdConfirm ''1'' (jnat 0)) (rv_run [rv_park])))"
  by (rule review_queue_stays_valid) code_simp+

section \<open>Undo is the inverse of a resolution\<close>

lemma vetoes_keys:
  "map (refKey \<circ> sm_ref) (vetoes_of uc t r seen cs) = set_order seen (map (refKey \<circ> cs_ref) cs)"
  by (induction cs arbitrary: seen) (simp_all add: user_mapping_def)

lemma vetoes_are_verdicts:
  "m \<in> set (vetoes_of uc t r seen cs) \<Longrightarrow> sm_status m = RejectedMapping \<and> sm_matchedAtMs m = t"
  by (induction cs arbitrary: seen) (auto simp: user_mapping_def split: if_splits)

lemma remove_appended:
  assumes "\<forall>m\<in>set ms. sm_matchedAtMs m \<noteq> t"
  shows "\<forall>m\<in>set vs. sm_status m = st \<and> sm_matchedAtMs m = t \<Longrightarrow>
    fold (remove_verdict st t) (map (refKey \<circ> sm_ref) vs) (ms @ vs) = ms"
proof (induction vs)
  case (Cons v vs)
  have "find_index (is_verdict (refKey (sm_ref v)) st t) (ms @ v # vs) = Some (length ms)"
    using assms Cons.prems by (intro find_index_here) (auto simp: is_verdict_def)
  then have "remove_verdict st t (refKey (sm_ref v)) (ms @ v # vs) = ms @ vs"
    by (simp add: remove_verdict_def splice_remove_def)
  then show ?case using Cons by simp
qed simp

lemma find_replaceReview:
  "find_review i s = Some v \<Longrightarrow> mv_reviewId u = i \<Longrightarrow> find_review i (rewritten r u s) = Some u"
proof -
  have "find (\<lambda>v. mv_reviewId v = i) rows = Some v \<Longrightarrow> mv_reviewId u = i \<Longrightarrow>
      find (\<lambda>v. mv_reviewId v = i) (replaceReview rows u) = Some u" for rows
    by (induction rows) (auto simp: replaceReview_def)
  then show "find_review i s = Some v \<Longrightarrow> mv_reviewId u = i \<Longrightarrow> ?thesis"
    by (simp add: find_review_def rewritten_def)
qed

lemma find_replaceRecording:
  "find_recording i s = Some r \<Longrightarrow> rc_id u = i \<Longrightarrow> find_recording i (rewritten u v s) = Some u"
proof -
  have "find (\<lambda>r. rc_id r = i) rows = Some r \<Longrightarrow> rc_id u = i \<Longrightarrow>
      find (\<lambda>r. rc_id r = i) (replaceRecording rows u) = Some u" for rows
    by (induction rows) (auto simp: replaceRecording_def)
  then show "find_recording i s = Some r \<Longrightarrow> rc_id u = i \<Longrightarrow> ?thesis"
    by (simp add: find_recording_def rewritten_def)
qed

lemma replace_same_key:
  assumes "distinct (map key rows)" "x \<in> set rows"
  shows "map (\<lambda>r. if key r = key x then x else r) rows = rows"
  using assms by (intro map_idI) (auto simp: distinct_map dest: inj_onD)

lemma rewritten_back:
  assumes "distinct (map rc_id (rs_recordings s))" "distinct (map mv_reviewId (rs_reviews s))"
    "find_recording (rc_id r') s = Some r" "find_review (mv_reviewId v') s = Some v"
  shows "rewritten r v (rewritten r' v' s) = s"
proof -
  have r: "r \<in> set (rs_recordings s)" "rc_id r = rc_id r'"
    and v: "v \<in> set (rs_reviews s)" "mv_reviewId v = mv_reviewId v'"
    using find_recording_Some [OF assms(3)] find_review_Some [OF assms(4)] by auto
  have "replaceRecording (replaceRecording (rs_recordings s) r') r = rs_recordings s"
  proof -
    have "replaceRecording (replaceRecording rows r') r = map (\<lambda>x. if rc_id x = rc_id r then r else x) rows" for rows
      using r(2) by (auto simp: replaceRecording_def)
    then show ?thesis by (simp add: replace_same_key [OF assms(1) r(1)])
  qed
  moreover have "replaceReview (replaceReview (rs_reviews s) v') v = rs_reviews s"
  proof -
    have "replaceReview (replaceReview rows v') v = map (\<lambda>x. if mv_reviewId x = mv_reviewId v then v else x) rows" for rows
      using v(2) by (auto simp: replaceReview_def)
    then show ?thesis by (simp add: replace_same_key [OF assms(2) v(1)])
  qed
  ultimately show ?thesis by (simp add: rewritten_def)
qed

text \<open>Ports that answer: not cancelled, a clock, a load and a commit that succeed.\<close>

definition ports_work :: "ports \<Rightarrow> bool" where
  "ports_work pt \<longleftrightarrow> \<not> pt_cancelled pt \<and> pt_now pt \<noteq> None \<and> pt_load pt = None \<and>
     \<not> pt_cancelledAfter pt \<and> pt_commit pt = None"

lemma undo_works:
  assumes "ports_work pt" "isString (JStr i) 64" "find_review i s = Some v"
    "mv_status v = Confirmed \<or> mv_status v = Rejected" "mv_resolvedMs v = Some t"
    "find_recording (mv_recordingId v) s = Some r" "touched_refs v = Some ks"
  shows "undo pt i s =
    (Inr (v\<lparr>mv_status := Pending, mv_resolution := None, mv_resolvedMs := None\<rparr>),
     rewritten (r\<lparr>rc_mappings := fold (remove_verdict (verdict_status v) t) ks (rc_mappings r)\<rparr>)
       (v\<lparr>mv_status := Pending, mv_resolution := None, mv_resolvedMs := None\<rparr>) s)"
proof -
  obtain t' where "pt_now pt = Some t'" using assms(1) by (auto simp: ports_work_def)
  then show ?thesis
    using assms
    by (simp add: undo_def loaded_def ports_work_def persistResolution_def persist_def rewritten_def
        verdict_status_def)
qed

text \<open>The resolution and its undo, once what it wrote is known.\<close>

lemma undo_of_rewritten:
  assumes valid: "reviews_valid s" and fv: "find_review i s = Some v" and st: "mv_status v = Pending"
    and fr: "find_recording (mv_recordingId v) s = Some r"
    and v': "v' = v\<lparr>mv_status := st', mv_resolution := res, mv_resolvedMs := Some t\<rparr>"
    and st': "st' = Confirmed \<or> st' = Rejected" and ks: "touched_refs v' = Some (map (refKey \<circ> sm_ref) vs)"
    and vs: "\<forall>m\<in>set vs. sm_status m = verdict_status v' \<and> sm_matchedAtMs m = t"
    and fresh: "\<forall>m\<in>set (rc_mappings r). sm_matchedAtMs m \<noteq> t"
    and works: "ports_work pt'" "isString (JStr i) 64"
  shows "undo pt' i (rewritten (r\<lparr>rc_mappings := rc_mappings r @ vs\<rparr>) v' s) = (Inr v, s)"
proof -
  let ?r = "r\<lparr>rc_mappings := rc_mappings r @ vs\<rparr>" and ?s = "rewritten (r\<lparr>rc_mappings := rc_mappings r @ vs\<rparr>) v' s"
  have ids: "mv_reviewId v = i" "rc_id r = mv_recordingId v"
    using find_review_Some [OF fv] find_recording_Some [OF fr] by auto
  have "isMatchReview (review_val v)"
    using find_review_Some [OF fv] valid by (auto simp: reviews_valid_def list_all_iff)
  then have restored: "v'\<lparr>mv_status := Pending, mv_resolution := None, mv_resolvedMs := None\<rparr> = v"
    using st by (cases v) (simp add: v' review_guard)
  have "undo pt' i ?s =
      (Inr (v'\<lparr>mv_status := Pending, mv_resolution := None, mv_resolvedMs := None\<rparr>),
       rewritten (?r\<lparr>rc_mappings := fold (remove_verdict (verdict_status v') t) (map (refKey \<circ> sm_ref) vs) (rc_mappings ?r)\<rparr>)
         (v'\<lparr>mv_status := Pending, mv_resolution := None, mv_resolvedMs := None\<rparr>) ?s)"
    using find_replaceReview [OF fv, of v'] find_replaceRecording [OF fr, of ?r] ids st'
    by (intro undo_works works ks) (simp_all add: v')
  also have "\<dots> = (Inr v, rewritten r v ?s)"
    unfolding restored using remove_appended [OF fresh vs] by simp
  also have "rewritten r v ?s = s"
    using valid fv fr ids by (intro rewritten_back) (simp_all add: reviews_valid_def v')
  finally show ?thesis .
qed

text \<open>C23: Undo is the inverse of a resolution: after a confirm or a reject that was stored, an undo
  returns the review to the queue and restores the stored recordings and reviews exactly, provided
  no mapping was already stamped with that very time.\<close>

theorem undo_inverts_resolution:
  assumes "reviews_valid s" "cmd = CmdConfirm i k \<or> cmd = CmdReject i"
    "exec_review uc pt cmd s = (Inr w, s1)" "ports_work pt'"
    "\<forall>r\<in>set (rs_recordings s). \<forall>m\<in>set (rc_mappings r). Some (sm_matchedAtMs m) \<noteq> pt_now pt"
  shows "\<exists>v. find_review i s = Some v \<and> undo pt' i s1 = (Inr v, s)"
  using assms(2)
proof
  assume cmd: "cmd = CmdConfirm i k"
  have ex: "confirm uc pt i k s = (Inr w, s1)" using assms(3) cmd by simp
  have i: "isString (JStr i) 64" using ex by (auto simp: confirm_def split: bool.splits)
  from ex show ?thesis
  proof (cases rule: confirm_cases)
    case (wrote t n v r c)
    have "undo pt' i s1 = (Inr v, s)"
      unfolding wrote(9)
      by (rule undo_of_rewritten [OF assms(1) wrote(2,3,7) refl, where t = t])
        (use assms(4,5) i wrote find_recording_Some [OF wrote(7)] in
          \<open>auto simp: touched_refs_def verdict_status_def user_mapping_def\<close>)
    then show ?thesis using wrote(2) by blast
  qed simp
next
  assume cmd: "cmd = CmdReject i"
  have ex: "reject uc pt i s = (Inr w, s1)" using assms(3) cmd by simp
  have i: "isString (JStr i) 64" using ex by (auto simp: reject_def split: if_splits)
  from ex show ?thesis
  proof (cases rule: reject_cases)
    case (wrote t v r)
    have "undo pt' i s1 = (Inr v, s)"
      unfolding wrote(6)
      by (rule undo_of_rewritten [OF assms(1) wrote(2,3,4) refl, where t = t])
        (use assms(4,5) i wrote find_recording_Some [OF wrote(4)] vetoes_are_verdicts in
          \<open>auto simp: touched_refs_def verdict_status_def vetoes_keys\<close>)
    then show ?thesis using wrote(2) by blast
  qed simp
qed

theorem undo_inverts_resolution_witness:
  "snd (undo (rv_ports 3) ''1'' (snd (exec_review rv_unicode (rv_ports 2) (CmdReject ''1'') (rv_run [rv_park])))) =
   rv_run [rv_park]"
proof -
  obtain w s1 where ex: "exec_review rv_unicode (rv_ports 2) (CmdReject ''1'') (rv_run [rv_park]) = (Inr w, s1)"
  proof -
    have "\<not> isl (fst (exec_review rv_unicode (rv_ports 2) (CmdReject ''1'') (rv_run [rv_park])))"
      by code_simp
    then show ?thesis using that by (metis prod.collapse sum.collapse(2))
  qed
  have "\<forall>r\<in>set (rs_recordings (rv_run [rv_park])). \<forall>m\<in>set (rc_mappings r).
      Some (sm_matchedAtMs m) \<noteq> pt_now (rv_ports 2)" by code_simp
  moreover have "reviews_valid (rv_run [rv_park])" "ports_work (rv_ports 3)" by code_simp+
  ultimately have "\<exists>v. undo (rv_ports 3) ''1'' s1 = (Inr v, rv_run [rv_park])"
    using undo_inverts_resolution [OF _ disjI2 [OF refl] ex] by blast
  then show ?thesis unfolding ex by auto
qed

section \<open>Precedence of claims\<close>

definition in_force :: "sourceMapping list \<Rightarrow> sourceMapping \<Rightarrow> bool" where
  "in_force ms m \<longleftrightarrow> map_get (collapseByRef ms) (refKey (sm_ref m)) = Some m"

lemma distinct_collapse: "distinct (map fst (collapseByRef ms))"
proof -
  have "distinct (map fst acc) \<Longrightarrow> distinct (map fst (fold collapse_step ms acc))" for acc
    by (induction ms arbitrary: acc) (simp_all add: collapse_step_def distinct_update split: option.splits)
  then show ?thesis by (simp add: collapseByRef_def)
qed

lemma collapse_values: "m \<in> snd ` set (collapseByRef ms) \<longleftrightarrow> in_force ms m"
proof -
  have "(k, m) \<in> set (collapseByRef ms) \<longleftrightarrow> map_get (collapseByRef ms) k = Some m" for k
    using distinct_collapse by (simp add: map_of_eq_Some_iff)
  moreover have "map_get (collapseByRef ms) k = Some m \<Longrightarrow> k = refKey (sm_ref m)" for k
    using collapse_spec [of ms k] by simp
  ultimately show ?thesis unfolding in_force_def image_iff by (metis snd_conv prod.exhaust_sel)
qed

definition claims_for :: "mappingStatus \<Rightarrow> string \<Rightarrow> sourceMapping list \<Rightarrow> sourceMapping list" where
  "claims_for st p = filter (\<lambda>m. ref_provider (sm_ref m) = p \<and> sm_status m = st)"

lemma scan_folds:
  "effective_scan p ms (c, a) =
     (fold later (claims_for UserConfirmed p ms) c, fold later (claims_for Automatic p ms) a)"
  by (induction ms arbitrary: c a) (auto simp: claims_for_def split: mappingStatus.splits)

lemma fold_later_spec:
  "fold later ms best = Some m \<Longrightarrow>
   (m \<in> set ms \<or> best = Some m) \<and> (\<forall>x\<in>set ms. sm_matchedAtMs x \<le> sm_matchedAtMs m) \<and>
   pred_option (\<lambda>b. sm_matchedAtMs b \<le> sm_matchedAtMs m) best"
proof (induction ms arbitrary: best)
  case (Cons x ms)
  then have "fold later ms (later x best) = Some m" by simp
  from Cons.IH [OF this] show ?case
    by (cases best) (auto simp: later_def split: if_splits)
qed simp

lemma fold_later_None: "fold later ms best = None \<longleftrightarrow> ms = [] \<and> best = None"
  by (induction ms arbitrary: best) (auto simp: later_def split: option.splits)

lemma claims_in_force:
  "m \<in> set (claims_for st p (map snd (collapseByRef ms))) \<longleftrightarrow>
     in_force ms m \<and> ref_provider (sm_ref m) = p \<and> sm_status m = st"
  using collapse_values [of m ms] by (auto simp: claims_for_def)

lemma effective_claim:
  "case effectiveMapping r p of
     None \<Rightarrow> (\<forall>m. in_force (rc_mappings r) m \<and> ref_provider (sm_ref m) = p \<longrightarrow> sm_status m = RejectedMapping)
   | Some m \<Rightarrow> in_force (rc_mappings r) m \<and> ref_provider (sm_ref m) = p \<and> sm_status m \<noteq> RejectedMapping \<and>
       (\<forall>x. in_force (rc_mappings r) x \<and> ref_provider (sm_ref x) = p \<longrightarrow>
         (sm_status x = sm_status m \<longrightarrow> sm_matchedAtMs x \<le> sm_matchedAtMs m) \<and>
         (sm_status m = Automatic \<longrightarrow> sm_status x \<noteq> UserConfirmed))"
proof -
  let ?vals = "map snd (collapseByRef (rc_mappings r))"
  let ?c = "fold later (claims_for UserConfirmed p ?vals) None"
  let ?a = "fold later (claims_for Automatic p ?vals) None"
  have eff: "effectiveMapping r p = or_else ?c ?a"
    by (simp add: effectiveMapping_def scan_folds)
  show ?thesis
  proof (cases ?c)
    case (Some m)
    then show ?thesis
      using fold_later_spec [OF Some] claims_in_force [of _ _ p "rc_mappings r"]
      by (auto simp: eff or_else_def)
  next
    case None
    then have no: "\<not> (in_force (rc_mappings r) x \<and> ref_provider (sm_ref x) = p \<and> sm_status x = UserConfirmed)" for x
      using claims_in_force [of x UserConfirmed p "rc_mappings r"] by (simp add: fold_later_None)
    show ?thesis
    proof (cases ?a)
      case (Some m)
      then show ?thesis
        using None no fold_later_spec [OF Some] claims_in_force [of _ _ p "rc_mappings r"]
        by (auto simp: eff or_else_def)
    next
      case a: None
      have "\<not> (in_force (rc_mappings r) x \<and> ref_provider (sm_ref x) = p \<and> sm_status x = Automatic)" for x
        using a claims_in_force [of x Automatic p "rc_mappings r"] by (simp add: fold_later_None)
      then show ?thesis
        using None a no by (auto simp: eff or_else_def) (metis mappingStatus.exhaust)
    qed
  qed
qed

text \<open>The effective mapping of a provider is a claim still in force and never a rejected one: the
  latest confirmed claim when there is one, otherwise the latest automatic claim; it is missing only
  when no such claim is in force.\<close>

theorem effective_mapping_precedence:
  "case effectiveMapping r p of
     None \<Rightarrow> (\<forall>m. in_force (rc_mappings r) m \<and> ref_provider (sm_ref m) = p \<longrightarrow> sm_status m = RejectedMapping)
   | Some m \<Rightarrow> in_force (rc_mappings r) m \<and> ref_provider (sm_ref m) = p \<and> sm_status m \<noteq> RejectedMapping \<and>
       (\<forall>x. in_force (rc_mappings r) x \<and> ref_provider (sm_ref x) = p \<longrightarrow>
         (sm_status x = sm_status m \<longrightarrow> sm_matchedAtMs x \<le> sm_matchedAtMs m) \<and>
         (sm_status m = Automatic \<longrightarrow> sm_status x \<noteq> UserConfirmed))"
  by (rule effective_claim)

text \<open>A claim newer than all others of its ref is the one in force.\<close>

lemma newest_in_force:
  assumes "m \<in> set ms" "\<And>x. x \<in> set ms \<Longrightarrow> refKey (sm_ref x) = refKey (sm_ref m) \<Longrightarrow> x = m \<or> sm_matchedAtMs x < sm_matchedAtMs m"
  shows "in_force ms m"
  using collapse_spec [of ms "refKey (sm_ref m)"] assms
  by (fastforce simp: in_force_def claim_key_def split: option.splits)

lemma in_force_member: "in_force ms m \<Longrightarrow> m \<in> set ms"
  using collapse_spec [of ms "refKey (sm_ref m)"] by (simp add: in_force_def)

lemma set_set_order: "set (set_order seen ks) = set ks - seen"
  by (induction ks arbitrary: seen) auto

lemma vetoes_cover: "c \<in> set cs \<Longrightarrow>
  \<exists>m\<in>set (vetoes_of uc t r {} cs). refKey (sm_ref m) = refKey (cs_ref c)"
proof -
  assume "c \<in> set cs"
  then have "refKey (cs_ref c) \<in> set (map (refKey \<circ> sm_ref) (vetoes_of uc t r {} cs))"
    by (simp add: vetoes_keys set_set_order)
  then show ?thesis by auto
qed

lemma newest_confirmed_effective:
  assumes "m = \<lparr>sm_ref = ref, sm_status = UserConfirmed, sm_matchedAtMs = t, sm_evidence = e\<rparr>"
    "\<forall>x\<in>set ms. sm_matchedAtMs x < t"
  shows "effectiveMapping (r\<lparr>rc_mappings := ms @ [m]\<rparr>) (ref_provider ref) = Some m"
proof -
  let ?r = "r\<lparr>rc_mappings := ms @ [m]\<rparr>"
  have "in_force (ms @ [m]) m"
    using assms by (intro newest_in_force) auto
  then have force: "in_force (rc_mappings ?r) m" "ref_provider (sm_ref m) = ref_provider ref"
      "sm_status m = UserConfirmed" using assms(1) by simp_all
  obtain m' where m': "effectiveMapping ?r (ref_provider ref) = Some m'"
    using effective_claim [of ?r "ref_provider ref"] force
    by (cases "effectiveMapping ?r (ref_provider ref)") auto
  note claim = effective_claim [of ?r "ref_provider ref", unfolded m', simplified option.case]
  then have "sm_status m' = UserConfirmed"
    using force by (cases "sm_status m'") blast+
  then have "sm_matchedAtMs m \<le> sm_matchedAtMs m'" "in_force (ms @ [m]) m'"
    using claim force by auto
  then have "m' = m" using in_force_member [of "ms @ [m]" m'] assms by fastforce
  then show ?thesis using m' by simp
qed

lemma newest_rejected:
  assumes "v \<in> set vs" "sm_status v = RejectedMapping" "\<forall>x\<in>set vs. sm_status x = RejectedMapping \<and> sm_matchedAtMs x = t"
    "\<forall>x\<in>set ms. sm_matchedAtMs x < t" "refKey (sm_ref v) = refKey ref"
  shows "isRefRejected (ms @ vs) ref"
  using collapse_spec [of "ms @ vs" "refKey ref"] assms
  by (fastforce simp: isRefRejected_def claim_key_def split: option.splits)

text \<open>C24: A verdict newer than the recording's other mappings takes effect at once: a confirmed ref
  becomes the effective mapping of its provider, and after a rejection every candidate ref of the
  review is vetoed.\<close>

theorem verdict_takes_effect:
  assumes "exec_review uc pt cmd s = (Inr w, s1)" "cmd = CmdConfirm i k \<or> cmd = CmdReject i"
    "find_recording (mv_recordingId w) s = Some r"
    "\<forall>m\<in>set (rc_mappings r). pred_option (\<lambda>t. sm_matchedAtMs m < t) (pt_now pt)"
  shows "\<exists>r'. find_recording (mv_recordingId w) s1 = Some r' \<and>
    (case mv_resolution w of
       Some (Some ref) \<Rightarrow> map_option sm_ref (effectiveMapping r' (ref_provider ref)) = Some ref
     | _ \<Rightarrow> list_all (\<lambda>c. isRefRejected (rc_mappings r') (cs_ref c)) (mv_candidates w))"
  using assms(2)
proof
  assume cmd: "cmd = CmdConfirm i k"
  from assms(1) [unfolded cmd exec_review.simps] show ?thesis
  proof (cases rule: confirm_cases)
    case (wrote t n v r0 c)
    let ?r' = "r\<lparr>rc_mappings := rc_mappings r @ [user_mapping uc UserConfirmed t r c]\<rparr>"
    have r: "r0 = r" and id: "rc_id r = mv_recordingId v"
      using wrote(7,8) assms(3) find_recording_Some [OF wrote(7)] by auto
    have "effectiveMapping ?r' (ref_provider (cs_ref c)) = Some (user_mapping uc UserConfirmed t r c)"
      using assms(4) wrote(1)
      by (intro newest_confirmed_effective) (auto simp: user_mapping_def)
    moreover have "find_recording (mv_recordingId v) s1 = Some ?r'"
      unfolding wrote(9) r by (rule find_replaceRecording [OF wrote(7)]) (simp add: id)
    ultimately show ?thesis using wrote(8) by (simp add: user_mapping_def)
  qed simp
next
  assume cmd: "cmd = CmdReject i"
  from assms(1) [unfolded cmd exec_review.simps] show ?thesis
  proof (cases rule: reject_cases)
    case (wrote t v r0)
    let ?vs = "vetoes_of uc t r {} (mv_candidates v)"
    let ?r' = "r\<lparr>rc_mappings := rc_mappings r @ ?vs\<rparr>"
    have r: "r0 = r" and id: "rc_id r = mv_recordingId v"
      using wrote(4,5) assms(3) find_recording_Some [OF wrote(4)] by auto
    have "isRefRejected (rc_mappings r @ ?vs) (cs_ref c)" if c: "c \<in> set (mv_candidates v)" for c
    proof -
      obtain m where "m \<in> set ?vs" "refKey (sm_ref m) = refKey (cs_ref c)"
        using vetoes_cover [OF c] by blast
      then show ?thesis
        using vetoes_are_verdicts [of _ uc t r "{}" "mv_candidates v"] assms(4) wrote(1)
        by (intro newest_rejected [of m ?vs t]) auto
    qed
    moreover have "find_recording (mv_recordingId v) s1 = Some ?r'"
      unfolding wrote(6) r by (rule find_replaceRecording [OF wrote(4)]) (simp add: id)
    ultimately show ?thesis using wrote(5) by (simp add: list_all_iff)
  qed simp
qed

theorem verdict_takes_effect_witness:
  "\<exists>r'. find_recording ''r'' (rv_run [rv_park, CmdConfirm ''1'' (jnat 0)]) = Some r' \<and>
    map_option sm_ref (effectiveMapping r' ''q'') = Some (tm_sourceRef rv_metadata)"
proof -
  let ?s = "rv_run [rv_park]" and ?cmd = "CmdConfirm ''1'' (jnat 0)"
  let ?x = "exec_review rv_unicode (rv_ports 2) ?cmd ?s"
  have "\<not> isl (fst ?x)" by code_simp
  then have ex: "?x = (Inr (projr (fst ?x)), snd ?x)" by (metis prod.collapse sum.collapse(2))
  have w: "mv_recordingId (projr (fst ?x)) = ''r''" "snd ?x = rv_run [rv_park, ?cmd]"
    "mv_resolution (projr (fst ?x)) = Some (Some (tm_sourceRef rv_metadata))"
    "ref_provider (tm_sourceRef rv_metadata) = ''q''" by code_simp+
  have "find_recording ''r'' ?s = Some (recordingFromMetadata rv_unicode rv_metadata ''r'')"
    "rc_mappings (recordingFromMetadata rv_unicode rv_metadata ''r'') = []" by code_simp+
  then show ?thesis
    using verdict_takes_effect [OF ex disjI1 [OF refl], of "recordingFromMetadata rv_unicode rv_metadata ''r''"]
    unfolding w by (simp add: w(4))
qed

section \<open>Pending reviews\<close>

text \<open>No recording has two reviews waiting.\<close>

definition one_pending :: "reviewState \<Rightarrow> bool" where
  "one_pending s \<longleftrightarrow> distinct (map mv_recordingId (filter (\<lambda>v. mv_status v = Pending) (rs_reviews s)))"

lemma pending_after_resolution:
  assumes "mv_status u \<noteq> Pending" "one_pending s"
  shows "one_pending (rewritten r u s)"
proof -
  have "filter (\<lambda>v. mv_status v = Pending) (replaceReview rows u) =
      filter (\<lambda>v. mv_reviewId v \<noteq> mv_reviewId u) (filter (\<lambda>v. mv_status v = Pending) rows)" for rows
    using assms(1) by (induction rows) (auto simp: replaceReview_def)
  then show ?thesis
    using assms(2) unfolding one_pending_def rewritten_def reviewState.select_convs
    by (metis distinct_map_filter)
qed

text \<open>Parking, confirming and rejecting keep at most one pending review per recording.\<close>

theorem one_pending_review:
  assumes "one_pending s" "\<nexists>i. cmd = CmdUndo i"
  shows "one_pending (snd (exec_review uc pt cmd s))"
proof -
  obtain x s' where ex: "exec_review uc pt cmd s = (x, s')" by (cases "exec_review uc pt cmd s")
  have "one_pending s'"
  proof (cases cmd)
    case (CmdConfirm i k)
    show ?thesis
      using ex [unfolded CmdConfirm exec_review.simps]
      by (cases rule: confirm_cases) (simp_all add: assms(1) pending_after_resolution)
  next
    case (CmdReject i)
    show ?thesis
      using ex [unfolded CmdReject exec_review.simps]
      by (cases rule: reject_cases) (simp_all add: assms(1) pending_after_resolution)
  next
    case (CmdEnqueue i cs)
    show ?thesis
      using ex [unfolded CmdEnqueue exec_review.simps]
    proof (cases rule: enqueue_cases)
      case (wrote t v)
      have "i \<notin> mv_recordingId ` set (filter (\<lambda>v. mv_status v = Pending) (rs_reviews s))"
        using wrote(7) by auto
      then show ?thesis using assms(1) by (simp add: wrote(8,10) one_pending_def)
    qed (simp add: assms(1))
  qed (use assms(2) in blast)
  then show ?thesis by (simp add: ex)
qed

theorem one_pending_review_witness:
  "one_pending (snd (exec_review rv_unicode (rv_ports 2) rv_park (rv_run [rv_park])))"
  by (rule one_pending_review) (code_simp, simp add: rv_park_def)

lemma pending_after_undo:
  assumes "distinct (map mv_reviewId rows)" "v0 \<in> set rows" "mv_status v0 \<noteq> Pending"
    "mv_reviewId v = mv_reviewId v0" "mv_status v = Pending"
  obtains xs ys where "filter (\<lambda>v. mv_status v = Pending) rows = xs @ ys"
    "filter (\<lambda>v. mv_status v = Pending) (replaceReview rows v) = xs @ v # ys"
proof -
  obtain as bs where rows: "rows = as @ v0 # bs" using assms(2) by (meson split_list)
  then have "mv_reviewId v \<notin> mv_reviewId ` set (as @ bs)" using assms(1,4) by (simp add: image_Un)
  then have "\<forall>r\<in>set (as @ bs). mv_reviewId r \<noteq> mv_reviewId v" by (metis image_eqI)
  then have "replaceReview as v = as" "replaceReview bs v = bs"
    by (auto simp: replaceReview_def intro: map_idI)
  then have "replaceReview rows v = as @ v # bs"
    using assms(4) by (simp add: rows replaceReview_def)
  then show ?thesis
    using that [of "filter (\<lambda>v. mv_status v = Pending) as" "filter (\<lambda>v. mv_status v = Pending) bs"] assms(3,5)
    by (simp add: rows)
qed

text \<open>C25: Undo does not keep it: an undo that succeeds leaves one pending review per recording exactly
  when the recording of the review it returns has no review waiting already; it never checks.\<close>

theorem undo_can_leave_two_pending:
  assumes "reviews_valid s" "one_pending s" "undo pt i s = (Inr v, s')"
  shows "one_pending s' \<longleftrightarrow>
    mv_recordingId v \<notin> mv_recordingId ` set (filter (\<lambda>p. mv_status p = Pending) (rs_reviews s))"
  using assms(3)
proof (cases rule: undo_cases)
  case (wrote v0 r t ks)
  have v: "v = v0\<lparr>mv_status := Pending, mv_resolution := None, mv_resolvedMs := None\<rparr>"
    using wrote(6) by simp
  have "distinct (map mv_reviewId (rs_reviews s))" "v0 \<in> set (rs_reviews s)" "mv_status v0 \<noteq> Pending"
    using assms(1) find_review_Some [OF wrote(1)] wrote(2) by (auto simp: reviews_valid_def)
  then obtain xs ys where "filter (\<lambda>v. mv_status v = Pending) (rs_reviews s) = xs @ ys"
      "filter (\<lambda>v. mv_status v = Pending) (replaceReview (rs_reviews s) v) = xs @ v # ys"
    by (rule pending_after_undo [where v = v]) (simp_all add: v)
  moreover have "rs_reviews s' = replaceReview (rs_reviews s) v"
    by (simp add: wrote(7) rewritten_def v)
  ultimately show ?thesis
    using assms(2) unfolding one_pending_def by auto
qed simp

text \<open>The witness: park, confirm, park again, and undo the first review.\<close>

theorem undo_can_leave_two_pending_witness:
  "one_pending (rv_run [rv_park, CmdConfirm ''1'' (jnat 0), rv_park]) \<and>
   \<not> one_pending (snd (undo (rv_ports 4) ''1'' (rv_run [rv_park, CmdConfirm ''1'' (jnat 0), rv_park])))"
proof -
  let ?s = "rv_run [rv_park, CmdConfirm ''1'' (jnat 0), rv_park]"
  have one: "one_pending ?s" by code_simp
  have "case fst (undo (rv_ports 4) ''1'' ?s) of Inl _ \<Rightarrow> False
      | Inr v \<Rightarrow> mv_recordingId v \<in> mv_recordingId ` set (filter (\<lambda>p. mv_status p = Pending) (rs_reviews ?s))"
    by code_simp
  then obtain v where run: "undo (rv_ports 4) ''1'' ?s = (Inr v, snd (undo (rv_ports 4) ''1'' ?s))"
      and waiting: "mv_recordingId v \<in> mv_recordingId ` set (filter (\<lambda>p. mv_status p = Pending) (rs_reviews ?s))"
    by (metis (no_types, lifting) prod.collapse sum.case_eq_if sum.collapse(2))
  have "reviews_valid ?s" by code_simp
  from undo_can_leave_two_pending [OF this one run] waiting one show ?thesis by blast
qed

end
