(* ===== verification/Sha256.thy ===== *)
theory Sha256
  imports Prelude "HOL-Library.Word"
begin

text \<open>
  The streaming SHA-256 of \<open>packages/application/src/downloads/sha256.ts\<close>, on 32-bit words, against
  the one-shot definition of the standard: pad the whole message, cut it into blocks, compress.
\<close>

unbundle bit_operations_syntax

type_synonym w32 = "32 word"
type_synonym byte = "8 word"

section \<open>Compression\<close>

text \<open>The table \<open>K\<close>, one inner list per line of the source.\<close>

definition SHA_K :: "w32 list" where
  "SHA_K = concat [
     [0x428a2f98, 0x71374491, 0xb5c0fbcf, 0xe9b5dba5, 0x3956c25b, 0x59f111f1],
     [0x923f82a4, 0xab1c5ed5, 0xd807aa98, 0x12835b01, 0x243185be, 0x550c7dc3],
     [0x72be5d74, 0x80deb1fe, 0x9bdc06a7, 0xc19bf174, 0xe49b69c1, 0xefbe4786],
     [0x0fc19dc6, 0x240ca1cc, 0x2de92c6f, 0x4a7484aa, 0x5cb0a9dc, 0x76f988da],
     [0x983e5152, 0xa831c66d, 0xb00327c8, 0xbf597fc7, 0xc6e00bf3, 0xd5a79147],
     [0x06ca6351, 0x14292967, 0x27b70a85, 0x2e1b2138, 0x4d2c6dfc, 0x53380d13],
     [0x650a7354, 0x766a0abb, 0x81c2c92e, 0x92722c85, 0xa2bfe8a1, 0xa81a664b],
     [0xc24b8b70, 0xc76c51a3, 0xd192e819, 0xd6990624, 0xf40e3585, 0x106aa070],
     [0x19a4c116, 0x1e376c08, 0x2748774c, 0x34b0bcb5, 0x391c0cb3, 0x4ed8aa4a],
     [0x5b9cca4f, 0x682e6ff3, 0x748f82ee, 0x78a5636f, 0x84c87814, 0x8cc70208],
     [0x90befffa, 0xa4506ceb, 0xbef9a3f7, 0xc67178f2]]"

definition SHA_H0 :: "w32 list" where
  "SHA_H0 = [0x6a09e667, 0xbb67ae85, 0x3c6ef372, 0xa54ff53a,
             0x510e527f, 0x9b05688c, 0x1f83d9ab, 0x5be0cd19]"

definition rotr :: "w32 \<Rightarrow> nat \<Rightarrow> w32" where
  "rotr x n = drop_bit n x OR push_bit (32 - n) x"

text \<open>\<open>view.getUint32(i * 4, false)\<close>: big-endian.\<close>

definition getUint32 :: "byte list \<Rightarrow> nat \<Rightarrow> w32" where
  "getUint32 b i =
     push_bit 24 (ucast (b ! i)) OR push_bit 16 (ucast (b ! (i + 1))) OR
     push_bit 8 (ucast (b ! (i + 2))) OR ucast (b ! (i + 3))"

definition schedule_word :: "w32 list \<Rightarrow> nat \<Rightarrow> w32" where
  "schedule_word w i =
     (let w15 = w ! (i - 15); w2 = w ! (i - 2); w16 = w ! (i - 16); w7 = w ! (i - 7);
          s0 = rotr w15 7 XOR rotr w15 18 XOR drop_bit 3 w15;
          s1 = rotr w2 17 XOR rotr w2 19 XOR drop_bit 10 w2
      in w16 + s0 + w7 + s1)"

definition schedule :: "byte list \<Rightarrow> w32 list" where
  "schedule block =
     fold (\<lambda>i w. w @ [schedule_word w i]) [16..<64] (map (\<lambda>i. getUint32 block (i * 4)) [0..<16])"

type_synonym regs = "w32 \<times> w32 \<times> w32 \<times> w32 \<times> w32 \<times> w32 \<times> w32 \<times> w32"

definition sha_round :: "w32 \<times> w32 \<Rightarrow> regs \<Rightarrow> regs" where
  "sha_round = (\<lambda>(ki, wi) (a, b, c, d, e, f, g, hh).
     let s1 = rotr e 6 XOR rotr e 11 XOR rotr e 25;
         ch = (e AND f) XOR (NOT e AND g);
         t1 = hh + s1 + ch + ki + wi;
         s0 = rotr a 2 XOR rotr a 13 XOR rotr a 22;
         maj = (a AND b) XOR (a AND c) XOR (b AND c);
         t2 = s0 + maj
     in (t1 + t2, a, b, c, d + t1, e, f, g))"

fun regs_of :: "w32 list \<Rightarrow> regs" where
  "regs_of h = (h ! 0, h ! 1, h ! 2, h ! 3, h ! 4, h ! 5, h ! 6, h ! 7)"

fun regs_list :: "regs \<Rightarrow> w32 list" where
  "regs_list (a, b, c, d, e, f, g, hh) = [a, b, c, d, e, f, g, hh]"

definition compress :: "byte list \<Rightarrow> w32 list \<Rightarrow> w32 list" where
  "compress block h =
     map2 (+) h (regs_list (fold sha_round (zip SHA_K (schedule block)) (regs_of h)))"

section \<open>The streaming state\<close>

record shaState =
  sh_h :: "w32 list"
  sh_block :: "byte list"
  sh_blockLen :: nat
  sh_totalLen :: nat

definition createSha256 :: shaState where
  "createSha256 = \<lparr>sh_h = SHA_H0, sh_block = replicate 64 0, sh_blockLen = 0, sh_totalLen = 0\<rparr>"

text \<open>\<open>#block.set(bytes, at)\<close>\<close>

definition set_at :: "byte list \<Rightarrow> nat \<Rightarrow> byte list \<Rightarrow> byte list" where
  "set_at block n bytes = take n block @ bytes @ drop (n + length bytes) block"

text \<open>One turn of the loop of \<open>update\<close>: fill the block, compress it when it is full.\<close>

definition absorb :: "byte list \<Rightarrow> shaState \<Rightarrow> shaState" where
  "absorb part s =
     (let s' = s\<lparr>sh_block := set_at (sh_block s) (sh_blockLen s) part,
                 sh_blockLen := sh_blockLen s + length part\<rparr>
      in if sh_blockLen s' = 64
         then s'\<lparr>sh_h := compress (sh_block s') (sh_h s'), sh_blockLen := 0\<rparr>
         else s')"

text \<open>The loop ends because a block is never full between turns: \<open>min 64\<close> keeps the count positive.\<close>

function update_loop :: "byte list \<Rightarrow> shaState \<Rightarrow> shaState" where
  "update_loop bytes s =
     (if bytes = [] \<or> 64 \<le> sh_blockLen s then s
      else update_loop (drop (64 - sh_blockLen s) bytes) (absorb (take (64 - sh_blockLen s) bytes) s))"
  by auto
termination
  by (relation "measure (\<lambda>(bytes, s). length bytes)") (auto simp: length_greater_0_conv [symmetric] simp del: length_greater_0_conv)

declare update_loop.simps [simp del]

definition sha_update :: "byte list \<Rightarrow> shaState \<Rightarrow> shaState" where
  "sha_update bytes s = update_loop bytes (s\<lparr>sh_totalLen := sh_totalLen s + length bytes\<rparr>)"

definition uint32_bytes :: "nat \<Rightarrow> byte list" where
  "uint32_bytes n = map (\<lambda>k. of_nat (n div 2 ^ k)) [24, 16, 8, 0]"

definition sha_pad :: "nat \<Rightarrow> nat \<Rightarrow> byte list" where
  "sha_pad blockLen totalLen =
     (let bitLen = totalLen * 8;
          padLen = (if blockLen < 56 then 56 - blockLen else 120 - blockLen)
      in 0x80 # replicate (padLen - 1) 0 @
         uint32_bytes (bitLen div 0x100000000) @ uint32_bytes (bitLen mod 0x100000000))"

definition hex_digit :: "nat \<Rightarrow> char" where
  "hex_digit d = ''0123456789abcdef'' ! d"

fun show_hex :: "nat \<Rightarrow> string" where
  "show_hex n = (if n < 16 then [hex_digit n] else show_hex (n div 16) @ [hex_digit (n mod 16)])"

declare show_hex.simps [simp del]

definition padStart :: "nat \<Rightarrow> char \<Rightarrow> string \<Rightarrow> string" where
  "padStart n c s = replicate (n - length s) c @ s"

definition hex_of :: "w32 list \<Rightarrow> string" where
  "hex_of h = concat (map (\<lambda>w. padStart 8 (CHR ''0'') (show_hex (unat w))) h)"

definition sha_digest :: "shaState \<Rightarrow> string" where
  "sha_digest s = hex_of (sh_h (sha_update (sha_pad (sh_blockLen s) (sh_totalLen s)) s))"

section \<open>The standard, in one shot\<close>

function sha_blocks :: "byte list \<Rightarrow> w32 list \<Rightarrow> w32 list" where
  "sha_blocks m h = (if length m < 64 then h else sha_blocks (drop 64 m) (compress (take 64 m) h))"
  by auto
termination by (relation "measure (\<lambda>(m, h). length m)") auto

declare sha_blocks.simps [simp del]

fun unfinished :: "byte list \<Rightarrow> byte list" where
  "unfinished m = (if length m < 64 then m else unfinished (drop 64 m))"

declare unfinished.simps [simp del]

definition std_pad :: "nat \<Rightarrow> byte list" where
  "std_pad n =
     0x80 # replicate ((119 - n mod 64) mod 64) 0 @
     map (\<lambda>k. of_nat (8 * n div 2 ^ k)) [56, 48, 40, 32, 24, 16, 8, 0]"

definition sha256 :: "byte list \<Rightarrow> string" where
  "sha256 m = hex_of (sha_blocks (m @ std_pad (length m)) SHA_H0)"

section \<open>Streaming agrees with the standard\<close>

lemma unfinished_length: "length (unfinished m) = length m mod 64"
proof (induction m rule: unfinished.induct)
  case (1 m)
  then show ?case
    using le_mod_geq [of 64 "length m"] by (cases "length m < 64") (simp_all add: unfinished.simps [of m])
qed

lemma unfinished_short [simp]: "length m < 64 \<Longrightarrow> unfinished m = m"
  by (subst unfinished.simps) simp

lemma sha_blocks_short [simp]: "length m < 64 \<Longrightarrow> sha_blocks m h = h"
  by (subst sha_blocks.simps) simp

lemma sha_blocks_append: "sha_blocks (x @ y) h = sha_blocks (unfinished x @ y) (sha_blocks x h)"
proof (induction x h rule: sha_blocks.induct)
  case (1 m h)
  show ?case
  proof (cases "length m < 64")
    case False
    then have "sha_blocks (m @ y) h = sha_blocks (drop 64 m @ y) (compress (take 64 m) h)"
      by (subst sha_blocks.simps) simp
    also have "\<dots> = sha_blocks (unfinished (drop 64 m) @ y) (sha_blocks (drop 64 m) (compress (take 64 m) h))"
      by (rule 1 [OF False])
    finally show ?thesis
      using False by (simp add: unfinished.simps [of m] sha_blocks.simps [of m])
  qed simp
qed

lemma unfinished_append: "unfinished (x @ y) = unfinished (unfinished x @ y)"
proof (induction x rule: unfinished.induct)
  case (1 m)
  then show ?case
    by (cases "length m < 64") (simp_all add: unfinished.simps [of m] unfinished.simps [of "m @ y"])
qed

text \<open>The bytes waiting in the block, and a state that has the shape the class keeps.\<close>

definition pend :: "shaState \<Rightarrow> byte list" where
  "pend s = take (sh_blockLen s) (sh_block s)"

definition sha_ok :: "shaState \<Rightarrow> bool" where
  "sha_ok s \<longleftrightarrow> sh_blockLen s < 64 \<and> length (sh_block s) = 64"

lemma pend_length: "sha_ok s \<Longrightarrow> length (pend s) = sh_blockLen s"
  by (simp add: pend_def sha_ok_def)

lemma absorb_step:
  assumes "sha_ok s" "length part \<le> 64 - sh_blockLen s"
  shows "sha_ok (absorb part s) \<and> sh_h (absorb part s) = sha_blocks (pend s @ part) (sh_h s) \<and>
    pend (absorb part s) = unfinished (pend s @ part) \<and> sh_totalLen (absorb part s) = sh_totalLen s"
proof -
  have len: "length (pend s @ part) = sh_blockLen s + length part"
    using assms by (simp add: pend_def sha_ok_def min_def)
  have set: "take (sh_blockLen s + length part) (set_at (sh_block s) (sh_blockLen s) part) = pend s @ part"
    using assms by (simp add: set_at_def pend_def sha_ok_def min_def)
  have size: "length (set_at (sh_block s) (sh_blockLen s) part) = 64"
    using assms unfolding set_at_def sha_ok_def by auto
  show ?thesis
  proof (cases "sh_blockLen s + length part = 64")
    case True
    then have "set_at (sh_block s) (sh_blockLen s) part = pend s @ part"
      using set size by simp
    moreover have "sha_blocks (pend s @ part) (sh_h s) = compress (pend s @ part) (sh_h s)"
      "unfinished (pend s @ part) = []"
      using len True by (subst sha_blocks.simps unfinished.simps, simp)+
    ultimately show ?thesis
      using True size by (simp add: absorb_def sha_ok_def pend_def)
  next
    case False
    then have few: "length (pend s @ part) < 64"
      using assms unfolding len sha_ok_def by auto
    moreover have "absorb part s = s\<lparr>sh_block := set_at (sh_block s) (sh_blockLen s) part,
        sh_blockLen := sh_blockLen s + length part\<rparr>"
      using False by (simp add: absorb_def)
    ultimately show ?thesis
      using size len set by (simp add: sha_ok_def pend_def [of "s\<lparr>sh_block := _, sh_blockLen := _\<rparr>"] del: length_append)
  qed
qed

lemma update_loop_step:
  "sha_ok s \<Longrightarrow>
   sha_ok (update_loop bytes s) \<and> sh_h (update_loop bytes s) = sha_blocks (pend s @ bytes) (sh_h s) \<and>
   pend (update_loop bytes s) = unfinished (pend s @ bytes) \<and>
   sh_totalLen (update_loop bytes s) = sh_totalLen s"
proof (induction bytes s rule: update_loop.induct)
  case (1 bytes s)
  have short: "length (pend s) < 64" using 1(2) by (simp add: pend_def sha_ok_def)
  show ?case
  proof (cases "bytes = []")
    case True
    then show ?thesis using 1(2) short by (simp add: update_loop.simps)
  next
    case False
    let ?part = "take (64 - sh_blockLen s) bytes" and ?rest = "drop (64 - sh_blockLen s) bytes"
    have go: "\<not> (bytes = [] \<or> 64 \<le> sh_blockLen s)" using False 1(2) by (simp add: sha_ok_def)
    then have unfold: "update_loop bytes s = update_loop ?rest (absorb ?part s)"
      by (subst update_loop.simps) simp
    have step: "sha_ok (absorb ?part s)" "sh_h (absorb ?part s) = sha_blocks (pend s @ ?part) (sh_h s)"
      "pend (absorb ?part s) = unfinished (pend s @ ?part)" "sh_totalLen (absorb ?part s) = sh_totalLen s"
      using absorb_step [OF 1(2), of ?part] by simp_all
    have all: "sha_blocks (pend s @ bytes) (sh_h s) =
        sha_blocks (unfinished (pend s @ ?part) @ ?rest) (sha_blocks (pend s @ ?part) (sh_h s))"
      "unfinished (pend s @ bytes) = unfinished (unfinished (pend s @ ?part) @ ?rest)"
      using sha_blocks_append [of "pend s @ ?part" ?rest] unfinished_append [of "pend s @ ?part" ?rest] by simp_all
    show ?thesis
      unfolding unfold all using 1(1) [OF go step(1)] unfolding step by simp
  qed
qed

text \<open>A state that has read the message \<open>m\<close>.\<close>

definition has_read :: "byte list \<Rightarrow> shaState \<Rightarrow> bool" where
  "has_read m s \<longleftrightarrow> sha_ok s \<and> sh_h s = sha_blocks m SHA_H0 \<and> pend s = unfinished m \<and>
     sh_totalLen s = length m"

lemma has_read_create: "has_read [] createSha256"
  by (simp add: has_read_def createSha256_def sha_ok_def pend_def)

lemma has_read_update: "has_read m s \<Longrightarrow> has_read (m @ bytes) (sha_update bytes s)"
  using update_loop_step [of "s\<lparr>sh_totalLen := sh_totalLen s + length bytes\<rparr>" bytes]
  by (simp add: has_read_def sha_update_def sha_ok_def pend_def sha_blocks_append [of m]
      unfinished_append [of m])

lemma has_read_all: "has_read m s \<Longrightarrow> has_read (m @ concat parts) (fold sha_update parts s)"
  by (induction parts arbitrary: m s) (simp_all, metis append.assoc has_read_update)

lemma high_bytes:
  "uint32_bytes (n div 0x100000000) = map (\<lambda>k. of_nat (n div 2 ^ k)) [56, 48, 40, 32]"
proof -
  have "n div 2 ^ 32 div 2 ^ k = n div 2 ^ (32 + k)" for k
    by (simp only: div_mult2_eq [symmetric] power_add [symmetric])
  from this [of 24] this [of 16] this [of 8] this [of 0] show ?thesis
    by (simp add: uint32_bytes_def)
qed

lemma low_bytes:
  "uint32_bytes (n mod 0x100000000) = map (\<lambda>k. of_nat (n div 2 ^ k)) [24, 16, 8, 0]"
proof -
  have "(of_nat (n mod 2 ^ 32 div 2 ^ k) :: byte) = of_nat (n div 2 ^ k)"
    if "k \<in> {0, 8, 16, 24}" for k
  proof -
    have "take_bit 8 (drop_bit k (take_bit 32 n)) = take_bit 8 (drop_bit k n)"
      using that by (auto simp: drop_bit_take_bit min_def)
    then have "n mod 2 ^ 32 div 2 ^ k mod 2 ^ 8 = n div 2 ^ k mod 2 ^ 8"
      by (simp only: drop_bit_eq_div take_bit_eq_mod)
    then show ?thesis by (simp add: word_unat_eq_iff unat_of_nat)
  qed
  from this [of 24] this [of 16] this [of 8] this [of 0] show ?thesis
    by (simp add: uint32_bytes_def)
qed

lemma pad_zeros: "n < 64 \<Longrightarrow> (if n < 56 then 56 - n else 120 - n) - 1 = (119 - n) mod (64 :: nat)"
  by (cases "n < 56") (simp_all add: mod_if)

lemma pad_std: "length m mod 64 = n \<Longrightarrow> sha_pad n (length m) = std_pad (length m)"
proof -
  assume n: "length m mod 64 = n"
  then have z: "(if n < 56 then 56 - n else 120 - n) - 1 = (119 - n) mod 64"
    by (intro pad_zeros) auto
  show ?thesis
    unfolding sha_pad_def std_pad_def Let_def z mult.commute [of "length m"] high_bytes low_bytes
    by (simp add: n)
qed

lemma has_read_digest: "has_read m s \<Longrightarrow> sha_digest s = sha256 m"
proof -
  assume r: "has_read m s"
  have n: "sh_blockLen s = length m mod 64"
  proof -
    have "length (pend s) = sh_blockLen s" using r unfolding has_read_def by (intro pend_length) simp
    then show ?thesis using r unfinished_length [of m] by (simp add: has_read_def)
  qed
  have "has_read (m @ sha_pad (sh_blockLen s) (sh_totalLen s)) (sha_update (sha_pad (sh_blockLen s) (sh_totalLen s)) s)"
    by (rule has_read_update [OF r])
  moreover have "sha_pad (sh_blockLen s) (sh_totalLen s) = std_pad (length m)"
    using r pad_std [OF n [symmetric]] by (simp add: has_read_def)
  ultimately show ?thesis by (simp add: sha_digest_def sha256_def has_read_def)
qed

text \<open>C26: The streaming hash is SHA-256: fed with any chunks, the digest is that of their
  concatenation by the one-shot definition, whatever the chunk boundaries, and reading the digest
  midway does not disturb it.\<close>

theorem streaming_sha256:
  "sha_digest (fold sha_update parts createSha256) = sha256 (concat parts)"
  using has_read_digest [OF has_read_all [OF has_read_create, of parts]] by simp

end
