(* ===== verification/Downloads.thy ===== *)
theory Downloads
  imports Sha256 Decimal Errors
begin

text \<open>
  The download policy of \<open>packages/application/src/downloads/transfer-policy.ts\<close>: ranged requests
  with a strict check of every answer, re-minting of expired links within a budget, restart when the
  encoding changed, and the hash of what was written. The ports (fetch, mint, file plane, signal)
  are functions on a world of any type; a chunk's race against its timeout is one answer of the
  fetch. The byte counts of files stay far below \<open>2^53\<close>, so numerals are read exactly. The chunk
  size is at least one.
\<close>

section \<open>Ports\<close>

record playableResource =
  pr_url :: string
  pr_mime :: string
  pr_bitrateKbps :: "nat option"
  pr_expiresAtMs :: "nat option"
  pr_contentLength :: "nat option"
  pr_client :: string
  pr_itag :: "nat option"
  pr_headers :: "(string \<times> string) list"

text \<open>
  How a request ends: a response (status, \<open>Content-Range\<close>, body), a network failure (\<open>TypeError\<close>), an
  abort, another exception, or the timeout. The child signal is cancelled before the end only with
  the outer one, so an exception keeps its own class.
\<close>

datatype wire =
    WireResponse nat "string option" "byte list"
  | WireNetwork
  | WireAbort
  | WireThrew
  | WireTimeout

record 'w transferPorts =
  tp_cancelled :: "'w \<Rightarrow> bool"
  tp_ensureDir :: "'w \<Rightarrow> unit result \<times> 'w"
  tp_fetch :: "string \<Rightarrow> (string \<times> string) list \<Rightarrow> nat \<Rightarrow> nat \<Rightarrow> 'w \<Rightarrow> wire \<times> 'w"
  tp_remint :: "nat \<Rightarrow> nat option \<Rightarrow> 'w \<Rightarrow> playableResource result \<times> 'w"
  tp_begin :: "string \<Rightarrow> nat \<Rightarrow> 'w \<Rightarrow> unit result \<times> 'w"
  tp_write :: "byte list \<Rightarrow> 'w \<Rightarrow> unit result \<times> 'w"
  tp_commit :: "'w \<Rightarrow> nat result \<times> 'w"
  tp_finalize :: "string option \<Rightarrow> 'w \<Rightarrow> string result \<times> 'w"
  tp_abort :: "bool \<Rightarrow> 'w \<Rightarrow> unit result \<times> 'w"

record expectedEncoding =
  ee_mime :: "string option"
  ee_contentLength :: "nat option"
  ee_itag :: "nat option"

record transferOptions =
  to_destName :: string
  to_first :: playableResource
  to_resumeAtBytes :: nat
  to_expected :: "expectedEncoding option"
  to_chunkSize :: nat
  to_mintBudget :: nat
  to_zeroProgressLimit :: nat

definition DEFAULT_CHUNK_SIZE :: nat where "DEFAULT_CHUNK_SIZE = 1048576"
definition DEFAULT_MINT_BUDGET :: nat where "DEFAULT_MINT_BUDGET = 8"
definition DEFAULT_ZERO_PROGRESS_LIMIT :: nat where "DEFAULT_ZERO_PROGRESS_LIMIT = 2"

section \<open>Failures\<close>

datatype thrown = DownloadFailure errorKind string | AbortThrown | UnknownThrown

fun asAppError :: "thrown \<Rightarrow> appError" where
  "asAppError (DownloadFailure k m) = appError k m None"
| "asAppError AbortThrown = cancelledError"
| "asAppError UnknownThrown = appError Internal ''download failed'' None"

definition raise :: "appError \<Rightarrow> thrown" where
  "raise e = DownloadFailure (ae_kind e) (ae_message e)"

definition cancelled_failure :: thrown where
  "cancelled_failure = DownloadFailure Cancelled ''cancelled''"

section \<open>One chunk\<close>

text \<open>\<open>/^bytes (\d+)-(\d+)\/(\d+)$/\<close>\<close>

definition digits_then :: "string \<Rightarrow> (nat \<times> string) option" where
  "digits_then s =
     (if takeWhile is_digit s = [] then None
      else Some (parse_digits (takeWhile is_digit s), dropWhile is_digit s))"

definition after_str :: "string \<Rightarrow> string \<Rightarrow> string option" where
  "after_str p s = (if take (length p) s = p then Some (drop (length p) s) else None)"

definition parseContentRange :: "string option \<Rightarrow> (nat \<times> nat \<times> nat) option" where
  "parseContentRange header =
     (case header of None \<Rightarrow> None | Some h \<Rightarrow>
      (case after_str ''bytes '' h of None \<Rightarrow> None | Some s1 \<Rightarrow>
      (case digits_then s1 of None \<Rightarrow> None | Some (a, s2) \<Rightarrow>
      (case after_str ''-'' s2 of None \<Rightarrow> None | Some s3 \<Rightarrow>
      (case digits_then s3 of None \<Rightarrow> None | Some (b, s4) \<Rightarrow>
      (case after_str ''/'' s4 of None \<Rightarrow> None | Some s5 \<Rightarrow>
      (case digits_then s5 of None \<Rightarrow> None | Some (t, s6) \<Rightarrow>
         if s6 = [] then Some (a, b, t) else None)))))))"

record chunk =
  ck_status :: nat
  ck_contentRange :: "string option"
  ck_bytes :: "byte list"

definition chunk_message :: "nat \<Rightarrow> nat \<Rightarrow> string \<Rightarrow> string" where
  "chunk_message start till text = ''chunk '' @ show_nat start @ ''-'' @ show_nat till @ '': '' @ text"

text \<open>The body of an answer other than 206 is not read.\<close>

definition fetchChunk ::
  "'w transferPorts \<Rightarrow> string \<Rightarrow> nat \<Rightarrow> nat \<Rightarrow> (string \<times> string) list \<Rightarrow> 'w \<Rightarrow> (thrown + chunk) \<times> 'w" where
  "fetchChunk tp url start till headers w =
     (if \<not> (take 8 url = ''https://'')
      then (Inl (DownloadFailure InvalidResponse ''non-https stream url''), w)
      else case tp_fetch tp url headers start till w of
             (WireResponse status rng body, w') \<Rightarrow>
               (Inr \<lparr>ck_status = status, ck_contentRange = rng,
                     ck_bytes = (if status = 206 then body else [])\<rparr>, w')
           | (WireNetwork, w') \<Rightarrow> (Inl (DownloadFailure Transient ''download network error''), w')
           | (WireAbort, w') \<Rightarrow> (Inl AbortThrown, w')
           | (WireThrew, w') \<Rightarrow> (Inl UnknownThrown, w')
           | (WireTimeout, w') \<Rightarrow>
               if tp_cancelled tp w' then (Inl cancelled_failure, w')
               else (Inl (DownloadFailure Transient (chunk_message start till ''timed out'')), w'))"

section \<open>The loop\<close>

record xfer =
  xf_current :: playableResource
  xf_url :: string
  xf_headers :: "(string \<times> string) list"
  xf_start :: nat
  xf_total :: "nat option"
  xf_mints :: nat
  xf_zeroProgress :: nat
  xf_mintStart :: nat
  xf_hasher :: shaState
  xf_covers :: bool
  xf_sinkOpen :: bool

type_synonym turn = "(thrown \<times> xfer) + xfer"

definition openSink :: "'w transferPorts \<Rightarrow> transferOptions \<Rightarrow> xfer \<Rightarrow> 'w \<Rightarrow> turn \<times> 'w" where
  "openSink tp opt x w =
     (case tp_begin tp (to_destName opt) (xf_start x) w of
        (Inl e, w') \<Rightarrow> (Inl (raise e, x), w')
      | (Inr _, w') \<Rightarrow> (Inr (x\<lparr>xf_sinkOpen := True\<rparr>), w'))"

definition closeAbort :: "'w transferPorts \<Rightarrow> bool \<Rightarrow> xfer \<Rightarrow> 'w \<Rightarrow> xfer \<times> 'w" where
  "closeAbort tp keep x w =
     (if xf_sinkOpen x then (x\<lparr>xf_sinkOpen := False\<rparr>, snd (tp_abort tp keep w)) else (x, w))"

definition sameEncoding :: "playableResource \<Rightarrow> playableResource \<Rightarrow> nat option \<Rightarrow> bool" where
  "sameEncoding fresh current wire_total \<longleftrightarrow>
     pr_mime fresh = pr_mime current \<and>
     (pr_contentLength fresh = None \<or> pr_contentLength fresh = wire_total) \<and>
     pr_bitrateKbps fresh = pr_bitrateKbps current \<and> pr_itag fresh = pr_itag current"

text \<open>A 403 or 416: mint again within the budgets, keep the prefix or restart.\<close>

definition remint_turn :: "'w transferPorts \<Rightarrow> transferOptions \<Rightarrow> xfer \<Rightarrow> 'w \<Rightarrow> turn \<times> 'w" where
  "remint_turn tp opt x w =
     (let x1 = x\<lparr>xf_zeroProgress := (if xf_start x = xf_mintStart x then xf_zeroProgress x + 1 else 0)\<rparr>
      in if to_zeroProgressLimit opt \<le> xf_zeroProgress x1 \<or> to_mintBudget opt \<le> xf_mints x1
         then (Inl (DownloadFailure ExpiredResource ''stream capped by provider'', x1), w)
         else
           let x2 = x1\<lparr>xf_mints := xf_mints x1 + 1\<rparr>
           in case tp_remint tp (xf_start x2) (pr_itag (xf_current x2)) w of (fresh, w') \<Rightarrow>
                if tp_cancelled tp w' then (Inl (cancelled_failure, x2), w')
                else (case fresh of
                        Inl e \<Rightarrow> (Inl (raise e, x2), w')
                      | Inr r \<Rightarrow>
                          if sameEncoding r (xf_current x2) (xf_total x2)
                          then (Inr (x2\<lparr>xf_mintStart := xf_start x2, xf_url := pr_url r,
                                        xf_headers := pr_headers r\<rparr>), w')
                          else
                            (case closeAbort tp False x2 w' of (x3, w'') \<Rightarrow>
                               openSink tp opt
                                 (x3\<lparr>xf_current := r, xf_url := pr_url r, xf_headers := pr_headers r,
                                     xf_start := 0, xf_total := pr_contentLength r,
                                     xf_mintStart := 0, xf_hasher := createSha256,
                                     xf_covers := True\<rparr>) w'')))"

definition bad_range :: "nat \<Rightarrow> nat \<Rightarrow> (nat \<times> nat \<times> nat) \<Rightarrow> bool" where
  "bad_range start till = (\<lambda>(a, b, t). a \<noteq> start \<or> b < a \<or> till < b \<or> t \<le> b \<or> t = 0)"

text \<open>A 206 whose range was accepted: write, hash, commit.\<close>

definition write_turn :: "'w transferPorts \<Rightarrow> nat \<Rightarrow> byte list \<Rightarrow> xfer \<Rightarrow> 'w \<Rightarrow> turn \<times> 'w" where
  "write_turn tp wire_total bytes x w =
     (let x1 = x\<lparr>xf_total := Some wire_total\<rparr>
      in case tp_write tp bytes w of
           (Inl e, w1) \<Rightarrow> (Inl (raise e, x1), w1)
         | (Inr _, w1) \<Rightarrow>
             (let x2 = x1\<lparr>xf_hasher := sha_update bytes (xf_hasher x1)\<rparr>
              in case tp_commit tp w1 of
                   (Inl e, w2) \<Rightarrow> (Inl (raise e, x2), w2)
                 | (Inr n, w2) \<Rightarrow>
                     (let x3 = x2\<lparr>xf_start := n\<rparr>
                      in if tp_cancelled tp w2 then (Inl (cancelled_failure, x3), w2)
                         else (Inr x3, w2))))"

definition chunk_turn :: "'w transferPorts \<Rightarrow> transferOptions \<Rightarrow> nat \<Rightarrow> chunk \<Rightarrow> xfer \<Rightarrow> 'w \<Rightarrow> turn \<times> 'w" where
  "chunk_turn tp opt till c x w =
     (if ck_status c = 403 \<or> ck_status c = 416 then remint_turn tp opt x w
      else if ck_status c \<noteq> 206
      then (Inl (DownloadFailure InvalidResponse
                  (chunk_message (xf_start x) till (''HTTP '' @ show_nat (ck_status c))), x), w)
      else case parseContentRange (ck_contentRange c) of
             None \<Rightarrow> (Inl (DownloadFailure InvalidResponse
                        (chunk_message (xf_start x) till ''bad Content-Range''), x), w)
           | Some (a, b, t) \<Rightarrow>
               if bad_range (xf_start x) till (a, b, t)
               then (Inl (DownloadFailure InvalidResponse
                       (chunk_message (xf_start x) till ''bad Content-Range''), x), w)
               else if xf_total x \<noteq> None \<and> xf_total x \<noteq> Some t
               then (Inl (DownloadFailure InvalidResponse
                       (chunk_message (xf_start x) till ''Content-Range total changed mid-stream''), x), w)
               else if length (ck_bytes c) \<noteq> b - a + 1
               then (Inl (DownloadFailure InvalidResponse
                       (chunk_message (xf_start x) till
                          (''body '' @ show_nat (length (ck_bytes c)) @ ''B vs declared '' @
                           show_nat (b - a + 1) @ ''B'')), x\<lparr>xf_total := Some t\<rparr>), w)
               else write_turn tp t (ck_bytes c) x w)"

definition last_byte :: "transferOptions \<Rightarrow> xfer \<Rightarrow> nat" where
  "last_byte opt x =
     (case xf_total x of
        None \<Rightarrow> xf_start x + to_chunkSize opt - 1
      | Some t \<Rightarrow> min (xf_start x + to_chunkSize opt - 1) (t - 1))"

definition transfer_turn :: "'w transferPorts \<Rightarrow> transferOptions \<Rightarrow> xfer \<Rightarrow> 'w \<Rightarrow> turn \<times> 'w" where
  "transfer_turn tp opt x w =
     (if tp_cancelled tp w then (Inl (cancelled_failure, x), w)
      else case fetchChunk tp (xf_url x) (xf_start x) (last_byte opt x) (xf_headers x) w of
             (Inl t, w') \<Rightarrow> (Inl (t, x), w')
           | (Inr c, w') \<Rightarrow> chunk_turn tp opt (last_byte opt x) c x w')"

definition running :: "xfer \<Rightarrow> bool" where
  "running x = (case xf_total x of None \<Rightarrow> True | Some t \<Rightarrow> xf_start x < t)"

partial_function (option) transfer_loop ::
  "'w transferPorts \<Rightarrow> transferOptions \<Rightarrow> xfer \<Rightarrow> 'w \<Rightarrow> (turn \<times> 'w) option" where
  "transfer_loop tp opt x w =
     (if running x
      then (case transfer_turn tp opt x w of
              (Inl stop, w') \<Rightarrow> Some (Inl stop, w')
            | (Inr x', w') \<Rightarrow> transfer_loop tp opt x' w')
      else Some (Inr x, w))"

section \<open>The whole transfer\<close>

record transferOutcome =
  oc_bytes :: nat
  oc_checksum :: string
  oc_mime :: string
  oc_itag :: "nat option"
  oc_contentLength :: "nat option"
  oc_expiresAtMs :: "nat option"

text \<open>A resume keeps its prefix only when the mint agrees with what is recorded of it.\<close>

definition resume_start :: "transferOptions \<Rightarrow> nat" where
  "resume_start opt =
     (let r = to_first opt
      in case to_expected opt of
           None \<Rightarrow> to_resumeAtBytes opt
         | Some e \<Rightarrow>
             if 0 < to_resumeAtBytes opt \<and>
                (ee_mime e \<noteq> Some (pr_mime r) \<or>
                 (ee_contentLength e \<noteq> None \<and> ee_contentLength e \<noteq> pr_contentLength r) \<or>
                 ee_itag e \<noteq> pr_itag r)
             then 0 else to_resumeAtBytes opt)"

definition first_xfer :: "transferOptions \<Rightarrow> xfer" where
  "first_xfer opt =
     \<lparr>xf_current = to_first opt, xf_url = pr_url (to_first opt), xf_headers = pr_headers (to_first opt),
      xf_start = resume_start opt, xf_total = pr_contentLength (to_first opt), xf_mints = 0,
      xf_zeroProgress = 0, xf_mintStart = resume_start opt, xf_hasher = createSha256,
      xf_covers = (resume_start opt = 0), xf_sinkOpen = False\<rparr>"

definition finish :: "'w transferPorts \<Rightarrow> xfer \<Rightarrow> 'w \<Rightarrow> transferOutcome result \<times> 'w" where
  "finish tp x w =
     (if tp_cancelled tp w then (Inl (asAppError cancelled_failure), w)
      else case tp_finalize tp (if xf_covers x then Some (sha_digest (xf_hasher x)) else None) w of
             (Inl e, w') \<Rightarrow> (Inl e, w')
           | (Inr d, w') \<Rightarrow>
               (Inr \<lparr>oc_bytes = xf_start x, oc_checksum = d, oc_mime = pr_mime (xf_current x),
                     oc_itag = pr_itag (xf_current x), oc_contentLength = xf_total x,
                     oc_expiresAtMs = pr_expiresAtMs (xf_current x)\<rparr>, w'))"

definition runTransfer ::
  "'w transferPorts \<Rightarrow> transferOptions \<Rightarrow> 'w \<Rightarrow> (transferOutcome result \<times> 'w) option" where
  "runTransfer tp opt w =
     (case tp_ensureDir tp w of
        (Inl e, w1) \<Rightarrow> Some (Inl e, w1)
      | (Inr _, w1) \<Rightarrow>
          if tp_cancelled tp w1 then Some (Inl (asAppError cancelled_failure), w1)
          else (case openSink tp opt (first_xfer opt) w1 of
                  (Inl (t, x), w2) \<Rightarrow> Some (Inl (asAppError t), w2)
                | (Inr x, w2) \<Rightarrow>
                    (case transfer_loop tp opt x w2 of
                       None \<Rightarrow> None
                     | Some (Inl (t, x'), w3) \<Rightarrow>
                         Some (Inl (asAppError t), snd (closeAbort tp True x' w3))
                     | Some (Inr x', w3) \<Rightarrow> Some (finish tp x' w3))))"

end
