(* ===== verification/DownloadLedger.thy ===== *)
theory DownloadLedger
  imports Downloads QueueEngine
begin

text \<open>
  The ledger of owned downloads, \<open>packages/application/src/downloads/download-manager.ts\<close>: the rows
  and their states, the priority bands, the choice of the next transfer, the integrity pass at
  startup with its bounded retries, the row a mint updates and the options it hands to the transfer.
  The file plane and the storage are functions on a world. Not modelled: the interleaving of running
  transfers with commands (the runner table, the removal locks and the listeners).
\<close>

section \<open>Rows\<close>

datatype downloadState = Requested | Transferring | Available | FailedWithRetry | Removing

record downloadRecord =
  dr_downloadId :: string
  dr_recordingId :: string
  dr_provider :: string
  dr_sourceRef :: sourceRef
  dr_filePath :: string
  dr_bytes :: nat
  dr_state :: downloadState
  dr_committedOffset :: nat
  dr_checksum :: "string option"
  dr_mime :: "string option"
  dr_itag :: "nat option"
  dr_expiresAtMs :: "nat option"
  dr_error :: "(string \<times> string) option"
  dr_priority :: nat
  dr_requestedMs :: nat
  dr_downloadedMs :: "nat option"

record downloadProgress =
  dp_downloadId :: string
  dp_recordingId :: string
  dp_state :: downloadState
  dp_transferredBytes :: nat
  dp_totalBytes :: "nat option"

text \<open>The row map, in insertion order, keyed by download id.\<close>

type_synonym ledger = "(string, downloadRecord) jsmap"

definition rows_of :: "ledger \<Rightarrow> downloadRecord list" where
  "rows_of l = map snd l"

definition set_row :: "ledger \<Rightarrow> downloadRecord \<Rightarrow> ledger" where
  "set_row l r = AList.update (dr_downloadId r) r l"

definition progressOf :: "downloadRecord \<Rightarrow> downloadProgress" where
  "progressOf r =
     \<lparr>dp_downloadId = dr_downloadId r, dp_recordingId = dr_recordingId r, dp_state = dr_state r,
      dp_transferredBytes = dr_committedOffset r,
      dp_totalBytes = (if 0 < dr_bytes r then Some (dr_bytes r) else None)\<rparr>"

definition compare_rows :: "downloadRecord \<Rightarrow> downloadRecord \<Rightarrow> int" where
  "compare_rows a b =
     (if dr_priority a = dr_priority b then int (dr_requestedMs a) - int (dr_requestedMs b)
      else int (dr_priority a) - int (dr_priority b))"

definition ledger_list :: "ledger \<Rightarrow> downloadProgress list" where
  "ledger_list l = map progressOf (sort_by compare_rows (rows_of l))"

definition recordFor :: "string \<Rightarrow> ledger \<Rightarrow> downloadRecord option" where
  "recordFor i l = find (\<lambda>r. dr_recordingId r = i \<and> dr_state r \<noteq> Removing) (rows_of l)"

definition ledger_records :: "ledger \<Rightarrow> downloadRecord list" where
  "ledger_records l = filter (\<lambda>r. dr_state r \<noteq> Removing) (rows_of l)"

definition fileFor :: "string \<Rightarrow> ledger \<Rightarrow> string option" where
  "fileFor i l =
     (case recordFor i l of
        Some r \<Rightarrow> if dr_state r = Available then Some (dr_filePath r) else None
      | None \<Rightarrow> None)"

section \<open>Scheduling\<close>

definition bandFor :: "queueSnapshot \<Rightarrow> string \<Rightarrow> nat" where
  "bandFor q i =
     (case find (\<lambda>o'. Some (qo_occurrenceId o') = qs_currentOccurrenceId q) (qs_occurrences q) of
        Some c \<Rightarrow> if qo_recordingId c = i then 0
                  else if list_ex (\<lambda>o'. qo_recordingId o' = i) (qs_occurrences q) then 1 else 2
      | None \<Rightarrow> if list_ex (\<lambda>o'. qo_recordingId o' = i) (qs_occurrences q) then 1 else 2)"

definition netEligible :: "bool \<Rightarrow> bool \<Rightarrow> bool option \<Rightarrow> bool" where
  "netEligible online metered downloadMetered \<longleftrightarrow>
     online \<and> (\<not> metered \<or> (case downloadMetered of Some b \<Rightarrow> b | None \<Rightarrow> False))"

text \<open>The row the pump claims next, when a slot is free and the network allows.\<close>

definition pump_next :: "ledger \<Rightarrow> downloadRecord option" where
  "pump_next l =
     (case sort_by compare_rows (filter (\<lambda>r. dr_state r = Requested) (rows_of l)) of
        [] \<Rightarrow> None
      | r # _ \<Rightarrow> Some r)"

definition reband :: "queueSnapshot \<Rightarrow> downloadRecord \<Rightarrow> downloadRecord" where
  "reband q r =
     (if dr_state r \<noteq> Requested \<and> dr_state r \<noteq> FailedWithRetry then r
      else r\<lparr>dr_priority := bandFor q (dr_recordingId r)\<rparr>)"

text \<open>The new rows, and whether any changed (only then the section is committed).\<close>

definition updatePriorities :: "queueSnapshot \<Rightarrow> ledger \<Rightarrow> ledger \<times> bool" where
  "updatePriorities q l =
     (map (\<lambda>(i, r). (i, reband q r)) l, list_ex (\<lambda>(i, r). reband q r \<noteq> r) l)"

definition new_row :: "string \<Rightarrow> string \<Rightarrow> sourceRef \<Rightarrow> queueSnapshot \<Rightarrow> nat \<Rightarrow> downloadRecord" where
  "new_row downloadId recordingId ref q now =
     \<lparr>dr_downloadId = downloadId, dr_recordingId = recordingId, dr_provider = ref_provider ref,
      dr_sourceRef = ref, dr_filePath = ''dl-'' @ downloadId, dr_bytes = 0, dr_state = Requested,
      dr_committedOffset = 0, dr_checksum = None, dr_mime = None, dr_itag = None,
      dr_expiresAtMs = None, dr_error = None, dr_priority = bandFor q recordingId,
      dr_requestedMs = now, dr_downloadedMs = None\<rparr>"

text \<open>
  \<open>retry\<close>, with the outcome of the commit as an argument: the row goes back to \<open>requested\<close> with its
  offset, and a failed commit restores it.
\<close>

definition retry_row :: "queueSnapshot \<Rightarrow> appError option \<Rightarrow> string \<Rightarrow> ledger \<Rightarrow> unit result \<times> ledger" where
  "retry_row q commit i l =
     (case map_get l i of
        None \<Rightarrow> (Inl (appError NotFound ''no such download'' None), l)
      | Some r \<Rightarrow>
          (case dr_state r of
             Requested \<Rightarrow> (Inr (), l)
           | FailedWithRetry \<Rightarrow>
               (let r' = r\<lparr>dr_state := Requested, dr_error := None,
                          dr_priority := bandFor q (dr_recordingId r)\<rparr>
                in case commit of
                     Some e \<Rightarrow> (Inl e, AList.update i r (AList.update i r' l))
                   | None \<Rightarrow> (Inr (), AList.update i r' l))
           | Transferring \<Rightarrow> (Inl (appError NotApplicable ''cannot retry a transferring download'' None), l)
           | Available \<Rightarrow> (Inl (appError NotApplicable ''cannot retry a available download'' None), l)
           | Removing \<Rightarrow> (Inl (appError NotApplicable ''cannot retry a removing download'' None), l)))"

section \<open>The integrity pass at startup\<close>

record 'w ledgerPorts =
  lp_cancelled :: "'w \<Rightarrow> bool"
  lp_sweepPartials :: "string list \<Rightarrow> 'w \<Rightarrow> nat result \<times> 'w"
  lp_sweepFinalized :: "string list \<Rightarrow> 'w \<Rightarrow> nat result \<times> 'w"
  lp_stat :: "string \<Rightarrow> 'w \<Rightarrow> (bool \<times> nat option) result \<times> 'w"
  lp_removeFile :: "string \<Rightarrow> 'w \<Rightarrow> unit result \<times> 'w"
  lp_commit :: "downloadRecord list \<Rightarrow> 'w \<Rightarrow> unit result \<times> 'w"
  lp_sleep :: "nat \<Rightarrow> 'w \<Rightarrow> unit result \<times> 'w"

text \<open>The staged rows and the marker that survives attempts.\<close>

record staged =
  sg_rows :: ledger
  sg_dirty :: bool

definition resumable :: "downloadState list" where
  "resumable = [Requested, Transferring, FailedWithRetry]"

definition drop_staged :: "'w ledgerPorts \<Rightarrow> downloadRecord \<Rightarrow> staged \<Rightarrow> 'w \<Rightarrow> (unit result \<times> staged) \<times> 'w" where
  "drop_staged lp r s w =
     (case lp_removeFile lp (dr_filePath r) w of
        (Inl e, w') \<Rightarrow> ((Inl e, s), w')
      | (Inr _, w') \<Rightarrow>
          ((Inr (), \<lparr>sg_rows = AList.delete (dr_downloadId r) (sg_rows s), sg_dirty = True\<rparr>), w'))"

definition check_row :: "'w ledgerPorts \<Rightarrow> downloadRecord \<Rightarrow> staged \<Rightarrow> 'w \<Rightarrow> (unit result \<times> staged) \<times> 'w" where
  "check_row lp r s w =
     (if lp_cancelled lp w then ((Inl cancelledError, s), w)
      else case dr_state r of
             Available \<Rightarrow>
               (case lp_stat lp (dr_filePath r) w of
                  (Inl e, w') \<Rightarrow> ((Inl e, s), w')
                | (Inr (there, size'), w') \<Rightarrow>
                    if \<not> there \<or> (size' \<noteq> None \<and> size' \<noteq> Some (dr_bytes r))
                    then drop_staged lp r s w' else ((Inr (), s), w'))
           | Removing \<Rightarrow> drop_staged lp r s w
           | Transferring \<Rightarrow>
               ((Inr (), \<lparr>sg_rows = set_row (sg_rows s) (r\<lparr>dr_state := Requested\<rparr>), sg_dirty = True\<rparr>), w)
           | _ \<Rightarrow> ((Inr (), s), w))"

fun check_rows :: "'w ledgerPorts \<Rightarrow> downloadRecord list \<Rightarrow> staged \<Rightarrow> 'w \<Rightarrow> (unit result \<times> staged) \<times> 'w" where
  "check_rows lp [] s w = ((Inr (), s), w)"
| "check_rows lp (r # rs) s w =
     (case check_row lp r s w of
        ((Inl e, s'), w') \<Rightarrow> ((Inl e, s'), w')
      | ((Inr _, s'), w') \<Rightarrow> check_rows lp rs s' w')"

definition verifyStaged :: "'w ledgerPorts \<Rightarrow> staged \<Rightarrow> 'w \<Rightarrow> (unit result \<times> staged) \<times> 'w" where
  "verifyStaged lp s w =
     (case lp_sweepPartials lp
             (map (\<lambda>r. dr_filePath r @ ''.part'')
               (filter (\<lambda>r. dr_state r \<in> set resumable) (rows_of (sg_rows s)))) w of
        (Inl e, w1) \<Rightarrow> ((Inl e, s), w1)
      | (Inr _, w1) \<Rightarrow>
          (case lp_sweepFinalized lp (map dr_filePath (rows_of (sg_rows s))) w1 of
             (Inl e, w2) \<Rightarrow> ((Inl e, s), w2)
           | (Inr _, w2) \<Rightarrow>
               (case check_rows lp (rows_of (sg_rows s)) s w2 of
                  ((Inl e, s'), w3) \<Rightarrow> ((Inl e, s'), w3)
                | ((Inr _, s'), w3) \<Rightarrow>
                    if sg_dirty s'
                    then (case lp_commit lp (rows_of (sg_rows s')) w3 of
                            (Inl e, w4) \<Rightarrow> ((Inl e, s'), w4)
                          | (Inr _, w4) \<Rightarrow> ((Inr (), s'\<lparr>sg_dirty := False\<rparr>), w4))
                    else ((Inr (), s'), w3))))"

definition INIT_ATTEMPTS :: nat where "INIT_ATTEMPTS = 3"
definition INIT_BACKOFF_MS :: nat where "INIT_BACKOFF_MS = 250"

text \<open>The attempts left after the current one; every retry sleeps first, twice as long each time.\<close>

function init_attempts ::
  "'w ledgerPorts \<Rightarrow> nat \<Rightarrow> staged \<Rightarrow> 'w \<Rightarrow> (unit result \<times> staged) \<times> 'w" where
  "init_attempts lp attempt s w =
     (case (if 0 < attempt then lp_sleep lp (INIT_BACKOFF_MS * 2 ^ (attempt - 1)) w else (Inr (), w)) of
        (Inl e, w1) \<Rightarrow> ((Inl e, s), w1)
      | (Inr _, w1) \<Rightarrow>
          (case verifyStaged lp s w1 of
             ((Inr _, s'), w2) \<Rightarrow> ((Inr (), s'), w2)
           | ((Inl e, s'), w2) \<Rightarrow>
               if \<not> ae_retryable e \<or> INIT_ATTEMPTS - 1 \<le> attempt then ((Inl e, s'), w2)
               else init_attempts lp (attempt + 1) s' w2))"
  by auto
termination by (relation "measure (\<lambda>(lp, attempt, s, w). INIT_ATTEMPTS - attempt)") auto

declare init_attempts.simps [simp del]

text \<open>\<open>init\<close>: the published rows, and whether the ledger is marked broken.\<close>

definition ledger_init ::
  "'w ledgerPorts \<Rightarrow> downloadRecord list \<Rightarrow> 'w \<Rightarrow> (unit result \<times> ledger \<times> bool) \<times> 'w" where
  "ledger_init lp downloads w =
     (case init_attempts lp 0 \<lparr>sg_rows = fold (\<lambda>r l. set_row l r) downloads [], sg_dirty = False\<rparr> w of
        ((Inl e, _), w') \<Rightarrow> ((Inl e, [], True), w')
      | ((Inr _, s), w') \<Rightarrow> ((Inr (), sg_rows s, False), w'))"

section \<open>From a row to a transfer\<close>

text \<open>What the runner writes on the row from the mint, before it starts the transfer.\<close>

definition minted_row :: "downloadRecord \<Rightarrow> playableResource \<Rightarrow> downloadRecord" where
  "minted_row r first =
     r\<lparr>dr_expiresAtMs := pr_expiresAtMs first,
       dr_itag := (case pr_itag first of Some i \<Rightarrow> Some i | None \<Rightarrow> dr_itag r),
       dr_mime := Some (pr_mime first)\<rparr>"

definition recorded_encoding :: "downloadRecord \<Rightarrow> expectedEncoding" where
  "recorded_encoding r =
     \<lparr>ee_mime = dr_mime r, ee_contentLength = (if 0 < dr_bytes r then Some (dr_bytes r) else None),
      ee_itag = dr_itag r\<rparr>"

definition run_options :: "downloadRecord \<Rightarrow> playableResource \<Rightarrow> transferOptions" where
  "run_options live first =
     \<lparr>to_destName = dr_filePath live, to_first = first, to_resumeAtBytes = dr_committedOffset live,
      to_expected = Some (recorded_encoding live), to_chunkSize = DEFAULT_CHUNK_SIZE,
      to_mintBudget = DEFAULT_MINT_BUDGET, to_zeroProgressLimit = DEFAULT_ZERO_PROGRESS_LIMIT\<rparr>"

definition progressed_row :: "downloadRecord \<Rightarrow> nat \<Rightarrow> nat option \<Rightarrow> downloadRecord" where
  "progressed_row r committed total' =
     r\<lparr>dr_committedOffset := committed,
       dr_bytes := (case total' of Some t \<Rightarrow> t | None \<Rightarrow> dr_bytes r)\<rparr>"

definition available_row :: "downloadRecord \<Rightarrow> transferOutcome \<Rightarrow> nat \<Rightarrow> downloadRecord" where
  "available_row r out now =
     r\<lparr>dr_state := Available, dr_bytes := oc_bytes out, dr_committedOffset := oc_bytes out,
       dr_checksum := Some (oc_checksum out), dr_mime := Some (oc_mime out), dr_itag := oc_itag out,
       dr_expiresAtMs := oc_expiresAtMs out, dr_error := None, dr_downloadedMs := Some now\<rparr>"

end
