(* ===== verification/DownloadTheorems.thy ===== *)
theory DownloadTheorems
  imports Downloads
begin

text \<open>
  Properties of the download policy: it ends whatever the server answers, the mint budget holds, and
  every byte of a file it publishes comes, at its own offset, from a link minted in one encoding. The ports' promises are stated as
  predicates over a view of the world: the bytes in the \<open>.part\<close> file and the published file.
\<close>

section \<open>Promises of the ports\<close>

text \<open>The file plane, as \<open>ports/media-transfer.ts\<close> documents it, with \<open>part\<close> the bytes written so far.\<close>

definition sink_laws :: "'w transferPorts \<Rightarrow> ('w \<Rightarrow> byte list) \<Rightarrow> bool" where
  "sink_laws tp part \<longleftrightarrow>
     (\<forall>w x w'. tp_ensureDir tp w = (x, w') \<longrightarrow> part w' = part w) \<and>
     (\<forall>u h a b w x w'. tp_fetch tp u h a b w = (x, w') \<longrightarrow> part w' = part w) \<and>
     (\<forall>n i w x w'. tp_remint tp n i w = (x, w') \<longrightarrow> part w' = part w) \<and>
     (\<forall>d n w u w'. tp_begin tp d n w = (Inr u, w') \<longrightarrow>
        length (part w') = n \<and> (0 < n \<longrightarrow> part w' = part w)) \<and>
     (\<forall>bs w u w'. tp_write tp bs w = (Inr u, w') \<longrightarrow> part w' = part w @ bs) \<and>
     (\<forall>w n w'. tp_commit tp w = (Inr n, w') \<longrightarrow> n = length (part w) \<and> part w' = part w)"

definition publish_law :: "'w transferPorts \<Rightarrow> ('w \<Rightarrow> byte list) \<Rightarrow> ('w \<Rightarrow> byte list option) \<Rightarrow> bool" where
  "publish_law tp part published \<longleftrightarrow>
     (\<forall>e w d w'. tp_finalize tp e w = (Inr d, w') \<longrightarrow>
        published w' = Some (part w) \<and> d = sha256 (part w) \<and> (e = None \<or> e = Some d))"

text \<open>
  The wire: \<open>content\<close> gives the bytes behind a link, and a partial answer carries the slice of them its
  range declares. Nothing is assumed of two links, whatever their descriptors say.
\<close>

definition honest_ranges :: "'w transferPorts \<Rightarrow> (string \<Rightarrow> byte list) \<Rightarrow> bool" where
  "honest_ranges tp content \<longleftrightarrow>
     (\<forall>u h a b w hdr body w' p q t.
        tp_fetch tp u h a b w = (WireResponse 206 hdr body, w') \<and> parseContentRange hdr = Some (p, q, t) \<longrightarrow>
        t = length (content u) \<and> body = take (q + 1 - p) (drop p (content u)))"

text \<open>The links a run can be handed, and what the encoding descriptor says of two of them.\<close>

definition minted :: "'w transferPorts \<Rightarrow> transferOptions \<Rightarrow> playableResource \<Rightarrow> bool" where
  "minted tp opt r \<longleftrightarrow> r = to_first opt \<or> (\<exists>n i w w'. tp_remint tp n i w = (Inr r, w'))"

definition same_format :: "playableResource \<Rightarrow> playableResource \<Rightarrow> bool" where
  "same_format r s \<longleftrightarrow>
     pr_mime r = pr_mime s \<and> pr_bitrateKbps r = pr_bitrateKbps s \<and> pr_itag r = pr_itag s"

text \<open>The byte at offset \<open>i\<close> was served at that offset by a link of the format of \<open>c\<close>, whose content is
  \<open>t\<close> bytes long and whose declared length, if any, is \<open>t\<close>.\<close>

definition served ::
  "'w transferPorts \<Rightarrow> transferOptions \<Rightarrow> (string \<Rightarrow> byte list) \<Rightarrow> playableResource \<Rightarrow> nat \<Rightarrow> nat \<Rightarrow> byte \<Rightarrow> bool"
  where
  "served tp opt content c t i byte \<longleftrightarrow>
     (\<exists>r. minted tp opt r \<and> same_format r c \<and> pr_contentLength r \<in> {None, Some t} \<and>
        length (content (pr_url r)) = t \<and> byte = content (pr_url r) ! i)"

section \<open>One turn\<close>

lemma sink_lawsD:
  assumes "sink_laws tp part"
  shows "tp_ensureDir tp w = (x, w') \<Longrightarrow> part w' = part w"
    and "tp_fetch tp u h a b w = (wx, w') \<Longrightarrow> part w' = part w"
    and "tp_remint tp n i w = (rx, w') \<Longrightarrow> part w' = part w"
    and "tp_begin tp d n w = (Inr bx, w') \<Longrightarrow> length (part w') = n \<and> (0 < n \<longrightarrow> part w' = part w)"
    and "tp_write tp bs w = (Inr ux, w') \<Longrightarrow> part w' = part w @ bs"
    and "tp_commit tp w = (Inr n, w') \<Longrightarrow> n = length (part w) \<and> part w' = part w"
proof -
  note l = assms [unfolded sink_laws_def]
  show "tp_ensureDir tp w = (x, w') \<Longrightarrow> part w' = part w" using l by metis
  show "tp_fetch tp u h a b w = (wx, w') \<Longrightarrow> part w' = part w" using l by metis
  show "tp_remint tp n i w = (rx, w') \<Longrightarrow> part w' = part w" using l by metis
  show "tp_begin tp d n w = (Inr bx, w') \<Longrightarrow> length (part w') = n \<and> (0 < n \<longrightarrow> part w' = part w)"
    using l by metis
  show "tp_write tp bs w = (Inr ux, w') \<Longrightarrow> part w' = part w @ bs" using l by metis
  show "tp_commit tp w = (Inr n, w') \<Longrightarrow> n = length (part w) \<and> part w' = part w" using l by metis
qed

text \<open>The turns that go on: a kept prefix, a restart, or a chunk appended.\<close>

lemma openSink_go:
  "openSink tp opt x w = (Inr x', w') \<Longrightarrow>
   x' = x\<lparr>xf_sinkOpen := True\<rparr> \<and> (\<exists>u. tp_begin tp (to_destName opt) (xf_start x) w = (Inr u, w'))"
  by (auto simp: openSink_def split: prod.splits sum.splits)

lemma remint_go:
  assumes "remint_turn tp opt x w = (Inr x', w')"
  obtains (keep) r where "tp_remint tp (xf_start x) (pr_itag (xf_current x)) w = (Inr r, w')"
      "xf_mints x < to_mintBudget opt" "sameEncoding r (xf_current x) (xf_total x)"
      "x' = x\<lparr>xf_zeroProgress := xf_zeroProgress x', xf_mints := xf_mints x + 1,
              xf_mintStart := xf_start x, xf_url := pr_url r, xf_headers := pr_headers r\<rparr>"
  | (restart) r w1 w2 u where "tp_remint tp (xf_start x) (pr_itag (xf_current x)) w = (Inr r, w1)"
      "xf_mints x < to_mintBudget opt"
      "tp_begin tp (to_destName opt) 0 w2 = (Inr u, w')"
      "x' = x\<lparr>xf_zeroProgress := xf_zeroProgress x', xf_mints := xf_mints x + 1, xf_current := r,
              xf_url := pr_url r, xf_headers := pr_headers r, xf_start := 0,
              xf_total := pr_contentLength r, xf_mintStart := 0, xf_hasher := createSha256,
              xf_covers := True, xf_sinkOpen := True\<rparr>"
proof -
  obtain fresh w1 where p: "tp_remint tp (xf_start x) (pr_itag (xf_current x)) w = (fresh, w1)"
    by fastforce
  define z where "z = (if xf_start x = xf_mintStart x then xf_zeroProgress x + 1 else 0)"
  define x2 where "x2 = x\<lparr>xf_zeroProgress := z, xf_mints := xf_mints x + 1\<rparr>"
  have eq: "remint_turn tp opt x w =
      (if to_zeroProgressLimit opt \<le> z \<or> to_mintBudget opt \<le> xf_mints x
       then (Inl (DownloadFailure ExpiredResource ''stream capped by provider'', x\<lparr>xf_zeroProgress := z\<rparr>), w)
       else if tp_cancelled tp w1 then (Inl (cancelled_failure, x2), w1)
       else case fresh of
              Inl e \<Rightarrow> (Inl (raise e, x2), w1)
            | Inr r \<Rightarrow>
                if sameEncoding r (xf_current x) (xf_total x)
                then (Inr (x2\<lparr>xf_mintStart := xf_start x, xf_url := pr_url r, xf_headers := pr_headers r\<rparr>), w1)
                else (case closeAbort tp False x2 w1 of (x3, w2) \<Rightarrow>
                        openSink tp opt
                          (x3\<lparr>xf_current := r, xf_url := pr_url r, xf_headers := pr_headers r,
                              xf_start := 0, xf_total := pr_contentLength r, xf_mintStart := 0,
                              xf_hasher := createSha256, xf_covers := True\<rparr>) w2))"
    by (cases fresh) (simp_all add: remint_turn_def Let_def p z_def x2_def)
  have few: "xf_mints x < to_mintBudget opt" and ok: "\<not> to_zeroProgressLimit opt \<le> z" "\<not> tp_cancelled tp w1"
    using assms unfolding eq by (auto split: if_splits)
  obtain r where r: "fresh = Inr r"
    using assms few ok unfolding eq by (cases fresh) (auto simp: not_le)
  show ?thesis
  proof (cases "sameEncoding r (xf_current x) (xf_total x)")
    case True
    then have "x' = x2\<lparr>xf_mintStart := xf_start x, xf_url := pr_url r, xf_headers := pr_headers r\<rparr>" "w' = w1"
      using assms few ok unfolding eq by (auto simp: r)
    then show ?thesis using p few True by (intro keep [of r]) (simp_all add: r x2_def)
  next
    case False
    obtain x3 w2 where c: "closeAbort tp False x2 w1 = (x3, w2)" by fastforce
    have x3: "x3 = x2\<lparr>xf_sinkOpen := False\<rparr>"
      using c by (auto simp: closeAbort_def split: if_splits)
    have "openSink tp opt (x3\<lparr>xf_current := r, xf_url := pr_url r, xf_headers := pr_headers r,
            xf_start := 0, xf_total := pr_contentLength r, xf_mintStart := 0,
            xf_hasher := createSha256, xf_covers := True\<rparr>) w2 = (Inr x', w')"
      using assms few ok False unfolding eq by (simp add: r c)
    from openSink_go [OF this] show ?thesis
      using p few by (auto simp: r x3 x2_def intro!: restart [of r w1])
  qed
qed

lemma write_go:
  assumes "write_turn tp n bytes x w = (Inr x', w')"
  obtains u w1 k where "tp_write tp bytes w = (Inr u, w1)" "tp_commit tp w1 = (Inr k, w')"
    "x' = x\<lparr>xf_total := Some n, xf_hasher := sha_update bytes (xf_hasher x), xf_start := k\<rparr>"
  using assms by (auto simp: write_turn_def Let_def split: prod.splits sum.splits if_splits)

lemma fetch_go:
  assumes "fetchChunk tp url start till headers w = (Inr c, w')"
  obtains hdr body where "tp_fetch tp url headers start till w = (WireResponse (ck_status c) hdr body, w')"
    "ck_contentRange c = hdr" "ck_status c = 206 \<longrightarrow> ck_bytes c = body"
  using assms by (auto simp: fetchChunk_def split: prod.splits wire.splits if_splits)

lemma turn_go:
  assumes "transfer_turn tp opt x w = (Inr x', w')"
  obtains (remint) w1 wx where "tp_fetch tp (xf_url x) (xf_headers x) (xf_start x) (last_byte opt x) w = (wx, w1)"
      "remint_turn tp opt x w1 = (Inr x', w')"
  | (chunk) w1 hdr bytes b t where
      "tp_fetch tp (xf_url x) (xf_headers x) (xf_start x) (last_byte opt x) w = (WireResponse 206 hdr bytes, w1)"
      "parseContentRange hdr = Some (xf_start x, b, t)" "xf_start x \<le> b" "b < t"
      "xf_total x = None \<or> xf_total x = Some t" "length bytes = b - xf_start x + 1"
      "write_turn tp t bytes x w1 = (Inr x', w')"
proof -
  obtain c w1 where f: "fetchChunk tp (xf_url x) (xf_start x) (last_byte opt x) (xf_headers x) w = (Inr c, w1)"
    and c: "chunk_turn tp opt (last_byte opt x) c x w1 = (Inr x', w')"
    using assms by (auto simp: transfer_turn_def split: if_splits prod.splits sum.splits)
  obtain hdr body where t: "tp_fetch tp (xf_url x) (xf_headers x) (xf_start x) (last_byte opt x) w =
        (WireResponse (ck_status c) hdr body, w1)"
      "ck_contentRange c = hdr" "ck_status c = 206 \<longrightarrow> ck_bytes c = body"
    by (rule fetch_go [OF f])
  show ?thesis
  proof (cases "ck_status c = 403 \<or> ck_status c = 416")
    case True
    then show ?thesis using c t(1) remint by (simp add: chunk_turn_def)
  next
    case False
    then have "ck_status c = 206" using c by (simp add: chunk_turn_def split: if_splits)
    then show ?thesis
      using c t False
      by (auto simp: chunk_turn_def bad_range_def split: option.splits if_splits intro!: chunk [of hdr body])
  qed
qed

section \<open>The loop ends\<close>

definition turn_rank :: "transferOptions \<Rightarrow> xfer \<Rightarrow> nat \<times> nat \<times> nat" where
  "turn_rank opt x =
     (to_mintBudget opt - xf_mints x, if xf_total x = None then 1 else 0,
      case xf_total x of None \<Rightarrow> 0 | Some t \<Rightarrow> t - xf_start x)"

abbreviation turn_order :: "transferOptions \<Rightarrow> (xfer \<times> xfer) set" where
  "turn_order opt \<equiv> inv_image (less_than <*lex*> less_than <*lex*> less_than) (turn_rank opt)"

lemma turn_progress:
  assumes sink: "sink_laws tp part" and at: "xf_start x = length (part w)"
    and go: "transfer_turn tp opt x w = (Inr x', w')"
  shows "xf_start x' = length (part w')" and "(x', x) \<in> turn_order opt"
proof -
  note laws = sink_lawsD [OF sink]
  have "xf_start x' = length (part w') \<and> (x', x) \<in> turn_order opt"
    using go
  proof (cases rule: turn_go)
    case (remint w1 wx)
    have "part w1 = part w" by (rule laws(2) [OF remint(1)])
    from remint(2) show ?thesis
    proof (cases rule: remint_go)
      case (keep r)
      have "part w' = part w1" by (rule laws(3) [OF keep(1)])
      then show ?thesis
        using at \<open>part w1 = part w\<close> diff_less_mono2 [OF lessI keep(2)]
        by (subst keep(4), subst (2) keep(4)) (simp add: turn_rank_def)
    next
      case (restart r w2 w3 u)
      have "length (part w') = 0" using laws(4) [OF restart(3)] by simp
      then show ?thesis
        using diff_less_mono2 [OF lessI restart(2)]
        by (subst restart(4), subst (2) restart(4)) (simp add: turn_rank_def)
    qed
  next
    case (chunk w1 hdr bytes b t)
    have "part w1 = part w" by (rule laws(2) [OF chunk(1)])
    from chunk(7) show ?thesis
    proof (cases rule: write_go)
      case (1 u w2 k)
      have "part w2 = part w @ bytes" using laws(5) [OF 1(1)] \<open>part w1 = part w\<close> by simp
      then have "k = length (part w) + (b - xf_start x + 1)" "part w' = part w2"
        using laws(6) [OF 1(2)] chunk(6) by simp_all
      then show ?thesis
        using 1(3) at chunk(3-6) \<open>part w2 = part w @ bytes\<close> by (auto simp: turn_rank_def)
    qed
  qed
  then show "xf_start x' = length (part w')" "(x', x) \<in> turn_order opt" by simp_all
qed

lemma turn_order_wf: "wf (turn_order opt)"
  by (intro wf_inv_image wf_lex_prod wf_less_than)

lemma loop_ends:
  assumes sink: "sink_laws tp part"
  shows "xf_start x = length (part w) \<Longrightarrow> transfer_loop tp opt x w \<noteq> None"
proof (induction x arbitrary: w rule: wf_induct_rule [OF turn_order_wf [of opt]])
  case (1 x)
  show ?case
  proof (cases "transfer_turn tp opt x w")
    case (Pair y w1)
    show ?thesis
    proof (cases y)
      case (Inl t)
      then show ?thesis by (subst transfer_loop.simps) (simp add: Pair)
    next
      case (Inr x')
      have "transfer_turn tp opt x w = (Inr x', w1)" using Pair Inr by simp
      note p = turn_progress [OF sink 1(2) this]
      from 1(1) [OF p(2,1)] show ?thesis
        by (subst transfer_loop.simps) (simp add: Pair Inr)
    qed
  qed
qed

text \<open>C27: A transfer ends whatever the server and the mint answer: with a file plane that reports its
  true offset, every chunk accepted moves the offset on, every refusal costs one of the budgeted
  mints, and so no sequence of answers keeps the loop going.\<close>

theorem transfer_ends:
  assumes "sink_laws tp part"
  shows "runTransfer tp opt w \<noteq> None"
proof -
  have "transfer_loop tp opt x w2 \<noteq> None"
    if "openSink tp opt (first_xfer opt) w1 = (Inr x, w2)" for x w1 w2
    using openSink_go [OF that] sink_lawsD(4) [OF assms]
    by (intro loop_ends [OF assms]) (auto simp: first_xfer_def)
  then show ?thesis
    by (fastforce simp: runTransfer_def split: prod.splits sum.splits option.splits)
qed

section \<open>What a finished transfer published\<close>

lemma loop_invariant:
  assumes sink: "sink_laws tp part"
    and step: "\<And>x w x' w'. Q x w \<Longrightarrow> running x \<Longrightarrow> transfer_turn tp opt x w = (Inr x', w') \<Longrightarrow> Q x' w'"
    and start: "\<And>x w. Q x w \<Longrightarrow> xf_start x = length (part w)"
  shows "Q x w \<Longrightarrow> transfer_loop tp opt x w = Some (Inr x', w') \<Longrightarrow> Q x' w' \<and> \<not> running x'"
proof (induction x arbitrary: w rule: wf_induct_rule [OF turn_order_wf [of opt]])
  case (1 x)
  show ?case
  proof (cases "running x")
    case False
    then show ?thesis using 1(2,3) by (simp add: transfer_loop.simps [of tp opt x w])
  next
    case True
    then obtain y w1 where y: "transfer_turn tp opt x w = (Inr y, w1)"
      and loop: "transfer_loop tp opt y w1 = Some (Inr x', w')"
      using 1(3) by (auto simp: transfer_loop.simps [of tp opt x w] split: prod.splits sum.splits)
    have "(y, x) \<in> turn_order opt" by (rule turn_progress(2) [OF sink start [OF 1(2)] y])
    from 1(1) [OF this step [OF 1(2) True y] loop] show ?thesis .
  qed
qed

text \<open>
  What holds between turns, with \<open>kept\<close> the length of the resumed prefix the part file still starts with:
  the rest of it was served in the encoding of the current mint.
\<close>

definition on_track ::
  "'w transferPorts \<Rightarrow> (string \<Rightarrow> byte list) \<Rightarrow> ('w \<Rightarrow> byte list) \<Rightarrow> transferOptions \<Rightarrow> byte list \<Rightarrow> nat \<Rightarrow> xfer \<Rightarrow> 'w \<Rightarrow> bool"
  where
  "on_track tp content part opt old kept x w \<longleftrightarrow>
     xf_start x = length (part w) \<and> minted tp opt (xf_current x) \<and>
     (\<exists>r. minted tp opt r \<and> xf_url x = pr_url r \<and> same_format r (xf_current x) \<and>
        pr_contentLength r \<in> {None, xf_total x}) \<and>
     kept \<le> length (part w) \<and> xf_covers x = (kept = 0) \<and>
     (0 < kept \<longrightarrow> kept = resume_start opt \<and> xf_current x = to_first opt \<and> take kept (part w) = old) \<and>
     (kept < length (part w) \<longrightarrow> (\<exists>t. xf_total x = Some t \<and> length (part w) \<le> t)) \<and>
     (\<forall>t i. xf_total x = Some t \<longrightarrow> kept \<le> i \<longrightarrow> i < length (part w) \<longrightarrow>
        served tp opt content (xf_current x) t i (part w ! i)) \<and>
     (xf_covers x \<longrightarrow> has_read (part w) (xf_hasher x))"

lemma on_track_at: "on_track tp content part opt old kept x w \<Longrightarrow> xf_start x = length (part w)"
  by (simp add: on_track_def)

lemma on_track_restart:
  assumes "part w = []" "minted tp opt r"
    "xf_current x = r" "xf_url x = pr_url r" "xf_start x = 0" "xf_total x = pr_contentLength r"
    "xf_hasher x = createSha256" "xf_covers x"
  shows "on_track tp content part opt old 0 x w"
  using assms has_read_create by (auto simp: on_track_def same_format_def)

lemma on_track_chunk:
  assumes inv: "on_track tp content part opt old kept x w"
    and total: "xf_total x = None \<or> xf_total x = Some t" "t = length (content (xf_url x))"
    and bytes: "bytes = take (b + 1 - xf_start x) (drop (xf_start x) (content (xf_url x)))" "b < t" "xf_start x \<le> b"
    and x': "x' = x\<lparr>xf_total := Some t, xf_hasher := sha_update bytes (xf_hasher x), xf_start := length (part w')\<rparr>"
    and part: "part w' = part w @ bytes"
  shows "on_track tp content part opt old kept x' w'"
proof -
  have at: "xf_start x = length (part w)" and le: "kept \<le> length (part w)" using inv by (simp_all add: on_track_def)
  obtain r where r: "minted tp opt r" "xf_url x = pr_url r" "same_format r (xf_current x)"
      "pr_contentLength r \<in> {None, xf_total x}"
    using inv unfolding on_track_def by blast
  have len: "length (part w @ bytes) = b + 1" using bytes total(2) at by simp
  have fresh: "served tp opt content (xf_current x) t i (part w' ! i)"
    if i: "kept \<le> i" "i < length (part w')" for i
  proof (cases "i < length (part w)")
    case True
    then have "xf_total x = Some t" using inv i(1) total(1) by (auto simp: on_track_def)
    then show ?thesis using inv i(1) True part by (auto simp: on_track_def nth_append)
  next
    case False
    then have "part w' ! i = content (pr_url r) ! i"
      using i(2) len bytes total(2) at r(2) part by (simp add: nth_append)
    then show ?thesis
      using r total unfolding served_def by (intro exI [of _ r]) auto
  qed
  have whole: "length (part w') \<le> t" using len part bytes(2) by simp
  have read: "xf_covers x \<longrightarrow> has_read (part w') (sha_update bytes (xf_hasher x))"
    using inv has_read_update part by (auto simp: on_track_def)
  have kept: "0 < kept \<longrightarrow> kept = resume_start opt \<and> xf_current x = to_first opt \<and> take kept (part w') = old"
    using inv le part by (auto simp: on_track_def)
  show ?thesis
    using inv fresh whole read kept r total le part unfolding on_track_def x' by auto
qed

lemma on_track_turn:
  assumes sink: "sink_laws tp part" and wire: "honest_ranges tp content"
    and inv: "on_track tp content part opt old kept x w"
    and go: "transfer_turn tp opt x w = (Inr x', w')"
  shows "\<exists>kept'. on_track tp content part opt old kept' x' w'"
  using go
proof (cases rule: turn_go)
  case (remint w1 wx)
  have w1: "part w1 = part w" by (rule sink_lawsD(2) [OF sink remint(1)])
  from remint(2) show ?thesis
  proof (cases rule: remint_go)
    case (keep r)
    have w': "part w' = part w" using sink_lawsD(3) [OF sink keep(1)] w1 by simp
    have "minted tp opt r" using keep(1) by (auto simp: minted_def)
    moreover have "same_format r (xf_current x)" "pr_contentLength r \<in> {None, xf_total x}"
      using keep(3) by (auto simp: sameEncoding_def same_format_def)
    ultimately have "on_track tp content part opt old kept x' w'"
      using inv w' by (subst keep(4)) (auto simp: on_track_def)
    then show ?thesis ..
  next
    case (restart r w2 w3 u)
    have "part w' = []" using sink_lawsD(4) [OF sink restart(3)] by simp
    moreover have "minted tp opt r" using restart(1) by (auto simp: minted_def)
    ultimately have "on_track tp content part opt old 0 x' w'"
      by (rule on_track_restart) (subst restart(4), simp)+
    then show ?thesis ..
  qed
next
  case (chunk w1 hdr bytes b t)
  have w1: "part w1 = part w" by (rule sink_lawsD(2) [OF sink chunk(1)])
  have t: "t = length (content (xf_url x))" "bytes = take (b + 1 - xf_start x) (drop (xf_start x) (content (xf_url x)))"
    using wire [unfolded honest_ranges_def, rule_format, OF conjI [OF chunk(1,2)]] by simp_all
  from chunk(7) show ?thesis
  proof (cases rule: write_go)
    case (1 u w2 k)
    have part: "part w' = part w @ bytes" and k: "k = length (part w')"
      using sink_lawsD(5) [OF sink 1(1)] sink_lawsD(6) [OF sink 1(2)] w1 by simp_all
    have "on_track tp content part opt old kept x' w'"
      by (rule on_track_chunk [OF inv chunk(5) t(1,2) chunk(4,3) _ part]) (simp add: 1(3) k)
    then show ?thesis ..
  qed
qed

lemma on_track_start:
  assumes sink: "sink_laws tp part" and go: "openSink tp opt (first_xfer opt) w = (Inr x, w')"
  shows "on_track tp content part opt (part w) (resume_start opt) x w'"
proof -
  have x: "x = (first_xfer opt)\<lparr>xf_sinkOpen := True\<rparr>"
    and beg: "\<exists>u. tp_begin tp (to_destName opt) (resume_start opt) w = (Inr u, w')"
    using openSink_go [OF go] by (simp_all add: first_xfer_def)
  have "length (part w') = resume_start opt" "0 < resume_start opt \<longrightarrow> part w' = part w"
    using beg sink_lawsD(4) [OF sink] by blast+
  then show ?thesis
    using has_read_create by (auto simp: on_track_def x first_xfer_def minted_def same_format_def)
qed

lemma kept_prefix_agrees:
  assumes "0 < resume_start opt"
  shows "resume_start opt = to_resumeAtBytes opt \<and>
    (\<forall>e. to_expected opt = Some e \<longrightarrow> ee_mime e = Some (pr_mime (to_first opt)) \<and>
       ee_contentLength e \<in> {None, pr_contentLength (to_first opt)} \<and> ee_itag e = pr_itag (to_first opt))"
  using assms by (auto simp: resume_start_def Let_def split: option.splits if_splits)

text \<open>C28: What a finished transfer published, with nothing assumed of how mints relate. There is one
  mint \<open>c\<close> (whose mime and itag are reported), a total \<open>t\<close> and a length \<open>kept\<close>, such that every
  byte from offset \<open>kept\<close> on was served at its own offset by a link with the mime, bitrate and itag
  of \<open>c\<close>, whose content is \<open>t\<close> bytes long and whose declared length, if it has one, is \<open>t\<close>; so nothing
  of another encoding or another length is spliced in. A positive \<open>kept\<close> is the resumed prefix of the
  file as it was: then \<open>c\<close> is the first mint and the recorded descriptor agrees with it. The file is
  as long as \<open>t\<close> (or the prefix, if that is longer), its length and checksum are the ones reported, and
  a file written from its start had the hash of its chunks checked at the end.\<close>

theorem transfer_publishes_whole_file:
  assumes "sink_laws tp part" "publish_law tp part published" "honest_ranges tp content"
    and "runTransfer tp opt w = Some (Inr out, w')"
  shows "\<exists>file t kept c w1. published w' = Some file \<and> oc_bytes out = length file \<and>
    oc_checksum out = sha256 file \<and> oc_contentLength out = Some t \<and> length file = max t kept \<and>
    minted tp opt c \<and> oc_mime out = pr_mime c \<and> oc_itag out = pr_itag c \<and>
    (\<forall>i. kept \<le> i \<longrightarrow> i < length file \<longrightarrow> served tp opt content c t i (file ! i)) \<and>
    (0 < kept \<longrightarrow> kept = to_resumeAtBytes opt \<and> take kept file = part w \<and> c = to_first opt \<and>
       (\<forall>e. to_expected opt = Some e \<longrightarrow> ee_mime e = Some (pr_mime c) \<and>
          ee_contentLength e \<in> {None, pr_contentLength c} \<and> ee_itag e = pr_itag c)) \<and>
    tp_finalize tp (if kept = 0 then Some (sha256 file) else None) w1 = (Inr (oc_checksum out), w')"
proof -
  obtain w1 x w2 x' w3 where e: "tp_ensureDir tp w = (Inr (), w1)"
    and o: "openSink tp opt (first_xfer opt) w1 = (Inr x, w2)"
    and l: "transfer_loop tp opt x w2 = Some (Inr x', w3)"
    and f: "finish tp x' w3 = (Inr out, w')"
    using assms(4) by (auto simp: runTransfer_def split: prod.splits sum.splits option.splits if_splits)
  have old: "part w1 = part w" by (rule sink_lawsD(1) [OF assms(1) e])
  have "(\<exists>kept. on_track tp content part opt (part w) kept x' w3) \<and> \<not> running x'"
    using on_track_start [OF assms(1) o, of content] l
    by (intro loop_invariant [where Q = "\<lambda>x w'. \<exists>kept. on_track tp content part opt (part w) kept x w'", OF assms(1)])
      (auto simp: old on_track_at dest: on_track_turn [OF assms(1,3)])
  then obtain kept where tr: "on_track tp content part opt (part w) kept x' w3" and stop: "\<not> running x'" by blast
  let ?file = "part w3" and ?c = "xf_current x'"
  obtain t where t: "xf_total x' = Some t" "t \<le> length ?file"
    using stop on_track_at [OF tr] by (auto simp: running_def split: option.splits)
  have len: "length ?file = max t kept" using tr t by (auto simp: on_track_def max_def)
  obtain d where fin: "tp_finalize tp (if xf_covers x' then Some (sha_digest (xf_hasher x')) else None) w3 = (Inr d, w')"
    and out: "out = \<lparr>oc_bytes = xf_start x', oc_checksum = d, oc_mime = pr_mime ?c, oc_itag = pr_itag ?c,
       oc_contentLength = xf_total x', oc_expiresAtMs = pr_expiresAtMs ?c\<rparr>"
    using f by (auto simp: finish_def split: if_splits prod.splits sum.splits)
  have pub: "published w' = Some ?file" "d = sha256 ?file"
    using assms(2) [unfolded publish_law_def, rule_format, OF fin] by simp_all
  have "tp_finalize tp (if kept = 0 then Some (sha256 ?file) else None) w3 = (Inr (oc_checksum out), w')"
    using tr fin has_read_digest by (auto simp: out on_track_def)
  moreover have "0 < kept \<longrightarrow> kept = to_resumeAtBytes opt \<and> take kept ?file = part w \<and> ?c = to_first opt \<and>
       (\<forall>e. to_expected opt = Some e \<longrightarrow> ee_mime e = Some (pr_mime ?c) \<and>
          ee_contentLength e \<in> {None, pr_contentLength ?c} \<and> ee_itag e = pr_itag ?c)"
    using tr kept_prefix_agrees [of opt] by (auto simp: on_track_def)
  moreover have "minted tp opt ?c" "oc_bytes out = length ?file"
      "\<forall>i. kept \<le> i \<longrightarrow> i < length ?file \<longrightarrow> served tp opt content ?c t i (?file ! i)"
    using tr t(1) by (auto simp: on_track_def out)
  moreover have "oc_checksum out = sha256 ?file" "oc_contentLength out = Some t"
      "oc_mime out = pr_mime ?c" "oc_itag out = pr_itag ?c"
    using pub(2) t(1) by (simp_all add: out)
  ultimately show ?thesis
    using pub(1) len
    by (rule_tac exI [of _ ?file], rule_tac exI [of _ t], rule_tac exI [of _ kept], rule_tac exI [of _ ?c],
        rule_tac exI [of _ w3]) (intro conjI; assumption)
qed

section \<open>A world in memory\<close>

record memWorld =
  mw_part :: "byte list"
  mw_published :: "byte list option"

definition mem_content :: "string \<Rightarrow> byte list" where
  "mem_content url = [10, 20, 30]"

definition mem_resource :: playableResource where
  "mem_resource = \<lparr>pr_url = ''https://a'', pr_mime = ''audio/mp4'', pr_bitrateKbps = None,
     pr_expiresAtMs = None, pr_contentLength = Some 3, pr_client = ''c'', pr_itag = Some 140,
     pr_headers = []\<rparr>"

definition content_range :: "nat \<Rightarrow> nat \<Rightarrow> nat \<Rightarrow> string" where
  "content_range a b t = ''bytes '' @ show_nat a @ ''-'' @ show_nat b @ ''/'' @ show_nat t"

definition mem_ports :: "memWorld transferPorts" where
  "mem_ports =
     \<lparr>tp_cancelled = (\<lambda>w. False),
      tp_ensureDir = (\<lambda>w. (Inr (), w)),
      tp_fetch = (\<lambda>url h a b w.
        (WireResponse 206 (Some (content_range a (min b 2) 3))
           (take (min b 2 + 1 - a) (drop a (mem_content url))), w)),
      tp_remint = (\<lambda>n i w. (Inr mem_resource, w)),
      tp_begin = (\<lambda>d n w.
        if n = 0 then (Inr (), w\<lparr>mw_part := []\<rparr>)
        else if length (mw_part w) = n then (Inr (), w)
        else (Inl (appError InvalidResponse ''resume mismatch'' None), w)),
      tp_write = (\<lambda>bs w. (Inr (), w\<lparr>mw_part := mw_part w @ bs\<rparr>)),
      tp_commit = (\<lambda>w. (Inr (length (mw_part w)), w)),
      tp_finalize = (\<lambda>e w.
        if e = None \<or> e = Some (sha256 (mw_part w))
        then (Inr (sha256 (mw_part w)), w\<lparr>mw_published := Some (mw_part w)\<rparr>)
        else (Inl (appError InvalidResponse ''checksum'' None), w)),
      tp_abort = (\<lambda>k w. (Inr (), w))\<rparr>"

lemma takeWhile_show: "\<not> is_digit c \<Longrightarrow> takeWhile is_digit (show_nat n @ c # s) = show_nat n"
  "\<not> is_digit c \<Longrightarrow> dropWhile is_digit (show_nat n @ c # s) = c # s"
  using show_nat_digits [of n] by (simp_all add: takeWhile_append2 dropWhile_append2 list_all_iff)

lemma digits_then_show:
  "\<not> is_digit c \<Longrightarrow> digits_then (show_nat n @ c # s) = Some (n, c # s)"
  "digits_then (show_nat n) = Some (n, [])"
proof -
  show "\<not> is_digit c \<Longrightarrow> digits_then (show_nat n @ c # s) = Some (n, c # s)"
    by (simp add: digits_then_def takeWhile_show parse_digits_show)
  have "takeWhile is_digit (show_nat n) = show_nat n" "dropWhile is_digit (show_nat n) = []"
    using show_nat_digits [of n] by (simp_all add: takeWhile_eq_all_conv dropWhile_eq_Nil_conv list_all_iff)
  then show "digits_then (show_nat n) = Some (n, [])"
    unfolding digits_then_def by (simp only: parse_digits_show show_nat_nonempty if_False)
qed

text \<open>The reader of \<open>Content-Range\<close> inverts its writer.\<close>

lemma parse_content_range: "parseContentRange (Some (content_range a b t)) = Some (a, b, t)"
  using digits_then_show(1) [of "CHR ''-''" a] digits_then_show(1) [of "CHR ''/''" b] digits_then_show(2) [of t]
  by (simp add: parseContentRange_def content_range_def after_str_def is_digit_def)

lemma mem_sink: "sink_laws mem_ports mw_part"
  by (simp add: sink_laws_def mem_ports_def)

lemma mem_publish: "publish_law mem_ports mw_part mw_published"
  by (auto simp: publish_law_def mem_ports_def split: if_splits)

lemma mem_wires: "honest_ranges mem_ports mem_content"
  by (auto simp: honest_ranges_def mem_ports_def parse_content_range mem_content_def)

definition mem_options :: "nat \<Rightarrow> transferOptions" where
  "mem_options n =
     \<lparr>to_destName = ''f'', to_first = mem_resource, to_resumeAtBytes = n, to_expected = None,
      to_chunkSize = 2, to_mintBudget = 8, to_zeroProgressLimit = 2\<rparr>"

definition mem_start :: memWorld where
  "mem_start = \<lparr>mw_part = [10], mw_published = None\<rparr>"

theorem transfer_ends_witness: "runTransfer mem_ports (mem_options 0) mem_start \<noteq> None"
  by (rule transfer_ends [OF mem_sink])

lemma mem_turn:
  "\<exists>x'. transfer_turn mem_ports (mem_options 1)
      ((first_xfer (mem_options 1))\<lparr>xf_sinkOpen := True\<rparr>) mem_start =
    (Inr x', mem_start\<lparr>mw_part := [10, 20, 30]\<rparr>) \<and> xf_start x' = 3 \<and> xf_total x' = Some 3 \<and> \<not> xf_covers x'"
  by (simp add: transfer_turn_def fetchChunk_def chunk_turn_def write_turn_def mem_ports_def mem_options_def
      mem_start_def first_xfer_def resume_start_def mem_resource_def last_byte_def parse_content_range
      bad_range_def mem_content_def)

lemma mem_run:
  "\<exists>out. runTransfer mem_ports (mem_options 1) mem_start =
    Some (Inr out, \<lparr>mw_part = [10, 20, 30], mw_published = Some [10, 20, 30]\<rparr>)"
proof -
  let ?x = "(first_xfer (mem_options 1))\<lparr>xf_sinkOpen := True\<rparr>"
  obtain x' where t: "transfer_turn mem_ports (mem_options 1) ?x mem_start =
      (Inr x', mem_start\<lparr>mw_part := [10, 20, 30]\<rparr>)" "xf_start x' = 3" "xf_total x' = Some 3" "\<not> xf_covers x'"
    using mem_turn by blast
  have "running ?x"
    by (simp add: running_def first_xfer_def mem_options_def mem_resource_def resume_start_def)
  then have l: "transfer_loop mem_ports (mem_options 1) ?x mem_start =
      Some (Inr x', mem_start\<lparr>mw_part := [10, 20, 30]\<rparr>)"
    using t by (subst transfer_loop.simps, simp, subst transfer_loop.simps, simp add: running_def)
  have o: "openSink mem_ports (mem_options 1) (first_xfer (mem_options 1)) mem_start = (Inr ?x, mem_start)"
    by (simp add: openSink_def mem_ports_def mem_options_def first_xfer_def resume_start_def mem_start_def)
  have "tp_ensureDir mem_ports mem_start = (Inr (), mem_start)" "\<not> tp_cancelled mem_ports w" for w
    by (simp_all add: mem_ports_def)
  then have "runTransfer mem_ports (mem_options 1) mem_start =
      Some (finish mem_ports x' (mem_start\<lparr>mw_part := [10, 20, 30]\<rparr>))"
    by (simp add: runTransfer_def o l del: One_nat_def)
  then show ?thesis
    using t by (simp add: finish_def mem_ports_def mem_start_def)
qed

text \<open>The witness: one byte is there, and two more are fetched.\<close>

theorem transfer_publishes_whole_file_witness:
  "\<exists>out w' c. runTransfer mem_ports (mem_options 1) mem_start = Some (Inr out, w') \<and>
    mw_published w' = Some [10, 20, 30] \<and> oc_bytes out = 3 \<and> oc_checksum out = sha256 [10, 20, 30] \<and>
    oc_contentLength out = Some 3 \<and> served mem_ports (mem_options 1) mem_content c 3 2 30"
proof -
  obtain out where run: "runTransfer mem_ports (mem_options 1) mem_start =
      Some (Inr out, \<lparr>mw_part = [10, 20, 30], mw_published = Some [10, 20, 30]\<rparr>)"
    using mem_run by blast
  from transfer_publishes_whole_file [OF mem_sink mem_publish mem_wires run]
  obtain bs t kept c where raw: "mw_published \<lparr>mw_part = [10, 20, 30], mw_published = Some [10, 20, 30]\<rparr> = Some bs"
      "oc_bytes out = length bs" "oc_checksum out = sha256 bs" "oc_contentLength out = Some t"
      "length bs = max t kept"
      "\<forall>i. kept \<le> i \<longrightarrow> i < length bs \<longrightarrow> served mem_ports (mem_options 1) mem_content c t i (bs ! i)"
      "0 < kept \<longrightarrow> kept = to_resumeAtBytes (mem_options 1)"
    by (elim exE conjE) (rule that, assumption+, rule impI, elim impE conjE, assumption+)
  have bs: "bs = [10, 20, 30]" using raw(1) by simp
  have kept: "kept \<le> 1" using raw(7) by (cases kept) (simp_all add: mem_options_def)
  then have "t = 3" using raw(5) by (simp add: bs max_def split: if_splits)
  moreover have "served mem_ports (mem_options 1) mem_content c t 2 (bs ! 2)"
    using raw(6) [rule_format, of 2] kept by (simp add: bs)
  ultimately show ?thesis
    using run raw(2-4)
    by (rule_tac exI [of _ out], rule_tac exI [of _ "\<lparr>mw_part = [10, 20, 30], mw_published = Some [10, 20, 30]\<rparr>"],
        rule_tac exI [of _ c]) (simp add: bs)
qed

end
