(* ===== verification/LedgerTheorems.thy ===== *)
theory LedgerTheorems
  imports DownloadLedger DownloadTheorems
begin

text \<open>
  Properties of the download ledger: what the integrity pass at startup leaves behind, that the
  fixups of a failed attempt reach the disk with the attempt that succeeds, which row runs next, and
  what the resume check of a transfer compares.
\<close>

section \<open>The integrity pass\<close>

definition ledger_wf :: "ledger \<Rightarrow> bool" where
  "ledger_wf l \<longleftrightarrow> distinct (map fst l) \<and> (\<forall>(i, r)\<in>set l. i = dr_downloadId r)"

text \<open>What the pass may leave of a row.\<close>

definition settled_row :: "'w ledgerPorts \<Rightarrow> downloadRecord \<Rightarrow> downloadRecord option \<Rightarrow> bool" where
  "settled_row lp r x \<longleftrightarrow>
     (case dr_state r of
        Requested \<Rightarrow> x = Some r
      | FailedWithRetry \<Rightarrow> x = Some r
      | Transferring \<Rightarrow> x = Some (r\<lparr>dr_state := Requested\<rparr>)
      | Removing \<Rightarrow> x = None
      | Available \<Rightarrow> x = None \<or>
          (x = Some r \<and> (\<exists>w w' n. lp_stat lp (dr_filePath r) w = (Inr (True, n), w') \<and>
             (n = None \<or> n = Some (dr_bytes r)))))"

lemma ledger_wf_get: "ledger_wf l \<Longrightarrow> r \<in> set (rows_of l) \<longleftrightarrow> map_get l (dr_downloadId r) = Some r"
  by (force simp: ledger_wf_def rows_of_def map_of_eq_Some_iff)

lemma ledger_wf_set: "ledger_wf l \<Longrightarrow> ledger_wf (set_row l r)"
proof -
  assume l: "ledger_wf l"
  have "set (AList.update k r l) \<subseteq> insert (k, r) (set l)" for k
    by (induction l) auto
  then show ?thesis
    using l by (fastforce simp: ledger_wf_def set_row_def distinct_update)
qed

lemma ledger_wf_delete: "ledger_wf l \<Longrightarrow> ledger_wf (AList.delete i l)"
proof -
  have "set (AList.delete i l) \<subseteq> set l" by (induction l) auto
  then show "ledger_wf l \<Longrightarrow> ?thesis"
    using distinct_delete [of l i] by (auto simp: ledger_wf_def)
qed

lemma check_row_spec:
  assumes "check_row lp r s w = ((Inr u, s'), w')" "ledger_wf (sg_rows s)"
    "map_get (sg_rows s) (dr_downloadId r) = Some r"
  shows "ledger_wf (sg_rows s') \<and> settled_row lp r (map_get (sg_rows s') (dr_downloadId r)) \<and>
    (\<forall>i. i \<noteq> dr_downloadId r \<longrightarrow> map_get (sg_rows s') i = map_get (sg_rows s) i) \<and>
    (sg_dirty s' \<or> s' = s)"
proof (cases "dr_state r = Available")
  case True
  then show ?thesis
    using assms
    by (auto simp: check_row_def drop_staged_def settled_row_def ledger_wf_delete
        split: if_splits prod.splits sum.splits)
next
  case False
  then show ?thesis
    using assms ledger_wf_set [of "sg_rows s" "r\<lparr>dr_state := Requested\<rparr>"]
    by (cases "dr_state r")
      (auto simp: check_row_def drop_staged_def settled_row_def ledger_wf_delete ledger_wf_set
        set_row_def split: if_splits prod.splits sum.splits)
qed

lemma check_rows_spec:
  "check_rows lp rs s w = ((Inr u, s'), w') \<Longrightarrow> ledger_wf (sg_rows s) \<Longrightarrow> distinct (map dr_downloadId rs) \<Longrightarrow>
   \<forall>r\<in>set rs. map_get (sg_rows s) (dr_downloadId r) = Some r \<Longrightarrow>
   ledger_wf (sg_rows s') \<and>
   (\<forall>r\<in>set rs. settled_row lp r (map_get (sg_rows s') (dr_downloadId r))) \<and>
   (\<forall>i. i \<notin> dr_downloadId ` set rs \<longrightarrow> map_get (sg_rows s') i = map_get (sg_rows s) i) \<and>
   (sg_dirty s' \<or> s' = s)"
proof (induction rs arbitrary: s w)
  case (Cons r rs)
  obtain s1 w1 where one: "check_row lp r s w = ((Inr (), s1), w1)"
    and others: "check_rows lp rs s1 w1 = ((Inr u, s'), w')"
    using Cons.prems(1) by (auto split: prod.splits sum.splits)
  have new: "dr_downloadId r \<notin> dr_downloadId ` set rs" using Cons.prems(3) by simp
  have "map_get (sg_rows s) (dr_downloadId r) = Some r" using Cons.prems(4) by simp
  note step = check_row_spec [OF one Cons.prems(2) this]
  have "\<forall>x\<in>set rs. map_get (sg_rows s1) (dr_downloadId x) = Some x"
    using step Cons.prems(3,4) by (auto simp: image_iff)
  note rest = Cons.IH [OF others _ _ this]
  have rest: "ledger_wf (sg_rows s')" "\<forall>x\<in>set rs. settled_row lp x (map_get (sg_rows s') (dr_downloadId x))"
    "\<And>i. i \<notin> dr_downloadId ` set rs \<Longrightarrow> map_get (sg_rows s') i = map_get (sg_rows s1) i"
    "sg_dirty s' \<or> s' = s1"
    using rest step Cons.prems(3) by simp_all
  have "settled_row lp r (map_get (sg_rows s') (dr_downloadId r))"
    using rest(3) [OF new] step by simp
  moreover have "map_get (sg_rows s') i = map_get (sg_rows s) i" if "i \<notin> dr_downloadId ` set (r # rs)" for i
    using rest(3) [of i] step that by simp
  ultimately show ?case using rest step by auto
qed simp

lemma check_rows_dirty: "check_rows lp rs s w = ((x, s'), w') \<Longrightarrow> sg_dirty s' \<or> s' = s"
proof (induction rs arbitrary: s w)
  case (Cons r rs)
  have one: "check_row lp r s w = ((y, s1), w1) \<Longrightarrow> sg_dirty s1 \<or> s1 = s" for y s1 w1
    by (auto simp: check_row_def drop_staged_def split: if_splits prod.splits sum.splits downloadState.splits)
  show ?case
    using Cons.prems one Cons.IH by (auto split: prod.splits sum.splits)
qed simp

lemma verify_cases:
  assumes "verifyStaged lp s w = ((x, s'), w')"
  obtains (failed) e where "x = Inl e" "sg_dirty s' \<or> s' = s"
  | (clean) w1 w2 where "x = Inr ()" "check_rows lp (rows_of (sg_rows s)) s w1 = ((Inr (), s'), w2)" "\<not> sg_dirty s'"
  | (fixed) w1 w2 s1 w3 where "x = Inr ()" "check_rows lp (rows_of (sg_rows s)) s w1 = ((Inr (), s1), w2)"
      "sg_dirty s1" "s' = s1\<lparr>sg_dirty := False\<rparr>" "lp_commit lp (rows_of (sg_rows s')) w2 = (Inr (), w')"
  using assms
  by (auto simp: verifyStaged_def split: prod.splits sum.splits if_splits dest: check_rows_dirty)

text \<open>A startup pass that succeeds leaves an honest ledger: rows being removed are gone, interrupted
  transfers are queued again with their offset, queued and failed rows are untouched, and an
  available row stays only when its file was found with the recorded size (or an unreadable one);
  nothing else changes and nothing is left to commit.\<close>

theorem verify_leaves_honest_ledger:
  assumes "verifyStaged lp s w = ((Inr u, s'), w')" "ledger_wf (sg_rows s)"
  shows "ledger_wf (sg_rows s') \<and> \<not> sg_dirty s' \<and>
    (\<forall>r\<in>set (rows_of (sg_rows s)). settled_row lp r (map_get (sg_rows s') (dr_downloadId r))) \<and>
    (\<forall>r\<in>set (rows_of (sg_rows s')). dr_state r \<noteq> Transferring \<and> dr_state r \<noteq> Removing)"
proof -
  have ids: "map dr_downloadId (rows_of (sg_rows s)) = map fst (sg_rows s)"
    using assms(2) by (auto simp: ledger_wf_def rows_of_def)
  have dis: "distinct (map dr_downloadId (rows_of (sg_rows s)))"
    unfolding ids using assms(2) by (simp add: ledger_wf_def)
  have all: "\<forall>r\<in>set (rows_of (sg_rows s)). map_get (sg_rows s) (dr_downloadId r) = Some r"
    using ledger_wf_get [OF assms(2)] by blast
  obtain s1 w1 w2 where c: "check_rows lp (rows_of (sg_rows s)) s w1 = ((Inr (), s1), w2)"
    and s': "sg_rows s' = sg_rows s1" "\<not> sg_dirty s'"
    using assms(1) by (cases rule: verify_cases) auto
  note spec = check_rows_spec [OF c assms(2) dis all]
  have "dr_state r \<noteq> Transferring \<and> dr_state r \<noteq> Removing" if r: "r \<in> set (rows_of (sg_rows s'))" for r
  proof -
    have get: "map_get (sg_rows s1) (dr_downloadId r) = Some r"
      using r spec s' ledger_wf_get by metis
    have "dr_downloadId r \<in> dr_downloadId ` set (rows_of (sg_rows s))"
    proof (rule ccontr)
      assume "dr_downloadId r \<notin> dr_downloadId ` set (rows_of (sg_rows s))"
      then have "map_get (sg_rows s) (dr_downloadId r) = Some r" using spec get by simp
      then show False
        using \<open>dr_downloadId r \<notin> _\<close> ledger_wf_get [OF assms(2)] by blast
    qed
    then obtain q where q: "q \<in> set (rows_of (sg_rows s))" "dr_downloadId q = dr_downloadId r" by force
    then have "settled_row lp q (Some r)" using spec get by metis
    then show ?thesis by (cases "dr_state q") (auto simp: settled_row_def)
  qed
  then show ?thesis using spec s' by simp
qed

section \<open>The disk after startup\<close>

text \<open>A commit that succeeds stores its rows; a commit that fails and the other ports store nothing.\<close>

definition disk_laws :: "'w ledgerPorts \<Rightarrow> ('w \<Rightarrow> downloadRecord list) \<Rightarrow> bool" where
  "disk_laws lp stored \<longleftrightarrow>
     (\<forall>xs w. stored (snd (lp_sweepPartials lp xs w)) = stored w) \<and>
     (\<forall>xs w. stored (snd (lp_sweepFinalized lp xs w)) = stored w) \<and>
     (\<forall>p w. stored (snd (lp_stat lp p w)) = stored w) \<and>
     (\<forall>p w. stored (snd (lp_removeFile lp p w)) = stored w) \<and>
     (\<forall>t w. stored (snd (lp_sleep lp t w)) = stored w) \<and>
     (\<forall>rs w. stored (snd (lp_commit lp rs w)) =
        (case fst (lp_commit lp rs w) of Inl _ \<Rightarrow> stored w | Inr _ \<Rightarrow> rs))"

lemma disk_lawsD:
  assumes "disk_laws lp stored"
  shows "lp_sweepPartials lp xs w = (a, w') \<Longrightarrow> stored w' = stored w"
    and "lp_sweepFinalized lp xs w = (b, w') \<Longrightarrow> stored w' = stored w"
    and "lp_stat lp p w = (c, w') \<Longrightarrow> stored w' = stored w"
    and "lp_removeFile lp p w = (d, w') \<Longrightarrow> stored w' = stored w"
    and "lp_sleep lp t w = (e, w') \<Longrightarrow> stored w' = stored w"
    and "lp_commit lp rs w = (Inr u, w') \<Longrightarrow> stored w' = rs"
    and "lp_commit lp rs w = (Inl v, w') \<Longrightarrow> stored w' = stored w"
proof -
  note l = assms [unfolded disk_laws_def]
  show "lp_sweepPartials lp xs w = (a, w') \<Longrightarrow> stored w' = stored w" using l by (metis snd_conv)
  show "lp_sweepFinalized lp xs w = (b, w') \<Longrightarrow> stored w' = stored w" using l by (metis snd_conv)
  show "lp_stat lp p w = (c, w') \<Longrightarrow> stored w' = stored w" using l by (metis snd_conv)
  show "lp_removeFile lp p w = (d, w') \<Longrightarrow> stored w' = stored w" using l by (metis snd_conv)
  show "lp_sleep lp t w = (e, w') \<Longrightarrow> stored w' = stored w" using l by (metis snd_conv)
  have c: "stored (snd (lp_commit lp rs w)) = (case fst (lp_commit lp rs w) of Inl _ \<Rightarrow> stored w | Inr _ \<Rightarrow> rs)"
    using l by blast
  show "lp_commit lp rs w = (Inr u, w') \<Longrightarrow> stored w' = rs" using c by simp
  show "lp_commit lp rs w = (Inl v, w') \<Longrightarrow> stored w' = stored w" using c by simp
qed

lemma check_rows_disk:
  assumes "disk_laws lp stored"
  shows "check_rows lp rs s w = ((x, s'), w') \<Longrightarrow> stored w' = stored w"
proof (induction rs arbitrary: s w)
  case (Cons r rs)
  have one: "check_row lp r s w = ((y, s1), w1) \<Longrightarrow> stored w1 = stored w" for y s1 w1
    by (auto simp: check_row_def drop_staged_def
        split: if_splits prod.splits sum.splits downloadState.splits dest!: disk_lawsD(3,4) [OF assms])
  show ?case using Cons.prems one Cons.IH by (fastforce split: prod.splits sum.splits)
qed simp

definition disk_agrees :: "('w \<Rightarrow> downloadRecord list) \<Rightarrow> staged \<Rightarrow> 'w \<Rightarrow> bool" where
  "disk_agrees stored s w \<longleftrightarrow> sg_dirty s \<or> stored w = rows_of (sg_rows s)"

lemma verify_disk:
  assumes laws: "disk_laws lp stored" and go: "verifyStaged lp s w = ((x, s'), w')"
    and agrees: "disk_agrees stored s w"
  shows "disk_agrees stored s' w' \<and> (x = Inr () \<longrightarrow> stored w' = rows_of (sg_rows s'))"
proof -
  obtain a w1 where 1: "lp_sweepPartials lp (map (\<lambda>r. dr_filePath r @ ''.part'')
      (filter (\<lambda>r. dr_state r \<in> set resumable) (rows_of (sg_rows s)))) w = (a, w1)" by fastforce
  obtain b w2 where 2: "lp_sweepFinalized lp (map dr_filePath (rows_of (sg_rows s))) w1 = (b, w2)" by fastforce
  obtain y s1 w3 where 3: "check_rows lp (rows_of (sg_rows s)) s w2 = ((y, s1), w3)"
    by (metis prod.collapse)
  have w: "stored w1 = stored w" "stored w2 = stored w" "stored w3 = stored w"
    using disk_lawsD(1) [OF laws 1] disk_lawsD(2) [OF laws 2] check_rows_disk [OF laws 3] by simp_all
  have s1: "sg_dirty s1 \<or> s1 = s" by (rule check_rows_dirty [OF 3])
  have same: "disk_agrees stored s1 w3" using s1 agrees w by (auto simp: disk_agrees_def)
  show ?thesis
  proof (cases a; cases b; cases y)
    fix u v q assume ok: "a = Inr u" "b = Inr v" "y = Inr q"
    show ?thesis
    proof (cases "sg_dirty s1")
      case False
      then show ?thesis
        using go same by (simp add: verifyStaged_def 1 2 3 ok disk_agrees_def)
    next
      case True
      obtain z w4 where 4: "lp_commit lp (rows_of (sg_rows s1)) w3 = (z, w4)" by fastforce
      show ?thesis
        using go True disk_lawsD(6) [OF laws, of "rows_of (sg_rows s1)" w3]
        by (cases z) (auto simp: verifyStaged_def 1 2 3 4 ok disk_agrees_def)
    qed
  qed (use go agrees same w in \<open>auto simp: verifyStaged_def 1 2 3 disk_agrees_def\<close>)
qed

lemma init_attempts_disk:
  assumes laws: "disk_laws lp stored"
  shows "init_attempts lp n s w = ((Inr u, s'), w') \<Longrightarrow> disk_agrees stored s w \<Longrightarrow> stored w' = rows_of (sg_rows s')"
proof (induction "INIT_ATTEMPTS - n" arbitrary: n s w rule: less_induct)
  case less
  obtain a w1 where a: "(if 0 < n then lp_sleep lp (INIT_BACKOFF_MS * 2 ^ (n - 1)) w else (Inr (), w)) = (a, w1)"
    by fastforce
  have w1: "stored w1 = stored w"
    using a disk_lawsD(5) [OF laws] by (cases "0 < n") auto
  then have agrees: "disk_agrees stored s w1" using less.prems(2) by (simp add: disk_agrees_def)
  obtain x s1 w2 where v: "verifyStaged lp s w1 = ((x, s1), w2)" by (metis prod.collapse)
  note disk = verify_disk [OF laws v agrees]
  obtain u' where au: "a = Inr u'"
    using less.prems(1) by (cases a) (auto simp: init_attempts.simps [of lp n] a)
  show ?case
  proof (cases x)
    case (Inr y)
    then have "s' = s1" "w' = w2"
      using less.prems(1) by (auto simp: init_attempts.simps [of lp n] a au v)
    then show ?thesis using disk Inr by simp
  next
    case (Inl e)
    then have more: "n < INIT_ATTEMPTS - 1" and rec: "init_attempts lp (n + 1) s1 w2 = ((Inr u, s'), w')"
      using less.prems(1) by (auto simp: init_attempts.simps [of lp n] a au v split: if_splits)
    have "INIT_ATTEMPTS - (n + 1) < INIT_ATTEMPTS - n" using more by simp
    from less.hyps [OF this rec] show ?thesis using disk by simp
  qed
qed

lemma stage_rows:
  "distinct (map dr_downloadId rs) \<Longrightarrow>
   rows_of (fold (\<lambda>r l. set_row l r) rs []) = rs \<and> ledger_wf (fold (\<lambda>r l. set_row l r) rs [])"
proof -
  have new: "k \<notin> fst ` set l \<Longrightarrow> AList.update k v l = l @ [(k, v)]" for k v and l :: ledger
    by (induction l) auto
  have "distinct (map fst l @ map dr_downloadId rs) \<Longrightarrow>
      fold (\<lambda>r l. set_row l r) rs l = l @ map (\<lambda>r. (dr_downloadId r, r)) rs" for l
    by (induction rs arbitrary: l) (auto simp: set_row_def new)
  from this [of "[]"] show "distinct (map dr_downloadId rs) \<Longrightarrow> ?thesis"
    by (auto simp: rows_of_def ledger_wf_def o_def)
qed

text \<open>C29: When startup succeeds, the disk and the published ledger agree row for row, even when an
  earlier attempt changed the staged rows and failed to commit them.\<close>

theorem init_publishes_what_is_stored:
  assumes "disk_laws lp stored" "stored w = downloads" "distinct (map dr_downloadId downloads)"
    and "ledger_init lp downloads w = ((Inr u, l, broken), w')"
  shows "stored w' = rows_of l \<and> \<not> broken"
proof -
  let ?s = "\<lparr>sg_rows = fold (\<lambda>r l. set_row l r) downloads [], sg_dirty = False\<rparr>"
  obtain s' where i: "init_attempts lp 0 ?s w = ((Inr u, s'), w')" and l: "l = sg_rows s'" "\<not> broken"
    using assms(4) by (auto simp: ledger_init_def split: prod.splits sum.splits)
  have "disk_agrees stored ?s w" using stage_rows [OF assms(3)] assms(2) by (simp add: disk_agrees_def)
  then show ?thesis using init_attempts_disk [OF assms(1) i] l by simp
qed

section \<open>Scheduling\<close>

interpretation rows: comparator compare_rows "\<lambda>r. (dr_priority r, dr_requestedMs r)"
  by unfold_locales (auto simp: compare_rows_def)

text \<open>The pump claims a queued row of the best band, and of these one requested first; it claims
  nothing only when no row is queued.\<close>

theorem pump_takes_best_row:
  "case pump_next l of
     None \<Rightarrow> list_all (\<lambda>r. dr_state r \<noteq> Requested) (rows_of l)
   | Some r \<Rightarrow> r \<in> set (rows_of l) \<and> dr_state r = Requested \<and>
       list_all (\<lambda>q. dr_state q = Requested \<longrightarrow>
         dr_priority r < dr_priority q \<or>
         (dr_priority r = dr_priority q \<and> dr_requestedMs r \<le> dr_requestedMs q)) (rows_of l)"
proof -
  let ?q = "filter (\<lambda>r. dr_state r = Requested) (rows_of l)"
  show ?thesis
  proof (cases "sort_by compare_rows ?q")
    case Nil
    then have "?q = []" using length_sort_by [of compare_rows ?q] by simp
    then show ?thesis using Nil by (simp add: pump_next_def filter_empty_conv list_all_iff)
  next
    case (Cons r rs)
    have "set (r # rs) = set ?q" using set_sort_by [of compare_rows ?q] unfolding Cons .
    moreover have "\<forall>q\<in>set rs. (dr_priority r, dr_requestedMs r) \<le> (dr_priority q, dr_requestedMs q)"
      using rows.sort_by_sorted [of ?q] by (auto simp: Cons)
    ultimately show ?thesis
      using Cons by (auto simp: pump_next_def list_all_iff less_eq_prod_def)
  qed
qed

section \<open>The resume check\<close>

text \<open>C30: The runner writes the fresh mint's mime type and format pin on the row before it takes the
  expected encoding from the row. So of what was recorded with the prefix, the resume check sees the
  mime type never, the pin only when the fresh mint has none (the row then keeps its own, and any
  recorded pin restarts the file), and the length only when one was recorded; in every other case the
  prefix is kept, whatever format it was written in.\<close>

theorem resume_check_compares_mint_with_itself:
  "resume_start (run_options (minted_row r first) first) =
     (if pr_itag first = None \<and> dr_itag r \<noteq> None \<or>
         0 < dr_bytes r \<and> pr_contentLength first \<noteq> Some (dr_bytes r)
      then 0 else dr_committedOffset r)"
  by (auto simp: resume_start_def run_options_def recorded_encoding_def minted_row_def Let_def split: option.splits)

section \<open>Samples\<close>

definition sample_mint :: playableResource where
  "sample_mint = \<lparr>pr_url = ''https://b'', pr_mime = ''audio/webm'', pr_bitrateKbps = None,
     pr_expiresAtMs = None, pr_contentLength = Some 9, pr_client = ''c'', pr_itag = Some 251,
     pr_headers = []\<rparr>"

text \<open>A row interrupted after five of nine bytes of another format.\<close>

definition sample_download :: downloadRecord where
  "sample_download =
     \<lparr>dr_downloadId = ''1'', dr_recordingId = ''r'', dr_provider = ''q'',
      dr_sourceRef = \<lparr>ref_provider = ''q'', ref_kind = ''track'', ref_id = ''1''\<rparr>,
      dr_filePath = ''dl-1'', dr_bytes = 9, dr_state = Transferring, dr_committedOffset = 5,
      dr_checksum = None, dr_mime = Some ''audio/mp4'', dr_itag = Some 140, dr_expiresAtMs = None,
      dr_error = None, dr_priority = 2, dr_requestedMs = 1, dr_downloadedMs = None\<rparr>"

text \<open>The recorded format alone would have restarted this download; the row after the mint does not.\<close>

theorem resume_check_compares_mint_with_itself_witness:
  "resume_start (run_options (minted_row sample_download sample_mint) sample_mint) = 5 \<and>
   resume_start (run_options sample_download sample_mint) = 0"
proof -
  have "resume_start (run_options (minted_row sample_download sample_mint) sample_mint) =
      dr_committedOffset sample_download"
    by (subst resume_check_compares_mint_with_itself) (simp add: sample_mint_def sample_download_def)
  then show ?thesis
    by (simp add: sample_download_def resume_start_def run_options_def recorded_encoding_def sample_mint_def)
qed

text \<open>A file plane without files whose disk is its world, with one failing commit.\<close>

definition sample_ledger_ports :: "(downloadRecord list \<times> nat) ledgerPorts" where
  "sample_ledger_ports =
     \<lparr>lp_cancelled = (\<lambda>w. False), lp_sweepPartials = (\<lambda>xs w. (Inr 0, w)),
      lp_sweepFinalized = (\<lambda>xs w. (Inr 0, w)), lp_stat = (\<lambda>p w. (Inr (False, None), w)),
      lp_removeFile = (\<lambda>p w. (Inr (), w)),
      lp_commit = (\<lambda>rs w. if 0 < snd w then (Inl (appError Transient ''io'' None), (fst w, snd w - 1))
                        else (Inr (), (rs, 0))),
      lp_sleep = (\<lambda>t w. (Inr (), w))\<rparr>"

lemma sample_disk: "disk_laws sample_ledger_ports fst"
  by (simp add: disk_laws_def sample_ledger_ports_def)

lemma sample_init:
  "ledger_init sample_ledger_ports [sample_download] ([sample_download], 1) =
    ((Inr (), [(''1'', sample_download\<lparr>dr_state := Requested\<rparr>)], False), ([sample_download\<lparr>dr_state := Requested\<rparr>], 0))"
  by (simp add: ledger_init_def init_attempts.simps [of _ 0] init_attempts.simps [of _ "Suc 0"] set_row_def
      verifyStaged_def sample_ledger_ports_def rows_of_def check_row_def sample_download_def resumable_def
      appError_def RETRYABLE_def INIT_ATTEMPTS_def)

lemma sample_verify:
  "verifyStaged sample_ledger_ports \<lparr>sg_rows = [(''1'', sample_download)], sg_dirty = False\<rparr> ([], 0) =
    ((Inr (), \<lparr>sg_rows = [(''1'', sample_download\<lparr>dr_state := Requested\<rparr>)], sg_dirty = False\<rparr>),
     ([sample_download\<lparr>dr_state := Requested\<rparr>], 0))"
  by (simp add: set_row_def verifyStaged_def sample_ledger_ports_def rows_of_def check_row_def
      sample_download_def resumable_def)

theorem verify_leaves_honest_ledger_witness:
  "settled_row sample_ledger_ports sample_download (Some (sample_download\<lparr>dr_state := Requested\<rparr>))"
proof -
  have "ledger_wf [(''1'', sample_download)]" by (simp add: ledger_wf_def sample_download_def)
  then show ?thesis
    using verify_leaves_honest_ledger [OF sample_verify] by (simp add: rows_of_def sample_download_def)
qed

theorem init_publishes_what_is_stored_witness:
  "fst (snd (ledger_init sample_ledger_ports [sample_download] ([sample_download], 1))) =
   rows_of (fst (snd (fst (ledger_init sample_ledger_ports [sample_download] ([sample_download], 1)))))"
  unfolding sample_init using init_publishes_what_is_stored [OF sample_disk _ _ sample_init] by simp

end
