(* ===== verification/Utf8.thy ===== *)
theory Utf8
  imports Prelude "HOL-Library.Word"
begin

text \<open>
  The UTF-8 codec of \<open>packages/application/src/utf8.ts\<close>. A JavaScript string is here a list of
  16-bit code units (the other theories read strings through one-byte characters only), a
  \<open>Uint8Array\<close> a list of 8-bit words, a code point a natural number, on which the code's bit
  operations are those of \<open>nat\<close>. The index loops are recursions over the rest of the input.
\<close>

unbundle bit_operations_syntax

type_synonym code_unit = "16 word"
type_synonym octet = "8 word"

section \<open>Code points of a string\<close>

definition is_lead :: "code_unit \<Rightarrow> bool" where
  "is_lead u = (0xd800 \<le> u \<and> u < 0xdc00)"

definition is_trail :: "code_unit \<Rightarrow> bool" where
  "is_trail u = (0xdc00 \<le> u \<and> u < 0xe000)"

text \<open>\<open>input.codePointAt(i)\<close> of the standard library, on the rest of the input from \<open>i\<close>: the
  pair of surrogates as one code point, any other unit as itself.\<close>

fun codePointAt :: "code_unit list \<Rightarrow> nat option" where
  "codePointAt [] = None"
| "codePointAt [u] = Some (unat u)"
| "codePointAt (u # v # us) =
     (if is_lead u \<and> is_trail v
      then Some (0x10000 + (unat u - 0xd800) * 0x400 + (unat v - 0xdc00))
      else Some (unat u))"

text \<open>\<open>codePointAt(i) ?? 0\<close>, and the units one turn of the loop consumes.\<close>

definition point_at :: "code_unit list \<Rightarrow> nat" where
  "point_at us = (case codePointAt us of None \<Rightarrow> 0 | Some cp \<Rightarrow> cp)"

definition units_of :: "nat \<Rightarrow> nat" where
  "units_of cp = (if cp > 0xffff then 2 else 1)"

section \<open>Encoding\<close>

definition push :: "nat list \<Rightarrow> octet list" where
  "push = map of_nat"

definition encode_point :: "nat \<Rightarrow> octet list" where
  "encode_point cp =
     (if cp < 0x80 then push [cp]
      else if cp < 0x800 then
        push [0xc0 OR drop_bit 6 cp, 0x80 OR (cp AND 0x3f)]
      else if cp < 0x10000 then
        push [0xe0 OR drop_bit 12 cp, 0x80 OR (drop_bit 6 cp AND 0x3f), 0x80 OR (cp AND 0x3f)]
      else
        push [0xf0 OR drop_bit 18 cp, 0x80 OR (drop_bit 12 cp AND 0x3f),
              0x80 OR (drop_bit 6 cp AND 0x3f), 0x80 OR (cp AND 0x3f)])"

function utf8Encode :: "code_unit list \<Rightarrow> octet list" where
  "utf8Encode [] = []"
| "utf8Encode (u # us) =
     encode_point (point_at (u # us)) @ utf8Encode (drop (units_of (point_at (u # us))) (u # us))"
  by pat_completeness auto
termination by (relation "measure length") (auto simp: units_of_def)

definition point_bytes :: "nat \<Rightarrow> nat" where
  "point_bytes cp = (if cp < 0x80 then 1 else if cp < 0x800 then 2 else if cp < 0x10000 then 3 else 4)"

function utf8_count :: "nat \<Rightarrow> code_unit list \<Rightarrow> nat" where
  "utf8_count bytes [] = bytes"
| "utf8_count bytes (u # us) =
     utf8_count (bytes + point_bytes (point_at (u # us))) (drop (units_of (point_at (u # us))) (u # us))"
  by pat_completeness auto
termination by (relation "measure (length \<circ> snd)") (auto simp: units_of_def)

definition utf8ByteLength :: "code_unit list \<Rightarrow> nat" where
  "utf8ByteLength input = utf8_count 0 input"

section \<open>Decoding\<close>

text \<open>The first byte: the bits it carries and the length it announces.\<close>

definition lead_byte :: "nat \<Rightarrow> (nat \<times> nat) option" where
  "lead_byte b0 =
     (if b0 < 0x80 then Some (b0, 1)
      else if b0 \<ge> 0xc2 \<and> b0 < 0xe0 then Some (b0 AND 0x1f, 2)
      else if b0 \<ge> 0xe0 \<and> b0 < 0xf0 then Some (b0 AND 0x0f, 3)
      else if b0 \<ge> 0xf0 \<and> b0 \<le> 0xf4 then Some (b0 AND 0x07, 4)
      else None)"

text \<open>The second-byte bounds: overlong forms, surrogates, and points above \<open>U+10FFFF\<close>.\<close>

definition second_byte_bad :: "nat \<Rightarrow> nat \<Rightarrow> bool" where
  "second_byte_bad b0 cont =
     ((b0 = 0xe0 \<and> cont < 0xa0) \<or> (b0 = 0xed \<and> cont > 0x9f) \<or>
      (b0 = 0xf0 \<and> cont < 0x90) \<or> (b0 = 0xf4 \<and> cont > 0x8f))"

text \<open>The inner loop over the continuation bytes \<open>j = 1 .. len - 1\<close>; \<open>None\<close> is \<open>valid = false\<close>.\<close>

fun continuation :: "nat \<Rightarrow> nat \<Rightarrow> nat \<Rightarrow> nat list \<Rightarrow> nat option" where
  "continuation b0 j cp [] = Some cp"
| "continuation b0 j cp (cont # conts) =
     (if cont AND 0xc0 \<noteq> 0x80 then None
      else if j = 1 \<and> second_byte_bad b0 cont then None
      else continuation b0 (j + 1) (push_bit 6 cp OR (cont AND 0x3f)) conts)"

text \<open>One turn of the outer loop: the pushed code point and the bytes consumed.\<close>

definition decode_point :: "octet list \<Rightarrow> nat \<times> nat" where
  "decode_point bytes =
     (let b0 = unat (hd bytes)
      in case lead_byte b0 of
           None \<Rightarrow> (0xfffd, 1)
         | Some (cp, len) \<Rightarrow>
             (if len \<le> length bytes
              then case continuation b0 1 cp (map unat (take (len - 1) (tl bytes))) of
                     None \<Rightarrow> (0xfffd, 1)
                   | Some cp' \<Rightarrow> (cp', len)
              else (0xfffd, 1)))"

lemma decode_point_consumes: "0 < snd (decode_point bytes)"
  by (auto simp: decode_point_def lead_byte_def Let_def split: option.split prod.split)

function decode_points :: "octet list \<Rightarrow> nat list" where
  "decode_points [] = []"
| "decode_points (b # bs) =
     fst (decode_point (b # bs)) # decode_points (drop (snd (decode_point (b # bs))) (b # bs))"
  by pat_completeness auto
termination using decode_point_consumes
  by (relation "measure length") (auto simp: not_less_eq_eq Suc_le_eq)

text \<open>\<open>String.fromCodePoint\<close> of the standard library.\<close>

definition fromCodePoint :: "nat \<Rightarrow> code_unit list" where
  "fromCodePoint cp =
     (if cp > 0xffff
      then [of_nat (0xd800 + (cp - 0x10000) div 0x400), of_nat (0xdc00 + (cp - 0x10000) mod 0x400)]
      else [of_nat cp])"

definition utf8Decode :: "octet list \<Rightarrow> code_unit list" where
  "utf8Decode bytes = concat (map fromCodePoint (decode_points bytes))"

section \<open>The arithmetic of one code point\<close>

lemma and_low [simp]:
  fixes x :: nat
  shows "x AND 0x3f = x mod 64" "x AND 0x1f = x mod 32" "x AND 0x0f = x mod 16" "x AND 7 = x mod 8"
  using take_bit_eq_mask [of 6 x] take_bit_eq_mask [of 5 x] take_bit_eq_mask [of 4 x] take_bit_eq_mask [of 3 x]
  by (simp_all add: take_bit_eq_mod mask_eq_exp_minus_1)

lemma or_disjoint:
  fixes x y :: nat
  assumes "x < 2 ^ n"
  shows "push_bit n y OR x = push_bit n y + x"
proof (subst disjunctive_add)
  show "\<not> bit (push_bit n y) k \<or> \<not> bit x k" for k
    using assms by (metis bit_push_bit_iff bit_take_bit_iff not_le take_bit_nat_eq_self)
qed simp

lemma or_low [simp]:
  fixes x :: nat
  shows "x < 0x20 \<Longrightarrow> 0xc0 OR x = 0xc0 + x" "x < 0x10 \<Longrightarrow> 0xe0 OR x = 0xe0 + x"
    "x < 8 \<Longrightarrow> 0xf0 OR x = 0xf0 + x" "x < 0x40 \<Longrightarrow> 0x80 OR x = 0x80 + x"
  using or_disjoint [of x 5 6] or_disjoint [of x 4 14] or_disjoint [of x 3 30] or_disjoint [of x 6 2]
  by (simp_all add: push_bit_eq_mult)

lemma shift_in [simp]:
  fixes x c :: nat
  shows "push_bit 6 x OR (c mod 64) = 64 * x + c mod 64"
  using or_disjoint [of "c mod 64" 6 x] by (simp add: push_bit_eq_mult)

lemma and_push_bit:
  fixes c m :: nat
  shows "c AND push_bit n m = push_bit n (drop_bit n c AND m)"
  by (rule bit_eqI) (auto simp: bit_simps)

lemma continuation_mask:
  fixes c :: nat
  assumes "c < 256"
  shows "c AND 0xc0 = 0x80 \<longleftrightarrow> c div 64 = 2"
proof -
  have "c AND push_bit 6 3 = push_bit 6 (drop_bit 6 c AND 3)"
    by (rule and_push_bit)
  moreover have "drop_bit 6 c AND 3 = c div 64"
    using assms take_bit_eq_mask [of 2 "drop_bit 6 c"]
    by (simp add: mask_eq_exp_minus_1 take_bit_eq_mod drop_bit_eq_div)
  ultimately have "c AND 0xc0 = 64 * (c div 64)"
    by (simp add: push_bit_eq_mult)
  then show ?thesis by linarith
qed

lemma unat_octet [simp]: "n < 256 \<Longrightarrow> unat (of_nat n :: octet) = n"
  by (simp add: unat_of_nat)

lemma unat_octet_less: "unat (b :: octet) < 256"
  using unsigned_less [of b] by simp

lemma strip_offset [simp]:
  fixes x :: nat
  shows "x < 64 \<Longrightarrow> (128 + x) mod 64 = x" "x < 64 \<Longrightarrow> (128 + x) div 64 = 2"
    "x < 32 \<Longrightarrow> (192 + x) mod 32 = x" "x < 16 \<Longrightarrow> (224 + x) mod 16 = x" "x < 8 \<Longrightarrow> (240 + x) mod 8 = x"
  using mod_mult_self3 [of 2 64 x] div_mult_self3 [of 64 2 x] mod_mult_self3 [of 6 32 x]
    mod_mult_self3 [of 14 16 x] mod_mult_self3 [of 30 8 x]
  by simp_all

lemma continuation_step:
  assumes "r < 64" "j = 1 \<Longrightarrow> \<not> second_byte_bad b0 (0x80 + r)"
  shows "continuation b0 j cp ((0x80 + r) # conts) = continuation b0 (j + 1) (64 * cp + r) conts"
proof -
  have mask: "(128 + r) AND 0xc0 = 0x80"
    using assms(1) by (subst continuation_mask) simp_all
  have "push_bit 6 cp OR ((128 + r) AND 0x3f) = 64 * cp + r"
    using assms(1) shift_in [of cp "128 + r"] by simp
  with mask assms(2) show ?thesis
    unfolding continuation.simps by (metis (full_types))
qed

definition scalar :: "nat \<Rightarrow> bool" where
  "scalar cp = (cp < 0xd800 \<or> (0xe000 \<le> cp \<and> cp < 0x110000))"

lemma encode_point_bytes:
  "cp < 0x80 \<Longrightarrow> encode_point cp = push [cp]"
  "0x80 \<le> cp \<Longrightarrow> cp < 0x800 \<Longrightarrow> encode_point cp = push [0xc0 + cp div 64, 0x80 + cp mod 64]"
  "0x800 \<le> cp \<Longrightarrow> cp < 0x10000 \<Longrightarrow>
     encode_point cp = push [0xe0 + cp div 4096, 0x80 + cp div 64 mod 64, 0x80 + cp mod 64]"
  "0x10000 \<le> cp \<Longrightarrow> cp < 0x110000 \<Longrightarrow>
     encode_point cp =
       push [0xf0 + cp div 262144, 0x80 + cp div 4096 mod 64, 0x80 + cp div 64 mod 64, 0x80 + cp mod 64]"
proof -
  show "0x80 \<le> cp \<Longrightarrow> cp < 0x800 \<Longrightarrow> encode_point cp = push [0xc0 + cp div 64, 0x80 + cp mod 64]"
    by (simp add: encode_point_def drop_bit_eq_div less_mult_imp_div_less)
  show "0x800 \<le> cp \<Longrightarrow> cp < 0x10000 \<Longrightarrow>
     encode_point cp = push [0xe0 + cp div 4096, 0x80 + cp div 64 mod 64, 0x80 + cp mod 64]"
    by (simp add: encode_point_def drop_bit_eq_div less_mult_imp_div_less)
  show "0x10000 \<le> cp \<Longrightarrow> cp < 0x110000 \<Longrightarrow>
     encode_point cp =
       push [0xf0 + cp div 262144, 0x80 + cp div 4096 mod 64, 0x80 + cp div 64 mod 64, 0x80 + cp mod 64]"
  proof -
    assume "0x10000 \<le> cp" "cp < 0x110000"
    then have branch: "\<not> cp < 0x80" "\<not> cp < 0x800" "\<not> cp < 0x10000" and "cp div 262144 < 8"
      by auto
    then have "240 OR drop_bit 18 cp = 240 + cp div 262144" by (simp add: drop_bit_eq_div)
    moreover have "128 OR (drop_bit n cp AND 63) = 128 + cp div 2 ^ n mod 64" for n
      by (simp add: drop_bit_eq_div)
    from this [of 12] this [of 6] this [of 0]
    have "128 OR (drop_bit 12 cp AND 63) = 128 + cp div 4096 mod 64"
      "128 OR (drop_bit 6 cp AND 63) = 128 + cp div 64 mod 64" "128 OR (cp AND 63) = 128 + cp mod 64"
      by simp_all
    ultimately show ?thesis
      unfolding encode_point_def by (simp only: branch if_False)
  qed
qed (simp add: encode_point_def)

text \<open>The base-64 digits of a code point.\<close>

lemma digits:
  fixes cp :: nat
  shows "cp = 64 * (cp div 64) + cp mod 64" "cp div 64 = 64 * (cp div 4096) + cp div 64 mod 64"
    "cp div 4096 = 64 * (cp div 262144) + cp div 4096 mod 64"
    "cp mod 64 < 64" "cp div 64 mod 64 < 64" "cp div 4096 mod 64 < 64"
  using div_mult2_eq [of cp 64 64] div_mult2_eq [of cp 4096 64] by simp_all

lemma decode_pushed:
  assumes "\<forall>n\<in>set (b0 # ns). n < 256" "lead_byte b0 = Some (cp, Suc (length ns))"
    "continuation b0 1 cp ns = Some cp'"
  shows "decode_point (push (b0 # ns) @ rest) = (cp', length (push (b0 # ns)))"
proof -
  have "map (\<lambda>n. unat (of_nat n :: octet)) ns = ns"
    using assms(1) by (simp add: map_idI)
  with assms show ?thesis
    by (simp add: push_def decode_point_def Let_def comp_def del: unat_of_nat)
qed

text \<open>Decoding the bytes of a scalar value gives it back and consumes exactly these bytes.\<close>

lemma decode_encode_point:
  assumes "scalar cp"
  shows "decode_point (encode_point cp @ rest) = (cp, length (encode_point cp))"
proof -
  note d = digits [of cp]
  consider (1) "cp < 0x80" | (2) "0x80 \<le> cp" "cp < 0x800" | (3) "0x800 \<le> cp" "cp < 0x10000"
    | (4) "0x10000 \<le> cp" "cp < 0x110000"
    using assms by (force simp: scalar_def)
  then show ?thesis
  proof cases
    case 1
    then show ?thesis
      unfolding encode_point_bytes(1) [OF 1] by (intro decode_pushed) (simp_all add: lead_byte_def)
  next
    case 2
    then have "cp div 64 < 32" "2 \<le> cp div 64" by auto
    moreover have "\<not> second_byte_bad (192 + cp div 64) (128 + cp mod 64)"
      using 2 by (auto simp: second_byte_bad_def)
    moreover from this have "continuation (192 + cp div 64) 1 (cp div 64) [128 + cp mod 64] = Some cp"
      by (subst continuation_step) simp_all
    ultimately show ?thesis
      unfolding encode_point_bytes(2) [OF 2]
      by (intro decode_pushed) (simp_all add: lead_byte_def del: continuation.simps(2))
  next
    case 3
    then have "cp div 4096 < 16" by auto
    moreover have "64 * (64 * (cp div 4096) + cp div 64 mod 64) + cp mod 64 = cp"
      by (simp only: d(1,2) [symmetric])
    moreover have "\<not> second_byte_bad (224 + cp div 4096) (128 + cp div 64 mod 64)"
      using 3 assms d unfolding second_byte_bad_def scalar_def by linarith
    ultimately show ?thesis
      unfolding encode_point_bytes(3) [OF 3] using less_trans [OF d(4)] less_trans [OF d(5)]
      by (intro decode_pushed) (simp_all add: lead_byte_def continuation_step del: continuation.simps(2))
  next
    case 4
    then have "cp div 262144 \<le> 4" by auto
    moreover have "64 * (64 * (64 * (cp div 262144) + cp div 4096 mod 64) + cp div 64 mod 64) + cp mod 64 = cp"
      by (simp only: d(1-3) [symmetric])
    moreover have "\<not> second_byte_bad (240 + cp div 262144) (128 + cp div 4096 mod 64)"
      using 4 d unfolding second_byte_bad_def by linarith
    ultimately show ?thesis
      unfolding encode_point_bytes(4) [OF 4] using less_trans [OF d(4)] less_trans [OF d(5)] less_trans [OF d(6)]
      by (intro decode_pushed) (simp_all add: lead_byte_def continuation_step del: continuation.simps(2))
  qed
qed

text \<open>Every byte sequence decodes to scalar values.\<close>

lemma continuation_Some:
  assumes "c < 256"
  shows "continuation b0 j cp (c # conts) = Some v \<longleftrightarrow>
    c = 128 + c mod 64 \<and> \<not> (j = 1 \<and> second_byte_bad b0 c) \<and>
    continuation b0 (j + 1) (64 * cp + c mod 64) conts = Some v"
proof -
  have "c div 64 = 2 \<longleftrightarrow> c = 128 + c mod 64"
    using mult_div_mod_eq [of 64 c] by linarith
  with continuation_mask [OF assms] show ?thesis by auto
qed

lemma list_upto_3:
  obtains "ns = []" | c where "ns = [c]" | c d where "ns = [c, d]" | c d e where "ns = [c, d, e]"
    | "3 < length ns"
proof (cases ns)
  case (Cons c cs)
  with that show ?thesis by (cases cs; cases "tl cs"; cases "tl (tl cs)") auto
qed

lemma scalar_three:
  assumes "x < 16" "y < 64" "z < 64" "v = 64 * (64 * x + y) + z" "x = 13 \<Longrightarrow> y < 32"
  shows "scalar v"
proof -
  consider "x \<le> 12" | "x = 13" | "14 \<le> x" by linarith
  then show ?thesis using assms unfolding scalar_def by cases auto
qed

lemma scalar_four:
  assumes "x \<le> 4" "y < 64" "z < 64" "w < 64" "v = 64 * (64 * (64 * x + y) + z) + w"
    "x = 0 \<Longrightarrow> 16 \<le> y" "x = 4 \<Longrightarrow> y < 16"
  shows "scalar v"
proof -
  consider "x = 0" | "x = 4" | "1 \<le> x" "x \<le> 3" using assms(1) by linarith
  then show ?thesis using assms unfolding scalar_def by cases auto
qed

lemma continuation_scalar:
  assumes "lead_byte b0 = Some (cp, Suc (length ns))" "continuation b0 1 cp ns = Some v"
    "\<forall>n\<in>set ns. n < 256"
  shows "scalar v"
proof -
  consider (1) "b0 < 0x80" "cp = b0" "ns = []"
    | (2) c where "b0 < 0xe0" "cp = b0 mod 32" "ns = [c]"
    | (3) c d where "0xe0 \<le> b0" "b0 < 0xf0" "cp = b0 mod 16" "ns = [c, d]"
    | (4) c d e where "0xf0 \<le> b0" "b0 \<le> 0xf4" "cp = b0 mod 8" "ns = [c, d, e]"
    using assms(1) by (cases rule: list_upto_3 [of ns]) (auto simp: lead_byte_def split: if_splits)
  then show ?thesis
  proof cases
    case 1
    with assms(2) show ?thesis by (simp add: scalar_def)
  next
    case 2
    then have "v = 64 * (b0 mod 32) + c mod 64"
      using assms(2,3) by (simp add: continuation_Some del: continuation.simps(2))
    moreover have "b0 mod 32 < 32" "c mod 64 < 64" by simp_all
    ultimately show ?thesis unfolding scalar_def by linarith
  next
    case 3
    then have v: "v = 64 * (64 * (b0 mod 16) + c mod 64) + d mod 64" and c: "c = 128 + c mod 64"
      and second: "\<not> second_byte_bad b0 c"
      using assms(2,3) by (simp_all add: continuation_Some del: continuation.simps(2))
    have "b0 = 224 + b0 mod 16" "b0 mod 16 < 16" "c mod 64 < 64" "d mod 64 < 64"
      using 3 strip_offset(4) [of "b0 - 224"] by simp_all
    then show ?thesis
      using second c by (intro scalar_three [OF _ _ _ v]) (auto simp: second_byte_bad_def)
  next
    case 4
    then have v: "v = 64 * (64 * (64 * (b0 mod 8) + c mod 64) + d mod 64) + e mod 64"
      and c: "c = 128 + c mod 64" and second: "\<not> second_byte_bad b0 c"
      using assms(2,3) by (simp_all add: continuation_Some del: continuation.simps(2))
    have "b0 = 240 + b0 mod 8" "b0 mod 8 < 8" "c mod 64 < 64" "d mod 64 < 64" "e mod 64 < 64"
      using 4 strip_offset(5) [of "b0 - 240"] by simp_all
    then show ?thesis
      using second c 4(2) by (intro scalar_four [OF _ _ _ _ v]) (auto simp: second_byte_bad_def)
  qed
qed

lemma decode_point_scalar:
  assumes "bytes \<noteq> []"
  shows "scalar (fst (decode_point bytes))"
proof -
  have fallback: "scalar 0xfffd" by (simp add: scalar_def)
  show ?thesis
  proof (cases "lead_byte (unat (hd bytes))")
    case (Some q)
    obtain cp len where q: "q = (cp, len)" by (cases q)
    then have "0 < len" using Some by (auto simp: lead_byte_def split: if_splits)
    define ns where "ns = map unat (take (len - 1) (tl bytes))"
    have "\<forall>n\<in>set ns. n < 256"
      using unat_octet_less by (auto simp: ns_def)
    moreover have "len = Suc (length ns)" if "len \<le> length bytes"
      using that \<open>0 < len\<close> by (auto simp: ns_def min_def)
    ultimately have "scalar v" if "len \<le> length bytes"
      "continuation (unat (hd bytes)) 1 cp (map unat (take (len - 1) (tl bytes))) = Some v" for v
      using that Some q continuation_scalar [of "unat (hd bytes)" cp ns v] unfolding ns_def by metis
    with Some q fallback show ?thesis
      by (auto simp: decode_point_def Let_def split: option.split)
  qed (simp add: decode_point_def fallback)
qed

section \<open>Strings\<close>

text \<open>A string without lone surrogates.\<close>

fun well_formed :: "code_unit list \<Rightarrow> bool" where
  "well_formed [] = True"
| "well_formed [u] = (\<not> is_lead u \<and> \<not> is_trail u)"
| "well_formed (u # v # us) =
     (if is_lead u then is_trail v \<and> well_formed us else \<not> is_trail u \<and> well_formed (v # us))"

lemma surrogate_range:
  "is_lead u \<longleftrightarrow> 0xd800 \<le> unat u \<and> unat u < 0xdc00"
  "is_trail u \<longleftrightarrow> 0xdc00 \<le> unat u \<and> unat u < 0xe000"
  by (simp_all add: is_lead_def is_trail_def word_le_nat_alt word_less_nat_alt)

lemma unit_less: "unat (u :: code_unit) < 0x10000"
  using unsigned_less [of u] by simp

lemma unit_not_wide [simp]: "\<not> 0xffff < unat (u :: code_unit)"
  using unit_less [of u] by simp

lemma fromCodePoint_unit: "fromCodePoint (unat (u :: code_unit)) = [u]"
  using unit_less [of u] by (simp add: fromCodePoint_def)

lemma fromCodePoint_pair:
  assumes "is_lead u" "is_trail v"
  shows "fromCodePoint (0x10000 + (unat u - 0xd800) * 0x400 + (unat v - 0xdc00)) = [u, v]"
proof -
  define q where "q = (unat u - 0xd800) * 0x400 + (unat v - 0xdc00)"
  have bounds: "unat v - 0xdc00 < 0x400" "0xd800 \<le> unat u" "0xdc00 \<le> unat v"
    using assms by (auto simp: surrogate_range)
  then have "q div 0x400 = unat u - 0xd800" "q mod 0x400 = unat v - 0xdc00"
    by (simp_all only: q_def div_mult_self3 mod_mult_self3 div_less mod_less add_0_right)
  then have units: "0xd800 + q div 0x400 = unat u" "0xdc00 + q mod 0x400 = unat v"
    using bounds by simp_all
  have "fromCodePoint (0x10000 + q) = [of_nat (0xd800 + q div 0x400), of_nat (0xdc00 + q mod 0x400)]"
    by (simp add: fromCodePoint_def)
  then show ?thesis
    unfolding units by (simp add: q_def add.assoc)
qed

text \<open>A well formed string starts with a scalar value, and its first units are those of it.\<close>

lemma well_formed_head:
  assumes "well_formed (u # us)"
  shows "scalar (point_at (u # us))"
    and "fromCodePoint (point_at (u # us)) = take (units_of (point_at (u # us))) (u # us)"
    and "well_formed (drop (units_of (point_at (u # us))) (u # us))"
proof -
  show "scalar (point_at (u # us))"
    using assms unit_less [of u]
    by (cases us) (auto simp: point_at_def scalar_def surrogate_range split: if_splits)
  show "well_formed (drop (units_of (point_at (u # us))) (u # us))"
    using assms unit_less [of u]
    by (cases us) (auto simp: point_at_def units_of_def split: if_splits)
  show "fromCodePoint (point_at (u # us)) = take (units_of (point_at (u # us))) (u # us)"
    using assms unit_less [of u]
    by (cases us) (auto simp: point_at_def units_of_def fromCodePoint_pair fromCodePoint_unit split: if_splits)
qed

lemma encode_point_nonempty: "encode_point cp \<noteq> []"
  by (simp add: encode_point_def push_def)

lemma decode_encoded:
  assumes "scalar cp"
  shows "decode_points (encode_point cp @ rest) = cp # decode_points rest"
proof -
  obtain b bs where "encode_point cp @ rest = b # bs"
    using encode_point_nonempty [of cp] by (cases "encode_point cp @ rest") auto
  then show ?thesis
    using decode_encode_point [OF assms, of rest] by (simp flip: append_eq_conv_conj) (metis append_eq_conv_conj fst_conv snd_conv)
qed

lemma decode_encode_points:
  "well_formed s \<Longrightarrow> concat (map fromCodePoint (decode_points (utf8Encode s))) = s"
proof (induction s rule: utf8Encode.induct)
  case (2 u us)
  note head = well_formed_head [OF 2(2)]
  show ?case
    using 2(1) [OF head(3)] head(2) by (simp add: decode_encoded [OF head(1)] append_take_drop_id)
qed simp

text \<open>What is decoded has no lone surrogate.\<close>

lemma well_formed_append_point:
  assumes "scalar cp" "well_formed us"
  shows "well_formed (fromCodePoint cp @ us)"
proof (cases "cp > 0xffff")
  case True
  define q where "q = cp - 0x10000"
  have "q div 0x400 < 0x400" using assms(1) True by (auto simp: q_def scalar_def)
  then have "is_lead (of_nat (0xd800 + q div 0x400))" "is_trail (of_nat (0xdc00 + q mod 0x400))"
    by (simp_all add: surrogate_range unat_of_nat del: of_nat_add)
  then show ?thesis
    using True assms(2) by (simp add: fromCodePoint_def q_def)
next
  case False
  then have "\<not> is_lead (of_nat cp)" "\<not> is_trail (of_nat cp)"
    using assms(1) by (auto simp: surrogate_range unat_of_nat scalar_def)
  then show ?thesis
    using False assms(2) by (cases us) (auto simp: fromCodePoint_def)
qed

lemma decoded_well_formed: "well_formed (concat (map fromCodePoint (decode_points bytes)))"
  by (induction bytes rule: decode_points.induct)
    (simp_all add: well_formed_append_point decode_point_scalar)

lemma utf8_count_add: "utf8_count n s = n + length (utf8Encode s)"
  by (induction n s rule: utf8_count.induct) (auto simp: encode_point_def point_bytes_def push_def)

text \<open>The first byte tells the length of an encoded code point, and its digits the rest, so an
  encoding can be read in one way only, lone surrogates included.\<close>

lemma unat_push: "\<forall>n\<in>set ns. n < 256 \<Longrightarrow> map unat (push ns) = ns"
  by (simp add: push_def map_idI)

lemma unat_encode_point:
  "cp < 0x80 \<Longrightarrow> map unat (encode_point cp) = [cp]"
  "0x80 \<le> cp \<Longrightarrow> cp < 0x800 \<Longrightarrow> map unat (encode_point cp) = [0xc0 + cp div 64, 0x80 + cp mod 64]"
  "0x800 \<le> cp \<Longrightarrow> cp < 0x10000 \<Longrightarrow>
     map unat (encode_point cp) = [0xe0 + cp div 4096, 0x80 + cp div 64 mod 64, 0x80 + cp mod 64]"
  "0x10000 \<le> cp \<Longrightarrow> cp < 0x110000 \<Longrightarrow>
     map unat (encode_point cp) =
       [0xf0 + cp div 262144, 0x80 + cp div 4096 mod 64, 0x80 + cp div 64 mod 64, 0x80 + cp mod 64]"
  using digits(4-6) [of cp] by (auto simp only: encode_point_bytes intro!: unat_push) auto

lemma encode_point_prefix:
  assumes "cp < 0x110000" "dp < 0x110000" "encode_point cp @ r = encode_point dp @ t"
  shows "cp = dp \<and> r = t"
proof -
  have eq: "map unat (encode_point cp) @ map unat r = map unat (encode_point dp) @ map unat t"
    using assms(3) by (simp flip: map_append)
  have inj: "map unat r = map unat t \<Longrightarrow> r = t"
    by (metis inj_onI inj_map_eq_map word_unat_eq_iff)
  have range: "x < 0x80 \<or> (0x80 \<le> x \<and> x < 0x800) \<or> (0x800 \<le> x \<and> x < 0x10000) \<or> 0x10000 \<le> x" for x :: nat
    by linarith
  have small: "x < 0x800 \<Longrightarrow> x div 64 < 32" "x < 0x10000 \<Longrightarrow> x div 4096 < 16" for x :: nat
    by auto
  show ?thesis
    using range [of cp] range [of dp] eq small(1) [of cp] small(1) [of dp] small(2) [of cp] small(2) [of dp] assms(1,2) inj
      digits(1-3) [of cp] digits(1-3) [of dp]
    by (elim disjE conjE) (auto simp: unat_encode_point)
qed

lemma pair_less:
  assumes "is_lead u" "is_trail v"
  shows "0x10000 + (unat u - 0xd800) * 0x400 + (unat v - 0xdc00) < 0x110000"
  using assms unfolding surrogate_range by linarith

lemma point_at_less: "point_at s < 0x110000"
  by (cases s rule: codePointAt.cases)
    (auto simp: point_at_def pair_less intro: less_trans [OF unit_less])

lemma point_at_is: "s \<noteq> [] \<Longrightarrow> fromCodePoint (point_at s) @ drop (units_of (point_at s)) s = s"
  by (cases s rule: codePointAt.cases)
    (auto simp: point_at_def units_of_def fromCodePoint_pair fromCodePoint_unit)

lemma point_at_units:
  assumes "s \<noteq> []" "t \<noteq> []" "point_at s = point_at t"
    "drop (units_of (point_at s)) s = drop (units_of (point_at t)) t"
  shows "s = t"
  using assms point_at_is by metis

lemma utf8Encode_injective: "utf8Encode s = utf8Encode t \<Longrightarrow> s = t"
proof (induction s arbitrary: t rule: utf8Encode.induct)
  case 1
  then show ?case by (cases t) (simp_all add: encode_point_nonempty)
next
  case (2 u us)
  then obtain v vs where t: "t = v # vs"
    by (cases t) (auto simp: encode_point_nonempty)
  have heads: "point_at (u # us) = point_at t \<and>
    utf8Encode (drop (units_of (point_at (u # us))) (u # us)) = utf8Encode (drop (units_of (point_at t)) t)"
    using 2(2) point_at_less by (intro encode_point_prefix) (simp_all add: t)
  with 2(1) have "drop (units_of (point_at (u # us))) (u # us) = drop (units_of (point_at t)) t"
    by blast
  then show ?case
    using point_at_units [of "u # us" t] heads t by blast
qed

text \<open>The strict UTF-8 form of a string reads back: an instance of the codec interface.\<close>

interpretation utf8: codec utf8Encode "\<lambda>bytes. Some (utf8Decode bytes)" well_formed
  by unfold_locales (simp add: utf8Decode_def decode_encode_points)

section \<open>The codec\<close>

text \<open>C31: The UTF-8 codec round-trips: decoding the encoding of a string without lone surrogates
  gives it back; decoding never fails, and gives a string without lone surrogates whatever the
  bytes; two strings encode equally only when they are equal, lone surrogates included; and the
  byte length is that of the encoding.\<close>

theorem utf8_roundtrip:
  assumes "well_formed s"
  shows "utf8Decode (utf8Encode s) = s \<and> well_formed (utf8Decode bytes) \<and>
    (utf8Encode t = utf8Encode t' \<longleftrightarrow> t = t') \<and> utf8ByteLength t = length (utf8Encode t)"
  using assms utf8.dec_enc [OF assms] decoded_well_formed utf8Encode_injective
  by (auto simp: utf8Decode_def utf8ByteLength_def utf8_count_add)

text \<open>One unit of each width, and bytes that are no UTF-8: a stray continuation, an overlong
  form, an encoded surrogate, a cut sequence.\<close>

lemma utf8_roundtrip_witness:
  "well_formed [0x61, 0xe9, 0x20ac, 0xd83d, 0xde00] \<and>
   utf8Encode [0x61, 0xe9, 0x20ac, 0xd83d, 0xde00] =
     [0x61, 0xc3, 0xa9, 0xe2, 0x82, 0xac, 0xf0, 0x9f, 0x98, 0x80] \<and>
   utf8Decode (utf8Encode [0x61, 0xe9, 0x20ac, 0xd83d, 0xde00]) = [0x61, 0xe9, 0x20ac, 0xd83d, 0xde00] \<and>
   utf8Decode [0x80, 0xc0, 0xaf, 0xed, 0xa0, 0x80, 0xe2, 0x82] = [0xfffd, 0xfffd, 0xfffd, 0xfffd, 0xfffd, 0xfffd, 0xfffd, 0xfffd]"
proof -
  have w: "well_formed [0x61, 0xe9, 0x20ac, 0xd83d, 0xde00]"
    by (simp add: is_lead_def is_trail_def)
  moreover have "utf8Encode [0x61, 0xe9, 0x20ac, 0xd83d, 0xde00] =
     [0x61, 0xc3, 0xa9, 0xe2, 0x82, 0xac, 0xf0, 0x9f, 0x98, 0x80]"
    by (simp add: point_at_def units_of_def encode_point_def push_def is_lead_def is_trail_def)
  moreover have "utf8Decode [0x80, 0xc0, 0xaf, 0xed, 0xa0, 0x80, 0xe2, 0x82] = [0xfffd, 0xfffd, 0xfffd, 0xfffd, 0xfffd, 0xfffd, 0xfffd, 0xfffd]"
    by (simp add: utf8Decode_def decode_point_def lead_byte_def second_byte_bad_def fromCodePoint_def)
  ultimately show ?thesis
    using utf8_roundtrip [OF w] by simp
qed

end
