(* ===== verification/Retry.thy ===== *)
theory Retry
  imports Errors Doubles
begin

text \<open>
  The bounded retry of port calls of \<open>packages/application/src/retry.ts\<close>. The caller's world is a
  parameter: \<open>retryPorts\<close> says what the signal, the clock and the deadline read in a state, how a
  call ends against the watchdog of its deadline, and how a sleep ends. A run returns, beside its
  outcome, the calls and sleeps it made, which the properties speak of. The race of a call with
  its watchdog is one answer (\<open>attemptEnd\<close>): the scheduling of the two promises is not modelled.
\<close>

section \<open>The interface\<close>

text \<open>A failure carries the waiting time the server asked for, any number or none.\<close>

datatype 'a answer = Answer 'a | Refusal appError "jsnum option"

datatype ('a, 'e) attemptEnd =
    CallSettled "'a answer"
  | CallThrew 'e
  | DeadlineHit
  | WatchdogFailed appError

record ('w, 'a, 'e) retryPorts =
  rt_cancelled :: "'w \<Rightarrow> bool"
  rt_deadlineMs :: "'w \<Rightarrow> jsnum"
  rt_clock :: "'w \<Rightarrow> jsnum option"
  rt_call :: "nat \<Rightarrow> 'w \<Rightarrow> ('a, 'e) attemptEnd \<times> 'w"
  rt_sleep :: "jsnum \<Rightarrow> 'w \<Rightarrow> unit result \<times> 'w"

record retryOptions =
  ro_maxAttempts :: "jsnum option"
  ro_baseBackoffMs :: "jsnum option"

datatype ('a, 'e) retryOutcome = Settled "'a answer" | Rethrown 'e

text \<open>What a run does to the world: a call with its number and remaining budget, a sleep with the
  failure it follows, the wait, and the budget left before it.\<close>

datatype retryEvent =
    Called nat jsnum
  | Slept appError "jsnum option" jsnum jsnum

section \<open>Options and times\<close>

definition timeoutError :: appError where
  "timeoutError = appError TimedOut ''operation deadline exceeded'' None"

definition internalError :: appError where
  "internalError = appError Internal ''an internal error occurred'' None"

abbreviation refused :: "appError \<Rightarrow> ('a, 'e) retryOutcome" where
  "refused e \<equiv> Settled (Refusal e None)"

definition DEFAULT_MAX_ATTEMPTS :: nat where "DEFAULT_MAX_ATTEMPTS = 2"
definition DEFAULT_BACKOFF_MS :: rat where "DEFAULT_BACKOFF_MS = 300"
definition MAX_BACKOFF_MS :: rat where "MAX_BACKOFF_MS = 5000"

definition max_attempts :: "retryOptions \<Rightarrow> nat" where
  "max_attempts opts =
     (case ro_maxAttempts opts of
        Some (Fin q) \<Rightarrow> if 1 \<le> q then nat \<lfloor>q\<rfloor> else DEFAULT_MAX_ATTEMPTS
      | _ \<Rightarrow> DEFAULT_MAX_ATTEMPTS)"

definition base_backoff :: "retryOptions \<Rightarrow> rat" where
  "base_backoff opts =
     (case ro_baseBackoffMs opts of
        Some (Fin q) \<Rightarrow> if 0 \<le> q then q else DEFAULT_BACKOFF_MS
      | _ \<Rightarrow> DEFAULT_BACKOFF_MS)"

text \<open>The checked clock, \<open>undefined\<close> when it throws or answers an unsafe value.\<close>

definition nowMs :: "('w, 'a, 'e) retryPorts \<Rightarrow> 'w \<Rightarrow> jsnum option" where
  "nowMs rp w =
     (case rt_clock rp w of
        None \<Rightarrow> None
      | Some n \<Rightarrow> if safe_nat n \<noteq> None then Some n else None)"

definition pow2 :: "nat \<Rightarrow> jsnum" where
  "pow2 n = to_double (2 ^ n)"

definition backoff_of :: "retryOptions \<Rightarrow> nat \<Rightarrow> jsnum" where
  "backoff_of opts attempt =
     js_min (js_mul (Fin (base_backoff opts)) (pow2 (attempt - 1))) (Fin MAX_BACKOFF_MS)"

fun retry_floor :: "jsnum option \<Rightarrow> jsnum" where
  "retry_floor None = Fin 0"
| "retry_floor (Some (Fin q)) = js_max (Fin 0) (Fin q)"
| "retry_floor (Some _) = PosInf"

definition wait_of :: "retryOptions \<Rightarrow> nat \<Rightarrow> jsnum option \<Rightarrow> jsnum" where
  "wait_of opts attempt asked = js_max (retry_floor asked) (backoff_of opts attempt)"

section \<open>The loop\<close>

text \<open>After a failed attempt: either the outcome, or the wait and the budget it was held against.\<close>

definition after_failure ::
  "('w, 'a, 'e) retryPorts \<Rightarrow> retryOptions \<Rightarrow> nat \<Rightarrow> appError \<Rightarrow> jsnum option \<Rightarrow> 'w \<Rightarrow>
   ('a, 'e) retryOutcome + jsnum \<times> jsnum" where
  "after_failure rp opts attempt e asked w =
     (if \<not> ae_retryable e \<or> isBotCheckWall e \<or> max_attempts opts \<le> attempt
      then Inl (Settled (Refusal e asked))
      else case nowMs rp w of
             None \<Rightarrow> Inl (refused internalError)
           | Some now2 \<Rightarrow>
               let budgetLeft = js_sub (rt_deadlineMs rp w) now2; wait = wait_of opts attempt asked
               in if js_le budgetLeft (Fin 0) then Inl (Settled (Refusal e asked))
                  else if js_le budgetLeft wait then Inl (Settled (Refusal e asked))
                  else Inr (wait, budgetLeft))"

text \<open>The outcome of a sleep that did not run its course.\<close>

definition after_sleep :: "appError \<Rightarrow> appError \<Rightarrow> jsnum option \<Rightarrow> ('a, 'e) retryOutcome" where
  "after_sleep slept e asked =
     (if ae_kind slept = Cancelled \<or> ae_kind slept = Internal then refused slept
      else Settled (Refusal e asked))"

text \<open>What stands before an attempt: cancellation, a broken clock, a dead deadline.\<close>

definition before_attempt ::
  "('w, 'a, 'e) retryPorts \<Rightarrow> nat \<Rightarrow> 'a answer \<Rightarrow> 'w \<Rightarrow> ('a, 'e) retryOutcome + jsnum" where
  "before_attempt rp attempt lastError w =
     (if rt_cancelled rp w then Inl (refused cancelledError)
      else case nowMs rp w of
             None \<Rightarrow> Inl (refused internalError)
           | Some now \<Rightarrow>
               let remaining = js_sub (rt_deadlineMs rp w) now
               in if js_le remaining (Fin 0)
                  then Inl (if 1 < attempt then Settled lastError else refused timeoutError)
                  else Inr remaining)"

lemma after_failure_attempts:
  "after_failure rp opts attempt e asked w = Inr p \<Longrightarrow> attempt < max_attempts opts"
  by (auto simp: after_failure_def split: if_splits)

function retry_loop ::
  "('w, 'a, 'e) retryPorts \<Rightarrow> retryOptions \<Rightarrow> nat \<Rightarrow> 'a answer \<Rightarrow> 'w \<Rightarrow>
   ('a, 'e) retryOutcome \<times> retryEvent list \<times> 'w" where
  "retry_loop rp opts attempt lastError w =
     (case before_attempt rp attempt lastError w of
        Inl out \<Rightarrow> (out, [], w)
      | Inr remaining \<Rightarrow>
          (case rt_call rp attempt w of
             (CallThrew x, w1) \<Rightarrow> (Rethrown x, [Called attempt remaining], w1)
           | (DeadlineHit, w1) \<Rightarrow> (refused timeoutError, [Called attempt remaining], w1)
           | (WatchdogFailed e, w1) \<Rightarrow> (refused e, [Called attempt remaining], w1)
           | (CallSettled (Answer v), w1) \<Rightarrow> (Settled (Answer v), [Called attempt remaining], w1)
           | (CallSettled (Refusal e asked), w1) \<Rightarrow>
               (case after_failure rp opts attempt e asked w1 of
                  Inl out \<Rightarrow> (out, [Called attempt remaining], w1)
                | Inr (wait, budgetLeft) \<Rightarrow>
                    (case rt_sleep rp wait w1 of
                       (Inl slept, w2) \<Rightarrow>
                         (after_sleep slept e asked,
                          [Called attempt remaining, Slept e asked wait budgetLeft], w2)
                     | (Inr _, w2) \<Rightarrow>
                         (let (out, evs, w') = retry_loop rp opts (attempt + 1) (Refusal e asked) w2
                          in (out, Called attempt remaining # Slept e asked wait budgetLeft # evs, w'))))))"
  by pat_completeness auto
termination
  by (relation "measure (\<lambda>(rp, opts, attempt, lastError, w). max_attempts opts - attempt)")
    (auto dest: after_failure_attempts)

declare retry_loop.simps [simp del]

definition retryBounded ::
  "('w, 'a, 'e) retryPorts \<Rightarrow> retryOptions \<Rightarrow> 'w \<Rightarrow> ('a, 'e) retryOutcome \<times> retryEvent list \<times> 'w" where
  "retryBounded rp opts w =
     (case rt_deadlineMs rp w of
        Fin _ \<Rightarrow> retry_loop rp opts 1 (Refusal timeoutError None) w
      | _ \<Rightarrow> (refused internalError, [], w))"

section \<open>Bounds\<close>

fun attempts :: "retryEvent list \<Rightarrow> nat list" where
  "attempts [] = []"
| "attempts (Called k remaining # evs) = k # attempts evs"
| "attempts (Slept e asked wait budgetLeft # evs) = attempts evs"

text \<open>A zero base is accepted, and from the 1025th failure on its product with the infinite power is
  no number: the wait is then neither capped nor compared with the budget.\<close>

definition wait_lost :: "retryOptions \<Rightarrow> nat \<Rightarrow> bool" where
  "wait_lost opts failed = (base_backoff opts = 0 \<and> 1025 \<le> failed)"

text \<open>An event in its place, after the attempt \<open>failed\<close>: a call starts with time left; a sleep follows
  a retryable failure other than a wall, and waits at least what the server asked for, no more than
  that or the cap, and ends before the deadline, unless the wait was lost.\<close>

fun in_budget :: "retryOptions \<Rightarrow> nat \<Rightarrow> retryEvent \<Rightarrow> bool" where
  "in_budget opts failed (Called k remaining) = (\<not> js_le remaining (Fin 0))"
| "in_budget opts failed (Slept e asked wait budgetLeft) =
     (ae_retryable e \<and> \<not> isBotCheckWall e \<and>
      (if wait_lost opts failed then wait = NaN
       else js_le (retry_floor asked) wait \<and> js_le wait (js_max (retry_floor asked) (Fin MAX_BACKOFF_MS)) \<and>
         \<not> js_le budgetLeft wait))"

fun paced :: "retryOptions \<Rightarrow> nat \<Rightarrow> retryEvent list \<Rightarrow> bool" where
  "paced opts failed [] = True"
| "paced opts failed (ev # evs) =
     (in_budget opts failed ev \<and> paced opts (case ev of Called k _ \<Rightarrow> k | Slept _ _ _ _ \<Rightarrow> failed) evs)"

lemma base_backoff_nonneg: "0 \<le> base_backoff opts"
  by (auto simp: base_backoff_def DEFAULT_BACKOFF_MS_def split: option.splits jsnum.splits)

lemma max_attempts_pos: "1 \<le> max_attempts opts"
  by (auto simp: max_attempts_def DEFAULT_MAX_ATTEMPTS_def le_nat_iff le_floor_iff
      split: option.splits jsnum.splits)

lemma retry_floor_number [simp]: "retry_floor asked \<noteq> NaN"
  by (cases asked rule: retry_floor.cases) auto

lemma pow2_number: "(\<exists>r. pow2 n = Fin r) \<or> (pow2 n = PosInf \<and> 1024 \<le> n)"
proof -
  have "0 \<le> rnd (2 ^ n :: rat)" using rnd_mono [of 0 "2 ^ n"] by simp
  moreover have "- (2 ^ 1024) < (0 :: rat)" by simp
  ultimately have "\<not> rnd (2 ^ n :: rat) \<le> - (2 ^ 1024)" by linarith
  then have "pow2 n = PosInf \<or> (\<exists>r. pow2 n = Fin r)"
    by (auto simp: pow2_def to_double_def Let_def)
  then show ?thesis using to_double_pow [of n] by (cases "n < 1024") (auto simp: pow2_def)
qed

lemma backoff_number:
  assumes "\<not> wait_lost opts attempt"
  shows "backoff_of opts attempt \<noteq> NaN"
  using pow2_number [of "attempt - 1"] assms base_backoff_nonneg [of opts]
  by (auto simp: backoff_of_def inf_times_def wait_lost_def)

lemma pow2_infinite:
  assumes "1024 \<le> n"
  shows "pow2 n = PosInf"
proof -
  have "rnd (2 ^ 1024 :: rat) = 2 ^ 1024"
    using rnd_pos_exact [of 1 1024] by (simp add: rnd_def)
  moreover have "(2 :: rat) ^ 1024 \<le> 2 ^ n" using assms by (intro power_increasing) simp_all
  ultimately have "(2 :: rat) ^ 1024 \<le> rnd (2 ^ n)" using rnd_mono [of "2 ^ 1024" "2 ^ n"] by simp
  then show ?thesis by (simp add: pow2_def to_double_def)
qed

lemma lost_wait: "wait_lost opts attempt \<Longrightarrow> wait_of opts attempt asked = NaN"
  using pow2_infinite [of "attempt - 1"]
  by (auto simp: wait_lost_def wait_of_def backoff_of_def inf_times_def)

lemma js_max_mono: "js_le b c \<Longrightarrow> a \<noteq> NaN \<Longrightarrow> js_le (js_max a b) (js_max a c)"
  by (cases a; cases b; cases c) (auto simp: js_max_def js_le_def num_eq_def)

lemma js_min_le: "js_min a b \<noteq> NaN \<Longrightarrow> js_le (js_min a b) b"
  by (cases a; cases b) (auto simp: js_min_def js_le_def num_eq_def split: if_splits)

lemma wait_in_budget:
  assumes "after_failure rp opts attempt e asked w = Inr (wait, budgetLeft)"
  shows "in_budget opts attempt (Slept e asked wait budgetLeft)"
proof -
  have wait: "wait = wait_of opts attempt asked" "ae_retryable e" "\<not> isBotCheckWall e" "\<not> js_le budgetLeft wait"
    using assms by (auto simp: after_failure_def Let_def split: if_splits option.splits)
  show ?thesis
  proof (cases "wait_lost opts attempt")
    case True
    then show ?thesis using wait lost_wait by simp
  next
    case False
    then have "js_le (backoff_of opts attempt) (Fin MAX_BACKOFF_MS)"
      using backoff_number js_min_le unfolding backoff_of_def by blast
    then show ?thesis
      using False wait backoff_number [OF False] js_max_ge [of "retry_floor asked" "backoff_of opts attempt"] js_max_mono
      by (simp add: wait_of_def)
  qed
qed

lemma loop_bounded:
  assumes "retry_loop rp opts attempt lastError w = (out, evs, w')" "attempt \<le> max_attempts opts"
  shows "attempts evs = [attempt ..< attempt + length (attempts evs)] \<and>
    attempt + length (attempts evs) \<le> Suc (max_attempts opts) \<and> paced opts (attempt - 1) evs"
  using assms
proof (induction rp opts attempt lastError w arbitrary: out evs w' rule: retry_loop.induct)
  case (1 rp opts attempt lastError w)
  show ?case
  proof (cases "before_attempt rp attempt lastError w")
    case (Inl o1)
    with 1(2,3) show ?thesis by (simp add: retry_loop.simps [of rp opts attempt])
  next
    case (Inr remaining)
    then have called: "in_budget opts (attempt - 1) (Called attempt remaining)"
      by (auto simp: before_attempt_def Let_def split: if_splits option.splits)
    obtain res w1 where call: "rt_call rp attempt w = (res, w1)" by fastforce
    note loop = 1(2) [unfolded retry_loop.simps [of rp opts attempt] Inr call]
    show ?thesis
    proof (cases "\<exists>e asked wait budgetLeft. res = CallSettled (Refusal e asked) \<and>
        after_failure rp opts attempt e asked w1 = Inr (wait, budgetLeft)")
      case False
      with loop called 1(3) show ?thesis
        by (auto split: attemptEnd.splits answer.splits sum.splits)
    next
      case True
      then obtain e asked wait budgetLeft where res: "res = CallSettled (Refusal e asked)"
        and retry: "after_failure rp opts attempt e asked w1 = Inr (wait, budgetLeft)" by blast
      obtain nap w2 where sleep: "rt_sleep rp wait w1 = (nap, w2)" by fastforce
      obtain out2 evs2 w3 where rest: "retry_loop rp opts (attempt + 1) (Refusal e asked) w2 = (out2, evs2, w3)"
        by (cases "retry_loop rp opts (attempt + 1) (Refusal e asked) w2") auto
      have slept: "in_budget opts attempt (Slept e asked wait budgetLeft)"
        using retry by (rule wait_in_budget)
      have more: "attempt + 1 \<le> max_attempts opts"
        using after_failure_attempts [OF retry] by simp
      show ?thesis
      proof (cases nap)
        case (Inl x)
        with loop res retry sleep called slept 1(3) show ?thesis
          by (auto simp del: in_budget.simps)
      next
        case (Inr u)
        have "attempts evs2 = [attempt + 1 ..< attempt + 1 + length (attempts evs2)] \<and>
          attempt + 1 + length (attempts evs2) \<le> Suc (max_attempts opts) \<and> paced opts (attempt + 1 - 1) evs2"
          using 1(1) [OF \<open>before_attempt rp attempt lastError w = Inr remaining\<close> call [symmetric] res refl retry refl
              sleep [symmetric] Inr rest more] .
        moreover have "evs = Called attempt remaining # Slept e asked wait budgetLeft # evs2"
          using loop res retry sleep Inr rest by simp
        ultimately show ?thesis
          using called slept by (simp add: upt_conv_Cons del: upt_Suc in_budget.simps)
      qed
    qed
  qed
qed

section \<open>Persistence\<close>

lemma loop_persists:
  assumes time: "\<forall>w k le. \<exists>r. before_attempt rp k le w = Inr r"
    and naps: "\<forall>w wait. \<exists>w'. rt_sleep rp wait w = (Inr (), w')"
    and fails: "\<forall>w k. k < n \<longrightarrow> (\<exists>e asked w' wait budgetLeft.
      rt_call rp k w = (CallSettled (Refusal e asked), w') \<and>
      after_failure rp opts k e asked w' = Inr (wait, budgetLeft))"
    and works: "\<forall>w. \<exists>w'. rt_call rp n w = (CallSettled (Answer v), w')"
    and "attempt \<le> n"
  shows "\<exists>evs w'. retry_loop rp opts attempt le w = (Settled (Answer v), evs, w') \<and>
    attempts evs = [attempt ..< Suc n]"
  using \<open>attempt \<le> n\<close>
proof (induction "n - attempt" arbitrary: attempt le w)
  case 0
  then have [simp]: "attempt = n" by simp
  obtain r where "before_attempt rp n le w = Inr r" using time by blast
  moreover obtain w' where "rt_call rp n w = (CallSettled (Answer v), w')" using works by blast
  ultimately show ?case by (simp add: retry_loop.simps)
next
  case (Suc m)
  then have less: "attempt < n" by simp
  obtain r where before: "before_attempt rp attempt le w = Inr r" using time by blast
  obtain e asked w1 wait budgetLeft
    where call: "rt_call rp attempt w = (CallSettled (Refusal e asked), w1)"
      and retry: "after_failure rp opts attempt e asked w1 = Inr (wait, budgetLeft)"
    using fails less by blast
  obtain w2 where sleep: "rt_sleep rp wait w1 = (Inr (), w2)" using naps by blast
  have "\<exists>evs w'. retry_loop rp opts (attempt + 1) (Refusal e asked) w2 = (Settled (Answer v), evs, w') \<and>
    attempts evs = [attempt + 1 ..< Suc n]"
    using Suc.hyps(2) less by (intro Suc.hyps(1)) auto
  then obtain evs w' where "retry_loop rp opts (attempt + 1) (Refusal e asked) w2 = (Settled (Answer v), evs, w')"
    "attempts evs = [attempt + 1 ..< Suc n]" by blast
  with before call retry sleep less show ?case
    by (subst retry_loop.simps) (simp add: upt_conv_Cons del: upt_Suc)
qed

section \<open>The properties\<close>

text \<open>C32: A bounded retry makes the attempts 1, 2, ... in order, never more than allowed; every call
  starts with budget left; it sleeps only after a retryable failure that is no provider wall, at
  least as long as the server asked for, otherwise no longer than the capped backoff, and never
  into the deadline. The exception: with a base backoff of 0, from the 1025th failed attempt on the
  wait is NaN, and bounded by nothing.\<close>

theorem retry_bounded:
  assumes "retryBounded rp opts w = (out, evs, w')"
  shows "attempts evs = [1 ..< Suc (length (attempts evs))] \<and>
    length (attempts evs) \<le> max_attempts opts \<and> paced opts 0 evs"
  using assms loop_bounded [of rp opts 1 _ w out evs w'] max_attempts_pos [of opts]
  by (auto simp: retryBounded_def split: jsnum.splits)

text \<open>A retry persists: when the deadline leaves room, the sleeps run their course and each
  attempt before the n-th fails in a way that leaves a retry, the run makes exactly the attempts 1 to n and
  returns the answer of the n-th.\<close>

theorem retry_persists:
  assumes "1 \<le> n" "rt_deadlineMs rp w = Fin d"
    "\<forall>w k le. \<exists>r. before_attempt rp k le w = Inr r"
    "\<forall>w wait. \<exists>w'. rt_sleep rp wait w = (Inr (), w')"
    "\<forall>w k. k < n \<longrightarrow> (\<exists>e asked w' wait budgetLeft.
      rt_call rp k w = (CallSettled (Refusal e asked), w') \<and>
      after_failure rp opts k e asked w' = Inr (wait, budgetLeft))"
    "\<forall>w. \<exists>w'. rt_call rp n w = (CallSettled (Answer v), w')"
  shows "\<exists>evs w'. retryBounded rp opts w = (Settled (Answer v), evs, w') \<and> attempts evs = [1 ..< Suc n]"
  using loop_persists [OF assms(3-6,1)] assms(2) by (simp add: retryBounded_def)

text \<open>A server that fails twice, asking for a second, then answers; and one that fails for good.\<close>

definition sample_call :: "nat \<Rightarrow> nat \<Rightarrow> (string, unit) attemptEnd \<times> nat" where
  "sample_call k t =
     (CallSettled (if k < 3 then Refusal (appError Transient ''busy'' None) (Some (Fin 1000)) else Answer ''ok''), t)"

definition sample_ports :: "(nat, string, unit) retryPorts" where
  "sample_ports =
     \<lparr>rt_cancelled = (\<lambda>t. False), rt_deadlineMs = (\<lambda>t. Fin 60000), rt_clock = (\<lambda>t. Some (Fin 10000)),
      rt_call = sample_call, rt_sleep = (\<lambda>wait t. (Inr (), t + 1))\<rparr>"

definition sample_options :: retryOptions where
  "sample_options = \<lparr>ro_maxAttempts = Some (Fin 5), ro_baseBackoffMs = None\<rparr>"

lemma to_double_numeral: "(numeral k :: nat) < 2 ^ 53 \<Longrightarrow> to_double (numeral k) = Fin (numeral k)"
  using to_double_nat [of "numeral k"] by simp

lemma sample_budget: "js_sub (Fin 60000) (Fin 10000) = Fin 50000"
  by (simp add: js_sub_def to_double_numeral)

lemma sample_backoff:
  "backoff_of sample_options k \<noteq> NaN" "js_le (backoff_of sample_options k) (Fin 5000)"
proof -
  show number: "backoff_of sample_options k \<noteq> NaN"
    by (rule backoff_number) (simp add: wait_lost_def sample_options_def base_backoff_def DEFAULT_BACKOFF_MS_def)
  show "js_le (backoff_of sample_options k) (Fin 5000)"
    using js_min_le number unfolding backoff_of_def MAX_BACKOFF_MS_def by blast
qed

lemma sample_now: "nowMs sample_ports t = Some (Fin 10000)"
  using safe_nat_jnat [of 10000] by (simp add: nowMs_def sample_ports_def)

lemma sample_room:
  assumes "k < 3"
  shows "\<exists>wait budgetLeft. after_failure sample_ports sample_options k (appError Transient ''busy'' None)
    (Some (Fin 1000)) t = Inr (wait, budgetLeft)"
proof -
  have "num_less b (Fin 50000)" if "js_le b (Fin 5000)" for b
    using that by (cases b) (auto simp: js_le_def num_eq_def)
  note small = this [OF sample_backoff(2)]
  have "\<not> js_le (Fin 50000) (js_max (Fin 1000) b)" if "num_less b (Fin 50000)" for b
    using that by (auto simp: js_le_cases js_max_def)
  from this [OF small] have "\<not> js_le (Fin 50000) (wait_of sample_options k (Some (Fin 1000)))"
    by (simp add: wait_of_def js_max_def [of "Fin 0"])
  moreover have "\<not> isBotCheckWall (appError Transient ''busy'' None)"
    by (simp add: isBotCheckWall_def appError_def last_segment_def js_trim_def js_space_def)
  moreover have "max_attempts sample_options = 5"
    by (simp add: max_attempts_def sample_options_def)
  moreover have "rt_deadlineMs sample_ports t = Fin 60000"
    by (simp add: sample_ports_def)
  ultimately show ?thesis
    using assms by (simp add: after_failure_def sample_now Let_def appError_def RETRYABLE_def sample_budget
        js_le_def num_eq_def)
qed

lemma sample_start: "\<exists>r. before_attempt sample_ports k le t = Inr r"
  by (simp add: before_attempt_def sample_now sample_budget js_le_def num_eq_def)
    (simp add: sample_ports_def sample_budget)

lemma retry_persists_witness:
  "\<exists>evs w'. retryBounded sample_ports sample_options 0 = (Settled (Answer ''ok''), evs, w') \<and>
     attempts evs = [1, 2, 3]"
proof -
  have "[1 ..< Suc 3] = [1, 2, 3 :: nat]" by (simp add: upt_rec)
  then show ?thesis
    using retry_persists [of 3 sample_ports 0 60000 sample_options "''ok''"] sample_room sample_start
    by (simp add: sample_ports_def sample_call_def)
qed

lemma sample_run:
  obtains evs w' where "retryBounded sample_ports sample_options 0 = (Settled (Answer ''ok''), evs, w')"
  using loop_persists [of sample_ports 3 sample_options "''ok''" 1 "Refusal timeoutError None" 0]
    sample_room sample_start
  by (auto simp: retryBounded_def sample_ports_def sample_call_def)

lemma retry_bounded_witness:
  "length (attempts (fst (snd (retryBounded sample_ports sample_options 0)))) \<le> 5 \<and>
   paced sample_options 0 (fst (snd (retryBounded sample_ports sample_options 0)))"
proof -
  obtain evs w' where run: "retryBounded sample_ports sample_options 0 = (Settled (Answer ''ok''), evs, w')"
    by (rule sample_run)
  have "max_attempts sample_options = 5"
    by (simp add: max_attempts_def sample_options_def)
  with retry_bounded [OF run] show ?thesis by (simp add: run)
qed

end
