(* ===== verification/Ids.thy ===== *)
theory Ids
  imports Decimal
begin

text \<open>
  The id port of \<open>packages/application/src/ports/runtime.ts\<close> as an interface, and the generator
  \<open>createIds\<close> of \<open>packages/application/src/runtime-impls.ts\<close>, whose fallback counts. What the
  platform supplies (the UUID function, the time, the digits of a random fraction) is the
  parameter \<open>idRuntime\<close>.
\<close>

section \<open>The interface\<close>

text \<open>A source of ids never gives one that is in use in its state, and remembers the given ones.\<close>

locale id_source =
  fixes next_id :: "string \<Rightarrow> 's \<Rightarrow> string \<times> 's"
    and used :: "'s \<Rightarrow> string set"
  assumes fresh: "next_id p s = (x, s') \<Longrightarrow> x \<notin> used s \<and> x \<in> used s' \<and> used s \<subseteq> used s'"
begin

fun take_ids :: "string list \<Rightarrow> 's \<Rightarrow> string list \<times> 's" where
  "take_ids [] s = ([], s)"
| "take_ids (p # ps) s = (let (x, s1) = next_id p s; (xs, s2) = take_ids ps s1 in (x # xs, s2))"

lemma take_ids_fresh:
  "take_ids ps s = (xs, s') \<Longrightarrow> distinct xs \<and> set xs \<inter> used s = {} \<and> used s \<union> set xs \<subseteq> used s'"
proof (induction ps arbitrary: s xs s')
  case (Cons p ps)
  obtain x s1 ys where head: "next_id p s = (x, s1)" and rest: "take_ids ps s1 = (ys, s')" and xs: "xs = x # ys"
    using Cons.prems by (auto split: prod.splits)
  show ?case using fresh [OF head] Cons.IH [OF rest] by (auto simp: xs)
qed simp

end

section \<open>Numbers in base 36\<close>

definition digit36 :: "nat \<Rightarrow> char" where
  "digit36 d = (let k = d mod 36 in if k < 10 then char_of (48 + k) else char_of (87 + k))"

function show36 :: "nat \<Rightarrow> string" where
  "show36 n = (if n < 36 then [digit36 n] else show36 (n div 36) @ [digit36 (n mod 36)])"
  by pat_completeness auto
termination by (relation "measure id") auto

declare show36.simps [simp del]

lemma digit36_code: "(of_char (digit36 d) :: nat) = (if d mod 36 < 10 then 48 + d mod 36 else 87 + d mod 36)"
proof -
  have "d mod 36 < 36" by simp
  then show ?thesis by (simp add: digit36_def Let_def)
qed

lemma digit36_inj: "a < 36 \<Longrightarrow> b < 36 \<Longrightarrow> digit36 a = digit36 b \<longleftrightarrow> a = b"
proof
  assume small: "a < 36" "b < 36" and "digit36 a = digit36 b"
  then have "(of_char (digit36 a) :: nat) = of_char (digit36 b)" by simp
  then show "a = b" using small by (simp only: digit36_code mod_less split: if_splits)
qed simp

lemma digit36_no_dash: "digit36 d \<noteq> CHR ''-''"
  using digit36_code [of d] by (auto split: if_splits)

lemma show36_no_dash: "CHR ''-'' \<notin> set (show36 n)"
proof (induction n rule: show36.induct)
  case (1 n)
  then show ?case
    using digit36_no_dash [of n] digit36_no_dash [of "n mod 36"] by (simp add: show36.simps [of n])
qed

lemma show36_nonempty [simp]: "show36 n \<noteq> []"
  by (subst show36.simps) simp

lemma show36_inj: "show36 m = show36 n \<longleftrightarrow> m = n"
proof (induction m arbitrary: n rule: show36.induct)
  case (1 m)
  show ?case
  proof (cases "m < 36"; cases "n < 36")
    assume m: "m < 36" and n: "n < 36"
    then show ?thesis by (simp add: show36.simps [of m] show36.simps [of n] digit36_inj)
  next
    assume m: "m < 36" and n: "\<not> n < 36"
    then show ?thesis using show36_nonempty [of "n div 36"]
      by (auto simp: show36.simps [of m] show36.simps [of n] simp del: show36_nonempty)
  next
    assume m: "\<not> m < 36" and n: "n < 36"
    then show ?thesis using show36_nonempty [of "m div 36"]
      by (auto simp: show36.simps [of m] show36.simps [of n] simp del: show36_nonempty)
  next
    assume m: "\<not> m < 36" and n: "\<not> n < 36"
    have "show36 m = show36 n \<longleftrightarrow> m div 36 = n div 36 \<and> m mod 36 = n mod 36"
      using 1 [OF m] m n by (simp add: show36.simps [of m] show36.simps [of n] digit36_inj)
    then show ?thesis by (metis div_mult_mod_eq)
  qed
qed

section \<open>The generator\<close>

record 'w idRuntime =
  ir_uuid :: "('w \<Rightarrow> string \<times> 'w) option"
  ir_nowMs :: "'w \<Rightarrow> nat"
  ir_random :: "'w \<Rightarrow> nat list \<times> 'w"

text \<open>\<open>Math.random().toString(36).slice(2, 10)\<close>: up to eight digits of the fraction.\<close>

definition random36 :: "nat list \<Rightarrow> string" where
  "random36 digits = map digit36 (take 8 digits)"

definition counted_id :: "string \<Rightarrow> nat \<Rightarrow> nat \<Rightarrow> nat list \<Rightarrow> string" where
  "counted_id prefix now sequence digits =
     prefix @ ''-'' @ show36 now @ ''-'' @ show36 sequence @ ''-'' @ random36 digits"

definition counted_next :: "'w idRuntime \<Rightarrow> string \<Rightarrow> nat \<times> 'w \<Rightarrow> string \<times> (nat \<times> 'w)" where
  "counted_next ir prefix s =
     (let sequence = fst s + 1; (digits, w) = ir_random ir (snd s)
      in (counted_id prefix (ir_nowMs ir (snd s)) sequence digits, (sequence, w)))"

definition createIds :: "'w idRuntime \<Rightarrow> string \<Rightarrow> nat \<times> 'w \<Rightarrow> string \<times> (nat \<times> 'w)" where
  "createIds ir prefix s =
     (case ir_uuid ir of
        Some uuid \<Rightarrow> (let (u, w) = uuid (snd s) in (prefix @ ''-'' @ u, (fst s, w)))
      | None \<Rightarrow> counted_next ir prefix s)"

definition counted_used :: "nat \<times> 'w \<Rightarrow> string set" where
  "counted_used s = {counted_id p t q ds | p t q ds. q \<le> fst s}"

lemma counted_id_sequence:
  assumes "counted_id p t q ds = counted_id p' t' q' ds'"
  shows "q = q'"
proof -
  have dash: "CHR ''-'' \<notin> set (random36 ds)" for ds
    using digit36_no_dash by (auto simp: random36_def) metis
  have "(p @ ''-'' @ show36 t @ ''-'' @ show36 q) @ CHR ''-'' # random36 ds =
    (p' @ ''-'' @ show36 t' @ ''-'' @ show36 q') @ CHR ''-'' # random36 ds'"
    using assms by (simp add: counted_id_def)
  from split_at_last_unique [OF this dash dash]
  have "p @ ''-'' @ show36 t @ ''-'' @ show36 q = p' @ ''-'' @ show36 t' @ ''-'' @ show36 q'" ..
  then have "(p @ ''-'' @ show36 t) @ CHR ''-'' # show36 q = (p' @ ''-'' @ show36 t') @ CHR ''-'' # show36 q'"
    by simp
  from split_at_last_unique [OF this show36_no_dash show36_no_dash]
  have "show36 q = show36 q'" ..
  then show ?thesis by (simp add: show36_inj)
qed

interpretation counted: id_source "counted_next ir" counted_used for ir :: "'w idRuntime"
proof unfold_locales
  fix p :: string and s s' :: "nat \<times> 'w" and x
  assume "counted_next ir p s = (x, s')"
  then obtain ds where x: "x = counted_id p (ir_nowMs ir (snd s)) (fst s + 1) ds" and s': "fst s' = fst s + 1"
    by (auto simp: counted_next_def Let_def split: prod.splits)
  have "x \<notin> counted_used s"
    using counted_id_sequence by (fastforce simp: x counted_used_def)
  moreover have "x \<in> counted_used s'"
    unfolding counted_used_def x using s' by (intro CollectI exI conjI) (rule refl, simp)
  moreover have "counted_used s \<subseteq> counted_used s'"
    unfolding counted_used_def by (rule subsetI) (elim CollectE exE conjE, intro CollectI exI conjI, assumption, simp add: s')
  ultimately show "x \<notin> counted_used s \<and> x \<in> counted_used s' \<and> counted_used s \<subseteq> counted_used s'"
    by blast
qed

end
