(* ===== verification/RadioTail.thy ===== *)
theory RadioTail
  imports CatalogValues Ids
begin

text \<open>
  The radio tail of \<open>packages/application/src/queue/radio-tail.ts\<close>: the published form of the tail,
  the guard of a provider page, the window that decides a fetch, and the plan that turns one page
  of suggestions into recordings and queue occurrences. The id port is a parameter: \<open>draw prefix i\<close>
  gives an id and the port's draw state. Of the tail's record the in-flight cancellation source is
  not modelled.
\<close>

section \<open>The tail\<close>

definition RADIO_FETCH_AHEAD :: nat where "RADIO_FETCH_AHEAD = 3"
definition RADIO_PAGE_MAX_ITEMS :: nat where "RADIO_PAGE_MAX_ITEMS = 128"
definition RADIO_DRAIN_CHASE_PAGES :: nat where "RADIO_DRAIN_CHASE_PAGES = 4"

datatype radioTailStatus = Growing | TailEnded | TailFailed

record radioTail =
  rd_seedRef :: sourceRef
  rd_providerId :: string
  rd_status :: radioTailStatus
  rd_fetching :: bool
  rd_error :: "appError option"

record radioTailRecord = radioTail +
  rd_continuation :: "string option"
  rd_resumeOnDrain :: bool
  rd_dupPages :: nat

definition publishRadio :: "radioTailRecord option \<Rightarrow> radioTail option" where
  "publishRadio r = map_option radioTail.truncate r"

definition samePublishedRadio :: "radioTail option \<Rightarrow> radioTail option \<Rightarrow> bool" where
  "samePublishedRadio a b =
     (case (a, b) of
        (Some x, Some y) \<Rightarrow>
          rd_providerId x = rd_providerId y \<and> rd_status x = rd_status y \<and>
          rd_fetching x = rd_fetching y \<and> sameRef (Some (rd_seedRef x)) (Some (rd_seedRef y)) \<and>
          sameError (rd_error x) (rd_error y)
      | (None, None) \<Rightarrow> True
      | _ \<Rightarrow> False)"

definition isRadioPage :: "jsval \<Rightarrow> bool" where
  "isRadioPage v =
     (isRecord v \<and> hasExactKeys v [''candidates'', ''continuation''] \<and>
      (case propOf v ''candidates'' of
         JArr cs \<Rightarrow> length cs \<le> RADIO_PAGE_MAX_ITEMS \<and> list_all isTrackMetadata cs
       | _ \<Rightarrow> False) \<and>
      (propOf v ''continuation'' = JNull \<or>
       (case propOf v ''continuation'' of JStr s \<Rightarrow> 0 < length s | _ \<Rightarrow> False)))"

definition remainingAfterCurrent :: "queueSnapshot \<Rightarrow> string list option \<Rightarrow> nat" where
  "remainingAfterCurrent queue walk =
     (case qs_currentOccurrenceId queue of
        None \<Rightarrow> 0
      | Some current \<Rightarrow>
          let path = (case walk of Some p \<Rightarrow> p | None \<Rightarrow> map qo_occurrenceId (qs_occurrences queue))
          in case find_index (\<lambda>x. x = current) path of
               None \<Rightarrow> 0
             | Some index \<Rightarrow> length path - index - 1)"

definition shouldGrowRadio :: "radioTailRecord option \<Rightarrow> queueSnapshot \<Rightarrow> string list option \<Rightarrow> bool" where
  "shouldGrowRadio r queue walk =
     (case r of
        None \<Rightarrow> False
      | Some tail \<Rightarrow>
          rd_status tail = Growing \<and> rd_continuation tail \<noteq> None \<and> \<not> rd_fetching tail \<and>
          qs_currentOccurrenceId queue \<noteq> None \<and>
          remainingAfterCurrent queue walk < RADIO_FETCH_AHEAD)"

section \<open>One suggestion\<close>

text \<open>The provider's claim that its ref serves a recording; \<open>None\<close> when it must not be merged.\<close>

definition withProviderMapping :: "unicode \<Rightarrow> recording \<Rightarrow> trackMetadata \<Rightarrow> nat \<Rightarrow> recording option" where
  "withProviderMapping uc r item matchedAtMs =
     (let ref = tm_sourceRef item;
          winner = map_get (collapseByRef (rc_mappings r)) (refKey ref)
      in case map_option sm_status winner of
           Some UserConfirmed \<Rightarrow> Some r
         | Some RejectedMapping \<Rightarrow> None
         | _ \<Rightarrow>
             (case evidence uc r item of
                None \<Rightarrow> if hardConflict uc r item then None else Some r
              | Some e \<Rightarrow>
                  let m = \<lparr>sm_ref = ref, sm_status = Automatic, sm_matchedAtMs = matchedAtMs, sm_evidence = e\<rparr>
                  in Some (r\<lparr>rc_mappings :=
                       (if winner = None then rc_mappings r @ [m]
                        else map (\<lambda>x. if sameRef (Some (sm_ref x)) (Some ref) then m else x)
                               (rc_mappings r))\<rparr>)))"

record 'i pagePlan =
  pp_working :: "(string, recording) jsmap"
  pp_recByRef :: "(string, recording) jsmap"
  pp_queuedRefs :: "string set"
  pp_queuedIds :: "string set"
  pp_appended :: "queueOccurrence list"
  pp_changed :: bool
  pp_ids :: 'i

text \<open>The recording a suggestion names, with whether its own ref named it.\<close>

definition resolve_item :: "unicode \<Rightarrow> 'i pagePlan \<Rightarrow> trackMetadata \<Rightarrow> (recording \<times> bool) option" where
  "resolve_item uc p item =
     (case map_get (pp_recByRef p) (refKey (tm_sourceRef item)) of
        Some r \<Rightarrow> Some (r, True)
      | None \<Rightarrow>
          if ref_provider (tm_sourceRef item) = LOCAL_PROVIDER then None
          else map_option (\<lambda>r. (r, False))
                 (find (\<lambda>r. rc_provenance r = FromProvider \<and>
                            sameSongIdentity uc (recording_identity r) (metadata_identity item))
                   (map snd (pp_working p))))"

text \<open>A found recording takes the suggestion in; a content join keeps the cleaner title with its own
  labels.\<close>

definition merge_item :: "unicode \<Rightarrow> recording \<Rightarrow> recording \<Rightarrow> bool \<Rightarrow> trackMetadata \<Rightarrow> recording" where
  "merge_item uc current mapped byRef item =
     (let merged = mergeRecordingMetadata uc mapped item;
          title = (if byRef then rc_title merged else cleanerTitle uc (rc_title current) (tm_title item));
          titled = (if \<not> byRef \<and> title = rc_title current
                    then merged\<lparr>rc_title := title, rc_explicit := rc_explicit current,
                                rc_versionLabels := rc_versionLabels current\<rparr>
                    else merged\<lparr>rc_title := title\<rparr>)
      in if list_ex (\<lambda>s. sameRef (Some s) (Some (tm_sourceRef item))) (rc_sourceRefs titled) then titled
         else titled\<lparr>rc_sourceRefs := rc_sourceRefs titled @ [tm_sourceRef item]\<rparr>)"

text \<open>The end of a turn: the recording is stored, indexed and enqueued, its refs marked queued.\<close>

definition append_item ::
  "(string \<Rightarrow> 'i \<Rightarrow> string \<times> 'i) \<Rightarrow> string \<Rightarrow> trackMetadata \<Rightarrow> recording \<Rightarrow> 'i pagePlan \<Rightarrow> 'i pagePlan" where
  "append_item draw playbackProvider item r p =
     (let (occ, ids) = draw ''occ'' (pp_ids p); key = refKey (tm_sourceRef item)
      in \<lparr>pp_working = AList.update (rc_id r) r (pp_working p),
          pp_recByRef = AList.update key r (pp_recByRef p),
          pp_queuedRefs = insert key (pp_queuedRefs p \<union> refKey ` set (rc_sourceRefs r)),
          pp_queuedIds = insert (rc_id r) (pp_queuedIds p),
          pp_appended = pp_appended p @
            [\<lparr>qo_occurrenceId = occ, qo_recordingId = rc_id r,
              qo_selectedRef =
                (if ref_provider (tm_sourceRef item) = playbackProvider then Some (tm_sourceRef item) else None)\<rparr>],
          pp_changed = True, pp_ids = ids\<rparr>)"

definition plan_item ::
  "unicode \<Rightarrow> (string \<Rightarrow> 'i \<Rightarrow> string \<times> 'i) \<Rightarrow> string \<Rightarrow> nat \<Rightarrow> trackMetadata \<Rightarrow> 'i pagePlan \<Rightarrow> 'i pagePlan" where
  "plan_item uc draw playbackProvider matchedAtMs item p =
     (if refKey (tm_sourceRef item) \<in> pp_queuedRefs p then p
      else case resolve_item uc p item of
             Some (found, byRef) \<Rightarrow>
               if rc_id found \<in> pp_queuedIds p then p
               else
                 let current = (case map_get (pp_working p) (rc_id found) of Some r \<Rightarrow> r | None \<Rightarrow> found)
                 in (case withProviderMapping uc current item matchedAtMs of
                       None \<Rightarrow> p
                     | Some mapped \<Rightarrow>
                         append_item draw playbackProvider item (merge_item uc current mapped byRef item) p)
           | None \<Rightarrow>
               let (rec, ids) = draw ''rec'' (pp_ids p); p' = p\<lparr>pp_ids := ids\<rparr>
               in (case withProviderMapping uc (recordingFromMetadata uc item rec) item matchedAtMs of
                     None \<Rightarrow> p'
                   | Some minted \<Rightarrow> append_item draw playbackProvider item minted p'))"

section \<open>A page\<close>

definition index_refs :: "recording list \<Rightarrow> (string, recording) jsmap" where
  "index_refs recordings =
     fold (\<lambda>(ref, r) m. if map_get m (refKey ref) = None then AList.update (refKey ref) r m else m)
       (concat (map (\<lambda>r. map (\<lambda>ref. (ref, r)) (rc_sourceRefs r)) recordings)) []"

definition occurrence_refs :: "(string, recording) jsmap \<Rightarrow> queueOccurrence \<Rightarrow> string set" where
  "occurrence_refs working occ =
     (case qo_selectedRef occ of Some ref \<Rightarrow> {refKey ref} | None \<Rightarrow> {}) \<union>
     (case map_get working (qo_recordingId occ) of
        Some r \<Rightarrow> refKey ` set (rc_sourceRefs r)
      | None \<Rightarrow> {})"

definition start_plan :: "recording list \<Rightarrow> queueOccurrence list \<Rightarrow> 'i \<Rightarrow> 'i pagePlan" where
  "start_plan recordings occurrences ids =
     (let working = fold (\<lambda>r. AList.update (rc_id r) r) recordings []
      in \<lparr>pp_working = working, pp_recByRef = index_refs recordings,
          pp_queuedRefs = \<Union> (occurrence_refs working ` set occurrences),
          pp_queuedIds = qo_recordingId ` set occurrences,
          pp_appended = [], pp_changed = False, pp_ids = ids\<rparr>)"

definition plan_page ::
  "unicode \<Rightarrow> (string \<Rightarrow> 'i \<Rightarrow> string \<times> 'i) \<Rightarrow> recording list \<Rightarrow> queueOccurrence list \<Rightarrow> trackMetadata list \<Rightarrow>
   string \<Rightarrow> nat \<Rightarrow> 'i \<Rightarrow> 'i pagePlan" where
  "plan_page uc draw recordings occurrences items playbackProvider matchedAtMs ids =
     fold (plan_item uc draw playbackProvider matchedAtMs) items (start_plan recordings occurrences ids)"

definition planRadioPage ::
  "unicode \<Rightarrow> (string \<Rightarrow> 'i \<Rightarrow> string \<times> 'i) \<Rightarrow> recording list \<Rightarrow> queueOccurrence list \<Rightarrow> trackMetadata list \<Rightarrow>
   string \<Rightarrow> nat \<Rightarrow> 'i \<Rightarrow> recording list \<times> queueOccurrence list" where
  "planRadioPage uc draw recordings occurrences items playbackProvider matchedAtMs ids =
     (let p = plan_page uc draw recordings occurrences items playbackProvider matchedAtMs ids
      in (if pp_changed p then map snd (pp_working p) else recordings, pp_appended p))"

section \<open>What a page adds\<close>

lemma withProviderMapping_id: "withProviderMapping uc r item t = Some r' \<Longrightarrow> rc_id r' = rc_id r"
  by (auto simp: withProviderMapping_def Let_def split: option.splits mappingStatus.splits if_splits)

lemma merge_item_id [simp]: "rc_id (merge_item uc current mapped byRef item) = rc_id mapped"
  by (simp add: merge_item_def Let_def mergeRecordingMetadata_def audioFields_def)

lemma recordingFromMetadata_id [simp]: "rc_id (recordingFromMetadata uc item i) = i"
  by (simp add: recordingFromMetadata_def audioFields_def)

abbreviation appended_ids :: "'i pagePlan \<Rightarrow> string list" where
  "appended_ids p \<equiv> map qo_recordingId (pp_appended p)"

text \<open>The state of the plan between two suggestions, from a library and the queued recordings.\<close>

definition plan_ok :: "recording list \<Rightarrow> string set \<Rightarrow> 'i pagePlan \<Rightarrow> bool" where
  "plan_ok recordings queued p \<longleftrightarrow>
     distinct (keys (pp_working p)) \<and> (\<forall>(k, r)\<in>set (pp_working p). rc_id r = k) \<and>
     (\<exists>added. keys (pp_working p) = map rc_id recordings @ added \<and> set added \<subseteq> set (appended_ids p)) \<and>
     (\<forall>(k, r)\<in>set (pp_recByRef p). rc_id r \<in> set (keys (pp_working p))) \<and>
     pp_queuedIds p = queued \<union> set (appended_ids p) \<and>
     distinct (appended_ids p) \<and> set (appended_ids p) \<inter> queued = {} \<and>
     set (appended_ids p) \<subseteq> set (keys (pp_working p)) \<and>
     (\<forall>r\<in>set recordings. rc_id r \<notin> set (appended_ids p) \<longrightarrow> map_get (pp_working p) (rc_id r) = Some r) \<and>
     (pp_appended p \<noteq> [] \<longrightarrow> pp_changed p)"

lemma append_item_ok:
  assumes "plan_ok recordings queued p" "rc_id r \<notin> pp_queuedIds p"
  shows "plan_ok recordings queued (append_item draw provider item r p)"
proof -
  obtain occ ids where n: "draw ''occ'' (pp_ids p) = (occ, ids)" by fastforce
  let ?q = "append_item draw provider item r p"
  have q: "pp_working ?q = AList.update (rc_id r) r (pp_working p)"
    "pp_recByRef ?q = AList.update (refKey (tm_sourceRef item)) r (pp_recByRef p)"
    "pp_queuedIds ?q = insert (rc_id r) (pp_queuedIds p)" "pp_changed ?q"
    "appended_ids ?q = appended_ids p @ [rc_id r]"
    by (simp_all add: append_item_def n Let_def)
  note ok = assms(1) [unfolded plan_ok_def]
  let ?W = "pp_working p" and ?A = "appended_ids p" and ?k = "rc_id r"
  have new: "?k \<notin> set ?A" "?k \<notin> queued" using ok assms(2) by auto
  obtain added where added: "keys ?W = map rc_id recordings @ added" "set added \<subseteq> set ?A"
    using ok by blast
  have "\<exists>added. keys (pp_working ?q) = map rc_id recordings @ added \<and> set added \<subseteq> set (appended_ids ?q)"
    using added by (auto simp: q keys_update)
  moreover have "distinct (keys (pp_working ?q))" using ok by (simp add: q keys_update)
  moreover have "\<forall>(k, x)\<in>set (pp_working ?q). rc_id x = k" using ok by (auto simp: q dest!: update_mem)
  moreover have "\<forall>(k, x)\<in>set (pp_recByRef ?q). rc_id x \<in> set (keys (pp_working ?q))"
    using ok by (auto simp: q keys_update dest!: update_mem)
  moreover have "pp_queuedIds ?q = queued \<union> set (appended_ids ?q)" using ok by (simp add: q)
  moreover have "distinct (appended_ids ?q)" "set (appended_ids ?q) \<inter> queued = {}" using ok new by (auto simp: q)
  moreover have "set (appended_ids ?q) \<subseteq> set (keys (pp_working ?q))" using ok by (auto simp: q keys_update)
  moreover have "\<forall>x\<in>set recordings. rc_id x \<notin> set (appended_ids ?q) \<longrightarrow>
      map_get (pp_working ?q) (rc_id x) = Some x"
    using ok by (auto simp: q)
  ultimately show ?thesis using q(4) unfolding plan_ok_def by blast
qed

text \<open>A suggestion either changes nothing but the id source, or appends a recording not queued yet:
  one of the library, or one minted under a fresh id.\<close>

lemma resolve_known:
  assumes "plan_ok recordings queued p" "resolve_item uc p item = Some (found, byRef)"
  shows "rc_id found \<in> set (keys (pp_working p))"
proof -
  consider "(refKey (tm_sourceRef item), found) \<in> set (pp_recByRef p)" | "found \<in> snd ` set (pp_working p)"
    using assms(2) by (auto simp: resolve_item_def split: option.splits if_splits
        dest: map_of_SomeD find_Some_set)
  then show ?thesis
  proof cases
    case 1
    with assms(1) show ?thesis by (auto simp: plan_ok_def)
  next
    case 2
    then obtain k where "(k, found) \<in> set (pp_working p)" by auto
    moreover have "\<forall>(k, r)\<in>set (pp_working p). rc_id r = k" using assms(1) by (simp add: plan_ok_def)
    ultimately show ?thesis by (auto simp: keys_def intro: rev_image_eqI)
  qed
qed

lemma append_item_frame:
  "keys (pp_working (append_item draw provider item r p)) =
     (if rc_id r \<in> set (keys (pp_working p)) then keys (pp_working p) else keys (pp_working p) @ [rc_id r])"
  "pp_ids (append_item draw provider item r p) = snd (draw ''occ'' (pp_ids p))"
  by (simp_all add: append_item_def keys_update Let_def split: prod.split)

lemma plan_ok_ids: "plan_ok recordings queued (p\<lparr>pp_ids := ids\<rparr>) \<longleftrightarrow> plan_ok recordings queued p"
  by (simp add: plan_ok_def)

lemma merge_item_mappings: "rc_mappings (merge_item uc current mapped byRef item) = rc_mappings mapped"
  by (simp add: merge_item_def Let_def mergeRecordingMetadata_def audioFields_def)

text \<open>A turn does nothing, moves the id source only, or appends one recording: a known one that is
  not queued, or one under the id it just drew.\<close>

lemma plan_item_cases:
  assumes "plan_ok recordings queued p"
  obtains (Skip) "plan_item uc draw provider t item p = p"
    | (Known) r current mapped where
        "plan_item uc draw provider t item p = append_item draw provider item r p"
        "rc_id r \<notin> pp_queuedIds p" "rc_id r \<in> set (keys (pp_working p))"
        "map_get (pp_working p) (rc_id r) = Some current"
        "withProviderMapping uc current item t = Some mapped" "rc_mappings r = rc_mappings mapped"
    | (Drawn) rec ids where "draw ''rec'' (pp_ids p) = (rec, ids)"
        "plan_item uc draw provider t item p = p\<lparr>pp_ids := ids\<rparr>"
    | (Minted) rec ids r where "draw ''rec'' (pp_ids p) = (rec, ids)" "rc_id r = rec"
        "plan_item uc draw provider t item p = append_item draw provider item r (p\<lparr>pp_ids := ids\<rparr>)"
proof (cases "refKey (tm_sourceRef item) \<in> pp_queuedRefs p")
  case True
  then show ?thesis using Skip by (simp add: plan_item_def)
next
  case new: False
  show ?thesis
  proof (cases "resolve_item uc p item")
    case None
    obtain rec ids where n: "draw ''rec'' (pp_ids p) = (rec, ids)" by fastforce
    show ?thesis
    proof (cases "withProviderMapping uc (recordingFromMetadata uc item rec) item t")
      case None
      with new n \<open>resolve_item uc p item = None\<close> show ?thesis using Drawn by (simp add: plan_item_def)
    next
      case (Some r)
      with new n None show ?thesis
        using Minted [of rec ids r] withProviderMapping_id [OF Some] by (simp add: plan_item_def)
    qed
  next
    case (Some fb)
    obtain found byRef where fb: "fb = (found, byRef)" by (cases fb)
    define current where "current = (case map_get (pp_working p) (rc_id found) of Some r \<Rightarrow> r | None \<Rightarrow> found)"
    have id: "rc_id current = rc_id found"
      using assms by (auto simp: current_def plan_ok_def dest!: map_of_SomeD split: option.split)
    show ?thesis
    proof (cases "rc_id found \<in> pp_queuedIds p \<or> withProviderMapping uc current item t = None")
      case True
      with new Some fb show ?thesis using Skip by (auto simp: plan_item_def current_def)
    next
      case False
      then obtain mapped where mapped: "withProviderMapping uc current item t = Some mapped" by blast
      have "plan_item uc draw provider t item p =
          append_item draw provider item (merge_item uc current mapped byRef item) p"
        using False new Some fb mapped by (simp add: plan_item_def flip: current_def)
      moreover have known: "rc_id found \<in> set (keys (pp_working p))"
        using resolve_known [OF assms Some [unfolded fb]] .
      moreover have "map_get (pp_working p) (rc_id found) = Some current"
        using known by (auto simp: current_def keys_def split: option.split dest: weak_map_of_SomeI)
      ultimately show ?thesis
        using Known [OF _ _ _ _ mapped] False withProviderMapping_id [OF mapped] id
        by (simp add: merge_item_mappings)
    qed
  qed
qed

text \<open>Every id of the queue and of the plan is in use in the id source.\<close>

definition plan_ids :: "('i \<Rightarrow> string set) \<Rightarrow> string set \<Rightarrow> 'i pagePlan \<Rightarrow> bool" where
  "plan_ids used queued p \<longleftrightarrow> queued \<union> set (keys (pp_working p)) \<subseteq> used (pp_ids p)"

context id_source
begin

lemma fresh_pair: "fst (next_id p s) \<notin> used s" "fst (next_id p s) \<in> used (snd (next_id p s))"
  "used s \<subseteq> used (snd (next_id p s))"
  using fresh [of p s] by (metis prod.collapse)+

lemma plan_item_ok:
  assumes "plan_ok recordings queued p" "plan_ids used queued p"
  shows "plan_ok recordings queued (plan_item uc next_id provider t item p) \<and>
    plan_ids used queued (plan_item uc next_id provider t item p)"
  using assms(1)
proof (cases rule: plan_item_cases [where draw = next_id and uc = uc and provider = provider and t = t and item = item])
  case Skip
  then show ?thesis using assms by simp
next
  case (Known r)
  then show ?thesis
    using assms append_item_ok [OF assms(1)] fresh_pair(3)
    by (fastforce simp: plan_ids_def append_item_frame)
next
  case (Drawn rec ids)
  then show ?thesis
    using assms fresh by (fastforce simp: plan_ok_ids plan_ids_def)
next
  case (Minted rec ids r)
  let ?p = "p\<lparr>pp_ids := ids\<rparr>"
  have new: "rec \<notin> used (pp_ids p)" "rec \<in> used ids" "used (pp_ids p) \<subseteq> used ids"
    using fresh [OF Minted(1)] by simp_all
  moreover have "pp_queuedIds ?p \<subseteq> used (pp_ids p)"
    using assms by (auto simp: plan_ok_def plan_ids_def)
  ultimately have "plan_ok recordings queued (append_item next_id provider item r ?p)"
    using assms(1) Minted(2) by (intro append_item_ok) (auto simp: plan_ok_ids)
  moreover have "queued \<union> set (keys (pp_working p)) \<union> {rec} \<subseteq> used (snd (next_id ''occ'' ids))"
    using new assms(2) fresh_pair(3) [of ids "''occ''"] by (auto simp: plan_ids_def)
  ultimately show ?thesis
    using Minted(2,3) by (auto simp: plan_ids_def append_item_frame split: if_splits)
qed

lemma plan_items_ok:
  "plan_ok recordings queued p \<Longrightarrow> plan_ids used queued p \<Longrightarrow>
   plan_ok recordings queued (fold (plan_item uc next_id provider t) items p)"
  by (induction items arbitrary: p) (use plan_item_ok in auto)

end

section \<open>A whole page\<close>

lemma working_start:
  "distinct (map rc_id rs) \<Longrightarrow> set (map rc_id rs) \<inter> set (keys m) = {} \<Longrightarrow>
   fold (\<lambda>r. AList.update (rc_id r) r) rs m = m @ map (\<lambda>r. (rc_id r, r)) rs"
  by (induction rs arbitrary: m) (auto simp: update_absent keys_def)

lemma index_refs_from:
  "(k, r) \<in> set (index_refs recordings) \<Longrightarrow> r \<in> set recordings"
proof -
  have gen: "(k, r) \<in> set (fold (\<lambda>(ref, r) m. if map_get m (refKey ref) = None then AList.update (refKey ref) r m else m)
      ps m) \<Longrightarrow> (k, r) \<in> set m \<or> r \<in> snd ` set ps" for ps and m :: "(string, recording) jsmap"
  proof (induction ps arbitrary: m)
    case (Cons p ps)
    then show ?case by (cases p) (fastforce split: if_splits dest: update_mem)
  qed simp
  assume "(k, r) \<in> set (index_refs recordings)"
  from gen [OF this [unfolded index_refs_def]] show ?thesis by auto
qed

lemma start_plan_ok:
  assumes "distinct (map rc_id recordings)"
  shows "plan_ok recordings (qo_recordingId ` set occurrences) (start_plan recordings occurrences ids)"
    and "keys (pp_working (start_plan recordings occurrences ids)) = map rc_id recordings"
proof -
  have w: "pp_working (start_plan recordings occurrences ids) = map (\<lambda>r. (rc_id r, r)) recordings"
    using working_start [OF assms, of "[]"] by (simp add: start_plan_def Let_def keys_def)
  then show "keys (pp_working (start_plan recordings occurrences ids)) = map rc_id recordings"
    by (simp add: keys_def comp_def)
  have "map_get (map (\<lambda>r. (rc_id r, r)) recordings) (rc_id r) = Some r" if "r \<in> set recordings" for r
    using that assms by (intro map_of_is_SomeI) (auto simp: comp_def)
  then show "plan_ok recordings (qo_recordingId ` set occurrences) (start_plan recordings occurrences ids)"
    using assms index_refs_from
    by (auto simp: plan_ok_def w keys_def comp_def) (auto simp: start_plan_def Let_def)
qed

section \<open>Verdicts\<close>

text \<open>The mapping in force for a ref key, when it is a verdict of the user.\<close>

definition verdict_at :: "recording \<Rightarrow> string \<Rightarrow> sourceMapping option" where
  "verdict_at r k =
     (case map_get (collapseByRef (rc_mappings r)) k of
        Some m \<Rightarrow> if sm_status m = Automatic then None else Some m
      | None \<Rightarrow> None)"

text \<open>Only the mappings of a ref decide its winner.\<close>

lemma collapse_filter:
  "map_get (collapseByRef ms) k = map_get (collapseByRef (filter (\<lambda>m. refKey (sm_ref m) = k) ms)) k"
proof (induction ms rule: rev_induct)
  case (snoc m ms)
  have step: "collapseByRef (xs @ [m]) = collapse_step m (collapseByRef xs)" for xs
    by (simp add: collapseByRef_def)
  show ?case
    using snoc by (auto simp: step collapse_step_def split: option.split)
qed (simp add: collapseByRef_def)

lemma withProviderMapping_cases:
  assumes "withProviderMapping uc r item t = Some r'"
  obtains "r' = r"
    | n where "sm_ref n = tm_sourceRef item" "verdict_at r (refKey (tm_sourceRef item)) = None"
        "rc_mappings r' = rc_mappings r @ [n] \<or>
         rc_mappings r' = map (\<lambda>x. if sm_ref x = tm_sourceRef item then n else x) (rc_mappings r)"
proof (cases "verdict_at r (refKey (tm_sourceRef item))")
  case None
  then have "map_option sm_status (map_get (collapseByRef (rc_mappings r)) (refKey (tm_sourceRef item))) \<noteq> Some UserConfirmed"
    "map_option sm_status (map_get (collapseByRef (rc_mappings r)) (refKey (tm_sourceRef item))) \<noteq> Some RejectedMapping"
    by (auto simp: verdict_at_def split: option.splits if_splits)
  note undecided = this
  show ?thesis
  proof (cases "evidence uc r item")
    case None
    then have "r' = r"
      using assms undecided
      by (auto simp: withProviderMapping_def Let_def split: option.splits mappingStatus.splits if_splits)
    then show ?thesis by (rule that(1))
  next
    case (Some e)
    then show ?thesis
      using assms undecided
      by (intro that(2) [OF _ \<open>verdict_at r (refKey (tm_sourceRef item)) = None\<close>,
          of "\<lparr>sm_ref = tm_sourceRef item, sm_status = Automatic, sm_matchedAtMs = t, sm_evidence = e\<rparr>"])
        (auto simp: withProviderMapping_def Let_def split: option.splits mappingStatus.splits if_splits)
  qed
next
  case (Some m)
  then show ?thesis
    using assms that
    by (cases "sm_status m") (auto simp: verdict_at_def withProviderMapping_def Let_def split: option.splits if_splits)
qed

lemma withProviderMapping_verdicts:
  assumes "withProviderMapping uc r item t = Some r'" "verdict_at r k = Some m"
  shows "verdict_at r' k = Some m"
  using assms(1)
proof (cases rule: withProviderMapping_cases)
  case 1
  then show ?thesis using assms(2) by simp
next
  case (2 n)
  let ?only = "filter (\<lambda>m. refKey (sm_ref m) = k)"
  have "k \<noteq> refKey (tm_sourceRef item)" using 2(2) assms(2) by auto
  then have "?only (map (\<lambda>x. if sm_ref x = tm_sourceRef item then n else x) ms) = ?only ms" for ms
    using 2(1) by (induction ms) auto
  with \<open>k \<noteq> refKey (tm_sourceRef item)\<close> have "?only (rc_mappings r') = ?only (rc_mappings r)"
    using 2(1,3) by auto
  then have "map_get (collapseByRef (rc_mappings r')) k = map_get (collapseByRef (rc_mappings r)) k"
    by (metis collapse_filter)
  then show ?thesis using assms(2) by (simp add: verdict_at_def)
qed

text \<open>A library recording in the plan still carries every verdict it had.\<close>

definition verdicts_kept :: "recording list \<Rightarrow> 'i pagePlan \<Rightarrow> bool" where
  "verdicts_kept recordings p \<longleftrightarrow>
     (\<forall>r\<in>set recordings. \<forall>r'. map_get (pp_working p) (rc_id r) = Some r' \<longrightarrow>
        (\<forall>k m. verdict_at r k = Some m \<longrightarrow> verdict_at r' k = Some m))"

lemma append_item_verdicts:
  assumes "verdicts_kept recordings p"
    "\<And>x k m. x \<in> set recordings \<Longrightarrow> rc_id x = rc_id r \<Longrightarrow> verdict_at x k = Some m \<Longrightarrow> verdict_at r k = Some m"
  shows "verdicts_kept recordings (append_item draw provider item r p)"
proof -
  have "pp_working (append_item draw provider item r p) = AList.update (rc_id r) r (pp_working p)"
    by (simp add: append_item_def Let_def split: prod.split)
  then show ?thesis using assms by (auto simp: verdicts_kept_def)
qed

context id_source
begin

lemma plan_item_verdicts:
  assumes "plan_ok recordings queued p" "verdicts_kept recordings p" "plan_ids used queued p"
  shows "verdicts_kept recordings (plan_item uc next_id provider t item p)"
  using assms(1)
proof (cases rule: plan_item_cases [where draw = next_id and uc = uc and provider = provider and t = t and item = item])
  case Skip
  then show ?thesis using assms(2) by simp
next
  case (Known r current mapped)
  have "verdict_at r k = verdict_at mapped k" for k by (simp add: verdict_at_def Known(6))
  then show ?thesis
    unfolding Known(1) using assms(2) Known(4) withProviderMapping_verdicts [OF Known(5)]
    by (intro append_item_verdicts) (auto simp: verdicts_kept_def)
next
  case (Drawn rec ids)
  then show ?thesis using assms(2) by (simp add: verdicts_kept_def)
next
  case (Minted rec ids r)
  obtain added where "keys (pp_working p) = map rc_id recordings @ added"
    using assms(1) by (auto simp: plan_ok_def)
  then have "set (map rc_id recordings) \<subseteq> used (pp_ids p)"
    using assms(3) by (simp add: plan_ids_def)
  then have "\<And>x. x \<in> set recordings \<Longrightarrow> rc_id x \<noteq> rc_id r"
    using fresh [OF Minted(1)] Minted(2) by (metis image_eqI set_map subsetD)
  then show ?thesis
    unfolding Minted(3) using assms(2) by (intro append_item_verdicts) (auto simp: verdicts_kept_def)
qed

lemma plan_items_verdicts:
  "plan_ok recordings queued p \<Longrightarrow> plan_ids used queued p \<Longrightarrow> verdicts_kept recordings p \<Longrightarrow>
   verdicts_kept recordings (fold (plan_item uc next_id provider t) items p)"
  by (induction items arbitrary: p) (use plan_item_ok plan_item_verdicts in auto)

end

section \<open>The properties\<close>

context id_source
begin

lemma start_plan_ids:
  assumes "distinct (map rc_id recordings)"
    "rc_id ` set recordings \<union> qo_recordingId ` set occurrences \<subseteq> used ids"
  shows "plan_ids used (qo_recordingId ` set occurrences) (start_plan recordings occurrences ids)"
  using assms(2) start_plan_ok(2) [OF assms(1), of occurrences ids]
  by (simp add: plan_ids_def) (simp add: start_plan_def Let_def)

lemma plan_page_ok:
  assumes "distinct (map rc_id recordings)"
    "rc_id ` set recordings \<union> qo_recordingId ` set occurrences \<subseteq> used ids"
  shows "plan_ok recordings (qo_recordingId ` set occurrences)
    (plan_page uc next_id recordings occurrences items provider t ids)"
  unfolding plan_page_def by (rule plan_items_ok [OF start_plan_ok(1) [OF assms(1)] start_plan_ids [OF assms]])

lemma plan_page_verdicts:
  assumes "distinct (map rc_id recordings)"
    "rc_id ` set recordings \<union> qo_recordingId ` set occurrences \<subseteq> used ids"
  shows "verdicts_kept recordings (plan_page uc next_id recordings occurrences items provider t ids)"
proof -
  have "map_get (pp_working (start_plan recordings occurrences ids)) (rc_id r) = Some r"
    if "r \<in> set recordings" for r
    using start_plan_ok(1) [OF assms(1), of occurrences ids] that
    by (simp add: plan_ok_def) (simp add: start_plan_def Let_def)
  then have "verdicts_kept recordings (start_plan recordings occurrences ids)"
    by (simp add: verdicts_kept_def)
  then show ?thesis
    unfolding plan_page_def by (rule plan_items_verdicts [OF start_plan_ok(1) [OF assms(1)] start_plan_ids [OF assms]])
qed

end

text \<open>C33: A radio page adds songs and takes nothing away: when the id source gives no id in use, the
  appended occurrences name pairwise different recordings, none of them queued before and all of them
  in the returned library; that library keeps the old recordings' ids in their order, each once, and
  every recording that was not appended unchanged.\<close>

theorem radio_page_adds_new_songs:
  assumes "id_source draw used" "distinct (map rc_id recordings)"
    "rc_id ` set recordings \<union> qo_recordingId ` set occurrences \<subseteq> used ids"
    "planRadioPage uc draw recordings occurrences items provider t ids = (recs, occs)"
  shows "distinct (map qo_recordingId occs) \<and>
    (\<forall>x\<in>set occs. qo_recordingId x \<notin> qo_recordingId ` set occurrences \<and> qo_recordingId x \<in> rc_id ` set recs) \<and>
    distinct (map rc_id recs) \<and> take (length recordings) (map rc_id recs) = map rc_id recordings \<and>
    (\<forall>r\<in>set recordings. rc_id r \<in> set (map qo_recordingId occs) \<or> r \<in> set recs)"
proof -
  define p where "p = plan_page uc draw recordings occurrences items provider t ids"
  let ?queued = "qo_recordingId ` set occurrences"
  have ok: "plan_ok recordings ?queued p"
    unfolding p_def by (rule id_source.plan_page_ok [OF assms(1-3)])
  have occs: "occs = pp_appended p" and recs: "recs = (if pp_changed p then map snd (pp_working p) else recordings)"
    using assms(4) by (simp_all add: planRadioPage_def Let_def flip: p_def)
  obtain added where keys: "keys (pp_working p) = map rc_id recordings @ added"
    using ok by (auto simp: plan_ok_def)
  show ?thesis
  proof (cases "pp_changed p")
    case False
    with ok occs recs assms(2) show ?thesis by (simp add: plan_ok_def)
  next
    case True
    have "\<forall>(k, r)\<in>set (pp_working p). rc_id r = k" using ok by (simp add: plan_ok_def)
    then have ids: "map rc_id recs = keys (pp_working p)"
      using True by (auto simp: recs keys_def)
    have "\<forall>r\<in>set recordings. rc_id r \<in> set (appended_ids p) \<or> r \<in> set recs"
      using ok True by (fastforce simp: plan_ok_def recs dest: map_of_SomeD intro: rev_image_eqI)
    moreover have "set (appended_ids p) \<subseteq> rc_id ` set recs"
      using ok by (simp add: plan_ok_def flip: ids)
    ultimately show ?thesis
      using ok by (auto simp: plan_ok_def occs ids keys)
  qed
qed

text \<open>A radio page never overrides the user: every ref that carries a verdict of the user on a
  library recording (confirmed or rejected, the mapping in force) still carries the same verdict on
  that recording in the returned library.\<close>

theorem radio_page_keeps_verdicts:
  assumes "id_source draw used" "distinct (map rc_id recordings)"
    "rc_id ` set recordings \<union> qo_recordingId ` set occurrences \<subseteq> used ids"
    "planRadioPage uc draw recordings occurrences items provider t ids = (recs, occs)"
    "r \<in> set recordings" "r' \<in> set recs" "rc_id r' = rc_id r" "verdict_at r k = Some m"
  shows "verdict_at r' k = Some m"
proof -
  define p where "p = plan_page uc draw recordings occurrences items provider t ids"
  have ok: "plan_ok recordings (qo_recordingId ` set occurrences) p"
    unfolding p_def by (rule id_source.plan_page_ok [OF assms(1-3)])
  have kept: "verdicts_kept recordings p"
    unfolding p_def by (rule id_source.plan_page_verdicts [OF assms(1-3)])
  have recs: "recs = (if pp_changed p then map snd (pp_working p) else recordings)"
    using assms(4) by (simp add: planRadioPage_def Let_def flip: p_def)
  show ?thesis
  proof (cases "pp_changed p")
    case False
    then have "r' = r"
      using assms(2,5-7) recs by (auto simp: distinct_map inj_on_def)
    then show ?thesis using assms(8) by simp
  next
    case True
    then obtain k' where "(k', r') \<in> set (pp_working p)" using assms(6) recs by auto
    moreover have "\<forall>(k, x)\<in>set (pp_working p). rc_id x = k" "distinct (keys (pp_working p))"
      using ok by (simp_all add: plan_ok_def)
    ultimately have "map_get (pp_working p) (rc_id r) = Some r'"
      using assms(7) by (auto simp: keys_def intro: map_of_is_SomeI)
    then show ?thesis
      using kept assms(5,8) by (simp add: verdicts_kept_def)
  qed
qed

section \<open>A page of three suggestions\<close>

text \<open>Two library songs, the first queued. The page suggests the queued song, then the other one
  twice, under the ref the user confirmed for it.\<close>

definition rt_runtime :: "unit idRuntime" where
  "rt_runtime = \<lparr>ir_uuid = None, ir_nowMs = (\<lambda>_. 36), ir_random = (\<lambda>w. ([1, 2, 3], w))\<rparr>"

definition rt_ref :: "string \<Rightarrow> sourceRef" where
  "rt_ref i = \<lparr>ref_provider = ''yt'', ref_kind = ''track'', ref_id = i\<rparr>"

definition rt_item :: "string \<Rightarrow> trackMetadata" where
  "rt_item i = \<lparr>tm_sourceRef = rt_ref i, tm_title = ''Song'', tm_artist = None, tm_album = None,
     tm_durationMs = None, tm_releaseYear = None, tm_artwork = [], tm_explicit = None, tm_genre = None,
     tm_storefront = None, tm_artistRef = None, tm_albumRef = None, tm_isrc = None\<rparr>"

definition rt_confirmed :: sourceMapping where
  "rt_confirmed = \<lparr>sm_ref = rt_ref ''2'', sm_status = UserConfirmed, sm_matchedAtMs = 7,
     sm_evidence = \<lparr>me_titleSimilarity = 1, me_artistSimilarity = None, me_durationDeltaMs = None,
       me_exactIsrc = False, me_score = 100, me_versionLabels = []\<rparr>\<rparr>"

definition rt_recording :: "nat \<Rightarrow> string \<Rightarrow> sourceMapping list \<Rightarrow> recording" where
  "rt_recording n ref ms = \<lparr>rc_id = counted_id ''rec'' 0 n [], rc_title = ''Song'', rc_artist = None,
     rc_album = None, rc_durationMs = None, rc_releaseYear = None, rc_artwork = [], rc_explicit = None,
     rc_genre = None, rc_isrc = None, rc_versionLabels = [], rc_artistRef = None, rc_albumRef = None,
     rc_sourceRefs = [rt_ref ref], rc_mappings = ms, rc_provenance = FromProvider\<rparr>"

definition rt_library :: "recording list" where
  "rt_library = [rt_recording 1 ''1'' [], rt_recording 2 ''2'' [rt_confirmed]]"

definition rt_queue :: "queueOccurrence list" where
  "rt_queue = [\<lparr>qo_occurrenceId = ''occ-1'', qo_recordingId = counted_id ''rec'' 0 1 [], qo_selectedRef = None\<rparr>]"

definition rt_unicode :: unicode where
  "rt_unicode = \<lparr>uc_fold = (\<lambda>s. s), uc_lower = (\<lambda>s. s), uc_word = (\<lambda>c. c \<noteq> CHR '' '')\<rparr>"

abbreviation rt_page :: "recording list \<times> queueOccurrence list" where
  "rt_page \<equiv> planRadioPage rt_unicode (counted_next rt_runtime) rt_library rt_queue
     [rt_item ''1'', rt_item ''2'', rt_item ''2''] ''yt'' 9 (2, ())"

lemma rt_ids: "counted_id ''rec'' 0 1 [] \<noteq> counted_id ''rec'' 0 2 []"
  using counted_id_sequence by fastforce

lemma rt_library_used:
  "rc_id ` set rt_library \<union> qo_recordingId ` set rt_queue \<subseteq> counted_used (2, ())"
  unfolding counted_used_def rt_library_def rt_queue_def rt_recording_def by force

lemma rt_distinct: "distinct (map rc_id rt_library)"
  using rt_ids by (simp add: rt_library_def rt_recording_def)

lemma rt_plan:
  "map rc_id (fst rt_page) = map rc_id rt_library \<and>
   map qo_recordingId (snd rt_page) = [counted_id ''rec'' 0 2 []]"
  using rt_ids
  by (simp add: planRadioPage_def plan_page_def start_plan_def index_refs_def rt_library_def rt_queue_def
      plan_item_def occurrence_refs_def rt_recording_def rt_item_def rt_ref_def refKey_def resolve_item_def
      withProviderMapping_def collapseByRef_def collapse_step_def rt_confirmed_def append_item_def Let_def
      split: prod.split)

lemma rt_pair: "planRadioPage rt_unicode (counted_next rt_runtime) rt_library rt_queue
    [rt_item ''1'', rt_item ''2'', rt_item ''2''] ''yt'' 9 (2, ()) = (fst rt_page, snd rt_page)"
  by simp

lemma radio_page_adds_new_songs_witness:
  "map qo_recordingId (snd rt_page) = [counted_id ''rec'' 0 2 []] \<and>
   counted_id ''rec'' 0 2 [] \<in> rc_id ` set (fst rt_page) \<and> rt_recording 1 ''1'' [] \<in> set (fst rt_page)"
proof -
  note facts = radio_page_adds_new_songs [OF counted.id_source_axioms rt_distinct rt_library_used rt_pair]
  have song: "rt_recording 1 ''1'' [] \<in> set rt_library" "rc_id (rt_recording 1 ''1'' []) = counted_id ''rec'' 0 1 []"
    by (simp_all add: rt_library_def rt_recording_def)
  have "set (map qo_recordingId (snd rt_page)) = {counted_id ''rec'' 0 2 []}"
    using rt_plan by simp
  then show ?thesis using facts rt_plan song rt_ids by auto
qed

lemma radio_page_keeps_verdicts_witness:
  "verdict_at (last (fst rt_page)) (refKey (rt_ref ''2'')) = Some rt_confirmed"
proof -
  let ?r = "rt_recording 2 ''2'' [rt_confirmed]"
  have r: "?r \<in> set rt_library" by (simp add: rt_library_def)
  have ids: "map rc_id (fst rt_page) = map rc_id rt_library" using rt_plan by simp
  then have full: "fst rt_page \<noteq> []" by (auto simp: rt_library_def)
  then have "rc_id (last (fst rt_page)) = last (map rc_id (fst rt_page))" by (simp add: last_map)
  then have last: "rc_id (last (fst rt_page)) = rc_id ?r" unfolding ids by (simp add: rt_library_def)
  have "verdict_at ?r (refKey (rt_ref ''2'')) = Some rt_confirmed"
    by (simp add: verdict_at_def rt_recording_def rt_confirmed_def collapseByRef_def collapse_step_def)
  from radio_page_keeps_verdicts [OF counted.id_source_axioms rt_distinct rt_library_used rt_pair r _ last this]
  show ?thesis using full by simp
qed

end
