(* ===== verification/PeaksTracker.thy ===== *)
theory PeaksTracker
  imports Errors
begin

text \<open>
  The waveform tracker of \<open>packages/application/src/peaks-tracker.ts\<close>: the closure of
  \<open>createPeaksTracker\<close> as a record, its entry objects as a store that the in-flight table and the
  outstanding asynchronous operations refer to by index. A call runs to its end; what settles later
  is a task, and an event delivers its result in any order. The port, the clock and the id source
  are taken not to throw synchronously; request ids, deadlines, the fire-and-forget save and the
  change listener have no effect on the state.
\<close>

section \<open>State\<close>

record peaksTarget =
  pt_id :: string
  pt_handle :: string
  pt_durationMs :: "jsnum option"

record sweep =
  sw_id :: string
  sw_key :: string
  sw_target :: peaksTarget
  sw_cancelled :: bool

text \<open>What is outstanding for an entry: its store lookup, its extraction with the attempt number and
  the duration it was sent, or the sleep before the next attempt.\<close>

datatype task =
    LoadTask (task_entry: nat)
  | PeaksTask (task_entry: nat) nat "jsnum option"
  | NapTask (task_entry: nat) nat

record peaksDeps =
  pd_cacheLimit :: jsnum
  pd_retryLimit :: jsnum
  pd_maxDurationMs :: jsnum
  pd_store :: bool

text \<open>A cached value: \<open>None\<close> is the \<open>null\<close> of a terminal failure.\<close>

record 'p peaksState =
  pk_cache :: "(string, 'p list option) jsmap"
  pk_finalized :: "string set"
  pk_gatedNullMs :: "(string, jsnum) jsmap"
  pk_inflight :: "(string, nat) jsmap"
  pk_pending :: "(string, (string, peaksTarget) jsmap) jsmap"
  pk_entries :: "sweep list"
  pk_tasks :: "task list"

definition createPeaksTracker :: "'p peaksState" where
  "createPeaksTracker =
     \<lparr>pk_cache = [], pk_finalized = {}, pk_gatedNullMs = [], pk_inflight = [], pk_pending = [],
      pk_entries = [], pk_tasks = []\<rparr>"

text \<open>\<open>id.slice(0, id.lastIndexOf('|'))\<close>, or the whole id without a bar.\<close>

definition contentKey :: "string \<Rightarrow> string" where
  "contentKey i =
     (if CHR ''|'' \<in> set i then rev (tl (dropWhile (\<lambda>c. c \<noteq> CHR ''|'') (rev i))) else i)"

section \<open>Helpers\<close>

abbreviation is_array :: "'p list option option \<Rightarrow> bool" where
  "is_array v \<equiv> (case v of Some (Some _) \<Rightarrow> True | _ \<Rightarrow> False)"

definition forget :: "string \<Rightarrow> 'p peaksState \<Rightarrow> 'p peaksState" where
  "forget k s = s\<lparr>pk_cache := AList.delete k (pk_cache s), pk_gatedNullMs := AList.delete k (pk_gatedNullMs s),
                  pk_finalized := pk_finalized s - {k}\<rparr>"

text \<open>The loop over the oldest keys; \<open>oldest === undefined\<close> is the empty cache.\<close>

function evict :: "peaksDeps \<Rightarrow> 'p peaksState \<Rightarrow> 'p peaksState" where
  "evict d s =
     (if num_less (pd_cacheLimit d) (jnat (length (pk_cache s)))
      then (case pk_cache s of [] \<Rightarrow> s | (oldest, v) # _ \<Rightarrow> evict d (forget oldest s))
      else s)"
  by pat_completeness auto
termination
  by (relation "measure (\<lambda>(d, s). length (pk_cache s))")
    (auto simp: forget_def AList.delete_eq less_Suc_eq_le intro: order_trans [OF length_filter_le])

declare evict.simps [simp del]

text \<open>\<open>cache.delete(k); cache.set(k, v ?? null)\<close>: the entry becomes the newest.\<close>

definition reinsert :: "string \<Rightarrow> 'p peaksState \<Rightarrow> 'p peaksState" where
  "reinsert k s =
     s\<lparr>pk_cache := AList.update k (case map_get (pk_cache s) k of Some v \<Rightarrow> v | None \<Rightarrow> None)
                    (AList.delete k (pk_cache s))\<rparr>"

definition ms_eq :: "jsnum option \<Rightarrow> jsnum option \<Rightarrow> bool" where
  "ms_eq a b = (case (a, b) of (Some x, Some y) \<Rightarrow> num_eq x y | (None, None) \<Rightarrow> True | _ \<Rightarrow> False)"

definition over_cap :: "peaksDeps \<Rightarrow> jsnum option \<Rightarrow> bool" where
  "over_cap d ms = (case ms of Some x \<Rightarrow> num_less (pd_maxDurationMs d) x | None \<Rightarrow> False)"

definition within_cap :: "peaksDeps \<Rightarrow> jsnum option \<Rightarrow> bool" where
  "within_cap d ms =
     (case ms of
        Some x \<Rightarrow> num_less x (pd_maxDurationMs d) \<or> num_eq x (pd_maxDurationMs d)
      | None \<Rightarrow> True)"

definition cancel_entry :: "nat \<Rightarrow> 'p peaksState \<Rightarrow> 'p peaksState" where
  "cancel_entry e s = s\<lparr>pk_entries := (pk_entries s)[e := (pk_entries s ! e)\<lparr>sw_cancelled := True\<rparr>]\<rparr>"

definition drop_inflight :: "string \<Rightarrow> 'p peaksState \<Rightarrow> 'p peaksState" where
  "drop_inflight i s = s\<lparr>pk_inflight := AList.delete i (pk_inflight s)\<rparr>"

text \<open>One call of \<open>attempt(n)\<close>: the port is asked with the target's duration of the moment.\<close>

definition attempt :: "nat \<Rightarrow> nat \<Rightarrow> 'p peaksState \<Rightarrow> 'p peaksState" where
  "attempt e n s =
     s\<lparr>pk_tasks := PeaksTask e n (pt_durationMs (sw_target (pk_entries s ! e))) # pk_tasks s\<rparr>"

text \<open>Taking the newest waiter of a key out of the waiting list.\<close>

definition take_waiter :: "string \<Rightarrow> 'p peaksState \<Rightarrow> (peaksTarget \<times> 'p peaksState) option" where
  "take_waiter key s =
     (case map_get (pk_pending s) key of
        None \<Rightarrow> None
      | Some waiters \<Rightarrow>
          if waiters = [] then None
          else let (newestId, target) = last waiters; rest = AList.delete newestId waiters
               in Some (target, s\<lparr>pk_pending :=
                    (if rest = [] then AList.delete key (pk_pending s)
                     else AList.update key rest (pk_pending s))\<rparr>))"

section \<open>Pulling\<close>

text \<open>The gates of \<open>pull\<close> up to the start of an extraction. \<open>Inl\<close>: the call is over; \<open>Inr key\<close>: it
  goes on with \<open>promotePending(key)\<close>.\<close>

definition start_sweep :: "peaksDeps \<Rightarrow> peaksTarget \<Rightarrow> 'p peaksState \<Rightarrow> 'p peaksState" where
  "start_sweep d target s =
     (let e = length (pk_entries s);
          entry = \<lparr>sw_id = pt_id target, sw_key = contentKey (pt_id target), sw_target = target,
                   sw_cancelled = False\<rparr>;
          s' = s\<lparr>pk_entries := pk_entries s @ [entry], pk_inflight := AList.update (pt_id target) e (pk_inflight s)\<rparr>
      in if pd_store d then s'\<lparr>pk_tasks := LoadTask e # pk_tasks s\<rparr> else attempt e 1 s')"

definition pull_live :: "peaksDeps \<Rightarrow> peaksTarget \<Rightarrow> nat \<Rightarrow> 'p peaksState \<Rightarrow> 'p peaksState + string \<times> 'p peaksState" where
  "pull_live d target e s =
     (let live = pk_entries s ! e
      in if over_cap d (pt_durationMs target) \<and> within_cap d (pt_durationMs (sw_target live))
         then Inr (sw_key live, cancel_entry e (drop_inflight (pt_id target) s))
         else Inl (s\<lparr>pk_entries := (pk_entries s)[e := live\<lparr>sw_target := target\<rparr>]\<rparr>))"

definition add_waiter :: "string \<Rightarrow> peaksTarget \<Rightarrow> 'p peaksState \<Rightarrow> 'p peaksState" where
  "add_waiter key target s =
     s\<lparr>pk_pending := AList.update key (AList.update (pt_id target) target (map_get_or [] (pk_pending s) key))
                       (pk_pending s)\<rparr>"

definition pull_start :: "peaksDeps \<Rightarrow> peaksTarget \<Rightarrow> 'p peaksState \<Rightarrow> 'p peaksState + string \<times> 'p peaksState" where
  "pull_start d target s =
     (case map_get (pk_inflight s) (pt_id target) of
        Some e \<Rightarrow> pull_live d target e s
      | None \<Rightarrow>
          if list_ex (\<lambda>(i, e). sw_key (pk_entries s ! e) = contentKey (pt_id target)) (pk_inflight s)
          then Inl (add_waiter (contentKey (pt_id target)) target s)
          else Inl (start_sweep d target s))"

definition pull_gates :: "peaksDeps \<Rightarrow> peaksTarget \<Rightarrow> 'p peaksState \<Rightarrow> 'p peaksState + string \<times> 'p peaksState" where
  "pull_gates d target s =
     (let i = pt_id target; ms = pt_durationMs target
      in if contentKey i \<in> pk_finalized s then Inl (reinsert (contentKey i) s)
         else case map_get (pk_cache s) i of
                None \<Rightarrow> pull_start d target s
              | Some v \<Rightarrow>
                  (case map_get (pk_gatedNullMs s) i of
                     Some judged \<Rightarrow>
                       if \<not> ms_eq ms (Some judged) \<and> within_cap d ms
                       then pull_start d target
                              (s\<lparr>pk_gatedNullMs := AList.delete i (pk_gatedNullMs s),
                                 pk_cache := AList.delete i (pk_cache s)\<rparr>)
                       else if v = None then Inl (reinsert i s)
                       else pull_start d target s
                   | None \<Rightarrow>
                       if v = None then Inl (reinsert i s) else pull_start d target s))"

definition waiting :: "'p peaksState \<Rightarrow> nat" where
  "waiting s = (\<Sum>(k, ws)\<leftarrow>pk_pending s. length ws)"

lemma delete_waiting_le:
  "(\<Sum>(k, ws)\<leftarrow>AList.delete k m. length ws) \<le> (\<Sum>(k, ws)\<leftarrow>m. length ws)"
  by (induction m) auto

lemma waiting_delete: "map_get m k = Some ws \<Longrightarrow>
    (\<Sum>(k, ws)\<leftarrow>AList.delete k m. length ws) + length ws \<le> (\<Sum>(k, ws)\<leftarrow>m. length ws)"
  by (induction m) (auto split: if_splits simp: delete_waiting_le)

lemma waiting_update: "map_get m k = Some ws \<Longrightarrow>
    (\<Sum>(k, ws)\<leftarrow>AList.update k rest m. length ws) + length ws = (\<Sum>(k, ws)\<leftarrow>m. length ws) + length rest"
  by (induction m) (auto split: if_splits)

lemma delete_last_less: "ws \<noteq> [] \<Longrightarrow> length (AList.delete (fst (last ws)) ws) < length ws"
  by (induction ws) (auto simp: AList.delete_eq less_Suc_eq_le intro!: length_filter_less)

lemma take_waiter_less:
  assumes "take_waiter key s = Some (t, s')"
  shows "waiting s' < waiting s"
proof -
  obtain ws where ws: "map_get (pk_pending s) key = Some ws" "ws \<noteq> []"
    and s': "s' = s\<lparr>pk_pending := (if AList.delete (fst (last ws)) ws = [] then AList.delete key (pk_pending s)
      else AList.update key (AList.delete (fst (last ws)) ws) (pk_pending s))\<rparr>"
    using assms by (auto simp: take_waiter_def Let_def split: option.splits if_splits prod.splits)
  have "0 < length ws" using ws(2) by simp
  with waiting_delete [OF ws(1)] waiting_update [OF ws(1), of "AList.delete (fst (last ws)) ws"]
    delete_last_less [OF ws(2)]
  show ?thesis by (auto simp: waiting_def s')
qed

lemma pull_gates_pending: "pull_gates d t s = Inr (key, s') \<Longrightarrow> pk_pending s' = pk_pending s"
  by (auto simp: pull_gates_def pull_start_def pull_live_def cancel_entry_def drop_inflight_def Let_def
      split: if_splits option.splits)

function pull :: "peaksDeps \<Rightarrow> peaksTarget \<Rightarrow> 'p peaksState \<Rightarrow> 'p peaksState" where
  "pull d target s =
     (case pull_gates d target s of
        Inl s' \<Rightarrow> s'
      | Inr (key, s') \<Rightarrow>
          (case take_waiter key s' of
             None \<Rightarrow> s'
           | Some (t, s'') \<Rightarrow> if key \<in> pk_finalized s'' then s'' else pull d t s''))"
  by pat_completeness auto
termination
  using take_waiter_less pull_gates_pending
  by (relation "measure (\<lambda>(d, t, s). waiting s)") (fastforce simp: waiting_def)+

declare pull.simps [simp del]

definition promotePending :: "peaksDeps \<Rightarrow> string \<Rightarrow> 'p peaksState \<Rightarrow> 'p peaksState" where
  "promotePending d key s =
     (case take_waiter key s of
        None \<Rightarrow> s
      | Some (t, s') \<Rightarrow> if key \<in> pk_finalized s' then s' else pull d t s')"

lemma pull_promotes:
  "pull d t s = (case pull_gates d t s of Inl s' \<Rightarrow> s' | Inr (key, s') \<Rightarrow> promotePending d key s')"
  by (subst pull.simps) (simp add: promotePending_def split: sum.split prod.split)

section \<open>What settles later\<close>

definition drop_task :: "task \<Rightarrow> 'p peaksState \<Rightarrow> 'p peaksState" where
  "drop_task t s = s\<lparr>pk_tasks := remove1 t (pk_tasks s)\<rparr>"

text \<open>The end of a sweep: out of flight, and the newest waiter of its content is promoted.\<close>

definition end_sweep :: "peaksDeps \<Rightarrow> sweep \<Rightarrow> 'p peaksState \<Rightarrow> 'p peaksState" where
  "end_sweep d entry s = promotePending d (sw_key entry) (drop_inflight (sw_id entry) s)"

definition keep_profile :: "peaksDeps \<Rightarrow> sweep \<Rightarrow> 'p list \<Rightarrow> 'p peaksState \<Rightarrow> 'p peaksState" where
  "keep_profile d entry peaks s =
     (let cache = AList.update (sw_key entry) (Some peaks) (pk_cache s)
      in evict d (s\<lparr>pk_cache := (if sw_id entry \<noteq> sw_key entry then AList.delete (sw_id entry) cache else cache),
                    pk_finalized := insert (sw_key entry) (pk_finalized s),
                    pk_gatedNullMs := AList.delete (sw_id entry) (pk_gatedNullMs s)\<rparr>))"

definition keep_failure :: "peaksDeps \<Rightarrow> sweep \<Rightarrow> appError \<Rightarrow> jsnum option \<Rightarrow> 'p peaksState \<Rightarrow> 'p peaksState" where
  "keep_failure d entry e sentMs s =
     evict d (s\<lparr>pk_cache := AList.update (sw_id entry) None (pk_cache s),
                pk_gatedNullMs :=
                  (case sentMs of
                     Some ms \<Rightarrow>
                       if ae_kind e = BudgetExceeded \<and> over_cap d sentMs
                       then AList.update (sw_id entry) ms (pk_gatedNullMs s) else pk_gatedNullMs s
                   | None \<Rightarrow> pk_gatedNullMs s)\<rparr>)"

definition settle :: "peaksDeps \<Rightarrow> nat \<Rightarrow> nat \<Rightarrow> jsnum option \<Rightarrow> 'p list result \<Rightarrow> 'p peaksState \<Rightarrow> 'p peaksState" where
  "settle d e n sentMs res s =
     (let entry = pk_entries s ! e; ms = pt_durationMs (sw_target entry)
      in if sw_cancelled entry then s
         else case res of
           Inr peaks \<Rightarrow> end_sweep d entry (keep_profile d entry peaks s)
         | Inl err \<Rightarrow>
             if ae_kind err = NotApplicable then
               (if ms \<noteq> None \<and> \<not> ms_eq ms sentMs then attempt e 1 s else end_sweep d entry s)
             else if ae_kind err = BudgetExceeded \<or> ae_kind err = InvalidResponse
             then end_sweep d entry (keep_failure d entry err sentMs s)
             else if num_less (jnat n) (pd_retryLimit d) then s\<lparr>pk_tasks := NapTask e n # pk_tasks s\<rparr>
             else end_sweep d entry s)"

text \<open>The store lookup: \<open>None\<close> is a rejected promise.\<close>

definition store_loaded :: "peaksDeps \<Rightarrow> nat \<Rightarrow> 'p list option option \<Rightarrow> 'p peaksState \<Rightarrow> 'p peaksState" where
  "store_loaded d e res s =
     (let entry = pk_entries s ! e
      in if sw_cancelled entry then s
         else case res of
           Some (Some peaks) \<Rightarrow>
             if peaks = [] then attempt e 1 s
             else evict d ((drop_inflight (sw_id entry) s)
                    \<lparr>pk_cache := AList.update (sw_key entry) (Some peaks) (pk_cache s),
                     pk_finalized := insert (sw_key entry) (pk_finalized s),
                     pk_pending := AList.delete (sw_key entry) (pk_pending s)\<rparr>)
         | _ \<Rightarrow> attempt e 1 s)"

definition onCoarse :: "peaksDeps \<Rightarrow> nat \<Rightarrow> 'p list \<Rightarrow> 'p peaksState \<Rightarrow> 'p peaksState" where
  "onCoarse d e coarse s =
     (let entry = pk_entries s ! e
      in if \<not> sw_cancelled entry \<and> \<not> is_array (map_get (pk_cache s) (sw_key entry))
         then evict d (s\<lparr>pk_cache := AList.update (sw_key entry) (Some coarse) (pk_cache s)\<rparr>)
         else s)"

definition woke :: "nat \<Rightarrow> nat \<Rightarrow> bool \<Rightarrow> 'p peaksState \<Rightarrow> 'p peaksState" where
  "woke e n slept s = (if slept \<and> \<not> sw_cancelled (pk_entries s ! e) then attempt e (n + 1) s else s)"

definition cancel :: "peaksDeps \<Rightarrow> string \<Rightarrow> 'p peaksState \<Rightarrow> 'p peaksState" where
  "cancel d i s =
     (case map_get (pk_inflight s) i of
        None \<Rightarrow>
          (case map_get (pk_pending s) (contentKey i) of
             None \<Rightarrow> s
           | Some waiters \<Rightarrow>
               let rest = AList.delete i waiters
               in s\<lparr>pk_pending := (if rest = [] then AList.delete (contentKey i) (pk_pending s)
                                  else AList.update (contentKey i) rest (pk_pending s))\<rparr>)
      | Some e \<Rightarrow> promotePending d (sw_key (pk_entries s ! e)) (cancel_entry e (drop_inflight i s)))"

text \<open>\<open>cache.get(contentKey(id)) ?? cache.get(id)\<close>\<close>

definition peaks_get :: "'p peaksState \<Rightarrow> string \<Rightarrow> 'p list option option" where
  "peaks_get s i =
     (case map_get (pk_cache s) (contentKey i) of
        Some (Some peaks) \<Rightarrow> Some (Some peaks)
      | _ \<Rightarrow> map_get (pk_cache s) i)"

section \<open>Reachable states\<close>

text \<open>Any interleaving of calls and results. A sleep fails only through its signal, as the clock of
  \<open>runtime-impls.ts\<close> does; a coarse profile may come at any time; an id is a recording id without
  a bar, or that and an attempt id behind one.\<close>

inductive peaks_reach :: "peaksDeps \<Rightarrow> 'p peaksState \<Rightarrow> bool" for d where
  Start: "peaks_reach d createPeaksTracker"
| Pull: "peaks_reach d s \<Longrightarrow> CHR ''|'' \<notin> set (contentKey (pt_id target)) \<Longrightarrow>
    peaks_reach d (pull d target s)"
| Cancel: "peaks_reach d s \<Longrightarrow> peaks_reach d (cancel d i s)"
| Loaded: "peaks_reach d s \<Longrightarrow> LoadTask e \<in> set (pk_tasks s) \<Longrightarrow>
    peaks_reach d (store_loaded d e loadRes (drop_task (LoadTask e) s))"
| Settled: "peaks_reach d s \<Longrightarrow> PeaksTask e n sentMs \<in> set (pk_tasks s) \<Longrightarrow>
    peaks_reach d (settle d e n sentMs res (drop_task (PeaksTask e n sentMs) s))"
| Coarse: "peaks_reach d s \<Longrightarrow> e < length (pk_entries s) \<Longrightarrow> peaks_reach d (onCoarse d e coarse s)"
| Woke: "peaks_reach d s \<Longrightarrow> NapTask e n \<in> set (pk_tasks s) \<Longrightarrow>
    slept \<or> sw_cancelled (pk_entries s ! e) \<Longrightarrow> peaks_reach d (woke e n slept (drop_task (NapTask e n) s))"

end
