(* ===== verification/PeaksLaws.thy ===== *)
theory PeaksLaws
  imports PeaksTracker
begin

text \<open>
  Invariants of the waveform tracker over every reachable state: which sweeps are alive
  (\<open>sweeps_ok\<close>), what the cache holds (\<open>cache_ok\<close>), and who waits for what (\<open>waiters_ok\<close>).
\<close>

section \<open>Frames\<close>

text \<open>The part of the state the sweeps live in.\<close>

definition same_sweeps :: "'p peaksState \<Rightarrow> 'p peaksState \<Rightarrow> bool" where
  "same_sweeps s s' \<longleftrightarrow>
     pk_inflight s' = pk_inflight s \<and> pk_entries s' = pk_entries s \<and> pk_tasks s' = pk_tasks s"

lemma same_sweeps_refl [simp]: "same_sweeps s s"
  by (simp add: same_sweeps_def)

lemma evict_frame:
  "same_sweeps s (evict d s) \<and> pk_pending (evict d s) = pk_pending s"
proof (induction d s rule: evict.induct)
  case (1 d s)
  then show ?case
    by (subst (1 2) evict.simps) (auto simp: same_sweeps_def forget_def split: list.split)
qed

lemma evict_simps [simp]:
  "pk_inflight (evict d s) = pk_inflight s" "pk_entries (evict d s) = pk_entries s"
  "pk_tasks (evict d s) = pk_tasks s" "pk_pending (evict d s) = pk_pending s"
  using evict_frame [of s d] by (simp_all add: same_sweeps_def)

lemma take_waiter_frame:
  "take_waiter key s = Some (t, s') \<Longrightarrow>
   same_sweeps s s' \<and> pk_cache s' = pk_cache s \<and> pk_finalized s' = pk_finalized s \<and>
   pk_gatedNullMs s' = pk_gatedNullMs s"
  by (auto simp: take_waiter_def same_sweeps_def Let_def split: option.splits if_splits prod.splits)

section \<open>Sweeps\<close>

definition tasks_of :: "nat \<Rightarrow> 'p peaksState \<Rightarrow> task list" where
  "tasks_of e s = filter (\<lambda>t. task_entry t = e) (pk_tasks s)"

definition in_flight :: "nat \<Rightarrow> 'p peaksState \<Rightarrow> bool" where
  "in_flight e s \<longleftrightarrow> (sw_id (pk_entries s ! e), e) \<in> set (pk_inflight s)"

text \<open>Every sweep in flight is an uncancelled entry under its own id, with exactly one operation
  outstanding, except the entry of the hole, whose operation has just settled; an uncancelled entry
  out of flight has none. No two sweeps in flight share their content.\<close>

definition sweeps_ok :: "nat option \<Rightarrow> 'p peaksState \<Rightarrow> bool" where
  "sweeps_ok hole s \<longleftrightarrow>
     distinct (keys (pk_inflight s)) \<and>
     (\<forall>(i, e)\<in>set (pk_inflight s). e < length (pk_entries s) \<and> sw_id (pk_entries s ! e) = i \<and>
        \<not> sw_cancelled (pk_entries s ! e)) \<and>
     (\<forall>e<length (pk_entries s). sw_key (pk_entries s ! e) = contentKey (sw_id (pk_entries s ! e))) \<and>
     (\<forall>t\<in>set (pk_tasks s). task_entry t < length (pk_entries s)) \<and>
     (\<forall>e<length (pk_entries s). \<not> sw_cancelled (pk_entries s ! e) \<longrightarrow>
        length (tasks_of e s) = (if in_flight e s \<and> hole \<noteq> Some e then 1 else 0)) \<and>
     (\<forall>e f. in_flight e s \<and> in_flight f s \<and> sw_key (pk_entries s ! e) = sw_key (pk_entries s ! f) \<longrightarrow> e = f)"

lemma sweeps_ok_frame: "same_sweeps s s' \<Longrightarrow> sweeps_ok hole s' \<longleftrightarrow> sweeps_ok hole s"
  by (simp add: sweeps_ok_def same_sweeps_def tasks_of_def in_flight_def)

lemma sweeps_okI:
  assumes "distinct (keys (pk_inflight s))"
    "\<And>i e. (i, e) \<in> set (pk_inflight s) \<Longrightarrow> e < length (pk_entries s) \<and> sw_id (pk_entries s ! e) = i \<and>
       \<not> sw_cancelled (pk_entries s ! e)"
    "\<And>e. e < length (pk_entries s) \<Longrightarrow> sw_key (pk_entries s ! e) = contentKey (sw_id (pk_entries s ! e))"
    "\<And>t. t \<in> set (pk_tasks s) \<Longrightarrow> task_entry t < length (pk_entries s)"
    "\<And>e. e < length (pk_entries s) \<Longrightarrow> \<not> sw_cancelled (pk_entries s ! e) \<Longrightarrow>
       length (tasks_of e s) = (if in_flight e s \<and> hole \<noteq> Some e then 1 else 0)"
    "\<And>e f. in_flight e s \<Longrightarrow> in_flight f s \<Longrightarrow> sw_key (pk_entries s ! e) = sw_key (pk_entries s ! f) \<Longrightarrow> e = f"
  shows "sweeps_ok hole s"
  unfolding sweeps_ok_def using assms by blast

lemma sweeps_okD:
  assumes "sweeps_ok hole s"
  shows "distinct (keys (pk_inflight s))"
    "(i, e) \<in> set (pk_inflight s) \<Longrightarrow> e < length (pk_entries s) \<and> sw_id (pk_entries s ! e) = i \<and>
       \<not> sw_cancelled (pk_entries s ! e)"
    "e < length (pk_entries s) \<Longrightarrow> sw_key (pk_entries s ! e) = contentKey (sw_id (pk_entries s ! e))"
    "t \<in> set (pk_tasks s) \<Longrightarrow> task_entry t < length (pk_entries s)"
    "e < length (pk_entries s) \<Longrightarrow> \<not> sw_cancelled (pk_entries s ! e) \<Longrightarrow>
       length (tasks_of e s) = (if in_flight e s \<and> hole \<noteq> Some e then 1 else 0)"
    "in_flight e s \<Longrightarrow> in_flight f s \<Longrightarrow> sw_key (pk_entries s ! e) = sw_key (pk_entries s ! f) \<Longrightarrow> e = f"
    "in_flight e s \<Longrightarrow> e < length (pk_entries s) \<and> \<not> sw_cancelled (pk_entries s ! e)"
    "(i, e) \<in> set (pk_inflight s) \<Longrightarrow> in_flight e s"
proof -
  note ok = assms [unfolded sweeps_ok_def]
  show "distinct (keys (pk_inflight s))" using ok by (elim conjE)
  show entry: "e < length (pk_entries s) \<and> sw_id (pk_entries s ! e) = i \<and> \<not> sw_cancelled (pk_entries s ! e)"
    if "(i, e) \<in> set (pk_inflight s)" for i e using ok that by (elim conjE) fast
  show "e < length (pk_entries s) \<Longrightarrow> sw_key (pk_entries s ! e) = contentKey (sw_id (pk_entries s ! e))"
    using ok by (elim conjE) fast
  show "t \<in> set (pk_tasks s) \<Longrightarrow> task_entry t < length (pk_entries s)" using ok by (elim conjE) fast
  show "e < length (pk_entries s) \<Longrightarrow> \<not> sw_cancelled (pk_entries s ! e) \<Longrightarrow>
       length (tasks_of e s) = (if in_flight e s \<and> hole \<noteq> Some e then 1 else 0)"
    using ok by (elim conjE) simp
  have "\<forall>e f. in_flight e s \<and> in_flight f s \<and> sw_key (pk_entries s ! e) = sw_key (pk_entries s ! f) \<longrightarrow> e = f"
    using ok by (elim conjE)
  then show "in_flight e s \<Longrightarrow> in_flight f s \<Longrightarrow> sw_key (pk_entries s ! e) = sw_key (pk_entries s ! f) \<Longrightarrow> e = f"
    by simp
  show "in_flight e s \<Longrightarrow> e < length (pk_entries s) \<and> \<not> sw_cancelled (pk_entries s ! e)"
    using entry unfolding in_flight_def by blast
  show "in_flight e s" if "(i, e) \<in> set (pk_inflight s)"
    using entry [OF that] that by (simp add: in_flight_def)
qed

text \<open>The settled operation leaves the list: the entry becomes the hole, or was cancelled before.\<close>

lemma in_set_remove1D: "x \<in> set (remove1 y xs) \<Longrightarrow> x \<in> set xs"
  by (metis notin_set_remove1)

lemma drop_task_tasks:
  "tasks_of f (drop_task t s) = (if f = task_entry t then remove1 t (tasks_of f s) else tasks_of f s)"
proof -
  have "filter P (remove1 t xs) = (if P t then remove1 t (filter P xs) else filter P xs)" for P xs
    by (induction xs) auto
  then show ?thesis by (simp add: tasks_of_def drop_task_def)
qed

lemma drop_task_frame [simp]:
  "pk_entries (drop_task t s) = pk_entries s" "pk_inflight (drop_task t s) = pk_inflight s"
  "pk_tasks (drop_task t s) = remove1 t (pk_tasks s)" "in_flight f (drop_task t s) = in_flight f s"
  by (simp_all add: drop_task_def in_flight_def)

lemma drop_task_live:
  assumes "sweeps_ok None s" "t \<in> set (pk_tasks s)" "\<not> sw_cancelled (pk_entries s ! task_entry t)"
  shows "in_flight (task_entry t) s \<and> length (tasks_of (task_entry t) s) = 1"
proof -
  have "0 < length (tasks_of (task_entry t) s)" using assms(2) by (auto simp: tasks_of_def filter_empty_conv)
  with sweeps_okD(5) [OF assms(1) sweeps_okD(4) [OF assms(1,2)] assms(3)]
  show ?thesis by (auto split: if_splits)
qed

lemma drop_task_ok:
  assumes "sweeps_ok None s" "t \<in> set (pk_tasks s)"
  shows "sweeps_ok (if sw_cancelled (pk_entries s ! task_entry t) then None else Some (task_entry t)) (drop_task t s)"
proof (rule sweeps_okI)
  fix e
  assume e: "e < length (pk_entries (drop_task t s))" "\<not> sw_cancelled (pk_entries (drop_task t s) ! e)"
  show "length (tasks_of e (drop_task t s)) =
    (if in_flight e (drop_task t s) \<and>
        (if sw_cancelled (pk_entries s ! task_entry t) then None else Some (task_entry t)) \<noteq> Some e
     then 1 else 0)"
  proof (cases "e = task_entry t")
    case True
    then have "t \<in> set (tasks_of e s)" using assms(2) by (simp add: tasks_of_def)
    then show ?thesis
      using True e drop_task_live [OF assms] by (simp add: drop_task_tasks length_remove1)
  next
    case False
    then show ?thesis using e sweeps_okD(5) [OF assms(1), of e] by (auto simp: drop_task_tasks)
  qed
next
  fix u assume "u \<in> set (pk_tasks (drop_task t s))"
  then have "u \<in> set (pk_tasks s)" by (auto dest: in_set_remove1D)
  then show "task_entry u < length (pk_entries (drop_task t s))" using sweeps_okD(4) [OF assms(1)] by simp
qed (use sweeps_okD [OF assms(1)] in auto)


text \<open>The next operation of the hole, or its end.\<close>

lemma push_task_ok:
  assumes "sweeps_ok (Some e) s" "in_flight e s" "task_entry t = e"
  shows "sweeps_ok None (s\<lparr>pk_tasks := t # pk_tasks s\<rparr>)"
proof -
  have e: "e < length (pk_entries s)" "\<not> sw_cancelled (pk_entries s ! e)"
    using assms(1,2) by (auto simp: sweeps_ok_def in_flight_def)
  have tasks: "tasks_of f (s\<lparr>pk_tasks := t # pk_tasks s\<rparr>) = (if f = e then t # tasks_of f s else tasks_of f s)" for f
    using assms(3) by (simp add: tasks_of_def)
  have frame: "in_flight f (s\<lparr>pk_tasks := t # pk_tasks s\<rparr>) = in_flight f s" for f
    by (simp add: in_flight_def)
  show ?thesis
  proof (rule sweeps_okI)
    fix f assume "f < length (pk_entries (s\<lparr>pk_tasks := t # pk_tasks s\<rparr>))"
      "\<not> sw_cancelled (pk_entries (s\<lparr>pk_tasks := t # pk_tasks s\<rparr>) ! f)"
    then have "length (tasks_of f s) = (if in_flight f s \<and> Some e \<noteq> Some f then 1 else 0)"
      using sweeps_okD(5) [OF assms(1), of f] by simp
    then show "length (tasks_of f (s\<lparr>pk_tasks := t # pk_tasks s\<rparr>)) =
        (if in_flight f (s\<lparr>pk_tasks := t # pk_tasks s\<rparr>) \<and> None \<noteq> Some f then 1 else 0)"
      unfolding frame tasks using assms(2) by (cases "f = e") simp_all
  next
    fix f g assume "in_flight f (s\<lparr>pk_tasks := t # pk_tasks s\<rparr>)" "in_flight g (s\<lparr>pk_tasks := t # pk_tasks s\<rparr>)"
      "sw_key (pk_entries (s\<lparr>pk_tasks := t # pk_tasks s\<rparr>) ! f) = sw_key (pk_entries (s\<lparr>pk_tasks := t # pk_tasks s\<rparr>) ! g)"
    then show "f = g" using sweeps_okD(6) [OF assms(1), of f g] by (simp add: frame)
  qed (use e assms(3) sweeps_okD(1-4) [OF assms(1)] in auto)
qed

lemma attempt_ok: "sweeps_ok (Some e) s \<Longrightarrow> in_flight e s \<Longrightarrow> sweeps_ok None (attempt e n s)"
  unfolding attempt_def by (rule push_task_ok) simp_all

lemma drop_inflight_flight:
  "sweeps_ok hole s \<Longrightarrow> i = sw_id (pk_entries s ! e) \<Longrightarrow> in_flight e s \<Longrightarrow>
   in_flight f (drop_inflight i s) \<longleftrightarrow> in_flight f s \<and> f \<noteq> e"
  by (auto simp: in_flight_def drop_inflight_def delete_mem sweeps_ok_def keys_def
      dest: eq_key_imp_eq_value)

lemma drop_inflight_ok:
  assumes "sweeps_ok (Some e) s" "in_flight e s"
  shows "sweeps_ok None (drop_inflight (sw_id (pk_entries s ! e)) s)"
proof -
  note flight = drop_inflight_flight [OF assms(1) refl assms(2)]
  have tasks: "tasks_of f (drop_inflight (sw_id (pk_entries s ! e)) s) = tasks_of f s" for f
    by (simp add: tasks_of_def drop_inflight_def)
  have rest: "pk_entries (drop_inflight i s) = pk_entries s" "pk_tasks (drop_inflight i s) = pk_tasks s"
    "pk_inflight (drop_inflight i s) = AList.delete i (pk_inflight s)" for i
    by (simp_all add: drop_inflight_def)
  show ?thesis
  proof (rule sweeps_okI)
    fix f assume "f < length (pk_entries (drop_inflight (sw_id (pk_entries s ! e)) s))"
      "\<not> sw_cancelled (pk_entries (drop_inflight (sw_id (pk_entries s ! e)) s) ! f)"
    then show "length (tasks_of f (drop_inflight (sw_id (pk_entries s ! e)) s)) =
        (if in_flight f (drop_inflight (sw_id (pk_entries s ! e)) s) \<and> None \<noteq> Some f then 1 else 0)"
      using sweeps_okD(5) [OF assms(1), of f] by (auto simp: flight tasks rest)
  qed (use sweeps_okD(1-4,6) [OF assms(1)] in \<open>auto simp: flight rest keys_delete delete_mem\<close>)
qed

lemma cancel_flight_ok:
  assumes "sweeps_ok None s" "in_flight e s"
  shows "sweeps_ok None (cancel_entry e (drop_inflight (sw_id (pk_entries s ! e)) s))"
proof -
  let ?s = "drop_inflight (sw_id (pk_entries s ! e)) s"
  have e: "e < length (pk_entries s)" using assms by (auto simp: sweeps_ok_def in_flight_def)
  note flight = drop_inflight_flight [OF assms(1) refl assms(2)]
  have ent: "pk_entries (cancel_entry e ?s) ! f =
      (if f = e then (pk_entries s ! e)\<lparr>sw_cancelled := True\<rparr> else pk_entries s ! f)" for f
    using e by (simp add: cancel_entry_def drop_inflight_def)
  have "sw_id (pk_entries (cancel_entry e ?s) ! f) = sw_id (pk_entries s ! f)" for f
    by (simp add: ent)
  then have fl: "in_flight f (cancel_entry e ?s) \<longleftrightarrow> in_flight f s \<and> f \<noteq> e" for f
    using flight [of f] by (simp add: in_flight_def cancel_entry_def drop_inflight_def)
  have rest: "tasks_of f (cancel_entry e ?s) = tasks_of f s" "pk_tasks (cancel_entry e ?s) = pk_tasks s"
    "length (pk_entries (cancel_entry e ?s)) = length (pk_entries s)"
    "pk_inflight (cancel_entry e ?s) = AList.delete (sw_id (pk_entries s ! e)) (pk_inflight s)" for f
    by (simp_all add: tasks_of_def cancel_entry_def drop_inflight_def)
  have other: "f \<noteq> e" if "(i, f) \<in> set (pk_inflight s)" "i \<noteq> sw_id (pk_entries s ! e)" for i f
    using that sweeps_okD(2) [OF assms(1)] by blast
  show ?thesis
  proof (rule sweeps_okI)
    fix f assume "f < length (pk_entries (cancel_entry e ?s))" "\<not> sw_cancelled (pk_entries (cancel_entry e ?s) ! f)"
    then show "length (tasks_of f (cancel_entry e ?s)) = (if in_flight f (cancel_entry e ?s) \<and> None \<noteq> Some f then 1 else 0)"
      using sweeps_okD(5) [OF assms(1), of f] by (auto simp: fl rest ent split: if_splits)
  qed (use sweeps_okD(1-4,6) [OF assms(1)] e other in \<open>auto simp: fl rest ent keys_delete delete_mem\<close>)
qed

text \<open>A new sweep needs an id and a content that are not in flight.\<close>

lemma start_sweep_ok:
  assumes "sweeps_ok None s" "map_get (pk_inflight s) (pt_id t) = None"
    "\<And>e. in_flight e s \<Longrightarrow> sw_key (pk_entries s ! e) \<noteq> contentKey (pt_id t)"
  shows "sweeps_ok None (start_sweep d t s)"
proof -
  let ?s = "start_sweep d t s" and ?n = "length (pk_entries s)"
  define entry where "entry = \<lparr>sw_id = pt_id t, sw_key = contentKey (pt_id t), sw_target = t, sw_cancelled = False\<rparr>"
  have "\<exists>u. task_entry u = ?n \<and> pk_tasks ?s = u # pk_tasks s"
    by (cases "pd_store d") (simp_all add: start_sweep_def attempt_def Let_def)
  then obtain u where u: "task_entry u = ?n" "pk_tasks ?s = u # pk_tasks s" by blast
  have st: "pk_entries ?s = pk_entries s @ [entry]" "pk_inflight ?s = AList.update (pt_id t) ?n (pk_inflight s)"
    by (simp_all add: start_sweep_def attempt_def Let_def entry_def)
  have absent: "pt_id t \<notin> set (keys (pk_inflight s))"
    using assms(2) by (auto simp: keys_def map_of_eq_None_iff)
  have ent: "pk_entries ?s ! e = (if e = ?n then entry else pk_entries s ! e)" if "e \<le> ?n" for e
    using that by (auto simp: st nth_append)
  have fl: "in_flight e ?s \<longleftrightarrow> e = ?n \<or> in_flight e s" if "e \<le> ?n" for e
  proof (cases "e = ?n")
    case True
    then show ?thesis by (simp add: in_flight_def st update_mem_absent [OF absent] entry_def)
  next
    case False
    then show ?thesis using that by (simp add: in_flight_def st update_mem_absent [OF absent] nth_append)
  qed
  have le: "e \<le> ?n" if "in_flight e ?s" for e
    using that sweeps_okD(2) [OF assms(1)]
    by (fastforce simp: in_flight_def st update_mem_absent [OF absent])
  have tasks: "tasks_of e ?s = (if e = ?n then u # tasks_of e s else tasks_of e s)" for e
    using u by (simp add: tasks_of_def)
  have none: "tasks_of ?n s = []"
    using sweeps_okD(4) [OF assms(1)] by (fastforce simp: tasks_of_def filter_empty_conv)
  show ?thesis
  proof (rule sweeps_okI)
    show "distinct (keys (pk_inflight ?s))"
      using sweeps_okD(1) [OF assms(1)] absent by (simp add: st keys_def update_keys)
  next
    fix i e assume "(i, e) \<in> set (pk_inflight ?s)"
    then have "(i, e) \<in> set (pk_inflight s) \<or> (i = pt_id t \<and> e = ?n)"
      by (simp add: st update_mem_absent [OF absent])
    then show "e < length (pk_entries ?s) \<and> sw_id (pk_entries ?s ! e) = i \<and> \<not> sw_cancelled (pk_entries ?s ! e)"
      using sweeps_okD(2) [OF assms(1), of i e] by (auto simp: st nth_append entry_def)
  next
    fix e assume "e < length (pk_entries ?s)"
    then show "sw_key (pk_entries ?s ! e) = contentKey (sw_id (pk_entries ?s ! e))"
      using sweeps_okD(3) [OF assms(1), of e] by (auto simp: st nth_append entry_def)
  next
    fix v assume "v \<in> set (pk_tasks ?s)"
    then show "task_entry v < length (pk_entries ?s)"
      using sweeps_okD(4) [OF assms(1), of v] u by (auto simp: st)
  next
    fix e assume e: "e < length (pk_entries ?s)" "\<not> sw_cancelled (pk_entries ?s ! e)"
    then have "e \<le> ?n" by (simp add: st)
    then show "length (tasks_of e ?s) = (if in_flight e ?s \<and> None \<noteq> Some e then 1 else 0)"
      using e sweeps_okD(5) [OF assms(1), of e] none by (auto simp: fl tasks ent st nth_append)
  next
    fix e f assume ef: "in_flight e ?s" "in_flight f ?s" "sw_key (pk_entries ?s ! e) = sw_key (pk_entries ?s ! f)"
    note le = le [OF ef(1)] le [OF ef(2)]
    show "e = f"
    proof (cases "e = ?n \<or> f = ?n")
      case True
      then show ?thesis
        using ef assms(3) [of e] assms(3) [of f] le by (auto simp: fl ent entry_def split: if_splits)
    next
      case False
      then show ?thesis using ef le sweeps_okD(6) [OF assms(1), of e f] by (simp add: fl ent)
    qed
  qed
qed

lemma retarget_ok:
  assumes "sweeps_ok hole s"
  shows "sweeps_ok hole (s\<lparr>pk_entries := (pk_entries s)[e := (pk_entries s ! e)\<lparr>sw_target := t\<rparr>]\<rparr>)"
proof (cases "e < length (pk_entries s)")
  case True
  let ?s = "s\<lparr>pk_entries := (pk_entries s)[e := (pk_entries s ! e)\<lparr>sw_target := t\<rparr>]\<rparr>"
  have ent: "sw_id (pk_entries ?s ! f) = sw_id (pk_entries s ! f)" "sw_key (pk_entries ?s ! f) = sw_key (pk_entries s ! f)"
    "sw_cancelled (pk_entries ?s ! f) = sw_cancelled (pk_entries s ! f)" for f
    using True by (cases "f = e"; simp)+
  then have fl: "in_flight f ?s = in_flight f s" "tasks_of f ?s = tasks_of f s" for f
    by (simp_all add: in_flight_def tasks_of_def)
  show ?thesis
    using assms unfolding sweeps_ok_def fl ent by simp
next
  case False
  then have "(pk_entries s)[e := x] = pk_entries s" for x by (simp add: list_update_beyond not_less)
  then show ?thesis using assms by simp
qed

lemma pull_start_ok:
  assumes "sweeps_ok None s"
  shows "case pull_start d t s of Inl s' \<Rightarrow> sweeps_ok None s' | Inr (key, s') \<Rightarrow> sweeps_ok None s'"
proof (cases "map_get (pk_inflight s) (pt_id t)")
  case None
  show ?thesis
  proof (cases "list_ex (\<lambda>(i, e). sw_key (pk_entries s ! e) = contentKey (pt_id t)) (pk_inflight s)")
    case True
    then show ?thesis
      using None sweeps_ok_frame [of s "add_waiter (contentKey (pt_id t)) t s"] assms
      by (simp add: pull_start_def same_sweeps_def add_waiter_def)
  next
    case False
    then have "sw_key (pk_entries s ! e) \<noteq> contentKey (pt_id t)" if "in_flight e s" for e
      using that by (auto simp: list_ex_iff in_flight_def)
    then show ?thesis using None False start_sweep_ok [OF assms None] by (simp add: pull_start_def)
  qed
next
  case (Some e)
  then have e: "sw_id (pk_entries s ! e) = pt_id t" "in_flight e s"
    using sweeps_okD(2,8) [OF assms] by (auto dest!: map_of_SomeD)
  then show ?thesis
    using Some cancel_flight_ok [OF assms e(2)] retarget_ok [OF assms]
    by (simp add: pull_start_def pull_live_def Let_def)
qed

lemma pull_gates_ok:
  assumes "sweeps_ok None s"
  shows "case pull_gates d t s of Inl s' \<Rightarrow> sweeps_ok None s' | Inr (key, s') \<Rightarrow> sweeps_ok None s'"
proof -
  have re: "sweeps_ok None (reinsert k s)" for k
    using assms sweeps_ok_frame [of s "reinsert k s"] by (simp add: same_sweeps_def reinsert_def)
  have clear: "sweeps_ok None (s\<lparr>pk_gatedNullMs := g, pk_cache := c\<rparr>)" for g c
    using assms sweeps_ok_frame [of s "s\<lparr>pk_gatedNullMs := g, pk_cache := c\<rparr>"] by (simp add: same_sweeps_def)
  show ?thesis
    using pull_start_ok [OF assms, of d t] pull_start_ok [OF clear, of d t] re
    by (auto simp: pull_gates_def Let_def split: option.splits)
qed

lemma pull_ok: "sweeps_ok None s \<Longrightarrow> sweeps_ok None (pull d t s)"
proof (induction d t s rule: pull.induct)
  case (1 d t s)
  show ?case
  proof (cases "pull_gates d t s")
    case (Inl s')
    then show ?thesis using pull_gates_ok [OF 1(2), of d t] by (simp add: pull.simps)
  next
    case (Inr p)
    obtain key s' where p: "p = (key, s')" by (cases p)
    have ok: "sweeps_ok None s'" using pull_gates_ok [OF 1(2), of d t] by (simp add: Inr p)
    show ?thesis
    proof (cases "take_waiter key s'")
      case None
      then show ?thesis using Inr p ok by (simp add: pull.simps)
    next
      case (Some q)
      obtain w s'' where q: "q = (w, s'')" by (cases q)
      have "sweeps_ok None s''" using take_waiter_frame [OF Some [unfolded q]] ok sweeps_ok_frame by blast
      then show ?thesis
        using Inr p Some q 1(1) by (simp add: pull.simps [of d t])
    qed
  qed
qed

lemma promote_ok:
  assumes "sweeps_ok None s"
  shows "sweeps_ok None (promotePending d key s)"
proof (cases "take_waiter key s")
  case None
  then show ?thesis using assms by (simp add: promotePending_def)
next
  case (Some q)
  obtain w s'' where q: "q = (w, s'')" by (cases q)
  have "sweeps_ok None s''" using take_waiter_frame [OF Some [unfolded q]] assms sweeps_ok_frame by blast
  then show ?thesis using Some q by (simp add: promotePending_def pull_ok)
qed

text \<open>What settles keeps the sweeps in order.\<close>

lemma end_sweep_ok:
  assumes "sweeps_ok (Some e) s" "in_flight e s" "entry = pk_entries s ! e"
  shows "sweeps_ok None (end_sweep d entry s)"
  unfolding end_sweep_def assms(3) by (intro promote_ok drop_inflight_ok assms(1,2))

lemma in_flight_frame: "same_sweeps s s' \<Longrightarrow> in_flight e s' \<longleftrightarrow> in_flight e s"
  by (simp add: same_sweeps_def in_flight_def)

lemma keep_frame:
  "same_sweeps s (keep_profile d entry peaks s)" "same_sweeps s (keep_failure d entry err ms s)"
  by (simp_all add: same_sweeps_def keep_profile_def keep_failure_def Let_def)

lemma end_after_frame:
  assumes "sweeps_ok (Some e) s" "in_flight e s" "same_sweeps s s'"
  shows "sweeps_ok None (end_sweep d (pk_entries s ! e) s')"
  using assms sweeps_ok_frame [OF assms(3)] in_flight_frame [OF assms(3)]
  by (intro end_sweep_ok) (auto simp: same_sweeps_def)

lemma settle_ok:
  assumes "sw_cancelled (pk_entries s ! e) \<Longrightarrow> sweeps_ok None s"
    "\<not> sw_cancelled (pk_entries s ! e) \<Longrightarrow> sweeps_ok (Some e) s \<and> in_flight e s"
  shows "sweeps_ok None (settle d e n ms res s)"
proof (cases "sw_cancelled (pk_entries s ! e)")
  case True
  then show ?thesis using assms(1) by (simp add: settle_def)
next
  case False
  then have ok: "sweeps_ok (Some e) s" "in_flight e s" using assms(2) by simp_all
  note ends = end_after_frame [OF ok]
  show ?thesis
    using False ends [OF keep_frame(1)] ends [OF keep_frame(2)] ends [OF same_sweeps_refl]
      attempt_ok [OF ok] push_task_ok [OF ok, of "NapTask e n"]
    by (auto simp: settle_def Let_def split: sum.split)
qed

lemma store_loaded_ok:
  assumes "sw_cancelled (pk_entries s ! e) \<Longrightarrow> sweeps_ok None s"
    "\<not> sw_cancelled (pk_entries s ! e) \<Longrightarrow> sweeps_ok (Some e) s \<and> in_flight e s"
  shows "sweeps_ok None (store_loaded d e res s)"
proof (cases "sw_cancelled (pk_entries s ! e)")
  case True
  then show ?thesis using assms(1) by (simp add: store_loaded_def)
next
  case False
  then have ok: "sweeps_ok (Some e) s" "in_flight e s" using assms(2) by simp_all
  have kept: "sweeps_ok None (evict d (drop_inflight (sw_id (pk_entries s ! e)) s
      \<lparr>pk_cache := c, pk_finalized := f, pk_pending := p\<rparr>))" for c f p
  proof -
    have "same_sweeps (drop_inflight (sw_id (pk_entries s ! e)) s) (evict d (drop_inflight (sw_id (pk_entries s ! e)) s
        \<lparr>pk_cache := c, pk_finalized := f, pk_pending := p\<rparr>))"
      by (simp add: same_sweeps_def)
    from sweeps_ok_frame [OF this] show ?thesis using drop_inflight_ok [OF ok] by blast
  qed
  show ?thesis
    using False kept attempt_ok [OF ok] by (auto simp: store_loaded_def Let_def split: option.split)
qed

lemma cancel_ok:
  assumes "sweeps_ok None s"
  shows "sweeps_ok None (cancel d i s)"
proof (cases "map_get (pk_inflight s) i")
  case None
  have "same_sweeps s (cancel d i s)"
    by (simp add: cancel_def None same_sweeps_def Let_def split: option.split)
  then show ?thesis using sweeps_ok_frame assms by blast
next
  case (Some e)
  then have e: "sw_id (pk_entries s ! e) = i" "in_flight e s"
    using sweeps_okD(2,8) [OF assms] by (auto dest!: map_of_SomeD)
  then show ?thesis
    using cancel_flight_ok [OF assms e(2)] by (simp add: cancel_def Some promote_ok)
qed

lemma settled_hole:
  assumes "sweeps_ok None s" "t \<in> set (pk_tasks s)"
  shows "sw_cancelled (pk_entries (drop_task t s) ! task_entry t) \<Longrightarrow> sweeps_ok None (drop_task t s)"
    "\<not> sw_cancelled (pk_entries (drop_task t s) ! task_entry t) \<Longrightarrow>
       sweeps_ok (Some (task_entry t)) (drop_task t s) \<and> in_flight (task_entry t) (drop_task t s)"
  using drop_task_ok [OF assms] drop_task_live [OF assms] by simp_all

lemma reach_sweeps_ok: "peaks_reach d s \<Longrightarrow> sweeps_ok None s"
proof (induction rule: peaks_reach.induct)
  case Start
  show ?case
    by (simp add: sweeps_ok_def createPeaksTracker_def keys_def in_flight_def)
next
  case (Pull s target)
  then show ?case by (simp add: pull_ok)
next
  case (Cancel s i)
  then show ?case by (simp add: cancel_ok)
next
  case (Loaded s e loadRes)
  show ?case using settled_hole [OF Loaded(3,2)] by (intro store_loaded_ok) simp_all
next
  case (Settled s e n sentMs res)
  show ?case using settled_hole [OF Settled(3,2)] by (intro settle_ok) simp_all
next
  case (Coarse s e coarse)
  have "same_sweeps s (onCoarse d e coarse s)"
    by (simp add: same_sweeps_def onCoarse_def Let_def)
  then show ?case using sweeps_ok_frame Coarse.IH by blast
next
  case (Woke s e n slept)
  show ?case
  proof (cases "sw_cancelled (pk_entries s ! e)")
    case True
    then show ?thesis using settled_hole(1) [OF Woke(4,2)] by (simp add: woke_def)
  next
    case False
    then have "sweeps_ok (Some e) (drop_task (NapTask e n) s)" "in_flight e (drop_task (NapTask e n) s)"
      using settled_hole(2) [OF Woke(4,2)] by simp_all
    then show ?thesis using False Woke(3) by (simp add: woke_def attempt_ok)
  qed
qed

section \<open>The cache\<close>

text \<open>A finished content is cached as a profile, is no attempt id, and has no sweep in flight.\<close>

definition profiles_ok :: "'p peaksState \<Rightarrow> bool" where
  "profiles_ok s \<longleftrightarrow>
     distinct (keys (pk_cache s)) \<and>
     (\<forall>k\<in>pk_finalized s. \<exists>ps. map_get (pk_cache s) k = Some (Some ps)) \<and>
     (\<forall>k\<in>pk_finalized s. CHR ''|'' \<notin> set k) \<and>
     (\<forall>e<length (pk_entries s). CHR ''|'' \<notin> set (sw_key (pk_entries s ! e))) \<and>
     (\<forall>e. in_flight e s \<longrightarrow> sw_key (pk_entries s ! e) \<notin> pk_finalized s)"

definition cache_fits :: "peaksDeps \<Rightarrow> 'p peaksState \<Rightarrow> bool" where
  "cache_fits d s \<longleftrightarrow> pk_cache s = [] \<or> \<not> num_less (pd_cacheLimit d) (jnat (length (pk_cache s)))"

lemma contentKey_plain: "CHR ''|'' \<notin> set k \<Longrightarrow> contentKey k = k"
  by (simp add: contentKey_def)

lemma num_less_nat_mono: "num_less x (jnat m) \<Longrightarrow> m \<le> n \<Longrightarrow> num_less x (jnat n)"
  by (cases x) auto

lemma length_delete_le: "length (AList.delete k m) \<le> length m"
  by (simp add: AList.delete_eq)

lemma cache_fits_smaller:
  "cache_fits d s \<Longrightarrow> length (pk_cache s') \<le> length (pk_cache s) \<Longrightarrow> cache_fits d s'"
  using num_less_nat_mono by (auto simp: cache_fits_def)

lemma evict_fits: "cache_fits d (evict d s)"
proof (induction d s rule: evict.induct)
  case (1 d s)
  then show ?case
    by (subst evict.simps) (auto simp: cache_fits_def split: list.split)
qed

lemma evict_profiles:
  "distinct (keys (pk_cache s)) \<Longrightarrow> \<forall>k\<in>pk_finalized s. \<exists>ps. map_get (pk_cache s) k = Some (Some ps) \<Longrightarrow>
   distinct (keys (pk_cache (evict d s))) \<and>
   (\<forall>k\<in>pk_finalized (evict d s). \<exists>ps. map_get (pk_cache (evict d s)) k = Some (Some ps)) \<and>
   pk_finalized (evict d s) \<subseteq> pk_finalized s"
proof (induction d s rule: evict.induct)
  case (1 d s)
  show ?case
  proof (cases "num_less (pd_cacheLimit d) (jnat (length (pk_cache s))) \<and> pk_cache s \<noteq> []")
    case True
    then obtain k v rest where c: "pk_cache s = (k, v) # rest" by (cases "pk_cache s") auto
    have "distinct (keys (pk_cache (forget k s)))"
      "\<forall>j\<in>pk_finalized (forget k s). \<exists>ps. map_get (pk_cache (forget k s)) j = Some (Some ps)"
      "pk_finalized (forget k s) \<subseteq> pk_finalized s"
      using 1(2,3) by (auto simp: forget_def keys_delete)
    moreover have "evict d s = evict d (forget k s)"
      using True c by (subst evict.simps) simp
    ultimately show ?thesis using 1(1) [OF _ c refl] True by auto
  next
    case False
    then have "evict d s = s" by (subst evict.simps) (auto split: list.split)
    then show ?thesis using 1(2,3) by simp
  qed
qed

lemma evict_infinite: "pd_cacheLimit d = PosInf \<Longrightarrow> evict d s = s"
  by (subst evict.simps) simp

section \<open>The gates of a pull\<close>

definition cleared :: "string \<Rightarrow> 'p peaksState \<Rightarrow> 'p peaksState" where
  "cleared i s = s\<lparr>pk_gatedNullMs := AList.delete i (pk_gatedNullMs s), pk_cache := AList.delete i (pk_cache s)\<rparr>"

lemma pull_gates_cases:
  obtains (Skip) k where "pull_gates d t s = Inl (reinsert k s)"
      "(k = contentKey (pt_id t) \<and> k \<in> pk_finalized s) \<or> map_get (pk_cache s) k = Some None"
  | (Go) s1 where "pull_gates d t s = pull_start d t s1" "s1 = s \<or> s1 = cleared (pt_id t) s"
      "contentKey (pt_id t) \<notin> pk_finalized s" "map_get (pk_cache s1) (pt_id t) \<noteq> Some None"
proof (cases "contentKey (pt_id t) \<in> pk_finalized s")
  case True
  then show ?thesis using Skip by (simp add: pull_gates_def Let_def)
next
  case fresh: False
  show ?thesis
  proof (cases "map_get (pk_cache s) (pt_id t)")
    case None
    with fresh show ?thesis using Go [of s] by (simp add: pull_gates_def Let_def)
  next
    case (Some v)
    show ?thesis
    proof (cases "\<exists>judged. map_get (pk_gatedNullMs s) (pt_id t) = Some judged \<and>
        \<not> ms_eq (pt_durationMs t) (Some judged) \<and> within_cap d (pt_durationMs t)")
      case True
      with fresh Some show ?thesis
        using Go [of "cleared (pt_id t) s"] by (auto simp: pull_gates_def Let_def cleared_def)
    next
      case False
      with fresh Some show ?thesis
        using Skip [of "pt_id t"] Go [of s]
        by (cases v; cases "map_get (pk_gatedNullMs s) (pt_id t)") (auto simp: pull_gates_def Let_def)
    qed
  qed
qed

lemma cleared_frame: "same_sweeps s (cleared i s)" "pk_finalized (cleared i s) = pk_finalized s"
  "pk_pending (cleared i s) = pk_pending s"
  by (simp_all add: same_sweeps_def cleared_def)

lemma start_sweep_state:
  "pk_entries (start_sweep d t s) = pk_entries s @
     [\<lparr>sw_id = pt_id t, sw_key = contentKey (pt_id t), sw_target = t, sw_cancelled = False\<rparr>]"
  "pk_inflight (start_sweep d t s) = AList.update (pt_id t) (length (pk_entries s)) (pk_inflight s)"
  "pk_cache (start_sweep d t s) = pk_cache s" "pk_finalized (start_sweep d t s) = pk_finalized s"
  "pk_pending (start_sweep d t s) = pk_pending s"
  by (simp_all add: start_sweep_def attempt_def Let_def)

lemma start_sweep_flight:
  assumes "sweeps_ok None s" "map_get (pk_inflight s) (pt_id t) = None"
  shows "in_flight e (start_sweep d t s) \<longleftrightarrow> e = length (pk_entries s) \<or> in_flight e s"
proof -
  let ?n = "length (pk_entries s)"
  have absent: "pt_id t \<notin> set (keys (pk_inflight s))"
    using assms(2) by (auto simp: keys_def map_of_eq_None_iff)
  have small: "in_flight e s \<Longrightarrow> e < ?n" using sweeps_okD(7) [OF assms(1)] by blast
  consider "e < ?n" | "e = ?n" | "?n < e" by linarith
  then show ?thesis
  proof cases
    case 3
    have "in_flight e (start_sweep d t s) \<Longrightarrow> e < ?n \<or> e = ?n"
      using sweeps_okD(2) [OF assms(1)]
      by (auto simp: in_flight_def start_sweep_state update_mem_absent [OF absent])
    then show ?thesis using small 3 by auto
  qed (auto simp: in_flight_def start_sweep_state update_mem_absent [OF absent] nth_append)
qed

lemma cancel_flight:
  assumes "sweeps_ok hole s" "in_flight e s" "i = sw_id (pk_entries s ! e)"
  defines "s' \<equiv> cancel_entry e (drop_inflight i s)"
  shows "in_flight f s' \<longleftrightarrow> in_flight f s \<and> f \<noteq> e"
    "sw_key (pk_entries s' ! f) = sw_key (pk_entries s ! f)"
    "length (pk_entries s') = length (pk_entries s)" "pk_cache s' = pk_cache s"
    "pk_finalized s' = pk_finalized s" "pk_pending s' = pk_pending s"
proof -
  have e: "e < length (pk_entries s)" using sweeps_okD(7) [OF assms(1,2)] by simp
  have ent: "pk_entries s' ! f =
      (if f = e then (pk_entries s ! e)\<lparr>sw_cancelled := True\<rparr> else pk_entries s ! f)" for f
    using e by (simp add: s'_def cancel_entry_def drop_inflight_def)
  then show "sw_key (pk_entries s' ! f) = sw_key (pk_entries s ! f)" by simp
  have "sw_id (pk_entries s' ! f) = sw_id (pk_entries s ! f)" by (simp add: ent)
  then show "in_flight f s' \<longleftrightarrow> in_flight f s \<and> f \<noteq> e"
    using drop_inflight_flight [OF assms(1,3,2), of f]
    by (simp add: in_flight_def s'_def cancel_entry_def drop_inflight_def)
qed (simp_all add: s'_def cancel_entry_def drop_inflight_def)

section \<open>Finished profiles stay\<close>

lemma profiles_okD:
  assumes "profiles_ok s"
  shows "distinct (keys (pk_cache s))"
    "k \<in> pk_finalized s \<Longrightarrow> \<exists>ps. map_get (pk_cache s) k = Some (Some ps)"
    "k \<in> pk_finalized s \<Longrightarrow> CHR ''|'' \<notin> set k"
    "e < length (pk_entries s) \<Longrightarrow> CHR ''|'' \<notin> set (sw_key (pk_entries s ! e))"
    "in_flight e s \<Longrightarrow> sw_key (pk_entries s ! e) \<notin> pk_finalized s"
  using assms unfolding profiles_ok_def by simp_all

lemma profiles_ok_flight:
  assumes "profiles_ok s" "pk_cache s' = pk_cache s" "pk_finalized s' = pk_finalized s"
    "\<And>e. e < length (pk_entries s') \<Longrightarrow> CHR ''|'' \<notin> set (sw_key (pk_entries s' ! e))"
    "\<And>e. in_flight e s' \<Longrightarrow> sw_key (pk_entries s' ! e) \<notin> pk_finalized s"
  shows "profiles_ok s'"
  using assms(1,4,5) unfolding profiles_ok_def assms(2,3) by blast

lemma profiles_ok_cache:
  assumes "profiles_ok s" "same_sweeps s s'" "pk_finalized s' \<subseteq> pk_finalized s"
    "distinct (keys (pk_cache s'))" "\<forall>k\<in>pk_finalized s'. \<exists>ps. map_get (pk_cache s') k = Some (Some ps)"
  shows "profiles_ok s'"
  using assms unfolding profiles_ok_def same_sweeps_def in_flight_def by auto

lemma distinct_keys_delete: "distinct (keys m) \<Longrightarrow> distinct (keys (AList.delete k m))"
  by (simp add: keys_delete)

lemma distinct_keys_update: "distinct (keys m) \<Longrightarrow> distinct (keys (AList.update k v m))"
  by (simp add: keys_def distinct_update)

lemma filter_remove1_len: "distinct xs \<Longrightarrow> k \<in> set xs \<Longrightarrow> Suc (length (filter (\<lambda>a. a \<noteq> k) xs)) = length xs"
proof (induction xs)
  case (Cons x xs)
  have "filter (\<lambda>a. a \<noteq> k) xs = xs" if "k \<notin> set xs" using that by (induction xs) auto
  with Cons show ?case by (cases "x = k") auto
qed simp

lemma reinsert_profiles:
  assumes "profiles_ok s"
    "(k = contentKey i \<and> k \<in> pk_finalized s) \<or> map_get (pk_cache s) k = Some None"
  shows "profiles_ok (reinsert k s)" "map_get (pk_cache (reinsert k s)) j = map_get (pk_cache s) j"
    "length (pk_cache (reinsert k s)) = length (pk_cache s)"
proof -
  obtain v where v: "map_get (pk_cache s) k = Some v"
    using assms profiles_okD(2) [OF assms(1)] by blast
  show same: "map_get (pk_cache (reinsert k s)) j = map_get (pk_cache s) j" for j
    using v by (simp add: reinsert_def)
  show "profiles_ok (reinsert k s)"
  proof (rule profiles_ok_cache [OF assms(1)])
    show "distinct (keys (pk_cache (reinsert k s)))"
      using profiles_okD(1) [OF assms(1)] by (simp add: reinsert_def distinct_keys_update distinct_keys_delete)
    show "\<forall>j\<in>pk_finalized (reinsert k s). \<exists>ps. map_get (pk_cache (reinsert k s)) j = Some (Some ps)"
      using profiles_okD(2) [OF assms(1)] unfolding same by (simp add: reinsert_def)
  qed (simp_all add: same_sweeps_def reinsert_def)
  have "k \<in> set (keys (pk_cache s))" using v by (auto simp: keys_def dest: map_of_SomeD intro: rev_image_eqI)
  then have len: "length (filter (\<lambda>a. a \<noteq> k) (keys (pk_cache s))) + 1 = length (keys (pk_cache s))"
    using profiles_okD(1) [OF assms(1)] by (simp add: filter_remove1_len)
  have "length (pk_cache (reinsert k s)) = length (keys (pk_cache (reinsert k s)))" by (simp add: keys_def)
  also have "\<dots> = length (filter (\<lambda>a. a \<noteq> k) (keys (pk_cache s))) + 1"
    by (simp add: reinsert_def keys_update) (simp add: keys_delete)
  finally show "length (pk_cache (reinsert k s)) = length (pk_cache s)" using len by (simp add: keys_def)
qed

lemma cleared_profiles:
  assumes "profiles_ok s" "contentKey i \<notin> pk_finalized s"
  shows "profiles_ok (cleared i s)"
proof (rule profiles_ok_cache [OF assms(1) cleared_frame(1)])
  have "i \<notin> pk_finalized s"
    using assms contentKey_plain profiles_okD(3) [OF assms(1)] by metis
  then show "\<forall>k\<in>pk_finalized (cleared i s). \<exists>ps. map_get (pk_cache (cleared i s)) k = Some (Some ps)"
    using profiles_okD(2) [OF assms(1)] by (auto simp: cleared_def)
qed (use profiles_okD(1) [OF assms(1)] in \<open>simp_all add: cleared_def distinct_keys_delete\<close>)

lemma pull_start_profiles:
  assumes "profiles_ok s" "sweeps_ok None s" "contentKey (pt_id t) \<notin> pk_finalized s"
    "CHR ''|'' \<notin> set (contentKey (pt_id t))"
  shows "case pull_start d t s of Inl s' \<Rightarrow> profiles_ok s' | Inr (key, s') \<Rightarrow> profiles_ok s'"
proof (cases "map_get (pk_inflight s) (pt_id t)")
  case None
  show ?thesis
  proof (cases "list_ex (\<lambda>(i, e). sw_key (pk_entries s ! e) = contentKey (pt_id t)) (pk_inflight s)")
    case True
    have "profiles_ok (add_waiter (contentKey (pt_id t)) t s)"
      by (rule profiles_ok_flight [OF assms(1)])
        (use profiles_okD(4,5) [OF assms(1)] in \<open>simp_all add: add_waiter_def in_flight_def\<close>)
    with None True show ?thesis by (simp add: pull_start_def)
  next
    case False
    have "profiles_ok (start_sweep d t s)"
    proof (rule profiles_ok_flight [OF assms(1) start_sweep_state(3,4)])
      show "CHR ''|'' \<notin> set (sw_key (pk_entries (start_sweep d t s) ! e))"
        if "e < length (pk_entries (start_sweep d t s))" for e
        using that profiles_okD(4) [OF assms(1), of e] assms(4) by (auto simp: start_sweep_state nth_append)
      show "sw_key (pk_entries (start_sweep d t s) ! e) \<notin> pk_finalized s" if "in_flight e (start_sweep d t s)" for e
        using that profiles_okD(5) [OF assms(1), of e] sweeps_okD(7) [OF assms(2), of e] assms(3)
        by (auto simp: start_sweep_flight [OF assms(2) None] start_sweep_state nth_append)
    qed
    with None False show ?thesis by (simp add: pull_start_def)
  qed
next
  case (Some e)
  then have e: "sw_id (pk_entries s ! e) = pt_id t" "in_flight e s"
    using sweeps_okD(2,8) [OF assms(2)] by (auto dest!: map_of_SomeD)
  note gone = cancel_flight [OF assms(2) e(2) e(1) [symmetric]]
  have "profiles_ok (cancel_entry e (drop_inflight (pt_id t) s))"
    by (rule profiles_ok_flight [OF assms(1) gone(4,5)])
      (use profiles_okD(4,5) [OF assms(1)] in \<open>simp_all add: gone\<close>)
  moreover have "profiles_ok (s\<lparr>pk_entries := (pk_entries s)[e := (pk_entries s ! e)\<lparr>sw_target := t\<rparr>]\<rparr>)"
  proof -
    let ?s = "s\<lparr>pk_entries := (pk_entries s)[e := (pk_entries s ! e)\<lparr>sw_target := t\<rparr>]\<rparr>"
    have "e < length (pk_entries s)" using sweeps_okD(7) [OF assms(2) e(2)] by simp
    then have ent: "sw_id (pk_entries ?s ! f) = sw_id (pk_entries s ! f)"
      "sw_key (pk_entries ?s ! f) = sw_key (pk_entries s ! f)" for f by (cases "f = e"; simp)+
    then have "in_flight f ?s = in_flight f s" for f by (simp add: in_flight_def)
    then show ?thesis
      by (intro profiles_ok_flight [OF assms(1)]) (use profiles_okD(4,5) [OF assms(1)] in \<open>simp_all only: ent\<close>, simp_all)
  qed
  ultimately show ?thesis using Some by (simp add: pull_start_def pull_live_def Let_def)
qed

lemma pull_start_cache:
  "case pull_start d t s of
     Inl s' \<Rightarrow> pk_cache s' = pk_cache s | Inr (key, s') \<Rightarrow> pk_cache s' = pk_cache s"
  by (simp add: pull_start_def pull_live_def Let_def add_waiter_def start_sweep_state cancel_entry_def
      drop_inflight_def split: option.split)

text \<open>Every waiter is of the content it waits for.\<close>

definition waiter_of :: "string \<Rightarrow> string \<Rightarrow> peaksTarget \<Rightarrow> bool" where
  "waiter_of k x t \<longleftrightarrow> x = pt_id t \<and> contentKey x = k \<and> CHR ''|'' \<notin> set k"

definition waiters_plain :: "'p peaksState \<Rightarrow> bool" where
  "waiters_plain s \<longleftrightarrow>
     (\<forall>k ws x t. (k, ws) \<in> set (pk_pending s) \<longrightarrow> (x, t) \<in> set ws \<longrightarrow> waiter_of k x t)"

lemma waiters_plain_cong: "pk_pending s' = pk_pending s \<Longrightarrow> waiters_plain s' \<longleftrightarrow> waiters_plain s"
  by (simp add: waiters_plain_def)

lemma waiters_plainD:
  "waiters_plain s \<Longrightarrow> map_get (pk_pending s) k = Some ws \<Longrightarrow> (x, t) \<in> set ws \<Longrightarrow> waiter_of k x t"
  unfolding waiters_plain_def by (drule map_of_SomeD) blast

lemma waiters_plain_update:
  assumes "waiters_plain s" "\<And>x u. (x, u) \<in> set ws \<Longrightarrow> waiter_of k x u"
    "pk_pending s' = AList.update k ws (pk_pending s) \<or> pk_pending s' = AList.delete k (pk_pending s)"
  shows "waiters_plain s'"
  unfolding waiters_plain_def
proof (intro allI impI)
  fix j vs x u
  assume "(j, vs) \<in> set (pk_pending s')" and x: "(x, u) \<in> set vs"
  then consider "j = k" "vs = ws" | "(j, vs) \<in> set (pk_pending s)"
    using assms(3) by (metis delete_mem update_mem)
  then show "waiter_of j x u"
    by cases (use assms(1,2) x in \<open>auto simp: waiters_plain_def\<close>)
qed

lemma add_waiter_plain:
  assumes "waiters_plain s" "CHR ''|'' \<notin> set (contentKey (pt_id t))"
  shows "waiters_plain (add_waiter (contentKey (pt_id t)) t s)"
proof (rule waiters_plain_update [OF assms(1)])
  let ?ws = "map_get_or [] (pk_pending s) (contentKey (pt_id t))"
  have old: "waiter_of (contentKey (pt_id t)) x u" if "(x, u) \<in> set ?ws" for x u
  proof (cases "map_get (pk_pending s) (contentKey (pt_id t))")
    case (Some ws)
    then show ?thesis using that waiters_plainD [OF assms(1) Some] by (simp add: map_get_or_def)
  qed (use that in \<open>simp add: map_get_or_def\<close>)
  show "waiter_of (contentKey (pt_id t)) x u" if "(x, u) \<in> set (AList.update (pt_id t) t ?ws)" for x u
    using update_mem [OF that] old assms(2) by (auto simp: waiter_of_def [of _ "pt_id t" t])
  show "pk_pending (add_waiter (contentKey (pt_id t)) t s) =
      AList.update (contentKey (pt_id t)) (AList.update (pt_id t) t ?ws) (pk_pending s) \<or>
    pk_pending (add_waiter (contentKey (pt_id t)) t s) = AList.delete (contentKey (pt_id t)) (pk_pending s)"
    by (simp add: add_waiter_def)
qed

lemma take_waiter_form:
  assumes "take_waiter key s = Some (t, s')"
  obtains ws where "map_get (pk_pending s) key = Some ws" "ws \<noteq> []" "t = snd (last ws)"
    "s' = s\<lparr>pk_pending := (if AList.delete (fst (last ws)) ws = [] then AList.delete key (pk_pending s)
      else AList.update key (AList.delete (fst (last ws)) ws) (pk_pending s))\<rparr>"
  using assms by (auto simp: take_waiter_def Let_def split: option.splits if_splits prod.splits)

lemma take_waiter_plain:
  assumes "waiters_plain s" "take_waiter key s = Some (t, s')"
  shows "waiters_plain s'" "\<exists>x. waiter_of key x t"
proof -
  obtain ws where ws: "map_get (pk_pending s) key = Some ws" "ws \<noteq> []" "t = snd (last ws)"
    and s': "s' = s\<lparr>pk_pending := (if AList.delete (fst (last ws)) ws = [] then AList.delete key (pk_pending s)
      else AList.update key (AList.delete (fst (last ws)) ws) (pk_pending s))\<rparr>"
    using assms(2) by (rule take_waiter_form)
  have "(fst (last ws), t) \<in> set ws" using ws by (simp add: ws(3))
  then show "\<exists>x. waiter_of key x t" using waiters_plainD [OF assms(1) ws(1)] by blast
  show "waiters_plain s'"
  proof (rule waiters_plain_update [OF assms(1)])
    show "waiter_of key x u" if "(x, u) \<in> set (AList.delete (fst (last ws)) ws)" for x u
      using that waiters_plainD [OF assms(1) ws(1)] by (simp add: delete_mem)
    show "pk_pending s' = AList.update key (AList.delete (fst (last ws)) ws) (pk_pending s) \<or>
      pk_pending s' = AList.delete key (pk_pending s)"
      by (simp add: s')
  qed
qed

lemma pull_start_plain:
  assumes "waiters_plain s" "CHR ''|'' \<notin> set (contentKey (pt_id t))"
  shows "case pull_start d t s of Inl s' \<Rightarrow> waiters_plain s' | Inr (key, s') \<Rightarrow> waiters_plain s'"
  using assms add_waiter_plain [OF assms]
  by (auto simp: pull_start_def pull_live_def Let_def start_sweep_state cancel_entry_def
      drop_inflight_def split: option.split intro: waiters_plain_cong [THEN iffD2, OF _ assms(1)])

text \<open>The invariant of the tracker, but for who waits.\<close>

definition tracker_ok :: "peaksDeps \<Rightarrow> 'p peaksState \<Rightarrow> bool" where
  "tracker_ok d s \<longleftrightarrow> sweeps_ok None s \<and> profiles_ok s \<and> waiters_plain s \<and> cache_fits d s"

lemma cleared_ok: "tracker_ok d s \<Longrightarrow> contentKey i \<notin> pk_finalized s \<Longrightarrow> tracker_ok d (cleared i s)"
  using sweeps_ok_frame [OF cleared_frame(1), of None i s] cleared_profiles [of s i]
    waiters_plain_cong [of "cleared i s" s] cache_fits_smaller [of d s "cleared i s"]
  by (simp add: tracker_ok_def cleared_frame) (simp add: cleared_def length_delete_le)

lemma reinsert_ok:
  assumes "tracker_ok d s" "(k = contentKey i \<and> k \<in> pk_finalized s) \<or> map_get (pk_cache s) k = Some None"
  shows "tracker_ok d (reinsert k s)"
proof -
  have frame: "same_sweeps s (reinsert k s)" "pk_pending (reinsert k s) = pk_pending s"
    by (simp_all add: same_sweeps_def reinsert_def)
  then show ?thesis
    using assms(1) reinsert_profiles [OF _ assms(2)] sweeps_ok_frame [OF frame(1)] waiters_plain_cong [OF frame(2)]
      cache_fits_smaller [of d s "reinsert k s"]
    by (simp add: tracker_ok_def)
qed

lemma pull_gates_tracker:
  assumes "tracker_ok d s" "CHR ''|'' \<notin> set (contentKey (pt_id t))"
  shows "case pull_gates d t s of Inl s' \<Rightarrow> tracker_ok d s' | Inr (key, s') \<Rightarrow> tracker_ok d s'"
proof (cases rule: pull_gates_cases [where d = d and t = t and s = s])
  case (Skip k)
  then show ?thesis using reinsert_ok [OF assms(1)] by simp
next
  case (Go s1)
  then have ok: "tracker_ok d s1" using cleared_ok [OF assms(1)] assms(1) by auto
  have fin: "contentKey (pt_id t) \<notin> pk_finalized s1" using Go(2,3) cleared_frame(2) by metis
  have parts: "sweeps_ok None s1" "profiles_ok s1" "waiters_plain s1" "cache_fits d s1"
    using ok by (simp_all add: tracker_ok_def)
  have fits: "cache_fits d s'" if "pk_cache s' = pk_cache s1" for s' :: "'a peaksState"
    using that by (intro cache_fits_smaller [OF parts(4)]) simp
  show ?thesis
    unfolding Go(1)
    using pull_start_ok [OF parts(1), where d = d and t = t] pull_start_profiles [OF parts(2,1) fin assms(2), where d = d]
      pull_start_plain [OF parts(3) assms(2), where d = d] pull_start_cache [where d = d and t = t and s = s1]
    by (auto simp: tracker_ok_def fits split: sum.splits)
qed

lemma take_waiter_tracker:
  assumes "tracker_ok d s" "take_waiter key s = Some (t, s')"
  shows "tracker_ok d s' \<and> CHR ''|'' \<notin> set (contentKey (pt_id t))"
proof -
  have frame: "same_sweeps s s'" "pk_cache s' = pk_cache s" "pk_finalized s' = pk_finalized s"
    using take_waiter_frame [OF assms(2)] by simp_all
  have parts: "sweeps_ok None s" "profiles_ok s" "waiters_plain s" "cache_fits d s"
    using assms(1) by (simp_all add: tracker_ok_def)
  have "profiles_ok s'"
    by (rule profiles_ok_cache [OF parts(2) frame(1)])
      (use profiles_okD(1,2) [OF parts(2)] in \<open>simp_all add: frame(2,3)\<close>)
  then show ?thesis
    using parts sweeps_ok_frame [OF frame(1)] take_waiter_plain [OF parts(3) assms(2)]
      cache_fits_smaller [OF parts(4), of s'] frame(2) by (auto simp: tracker_ok_def waiter_of_def)
qed

lemma pull_tracker:
  "tracker_ok d s \<Longrightarrow> CHR ''|'' \<notin> set (contentKey (pt_id t)) \<Longrightarrow> tracker_ok d (pull d t s)"
proof (induction d t s rule: pull.induct)
  case (1 d t s)
  show ?case
  proof (cases "pull_gates d t s")
    case (Inl s')
    then show ?thesis using pull_gates_tracker [OF 1(2,3)] by (simp add: pull.simps)
  next
    case (Inr p)
    obtain key s' where p: "p = (key, s')" by (cases p)
    have ok: "tracker_ok d s'" using pull_gates_tracker [OF 1(2,3)] by (simp add: Inr p)
    show ?thesis
    proof (cases "take_waiter key s'")
      case None
      then show ?thesis using Inr p ok by (simp add: pull.simps)
    next
      case (Some q)
      obtain w s'' where q: "q = (w, s'')" by (cases q)
      then show ?thesis
        using Inr p Some 1(1) take_waiter_tracker [OF ok Some [unfolded q]] by (simp add: pull.simps [of d t])
    qed
  qed
qed

lemma promote_tracker:
  assumes "tracker_ok d s"
  shows "tracker_ok d (promotePending d key s)"
proof (cases "take_waiter key s")
  case None
  then show ?thesis using assms by (simp add: promotePending_def)
next
  case (Some q)
  obtain w s'' where q: "q = (w, s'')" by (cases q)
  then show ?thesis
    using Some take_waiter_tracker [OF assms Some [unfolded q]] by (simp add: promotePending_def pull_tracker)
qed

section \<open>What settles, and every reachable state\<close>

text \<open>The rest of the invariant, which holds between an operation's result and what follows it too.\<close>

definition contents_ok :: "peaksDeps \<Rightarrow> 'p peaksState \<Rightarrow> bool" where
  "contents_ok d s \<longleftrightarrow> profiles_ok s \<and> waiters_plain s \<and> cache_fits d s"

lemma tracker_parts: "tracker_ok d s \<longleftrightarrow> sweeps_ok None s \<and> contents_ok d s"
  by (auto simp: tracker_ok_def contents_ok_def)

lemma contents_ok_frame:
  assumes "contents_ok d s" "pk_entries s' = pk_entries s" "pk_inflight s' = pk_inflight s"
    "pk_cache s' = pk_cache s" "pk_finalized s' = pk_finalized s" "pk_pending s' = pk_pending s"
  shows "contents_ok d s'"
proof -
  have "profiles_ok s'"
    using assms(1-5) unfolding contents_ok_def profiles_ok_def in_flight_def by simp
  moreover have "cache_fits d s'"
    using assms(1,4) by (simp add: contents_ok_def cache_fits_def)
  ultimately show ?thesis
    using assms(1) waiters_plain_cong [OF assms(6)] by (simp add: contents_ok_def)
qed

lemma drop_task_contents: "contents_ok d s \<Longrightarrow> contents_ok d (drop_task t s)"
  by (erule contents_ok_frame) (simp_all add: drop_task_def)

lemma attempt_contents: "contents_ok d s \<Longrightarrow> contents_ok d (attempt e n s)"
  by (erule contents_ok_frame) (simp_all add: attempt_def)

text \<open>Taking a sweep out of flight, and evicting before or after it.\<close>

lemma evict_drop_inflight: "drop_inflight i (evict d s) = evict d (drop_inflight i s)"
proof (induction d s rule: evict.induct)
  case (1 d s)
  have step: "drop_inflight i (forget k s) = forget k (drop_inflight i s)" for k
    by (simp add: drop_inflight_def forget_def)
  have same: "pk_cache (drop_inflight i s) = pk_cache s" by (simp add: drop_inflight_def)
  show ?case
    by (subst (1 2) evict.simps) (use 1 in \<open>auto simp: same step split: list.split\<close>)
qed

lemma evict_profiles_ok:
  assumes "profiles_ok s"
  shows "profiles_ok (evict d s)"
proof (rule profiles_ok_cache [OF assms])
  have "\<forall>k\<in>pk_finalized s. \<exists>ps. map_get (pk_cache s) k = Some (Some ps)"
    using profiles_okD(2) [OF assms] by blast
  note kept = evict_profiles [OF profiles_okD(1) [OF assms] this, of d]
  show "pk_finalized (evict d s) \<subseteq> pk_finalized s" "distinct (keys (pk_cache (evict d s)))"
    "\<forall>k\<in>pk_finalized (evict d s). \<exists>ps. map_get (pk_cache (evict d s)) k = Some (Some ps)"
    using kept by simp_all
qed (simp add: same_sweeps_def)

lemma evict_contents:
  assumes "profiles_ok s" "waiters_plain s"
  shows "contents_ok d (evict d s)"
  using evict_profiles_ok [OF assms(1)] evict_fits waiters_plain_cong [of "evict d s" s] assms(2)
  by (simp add: contents_ok_def)

text \<open>The id of a live sweep is never a finished content: it is its own content or an attempt of it.\<close>

lemma flight_id_fresh:
  assumes "sweeps_ok hole s" "profiles_ok s" "in_flight e s"
  shows "sw_id (pk_entries s ! e) \<notin> pk_finalized s" "sw_key (pk_entries s ! e) \<notin> pk_finalized s"
    "CHR ''|'' \<notin> set (sw_key (pk_entries s ! e))"
    "sw_id (pk_entries s ! e) \<noteq> sw_key (pk_entries s ! e) \<Longrightarrow> CHR ''|'' \<in> set (sw_id (pk_entries s ! e))"
proof -
  note len = sweeps_okD(7) [OF assms(1,3), THEN conjunct1]
  note key = sweeps_okD(3) [OF assms(1) len]
  show fresh: "sw_key (pk_entries s ! e) \<notin> pk_finalized s" by (rule profiles_okD(5) [OF assms(2,3)])
  show "CHR ''|'' \<notin> set (sw_key (pk_entries s ! e))" by (rule profiles_okD(4) [OF assms(2) len])
  show "sw_id (pk_entries s ! e) \<noteq> sw_key (pk_entries s ! e) \<Longrightarrow> CHR ''|'' \<in> set (sw_id (pk_entries s ! e))"
    using key contentKey_plain by metis
  show "sw_id (pk_entries s ! e) \<notin> pk_finalized s"
    using fresh key contentKey_plain profiles_okD(3) [OF assms(2)] by metis
qed

lemma finish_profiles:
  assumes "sweeps_ok hole s" "profiles_ok s" "in_flight e s"
    and "pk_inflight s' = AList.delete (sw_id (pk_entries s ! e)) (pk_inflight s)" "pk_entries s' = pk_entries s"
    and "pk_finalized s' \<subseteq> insert (sw_key (pk_entries s ! e)) (pk_finalized s)"
    and "distinct (keys (pk_cache s'))" "\<forall>k\<in>pk_finalized s'. \<exists>ps. map_get (pk_cache s') k = Some (Some ps)"
  shows "profiles_ok s'"
proof -
  have flight: "in_flight f s' \<longleftrightarrow> in_flight f s \<and> f \<noteq> e" for f
    using drop_inflight_flight [OF assms(1) refl assms(3), of f] assms(4,5)
    by (simp add: in_flight_def drop_inflight_def)
  have "sw_key (pk_entries s' ! f) \<notin> pk_finalized s'" if "in_flight f s'" for f
    using that sweeps_okD(6) [OF assms(1,3), of f] profiles_okD(5) [OF assms(2), of f] assms(5,6)
    by (auto simp: flight)
  moreover have "\<forall>k\<in>pk_finalized s'. CHR ''|'' \<notin> set k"
    using flight_id_fresh(3) [OF assms(1-3)] profiles_okD(3) [OF assms(2)] assms(6) by blast
  ultimately show ?thesis
    using assms(5,7,8) profiles_okD(4) [OF assms(2)] by (auto simp: profiles_ok_def)
qed

lemma promote_contents:
  assumes "sweeps_ok None s" "contents_ok d s"
  shows "contents_ok d (promotePending d key s)"
  using promote_tracker [of d s key] assms by (simp add: tracker_parts)

lemma end_sweep_contents:
  assumes "sweeps_ok (Some e) s" "in_flight e s" "same_sweeps s s'"
    "contents_ok d (drop_inflight (sw_id (pk_entries s ! e)) s')"
  shows "contents_ok d (end_sweep d (pk_entries s ! e) s')"
  unfolding end_sweep_def
proof (rule promote_contents [OF _ assms(4)])
  have "same_sweeps (drop_inflight (sw_id (pk_entries s ! e)) s) (drop_inflight (sw_id (pk_entries s ! e)) s')"
    using assms(3) by (simp add: same_sweeps_def drop_inflight_def)
  from sweeps_ok_frame [OF this] drop_inflight_ok [OF assms(1,2)]
  show "sweeps_ok None (drop_inflight (sw_id (pk_entries s ! e)) s')" by blast
qed

text \<open>A finished profile, a terminal failure, and the sweep that is over.\<close>

lemma contents_parts:
  assumes "contents_ok d s"
  shows "profiles_ok s" "waiters_plain s" "cache_fits d s"
  using assms by (simp_all add: contents_ok_def)

lemma drop_flight_contents:
  assumes "sweeps_ok hole s" "contents_ok d s" "in_flight e s"
  shows "contents_ok d (drop_inflight (sw_id (pk_entries s ! e)) s)"
proof -
  let ?s = "drop_inflight (sw_id (pk_entries s ! e)) s"
  note parts = contents_parts [OF assms(2)]
  have "profiles_ok ?s"
    by (rule finish_profiles [OF assms(1) parts(1) assms(3)])
      (use profiles_okD(1,2) [OF parts(1)] in \<open>auto simp: drop_inflight_def\<close>)
  moreover have "cache_fits d ?s" by (rule cache_fits_smaller [OF parts(3)]) (simp add: drop_inflight_def)
  ultimately show ?thesis
    using parts(2) waiters_plain_cong [of ?s s] by (simp add: contents_ok_def drop_inflight_def)
qed

lemma keep_profile_contents:
  assumes "sweeps_ok hole s" "contents_ok d s" "in_flight e s"
  shows "contents_ok d (drop_inflight (sw_id (pk_entries s ! e)) (keep_profile d (pk_entries s ! e) ps s))"
proof -
  let ?i = "sw_id (pk_entries s ! e)" and ?k = "sw_key (pk_entries s ! e)"
  let ?c = "AList.update ?k (Some ps) (pk_cache s)"
  define kept where "kept = drop_inflight ?i (s\<lparr>pk_cache := (if ?i \<noteq> ?k then AList.delete ?i ?c else ?c),
     pk_finalized := insert ?k (pk_finalized s), pk_gatedNullMs := AList.delete ?i (pk_gatedNullMs s)\<rparr>)"
  have eq: "drop_inflight ?i (keep_profile d (pk_entries s ! e) ps s) = evict d kept"
    by (simp add: keep_profile_def kept_def Let_def evict_drop_inflight)
  note parts = contents_parts [OF assms(2)]
  note fresh = flight_id_fresh [OF assms(1) parts(1) assms(3)]
  have kept_state: "pk_inflight kept = AList.delete ?i (pk_inflight s)" "pk_entries kept = pk_entries s"
    "pk_finalized kept = insert ?k (pk_finalized s)" "pk_pending kept = pk_pending s"
    "pk_cache kept = (if ?i \<noteq> ?k then AList.delete ?i ?c else ?c)"
    by (simp_all add: kept_def drop_inflight_def)
  have cached: "\<exists>qs. map_get (pk_cache kept) k = Some (Some qs)" if "k \<in> pk_finalized kept" for k
  proof (cases "k = ?k")
    case True
    then show ?thesis by (auto simp: kept_state)
  next
    case False
    then have "k \<in> pk_finalized s" "k \<noteq> ?i" using that fresh(1) by (auto simp: kept_state)
    with profiles_okD(2) [OF parts(1), of k] False show ?thesis by (auto simp: kept_state)
  qed
  have "profiles_ok kept"
    by (rule finish_profiles [OF assms(1) parts(1) assms(3) kept_state(1,2)])
      (use cached profiles_okD(1) [OF parts(1)] in
        \<open>simp_all add: kept_state distinct_keys_update distinct_keys_delete\<close>)
  moreover have "waiters_plain kept" using parts(2) waiters_plain_cong [OF kept_state(4)] by simp
  ultimately show ?thesis unfolding eq by (rule evict_contents)
qed

lemma keep_failure_contents:
  assumes "sweeps_ok hole s" "contents_ok d s" "in_flight e s"
  shows "contents_ok d (drop_inflight (sw_id (pk_entries s ! e)) (keep_failure d (pk_entries s ! e) err ms s))"
proof -
  let ?i = "sw_id (pk_entries s ! e)"
  obtain g where g: "keep_failure d (pk_entries s ! e) err ms s =
      evict d (s\<lparr>pk_cache := AList.update ?i None (pk_cache s), pk_gatedNullMs := g\<rparr>)"
    unfolding keep_failure_def by blast
  define kept where
    "kept = drop_inflight ?i (s\<lparr>pk_cache := AList.update ?i None (pk_cache s), pk_gatedNullMs := g\<rparr>)"
  have eq: "drop_inflight ?i (keep_failure d (pk_entries s ! e) err ms s) = evict d kept"
    by (simp add: g kept_def evict_drop_inflight)
  note parts = contents_parts [OF assms(2)]
  note fresh = flight_id_fresh [OF assms(1) parts(1) assms(3)]
  have kept_state: "pk_inflight kept = AList.delete ?i (pk_inflight s)" "pk_entries kept = pk_entries s"
    "pk_finalized kept = pk_finalized s" "pk_pending kept = pk_pending s"
    "pk_cache kept = AList.update ?i None (pk_cache s)"
    by (simp_all add: kept_def drop_inflight_def)
  have cached: "\<exists>qs. map_get (pk_cache kept) k = Some (Some qs)" if "k \<in> pk_finalized kept" for k
    using that fresh(1) profiles_okD(2) [OF parts(1), of k] by (auto simp: kept_state)
  have "profiles_ok kept"
    by (rule finish_profiles [OF assms(1) parts(1) assms(3) kept_state(1,2)])
      (use cached profiles_okD(1) [OF parts(1)] in \<open>auto simp: kept_state distinct_keys_update\<close>)
  moreover have "waiters_plain kept" using parts(2) waiters_plain_cong [OF kept_state(4)] by simp
  ultimately show ?thesis unfolding eq by (rule evict_contents)
qed

lemma settle_contents:
  assumes "contents_ok d s"
    "\<not> sw_cancelled (pk_entries s ! e) \<Longrightarrow> sweeps_ok (Some e) s \<and> in_flight e s"
  shows "contents_ok d (settle d e n ms res s)"
proof (cases "sw_cancelled (pk_entries s ! e)")
  case True
  then show ?thesis using assms(1) by (simp add: settle_def)
next
  case False
  then have ok: "sweeps_ok (Some e) s" "in_flight e s" using assms(2) by simp_all
  note ends = end_sweep_contents [OF ok]
  have nap: "contents_ok d (s\<lparr>pk_tasks := NapTask e n # pk_tasks s\<rparr>)"
    by (rule contents_ok_frame [OF assms(1)]) simp_all
  show ?thesis
    using False nap attempt_contents [OF assms(1), of e 1]
      ends [OF keep_frame(1) keep_profile_contents [OF ok(1) assms(1) ok(2)]]
      ends [OF keep_frame(2) keep_failure_contents [OF ok(1) assms(1) ok(2)]]
      ends [OF same_sweeps_refl drop_flight_contents [OF ok(1) assms(1) ok(2)]]
    by (auto simp: settle_def Let_def split: sum.split)
qed

lemma store_loaded_contents:
  assumes "contents_ok d s"
    "\<not> sw_cancelled (pk_entries s ! e) \<Longrightarrow> sweeps_ok (Some e) s \<and> in_flight e s"
  shows "contents_ok d (store_loaded d e res s)"
proof (cases "\<not> sw_cancelled (pk_entries s ! e) \<and> (\<exists>ps. res = Some (Some ps) \<and> ps \<noteq> [])")
  case False
  then show ?thesis
    using assms(1) attempt_contents [OF assms(1), of e 1] by (auto simp: store_loaded_def Let_def split: option.split)
next
  case True
  then obtain ps where live: "\<not> sw_cancelled (pk_entries s ! e)" and res: "res = Some (Some ps)" "ps \<noteq> []"
    by blast
  let ?i = "sw_id (pk_entries s ! e)" and ?k = "sw_key (pk_entries s ! e)"
  define kept where "kept = (drop_inflight ?i s)\<lparr>pk_cache := AList.update ?k (Some ps) (pk_cache s),
     pk_finalized := insert ?k (pk_finalized s), pk_pending := AList.delete ?k (pk_pending s)\<rparr>"
  have eq: "store_loaded d e res s = evict d kept" using live res by (simp add: store_loaded_def kept_def Let_def)
  have ok: "sweeps_ok (Some e) s" "in_flight e s" using assms(2) live by simp_all
  note parts = contents_parts [OF assms(1)]
  have kept_state: "pk_inflight kept = AList.delete ?i (pk_inflight s)" "pk_entries kept = pk_entries s"
    "pk_finalized kept = insert ?k (pk_finalized s)" "pk_pending kept = AList.delete ?k (pk_pending s)"
    "pk_cache kept = AList.update ?k (Some ps) (pk_cache s)"
    by (simp_all add: kept_def drop_inflight_def)
  have cached: "\<exists>qs. map_get (pk_cache kept) k = Some (Some qs)" if "k \<in> pk_finalized kept" for k
    using that profiles_okD(2) [OF parts(1), of k] by (auto simp: kept_state)
  have "profiles_ok kept"
    by (rule finish_profiles [OF ok(1) parts(1) ok(2) kept_state(1,2)])
      (use cached profiles_okD(1) [OF parts(1)] in \<open>simp_all add: kept_state distinct_keys_update\<close>)
  moreover have "waiters_plain kept"
    using parts(2) waiters_plain_update [OF parts(2), of "[]" "?k" kept] kept_state(4) by simp
  ultimately show ?thesis unfolding eq by (rule evict_contents)
qed

lemma coarse_contents:
  assumes "contents_ok d s"
  shows "contents_ok d (onCoarse d e coarse s)"
proof (cases "\<not> sw_cancelled (pk_entries s ! e) \<and> \<not> is_array (map_get (pk_cache s) (sw_key (pk_entries s ! e)))")
  case False
  then show ?thesis using assms by (auto simp: onCoarse_def Let_def)
next
  case True
  let ?k = "sw_key (pk_entries s ! e)"
  let ?s = "s\<lparr>pk_cache := AList.update ?k (Some coarse) (pk_cache s)\<rparr>"
  note parts = contents_parts [OF assms]
  have "profiles_ok ?s"
  proof (rule profiles_ok_cache [OF parts(1)])
    show "\<forall>k\<in>pk_finalized ?s. \<exists>ps. map_get (pk_cache ?s) k = Some (Some ps)"
      using profiles_okD(2) [OF parts(1)] by auto
  qed (use profiles_okD(1) [OF parts(1)] in \<open>simp_all add: same_sweeps_def distinct_keys_update\<close>)
  then have "contents_ok d (evict d ?s)"
    using waiters_plain_cong [of ?s s] parts(2) by (intro evict_contents) simp_all
  then show ?thesis using True by (simp add: onCoarse_def)
qed

lemma cancel_contents:
  assumes "sweeps_ok None s" "contents_ok d s"
  shows "contents_ok d (cancel d i s)"
proof (cases "map_get (pk_inflight s) i")
  case None
  show ?thesis
  proof (cases "map_get (pk_pending s) (contentKey i)")
    case None2: None
    then show ?thesis using None assms(2) by (simp add: cancel_def)
  next
    case (Some ws)
    note parts = contents_parts [OF assms(2)]
    let ?rest = "AList.delete i ws"
    let ?p = "if ?rest = [] then AList.delete (contentKey i) (pk_pending s)
      else AList.update (contentKey i) ?rest (pk_pending s)"
    have eq: "cancel d i s = s\<lparr>pk_pending := ?p\<rparr>" using None Some by (simp add: cancel_def Let_def)
    have "waiters_plain (s\<lparr>pk_pending := ?p\<rparr>)"
    proof (rule waiters_plain_update [OF parts(2), of ?rest "contentKey i"])
      show "waiter_of (contentKey i) x u" if "(x, u) \<in> set ?rest" for x u
        using that waiters_plainD [OF parts(2) Some] by (simp add: delete_mem)
    qed simp
    then show ?thesis
      unfolding eq contents_ok_def using parts(1,3) by (simp add: profiles_ok_def cache_fits_def in_flight_def)
  qed
next
  case (Some e)
  then have e: "sw_id (pk_entries s ! e) = i" "in_flight e s"
    using sweeps_okD(2,8) [OF assms(1)] by (auto dest!: map_of_SomeD)
  let ?s = "cancel_entry e (drop_inflight (sw_id (pk_entries s ! e)) s)"
  note gone = cancel_flight [OF assms(1) e(2) refl]
  note parts = contents_parts [OF assms(2)]
  have "profiles_ok ?s"
    by (rule profiles_ok_flight [OF parts(1) gone(4,5)])
      (use profiles_okD(4,5) [OF parts(1)] in \<open>simp_all add: gone\<close>)
  then have "contents_ok d ?s"
    using waiters_plain_cong [OF gone(6)] cache_fits_smaller [OF parts(3), of ?s] parts(2) gone(4)
    by (simp add: contents_ok_def)
  from promote_contents [OF cancel_flight_ok [OF assms(1) e(2)] this]
  show ?thesis using Some e by (simp add: cancel_def)
qed

lemma reach_contents_ok: "peaks_reach d s \<Longrightarrow> contents_ok d s"
proof (induction rule: peaks_reach.induct)
  case Start
  show ?case
    by (simp add: contents_ok_def profiles_ok_def waiters_plain_def cache_fits_def createPeaksTracker_def
        keys_def in_flight_def)
next
  case (Pull s target)
  then show ?case using pull_tracker [of d s target] reach_sweeps_ok [OF Pull(1)] by (simp add: tracker_parts)
next
  case (Cancel s i)
  then show ?case by (intro cancel_contents reach_sweeps_ok)
next
  case (Loaded s e loadRes)
  show ?case
    using settled_hole(2) [OF reach_sweeps_ok [OF Loaded(1)] Loaded(2)] drop_task_contents [OF Loaded(3)]
    by (intro store_loaded_contents) simp_all
next
  case (Settled s e n sentMs res)
  show ?case
    using settled_hole(2) [OF reach_sweeps_ok [OF Settled(1)] Settled(2)] drop_task_contents [OF Settled(3)]
    by (intro settle_contents) simp_all
next
  case (Coarse s e coarse)
  then show ?case by (simp add: coarse_contents)
next
  case (Woke s e n slept)
  then show ?case by (simp add: woke_def attempt_contents drop_task_contents)
qed

end
