(* ===== verification/PeaksTheorems.thy ===== *)
theory PeaksTheorems
  imports PeaksLaws
begin

text \<open>
  What the waveform tracker of \<open>packages/application/src/peaks-tracker.ts\<close> promises in every
  reachable state: no sweep is wedged, a finished profile serves every later pull of its content,
  and the cache keeps its limit.
\<close>

lemma flight_reach:
  assumes "peaks_reach d s" "map_get (pk_inflight s) i = Some e"
  shows "in_flight e s" "sw_id (pk_entries s ! e) = i" "sw_key (pk_entries s ! e) = contentKey i"
  using sweeps_okD(2,3,8) [OF reach_sweeps_ok [OF assms(1)]] assms(2) by (auto dest!: map_of_SomeD)

text \<open>A sample: one pull without a store, one that joins it, and the first one's success.\<close>

definition sample_deps :: peaksDeps where
  "sample_deps = \<lparr>pd_cacheLimit = jnat 1, pd_retryLimit = jnat 3, pd_maxDurationMs = jnat 1000, pd_store = False\<rparr>"

definition sample_target :: "string \<Rightarrow> peaksTarget" where
  "sample_target i = \<lparr>pt_id = i, pt_handle = ''h'', pt_durationMs = None\<rparr>"

definition pulled :: "string list \<Rightarrow> nat peaksState" where
  "pulled ids = fold (\<lambda>i. pull sample_deps (sample_target i)) ids createPeaksTracker"

lemma pulled_one: "pk_inflight (pulled [''a|1'']) = [(''a|1'', 0)] \<and> pk_tasks (pulled [''a|1'']) = [PeaksTask 0 1 None]"
  by (simp add: pulled_def sample_target_def pull.simps pull_gates_def pull_start_def start_sweep_def
      createPeaksTracker_def attempt_def sample_deps_def contentKey_def)

lemma pulled_reach:
  assumes "\<forall>i\<in>set ids. CHR ''|'' \<notin> set (contentKey i)"
  shows "peaks_reach sample_deps (pulled ids)"
  using assms
proof (induction ids rule: rev_induct)
  case Nil
  show ?case by (simp add: pulled_def peaks_reach.Start)
next
  case (snoc i ids)
  then have "peaks_reach sample_deps (pull sample_deps (sample_target i) (pulled ids))"
    by (intro peaks_reach.Pull) (simp_all add: sample_target_def)
  then show ?case by (simp add: pulled_def)
qed

lemma sample_key: "contentKey ''a|1'' = ''a''" "contentKey ''a|2'' = ''a''" "contentKey ''a|3'' = ''a''"
  "contentKey ''b|1'' = ''b''"
  by (simp_all add: contentKey_def)

text \<open>C34: In every reachable state of the waveform tracker, whatever the order of pulls, cancels,
  store loads, port results, coarse profiles and retry sleeps, an id in flight is never wedged: its
  sweep is live, carries that id, and has exactly one operation outstanding that will settle it; and no
  other id in flight works on the same content.\<close>

theorem peaks_never_wedged:
  assumes "peaks_reach d s" "map_get (pk_inflight s) i = Some e"
  shows "sw_id (pk_entries s ! e) = i \<and> \<not> sw_cancelled (pk_entries s ! e) \<and>
    length (filter (\<lambda>t. task_entry t = e) (pk_tasks s)) = 1 \<and>
    (map_get (pk_inflight s) j = Some f \<and> contentKey j = contentKey i \<longrightarrow> j = i \<and> f = e)"
proof (intro conjI impI)
  note ok = reach_sweeps_ok [OF assms(1)]
  note fl = flight_reach [OF assms]
  show "sw_id (pk_entries s ! e) = i" by (rule fl(2))
  have e: "e < length (pk_entries s)" "\<not> sw_cancelled (pk_entries s ! e)" using sweeps_okD(7) [OF ok fl(1)] by simp_all
  then show "\<not> sw_cancelled (pk_entries s ! e)" by simp
  show "length (filter (\<lambda>t. task_entry t = e) (pk_tasks s)) = 1"
    using sweeps_okD(5) [OF ok e] fl(1) by (simp add: tasks_of_def)
next
  assume j: "map_get (pk_inflight s) j = Some f \<and> contentKey j = contentKey i"
  note i = flight_reach [OF assms]
  note f = flight_reach [OF assms(1) conjunct1 [OF j]]
  have "sw_key (pk_entries s ! f) = sw_key (pk_entries s ! e)" using i(3) f(3) j by simp
  from sweeps_okD(6) [OF reach_sweeps_ok [OF assms(1)] f(1) i(1) this] show same: "f = e" .
  show "j = i" using f(2) i(2) unfolding same by (rule trans [OF sym])
qed

theorem peaks_never_wedged_witness:
  "map_get (pk_inflight (pulled [''a|1''])) ''a|1'' = Some 0 \<and>
   length (filter (\<lambda>t. task_entry t = 0) (pk_tasks (pulled [''a|1'']))) = 1"
proof -
  have "map_get (pk_inflight (pulled [''a|1''])) ''a|1'' = Some 0" by (simp add: pulled_one)
  moreover have "peaks_reach sample_deps (pulled [''a|1''])"
    by (rule pulled_reach) (simp add: sample_key)
  ultimately show ?thesis using peaks_never_wedged [of sample_deps "pulled [''a|1'']" "''a|1''" 0] by blast
qed

text \<open>C35: In every reachable state the cache keeps its limit, a finished content always serves a
  profile (never a failure marker, whatever attempt id asks), has no sweep in flight, and pulling it
  again starts no operation.\<close>

theorem peaks_finished_served:
  assumes "peaks_reach d s" "pd_cacheLimit d = jnat n"
  shows "length (pk_cache s) \<le> n \<and>
    (contentKey (pt_id t) \<in> pk_finalized s \<longrightarrow>
       (\<exists>ps. peaks_get s (pt_id t) = Some (Some ps)) \<and>
       (map_get (pk_inflight s) j = Some e \<longrightarrow> contentKey j \<noteq> contentKey (pt_id t)) \<and>
       pk_tasks (pull d t s) = pk_tasks s \<and> pk_inflight (pull d t s) = pk_inflight s)"
proof (intro conjI impI)
  note parts = contents_parts [OF reach_contents_ok [OF assms(1)]]
  show "length (pk_cache s) \<le> n" using parts(3) assms(2) by (auto simp: cache_fits_def)
  assume fin: "contentKey (pt_id t) \<in> pk_finalized s"
  show "\<exists>ps. peaks_get s (pt_id t) = Some (Some ps)"
    using profiles_okD(2) [OF parts(1) fin] by (auto simp: peaks_get_def)
  show "contentKey j \<noteq> contentKey (pt_id t)" if "map_get (pk_inflight s) j = Some e"
    using profiles_okD(5) [OF parts(1)] flight_reach [OF assms(1) that] fin by metis
  have "pull d t s = reinsert (contentKey (pt_id t)) s"
    using fin by (simp add: pull.simps pull_gates_def Let_def)
  then show "pk_tasks (pull d t s) = pk_tasks s" "pk_inflight (pull d t s) = pk_inflight s"
    by (simp_all add: reinsert_def)
qed

text \<open>The sweep of the sample succeeds.\<close>

definition finished :: "nat peaksState" where
  "finished = settle sample_deps 0 1 None (Inr [7]) (drop_task (PeaksTask 0 1 None) (pulled [''a|1'']))"

lemma finished_reach: "peaks_reach sample_deps finished"
  unfolding finished_def
  by (intro peaks_reach.Settled pulled_reach) (simp_all add: sample_key pulled_one)

lemma pulled_state: "pulled [''a|1''] = \<lparr>pk_cache = [], pk_finalized = {}, pk_gatedNullMs = [],
    pk_inflight = [(''a|1'', 0)], pk_pending = [],
    pk_entries = [\<lparr>sw_id = ''a|1'', sw_key = ''a'', sw_target = sample_target ''a|1'', sw_cancelled = False\<rparr>],
    pk_tasks = [PeaksTask 0 1 None]\<rparr>"
  by (simp add: pulled_def sample_target_def pull.simps pull_gates_def pull_start_def start_sweep_def
      createPeaksTracker_def attempt_def sample_deps_def contentKey_def)

lemma finished_state: "pk_finalized finished = {''a''} \<and> pk_cache finished = [(''a'', Some [7])]"
  by (simp add: finished_def pulled_state settle_def drop_task_def end_sweep_def keep_profile_def Let_def
      evict.simps drop_inflight_def promotePending_def take_waiter_def sample_deps_def)

theorem peaks_finished_served_witness:
  "length (pk_cache finished) \<le> 1 \<and> (\<exists>ps. peaks_get finished ''a|2'' = Some (Some ps)) \<and>
   pk_tasks (pull sample_deps (sample_target ''a|2'') finished) = pk_tasks finished"
  using peaks_finished_served [OF finished_reach, of 1 "sample_target ''a|2''"]
  by (simp add: finished_state sample_key sample_target_def sample_deps_def)

text \<open>A content that finished leaves its older waiters behind: after the finished profile is evicted
  they still wait, with no sweep of their content in flight.\<close>

definition leftover :: "nat peaksState" where
  "leftover =
     settle sample_deps 1 1 None (Inr [8]) (drop_task (PeaksTask 1 1 None)
       (pull sample_deps (sample_target ''b|1'')
          (settle sample_deps 0 1 None (Inr [7])
             (drop_task (PeaksTask 0 1 None) (pulled [''a|1'', ''a|2'', ''a|3''])))))"

lemma waiting_state: "pulled [''a|1'', ''a|2'', ''a|3''] = \<lparr>pk_cache = [], pk_finalized = {}, pk_gatedNullMs = [],
    pk_inflight = [(''a|1'', 0)], pk_pending = [(''a'', [(''a|2'', sample_target ''a|2''), (''a|3'', sample_target ''a|3'')])],
    pk_entries = [\<lparr>sw_id = ''a|1'', sw_key = ''a'', sw_target = sample_target ''a|1'', sw_cancelled = False\<rparr>],
    pk_tasks = [PeaksTask 0 1 None]\<rparr>"
  by (simp add: pulled_def sample_target_def pull.simps pull_gates_def pull_start_def start_sweep_def
      createPeaksTracker_def attempt_def sample_deps_def contentKey_def add_waiter_def map_get_or_def)

lemma peaks_leftover_waiter:
  "map_get (pk_pending leftover) ''a'' = Some [(''a|2'', sample_target ''a|2'')] \<and>
   ''a'' \<notin> pk_finalized leftover \<and> pk_inflight leftover = [] \<and> pk_tasks leftover = []"
  unfolding leftover_def waiting_state
  by (simp add: settle_def drop_task_def end_sweep_def keep_profile_def Let_def
      evict.simps drop_inflight_def promotePending_def take_waiter_def sample_deps_def forget_def
      pull.simps pull_gates_def pull_start_def start_sweep_def attempt_def contentKey_def sample_target_def)

end
