(* ===== verification/UpdateCheck.thy ===== *)
theory UpdateCheck
  imports DomainGuards Doubles Decimal Errors
begin

text \<open>
  The release check of \<open>packages/application/src/update.ts\<close>: version tags and their order, the
  GitHub payload, the choice of the release, of the platform's artifact and of its checksum file,
  and \<open>createUpdateService\<close> as a state machine around one fetch. Numbers are read by
  \<open>Number.parseInt\<close> with the rounding of doubles.
\<close>

section \<open>Data\<close>

record updateArtifact =
  ua_name :: string
  ua_url :: string

record updateRelease =
  ur_version :: string
  ur_url :: string
  ur_assets :: "updateArtifact list"

datatype linuxPrefer = PreferAppimage | PreferFlatpak

datatype updateTarget = Android "string list" | Linux linuxPrefer | Mac | Win | OtherOs

section \<open>Version tags\<close>

definition VERSION_MAX_LENGTH :: nat where "VERSION_MAX_LENGTH = 64"

text \<open>\<open>\d+\<close> at the front: the digits and the rest.\<close>

definition digits1 :: "string \<Rightarrow> (string \<times> string) option" where
  "digits1 s = (if takeWhile is_digit s = [] then None else Some (takeWhile is_digit s, dropWhile is_digit s))"

definition literal :: "char \<Rightarrow> string \<Rightarrow> string option" where
  "literal c s = (case s of d # r \<Rightarrow> if c = d then Some r else None | [] \<Rightarrow> None)"

definition is_alnum :: "char \<Rightarrow> bool" where
  "is_alnum c = (is_digit c \<or> (65 \<le> (of_char c :: nat) \<and> (of_char c :: nat) \<le> 90) \<or>
     (97 \<le> (of_char c :: nat) \<and> (of_char c :: nat) \<le> 122))"

definition tail_char :: "char \<Rightarrow> bool" where
  "tail_char c = (is_alnum c \<or> c = CHR ''.'' \<or> c = CHR ''-'')"

text \<open>The three numbers and the tail of \<open>/^v?(\d+)\.(\d+)\.(\d+)(?:-([0-9A-Za-z.-]+))?$/\<close>.\<close>

definition VERSION_TAG :: "string \<Rightarrow> (string \<times> string \<times> string \<times> string option) option" where
  "VERSION_TAG tag =
     Option.bind (digits1 (case literal CHR ''v'' tag of Some r \<Rightarrow> r | None \<Rightarrow> tag)) (\<lambda>(a, r1).
     Option.bind (Option.bind (literal CHR ''.'' r1) digits1) (\<lambda>(b, r2).
     Option.bind (Option.bind (literal CHR ''.'' r2) digits1) (\<lambda>(c, r3).
       if r3 = [] then Some (a, b, c, None)
       else Option.bind (literal CHR ''-'' r3) (\<lambda>t.
         if t \<noteq> [] \<and> list_all tail_char t then Some (a, b, c, Some t) else None))))"

definition parseVersionTag :: "string \<Rightarrow> string option" where
  "parseVersionTag tag =
     (case VERSION_TAG tag of
        None \<Rightarrow> None
      | Some (a, b, c, pre) \<Rightarrow>
          let version = a @ ''.'' @ b @ ''.'' @ c @ (case pre of None \<Rightarrow> [] | Some t \<Rightarrow> CHR ''-'' # t)
          in if length version \<le> VERSION_MAX_LENGTH then Some version else None)"

section \<open>Version order\<close>

text \<open>\<open>Number.parseInt(s, 10)\<close>: leading white space, a sign, the longest run of digits.\<close>

definition parseInt10 :: "string \<Rightarrow> jsnum" where
  "parseInt10 s =
     (let t = dropWhile js_space s;
          (neg, u) = (case t of [] \<Rightarrow> (False, []) | c # r \<Rightarrow>
            if c = CHR ''-'' then (True, r) else if c = CHR ''+'' then (False, r) else (False, t));
          ds = takeWhile is_digit u
      in if ds = [] then NaN
         else to_double (if neg then - of_nat (parse_digits ds) else of_nat (parse_digits ds)))"

datatype ident = NumIdent jsnum | StrIdent string

record parsedVersion =
  pv_numbers :: "jsnum list"
  pv_prerelease :: "ident list"

definition ident_of :: "string \<Rightarrow> ident" where
  "ident_of s = (if s \<noteq> [] \<and> list_all is_digit s then NumIdent (parseInt10 s) else StrIdent s)"

definition parse :: "string \<Rightarrow> parsedVersion option" where
  "parse version =
     (let core = takeWhile (\<lambda>c. c \<noteq> CHR ''-'') version;
          pre = tl (dropWhile (\<lambda>c. c \<noteq> CHR ''-'') version);
          parts = map parseInt10 (split_on CHR ''.'' core)
      in if length parts \<noteq> 3 \<or> list_ex (\<lambda>p. safe_int p = None) parts then None
         else Some \<lparr>pv_numbers = parts,
                    pv_prerelease = (if pre = [] then [] else map ident_of (split_on CHR ''.'' pre))\<rparr>)"

text \<open>The loop over the three numbers: the first difference that is not zero.\<close>

fun first_diff :: "jsnum list \<Rightarrow> jsnum list \<Rightarrow> jsnum option" where
  "first_diff (x # xs) (y # ys) =
     (if js_sub x y \<noteq> Fin 0 then Some (js_sub x y) else first_diff xs ys)"
| "first_diff _ _ = None"

fun ident_eq :: "ident \<Rightarrow> ident \<Rightarrow> bool" where
  "ident_eq (NumIdent x) (NumIdent y) = num_eq x y"
| "ident_eq (StrIdent x) (StrIdent y) = (x = y)"
| "ident_eq _ _ = False"

fun ident_diff :: "ident \<Rightarrow> ident \<Rightarrow> jsnum" where
  "ident_diff (NumIdent x) (NumIdent y) = js_sub x y"
| "ident_diff (NumIdent x) (StrIdent y) = jint (- 1)"
| "ident_diff (StrIdent x) (NumIdent y) = jint 1"
| "ident_diff (StrIdent x) (StrIdent y) = (if x < y then jint (- 1) else jint 1)"

fun first_ident_diff :: "ident list \<Rightarrow> ident list \<Rightarrow> jsnum option" where
  "first_ident_diff (x # xs) (y # ys) =
     (if ident_eq x y then first_ident_diff xs ys else Some (ident_diff x y))"
| "first_ident_diff _ _ = None"

definition compareVersions :: "string \<Rightarrow> string \<Rightarrow> jsnum" where
  "compareVersions a b =
     (case (parse a, parse b) of
        (Some va, Some vb) \<Rightarrow>
          (case first_diff (pv_numbers va) (pv_numbers vb) of
             Some d \<Rightarrow> d
           | None \<Rightarrow>
               let pa = pv_prerelease va; pb = pv_prerelease vb
               in if pa = [] \<and> pb = [] then jint 0
                  else if pa = [] then jint 1
                  else if pb = [] then jint (- 1)
                  else case first_ident_diff pa pb of
                         Some d \<Rightarrow> d
                       | None \<Rightarrow> jint (int (length pa) - int (length pb)))
      | _ \<Rightarrow> jint 0)"

section \<open>The GitHub payload\<close>

definition isBareName :: "string \<Rightarrow> bool" where
  "isBareName name =
     (0 < length name \<and> CHR ''/'' \<notin> set name \<and> CHR 0x5C \<notin> set name \<and> name \<noteq> ''.'' \<and> name \<noteq> ''..'')"

definition release_asset :: "jsval \<Rightarrow> updateArtifact list" where
  "release_asset asset =
     (if \<not> isRecord asset then []
      else case (propOf asset ''name'', propOf asset ''browser_download_url'') of
             (JStr name, JStr download) \<Rightarrow>
               if isBareName name \<and> startsWith download ''https://''
               then [\<lparr>ua_name = name, ua_url = download\<rparr>] else []
           | _ \<Rightarrow> [])"

definition parseRelease :: "jsval \<Rightarrow> updateRelease option" where
  "parseRelease value =
     (if \<not> isRecord value \<or> propOf value ''draft'' = JBool True then None
      else case (propOf value ''tag_name'', propOf value ''html_url'', propOf value ''assets'') of
             (JStr tag, JStr url, JArr rawAssets) \<Rightarrow>
               if \<not> startsWith url ''https://'' then None
               else (case parseVersionTag tag of
                       None \<Rightarrow> None
                     | Some version \<Rightarrow>
                         Some \<lparr>ur_version = version, ur_url = url, ur_assets = concat (map release_asset rawAssets)\<rparr>)
           | _ \<Rightarrow> None)"

fun parseReleases :: "jsval \<Rightarrow> updateRelease list" where
  "parseReleases (JArr rows) = List.map_filter parseRelease rows"
| "parseReleases _ = []"

text \<open>One turn of the loop of \<open>latestNewer\<close>.\<close>

definition better_release :: "string \<Rightarrow> updateRelease option \<Rightarrow> updateRelease \<Rightarrow> updateRelease option" where
  "better_release current best release =
     (if js_le (compareVersions (ur_version release) current) (jint 0) then best
      else case best of
             None \<Rightarrow> Some release
           | Some b \<Rightarrow>
               if num_less (jint 0) (compareVersions (ur_version release) (ur_version b)) then Some release else best)"

definition latestNewer :: "updateRelease list \<Rightarrow> string \<Rightarrow> updateRelease option" where
  "latestNewer releases current = foldl (better_release current) None releases"

section \<open>Artifacts and checksums\<close>

fun checksumsNameFor :: "updateTarget \<Rightarrow> string option" where
  "checksumsNameFor (Android _) = Some ''SHA256SUMS-Android.txt''"
| "checksumsNameFor (Linux _) = Some ''SHA256SUMS-Linux.txt''"
| "checksumsNameFor Mac = Some ''SHA256SUMS-macOS.txt''"
| "checksumsNameFor Win = Some ''SHA256SUMS-Windows.txt''"
| "checksumsNameFor OtherOs = None"

definition pickChecksums :: "updateArtifact list \<Rightarrow> updateTarget \<Rightarrow> updateArtifact option" where
  "pickChecksums assets target =
     (case checksumsNameFor target of
        None \<Rightarrow> None
      | Some name \<Rightarrow> find (\<lambda>a. ua_name a = name) assets)"

definition is_hex :: "char \<Rightarrow> bool" where
  "is_hex c = (is_digit c \<or> (65 \<le> (of_char c :: nat) \<and> (of_char c :: nat) \<le> 70) \<or>
     (97 \<le> (of_char c :: nat) \<and> (of_char c :: nat) \<le> 102))"

definition trimEnd :: "string \<Rightarrow> string" where
  "trimEnd s = rev (dropWhile js_space (rev s))"

definition toLowerCase :: "string \<Rightarrow> string" where
  "toLowerCase s =
     map (\<lambda>c. if (192 \<le> (of_char c :: nat) \<and> (of_char c :: nat) \<le> 222 \<and> (of_char c :: nat) \<noteq> 215)
              then char_of (of_char c + 32 :: nat) else to_lower c) s"

text \<open>A line against \<open>/^([0-9a-fA-F]{64}) [ *](.+)$/\<close>; the dot matches no line terminator.\<close>

definition sums_line :: "string \<Rightarrow> (string \<times> string) option" where
  "sums_line line =
     (let hex = take 64 line; rest = drop 64 line; name = drop 2 rest
      in if length hex = 64 \<and> list_all is_hex hex \<and> (take 2 rest = ''  '' \<or> take 2 rest = '' *'') \<and>
            name \<noteq> [] \<and> list_all (\<lambda>c. (of_char c :: nat) \<noteq> 10 \<and> (of_char c :: nat) \<noteq> 13) name \<and> trimEnd name \<noteq> []
         then Some (trimEnd name, toLowerCase hex) else None)"

definition parseSha256Sums :: "string \<Rightarrow> (string, string) jsmap" where
  "parseSha256Sums text =
     foldl (\<lambda>m line. case sums_line line of None \<Rightarrow> m | Some (name, hex) \<Rightarrow> AList.update name hex m)
       [] (split_on (CHR 0x0A) text)"

definition lastIndexOf :: "string \<Rightarrow> string \<Rightarrow> nat option" where
  "lastIndexOf s p = find (\<lambda>i. startsWith (drop i s) p) (rev [0..<Suc (length s)])"

definition apkAbi :: "string \<Rightarrow> string option" where
  "apkAbi name =
     (if \<not> endsWith name ''.apk'' then None
      else case lastIndexOf name ''-android-'' of
             None \<Rightarrow> None
           | Some tag \<Rightarrow>
               let start = tag + length ''-android-'';
                   abi = take (length name - length ''.apk'' - start) (drop start name)
               in if abi \<noteq> [] \<and> list_all (\<lambda>c. is_alnum c \<or> c = CHR ''_'' \<or> c = CHR ''-'') abi then Some abi
                  else None)"

definition byAbi :: "updateArtifact list \<Rightarrow> string \<Rightarrow> updateArtifact option" where
  "byAbi assets abi = find (\<lambda>a. isBareName (ua_name a) \<and> apkAbi (ua_name a) = Some abi) assets"

fun first_abi :: "updateArtifact list \<Rightarrow> string list \<Rightarrow> updateArtifact option" where
  "first_abi assets [] = byAbi assets ''universal''"
| "first_abi assets (abi # abis) =
     (case byAbi assets abi of Some a \<Rightarrow> Some a | None \<Rightarrow> first_abi assets abis)"

fun wants :: "updateTarget \<Rightarrow> string \<Rightarrow> bool" where
  "wants (Linux PreferFlatpak) name = endsWith name ''.flatpak''"
| "wants (Linux PreferAppimage) name = endsWith name ''.AppImage''"
| "wants Mac name = endsWith name ''.dmg''"
| "wants Win name = endsWith name ''-setup.exe''"
| "wants _ name = False"

definition pickArtifact :: "updateArtifact list \<Rightarrow> updateTarget \<Rightarrow> updateArtifact option" where
  "pickArtifact assets target =
     (case target of
        Android supportedAbis \<Rightarrow> first_abi assets supportedAbis
      | _ \<Rightarrow> find (\<lambda>a. isBareName (ua_name a) \<and> wants target (ua_name a)) assets)"

section \<open>The check\<close>

datatype updateStatus =
    UpdIdle
  | UpdChecking
  | UpdCurrent
  | UpdAvailable string string "updateArtifact option" "updateArtifact option"
  | UpdFailed appError

text \<open>What was thrown, as the object of its readable properties.\<close>

definition thrown_error :: "string \<Rightarrow> jsval \<Rightarrow> appError" where
  "thrown_error fallback e =
     (case (isRecord e, propOf e ''kind'') of
        (True, JStr slug) \<Rightarrow>
          if appErrorKind (JStr slug) \<noteq> Internal
          then appError (appErrorKind (JStr slug))
                 (case propOf e ''message'' of JStr m \<Rightarrow> m | _ \<Rightarrow> fallback) None
          else appError Transient fallback None
      | _ \<Rightarrow> appError Transient fallback None)"

definition checkError :: "jsval \<Rightarrow> appError" where
  "checkError = thrown_error ''update check failed''"

text \<open>What the fetch brings: a reply, or something thrown.\<close>

datatype fetchResult = FetchReply nat jsval | FetchThrew jsval

definition judge_reply :: "string \<Rightarrow> updateTarget \<Rightarrow> fetchResult \<Rightarrow> updateStatus" where
  "judge_reply currentVersion target r =
     (case r of
        FetchThrew e \<Rightarrow> UpdFailed (checkError e)
      | FetchReply status body \<Rightarrow>
          if status = 403 \<or> status = 429
          then UpdFailed (appError RateLimit (''github responded '' @ show_nat status) None)
          else if status < 200 \<or> 300 \<le> status
          then UpdFailed (appError Transient (''github responded '' @ show_nat status) None)
          else (case body of
                  JArr rows \<Rightarrow>
                    (case latestNewer (parseReleases body) currentVersion of
                       None \<Rightarrow> UpdCurrent
                     | Some latest \<Rightarrow>
                         UpdAvailable (ur_version latest) (ur_url latest)
                           (pickArtifact (ur_assets latest) target) (pickChecksums (ur_assets latest) target))
                | _ \<Rightarrow> UpdFailed (appError InvalidResponse ''releases payload was not a list'' None)))"

end
