(* ===== verification/UpdateApplier.thy ===== *)
theory UpdateApplier
  imports UpdateCheck
begin

text \<open>
  \<open>createUpdateApplier\<close> and \<open>createUpdateService\<close> of \<open>packages/application/src/update.ts\<close> as state
  machines. A port call that is outstanding is a task, which holds the local variables its run needs
  when the call settles; an answer resumes the run. The log records the port traffic, newest first.
  A download reports progress only while it is outstanding.
\<close>

section \<open>State\<close>

datatype applyStatus =
    ApIdle
  | ApDownloading string nat "nat option"
  | ApVerifying string
  | ApApplying string
  | ApReady string
  | ApApplied string
  | ApNeedsPermission string
  | ApFailed string appError

record applyTarget =
  at_version :: string
  at_artifact :: updateArtifact
  at_checksums :: "updateArtifact option"

text \<open>The run (its generation), its target, the staged path, the expected hash; for a download the
  last published progress.\<close>

datatype applyTask =
    SumsTask (task_gen: nat) applyTarget
  | DownloadTask (task_gen: nat) applyTarget string string nat "nat option"
  | HashTask (task_gen: nat) applyTarget string string
  | InstallTask (task_gen: nat) applyTarget string
  | ReinstallTask (task_gen: nat) string

datatype traffic =
    FetchText nat string
  | GotSums nat string
  | StartDownload nat string string
  | Downloaded nat string
  | Hashed nat string string
  | Install nat string updateArtifact
  | Remove string

record applier =
  ap_state :: applyStatus
  ap_controller :: "nat option"
  ap_generation :: nat
  ap_running :: bool
  ap_claims :: "(string, nat) jsmap"
  ap_retained :: "(string \<times> updateArtifact \<times> string) option"
  ap_aborted :: "nat set"
  ap_tasks :: "applyTask list"
  ap_log :: "traffic list"

definition createUpdateApplier :: applier where
  "createUpdateApplier =
     \<lparr>ap_state = ApIdle, ap_controller = None, ap_generation = 0, ap_running = False, ap_claims = [],
      ap_retained = None, ap_aborted = {}, ap_tasks = [], ap_log = []\<rparr>"

fun live :: "applyStatus \<Rightarrow> bool" where
  "live (ApDownloading v r t) = True"
| "live (ApVerifying v) = True"
| "live (ApApplying v) = True"
| "live _ = False"

section \<open>What a port throws\<close>

definition applyError :: "jsval \<Rightarrow> appError" where
  "applyError = thrown_error ''update apply failed''"

definition isAbort :: "jsval \<Rightarrow> bool" where
  "isAbort e =
     (isRecord e \<and> (propOf e ''name'' = JStr ''AbortError'' \<or> propOf e ''kind'' = JStr ''cancelled''))"

definition isPermissionDenied :: "jsval \<Rightarrow> bool" where
  "isPermissionDenied e = (isRecord e \<and> propOf e ''kind'' = JStr ''permission-denied'')"

text \<open>\<open>throw appError(kind, message)\<close> as the value the catch sees.\<close>

definition thrown_app :: "errorKind \<Rightarrow> string \<Rightarrow> jsval" where
  "thrown_app k m = JObj [(''kind'', JStr (kind_slug k)), (''message'', JStr m)]"

section \<open>Helpers of a run\<close>

definition publishIfCurrent :: "nat \<Rightarrow> applyStatus \<Rightarrow> applier \<Rightarrow> applier" where
  "publishIfCurrent gen next_state s = (if gen = ap_generation s then s\<lparr>ap_state := next_state\<rparr> else s)"

definition stale :: "nat \<Rightarrow> applier \<Rightarrow> bool" where
  "stale gen s = (gen \<noteq> ap_generation s \<or> gen \<in> ap_aborted s)"

definition dropOwned :: "nat \<Rightarrow> string option \<Rightarrow> applier \<Rightarrow> applier" where
  "dropOwned gen path s =
     (case path of
        None \<Rightarrow> s
      | Some p \<Rightarrow>
          if map_get (ap_claims s) p = Some gen
          then s\<lparr>ap_claims := AList.delete p (ap_claims s), ap_log := Remove p # ap_log s\<rparr>
          else s)"

text \<open>The \<open>finally\<close> of a run.\<close>

definition end_run :: "nat \<Rightarrow> applier \<Rightarrow> applier" where
  "end_run gen s = (if gen = ap_generation s then s\<lparr>ap_controller := None, ap_running := False\<rparr> else s)"

definition drop_run :: "nat \<Rightarrow> string option \<Rightarrow> applier \<Rightarrow> applier" where
  "drop_run gen path s = end_run gen (dropOwned gen path s)"

text \<open>The \<open>catch\<close> of a run, and its \<open>finally\<close>.\<close>

definition fail_run :: "nat \<Rightarrow> applyTarget \<Rightarrow> string option \<Rightarrow> bool \<Rightarrow> jsval \<Rightarrow> applier \<Rightarrow> applier" where
  "fail_run gen target path applyLaunched e s =
     (case path of
        Some p \<Rightarrow>
          if gen = ap_generation s \<and> applyLaunched \<and> isPermissionDenied e
          then end_run gen (s\<lparr>ap_claims := AList.delete p (ap_claims s),
                 ap_retained := Some (p, at_artifact target, at_version target),
                 ap_state := ApNeedsPermission (at_version target)\<rparr>)
          else end_run gen (publishIfCurrent gen
                 (if isAbort e then ApIdle else ApFailed (at_version target) (applyError e)) (dropOwned gen path s))
      | None \<Rightarrow>
          end_run gen (publishIfCurrent gen
            (if isAbort e then ApIdle else ApFailed (at_version target) (applyError e)) s))"

section \<open>Calls\<close>

fun settled_version :: "applyStatus \<Rightarrow> string option" where
  "settled_version (ApReady v) = Some v"
| "settled_version (ApApplied v) = Some v"
| "settled_version (ApNeedsPermission v) = Some v"
| "settled_version _ = None"

definition start_run :: "nat \<Rightarrow> applyTarget \<Rightarrow> applier \<Rightarrow> applier" where
  "start_run gen target s =
     (case at_checksums target of
        None \<Rightarrow> fail_run gen target None False (thrown_app Unavailable ''release ships no checksums for this platform'') s
      | Some cs \<Rightarrow>
          (publishIfCurrent gen (ApVerifying (at_version target)) s)
             \<lparr>ap_tasks := SumsTask gen target # ap_tasks s, ap_log := FetchText gen (ua_url cs) # ap_log s\<rparr>)"

definition begin_apply :: "applyTarget \<Rightarrow> applier \<Rightarrow> applier" where
  "begin_apply target s =
     (if ap_running s \<or> live (ap_state s) \<or> settled_version (ap_state s) = Some (at_version target) then s
      else let gen = ap_generation s + 1
           in start_run gen target
                (s\<lparr>ap_running := True, ap_generation := gen, ap_controller := Some gen, ap_retained := None,
                   ap_log := (case ap_retained s of
                      Some (p, a, v) \<Rightarrow> if v \<noteq> at_version target then Remove p # ap_log s else ap_log s
                    | None \<Rightarrow> ap_log s)\<rparr>))"

fun handed_version :: "applyStatus \<Rightarrow> string option" where
  "handed_version (ApApplied v) = Some v"
| "handed_version (ApNeedsPermission v) = Some v"
| "handed_version _ = None"

definition reapply :: "applier \<Rightarrow> applier" where
  "reapply s =
     (case (ap_running s, ap_retained s, handed_version (ap_state s)) of
        (False, Some (staged, artifact, v), Some version) \<Rightarrow>
          let gen = ap_generation s + 1
          in s\<lparr>ap_running := True, ap_generation := gen, ap_state := ApApplying version,
               ap_controller := Some gen, ap_tasks := ReinstallTask gen version # ap_tasks s,
               ap_log := Install gen staged artifact # ap_log s\<rparr>
      | _ \<Rightarrow> s)"

definition cancel_apply :: "applier \<Rightarrow> applier" where
  "cancel_apply s =
     s\<lparr>ap_generation := ap_generation s + 1,
       ap_aborted := (case ap_controller s of Some c \<Rightarrow> insert c (ap_aborted s) | None \<Rightarrow> ap_aborted s),
       ap_controller := None, ap_running := False,
       ap_state := (if live (ap_state s) then ApIdle else ap_state s)\<rparr>"

section \<open>Answers\<close>

definition sums_answer :: "(updateArtifact \<Rightarrow> jsval + string) \<Rightarrow> nat \<Rightarrow> applyTarget \<Rightarrow> jsval + string \<Rightarrow> applier \<Rightarrow> applier" where
  "sums_answer stagePath gen target r s =
     (case r of
        Inl e \<Rightarrow> fail_run gen target None False e s
      | Inr body \<Rightarrow>
          let s = s\<lparr>ap_log := GotSums gen body # ap_log s\<rparr>
          in if stale gen s then end_run gen s
             else case map_get (parseSha256Sums body) (ua_name (at_artifact target)) of
                    None \<Rightarrow> fail_run gen target None False
                              (thrown_app InvalidResponse ''artifact absent from the release checksums'') s
                  | Some expected \<Rightarrow>
                      (case stagePath (at_artifact target) of
                         Inl e \<Rightarrow> fail_run gen target None False e s
                       | Inr path \<Rightarrow>
                           (publishIfCurrent gen (ApDownloading (at_version target) 0 None) s)
                             \<lparr>ap_claims := AList.update path gen (ap_claims s),
                              ap_tasks := DownloadTask gen target path expected 0 None # ap_tasks s,
                              ap_log := StartDownload gen path (ua_url (at_artifact target)) # ap_log s\<rparr>))"

definition PROGRESS_STEP :: int where "PROGRESS_STEP = 1024 * 1024"

definition publishProgress :: "nat \<Rightarrow> applyTarget \<Rightarrow> string \<Rightarrow> string \<Rightarrow> nat \<Rightarrow> nat option \<Rightarrow> nat \<Rightarrow> nat option \<Rightarrow> applier \<Rightarrow> applier" where
  "publishProgress gen target path expected progressBytes progressTotal received totalBytes s =
     (if totalBytes \<noteq> Some received \<and> totalBytes = progressTotal \<and> int received - int progressBytes < PROGRESS_STEP
      then s\<lparr>ap_tasks := DownloadTask gen target path expected progressBytes progressTotal # ap_tasks s\<rparr>
      else (publishIfCurrent gen (ApDownloading (at_version target) received totalBytes) s)
             \<lparr>ap_tasks := DownloadTask gen target path expected received totalBytes # ap_tasks s\<rparr>)"

definition download_answer :: "nat \<Rightarrow> applyTarget \<Rightarrow> string \<Rightarrow> string \<Rightarrow> jsval + unit \<Rightarrow> applier \<Rightarrow> applier" where
  "download_answer gen target path expected r s =
     (case r of
        Inl e \<Rightarrow> fail_run gen target (Some path) False e s
      | Inr _ \<Rightarrow>
          let s = s\<lparr>ap_log := Downloaded gen path # ap_log s\<rparr>
          in if stale gen s then drop_run gen (Some path) s
             else (publishIfCurrent gen (ApVerifying (at_version target)) s)
                    \<lparr>ap_tasks := HashTask gen target path expected # ap_tasks s\<rparr>)"

definition hash_answer :: "nat \<Rightarrow> applyTarget \<Rightarrow> string \<Rightarrow> string \<Rightarrow> jsval + string \<Rightarrow> applier \<Rightarrow> applier" where
  "hash_answer gen target path expected r s =
     (case r of
        Inl e \<Rightarrow> fail_run gen target (Some path) False e s
      | Inr actual \<Rightarrow>
          let s = s\<lparr>ap_log := Hashed gen path actual # ap_log s\<rparr>
          in if stale gen s then drop_run gen (Some path) s
             else if toLowerCase actual \<noteq> expected
             then fail_run gen target (Some path) False
                    (thrown_app ArtifactRejected ''downloaded artifact fails its published checksum'') s
             else (publishIfCurrent gen (ApApplying (at_version target)) s)
                    \<lparr>ap_tasks := InstallTask gen target path # ap_tasks s,
                     ap_log := Install gen path (at_artifact target) # ap_log s\<rparr>)"

datatype installOutcome = Relaunch | Installed

definition outcome_status :: "installOutcome \<Rightarrow> string \<Rightarrow> applyStatus" where
  "outcome_status out version = (if out = Relaunch then ApReady version else ApApplied version)"

definition install_answer :: "nat \<Rightarrow> applyTarget \<Rightarrow> string \<Rightarrow> jsval + installOutcome \<Rightarrow> applier \<Rightarrow> applier" where
  "install_answer gen target path r s =
     (case r of
        Inl e \<Rightarrow> fail_run gen target (Some path) True e s
      | Inr out \<Rightarrow>
          if stale gen s then drop_run gen (Some path) s
          else end_run gen (publishIfCurrent gen (outcome_status out (at_version target))
                 (s\<lparr>ap_claims := AList.delete path (ap_claims s),
                    ap_retained := (if out = Installed then Some (path, at_artifact target, at_version target)
                                    else ap_retained s)\<rparr>)))"

definition reinstall_answer :: "nat \<Rightarrow> string \<Rightarrow> jsval + installOutcome \<Rightarrow> applier \<Rightarrow> applier" where
  "reinstall_answer gen version r s =
     end_run gen
       (case r of
          Inr out \<Rightarrow> if stale gen s then s else publishIfCurrent gen (outcome_status out version) s
        | Inl e \<Rightarrow>
            if gen \<noteq> ap_generation s then s
            else if isPermissionDenied e then s\<lparr>ap_state := ApNeedsPermission version\<rparr>
            else s\<lparr>ap_retained := None,
                   ap_state := (if isAbort e then ApIdle else ApFailed version (applyError e))\<rparr>)"

section \<open>Reachable states\<close>

definition take_task :: "applyTask \<Rightarrow> applier \<Rightarrow> applier" where
  "take_task t s = s\<lparr>ap_tasks := remove1 t (ap_tasks s)\<rparr>"

text \<open>A pending port call settles, or a download reports progress.\<close>

inductive apply_answer :: "(updateArtifact \<Rightarrow> jsval + string) \<Rightarrow> applier \<Rightarrow> applier \<Rightarrow> bool" for stagePath s where
  Sums: "SumsTask g target \<in> set (ap_tasks s) \<Longrightarrow>
    apply_answer stagePath s (sums_answer stagePath g target text (take_task (SumsTask g target) s))"
| Progress: "DownloadTask g target path expected pb pt \<in> set (ap_tasks s) \<Longrightarrow>
    apply_answer stagePath s (publishProgress g target path expected pb pt received totalBytes
      (take_task (DownloadTask g target path expected pb pt) s))"
| Arrived: "DownloadTask g target path expected pb pt \<in> set (ap_tasks s) \<Longrightarrow>
    apply_answer stagePath s (download_answer g target path expected arrival
      (take_task (DownloadTask g target path expected pb pt) s))"
| Digest: "HashTask g target path expected \<in> set (ap_tasks s) \<Longrightarrow>
    apply_answer stagePath s (hash_answer g target path expected hex (take_task (HashTask g target path expected) s))"
| Outcome: "InstallTask g target path \<in> set (ap_tasks s) \<Longrightarrow>
    apply_answer stagePath s (install_answer g target path out (take_task (InstallTask g target path) s))"
| Reoutcome: "ReinstallTask g version \<in> set (ap_tasks s) \<Longrightarrow>
    apply_answer stagePath s (reinstall_answer g version out (take_task (ReinstallTask g version) s))"

inductive apply_reach :: "(updateArtifact \<Rightarrow> jsval + string) \<Rightarrow> applier \<Rightarrow> bool" for stagePath where
  Fresh: "apply_reach stagePath createUpdateApplier"
| Begin: "apply_reach stagePath s \<Longrightarrow> apply_reach stagePath (begin_apply target s)"
| Reapply: "apply_reach stagePath s \<Longrightarrow> apply_reach stagePath (reapply s)"
| CancelApply: "apply_reach stagePath s \<Longrightarrow> apply_reach stagePath (cancel_apply s)"
| Answer: "apply_reach stagePath s \<Longrightarrow> apply_answer stagePath s s' \<Longrightarrow> apply_reach stagePath s'"

section \<open>The service\<close>

text \<open>The service with its applier: its snapshot holds the check status and a copy of the apply status,
  taken at every publish of either; the fetches are the outstanding ones.\<close>

datatype checkKind = BootCheck | ManualCheck

record updater =
  up_status :: updateStatus
  up_apply :: applyStatus
  up_booted :: bool
  up_inflight :: bool
  up_fetches :: nat
  up_applier :: applier

definition createUpdateService :: updater where
  "createUpdateService =
     \<lparr>up_status = UpdIdle, up_apply = ApIdle, up_booted = False, up_inflight = False, up_fetches = 0,
      up_applier = createUpdateApplier\<rparr>"

definition publish_status :: "updateStatus \<Rightarrow> updater \<Rightarrow> updater" where
  "publish_status status u = u\<lparr>up_status := status, up_apply := ap_state (up_applier u)\<rparr>"

text \<open>What the applier does reaches the snapshot through its change feed.\<close>

definition applier_step :: "(applier \<Rightarrow> applier) \<Rightarrow> updater \<Rightarrow> updater" where
  "applier_step f u = publish_status (up_status u) (u\<lparr>up_applier := f (up_applier u)\<rparr>)"

definition start_check :: "updater \<Rightarrow> updater" where
  "start_check u =
     (if up_inflight u then u
      else (publish_status UpdChecking u)\<lparr>up_inflight := True, up_fetches := up_fetches u + 1\<rparr>)"

fun check :: "checkKind \<Rightarrow> updater \<Rightarrow> updater" where
  "check BootCheck u = (if up_booted u then u else start_check (u\<lparr>up_booted := True\<rparr>))"
| "check ManualCheck u = start_check u"

definition check_settled :: "string \<Rightarrow> updateTarget \<Rightarrow> fetchResult \<Rightarrow> updater \<Rightarrow> updater" where
  "check_settled currentVersion target r u =
     (publish_status (judge_reply currentVersion target r) u)\<lparr>up_inflight := False, up_fetches := up_fetches u - 1\<rparr>"

definition service_apply :: "updater \<Rightarrow> updater" where
  "service_apply u =
     (case up_status u of
        UpdAvailable version url (Some artifact) checksums \<Rightarrow>
          applier_step (begin_apply \<lparr>at_version = version, at_artifact = artifact, at_checksums = checksums\<rparr>) u
      | _ \<Rightarrow> u)"

text \<open>The calls of the service, the settling of its fetch, and whatever the applier's ports answer.\<close>

inductive update_reach :: "string \<Rightarrow> updateTarget \<Rightarrow> (updateArtifact \<Rightarrow> jsval + string) \<Rightarrow> updater \<Rightarrow> bool"
  for currentVersion target stagePath where
  Created: "update_reach currentVersion target stagePath createUpdateService"
| Check: "update_reach currentVersion target stagePath u \<Longrightarrow> update_reach currentVersion target stagePath (check kind u)"
| CheckSettled: "update_reach currentVersion target stagePath u \<Longrightarrow> 0 < up_fetches u \<Longrightarrow>
    update_reach currentVersion target stagePath (check_settled currentVersion target reply u)"
| Apply: "update_reach currentVersion target stagePath u \<Longrightarrow> update_reach currentVersion target stagePath (service_apply u)"
| ServiceReapply: "update_reach currentVersion target stagePath u \<Longrightarrow>
    update_reach currentVersion target stagePath (applier_step reapply u)"
| ServiceCancel: "update_reach currentVersion target stagePath u \<Longrightarrow>
    update_reach currentVersion target stagePath (applier_step cancel_apply u)"
| Answered: "update_reach currentVersion target stagePath u \<Longrightarrow> apply_answer stagePath (up_applier u) a \<Longrightarrow>
    update_reach currentVersion target stagePath (applier_step (\<lambda>_. a) u)"

end
