(* ===== verification/UpdateLaws.thy ===== *)
theory UpdateLaws
  imports UpdateCheck
begin

text \<open>
  The order of \<open>compareVersions\<close> is the order of a key (the three numbers, then release above
  prerelease, then the identifiers, numbers below words), so it is total and transitive on the
  versions that parse, and \<open>latestNewer\<close> takes a greatest one.
\<close>

section \<open>Signs of rounded differences\<close>

lemma to_double_pos: "0 < d \<Longrightarrow> num_less (jint 0) (to_double (of_int d)) \<and> \<not> num_less (to_double (of_int d)) (jint 0)"
proof -
  assume "0 < d"
  then have "rnd 1 \<le> rnd (rat_of_int d)" by (intro rnd_mono) simp
  then have r: "1 \<le> rnd (rat_of_int d)" by simp
  then have "\<not> rnd (rat_of_int d) \<le> - (2 ^ 1024)" using zero_less_power [of "2 :: rat" 1024] by linarith
  then show ?thesis using r by (auto simp: to_double_def Let_def)
qed

lemma to_double_minus: "to_double (- q) = js_neg (to_double q)"
  by (auto simp: to_double_def rnd_minus Let_def)

lemma to_double_sign:
  "num_less (jint 0) (to_double (of_int d)) \<longleftrightarrow> 0 < d" "num_less (to_double (of_int d)) (jint 0) \<longleftrightarrow> d < 0"
  "to_double (of_int d) = Fin 0 \<longleftrightarrow> d = 0"
proof -
  have neg: "num_less (to_double (of_int d)) (jint 0) \<and> \<not> num_less (jint 0) (to_double (of_int d))" if "d < 0"
  proof -
    have "to_double (of_int d) = js_neg (to_double (of_int (- d)))"
      using to_double_minus [of "- of_int d"] by simp
    then show ?thesis using to_double_pos [of "- d"] that by (cases "to_double (of_int (- d))") auto
  qed
  have zero: "to_double (of_int 0) = Fin 0" by (simp add: to_double_def)
  consider "0 < d" | "d = 0" | "d < 0" by linarith
  then have "(num_less (jint 0) (to_double (of_int d)) \<longleftrightarrow> 0 < d) \<and> (num_less (to_double (of_int d)) (jint 0) \<longleftrightarrow> d < 0) \<and>
    (to_double (of_int d) = Fin 0 \<longleftrightarrow> d = 0)"
  proof cases
    case 1
    then show ?thesis using to_double_pos [OF 1] by auto
  next
    case 2
    then show ?thesis using zero by simp
  next
    case 3
    then show ?thesis using neg [OF 3] by auto
  qed
  then show "num_less (jint 0) (to_double (of_int d)) \<longleftrightarrow> 0 < d"
    "num_less (to_double (of_int d)) (jint 0) \<longleftrightarrow> d < 0" "to_double (of_int d) = Fin 0 \<longleftrightarrow> d = 0"
    by simp_all
qed

text \<open>The rounding of a natural number is an integer.\<close>

lemma rnd_nat_whole: "\<exists>j. rnd (of_nat n) = of_int j"
proof (cases "n < 2 ^ 53")
  case True
  then show ?thesis by (intro exI [of _ "int n"]) (simp add: rnd_nat)
next
  case False
  then have "rat_of_nat (2 ^ 53) \<le> of_nat n" by (simp only: of_nat_le_iff not_less)
  then have n: "2 ^ 53 \<le> rat_of_nat n" by simp
  then have pos: "0 < rat_of_nat n" by (rule less_le_trans [rotated]) simp
  have "2 powi 53 < (2 :: rat) powi (flog2 (of_nat n) + 1)"
    using n flog2_bounds(2) [OF pos] by simp
  from this [unfolded powi_less_iff] have "53 \<le> flog2 (rat_of_nat n)" by simp
  then have e: "0 \<le> binade (rat_of_nat n) - 52" by (simp add: binade_def)
  then have "(2 :: rat) powi (binade (of_nat n) - 52) = of_int (2 ^ nat (binade (rat_of_nat n) - 52))"
    using powi_nat [of "nat (binade (rat_of_nat n) - 52)"] by simp
  then have "rnd (of_nat n) = of_int (rne (of_nat n / 2 powi (binade (rat_of_nat n) - 52)) * 2 ^ nat (binade (rat_of_nat n) - 52))"
    using pos by (simp add: rnd_def rnd_pos_def Let_def)
  then show ?thesis by blast
qed

section \<open>Keys\<close>

fun num_key :: "jsnum \<Rightarrow> nat \<times> rat" where
  "num_key NegInf = (0, 0)"
| "num_key (Fin q) = (1, q)"
| "num_key PosInf = (2, 0)"
| "num_key NaN = (3, 0)"

fun ident_key :: "ident \<Rightarrow> nat \<times> (nat \<times> rat) \<times> string" where
  "ident_key (NumIdent x) = (0, num_key x, [])"
| "ident_key (StrIdent s) = (1, (0, 0), s)"

definition version_key :: "parsedVersion \<Rightarrow> (nat \<times> rat) list \<times> bool \<times> (nat \<times> (nat \<times> rat) \<times> string) list" where
  "version_key v = (map num_key (pv_numbers v), pv_prerelease v = [], map ident_key (pv_prerelease v))"

text \<open>A numeric identifier is a whole number, or beyond every double.\<close>

fun whole :: "ident \<Rightarrow> bool" where
  "whole (NumIdent x) = (x = PosInf \<or> (\<exists>j. x = jint j))"
| "whole (StrIdent s) = True"

lemma whole_ident_of: "whole (ident_of s)"
proof (cases "s \<noteq> [] \<and> list_all is_digit s")
  case True
  then obtain c r where s: "s = c # r" by (cases s) auto
  have c: "is_digit c" using True s by simp
  then have "\<not> js_space c" "c \<noteq> CHR ''-''" "c \<noteq> CHR ''+''"
    by (auto simp: is_digit_def js_space_def)
  moreover have "takeWhile is_digit s = s" using True by (simp add: takeWhile_eq_all_conv list_all_iff)
  ultimately have p: "parseInt10 s = to_double (of_nat (parse_digits s))"
    by (simp add: parseInt10_def s)
  obtain j where "rnd (of_nat (parse_digits s)) = of_int j" using rnd_nat_whole by blast
  moreover have "0 \<le> rnd (rat_of_nat (parse_digits s))" using rnd_mono [of 0 "rat_of_nat (parse_digits s)"] by simp
  then have "\<not> rnd (rat_of_nat (parse_digits s)) \<le> - (2 ^ 1024)"
    using zero_less_power [of "2 :: rat" 1024] by linarith
  ultimately have "to_double (of_nat (parse_digits s)) = PosInf \<or> (\<exists>j. to_double (of_nat (parse_digits s)) = jint j)"
    unfolding to_double_def Let_def by auto
  then show ?thesis using True p by (simp add: ident_of_def)
qed (auto simp: ident_of_def)

lemma ident_eq_key: "whole x \<Longrightarrow> whole y \<Longrightarrow> ident_eq x y \<longleftrightarrow> ident_key x = ident_key y"
  by (cases x; cases y) (auto simp: num_eq_def)

lemma ident_diff_key:
  assumes "whole x" "whole y" "\<not> ident_eq x y"
  shows "num_less (jint 0) (ident_diff x y) \<longleftrightarrow> ident_key y < ident_key x"
    "num_less (ident_diff x y) (jint 0) \<longleftrightarrow> ident_key x < ident_key y"
proof -
  have diff: "js_sub (jint i) (jint j) = to_double (of_int i - of_int j)" for i j by (simp add: js_sub_def)
  have "(num_less (jint 0) (ident_diff x y) \<longleftrightarrow> ident_key y < ident_key x) \<and>
    (num_less (ident_diff x y) (jint 0) \<longleftrightarrow> ident_key x < ident_key y)"
  proof (cases x; cases y)
    fix m n assume xy: "x = NumIdent m" "y = NumIdent n"
    consider i j where "m = jint i" "n = jint j" | "m = PosInf" "\<exists>j. n = jint j" | "n = PosInf" "\<exists>j. m = jint j"
      using assms xy by (auto simp: num_eq_def)
    then show ?thesis
    proof cases
      case 1
      then show ?thesis using xy to_double_sign [of "i - j"] by (simp add: diff)
    qed (auto simp: xy js_sub_def)
  qed (use assms(3) in \<open>auto\<close>)
  then show "num_less (jint 0) (ident_diff x y) \<longleftrightarrow> ident_key y < ident_key x"
    "num_less (ident_diff x y) (jint 0) \<longleftrightarrow> ident_key x < ident_key y" by simp_all
qed

section \<open>The comparison is the order of the keys\<close>

lemma first_diff_key:
  assumes "length is = length js"
  shows "first_diff (map jint is) (map jint js) = None \<longleftrightarrow> is = js"
    "first_diff (map jint is) (map jint js) = Some d \<Longrightarrow>
       (num_less (jint 0) d \<longleftrightarrow> map num_key (map jint js) < map num_key (map jint is)) \<and>
       (num_less d (jint 0) \<longleftrightarrow> map num_key (map jint is) < map num_key (map jint js)) \<and> is \<noteq> js"
proof -
  have "(first_diff (map jint is) (map jint js) = None \<longleftrightarrow> is = js) \<and>
    (\<forall>d. first_diff (map jint is) (map jint js) = Some d \<longrightarrow>
       (num_less (jint 0) d \<longleftrightarrow> map num_key (map jint js) < map num_key (map jint is)) \<and>
       (num_less d (jint 0) \<longleftrightarrow> map num_key (map jint is) < map num_key (map jint js)) \<and> is \<noteq> js)"
    using assms
  proof (induction "is" js rule: list_induct2)
    case (Cons i "is" j js)
    have diff: "js_sub (jint i) (jint j) = to_double (of_int i - of_int j)" by (simp add: js_sub_def)
    show ?case
      using Cons.IH to_double_sign [of "i - j"] by (auto simp: diff)
  qed simp
  then show "first_diff (map jint is) (map jint js) = None \<longleftrightarrow> is = js"
    "first_diff (map jint is) (map jint js) = Some d \<Longrightarrow>
       (num_less (jint 0) d \<longleftrightarrow> map num_key (map jint js) < map num_key (map jint is)) \<and>
       (num_less d (jint 0) \<longleftrightarrow> map num_key (map jint is) < map num_key (map jint js)) \<and> is \<noteq> js"
    by blast+
qed

lemma nil_less: "[] < xs \<longleftrightarrow> xs \<noteq> ([] :: 'a :: linorder list)"
  by (cases xs) auto

definition idents_diff :: "ident list \<Rightarrow> ident list \<Rightarrow> jsnum" where
  "idents_diff xs ys =
     (case first_ident_diff xs ys of Some d \<Rightarrow> d | None \<Rightarrow> jint (int (length xs) - int (length ys)))"

lemma idents_diff_key:
  "list_all whole xs \<Longrightarrow> list_all whole ys \<Longrightarrow>
   (num_less (jint 0) (idents_diff xs ys) \<longleftrightarrow> map ident_key ys < map ident_key xs) \<and>
   (num_less (idents_diff xs ys) (jint 0) \<longleftrightarrow> map ident_key xs < map ident_key ys)"
proof (induction xs ys rule: first_ident_diff.induct)
  case (1 x xs y ys)
  show ?case
  proof (cases "ident_eq x y")
    case True
    then have "idents_diff (x # xs) (y # ys) = idents_diff xs ys" by (simp add: idents_diff_def split: option.split)
    moreover have "ident_key x = ident_key y" using True 1(2,3) by (simp add: ident_eq_key)
    ultimately show ?thesis using 1 True by simp
  next
    case False
    then show ?thesis
      using ident_diff_key [of x y] ident_eq_key [of x y] 1(2,3) by (simp add: idents_diff_def)
  qed
qed (auto simp: idents_diff_def nil_less)

lemma parse_shape:
  assumes "parse s = Some v"
  shows "\<exists>is. pv_numbers v = map jint is \<and> length is = 3" "list_all whole (pv_prerelease v)"
proof -
  let ?parts = "map parseInt10 (split_on CHR ''.'' (takeWhile (\<lambda>c. c \<noteq> CHR ''-'') s))"
  have v: "pv_numbers v = ?parts" "length ?parts = 3" "\<forall>p\<in>set ?parts. safe_int p \<noteq> None"
    and pre: "pv_prerelease v = [] \<or> (\<exists>t. pv_prerelease v = map ident_of t)"
    using assms by (auto simp: parse_def Let_def list_ex_iff split: if_splits)
  have "\<forall>p\<in>set ?parts. \<exists>i. p = jint i" using v(3) safe_int_Some by blast
  then have "\<exists>is. ?parts = map jint is" by (induction ?parts) (auto simp: ex_map_conv)
  with v(1,2) show "\<exists>is. pv_numbers v = map jint is \<and> length is = 3" by (metis length_map)
  show "list_all whole (pv_prerelease v)"
    using pre by (auto simp: list_all_iff whole_ident_of)
qed

lemma compare_key:
  assumes "parse a = Some va" "parse b = Some vb"
  shows "num_less (jint 0) (compareVersions a b) \<longleftrightarrow> version_key vb < version_key va"
    "num_less (compareVersions a b) (jint 0) \<longleftrightarrow> version_key va < version_key vb"
proof -
  obtain "is" js where nums: "pv_numbers va = map jint is" "pv_numbers vb = map jint js"
    and len: "length is = length js"
    using parse_shape(1) [OF assms(1)] parse_shape(1) [OF assms(2)] by auto
  have inj: "map num_key (map jint is) = map num_key (map jint js) \<longleftrightarrow> is = js"
    by (auto simp: inj_def intro!: map_injective)
  note pre = idents_diff_key [OF parse_shape(2) [OF assms(1)] parse_shape(2) [OF assms(2)]]
  have "(num_less (jint 0) (compareVersions a b) \<longleftrightarrow> version_key vb < version_key va) \<and>
    (num_less (compareVersions a b) (jint 0) \<longleftrightarrow> version_key va < version_key vb)"
  proof (cases "first_diff (pv_numbers va) (pv_numbers vb)")
    case (Some d)
    then have "compareVersions a b = d" by (simp add: compareVersions_def assms)
    then show ?thesis
      using first_diff_key(2) [OF len, of d] Some inj
      by (auto simp: version_key_def nums less_prod_def)
  next
    case None
    then have same: "is = js" using first_diff_key(1) [OF len] by (simp add: nums)
    have "compareVersions a b = (if pv_prerelease va = [] \<and> pv_prerelease vb = [] then jint 0
      else if pv_prerelease va = [] then jint 1 else if pv_prerelease vb = [] then jint (- 1)
      else idents_diff (pv_prerelease va) (pv_prerelease vb))"
      using None by (simp add: compareVersions_def assms idents_diff_def Let_def)
    then show ?thesis
      using pre by (auto simp: version_key_def nums same less_prod_def)
  qed
  then show "num_less (jint 0) (compareVersions a b) \<longleftrightarrow> version_key vb < version_key va"
    "num_less (compareVersions a b) (jint 0) \<longleftrightarrow> version_key va < version_key vb" by simp_all
qed

section \<open>The release offered\<close>

definition newer :: "string \<Rightarrow> string \<Rightarrow> bool" where
  "newer a b = num_less (jint 0) (compareVersions a b)"

lemma first_diff_finite:
  "first_diff xs ys = Some d \<Longrightarrow> set xs \<subseteq> range Fin \<Longrightarrow> set ys \<subseteq> range Fin \<Longrightarrow> d \<noteq> NaN"
  by (induction xs ys rule: first_diff.induct) (auto simp: js_sub_def split: if_splits)

lemma first_diff_number: "first_diff (map jint is) (map jint js) = Some d \<Longrightarrow> d \<noteq> NaN"
  by (rule first_diff_finite) auto

lemma first_ident_number:
  "first_ident_diff xs ys = Some d \<Longrightarrow> list_all whole xs \<Longrightarrow> list_all whole ys \<Longrightarrow> d \<noteq> NaN"
proof (induction xs ys rule: first_ident_diff.induct)
  case (1 x xs y ys)
  have "ident_diff x y \<noteq> NaN" if "\<not> ident_eq x y" "whole x" "whole y"
    using that by (cases x; cases y) (auto simp: js_sub_def num_eq_def)
  then show ?case using 1 by (auto split: if_splits)
qed auto

lemma compare_number: "compareVersions a b \<noteq> NaN"
proof (cases "\<exists>va vb. parse a = Some va \<and> parse b = Some vb")
  case False
  then show ?thesis by (auto simp: compareVersions_def split: option.split)
next
  case True
  then obtain va vb where p: "parse a = Some va" "parse b = Some vb" by blast
  obtain "is" js where nums: "pv_numbers va = map jint is" "pv_numbers vb = map jint js"
    using parse_shape(1) [OF p(1)] parse_shape(1) [OF p(2)] by auto
  show ?thesis
    using first_diff_number [of "is" js] first_ident_number [OF _ parse_shape(2) [OF p(1)] parse_shape(2) [OF p(2)]]
    by (auto simp: compareVersions_def p nums Let_def split: option.split)
qed

lemma not_newer: "js_le (compareVersions a b) (jint 0) \<longleftrightarrow> \<not> newer a b"
  using compare_number [of a b] by (auto simp: js_le_cases newer_def)

lemma newer_parses: "newer a b \<Longrightarrow> \<exists>va vb. parse a = Some va \<and> parse b = Some vb"
  by (cases "parse a"; cases "parse b") (auto simp: newer_def compareVersions_def)

lemma newer_key: "newer a b \<longleftrightarrow> (\<exists>va vb. parse a = Some va \<and> parse b = Some vb \<and> version_key vb < version_key va)"
proof
  assume n: "newer a b"
  then obtain va vb where p: "parse a = Some va" "parse b = Some vb" using newer_parses by blast
  then show "\<exists>va vb. parse a = Some va \<and> parse b = Some vb \<and> version_key vb < version_key va"
    using n compare_key(1) [OF p] by (simp add: newer_def)
next
  assume "\<exists>va vb. parse a = Some va \<and> parse b = Some vb \<and> version_key vb < version_key va"
  then show "newer a b" using compare_key(1) by (auto simp: newer_def)
qed

lemma newer_trans: "newer a b \<Longrightarrow> newer b c \<Longrightarrow> newer a c"
  by (auto simp: newer_key intro: less_trans)

lemma newer_weak: "newer a c \<Longrightarrow> \<not> newer a b \<Longrightarrow> parse b \<noteq> None \<Longrightarrow> newer b c"
  by (auto simp: newer_key not_less intro: less_le_trans)

text \<open>The loop keeps a greatest release among those seen, if one is newer than the running version.\<close>

lemma latest_greatest:
  "(case latestNewer rs current of
      None \<Rightarrow> \<forall>r\<in>set rs. \<not> newer (ur_version r) current
    | Some b \<Rightarrow> b \<in> set rs \<and> newer (ur_version b) current \<and> (\<forall>r\<in>set rs. \<not> newer (ur_version r) (ur_version b)))"
proof (induction rs rule: rev_induct)
  case Nil
  show ?case by (simp add: latestNewer_def)
next
  case (snoc x rs)
  have step: "latestNewer (rs @ [x]) current = better_release current (latestNewer rs current) x"
    by (simp add: latestNewer_def)
  have loop: "better_release current best x =
      (if \<not> newer (ur_version x) current then best
       else case best of None \<Rightarrow> Some x | Some b \<Rightarrow> if newer (ur_version x) (ur_version b) then Some x else best)" for best
    unfolding better_release_def not_newer newer_def by (cases best) simp_all
  have irr: "\<not> newer v v" for v by (auto simp: newer_key)
  show ?case
  proof (cases "latestNewer rs current")
    case None
    then have none: "\<forall>r\<in>set rs. \<not> newer (ur_version r) current" using snoc by simp
    have "\<not> newer (ur_version r) (ur_version x)" if "newer (ur_version x) current" "r \<in> set rs" for r
      using newer_trans [OF _ that(1)] none that(2) by blast
    with None none irr show ?thesis by (simp add: step loop)
  next
    case (Some b)
    then have b: "b \<in> set rs" "newer (ur_version b) current" "\<forall>r\<in>set rs. \<not> newer (ur_version r) (ur_version b)"
      using snoc by simp_all
    show ?thesis
    proof (cases "newer (ur_version x) (ur_version b)")
      case True
      then have "newer (ur_version x) current" using b(2) by (rule newer_trans)
      moreover have "\<not> newer (ur_version r) (ur_version x)" if "r \<in> set rs" for r
        using newer_trans [OF _ True] b(3) that by blast
      ultimately show ?thesis using True Some irr by (simp add: step loop)
    next
      case False
      then have "latestNewer (rs @ [x]) current = Some b" using Some by (simp add: step loop)
      then show ?thesis using b False by auto
    qed
  qed
qed

end
