(* ===== verification/ApplierLaws.thy ===== *)
theory ApplierLaws
  imports UpdateApplier UpdateLaws
begin

text \<open>
  Invariants of the update applier over every reachable state: one operation outstanding per run, who
  owns a staged file, and what the log of the port traffic shows before an install.
\<close>

section \<open>Readings of the log\<close>

text \<open>Run \<open>g\<close> downloaded \<open>p\<close>, and nothing was staged to or removed from \<open>p\<close> since.\<close>

fun staged :: "nat \<Rightarrow> string \<Rightarrow> traffic list \<Rightarrow> bool" where
  "staged g p [] = False"
| "staged g p (StartDownload h q u # l) = (q \<noteq> p \<and> staged g p l)"
| "staged g p (Remove q # l) = (q \<noteq> p \<and> staged g p l)"
| "staged g p (Downloaded h q # l) = ((h = g \<and> q = p) \<or> staged g p l)"
| "staged g p (FetchText h u # l) = staged g p l"
| "staged g p (GotSums h b # l) = staged g p l"
| "staged g p (Hashed h q x # l) = staged g p l"
| "staged g p (Install h q a # l) = staged g p l"

text \<open>The checksum file of run \<open>g\<close> gives the artifact name that hash.\<close>

definition sums_say :: "nat \<Rightarrow> string \<Rightarrow> string \<Rightarrow> traffic list \<Rightarrow> bool" where
  "sums_say g name expected l =
     list_ex (\<lambda>t. case t of GotSums h body \<Rightarrow> h = g \<and> map_get (parseSha256Sums body) name = Some expected | _ \<Rightarrow> False) l"

text \<open>The file at \<open>p\<close> was hashed by a run that had downloaded it, its hash is the published one for that
  name, and nothing was staged to or removed from \<open>p\<close> since the download.\<close>

fun vouched :: "string \<Rightarrow> string \<Rightarrow> traffic list \<Rightarrow> bool" where
  "vouched p n [] = False"
| "vouched p n (StartDownload h q u # l) = (q \<noteq> p \<and> vouched p n l)"
| "vouched p n (Remove q # l) = (q \<noteq> p \<and> vouched p n l)"
| "vouched p n (Hashed h q x # l) =
     ((q = p \<and> staged h p l \<and> sums_say h n (toLowerCase x) l) \<or> vouched p n l)"
| "vouched p n (FetchText h u # l) = vouched p n l"
| "vouched p n (GotSums h b # l) = vouched p n l"
| "vouched p n (Downloaded h q # l) = vouched p n l"
| "vouched p n (Install h q a # l) = vouched p n l"

text \<open>Every install was vouched for, and a staged file has been removed or handed to an install.\<close>

fun installs_ok :: "traffic list \<Rightarrow> bool" where
  "installs_ok [] = True"
| "installs_ok (Install g p a # l) = (vouched p (ua_name a) l \<and> installs_ok l)"
| "installs_ok (t # l) = installs_ok l"

fun disposed :: "string \<Rightarrow> traffic list \<Rightarrow> bool" where
  "disposed p [] = True"
| "disposed p (StartDownload g q u # l) = (q \<noteq> p \<and> disposed p l)"
| "disposed p (Remove q # l) = (q = p \<or> disposed p l)"
| "disposed p (Install g q a # l) = (q = p \<or> disposed p l)"
| "disposed p (FetchText h u # l) = disposed p l"
| "disposed p (GotSums h b # l) = disposed p l"
| "disposed p (Downloaded h q # l) = disposed p l"
| "disposed p (Hashed h q x # l) = disposed p l"

lemma sums_say_Cons [simp]:
  "sums_say g n e (t # l) \<longleftrightarrow>
     (case t of GotSums h body \<Rightarrow> h = g \<and> map_get (parseSha256Sums body) n = Some e | _ \<Rightarrow> False) \<or> sums_say g n e l"
  by (simp add: sums_say_def)

section \<open>The invariant\<close>

fun task_path :: "applyTask \<Rightarrow> string option" where
  "task_path (DownloadTask g target p e pb pt) = Some p"
| "task_path (HashTask g target p e) = Some p"
| "task_path (InstallTask g target p) = Some p"
| "task_path _ = None"

fun again :: "applyTask \<Rightarrow> bool" where
  "again (ReinstallTask g v) = True"
| "again _ = False"

text \<open>What a pending operation knows; the current run also owns its path.\<close>

fun task_ok :: "applier \<Rightarrow> applyTask \<Rightarrow> bool" where
  "task_ok s (DownloadTask g target p e pb pt) =
     (sums_say g (ua_name (at_artifact target)) e (ap_log s) \<and>
      (g = ap_generation s \<longrightarrow> map_get (ap_claims s) p = Some g))"
| "task_ok s (HashTask g target p e) =
     (sums_say g (ua_name (at_artifact target)) e (ap_log s) \<and>
      (g = ap_generation s \<longrightarrow> map_get (ap_claims s) p = Some g \<and> staged g p (ap_log s)))"
| "task_ok s (InstallTask g target p) =
     (g = ap_generation s \<longrightarrow> map_get (ap_claims s) p = Some g \<and>
        vouched p (ua_name (at_artifact target)) (ap_log s) \<and> disposed p (ap_log s))"
| "task_ok s _ = True"

definition apply_ok :: "applyTask list \<Rightarrow> applier \<Rightarrow> bool" where
  "apply_ok ts s \<longleftrightarrow>
     distinct (map task_gen ts) \<and>
     (\<forall>t\<in>set ts. task_gen t \<le> ap_generation s \<and> task_ok s t) \<and>
     (ap_running s \<longleftrightarrow> ap_generation s \<in> task_gen ` set ts) \<and>
     (live (ap_state s) \<longrightarrow> ap_running s) \<and>
     (\<forall>c. ap_controller s = Some c \<longrightarrow> c = ap_generation s) \<and>
     (\<forall>a\<in>ap_aborted s. a < ap_generation s) \<and>
     (\<forall>p g. map_get (ap_claims s) p = Some g \<longrightarrow> (\<exists>t\<in>set ts. task_gen t = g \<and> task_path t = Some p)) \<and>
     (\<forall>p. disposed p (ap_log s) \<or> map_get (ap_claims s) p \<noteq> None) \<and>
     installs_ok (ap_log s) \<and>
     (\<forall>p a v. ap_retained s = Some (p, a, v) \<longrightarrow>
        vouched p (ua_name a) (ap_log s) \<and> map_get (ap_claims s) p = None \<and>
        (\<forall>t\<in>set ts. task_gen t = ap_generation s \<longrightarrow> again t))"

lemma apply_okI:
  assumes "distinct (map task_gen ts)"
    "\<And>t. t \<in> set ts \<Longrightarrow> task_gen t \<le> ap_generation s \<and> task_ok s t"
    "ap_running s \<longleftrightarrow> ap_generation s \<in> task_gen ` set ts"
    "live (ap_state s) \<Longrightarrow> ap_running s"
    "\<And>c. ap_controller s = Some c \<Longrightarrow> c = ap_generation s"
    "\<And>a. a \<in> ap_aborted s \<Longrightarrow> a < ap_generation s"
    "\<And>p g. map_get (ap_claims s) p = Some g \<Longrightarrow> \<exists>t\<in>set ts. task_gen t = g \<and> task_path t = Some p"
    "\<And>p. map_get (ap_claims s) p = None \<Longrightarrow> disposed p (ap_log s)"
    "installs_ok (ap_log s)"
    "\<And>p a v. ap_retained s = Some (p, a, v) \<Longrightarrow>
       vouched p (ua_name a) (ap_log s) \<and> map_get (ap_claims s) p = None \<and>
       (\<forall>t\<in>set ts. task_gen t = ap_generation s \<longrightarrow> again t)"
  shows "apply_ok ts s"
  unfolding apply_ok_def using assms by blast

lemma apply_okD:
  assumes "apply_ok ts s"
  shows "distinct (map task_gen ts)"
    "t \<in> set ts \<Longrightarrow> task_gen t \<le> ap_generation s"
    "t \<in> set ts \<Longrightarrow> task_ok s t"
    "ap_running s \<longleftrightarrow> ap_generation s \<in> task_gen ` set ts"
    "live (ap_state s) \<Longrightarrow> ap_running s"
    "ap_controller s = Some c \<Longrightarrow> c = ap_generation s"
    "a \<in> ap_aborted s \<Longrightarrow> a < ap_generation s"
    "map_get (ap_claims s) p = Some g \<Longrightarrow> \<exists>t\<in>set ts. task_gen t = g \<and> task_path t = Some p"
    "map_get (ap_claims s) p = None \<Longrightarrow> disposed p (ap_log s)"
    "installs_ok (ap_log s)"
    "ap_retained s = Some (p, art, v) \<Longrightarrow>
       vouched p (ua_name art) (ap_log s) \<and> map_get (ap_claims s) p = None \<and>
       (\<forall>t\<in>set ts. task_gen t = ap_generation s \<longrightarrow> again t)"
  using assms unfolding apply_ok_def by blast+

lemma apply_ok_perm: "apply_ok ts s \<Longrightarrow> mset us = mset ts \<Longrightarrow> apply_ok us s"
proof -
  assume ok: "apply_ok ts s" and eq: "mset us = mset ts"
  have sets: "set us = set ts" using eq by (metis set_mset_mset)
  have "mset (map task_gen us) = mset (map task_gen ts)" using eq by simp
  then have gens: "distinct (map task_gen us) = distinct (map task_gen ts)" by (rule mset_eq_imp_distinct_iff)
  show ?thesis using ok unfolding apply_ok_def sets gens .
qed

section \<open>Steps of a run\<close>

lemma gens_unique:
  assumes "apply_ok ts s" "t \<in> set ts" "u \<in> set ts" "task_gen t = task_gen u"
  shows "t = u"
  using apply_okD(1) [OF assms(1)] assms(2-4) by (auto simp: distinct_map inj_on_def)

lemma rest_gone: "apply_ok (t # rest) s \<Longrightarrow> task_gen t \<notin> task_gen ` set rest"
  by (drule apply_okD(1)) simp

lemma rest_gens: "apply_ok (t # rest) s \<Longrightarrow> u \<in> set rest \<Longrightarrow> task_gen u \<noteq> task_gen t"
  using rest_gone by (metis imageI)

lemma task_ok_cong:
  "ap_generation s' = ap_generation s \<Longrightarrow> ap_claims s' = ap_claims s \<Longrightarrow> ap_log s' = ap_log s \<Longrightarrow>
   task_ok s' t = task_ok s t"
  by (cases t) simp_all

text \<open>The current run publishes.\<close>

lemma apply_ok_state:
  assumes "apply_ok ts s" "live st \<Longrightarrow> ap_running s"
  shows "apply_ok ts (s\<lparr>ap_state := st\<rparr>)"
  by (rule apply_okI)
    (use apply_okD [OF assms(1)] assms(2) task_ok_cong [of "s\<lparr>ap_state := st\<rparr>" s] in simp_all)

lemma publish_ok:
  assumes "apply_ok (t # rest) s"
  shows "apply_ok (t # rest) (publishIfCurrent (task_gen t) st s)"
  using assms apply_ok_state [OF assms, of st] apply_okD(4) [OF assms] by (simp add: publishIfCurrent_def)

text \<open>Traffic that stages, removes and installs nothing.\<close>

fun quiet_event :: "traffic \<Rightarrow> bool" where
  "quiet_event (FetchText g u) = True"
| "quiet_event (GotSums g b) = True"
| "quiet_event (Downloaded g p) = True"
| "quiet_event (Hashed g p x) = True"
| "quiet_event _ = False"

lemma quiet_readings:
  assumes "quiet_event ev"
  shows "staged g p l \<Longrightarrow> staged g p (ev # l)" "vouched p n l \<Longrightarrow> vouched p n (ev # l)"
    "disposed p (ev # l) = disposed p l" "installs_ok (ev # l) = installs_ok l"
  using assms by (cases ev; simp)+

lemma task_ok_quiet:
  assumes "quiet_event ev" "task_ok s t"
  shows "task_ok (s\<lparr>ap_log := ev # ap_log s\<rparr>) t"
  using assms quiet_readings [OF assms(1)] by (cases t) (auto simp del: staged.simps vouched.simps)

lemma log_ok:
  assumes "apply_ok ts s" "quiet_event ev"
  shows "apply_ok ts (s\<lparr>ap_log := ev # ap_log s\<rparr>)"
proof (rule apply_okI)
  fix t assume "t \<in> set ts"
  then show "task_gen t \<le> ap_generation (s\<lparr>ap_log := ev # ap_log s\<rparr>) \<and> task_ok (s\<lparr>ap_log := ev # ap_log s\<rparr>) t"
    using apply_okD(2,3) [OF assms(1)] task_ok_quiet [OF assms(2)] by simp
next
  fix p a v assume "ap_retained (s\<lparr>ap_log := ev # ap_log s\<rparr>) = Some (p, a, v)"
  then show "vouched p (ua_name a) (ap_log (s\<lparr>ap_log := ev # ap_log s\<rparr>)) \<and>
      map_get (ap_claims (s\<lparr>ap_log := ev # ap_log s\<rparr>)) p = None \<and>
      (\<forall>t\<in>set ts. task_gen t = ap_generation (s\<lparr>ap_log := ev # ap_log s\<rparr>) \<longrightarrow> again t)"
    using apply_okD(11) [OF assms(1)] quiet_readings(2) [OF assms(2)] by simp
qed (use apply_okD [OF assms(1)] quiet_readings [OF assms(2)] in simp_all)

text \<open>The next operation of a run.\<close>

lemma step_ok:
  assumes "apply_ok (t # rest) s" "task_gen u = task_gen t" "task_path u = task_path t" "task_ok s u"
    "again t \<Longrightarrow> again u"
  shows "apply_ok (u # rest) s"
proof (rule apply_okI)
  show "\<exists>w\<in>set (u # rest). task_gen w = g \<and> task_path w = Some p" if "map_get (ap_claims s) p = Some g" for p g
    using apply_okD(8) [OF assms(1) that] assms(2,3) by auto
  show "vouched p (ua_name a) (ap_log s) \<and> map_get (ap_claims s) p = None \<and>
      (\<forall>w\<in>set (u # rest). task_gen w = ap_generation s \<longrightarrow> again w)" if "ap_retained s = Some (p, a, v)" for p a v
    using apply_okD(11) [OF assms(1) that] assms(2,5) by auto
qed (use apply_okD [OF assms(1)] assms(2,4) in auto)

text \<open>A run gives its file up, and ends.\<close>

lemma forget_path_ok:
  assumes "apply_ok (t # rest) s" "\<And>p. map_get (ap_claims s) p \<noteq> Some (task_gen t)"
  shows "apply_ok (ReinstallTask (task_gen t) [] # rest) s"
proof (rule apply_okI)
  show "\<exists>w\<in>set (ReinstallTask (task_gen t) [] # rest). task_gen w = g \<and> task_path w = Some p"
    if "map_get (ap_claims s) p = Some g" for p g
    using apply_okD(8) [OF assms(1) that] assms(2) that by auto
  show "vouched p (ua_name a) (ap_log s) \<and> map_get (ap_claims s) p = None \<and>
      (\<forall>w\<in>set (ReinstallTask (task_gen t) [] # rest). task_gen w = ap_generation s \<longrightarrow> again w)"
    if "ap_retained s = Some (p, a, v)" for p a v
    using apply_okD(11) [OF assms(1) that] by auto
qed (use apply_okD [OF assms(1)] in auto)

lemma claim_of_run:
  assumes "apply_ok (t # rest) s" "map_get (ap_claims s) p = Some (task_gen t)"
  shows "task_path t = Some p"
proof -
  obtain u where "u \<in> set (t # rest)" "task_gen u = task_gen t" "task_path u = Some p"
    using apply_okD(8) [OF assms] by blast
  then show ?thesis using rest_gens [OF assms(1)] by auto
qed

lemma task_ok_remove:
  assumes "task_ok s u" "map_get (ap_claims s) p \<noteq> Some (task_gen u)"
    "ap_claims s' = AList.delete p (ap_claims s)" "ap_log s' = Remove p # ap_log s" "ap_generation s' = ap_generation s"
  shows "task_ok s' u"
  using assms by (cases u) auto

lemma drop_ok:
  assumes "apply_ok (t # rest) s"
  shows "apply_ok (ReinstallTask (task_gen t) [] # rest) (dropOwned (task_gen t) (task_path t) s)"
proof (cases "\<exists>p. task_path t = Some p \<and> map_get (ap_claims s) p = Some (task_gen t)")
  case False
  then have "dropOwned (task_gen t) (task_path t) s = s" by (auto simp: dropOwned_def split: option.split)
  moreover have "map_get (ap_claims s) p \<noteq> Some (task_gen t)" for p using claim_of_run [OF assms] False by blast
  ultimately show ?thesis using forget_path_ok [OF assms] by simp
next
  case True
  then obtain p where p: "task_path t = Some p" "map_get (ap_claims s) p = Some (task_gen t)" by blast
  define s' where "s' = s\<lparr>ap_claims := AList.delete p (ap_claims s), ap_log := Remove p # ap_log s\<rparr>"
  have drop: "dropOwned (task_gen t) (task_path t) s = s'" using p by (simp add: dropOwned_def s'_def)
  have state: "ap_claims s' = AList.delete p (ap_claims s)" "ap_log s' = Remove p # ap_log s"
    "ap_generation s' = ap_generation s" "ap_running s' = ap_running s" "ap_state s' = ap_state s"
    "ap_controller s' = ap_controller s" "ap_aborted s' = ap_aborted s" "ap_retained s' = ap_retained s"
    by (simp_all add: s'_def)
  have "apply_ok (ReinstallTask (task_gen t) [] # rest) s'"
  proof (rule apply_okI)
    fix u assume u: "u \<in> set (ReinstallTask (task_gen t) [] # rest)"
    have "task_ok s' u" if "u \<in> set rest"
      using task_ok_remove [OF _ _ state(1-3), of u] apply_okD(3) [OF assms, of u] rest_gens [OF assms that] p that by auto
    then show "task_gen u \<le> ap_generation s' \<and> task_ok s' u"
      using u apply_okD(2) [OF assms] by (auto simp: state)
  next
    fix q g assume q: "map_get (ap_claims s') q = Some g"
    then have "q \<noteq> p" "map_get (ap_claims s) q = Some g" by (auto simp: state split: if_splits)
    then obtain u where "u \<in> set (t # rest)" "task_gen u = g" "task_path u = Some q"
      using apply_okD(8) [OF assms] by blast
    then show "\<exists>u\<in>set (ReinstallTask (task_gen t) [] # rest). task_gen u = g \<and> task_path u = Some q"
      using \<open>q \<noteq> p\<close> p(1) by auto
  next
    fix q a v assume "ap_retained s' = Some (q, a, v)"
    then have q: "vouched q (ua_name a) (ap_log s)" "map_get (ap_claims s) q = None"
      "\<forall>u\<in>set (t # rest). task_gen u = ap_generation s \<longrightarrow> again u"
      using apply_okD(11) [OF assms] by (auto simp: state)
    then have "q \<noteq> p" using p by auto
    then show "vouched q (ua_name a) (ap_log s') \<and> map_get (ap_claims s') q = None \<and>
        (\<forall>u\<in>set (ReinstallTask (task_gen t) [] # rest). task_gen u = ap_generation s' \<longrightarrow> again u)"
      using q by (auto simp: state)
  next
    fix q assume "map_get (ap_claims s') q = None"
    then show "disposed q (ap_log s')" using apply_okD(9) [OF assms, of q] by (auto simp: state split: if_splits)
  qed (use apply_okD(1,4-7,10) [OF assms] in \<open>auto simp: state\<close>)
  then show ?thesis by (simp add: drop)
qed

lemma end_ok:
  assumes "apply_ok (t # rest) s" "again t" "task_gen t = ap_generation s \<Longrightarrow> \<not> live (ap_state s)"
  shows "apply_ok rest (end_run (task_gen t) s)"
proof -
  let ?s = "end_run (task_gen t) s"
  have state: "ap_claims ?s = ap_claims s" "ap_log ?s = ap_log s" "ap_generation ?s = ap_generation s"
    "ap_aborted ?s = ap_aborted s" "ap_retained ?s = ap_retained s" "ap_state ?s = ap_state s"
    "ap_running ?s = (if task_gen t = ap_generation s then False else ap_running s)"
    "ap_controller ?s = (if task_gen t = ap_generation s then None else ap_controller s)"
    by (simp_all add: end_run_def)
  have path: "task_path t = None" using assms(2) by (cases t) auto
  show ?thesis
  proof (rule apply_okI)
    show "task_gen u \<le> ap_generation ?s \<and> task_ok ?s u" if "u \<in> set rest" for u
      using apply_okD(2,3) [OF assms(1), of u] that task_ok_cong [of ?s s u] by (simp add: state)
    show "ap_running ?s \<longleftrightarrow> ap_generation ?s \<in> task_gen ` set rest"
      using apply_okD(4) [OF assms(1)] rest_gone [OF assms(1)] by (auto simp: state)
    show "\<exists>u\<in>set rest. task_gen u = g \<and> task_path u = Some p" if "map_get (ap_claims ?s) p = Some g" for p g
      using apply_okD(8) [OF assms(1), of p g] that path by (auto simp: state)
    show "vouched p (ua_name a) (ap_log ?s) \<and> map_get (ap_claims ?s) p = None \<and>
        (\<forall>u\<in>set rest. task_gen u = ap_generation ?s \<longrightarrow> again u)" if "ap_retained ?s = Some (p, a, v)" for p a v
      using apply_okD(11) [OF assms(1), of p a v] that by (simp add: state)
  qed (use apply_okD(1,5-7,9,10) [OF assms(1)] assms(3) in \<open>auto simp: state split: if_splits\<close>)
qed

section \<open>Ends of a run\<close>

lemma stale_iff: "apply_ok ts s \<Longrightarrow> stale g s \<longleftrightarrow> g \<noteq> ap_generation s"
  using apply_okD(7) [of ts s g] by (auto simp: stale_def)

lemma dropOwned_frame [simp]:
  "ap_generation (dropOwned g path s) = ap_generation s" "ap_tasks (dropOwned g path s) = ap_tasks s"
  by (simp_all add: dropOwned_def split: option.split)

lemma publish_frame [simp]:
  "ap_generation (publishIfCurrent g st s) = ap_generation s" "ap_tasks (publishIfCurrent g st s) = ap_tasks s"
  "ap_claims (publishIfCurrent g st s) = ap_claims s" "ap_log (publishIfCurrent g st s) = ap_log s"
  "ap_retained (publishIfCurrent g st s) = ap_retained s"
  by (simp_all add: publishIfCurrent_def)

lemma end_frame [simp]: "ap_tasks (end_run g s) = ap_tasks s"
  by (simp add: end_run_def)

lemma drop_run_ok:
  assumes "apply_ok (t # rest) s" "stale (task_gen t) s"
  shows "apply_ok rest (drop_run (task_gen t) (task_path t) s)"
  unfolding drop_run_def
  using end_ok [OF drop_ok [OF assms(1)]] assms(2) stale_iff [OF assms(1)] by simp

lemma end_published_ok:
  assumes "apply_ok (t # rest) s" "again t" "\<not> live st"
  shows "apply_ok rest (end_run (task_gen t) (publishIfCurrent (task_gen t) st s))"
  by (rule end_ok [OF publish_ok [OF assms(1)] assms(2)]) (use assms(3) in \<open>simp add: publishIfCurrent_def split: if_splits\<close>)

lemma drop_published_ok:
  assumes "apply_ok (t # rest) s" "\<not> live st"
  shows "apply_ok rest (end_run (task_gen t) (publishIfCurrent (task_gen t) st (dropOwned (task_gen t) (task_path t) s)))"
  using end_published_ok [OF drop_ok [OF assms(1)] _ assms(2)] by simp

text \<open>The install leg keeps the file: the claim goes, the stage is retained or consumed.\<close>

lemma task_ok_past:
  "task_ok s u \<Longrightarrow> task_gen u \<noteq> ap_generation s \<Longrightarrow> ap_log s' = ap_log s \<Longrightarrow> ap_generation s' = ap_generation s \<Longrightarrow>
   task_ok s' u"
  by (cases u) simp_all

lemma hand_over_ok:
  assumes "apply_ok (InstallTask g target p # rest) s" "g = ap_generation s"
    "R = Some (p, at_artifact target, v) \<or> R = ap_retained s"
  shows "apply_ok (ReinstallTask g [] # rest) (s\<lparr>ap_claims := AList.delete p (ap_claims s), ap_retained := R\<rparr>)"
proof -
  let ?t = "InstallTask g target p" and ?s = "s\<lparr>ap_claims := AList.delete p (ap_claims s), ap_retained := R\<rparr>"
  have t: "map_get (ap_claims s) p = Some g" "vouched p (ua_name (at_artifact target)) (ap_log s)" "disposed p (ap_log s)"
    using apply_okD(3) [OF assms(1), of ?t] assms(2) by simp_all
  have none: "ap_retained s = None"
    using apply_okD(11) [OF assms(1)] assms(2) by (cases "ap_retained s") fastforce+
  note other = rest_gens [OF assms(1)]
  have kept: "task_ok ?s u" if "u \<in> set rest" for u
    by (rule task_ok_past [of s]) (use that apply_okD(3) [OF assms(1), of u] other [OF that] assms(2) in auto)
  show ?thesis
  proof (rule apply_okI)
    show "task_gen u \<le> ap_generation ?s \<and> task_ok ?s u" if "u \<in> set (ReinstallTask g [] # rest)" for u
      using that kept apply_okD(2) [OF assms(1)] assms(2) by auto
    show "\<exists>u\<in>set (ReinstallTask g [] # rest). task_gen u = h \<and> task_path u = Some q"
      if "map_get (ap_claims ?s) q = Some h" for q h
      using apply_okD(8) [OF assms(1), of q h] that by (auto split: if_splits)
    show "vouched q (ua_name a) (ap_log ?s) \<and> map_get (ap_claims ?s) q = None \<and>
        (\<forall>u\<in>set (ReinstallTask g [] # rest). task_gen u = ap_generation ?s \<longrightarrow> again u)"
      if "ap_retained ?s = Some (q, a, w)" for q a w
      using that assms(3) none t other assms(2) by auto
    show "disposed q (ap_log ?s)" if "map_get (ap_claims ?s) q = None" for q
      using that t(3) apply_okD(9) [OF assms(1), of q] by (auto split: if_splits)
  qed (use apply_okD(1,4-7,10) [OF assms(1)] in auto)
qed

lemma fail_run_form:
  "fail_run g target path launched e s =
     (if \<exists>p. path = Some p \<and> g = ap_generation s \<and> launched \<and> isPermissionDenied e
      then end_run g (publishIfCurrent g (ApNeedsPermission (at_version target))
             (s\<lparr>ap_claims := AList.delete (the path) (ap_claims s),
                ap_retained := Some (the path, at_artifact target, at_version target)\<rparr>))
      else end_run g (publishIfCurrent g
             (if isAbort e then ApIdle else ApFailed (at_version target) (applyError e)) (dropOwned g path s)))"
  by (auto simp: fail_run_def dropOwned_def publishIfCurrent_def split: option.split)

lemma fail_ok:
  assumes "apply_ok (t # rest) s" "launched \<Longrightarrow> \<exists>p. t = InstallTask (task_gen t) target p"
  shows "apply_ok rest (fail_run (task_gen t) target (task_path t) launched e s)"
proof (cases "\<exists>p. task_path t = Some p \<and> task_gen t = ap_generation s \<and> launched \<and> isPermissionDenied e")
  case True
  then obtain p where t: "t = InstallTask (task_gen t) target p" and g: "task_gen t = ap_generation s"
    using assms(2) by blast
  then have path: "task_path t = Some p" by (metis task_path.simps(3))
  have "apply_ok (InstallTask (task_gen t) target p # rest) s" using assms(1) t by metis
  from end_published_ok [OF hand_over_ok [OF this g disjI1 [OF refl], of "at_version target"],
      of "ApNeedsPermission (at_version target)"]
  show ?thesis using True path by (simp add: fail_run_form)
next
  case False
  then show ?thesis
    unfolding fail_run_form if_not_P [OF False]
    using drop_published_ok [OF assms(1), of "if isAbort e then ApIdle else ApFailed (at_version target) (applyError e)"]
    by simp
qed

lemma fail_run_tasks [simp]: "ap_tasks (fail_run g target path launched e s) = ap_tasks s"
  by (simp add: fail_run_form)

section \<open>Answers and calls\<close>

lemma apply_ok_tasks [simp]: "apply_ok ts (s\<lparr>ap_tasks := us\<rparr>) \<longleftrightarrow> apply_ok ts s"
  using task_ok_cong [of "s\<lparr>ap_tasks := us\<rparr>" s] by (simp add: apply_ok_def)

lemma apply_ok_tasks_log [simp]:
  "apply_ok ts (s\<lparr>ap_claims := c, ap_tasks := us, ap_log := l\<rparr>) \<longleftrightarrow> apply_ok ts (s\<lparr>ap_claims := c, ap_log := l\<rparr>)"
  "apply_ok ts (s\<lparr>ap_tasks := us, ap_log := l\<rparr>) \<longleftrightarrow> apply_ok ts (s\<lparr>ap_log := l\<rparr>)"
proof -
  have "s\<lparr>ap_claims := c, ap_tasks := us, ap_log := l\<rparr> = s\<lparr>ap_claims := c, ap_log := l\<rparr>\<lparr>ap_tasks := us\<rparr>"
    "s\<lparr>ap_tasks := us, ap_log := l\<rparr> = s\<lparr>ap_log := l\<rparr>\<lparr>ap_tasks := us\<rparr>" by simp_all
  then show "apply_ok ts (s\<lparr>ap_claims := c, ap_tasks := us, ap_log := l\<rparr>) \<longleftrightarrow> apply_ok ts (s\<lparr>ap_claims := c, ap_log := l\<rparr>)"
    "apply_ok ts (s\<lparr>ap_tasks := us, ap_log := l\<rparr>) \<longleftrightarrow> apply_ok ts (s\<lparr>ap_log := l\<rparr>)"
    using apply_ok_tasks by metis+
qed

text \<open>An operation of an older run only keeps what its checksum file said.\<close>

lemma task_ok_older:
  "task_ok s u \<Longrightarrow> task_gen u \<noteq> ap_generation s' \<Longrightarrow>
   (\<And>g n e. sums_say g n e (ap_log s) \<Longrightarrow> sums_say g n e (ap_log s')) \<Longrightarrow> task_ok s' u"
  by (cases u) simp_all

lemma stage_ok:
  assumes "apply_ok (SumsTask g target # rest) s" "g = ap_generation s"
    "sums_say g (ua_name (at_artifact target)) e (ap_log s)"
  shows "apply_ok (DownloadTask g target p e 0 None # rest)
    (s\<lparr>ap_claims := AList.update p g (ap_claims s), ap_log := StartDownload g p u # ap_log s\<rparr>)"
proof -
  let ?s = "s\<lparr>ap_claims := AList.update p g (ap_claims s), ap_log := StartDownload g p u # ap_log s\<rparr>"
  have none: "ap_retained s = None"
    using apply_okD(11) [OF assms(1)] assms(2) by (cases "ap_retained s") fastforce+
  have kept: "task_ok ?s w" if "w \<in> set rest" for w
    by (rule task_ok_older [of s])
      (use that apply_okD(3) [OF assms(1), of w] rest_gens [OF assms(1) that] assms(2) in auto)
  show ?thesis
  proof (rule apply_okI)
    show "task_gen w \<le> ap_generation ?s \<and> task_ok ?s w" if "w \<in> set (DownloadTask g target p e 0 None # rest)" for w
      using that kept apply_okD(2) [OF assms(1)] assms(2,3) by auto
    show "\<exists>w\<in>set (DownloadTask g target p e 0 None # rest). task_gen w = h \<and> task_path w = Some q"
      if "map_get (ap_claims ?s) q = Some h" for q h
      using apply_okD(8) [OF assms(1), of q h] that by (auto split: if_splits)
    show "disposed q (ap_log ?s)" if "map_get (ap_claims ?s) q = None" for q
      using that apply_okD(9) [OF assms(1), of q] by (auto split: if_splits)
  qed (use apply_okD(1,4-7,10) [OF assms(1)] none in auto)
qed

lemma sums_answer_ok:
  assumes "apply_ok (SumsTask g target # ap_tasks s) s"
  shows "apply_ok (ap_tasks (sums_answer stagePath g target r s)) (sums_answer stagePath g target r s)"
proof (cases r)
  case (Inl e)
  then show ?thesis using fail_ok [OF assms, of False target e] by (simp add: sums_answer_def)
next
  case (Inr body)
  define s' where "s' = s\<lparr>ap_log := GotSums g body # ap_log s\<rparr>"
  have ok: "apply_ok (SumsTask g target # ap_tasks s) s'"
    using log_ok [OF assms, of "GotSums g body"] by (simp add: s'_def)
  have tasks: "ap_tasks s' = ap_tasks s" by (simp add: s'_def)
  note fails = fail_ok [OF ok, of False target, simplified]
  show ?thesis
  proof (cases "stale g s'")
    case True
    then show ?thesis
      using end_ok [OF step_ok [OF ok, of "ReinstallTask g []"]] stale_iff [OF ok] Inr tasks
      by (simp add: sums_answer_def s'_def [symmetric])
  next
    case False
    then have g: "g = ap_generation s'" using stale_iff [OF ok] by simp
    show ?thesis
    proof (cases "\<exists>e p. map_get (parseSha256Sums body) (ua_name (at_artifact target)) = Some e \<and> stagePath (at_artifact target) = Inr p")
      case stage: True
      then obtain e p where e: "map_get (parseSha256Sums body) (ua_name (at_artifact target)) = Some e"
        "stagePath (at_artifact target) = Inr p" by blast
      let ?st = "ApDownloading (at_version target) 0 None"
      have pub: "apply_ok (SumsTask g target # ap_tasks s) (publishIfCurrent g ?st s')"
        using publish_ok [OF ok, of ?st] by simp
      have "sums_say g (ua_name (at_artifact target)) e (ap_log (publishIfCurrent g ?st s'))"
        using e by (simp add: s'_def)
      from stage_ok [OF pub _ this, of p "ua_url (at_artifact target)"] g
      have "apply_ok (DownloadTask g target p e 0 None # ap_tasks s) (publishIfCurrent g ?st s'
          \<lparr>ap_claims := AList.update p g (ap_claims s'), ap_log := StartDownload g p (ua_url (at_artifact target)) # ap_log s'\<rparr>)"
        by simp
      then show ?thesis using False Inr e tasks by (simp add: sums_answer_def s'_def [symmetric] Let_def)
    next
      case no: False
      then show ?thesis
        using fails False Inr tasks
        by (auto simp: sums_answer_def s'_def [symmetric] Let_def split: option.split sum.split)
    qed
  qed
qed

lemma progress_ok:
  assumes "apply_ok (DownloadTask g target p e pb pt # ap_tasks s) s"
  shows "apply_ok (ap_tasks (publishProgress g target p e pb pt received totalBytes s))
    (publishProgress g target p e pb pt received totalBytes s)"
proof -
  have "apply_ok (DownloadTask g target p e b x # ap_tasks s) s" for b x
    using apply_okD(3) [OF assms, of "DownloadTask g target p e pb pt"] by (intro step_ok [OF assms]) simp_all
  from this [of pb pt] publish_ok [OF this [of received totalBytes]] show ?thesis
    by (simp add: publishProgress_def)
qed

lemma download_answer_ok:
  assumes "apply_ok (DownloadTask g target p e pb pt # ap_tasks s) s"
  shows "apply_ok (ap_tasks (download_answer g target p e r s)) (download_answer g target p e r s)"
proof (cases r)
  case (Inl x)
  then show ?thesis using fail_ok [OF assms, of False target x] by (simp add: download_answer_def)
next
  case (Inr u)
  define s' where "s' = s\<lparr>ap_log := Downloaded g p # ap_log s\<rparr>"
  have ok: "apply_ok (DownloadTask g target p e pb pt # ap_tasks s) s'"
    using log_ok [OF assms, of "Downloaded g p"] by (simp add: s'_def)
  have tasks: "ap_tasks s' = ap_tasks s" by (simp add: s'_def)
  have "task_ok s' (HashTask g target p e)"
    using apply_okD(3) [OF ok, of "DownloadTask g target p e pb pt"] by (simp add: s'_def)
  then have "apply_ok (HashTask g target p e # ap_tasks s) s'" by (intro step_ok [OF ok]) simp_all
  from publish_ok [OF this] show ?thesis
    using drop_run_ok [OF ok] Inr tasks by (simp add: download_answer_def s'_def [symmetric] drop_run_def)
qed

lemma launch_ok:
  assumes "apply_ok (HashTask g target p e # rest) s" "g = ap_generation s"
    "vouched p (ua_name (at_artifact target)) (ap_log s)"
  shows "apply_ok (InstallTask g target p # rest) (s\<lparr>ap_log := Install g p (at_artifact target) # ap_log s\<rparr>)"
proof -
  let ?s = "s\<lparr>ap_log := Install g p (at_artifact target) # ap_log s\<rparr>"
  have none: "ap_retained s = None"
    using apply_okD(11) [OF assms(1)] assms(2) by (cases "ap_retained s") fastforce+
  have claim: "map_get (ap_claims s) p = Some g"
    using apply_okD(3) [OF assms(1), of "HashTask g target p e"] assms(2) by simp
  have kept: "task_ok ?s w" if "w \<in> set rest" for w
    by (rule task_ok_older [of s])
      (use that apply_okD(3) [OF assms(1), of w] rest_gens [OF assms(1) that] assms(2) in auto)
  show ?thesis
  proof (rule apply_okI)
    show "task_gen w \<le> ap_generation ?s \<and> task_ok ?s w" if "w \<in> set (InstallTask g target p # rest)" for w
      using that kept apply_okD(2) [OF assms(1)] assms(2,3) claim by auto
    show "\<exists>w\<in>set (InstallTask g target p # rest). task_gen w = h \<and> task_path w = Some q"
      if "map_get (ap_claims ?s) q = Some h" for q h
      using apply_okD(8) [OF assms(1), of q h] that by auto
  qed (use apply_okD(1,4-7,9,10) [OF assms(1)] assms(3) none in auto)
qed

lemma hash_answer_ok:
  assumes "apply_ok (HashTask g target p e # ap_tasks s) s"
  shows "apply_ok (ap_tasks (hash_answer g target p e r s)) (hash_answer g target p e r s)"
proof (cases r)
  case (Inl x)
  then show ?thesis using fail_ok [OF assms, of False target x] by (simp add: hash_answer_def)
next
  case (Inr x)
  define s' where "s' = s\<lparr>ap_log := Hashed g p x # ap_log s\<rparr>"
  have ok: "apply_ok (HashTask g target p e # ap_tasks s) s'"
    using log_ok [OF assms, of "Hashed g p x"] by (simp add: s'_def)
  have tasks: "ap_tasks s' = ap_tasks s" by (simp add: s'_def)
  have launch: "apply_ok (InstallTask g target p # ap_tasks s) (publishIfCurrent g (ApApplying (at_version target)) s'
      \<lparr>ap_log := Install g p (at_artifact target) # ap_log s'\<rparr>)" if "\<not> stale g s'" "toLowerCase x = e"
  proof -
    have g: "ap_generation s' = g" using that stale_iff [OF ok] by simp
    have gen: "ap_generation s' = ap_generation s" and log: "ap_log s' = Hashed g p x # ap_log s" by (simp_all add: s'_def)
    have "staged g p (ap_log s)" "sums_say g (ua_name (at_artifact target)) e (ap_log s)"
      using apply_okD(3) [OF assms, of "HashTask g target p e"] g gen by simp_all
    then have v: "vouched p (ua_name (at_artifact target)) (ap_log s')" using that(2) by (simp add: log)
    show ?thesis
      using launch_ok [OF publish_ok [OF ok, of "ApApplying (at_version target)", simplified]] g v by simp
  qed
  show ?thesis
    using launch drop_run_ok [OF ok] fail_ok [OF ok, of False target] Inr tasks
    by (simp add: hash_answer_def s'_def [symmetric] drop_run_def)
qed

lemma install_answer_ok:
  assumes "apply_ok (InstallTask g target p # ap_tasks s) s"
  shows "apply_ok (ap_tasks (install_answer g target p r s)) (install_answer g target p r s)"
proof (cases r)
  case (Inl x)
  then show ?thesis using fail_ok [OF assms, of True target x] by (simp add: install_answer_def)
next
  case (Inr out)
  show ?thesis
  proof (cases "stale g s")
    case True
    then show ?thesis using drop_run_ok [OF assms] Inr by (simp add: install_answer_def drop_run_def)
  next
    case False
    define R where "R = (if out = Installed then Some (p, at_artifact target, at_version target) else ap_retained s)"
    have "g = ap_generation s" "R = Some (p, at_artifact target, at_version target) \<or> R = ap_retained s"
      using False stale_iff [OF assms] by (simp_all add: R_def)
    from end_published_ok [OF hand_over_ok [OF assms this], of "outcome_status out (at_version target)"]
    show ?thesis using False Inr by (simp add: install_answer_def R_def [symmetric] outcome_status_def)
  qed
qed

lemma apply_ok_forget:
  assumes "apply_ok ts s"
  shows "apply_ok ts (s\<lparr>ap_retained := None\<rparr>)"
  by (rule apply_okI)
    (use apply_okD [OF assms] task_ok_cong [of "s\<lparr>ap_retained := None\<rparr>" s] in simp_all)

lemma reinstall_answer_ok:
  assumes "apply_ok (ReinstallTask g v # ap_tasks s) s"
  shows "apply_ok (ap_tasks (reinstall_answer g v r s)) (reinstall_answer g v r s)"
proof (cases "g = ap_generation s")
  case False
  then have "reinstall_answer g v r s = end_run g s"
    by (simp add: reinstall_answer_def stale_def split: sum.split)
  then show ?thesis using end_ok [OF assms] False by simp
next
  case True
  then have fresh: "\<not> stale g s" using stale_iff [OF assms] by simp
  obtain st s1 where s1: "reinstall_answer g v r s = end_run g (publishIfCurrent g st s1)" "\<not> live st"
    "s1 = s \<or> s1 = s\<lparr>ap_retained := None\<rparr>"
  proof (cases r)
    case (Inl e)
    show ?thesis
    proof (cases "isPermissionDenied e")
      case perm: True
      then show ?thesis
        using that [of "ApNeedsPermission v" s] True Inl by (simp add: reinstall_answer_def publishIfCurrent_def)
    next
      case no: False
      then show ?thesis
        using that [of "if isAbort e then ApIdle else ApFailed v (applyError e)" "s\<lparr>ap_retained := None\<rparr>"] True Inl
        by (simp add: reinstall_answer_def publishIfCurrent_def)
    qed
  next
    case (Inr out)
    then show ?thesis
      using that [of "outcome_status out v" s] fresh by (simp add: reinstall_answer_def outcome_status_def)
  qed
  have "apply_ok (ReinstallTask g v # ap_tasks s) s1" using s1(3) assms apply_ok_forget [OF assms] by auto
  from end_published_ok [OF this _ s1(2)] s1(1,3) show ?thesis by auto
qed

text \<open>The calls start a new generation.\<close>

lemma gens_older:
  assumes "apply_ok ts s" "u \<in> set ts"
  shows "task_gen u \<noteq> ap_generation s + 1"
  using apply_okD(2) [OF assms] by simp

lemma gens_fresh:
  assumes "apply_ok ts s"
  shows "Suc (ap_generation s) \<notin> task_gen ` set ts"
  using gens_older [OF assms] by (metis Suc_eq_plus1 imageE)

lemma begin_ok:
  assumes "apply_ok (ap_tasks s) s"
  shows "apply_ok (ap_tasks (begin_apply target s)) (begin_apply target s)"
proof (cases "ap_running s \<or> live (ap_state s) \<or> settled_version (ap_state s) = Some (at_version target)")
  case True
  then show ?thesis using assms by (simp add: begin_apply_def)
next
  case False
  let ?g = "ap_generation s + 1" and ?log = "case ap_retained s of
      Some (p, a, v) \<Rightarrow> if v \<noteq> at_version target then Remove p # ap_log s else ap_log s | None \<Rightarrow> ap_log s"
  define s1 where "s1 = s\<lparr>ap_running := True, ap_generation := ?g, ap_controller := Some ?g, ap_retained := None, ap_log := ?log\<rparr>"
  have state: "ap_running s1 = True" "ap_generation s1 = ?g" "ap_controller s1 = Some ?g" "ap_retained s1 = None"
    "ap_claims s1 = ap_claims s" "ap_aborted s1 = ap_aborted s" "ap_state s1 = ap_state s" "ap_tasks s1 = ap_tasks s"
    "ap_log s1 = ?log"
    by (simp_all add: s1_def)
  have log: "sums_say h n e (ap_log s) \<Longrightarrow> sums_say h n e ?log" "disposed q (ap_log s) \<Longrightarrow> disposed q ?log"
    "installs_ok ?log = installs_ok (ap_log s)" for h n e q
    by (simp_all split: option.split)
  have kept: "task_ok s1 u" if "u \<in> set (ap_tasks s)" for u
    by (rule task_ok_older [of s])
      (use that apply_okD(3) [OF assms, of u] gens_older [OF assms that] log(1) in \<open>simp_all add: state\<close>)
  have ok: "apply_ok (SumsTask ?g target # ap_tasks s) s1"
  proof (rule apply_okI)
    show "distinct (map task_gen (SumsTask ?g target # ap_tasks s))"
      using apply_okD(1) [OF assms] gens_fresh [OF assms] by simp
    show "task_gen u \<le> ap_generation s1 \<and> task_ok s1 u" if "u \<in> set (SumsTask ?g target # ap_tasks s)" for u
      using that kept apply_okD(2) [OF assms, of u] by (auto simp: state)
    show "a < ap_generation s1" if "a \<in> ap_aborted s1" for a
      using that apply_okD(7) [OF assms, of a] by (simp add: state)
    show "\<exists>u\<in>set (SumsTask ?g target # ap_tasks s). task_gen u = h \<and> task_path u = Some q"
      if "map_get (ap_claims s1) q = Some h" for q h
      using that apply_okD(8) [OF assms, of q h] by (auto simp: state)
    show "disposed q (ap_log s1)" if "map_get (ap_claims s1) q = None" for q
      using that apply_okD(9) [OF assms, of q] log(2) by (simp only: state)
    show "installs_ok (ap_log s1)" using apply_okD(10) [OF assms] by (simp only: state log(3))
  qed (simp_all add: state)
  have eq: "begin_apply target s = start_run ?g target s1"
    using False by (simp add: begin_apply_def Let_def s1_def)
  show ?thesis
  proof (cases "at_checksums target")
    case None
    then show ?thesis
      using fail_ok [OF ok, of False target] by (simp add: eq start_run_def state)
  next
    case (Some cs)
    have pub: "apply_ok (SumsTask ?g target # ap_tasks s) (publishIfCurrent ?g (ApVerifying (at_version target)) s1)"
      using publish_ok [OF ok] by simp
    have "apply_ok (SumsTask ?g target # ap_tasks s)
        (publishIfCurrent ?g (ApVerifying (at_version target)) s1\<lparr>ap_log := FetchText ?g (ua_url cs) # ap_log s1\<rparr>)"
      using log_ok [OF pub, of "FetchText ?g (ua_url cs)"] by simp
    then show ?thesis by (simp add: eq start_run_def Some state)
  qed
qed

lemma cancel_apply_ok:
  assumes "apply_ok (ap_tasks s) s"
  shows "apply_ok (ap_tasks (cancel_apply s)) (cancel_apply s)"
proof -
  let ?s = "cancel_apply s"
  have state: "ap_running ?s = False" "ap_generation ?s = ap_generation s + 1" "ap_controller ?s = None"
    "ap_retained ?s = ap_retained s" "ap_claims ?s = ap_claims s" "ap_tasks ?s = ap_tasks s" "ap_log ?s = ap_log s"
    "ap_aborted ?s = (case ap_controller s of Some c \<Rightarrow> insert c (ap_aborted s) | None \<Rightarrow> ap_aborted s)"
    "\<not> live (ap_state ?s)"
    by (simp_all add: cancel_apply_def)
  note older = gens_older [OF assms]
  have kept: "task_ok ?s u" if "u \<in> set (ap_tasks s)" for u
    by (rule task_ok_older [of s]) (use that apply_okD(3) [OF assms, of u] older [OF that] in \<open>simp_all add: state\<close>)
  show ?thesis
  proof (rule apply_okI)
    show "task_gen u \<le> ap_generation ?s \<and> task_ok ?s u" if "u \<in> set (ap_tasks ?s)" for u
      using that kept apply_okD(2) [OF assms, of u] by (simp add: state)
    show "ap_running ?s \<longleftrightarrow> ap_generation ?s \<in> task_gen ` set (ap_tasks ?s)"
      using gens_fresh [OF assms] by (simp add: state)
    show "a < ap_generation ?s" if "a \<in> ap_aborted ?s" for a
      using that apply_okD(7) [OF assms, of a] apply_okD(6) [OF assms] by (auto simp: state split: option.splits)
    show "vouched p (ua_name a) (ap_log ?s) \<and> map_get (ap_claims ?s) p = None \<and>
        (\<forall>u\<in>set (ap_tasks ?s). task_gen u = ap_generation ?s \<longrightarrow> again u)" if "ap_retained ?s = Some (p, a, v)" for p a v
      using that apply_okD(11) [OF assms, of p a v] older by (auto simp: state)
  qed (use apply_okD(1,8-10) [OF assms] in \<open>simp_all add: state\<close>)
qed

lemma reapply_ok:
  assumes "apply_ok (ap_tasks s) s"
  shows "apply_ok (ap_tasks (reapply s)) (reapply s)"
proof (cases "\<exists>p a v w. \<not> ap_running s \<and> ap_retained s = Some (p, a, v) \<and> handed_version (ap_state s) = Some w")
  case False
  then have "reapply s = s" by (auto simp: reapply_def split: option.split prod.split bool.split)
  then show ?thesis using assms by simp
next
  case True
  then obtain p a v w where r: "\<not> ap_running s" "ap_retained s = Some (p, a, v)" "handed_version (ap_state s) = Some w"
    by blast
  let ?s = "reapply s" and ?g = "ap_generation s + 1"
  have state: "ap_running ?s = True" "ap_generation ?s = ?g" "ap_controller ?s = Some ?g"
    "ap_retained ?s = Some (p, a, v)" "ap_claims ?s = ap_claims s" "ap_tasks ?s = ReinstallTask ?g w # ap_tasks s"
    "ap_log ?s = Install ?g p a # ap_log s" "ap_aborted ?s = ap_aborted s"
    using r by (simp_all add: reapply_def Let_def)
  note older = gens_older [OF assms]
  have kept: "task_ok ?s u" if "u \<in> set (ap_tasks s)" for u
    by (rule task_ok_older [of s]) (use that apply_okD(3) [OF assms, of u] older [OF that] in \<open>simp_all add: state\<close>)
  show ?thesis
  proof (rule apply_okI)
    show "distinct (map task_gen (ap_tasks ?s))"
      using apply_okD(1) [OF assms] gens_fresh [OF assms] by (simp add: state)
    show "task_gen u \<le> ap_generation ?s \<and> task_ok ?s u" if "u \<in> set (ap_tasks ?s)" for u
      using that kept apply_okD(2) [OF assms, of u] by (auto simp: state)
    show "b < ap_generation ?s" if "b \<in> ap_aborted ?s" for b
      using that apply_okD(7) [OF assms, of b] by (simp add: state)
    show "\<exists>u\<in>set (ap_tasks ?s). task_gen u = h \<and> task_path u = Some q" if "map_get (ap_claims ?s) q = Some h" for q h
      using that apply_okD(8) [OF assms, of q h] by (auto simp: state)
    show "vouched q (ua_name b) (ap_log ?s) \<and> map_get (ap_claims ?s) q = None \<and>
        (\<forall>u\<in>set (ap_tasks ?s). task_gen u = ap_generation ?s \<longrightarrow> again u)" if "ap_retained ?s = Some (q, b, x)" for q b x
      using that apply_okD(11) [OF assms r(2)] older by (auto simp: state)
  qed (use apply_okD(9,10) [OF assms] apply_okD(11) [OF assms r(2)] in \<open>simp_all add: state\<close>)
qed

lemma take_task_ok:
  assumes "apply_ok (ap_tasks s) s" "t \<in> set (ap_tasks s)"
  shows "apply_ok (t # ap_tasks (take_task t s)) (take_task t s)"
  unfolding take_task_def using apply_ok_perm [OF assms(1), of "t # remove1 t (ap_tasks s)"] assms(2) by simp

lemma apply_answer_ok: "apply_answer stagePath s s' \<Longrightarrow> apply_ok (ap_tasks s) s \<Longrightarrow> apply_ok (ap_tasks s') s'"
proof (induction rule: apply_answer.induct)
  case (Arrived g target path expected pb pt arrival)
  show ?case by (rule download_answer_ok [OF take_task_ok [OF Arrived(2,1)]])
qed (simp_all add: sums_answer_ok progress_ok hash_answer_ok install_answer_ok reinstall_answer_ok take_task_ok)

lemma reach_apply_ok: "apply_reach stagePath s \<Longrightarrow> apply_ok (ap_tasks s) s"
proof (induction rule: apply_reach.induct)
  case Fresh
  show ?case by (simp add: apply_ok_def createUpdateApplier_def)
qed (simp_all add: begin_ok reapply_ok cancel_apply_ok apply_answer_ok)

end
