(* ===== verification/UpdateTheorems.thy ===== *)
theory UpdateTheorems
  imports ApplierLaws
begin

text \<open>
  What the update check and the update applier of \<open>packages/application/src/update.ts\<close> promise: the
  release offered is a newest one with a stageable artifact, nothing is installed without its published
  checksum, no run is wedged, and every staged file is removed or handed to the
  installer.
\<close>

section \<open>The release offered\<close>

lemma release_assets:
  assumes "parseRelease v = Some r" "a \<in> set (ur_assets r)"
  shows "isBareName (ua_name a) \<and> startsWith (ua_url a) ''https://''"
proof -
  have "a \<in> set (release_asset x) \<Longrightarrow> isBareName (ua_name a) \<and> startsWith (ua_url a) ''https://''" for x
    by (auto simp: release_asset_def split: if_splits jsval.splits)
  then show ?thesis
    using assms by (auto simp: parseRelease_def split: if_splits jsval.splits option.splits)
qed

lemma first_abi_mem: "first_abi assets abis = Some a \<Longrightarrow>
    a \<in> set assets \<and> isBareName (ua_name a) \<and> (\<exists>abi\<in>insert ''universal'' (set abis). apkAbi (ua_name a) = Some abi)"
  by (induction assets abis rule: first_abi.induct)
    (auto simp: byAbi_def split: option.splits dest!: find_Some_set)

lemma parsed_releases: "r \<in> set (parseReleases body) \<Longrightarrow> \<exists>v. parseRelease v = Some r"
  by (cases body) (auto simp: List.map_filter_def)

text \<open>The files of each platform, apart from the code that picks them: the installer's name, and the name
  of its checksum file.\<close>

definition installs_on :: "updateTarget \<Rightarrow> string \<Rightarrow> bool" where
  "installs_on target name \<longleftrightarrow>
     (case target of
        Android abis \<Rightarrow> \<exists>abi\<in>insert ''universal'' (set abis). apkAbi name = Some abi
      | Linux PreferAppimage \<Rightarrow> \<exists>s. name = s @ ''.AppImage''
      | Linux PreferFlatpak \<Rightarrow> \<exists>s. name = s @ ''.flatpak''
      | Mac \<Rightarrow> \<exists>s. name = s @ ''.dmg''
      | Win \<Rightarrow> \<exists>s. name = s @ ''-setup.exe''
      | OtherOs \<Rightarrow> False)"

definition sums_of :: "updateTarget \<Rightarrow> string \<Rightarrow> bool" where
  "sums_of target name \<longleftrightarrow>
     (case target of
        Android abis \<Rightarrow> name = ''SHA256SUMS-Android.txt''
      | Linux p \<Rightarrow> name = ''SHA256SUMS-Linux.txt''
      | Mac \<Rightarrow> name = ''SHA256SUMS-macOS.txt''
      | Win \<Rightarrow> name = ''SHA256SUMS-Windows.txt''
      | OtherOs \<Rightarrow> False)"

lemma endsWith_split: "endsWith s p \<Longrightarrow> \<exists>r. s = r @ p"
  unfolding endsWith_def by (metis append_take_drop_id)

lemma wants_installs: "wants target name \<Longrightarrow> installs_on target name"
  by (cases "(target, name)" rule: wants.cases) (auto simp: installs_on_def dest: endsWith_split)

lemma picked_installs:
  assumes "pickArtifact assets target = Some a"
  shows "a \<in> set assets \<and> isBareName (ua_name a) \<and> installs_on target (ua_name a)"
proof (cases target)
  case (Android abis)
  then show ?thesis using assms first_abi_mem by (auto simp: pickArtifact_def installs_on_def)
qed (use assms wants_installs in \<open>auto simp: pickArtifact_def dest!: find_Some_set\<close>)

lemma picked_sums:
  "pickChecksums assets target = Some c \<Longrightarrow> c \<in> set assets \<and> sums_of target (ua_name c)"
  by (cases target) (auto simp: pickChecksums_def sums_of_def dest!: find_Some_set)

text \<open>C39: An update is offered only from a successful reply, and then it is a release of that reply
  whose version is strictly above the running one and below no release of the reply, in the order of
  \<open>version_key\<close>: the three numbers, then a release over its prereleases, then the prerelease
  identifiers one by one, numbers below words. The artifact offered for self-install is one of its
  assets with a bare file name, an https link and the name of this platform's installer (for Android,
  built for an ABI the device supports, or universal), and the checksum file is this platform's.\<close>

theorem update_offer_sound:
  assumes "judge_reply current target (FetchReply status body) = UpdAvailable version url artifact sums_asset"
  shows "200 \<le> status \<and> status < 300 \<and>
    (\<exists>r\<in>set (parseReleases body). version = ur_version r \<and> url = ur_url r \<and>
       (\<exists>offered running. parse version = Some offered \<and> parse current = Some running \<and>
          version_key running < version_key offered \<and>
          (\<forall>x\<in>set (parseReleases body). \<forall>other. parse (ur_version x) = Some other \<longrightarrow>
             version_key other \<le> version_key offered)) \<and>
       (\<forall>a. artifact = Some a \<longrightarrow> a \<in> set (ur_assets r) \<and> isBareName (ua_name a) \<and>
          startsWith (ua_url a) ''https://'' \<and> installs_on target (ua_name a)) \<and>
       (\<forall>c. sums_asset = Some c \<longrightarrow> c \<in> set (ur_assets r) \<and> sums_of target (ua_name c)))"
proof -
  have status: "200 \<le> status \<and> status < 300"
    using assms by (auto simp: judge_reply_def split: if_splits)
  obtain r where r: "latestNewer (parseReleases body) current = Some r"
    and v: "version = ur_version r" "url = ur_url r" "artifact = pickArtifact (ur_assets r) target"
      "sums_asset = pickChecksums (ur_assets r) target"
    using assms by (auto simp: judge_reply_def split: if_splits jsval.splits option.splits)
  note best = latest_greatest [of "parseReleases body" current, unfolded r option.case]
  obtain w where w: "parseRelease w = Some r" using parsed_releases best by blast
  obtain offered running where keys: "parse version = Some offered" "parse current = Some running"
      "version_key running < version_key offered"
    using best v(1) by (auto simp: newer_key)
  have top: "version_key other \<le> version_key offered"
    if "x \<in> set (parseReleases body)" "parse (ur_version x) = Some other" for x other
    using best that keys(1) v(1) by (auto simp: newer_key not_less)
  have art: "a \<in> set (ur_assets r) \<and> isBareName (ua_name a) \<and> startsWith (ua_url a) ''https://'' \<and>
      installs_on target (ua_name a)" if "artifact = Some a" for a
    using picked_installs [OF that [unfolded v(3)]] release_assets [OF w] by blast
  have sums: "c \<in> set (ur_assets r) \<and> sums_of target (ua_name c)" if "sums_asset = Some c" for c
    using that picked_sums by (simp add: v)
  have mem: "r \<in> set (parseReleases body)" using best by blast
  show ?thesis
    by (intro conjI bexI [OF _ mem] exI [of _ offered] exI [of _ running] ballI allI impI)
      (use status keys top art sums v(1,2) in simp_all)
qed

section \<open>Installs\<close>

lemma installs_ok_split: "installs_ok (l1 @ Install g p a # l2) \<Longrightarrow> vouched p (ua_name a) l2"
proof (induction l1)
  case (Cons t l1)
  then show ?case by (cases t) simp_all
qed simp

text \<open>C36: Whatever the order of begins, cancels, re-applies and port answers, every install the applier
  asks the platform for was vouched for: some run had fetched a checksum file that lists this artifact,
  downloaded the artifact to that path, hashed the file there and found the published hash, and between
  that download and the install nothing was staged to the path or removed from it.\<close>

theorem update_install_vouched:
  assumes "apply_reach stagePath s" "ap_log s = later @ Install g path artifact # earlier"
  shows "vouched path (ua_name artifact) earlier"
  by (rule installs_ok_split [OF apply_okD(10) [OF reach_apply_ok [OF assms(1)], unfolded assms(2)]])

text \<open>C38: A busy status is never a dead end: while the applier shows a download, a verification or an
  install it is running; a run has exactly one port call outstanding, whose answer resumes it, and when
  it is not running no call of the current run is outstanding, so the next begin starts one.\<close>

theorem update_never_wedged:
  assumes "apply_reach stagePath s"
  shows "(live (ap_state s) \<longrightarrow> ap_running s) \<and>
    length (filter (\<lambda>t. task_gen t = ap_generation s) (ap_tasks s)) = (if ap_running s then 1 else 0)"
proof -
  note ok = reach_apply_ok [OF assms]
  have "length (filter (\<lambda>g. g = ap_generation s) gs) = (if ap_generation s \<in> set gs then 1 else 0)" if "distinct gs" for gs
    using that by (induction gs) auto
  from this [OF apply_okD(1) [OF ok]]
  have "length (filter (\<lambda>t. task_gen t = ap_generation s) (ap_tasks s)) =
      (if ap_generation s \<in> task_gen ` set (ap_tasks s) then 1 else 0)"
    by (simp add: filter_map comp_def)
  then show ?thesis using apply_okD(4,5) [OF ok] by simp
qed

text \<open>C37: Once no port call is outstanding, every file that was ever staged has since been removed or
  handed to the platform's installer. A run that is cancelled, superseded, failed or rejected before it
  asks for an install leaves no file; a file whose install was requested counts as handed over, also
  when the install then fails or a re-apply is refused (\<open>reapply_refused_keeps_file\<close>).\<close>

theorem update_nothing_stranded:
  assumes "apply_reach stagePath s" "ap_tasks s = []"
  shows "disposed path (ap_log s)"
proof (rule apply_okD(9) [OF reach_apply_ok [OF assms(1)]])
  show "map_get (ap_claims s) path = None"
    using apply_okD(8) [OF reach_apply_ok [OF assms(1)], of path] assms(2) by (cases "map_get (ap_claims s) path") auto
qed

section \<open>A sample run\<close>

definition sample_artifact :: updateArtifact where
  "sample_artifact = \<lparr>ua_name = ''a.dmg'', ua_url = ''https://h/a.dmg''\<rparr>"

definition dmg_target :: applyTarget where
  "dmg_target = \<lparr>at_version = ''2.0.0'', at_artifact = sample_artifact,
     at_checksums = Some \<lparr>ua_name = ''SHA256SUMS-macOS.txt'', ua_url = ''https://h/s''\<rparr>\<rparr>"

definition sample_hash :: string where "sample_hash = replicate 64 CHR ''a''"

definition sample_path :: "updateArtifact \<Rightarrow> jsval + string" where "sample_path a = Inr (''/tmp/'' @ ua_name a)"

definition verified_run :: applier where
  "verified_run =
     hash_answer 1 dmg_target ''/tmp/a.dmg'' sample_hash (Inr sample_hash)
      (take_task (HashTask 1 dmg_target ''/tmp/a.dmg'' sample_hash)
       (download_answer 1 dmg_target ''/tmp/a.dmg'' sample_hash (Inr ())
        (take_task (DownloadTask 1 dmg_target ''/tmp/a.dmg'' sample_hash 0 None)
         (sums_answer sample_path 1 dmg_target (Inr (sample_hash @ ''  a.dmg''))
          (take_task (SumsTask 1 dmg_target) (begin_apply dmg_target createUpdateApplier))))))"

lemmas answered = apply_reach.Answer [OF _ apply_answer.Sums] apply_reach.Answer [OF _ apply_answer.Arrived]
  apply_reach.Answer [OF _ apply_answer.Digest]

lemma verified_reach: "apply_reach sample_path verified_run"
  unfolding verified_run_def
  by (rule answered(3), rule answered(2), rule answered(1), rule apply_reach.Begin, rule apply_reach.Fresh) code_simp+

lemma verified_log:
  "ap_log verified_run = [] @ Install 1 ''/tmp/a.dmg'' sample_artifact # tl (ap_log verified_run)"
  by code_simp

theorem update_install_vouched_witness:
  "Install 1 ''/tmp/a.dmg'' sample_artifact \<in> set (ap_log verified_run) \<and>
   vouched ''/tmp/a.dmg'' (ua_name sample_artifact) (tl (ap_log verified_run))"
proof -
  have "Install 1 ''/tmp/a.dmg'' sample_artifact \<in> set (ap_log verified_run)" by (subst verified_log) simp
  then show ?thesis using update_install_vouched [OF verified_reach verified_log] by blast
qed

theorem update_never_wedged_witness:
  "live (ap_state verified_run) \<and> ap_running verified_run \<and>
   length (filter (\<lambda>t. task_gen t = ap_generation verified_run) (ap_tasks verified_run)) = 1"
proof -
  have "live (ap_state verified_run)" by code_simp
  then show ?thesis using update_never_wedged [OF verified_reach] by simp
qed

text \<open>The same run with a download that does not match its published hash.\<close>

definition rejected_run :: applier where
  "rejected_run =
     hash_answer 1 dmg_target ''/tmp/a.dmg'' sample_hash (Inr (CHR ''b'' # tl sample_hash))
      (take_task (HashTask 1 dmg_target ''/tmp/a.dmg'' sample_hash)
       (download_answer 1 dmg_target ''/tmp/a.dmg'' sample_hash (Inr ())
        (take_task (DownloadTask 1 dmg_target ''/tmp/a.dmg'' sample_hash 0 None)
         (sums_answer sample_path 1 dmg_target (Inr (sample_hash @ ''  a.dmg''))
          (take_task (SumsTask 1 dmg_target) (begin_apply dmg_target createUpdateApplier))))))"

lemma rejected_reach: "apply_reach sample_path rejected_run"
  unfolding rejected_run_def
  by (rule answered(3), rule answered(2), rule answered(1), rule apply_reach.Begin, rule apply_reach.Fresh) code_simp+

theorem update_nothing_stranded_witness:
  "ap_tasks rejected_run = [] \<and> Remove ''/tmp/a.dmg'' \<in> set (ap_log rejected_run) \<and>
   disposed ''/tmp/a.dmg'' (ap_log rejected_run)"
proof -
  have "ap_tasks rejected_run = []" "Remove ''/tmp/a.dmg'' \<in> set (ap_log rejected_run)" by code_simp+
  then show ?thesis using update_nothing_stranded [OF rejected_reach, of "''/tmp/a.dmg''"] by blast
qed

definition sample_body :: jsval where
  "sample_body = JArr [JObj [(''draft'', JBool False), (''tag_name'', JStr ''v2.0.0''), (''html_url'', JStr ''https://h/r''),
     (''assets'', JArr [JObj [(''name'', JStr ''a.dmg''), (''browser_download_url'', JStr ''https://h/a.dmg'')]])]]"

lemma parse_small:
  "parseInt10 ''0'' = jint 0" "parseInt10 ''1'' = jint 1" "parseInt10 ''2'' = jint 2"
  using to_double_nat [of 0] to_double_nat [of 1] to_double_nat [of 2]
  by (simp_all add: parseInt10_def js_space_def is_digit_def parse_digits_def digit_val_def)

lemma sample_newer: "newer ''2.0.0'' ''1.0.0''"
proof -
  have "parse ''2.0.0'' = Some \<lparr>pv_numbers = [jint 2, jint 0, jint 0], pv_prerelease = []\<rparr>"
    "parse ''1.0.0'' = Some \<lparr>pv_numbers = [jint 1, jint 0, jint 0], pv_prerelease = []\<rparr>"
    by (simp_all add: parse_def parse_small safe_int_def)
  then show ?thesis by (simp add: newer_key version_key_def)
qed

lemma sample_releases: "parseReleases sample_body =
    [\<lparr>ur_version = ''2.0.0'', ur_url = ''https://h/r'', ur_assets = [sample_artifact]\<rparr>]"
  by code_simp

lemma sample_offer: "judge_reply ''1.0.0'' Mac (FetchReply 200 sample_body) =
    UpdAvailable ''2.0.0'' ''https://h/r'' (Some sample_artifact) None"
proof -
  have "latestNewer (parseReleases sample_body) ''1.0.0'' =
      Some \<lparr>ur_version = ''2.0.0'', ur_url = ''https://h/r'', ur_assets = [sample_artifact]\<rparr>"
    using sample_newer by (simp add: sample_releases latestNewer_def better_release_def not_newer [simplified])
  moreover have "pickArtifact [sample_artifact] Mac = Some sample_artifact" "pickChecksums [sample_artifact] Mac = None"
    by code_simp+
  ultimately show ?thesis
    by (auto simp: judge_reply_def split: jsval.split) (simp_all add: sample_body_def)
qed

theorem update_offer_sound_witness:
  "(\<exists>offered running. parse ''2.0.0'' = Some offered \<and> parse ''1.0.0'' = Some running \<and>
     version_key running < version_key offered) \<and> installs_on Mac (ua_name sample_artifact)"
  using update_offer_sound [OF sample_offer] by auto

section \<open>The service\<close>

text \<open>C40: The check is busy exactly while one fetch is outstanding, never more, so a check in flight is
  shared and a settled one always clears it; the apply status shown is the applier's own; and the applier
  behind the service is only ever driven through its own calls, so everything above holds of it.\<close>

theorem update_service_consistent:
  assumes "update_reach currentVersion target stagePath u"
  shows "up_fetches u = (if up_inflight u then 1 else 0) \<and> (up_status u = UpdChecking \<longleftrightarrow> up_inflight u) \<and>
    up_apply u = ap_state (up_applier u) \<and> apply_reach stagePath (up_applier u)"
  using assms
proof (induction rule: update_reach.induct)
  case Created
  show ?case by (simp add: createUpdateService_def createUpdateApplier_def apply_reach.Fresh [unfolded createUpdateApplier_def])
next
  case (Check u kind)
  then show ?case by (cases kind) (auto simp: start_check_def publish_status_def)
next
  case (CheckSettled u reply)
  have "judge_reply currentVersion target reply \<noteq> UpdChecking"
    by (auto simp: judge_reply_def split: fetchResult.split jsval.split option.split)
  then show ?case using CheckSettled by (auto simp: check_settled_def publish_status_def split: if_splits)
next
  case (Apply u)
  then show ?case
    by (auto simp: service_apply_def applier_step_def publish_status_def apply_reach.Begin
        split: updateStatus.split option.split)
next
  case (Answered u a)
  then show ?case by (auto simp: applier_step_def publish_status_def intro: apply_reach.Answer)
qed (auto simp: applier_step_def publish_status_def apply_reach.Reapply apply_reach.CancelApply)

theorem update_service_consistent_witness:
  "up_fetches (check BootCheck createUpdateService) = 1 \<and> up_status (check BootCheck createUpdateService) = UpdChecking"
proof -
  have "update_reach ''1.0.0'' Mac sample_path (check BootCheck createUpdateService)"
    by (intro update_reach.Check update_reach.Created)
  moreover have "up_inflight (check BootCheck createUpdateService)"
    by (simp add: start_check_def createUpdateService_def publish_status_def)
  ultimately show ?thesis using update_service_consistent by fastforce
qed

text \<open>A re-apply that the platform refuses forgets the retained stage without removing it: the file is
  no longer claimed or retained, and no later call can remove it before it is staged again.\<close>

definition refused_run :: applier where
  "refused_run =
     reinstall_answer 2 ''2.0.0'' (Inl JUndef) (take_task (ReinstallTask 2 ''2.0.0'')
       (reapply (install_answer 1 dmg_target ''/tmp/a.dmg'' (Inr Installed)
          (take_task (InstallTask 1 dmg_target ''/tmp/a.dmg'') verified_run))))"

lemma reapply_refused_keeps_file:
  "ap_retained refused_run = None \<and> ap_claims refused_run = [] \<and> ap_tasks refused_run = [] \<and>
   Remove ''/tmp/a.dmg'' \<notin> set (ap_log refused_run) \<and> live (ap_state refused_run) = False"
  by code_simp

end
