(* ===== verification/Spec2Isabelle.thy ===== *)
theory Spec2Isabelle
  imports CoreTheorems SyncTheorems QueueTheorems PlaylistTheorems HistoryTheorems MatchingTheorems CorrectionsTheorems LedgerTheorems
    Utf8 Retry RadioTail PeaksTheorems UpdateTheorems
begin

text \<open>
  A verification library for the application core of a music player written in TypeScript,
  \<open>packages/application/src\<close>. The program keeps a personal library (recordings, likes,
  playlists, play counts, settings), plays a queue of it, and keeps the library in step across
  devices without a server: every edit becomes a stamped entry of a log, devices exchange pages
  of their logs, and each one merges what it receives.

  \<^bold>\<open>Shared vocabulary.\<close> \<open>Prelude\<close> holds the exceptions, the shape of a stateful call, the
  JavaScript \<open>Map\<close> as an association list in insertion order, array splices, the stable sort, and
  the interfaces as locales: \<open>comparator\<close>, \<open>codec\<close>, \<open>atomic_machine\<close>, \<open>clock_machine\<close>,
  \<open>order_free_fold\<close>. \<open>JsValue\<close> holds JavaScript numbers and values as the runtime guards see them,
  \<open>Decimal\<close> the decimal numerals, \<open>Doubles\<close> the rounding of an exact rational to a binary64
  double, executable, with monotonicity, exactness on small integers and the absence of overflow
  where the code relies on it.

  \<^bold>\<open>Guards and errors.\<close> \<open>DomainGuards\<close> models the type guards of \<open>domain.ts\<close> and
  \<open>library/library.ts\<close>, one definition per guard, in the source's order of tests; \<open>Errors\<close> models
  \<open>errors.ts\<close>: the taxonomy, its slug table and the classification of provider walls.

  \<^bold>\<open>Sync.\<close> \<open>Hlc\<close> is the hybrid logical clock of \<open>sync/hlc.ts\<close> (a state with \<open>tick\<close> and
  \<open>receive\<close>), \<open>EntryOrder\<close> is \<open>sync/entry-order.ts\<close> and the composite record ids of
  \<open>sync/sync-engine.ts\<close>. The engine itself is split along its state: \<open>SyncRules\<close> (kinds, fields,
  merge modes and the wire guards), \<open>SyncMerge\<close> (the reducer: tombstones, last writer wins,
  per-device sums, equal-stamp ties), \<open>SyncMarks\<close> (which seqs were seen, the gapless marks and the
  cursor), \<open>SyncLog\<close> and \<open>SyncExport\<close> (log lanes, binary search, paged export and skipped rows),
  \<open>SyncEngine\<close> (writes, applies, append, compaction, divergence history, hydration, the
  operation wrapper). \<open>SyncConverge\<close>, \<open>SyncState\<close> and \<open>SyncView\<close> prove that the merge state is a
  function of the set of accepted entries, given by a specification without any order (newest
  tombstone, greatest live entry, sum of per-device maxima). \<open>SyncSafety\<close> proves the engine
  invariant kept by every operation, \<open>SyncReplica\<close> defines the reachable replicas as an inductive
  relation (install, write, apply, export, restart), \<open>SyncTheorems\<close> and \<open>CoreTheorems\<close> state the
  properties.

  \<^bold>\<open>Queue.\<close> \<open>QueueEngine\<close> models the class of \<open>queue/queue-engine.ts\<close>: one record with both
  caches, one function per method. \<open>QueueLaws\<close> proves that each method throws without effect, does
  nothing, or changes something and ticks once, and interprets \<open>atomic_machine\<close> on it;
  \<open>QueueTheorems\<close> states the properties, including where the persistence guard and the engine
  disagree.

  \<^bold>\<open>Library.\<close> \<open>Playlists\<close> (with \<open>PlaylistLaws\<close>, \<open>PlaylistTheorems\<close>) models
  \<open>library/playlists.ts\<close> with positions as doubles. \<open>History\<close> (with \<open>HistoryLaws\<close>,
  \<open>HistoryTheorems\<close>) models \<open>library/history.ts\<close> and \<open>library/likes.ts\<close>; the bounded heap of the
  Top 50 is proved against sorting inside the interface \<open>comparator\<close>.

  \<^bold>\<open>Matching.\<close> \<open>Catalog\<close> and \<open>Matching\<close> model the rows and the scoring of
  \<open>matching/matching-engine.ts\<close>; \<open>MatchingLaws\<close> and \<open>MatchingTheorems\<close> bound the evidence and show
  which verdicts a match honours. \<open>CatalogValues\<close>, \<open>Corrections\<close> and \<open>CorrectionsTheorems\<close> model the
  review queue of \<open>library/corrections.ts\<close>: its guard, enqueue, resolution and undo.

  \<^bold>\<open>Downloads.\<close> \<open>Sha256\<close> is \<open>downloads/sha256.ts\<close> on 32-bit words, proved equal to the one-shot
  hash whatever the chunks. \<open>Downloads\<close> (with \<open>DownloadTheorems\<close>) is the transfer of
  \<open>downloads/transfer-policy.ts\<close> over parametric ports, \<open>DownloadLedger\<close> (with \<open>LedgerTheorems\<close>) the
  rows, the scheduling choice and the startup integrity pass of \<open>downloads/download-manager.ts\<close>.

  \<^bold>\<open>Runtime and radio.\<close> \<open>Utf8\<close> models \<open>utf8.ts\<close> on 16-bit code units; \<open>Retry\<close> the loop of
  \<open>retry.ts\<close> over a parametric world; \<open>Ids\<close> the id source of \<open>runtime-impls.ts\<close>, behind the
  interface \<open>id_source\<close> that \<open>RadioTail\<close> (\<open>queue/radio-tail.ts\<close>) relies on.

  \<^bold>\<open>Asynchronous machines.\<close> Two components are closures over shared state whose port calls settle
  in any order. Each is an inductive set of reachable states over the calls and the answers; the
  operations outstanding are tasks that hold the local variables of their continuation.
  \<open>PeaksTracker\<close> (with \<open>PeaksLaws\<close>, \<open>PeaksTheorems\<close>) is the waveform tracker of
  \<open>peaks-tracker.ts\<close>: no sweep is wedged, a finished profile serves every later pull, the cache keeps
  its limit. \<open>UpdateCheck\<close> and \<open>UpdateApplier\<close> (with \<open>UpdateLaws\<close>, \<open>ApplierLaws\<close>,
  \<open>UpdateTheorems\<close>) model \<open>update.ts\<close>: the order of versions, the release offered, and the apply
  pipeline, whose log of port traffic shows that nothing is installed without its published checksum and
  that every staged file has been removed or handed to the installer (a re-apply that the platform
  refuses leaves the handed-over file where it is, lemma \<open>reapply_refused_keeps_file\<close>).

  \<^bold>\<open>Modelling choices.\<close> Numbers from callers are \<open>jsnum\<close> and go through the code's checks; once
  checked they are naturals, and a sum that the code lets grow past \<open>2^53\<close> is written with its
  saturation or rounding. Exceptions and error results are values. A promise-returning operation
  of the sync engine is one call on the whole state, because the engine serializes its operations;
  what the storage answers is an argument of the call. Loops are structural recursions or
  functions with a proved measure; the transfer loop, which runs as long as its ports make it, is a
  partial function with a proof that it returns. Nothing uses fuel. Strings are lists of 8-bit code
  units, except in \<open>Utf8\<close>. Object copies and freezing are the identity on values. Where the sync
  engine uses an ordinary object as a table of devices, the key \<open>__proto__\<close> and the names of inherited
  members behave as in JavaScript (\<open>put_own\<close>, \<open>reads_member\<close>); the properties say where it matters.

  \<^bold>\<open>Not modelled.\<close> The transports (\<open>sync/noise.ts\<close>, \<open>sync/sync-client.ts\<close>, \<open>sync/sync-host.ts\<close>,
  \<open>sync/sync-responder.ts\<close>, \<open>sync/sync-wire.ts\<close>) and their scheduler, which are I/O around the engine;
  the projection of the log onto the library tables; the session orchestrators (\<open>session/\<close>), the search
  session, the provider adapters, authentication and the local source; lyrics, artwork and the export
  file; the storage adapter (\<open>packages/storage-sqlite\<close>); the user interface packages and the two apps.
  The race of a retried call with its watchdog, the runner table of the download manager, listeners and
  log output are left out of the components that have them.
\<close>

end
